(* ===== verification/Prelude.thy ===== *)
theory Prelude
  imports Main "HOL-Library.Word"
begin

text \<open>
  Shared vocabulary of the development.

  \<^item> The machine integers of the C sources (\<open>uint8_t\<close> \<dots> \<open>uint64_t\<close>) as words and byte
    buffers as byte lists.
  \<^item> Fallible, stateful C functions as operations: a function from the state to a result
    (an error code or a value) and the state it leaves. An early \<open>return\<close> with an error is
    \<open>fail\<close>, \<open>if (cond) return e;\<close> is \<open>reject_if\<close>, and
    \<open>if (f(..) != OK) return e;\<close> is \<open>or_fail\<close>.
  \<^item> A small calculus (\<open>yields\<close>, \<open>gives\<close>) to read the result of an operation
    off its body under an invariant of the state, with a flag that says whether the
    environment (an accelerator) may fail.
  \<^item> Big-endian encodings and the list and word facts the components share.
\<close>

unbundle bit_operations_syntax

section \<open>Machine types\<close>

type_synonym u8 = "8 word"
type_synonym u16 = "16 word"
type_synonym u32 = "32 word"
type_synonym u64 = "64 word"
type_synonym bytes = "u8 list"

named_theorems op_defs \<open>definitions of the operation combinators\<close>
named_theorems len_simps \<open>lengths of encoded buffers\<close>
named_theorems gives_intros \<open>results of operations, read off their bodies\<close>

section \<open>Operations: state, result and error\<close>

type_synonym ('e, 's, 'a) op = "'s \<Rightarrow> ('e + 'a) \<times> 's"

definition ret :: "'a \<Rightarrow> ('e, 's, 'a) op" where
  [op_defs]: "ret x = (\<lambda>s. (Inr x, s))"

definition fail :: "'e \<Rightarrow> ('e, 's, 'a) op" where
  [op_defs]: "fail e = (\<lambda>s. (Inl e, s))"

definition bind :: "('e, 's, 'a) op \<Rightarrow> ('a \<Rightarrow> ('e, 's, 'b) op) \<Rightarrow> ('e, 's, 'b) op" where
  [op_defs]: "bind m f = (\<lambda>s. case m s of (Inl e, s') \<Rightarrow> (Inl e, s') | (Inr x, s') \<Rightarrow> f x s')"

definition andthen :: "('e, 's, 'a) op \<Rightarrow> ('e, 's, 'b) op \<Rightarrow> ('e, 's, 'b) op" where
  [op_defs]: "andthen m k = bind m (\<lambda>_. k)"

definition or_fail :: "'e \<Rightarrow> ('d, 's, 'a) op \<Rightarrow> ('e, 's, 'a) op" where
  [op_defs]: "or_fail e m = (\<lambda>s. case m s of (Inl _, s') \<Rightarrow> (Inl e, s') | (Inr x, s') \<Rightarrow> (Inr x, s'))"

definition reject_if :: "bool \<Rightarrow> 'e \<Rightarrow> ('e, 's, unit) op" where
  [op_defs]: "reject_if b e = (if b then fail e else ret ())"

definition look :: "('s \<Rightarrow> 'a) \<Rightarrow> ('e, 's, 'a) op" where
  [op_defs]: "look g = (\<lambda>s. (Inr (g s), s))"

definition modify :: "('s \<Rightarrow> 's) \<Rightarrow> ('e, 's, unit) op" where
  [op_defs]: "modify g = (\<lambda>s. (Inr (), g s))"

text \<open>
  \<open>attempt m\<close> runs \<open>m\<close> and hands its outcome to the caller instead of stopping: the
  shape \<open>status = f(..); if (status == OK) .. else ..\<close>.
\<close>

definition attempt :: "('d, 's, 'a) op \<Rightarrow> ('e, 's, 'd + 'a) op" where
  [op_defs]: "attempt m = (\<lambda>s. case m s of (r, s') \<Rightarrow> (Inr r, s'))"

text \<open>
  The two loop shapes of the sources: \<open>for_each\<close> writes one buffer slot per iteration,
  \<open>fold_each\<close> updates an accumulator. Both stop at the first error.
\<close>

fun for_each :: "('i \<Rightarrow> ('e, 's, 'a) op) \<Rightarrow> 'i list \<Rightarrow> ('e, 's, 'a list) op" where
  "for_each f [] = ret []"
| "for_each f (i # is) = bind (f i) (\<lambda>x. bind (for_each f is) (\<lambda>xs. ret (x # xs)))"

fun fold_each :: "('i \<Rightarrow> 'a \<Rightarrow> ('e, 's, 'a) op) \<Rightarrow> 'i list \<Rightarrow> 'a \<Rightarrow> ('e, 's, 'a) op" where
  "fold_each f [] a = ret a"
| "fold_each f (i # is) a = bind (f i a) (\<lambda>a'. fold_each f is a')"

section \<open>Reading results off operations\<close>

text \<open>
  \<open>yields fl I m R\<close>: started in any state of the invariant \<open>I\<close>, operation \<open>m\<close> leaves a
  state of \<open>I\<close>, and its result satisfies \<open>R\<close>, or, where \<open>fl\<close> allows the environment to
  fail, is an error. \<open>gives fl I m r\<close> is the case of one exact result.
\<close>

definition yields :: "bool \<Rightarrow> ('s \<Rightarrow> bool) \<Rightarrow> ('e, 's, 'a) op \<Rightarrow> ('e + 'a \<Rightarrow> bool) \<Rightarrow> bool" where
  "yields fl I m R \<longleftrightarrow>
     (\<forall>s. I s \<longrightarrow> (R (fst (m s)) \<or> fl \<and> isl (fst (m s))) \<and> I (snd (m s)))"

definition gives :: "bool \<Rightarrow> ('s \<Rightarrow> bool) \<Rightarrow> ('e, 's, 'a) op \<Rightarrow> 'e + 'a \<Rightarrow> bool" where
  "gives fl I m r \<longleftrightarrow> yields fl I m (\<lambda>x. x = r)"

lemma yieldsI:
  assumes "\<And>s. I s \<Longrightarrow> R (fst (m s)) \<or> fl \<and> isl (fst (m s))" and "\<And>s. I s \<Longrightarrow> I (snd (m s))"
  shows "yields fl I m R"
  using assms by (simp add: yields_def)

lemma givesI:
  assumes "\<And>s. I s \<Longrightarrow> fst (m s) = r \<or> fl \<and> isl (fst (m s))" and "\<And>s. I s \<Longrightarrow> I (snd (m s))"
  shows "gives fl I m r"
  using assms by (simp add: gives_def yields_def)

lemma gives_run:
  assumes "gives False I m r" and "I s"
  shows "fst (m s) = r" and "I (snd (m s))"
  using assms by (auto simp: gives_def yields_def)

lemma gives_run_partial:
  assumes "gives fl I m r" and "I s" and "fst (m s) = Inr x"
  shows "r = Inr x"
  using assms by (auto simp: gives_def yields_def)

lemma yields_run:
  assumes "yields fl I m R" and "I s"
  shows "R (fst (m s)) \<or> fl \<and> isl (fst (m s))" and "I (snd (m s))"
  using assms by (auto simp: yields_def)

lemma yields_mono:
  assumes "yields fl I m R" and "\<And>x. R x \<Longrightarrow> Q x"
  shows "yields fl I m Q"
  using assms by (auto simp: yields_def)

lemma yields_gives: "gives fl I m r \<Longrightarrow> R r \<Longrightarrow> yields fl I m R"
  by (auto simp: gives_def intro: yields_mono)

lemma yields_bind:
  assumes m: "yields fl I m R"
    and ok: "\<And>x. R (Inr x) \<Longrightarrow> yields fl I (f x) Q"
    and err: "\<And>e. R (Inl e) \<Longrightarrow> Q (Inl e)"
  shows "yields fl I (bind m f) Q"
  unfolding yields_def
proof (intro allI impI)
  fix s assume s: "I s"
  obtain r s' where ms: "m s = (r, s')" by force
  have s': "I s'" using yields_run(2) [OF m s] ms by simp
  show "(Q (fst (bind m f s)) \<or> fl \<and> isl (fst (bind m f s))) \<and> I (snd (bind m f s))"
  proof (cases r)
    case (Inl e)
    then show ?thesis using yields_run(1) [OF m s] ms err s' by (auto simp: bind_def)
  next
    case (Inr x)
    with yields_run(1) [OF m s] ms have "R (Inr x)" by auto
    from yields_run [OF ok [OF this] s'] Inr ms show ?thesis by (simp add: bind_def)
  qed
qed

lemma yields_bind_gives:
  "gives fl I m (Inr x) \<Longrightarrow> yields fl I (f x) Q \<Longrightarrow> yields fl I (bind m f) Q"
  unfolding gives_def by (erule yields_bind) auto

lemma gives_bind [gives_intros]:
  "gives fl I m (Inr x) \<Longrightarrow> gives fl I (f x) r \<Longrightarrow> gives fl I (bind m f) r"
  unfolding gives_def by (erule yields_bind) auto

lemma gives_bind_err:
  "gives fl I m (Inl e) \<Longrightarrow> gives fl I (bind m f) (Inl e)"
  unfolding gives_def by (erule yields_bind) auto

lemma gives_andthen [gives_intros]:
  "gives fl I m (Inr x) \<Longrightarrow> gives fl I k r \<Longrightarrow> gives fl I (andthen m k) r"
  unfolding andthen_def by (rule gives_bind)

lemma gives_andthen_err: "gives fl I m (Inl e) \<Longrightarrow> gives fl I (andthen m k) (Inl e)"
  unfolding andthen_def by (rule gives_bind_err)

lemma gives_ret [gives_intros]: "gives fl I (ret x) (Inr x)"
  by (simp add: gives_def yields_def op_defs)

lemma gives_fail: "gives fl I (fail e) (Inl e)"
  by (simp add: gives_def yields_def op_defs)

lemma yields_ret: "R (Inr x) \<Longrightarrow> yields fl I (ret x) R"
  by (simp add: yields_def op_defs)

lemma gives_or_fail [gives_intros]: "gives fl I m (Inr x) \<Longrightarrow> gives fl I (or_fail e m) (Inr x)"
  by (fastforce simp: gives_def yields_def op_defs split: prod.splits sum.splits)

lemma gives_or_fail_err: "gives fl I m (Inl d) \<Longrightarrow> gives fl I (or_fail e m) (Inl e)"
  by (fastforce simp: gives_def yields_def op_defs split: prod.splits sum.splits)

lemma yields_or_fail:
  assumes "yields fl I m R" and "\<And>x. R (Inr x) \<Longrightarrow> Q (Inr x)" and "\<And>d. R (Inl d) \<Longrightarrow> Q (Inl e)"
  shows "yields fl I (or_fail e m) Q"
  using assms by (fastforce simp: yields_def op_defs split: prod.splits sum.splits)

lemma gives_reject_pass [gives_intros]: "\<not> b \<Longrightarrow> gives fl I (reject_if b e) (Inr ())"
  by (simp add: reject_if_def gives_ret)

lemma gives_reject: "b \<Longrightarrow> gives fl I (reject_if b e) (Inl e)"
  by (simp add: reject_if_def gives_fail)

lemma gives_modify: "(\<And>s. I s \<Longrightarrow> I (g s)) \<Longrightarrow> gives fl I (modify g) (Inr ())"
  by (simp add: gives_def yields_def op_defs)

lemma gives_look: "(\<And>s. I s \<Longrightarrow> g s = x) \<Longrightarrow> gives fl I (look g) (Inr x)"
  by (simp add: gives_def yields_def op_defs)

lemma yields_bind_look:
  assumes "\<And>s. I s \<Longrightarrow> yields fl (\<lambda>t. I t) (f (g s)) R"
  shows "yields fl I (bind (look g) f) R"
  using assms by (simp add: yields_def op_defs)

lemma gives_bind_look:
  assumes "\<And>s. I s \<Longrightarrow> gives fl I (f (g s)) r"
  shows "gives fl I (bind (look g) f) r"
  using assms unfolding gives_def by (rule yields_bind_look)

lemma gives_for_each:
  assumes "\<And>i. i \<in> set is \<Longrightarrow> gives fl I (f i) (Inr (g i))"
  shows "gives fl I (for_each f is) (Inr (map g is))"
  using assms
proof (induction "is")
  case Nil
  then show ?case by (simp add: gives_ret)
next
  case (Cons i "is")
  then have "gives fl I (f i) (Inr (g i))" and "gives fl I (for_each f is) (Inr (map g is))"
    by simp_all
  then show ?case by (simp add: gives_bind gives_ret)
qed

lemma gives_fold_each:
  assumes "\<And>i a. i \<in> set is \<Longrightarrow> gives fl I (f i a) (Inr (g i a))"
  shows "gives fl I (fold_each f is a) (Inr (fold g is a))"
  using assms
proof (induction "is" arbitrary: a)
  case Nil
  then show ?case by (simp add: gives_ret)
next
  case (Cons i "is")
  then have "gives fl I (f i a) (Inr (g i a))"
    and "gives fl I (fold_each f is (g i a)) (Inr (fold g is (g i a)))"
    by simp_all
  then show ?case by (simp add: gives_bind)
qed

lemma bind_look: "bind (look g) f s = f (g s) s"
  by (simp add: op_defs)

lemma for_each_total:
  assumes "\<And>i s. \<exists>x. fst (f i s) = Inr x"
  shows "\<exists>xs. fst (for_each f is s) = Inr xs"
proof (induction "is" arbitrary: s)
  case Nil
  then show ?case by (simp add: op_defs)
next
  case (Cons i "is")
  obtain x s' where "f i s = (Inr x, s')" using assms [of i s] by (cases "f i s") auto
  moreover obtain xs s'' where "for_each f is s' = (Inr xs, s'')" using Cons [of s'] by (cases "for_each f is s'") auto
  ultimately show ?case by (simp add: op_defs)
qed

lemma for_each_cong: "(\<And>i. i \<in> set is \<Longrightarrow> f i = g i) \<Longrightarrow> for_each f is = for_each g is"
  by (induction "is") simp_all

section \<open>Big-endian encodings\<close>

text \<open>\<open>lms_store_u16\<close>, \<open>lms_store_u32\<close> and \<open>lms_load_u32\<close> of \<open>src/lms_params.c\<close>; a store into
  a fixed buffer becomes the byte list it writes.\<close>

definition lms_store_u16 :: "u16 \<Rightarrow> bytes" where
  "lms_store_u16 value = [ucast (drop_bit 8 value), ucast value]"

definition lms_store_u32 :: "u32 \<Rightarrow> bytes" where
  "lms_store_u32 value =
     [ucast (drop_bit 24 value), ucast (drop_bit 16 value), ucast (drop_bit 8 value), ucast value]"

definition lms_load_u32 :: "bytes \<Rightarrow> u32" where
  "lms_load_u32 inp =
     push_bit 24 (ucast (inp ! 0)) OR push_bit 16 (ucast (inp ! 1)) OR
     push_bit 8 (ucast (inp ! 2)) OR ucast (inp ! 3)"

lemma length_store_u16 [simp, len_simps]: "length (lms_store_u16 v) = 2"
  by (simp add: lms_store_u16_def)

lemma length_store_u32 [simp, len_simps]: "length (lms_store_u32 v) = 4"
  by (simp add: lms_store_u32_def)

lemma load_store_u32 [simp]: "lms_load_u32 (lms_store_u32 v @ rest) = v"
proof (rule bit_word_eqI)
  fix n assume "n < LENGTH(32)"
  then consider "n < 8" | "8 \<le> n" "n < 16" | "16 \<le> n" "n < 24" | "24 \<le> n" "n < 32" by force
  then show "bit (lms_load_u32 (lms_store_u32 v @ rest)) n = bit v n"
    by cases (auto simp: lms_load_u32_def lms_store_u32_def bit_simps)
qed

lemma load_store_u32' [simp]: "lms_load_u32 (lms_store_u32 v) = v"
  using load_store_u32 [of v "[]"] by simp

lemma store_u32_inj: "lms_store_u32 a = lms_store_u32 b \<longleftrightarrow> a = b"
  using load_store_u32' by metis

section \<open>Segments of buffers\<close>

text \<open>\<open>segment off len buf\<close> is the \<open>len\<close> bytes at \<open>buf + off\<close>.\<close>

definition segment :: "nat \<Rightarrow> nat \<Rightarrow> 'a list \<Rightarrow> 'a list" where
  "segment off len xs = take len (drop off xs)"

lemma length_segment [simp, len_simps]: "off + len \<le> length xs \<Longrightarrow> length (segment off len xs) = len"
  by (simp add: segment_def)

lemma segment_append_right [simp]:
  "length xs \<le> off \<Longrightarrow> segment off len (xs @ ys) = segment (off - length xs) len ys"
  by (simp add: segment_def)

lemma segment_append_left [simp]:
  "off + len \<le> length xs \<Longrightarrow> segment off len (xs @ ys) = segment off len xs"
  by (simp add: segment_def)

lemma segment_full [simp]: "length xs = len \<Longrightarrow> segment 0 len xs = xs"
  by (simp add: segment_def)

lemma segment_0_append [simp]: "length xs = len \<Longrightarrow> segment 0 len (xs @ ys) = xs"
  by (simp add: segment_def)

lemma segment_concat:
  assumes "\<And>x. x \<in> set xss \<Longrightarrow> length x = n" and "i < length xss"
  shows "segment (i * n) n (concat xss) = xss ! i"
  using assms
proof (induction xss arbitrary: i)
  case Nil
  then show ?case by simp
next
  case (Cons x xss)
  show ?case
  proof (cases i)
    case 0
    then show ?thesis using Cons.prems by simp
  next
    case (Suc j)
    then show ?thesis using Cons by simp
  qed
qed

lemma length_concat_uniform:
  "(\<And>x. x \<in> set xss \<Longrightarrow> length x = n) \<Longrightarrow> length (concat xss) = length xss * n"
  by (induction xss) auto

text \<open>\<open>overwrite off xs buf\<close> is \<open>memcpy(buf + off, xs, len)\<close>.\<close>

definition overwrite :: "nat \<Rightarrow> 'a list \<Rightarrow> 'a list \<Rightarrow> 'a list" where
  "overwrite off xs buf = take off buf @ xs @ drop (off + length xs) buf"

lemma length_overwrite [simp, len_simps]:
  "off + length xs \<le> length buf \<Longrightarrow> length (overwrite off xs buf) = length buf"
  by (simp add: overwrite_def)

lemma take_overwrite [simp]:
  "off + length xs \<le> length buf \<Longrightarrow> take (off + length xs) (overwrite off xs buf) = take off buf @ xs"
  by (simp add: overwrite_def)

lemma overwrite_all: "off + length xs = length buf \<Longrightarrow> overwrite off xs buf = take off buf @ xs"
  by (simp add: overwrite_def)

section \<open>Words\<close>

lemma unat_of_nat_u32: "n < 2 ^ 32 \<Longrightarrow> unat (word_of_nat n :: u32) = n"
  by (simp add: unat_of_nat)

lemma unat_of_nat_u16: "n < 2 ^ 16 \<Longrightarrow> unat (word_of_nat n :: u16) = n"
  by (simp add: unat_of_nat)

end
