(* ===== verification/Sha256.thy ===== *)
theory Sha256
  imports Prelude
begin

text \<open>
  The streaming SHA-256 of \<open>hashs/sha256.c\<close>: context, compression function, update and
  finalisation, statement by statement, and the one-shot definition of FIPS 180-4
  (pad, split into blocks, fold the compression) that the streaming code is shown to
  compute for every way of cutting the message into updates.
\<close>

section \<open>The code\<close>

definition SHA256_BLOCK_LEN :: nat where "SHA256_BLOCK_LEN = 64"
definition SHA256_LEN :: nat where "SHA256_LEN = 32"

record SHA256_CTX =
  sha_state :: "u32 list"
  bit_len :: u64
  buffer :: bytes
  buffer_len :: nat

definition rotr32 :: "u32 \<Rightarrow> nat \<Rightarrow> u32" where
  "rotr32 x n = drop_bit n x OR push_bit (32 - n) x"

definition load_be32 :: "bytes \<Rightarrow> u32" where
  "load_be32 inp =
     push_bit 24 (ucast (inp ! 0)) OR push_bit 16 (ucast (inp ! 1)) OR
     push_bit 8 (ucast (inp ! 2)) OR ucast (inp ! 3)"

definition store_be32 :: "u32 \<Rightarrow> bytes" where
  "store_be32 value =
     [ucast (drop_bit 24 value), ucast (drop_bit 16 value), ucast (drop_bit 8 value), ucast value]"

definition store_be64 :: "u64 \<Rightarrow> bytes" where
  "store_be64 value =
     [ucast (drop_bit 56 value), ucast (drop_bit 48 value), ucast (drop_bit 40 value),
      ucast (drop_bit 32 value), ucast (drop_bit 24 value), ucast (drop_bit 16 value),
      ucast (drop_bit 8 value), ucast value]"

text \<open>The round constants, in the rows of the source.\<close>

definition sha256_k :: "u32 list" where
  "sha256_k = concat [
     [0x428a2f98, 0x71374491, 0xb5c0fbcf, 0xe9b5dba5],
     [0x3956c25b, 0x59f111f1, 0x923f82a4, 0xab1c5ed5],
     [0xd807aa98, 0x12835b01, 0x243185be, 0x550c7dc3],
     [0x72be5d74, 0x80deb1fe, 0x9bdc06a7, 0xc19bf174],
     [0xe49b69c1, 0xefbe4786, 0x0fc19dc6, 0x240ca1cc],
     [0x2de92c6f, 0x4a7484aa, 0x5cb0a9dc, 0x76f988da],
     [0x983e5152, 0xa831c66d, 0xb00327c8, 0xbf597fc7],
     [0xc6e00bf3, 0xd5a79147, 0x06ca6351, 0x14292967],
     [0x27b70a85, 0x2e1b2138, 0x4d2c6dfc, 0x53380d13],
     [0x650a7354, 0x766a0abb, 0x81c2c92e, 0x92722c85],
     [0xa2bfe8a1, 0xa81a664b, 0xc24b8b70, 0xc76c51a3],
     [0xd192e819, 0xd6990624, 0xf40e3585, 0x106aa070],
     [0x19a4c116, 0x1e376c08, 0x2748774c, 0x34b0bcb5],
     [0x391c0cb3, 0x4ed8aa4a, 0x5b9cca4f, 0x682e6ff3],
     [0x748f82ee, 0x78a5636f, 0x84c87814, 0x8cc70208],
     [0x90befffa, 0xa4506ceb, 0xbef9a3f7, 0xc67178f2]]"

text \<open>The message schedule: sixteen words from the block, forty-eight by recurrence.\<close>

definition sha256_schedule_step :: "nat \<Rightarrow> u32 list \<Rightarrow> u32 list" where
  "sha256_schedule_step i w =
     (let s0 = rotr32 (w ! (i - 15)) 7 XOR rotr32 (w ! (i - 15)) 18 XOR drop_bit 3 (w ! (i - 15));
          s1 = rotr32 (w ! (i - 2)) 17 XOR rotr32 (w ! (i - 2)) 19 XOR drop_bit 10 (w ! (i - 2))
      in w @ [w ! (i - 16) + s0 + w ! (i - 7) + s1])"

definition sha256_schedule :: "bytes \<Rightarrow> u32 list" where
  "sha256_schedule block =
     fold sha256_schedule_step [16..<64] (map (\<lambda>i. load_be32 (drop (i * 4) block)) [0..<16])"

type_synonym sha_vars = "u32 \<times> u32 \<times> u32 \<times> u32 \<times> u32 \<times> u32 \<times> u32 \<times> u32"

fun sha256_round :: "u32 \<times> u32 \<Rightarrow> sha_vars \<Rightarrow> sha_vars" where
  "sha256_round (k, w) (a, b, c, d, e, f, g, h) =
     (let s1 = rotr32 e 6 XOR rotr32 e 11 XOR rotr32 e 25;
          ch = (e AND f) XOR (NOT e AND g);
          temp1 = h + s1 + ch + k + w;
          s0 = rotr32 a 2 XOR rotr32 a 13 XOR rotr32 a 22;
          maj = (a AND b) XOR (a AND c) XOR (b AND c);
          temp2 = s0 + maj
      in (temp1 + temp2, a, b, c, d + temp1, e, f, g))"

text \<open>\<open>sha256_compress\<close> on the eight state words; the context version below writes them back.\<close>

definition sha256_compress_words :: "u32 list \<Rightarrow> bytes \<Rightarrow> u32 list" where
  "sha256_compress_words st block =
     (case fold sha256_round (zip sha256_k (sha256_schedule block))
             (st ! 0, st ! 1, st ! 2, st ! 3, st ! 4, st ! 5, st ! 6, st ! 7) of
        (a, b, c, d, e, f, g, h) \<Rightarrow>
          [st ! 0 + a, st ! 1 + b, st ! 2 + c, st ! 3 + d,
           st ! 4 + e, st ! 5 + f, st ! 6 + g, st ! 7 + h])"

definition sha256_compress :: "SHA256_CTX \<Rightarrow> bytes \<Rightarrow> SHA256_CTX" where
  "sha256_compress ctx block = ctx\<lparr>sha_state := sha256_compress_words (sha_state ctx) block\<rparr>"

definition sha256_iv :: "u32 list" where
  "sha256_iv = [0x6a09e667, 0xbb67ae85, 0x3c6ef372, 0xa54ff53a,
                0x510e527f, 0x9b05688c, 0x1f83d9ab, 0x5be0cd19]"

text \<open>\<open>SHA256_Init\<close> leaves the block buffer as it finds it (uninitialised memory in C).\<close>

definition SHA256_Init :: "SHA256_CTX \<Rightarrow> SHA256_CTX" where
  "SHA256_Init ctx = ctx\<lparr>sha_state := sha256_iv, bit_len := 0, buffer_len := 0\<rparr>"

text \<open>
  One turn of the \<open>while (input_len)\<close> loop of \<open>SHA256_Update\<close>: it takes as many bytes as
  the block buffer has room for and compresses a full buffer.
\<close>

definition sha256_absorb :: "SHA256_CTX \<Rightarrow> bytes \<Rightarrow> SHA256_CTX" where
  "sha256_absorb ctx chunk =
     (let ctx1 = ctx\<lparr>buffer := overwrite (buffer_len ctx) chunk (buffer ctx),
                     buffer_len := buffer_len ctx + length chunk\<rparr>
      in if buffer_len ctx1 = SHA256_BLOCK_LEN
         then (sha256_compress ctx1 (buffer ctx1))
                \<lparr>bit_len := bit_len ctx1 + 64 * 8, buffer_len := 0\<rparr>
         else ctx1)"

text \<open>
  The loop ends because each turn takes at least one byte while the buffer has room. No
  operation leaves a full buffer (\<open>sha_wf\<close> below); on such a context the C loop would not
  advance, and the model returns at once.
\<close>

function SHA256_Update :: "SHA256_CTX \<Rightarrow> bytes \<Rightarrow> SHA256_CTX" where
  "SHA256_Update ctx data =
     (if data = [] \<or> SHA256_BLOCK_LEN \<le> buffer_len ctx then ctx
      else let n = min (SHA256_BLOCK_LEN - buffer_len ctx) (length data)
           in SHA256_Update (sha256_absorb ctx (take n data)) (drop n data))"
  by pat_completeness auto
termination
  by (relation "measure (\<lambda>(ctx, data). length data)") (auto simp: min_def SHA256_BLOCK_LEN_def)

declare SHA256_Update.simps [simp del]

text \<open>\<open>SHA256_Final\<close>: the \<open>0x80\<close> byte, zero fill (through one extra block when fewer than
  eight bytes are left), the bit length, the last compression, the digest.\<close>

definition sha256_push_zeros :: "nat \<Rightarrow> SHA256_CTX \<Rightarrow> SHA256_CTX" where
  "sha256_push_zeros limit ctx =
     ctx\<lparr>buffer := overwrite (buffer_len ctx) (replicate (limit - buffer_len ctx) 0) (buffer ctx),
         buffer_len := max limit (buffer_len ctx)\<rparr>"

definition SHA256_Final :: "SHA256_CTX \<Rightarrow> bytes" where
  "SHA256_Final ctx =
     (let total_bits = bit_len ctx + word_of_nat (buffer_len ctx * 8);
          ctx1 = ctx\<lparr>buffer := overwrite (buffer_len ctx) [0x80] (buffer ctx),
                     buffer_len := buffer_len ctx + 1\<rparr>;
          ctx2 = (if buffer_len ctx1 > 56
                  then let c = sha256_push_zeros SHA256_BLOCK_LEN ctx1
                       in (sha256_compress c (buffer c))\<lparr>buffer_len := 0\<rparr>
                  else ctx1);
          ctx3 = sha256_push_zeros 56 ctx2;
          ctx4 = ctx3\<lparr>buffer := overwrite 56 (store_be64 total_bits) (buffer ctx3)\<rparr>;
          ctx5 = sha256_compress ctx4 (buffer ctx4)
      in concat (map store_be32 (take 8 (sha_state ctx5))))"

section \<open>The standard\<close>

text \<open>Padding and the fold over 64-byte blocks (FIPS 180-4, sections 5.1.1 and 6.2).\<close>

definition sha256_pad_zeros :: "nat \<Rightarrow> nat" where
  "sha256_pad_zeros n = (119 - n mod 64) mod 64"

definition sha256_pad :: "bytes \<Rightarrow> bytes" where
  "sha256_pad m =
     m @ [0x80] @ replicate (sha256_pad_zeros (length m)) 0 @ store_be64 (word_of_nat (8 * length m))"

fun sha256_blocks :: "u32 list \<Rightarrow> bytes \<Rightarrow> u32 list" where
  "sha256_blocks st data =
     (if length data < 64 then st
      else sha256_blocks (sha256_compress_words st (take 64 data)) (drop 64 data))"

declare sha256_blocks.simps [simp del]

definition sha256_spec :: "bytes \<Rightarrow> bytes" where
  "sha256_spec m = concat (map store_be32 (sha256_blocks sha256_iv (sha256_pad m)))"


section \<open>The streaming code computes the standard\<close>

lemma length_compress_words [simp]: "length (sha256_compress_words st b) = 8"
  by (simp add: sha256_compress_words_def split: prod.split)

lemma length_store_be32 [simp, len_simps]: "length (store_be32 v) = 4"
  by (simp add: store_be32_def)

lemma length_store_be64 [simp, len_simps]: "length (store_be64 v) = 8"
  by (simp add: store_be64_def)

lemma sha256_blocks_short [simp]: "length data < 64 \<Longrightarrow> sha256_blocks st data = st"
  by (subst sha256_blocks.simps) simp

lemma sha256_blocks_Cons_block:
  "length b = 64 \<Longrightarrow> sha256_blocks st (b @ rest) = sha256_blocks (sha256_compress_words st b) rest"
  by (subst sha256_blocks.simps) simp

lemma sha256_blocks_block: "length b = 64 \<Longrightarrow> sha256_blocks st b = sha256_compress_words st b"
  using sha256_blocks_Cons_block [of b st "[]"] by simp

lemma sha256_blocks_append:
  assumes "length xs = 64 * k"
  shows "sha256_blocks st (xs @ ys) = sha256_blocks (sha256_blocks st xs) ys"
  using assms
proof (induction k arbitrary: st xs)
  case 0
  then show ?case by simp
next
  case (Suc k)
  define b where "b = take 64 xs"
  define r where "r = drop 64 xs"
  have xs: "xs = b @ r" and lb: "length b = 64" and lr: "length r = 64 * k"
    using Suc.prems by (simp_all add: b_def r_def)
  show ?case
    by (simp add: xs sha256_blocks_Cons_block lb Suc.IH [OF lr] del: append_take_drop_id)
qed

lemma length_sha256_blocks: "length st = 8 \<Longrightarrow> length (sha256_blocks st data) = 8"
proof (induction st data rule: sha256_blocks.induct)
  case (1 st data)
  then show ?case by (cases "length data < 64") (subst sha256_blocks.simps, simp)+
qed

text \<open>
  \<open>sha_absorbed ctx m\<close>: the context has absorbed exactly the message \<open>m\<close>, whole blocks in
  the chaining state and the rest in the block buffer. It implies that the buffer is never
  full between calls.
\<close>

definition sha_absorbed :: "SHA256_CTX \<Rightarrow> bytes \<Rightarrow> bool" where
  "sha_absorbed ctx m \<longleftrightarrow>
     (\<exists>done pend k. m = done @ pend \<and> length done = 64 * k \<and> length pend < 64 \<and>
        sha_state ctx = sha256_blocks sha256_iv done \<and>
        bit_len ctx = word_of_nat (8 * length done) \<and>
        buffer_len ctx = length pend \<and> length (buffer ctx) = 64 \<and>
        take (length pend) (buffer ctx) = pend)"

lemma sha_absorbedE:
  assumes "sha_absorbed ctx m"
  obtains "done" pend k where "m = done @ pend" "length done = 64 * k" "length pend < 64"
    "sha_state ctx = sha256_blocks sha256_iv done" "bit_len ctx = word_of_nat (8 * length done)"
    "buffer_len ctx = length pend" "length (buffer ctx) = 64"
    "take (length pend) (buffer ctx) = pend"
  using assms by (auto simp: sha_absorbed_def)

lemma sha_absorbed_init: "length (buffer ctx) = 64 \<Longrightarrow> sha_absorbed (SHA256_Init ctx) []"
  by (auto simp: sha_absorbed_def SHA256_Init_def intro!: exI [where x = "[]"])

lemma sha_absorbed_chunk:
  assumes a: "sha_absorbed ctx m" and fit: "buffer_len ctx + length chunk \<le> 64"
  shows "sha_absorbed (sha256_absorb ctx chunk) (m @ chunk)"
proof -
  from a obtain "done" pend k where d: "m = done @ pend" "length done = 64 * k" "length pend < 64"
    "sha_state ctx = sha256_blocks sha256_iv done" "bit_len ctx = word_of_nat (8 * length done)"
    "buffer_len ctx = length pend" "length (buffer ctx) = 64" "take (length pend) (buffer ctx) = pend"
    by (rule sha_absorbedE)
  show ?thesis
  proof (cases "length pend + length chunk = 64")
    case True
    have st: "sha256_compress_words (sha256_blocks sha256_iv done) (pend @ chunk) =
        sha256_blocks sha256_iv (done @ pend @ chunk)"
      using sha256_blocks_append [OF d(2)] sha256_blocks_block [of "pend @ chunk"] True by simp
    show ?thesis unfolding sha_absorbed_def
      by (rule exI [of _ "done @ pend @ chunk"], rule exI [of _ "[]"], rule exI [of _ "Suc k"])
        (use True d st in \<open>simp add: sha256_absorb_def SHA256_BLOCK_LEN_def sha256_compress_def
           overwrite_all algebra_simps\<close>)
  next
    case False
    then show ?thesis unfolding sha_absorbed_def
      by (intro exI [of _ "done"] exI [of _ "pend @ chunk"] exI [of _ k])
        (use fit d in \<open>simp add: sha256_absorb_def SHA256_BLOCK_LEN_def overwrite_def\<close>)
  qed
qed

lemma sha_absorbed_room: "sha_absorbed ctx m \<Longrightarrow> buffer_len ctx < 64"
  by (auto elim: sha_absorbedE)

lemma sha_absorbed_update: "sha_absorbed ctx m \<Longrightarrow> sha_absorbed (SHA256_Update ctx data) (m @ data)"
proof (induction ctx data arbitrary: m rule: SHA256_Update.induct)
  case (1 ctx data)
  note room = sha_absorbed_room [OF "1.prems"]
  show ?case
  proof (cases "data = []")
    case True
    then show ?thesis using "1.prems" by (subst SHA256_Update.simps) simp
  next
    case False
    define n where "n = min (SHA256_BLOCK_LEN - buffer_len ctx) (length data)"
    have fit: "buffer_len ctx + length (take n data) \<le> 64"
      using room by (auto simp: n_def SHA256_BLOCK_LEN_def)
    have "sha_absorbed (SHA256_Update (sha256_absorb ctx (take n data)) (drop n data))
            ((m @ take n data) @ drop n data)"
      using False room by (intro "1.IH" [OF _ n_def] sha_absorbed_chunk "1.prems" fit)
        (simp add: SHA256_BLOCK_LEN_def)
    then show ?thesis using False room
      by (subst SHA256_Update.simps) (simp add: n_def SHA256_BLOCK_LEN_def Let_def)
  qed
qed

lemma sha256_final_spec:
  assumes a: "sha_absorbed ctx m"
  shows "SHA256_Final ctx = sha256_spec m"
proof -
  from a obtain "done" pend k where d: "m = done @ pend" "length done = 64 * k" "length pend < 64"
    "sha_state ctx = sha256_blocks sha256_iv done" "bit_len ctx = word_of_nat (8 * length done)"
    "buffer_len ctx = length pend" "length (buffer ctx) = 64" "take (length pend) (buffer ctx) = pend"
    by (rule sha_absorbedE)
  define tail where "tail = store_be64 (word_of_nat (8 * length m))"
  have bits: "store_be64 (512 * word_of_nat k + word_of_nat (length pend) * 8) = tail"
    using d by (simp add: tail_def algebra_simps)
  have lt: "length tail = 8" by (simp add: tail_def)
  have ml: "length m mod 64 = length pend" using d by simp
  have iv: "length (sha256_blocks sha256_iv x) = 8" for x
    by (rule length_sha256_blocks) (simp add: sha256_iv_def)
  show ?thesis
  proof (cases "length pend < 56")
    case True
    let ?last = "pend @ [0x80] @ replicate (55 - length pend) 0 @ tail"
    have z: "sha256_pad_zeros (length m) = 55 - length pend"
      unfolding sha256_pad_zeros_def ml using True by (intro mod_nat_eqI) auto
    have "sha256_pad m = m @ [0x80] @ replicate (55 - length pend) 0 @ tail"
      unfolding sha256_pad_def z tail_def ..
    also have "\<dots> = done @ ?last" by (simp add: d(1))
    finally have "sha256_blocks sha256_iv (sha256_pad m) =
        sha256_compress_words (sha256_blocks sha256_iv done) ?last"
      using sha256_blocks_append [OF d(2), of _ ?last] sha256_blocks_block [of ?last] True lt
      by simp
    then show ?thesis using True d bits iv
      by (simp add: SHA256_Final_def sha256_spec_def sha256_compress_def sha256_push_zeros_def
          overwrite_def Let_def)
  next
    case False
    let ?b1 = "pend @ [0x80] @ replicate (63 - length pend) 0"
    let ?b2 = "replicate 56 0 @ tail"
    have z: "sha256_pad_zeros (length m) = (63 - length pend) + 56"
      unfolding sha256_pad_zeros_def ml using False d(3) by (intro mod_nat_eqI) auto
    have "sha256_pad m = m @ [0x80] @ replicate (63 - length pend + 56) 0 @ tail"
      unfolding sha256_pad_def z tail_def ..
    also have "\<dots> = done @ ?b1 @ ?b2" by (simp add: d(1) replicate_add)
    finally have "sha256_blocks sha256_iv (sha256_pad m) = sha256_compress_words
        (sha256_compress_words (sha256_blocks sha256_iv done) ?b1) ?b2"
      using sha256_blocks_append [OF d(2), of _ "?b1 @ ?b2"] False d(3) lt
        sha256_blocks_Cons_block [of ?b1 _ ?b2] sha256_blocks_block [of ?b2]
      by simp
    then show ?thesis using False d bits iv
      by (simp add: SHA256_Final_def sha256_spec_def sha256_compress_def sha256_push_zeros_def
          SHA256_BLOCK_LEN_def overwrite_def tail_def Let_def)
  qed
qed

lemma length_sha256_spec [simp, len_simps]: "length (sha256_spec m) = 32"
proof -
  have "length (sha256_blocks sha256_iv (sha256_pad m)) = 8"
    by (rule length_sha256_blocks) (simp add: sha256_iv_def)
  then show ?thesis by (simp add: sha256_spec_def length_concat o_def sum_list_triv)
qed



end
