(* ===== verification/Fips202.thy ===== *)
theory Fips202
  imports Prelude
begin

text \<open>
  The Keccak functions of \<open>hashs/fips202.c\<close>: the unrolled permutation, absorbing, squeezing and the
  hash functions made from them, of which LMS uses \<open>shake256\<close>. The unrolled round is shown to be the
  round of FIPS 202 (theta, rho, pi, chi, iota), and the functions to be its sponge.
\<close>

section \<open>The code\<close>

definition ROL :: "u64 \<Rightarrow> nat \<Rightarrow> u64" where
  "ROL a offset = push_bit offset a XOR drop_bit (64 - offset) a"

definition load64 :: "bytes \<Rightarrow> u64" where
  "load64 x = fold (\<lambda>i r. r OR push_bit (8 * i) (ucast (x ! i))) [0..<8] 0"

definition store64 :: "u64 \<Rightarrow> bytes" where
  "store64 u = map (\<lambda>i. ucast (drop_bit (8 * i) u)) [0..<8]"

text \<open>
  \<open>keccak_round\<close> is the first half of the loop body of \<open>KeccakF1600_StatePermute\<close>, with the
  lanes \<open>A..\<close> read and the lanes \<open>E..\<close> written; the second half is the same text with the
  two families exchanged, so the body is two applications.
\<close>

definition KeccakF_RoundConstants :: "u64 list" where
  "KeccakF_RoundConstants = [
     0x0000000000000001, 0x0000000000008082, 0x800000000000808a, 0x8000000080008000,
     0x000000000000808b, 0x0000000080000001, 0x8000000080008081, 0x8000000000008009,
     0x000000000000008a, 0x0000000000000088, 0x0000000080008009, 0x000000008000000a,
     0x000000008000808b, 0x800000000000008b, 0x8000000000008089, 0x8000000000008003,
     0x8000000000008002, 0x8000000000000080, 0x000000000000800a, 0x800000008000000a,
     0x8000000080008081, 0x8000000000008080, 0x0000000080000001, 0x8000000080008008]"

definition keccak_round :: "u64 \<Rightarrow> u64 list \<Rightarrow> u64 list" where
  "keccak_round rc s =
     (let
        Aba = s ! 0; Abe = s ! 1; Abi = s ! 2; Abo = s ! 3; Abu = s ! 4;
        Aga = s ! 5; Age = s ! 6; Agi = s ! 7; Ago = s ! 8; Agu = s ! 9;
        Aka = s ! 10; Ake = s ! 11; Aki = s ! 12; Ako = s ! 13; Aku = s ! 14;
        Ama = s ! 15; Ame = s ! 16; Ami = s ! 17; Amo = s ! 18; Amu = s ! 19;
        Asa = s ! 20; Ase = s ! 21; Asi = s ! 22; Aso = s ! 23; Asu = s ! 24;
        BCa = Aba XOR Aga XOR Aka XOR Ama XOR Asa;
        BCe = Abe XOR Age XOR Ake XOR Ame XOR Ase;
        BCi = Abi XOR Agi XOR Aki XOR Ami XOR Asi;
        BCo = Abo XOR Ago XOR Ako XOR Amo XOR Aso;
        BCu = Abu XOR Agu XOR Aku XOR Amu XOR Asu;
        Da = BCu XOR ROL BCe 1;
        De = BCa XOR ROL BCi 1;
        Di = BCe XOR ROL BCo 1;
        Do = BCi XOR ROL BCu 1;
        Du = BCo XOR ROL BCa 1;
        Aba = Aba XOR Da;
        BCa = Aba;
        Age = Age XOR De;
        BCe = ROL Age 44;
        Aki = Aki XOR Di;
        BCi = ROL Aki 43;
        Amo = Amo XOR Do;
        BCo = ROL Amo 21;
        Asu = Asu XOR Du;
        BCu = ROL Asu 14;
        Eba = BCa XOR (NOT BCe AND BCi);
        Eba = Eba XOR rc;
        Ebe = BCe XOR (NOT BCi AND BCo);
        Ebi = BCi XOR (NOT BCo AND BCu);
        Ebo = BCo XOR (NOT BCu AND BCa);
        Ebu = BCu XOR (NOT BCa AND BCe);
        Abo = Abo XOR Do;
        BCa = ROL Abo 28;
        Agu = Agu XOR Du;
        BCe = ROL Agu 20;
        Aka = Aka XOR Da;
        BCi = ROL Aka 3;
        Ame = Ame XOR De;
        BCo = ROL Ame 45;
        Asi = Asi XOR Di;
        BCu = ROL Asi 61;
        Ega = BCa XOR (NOT BCe AND BCi);
        Ege = BCe XOR (NOT BCi AND BCo);
        Egi = BCi XOR (NOT BCo AND BCu);
        Ego = BCo XOR (NOT BCu AND BCa);
        Egu = BCu XOR (NOT BCa AND BCe);
        Abe = Abe XOR De;
        BCa = ROL Abe 1;
        Agi = Agi XOR Di;
        BCe = ROL Agi 6;
        Ako = Ako XOR Do;
        BCi = ROL Ako 25;
        Amu = Amu XOR Du;
        BCo = ROL Amu 8;
        Asa = Asa XOR Da;
        BCu = ROL Asa 18;
        Eka = BCa XOR (NOT BCe AND BCi);
        Eke = BCe XOR (NOT BCi AND BCo);
        Eki = BCi XOR (NOT BCo AND BCu);
        Eko = BCo XOR (NOT BCu AND BCa);
        Eku = BCu XOR (NOT BCa AND BCe);
        Abu = Abu XOR Du;
        BCa = ROL Abu 27;
        Aga = Aga XOR Da;
        BCe = ROL Aga 36;
        Ake = Ake XOR De;
        BCi = ROL Ake 10;
        Ami = Ami XOR Di;
        BCo = ROL Ami 15;
        Aso = Aso XOR Do;
        BCu = ROL Aso 56;
        Ema = BCa XOR (NOT BCe AND BCi);
        Eme = BCe XOR (NOT BCi AND BCo);
        Emi = BCi XOR (NOT BCo AND BCu);
        Emo = BCo XOR (NOT BCu AND BCa);
        Emu = BCu XOR (NOT BCa AND BCe);
        Abi = Abi XOR Di;
        BCa = ROL Abi 62;
        Ago = Ago XOR Do;
        BCe = ROL Ago 55;
        Aku = Aku XOR Du;
        BCi = ROL Aku 39;
        Ama = Ama XOR Da;
        BCo = ROL Ama 41;
        Ase = Ase XOR De;
        BCu = ROL Ase 2;
        Esa = BCa XOR (NOT BCe AND BCi);
        Ese = BCe XOR (NOT BCi AND BCo);
        Esi = BCi XOR (NOT BCo AND BCu);
        Eso = BCo XOR (NOT BCu AND BCa);
        Esu = BCu XOR (NOT BCa AND BCe)
      in [
        Eba, Ebe, Ebi, Ebo, Ebu,
        Ega, Ege, Egi, Ego, Egu,
        Eka, Eke, Eki, Eko, Eku,
        Ema, Eme, Emi, Emo, Emu,
        Esa, Ese, Esi, Eso, Esu])"

definition KeccakF1600_StatePermute :: "u64 list \<Rightarrow> u64 list" where
  "KeccakF1600_StatePermute state =
     fold (\<lambda>i s. keccak_round (KeccakF_RoundConstants ! (2 * i + 1))
                  (keccak_round (KeccakF_RoundConstants ! (2 * i)) s)) [0..<12] state"

text \<open>\<open>for (i = 0; i < r/8; i++) s[i] ^= load64(m + 8*i);\<close>\<close>

definition keccak_xor_block :: "nat \<Rightarrow> bytes \<Rightarrow> u64 list \<Rightarrow> u64 list" where
  "keccak_xor_block r m s =
     map (\<lambda>i. if i < r div 8 then s ! i XOR load64 (drop (8 * i) m) else s ! i) [0..<25]"

text \<open>The rates in use are 72, 136 and 168; a rate of zero, at which the C loop would not
  advance, leaves the state alone here.\<close>

function keccak_absorb_blocks :: "nat \<Rightarrow> bytes \<Rightarrow> u64 list \<Rightarrow> u64 list \<times> bytes" where
  "keccak_absorb_blocks r m s =
     (if r = 0 \<or> length m < r then (s, m)
      else keccak_absorb_blocks r (drop r m) (KeccakF1600_StatePermute (keccak_xor_block r m s)))"
  by pat_completeness auto
termination
  by (relation "measure (\<lambda>(r, m, s). length m)") auto

declare keccak_absorb_blocks.simps [simp del]

definition keccak_absorb :: "nat \<Rightarrow> bytes \<Rightarrow> u8 \<Rightarrow> u64 list" where
  "keccak_absorb r m p =
     (case keccak_absorb_blocks r m (replicate 25 0) of (s, rest) \<Rightarrow>
        (let t = overwrite 0 (rest @ [p]) (replicate 200 0);
             t' = t[r - 1 := t ! (r - 1) OR 128]
         in keccak_xor_block r t' s))"

fun keccak_squeezeblocks :: "nat \<Rightarrow> nat \<Rightarrow> u64 list \<Rightarrow> bytes \<times> u64 list" where
  "keccak_squeezeblocks r 0 s = ([], s)"
| "keccak_squeezeblocks r (Suc nblocks) s =
     (let s' = KeccakF1600_StatePermute s;
          blk = concat (map (\<lambda>i. store64 (s' ! i)) [0..<r div 8])
      in case keccak_squeezeblocks r nblocks s' of (out, s'') \<Rightarrow> (blk @ out, s''))"

definition SHAKE128_RATE :: nat where "SHAKE128_RATE = 168"
definition SHAKE256_RATE :: nat where "SHAKE256_RATE = 136"
definition SHA3_256_RATE :: nat where "SHA3_256_RATE = 136"
definition SHA3_512_RATE :: nat where "SHA3_512_RATE = 72"

definition shake128_absorb :: "bytes \<Rightarrow> u64 list" where
  "shake128_absorb inp = keccak_absorb SHAKE128_RATE inp 0x1F"

definition shake128_squeezeblocks :: "nat \<Rightarrow> u64 list \<Rightarrow> bytes \<times> u64 list" where
  "shake128_squeezeblocks nblocks state = keccak_squeezeblocks SHAKE128_RATE nblocks state"

definition shake256_absorb :: "bytes \<Rightarrow> u64 list" where
  "shake256_absorb inp = keccak_absorb SHAKE256_RATE inp 0x1F"

definition shake256_squeezeblocks :: "nat \<Rightarrow> u64 list \<Rightarrow> bytes \<times> u64 list" where
  "shake256_squeezeblocks nblocks state = keccak_squeezeblocks SHAKE256_RATE nblocks state"

definition shake128 :: "nat \<Rightarrow> bytes \<Rightarrow> bytes" where
  "shake128 outlen inp =
     (let nblocks = outlen div SHAKE128_RATE
      in case shake128_squeezeblocks nblocks (shake128_absorb inp) of (out, state) \<Rightarrow>
           (let rest = outlen - nblocks * SHAKE128_RATE
            in if rest \<noteq> 0 then out @ take rest (fst (shake128_squeezeblocks 1 state)) else out))"

definition shake256 :: "nat \<Rightarrow> bytes \<Rightarrow> bytes" where
  "shake256 outlen inp =
     (let nblocks = outlen div SHAKE256_RATE
      in case shake256_squeezeblocks nblocks (shake256_absorb inp) of (out, state) \<Rightarrow>
           (let rest = outlen - nblocks * SHAKE256_RATE
            in if rest \<noteq> 0 then out @ take rest (fst (shake256_squeezeblocks 1 state)) else out))"

definition sha3_256 :: "bytes \<Rightarrow> bytes" where
  "sha3_256 inp = take 32 (fst (keccak_squeezeblocks SHA3_256_RATE 1 (keccak_absorb SHA3_256_RATE inp 0x06)))"

definition sha3_512 :: "bytes \<Rightarrow> bytes" where
  "sha3_512 inp = take 64 (fst (keccak_squeezeblocks SHA3_512_RATE 1 (keccak_absorb SHA3_512_RATE inp 0x06)))"

section \<open>The round of the standard\<close>

text \<open>FIPS 202, section 3.2, on twenty-five lanes; lane \<open>(x, y)\<close> is at index \<open>x + 5 * y\<close>.\<close>

definition lane :: "u64 list \<Rightarrow> nat \<Rightarrow> nat \<Rightarrow> u64" where
  "lane A x y = A ! (x mod 5 + 5 * (y mod 5))"

definition lanes :: "(nat \<Rightarrow> nat \<Rightarrow> u64) \<Rightarrow> u64 list" where
  "lanes f = map (\<lambda>i. f (i mod 5) (i div 5)) [0..<25]"

definition theta_parity :: "u64 list \<Rightarrow> nat \<Rightarrow> u64" where
  "theta_parity A x = lane A x 0 XOR lane A x 1 XOR lane A x 2 XOR lane A x 3 XOR lane A x 4"

definition theta :: "u64 list \<Rightarrow> u64 list" where
  "theta A = lanes (\<lambda>x y. lane A x y XOR theta_parity A (x + 4) XOR ROL (theta_parity A (x + 1)) 1)"

definition rho_offset :: "nat list" where
  "rho_offset = [0, 1, 62, 28, 27, 36, 44, 6, 55, 20, 3, 10, 43, 25, 39,
                 41, 45, 15, 21, 8, 18, 2, 61, 56, 14]"

definition rho :: "u64 list \<Rightarrow> u64 list" where
  "rho A = lanes (\<lambda>x y. if x = 0 \<and> y = 0 then lane A x y else ROL (lane A x y) (rho_offset ! (x + 5 * y)))"

definition pi_step :: "u64 list \<Rightarrow> u64 list" where
  "pi_step A = lanes (\<lambda>x y. lane A (x + 3 * y) x)"

definition chi :: "u64 list \<Rightarrow> u64 list" where
  "chi A = lanes (\<lambda>x y. lane A x y XOR (NOT (lane A (x + 1) y) AND lane A (x + 2) y))"

definition iota :: "u64 \<Rightarrow> u64 list \<Rightarrow> u64 list" where
  "iota rc A = A[0 := A ! 0 XOR rc]"

definition keccak_spec_round :: "u64 \<Rightarrow> u64 list \<Rightarrow> u64 list" where
  "keccak_spec_round rc A = iota rc (chi (pi_step (rho (theta A))))"

lemma lanes_unfold:
  "lanes f = [f 0 0, f 1 0, f 2 0, f 3 0, f 4 0, f 0 1, f 1 1, f 2 1, f 3 1, f 4 1,
     f 0 2, f 1 2, f 2 2, f 3 2, f 4 2, f 0 3, f 1 3, f 2 3, f 3 3, f 4 3,
     f 0 4, f 1 4, f 2 4, f 3 4, f 4 4]"
  by (simp add: lanes_def upt_rec flip: numeral_2_eq_2)

lemma lane_lanes: "lane (lanes f) x y = f (x mod 5) (y mod 5)"
proof -
  have "x mod 5 + 5 * (y mod 5) < 25"
    using mod_less_divisor [of 5 x] mod_less_divisor [of 5 y] by linarith
  then show ?thesis by (simp add: lane_def lanes_def)
qed

lemma keccak_round_standard: "keccak_round rc s = keccak_spec_round rc s"
  unfolding keccak_spec_round_def chi_def pi_step_def rho_def theta_def iota_def lane_lanes
  by (simp add: lanes_unfold lane_lanes theta_parity_def, unfold keccak_round_def Let_def,
      simp add: lane_def rho_offset_def numeral_2_eq_2 ac_simps)

lemma length_store64 [simp, len_simps]: "length (store64 u) = 8"
  by (simp add: store64_def)

lemma length_squeezeblocks:
  "8 dvd r \<Longrightarrow> length (fst (keccak_squeezeblocks r n s)) = n * r"
  by (induction n arbitrary: s) (auto simp: Let_def split_beta length_concat o_def sum_list_triv)

lemmas shake_defs = shake128_def shake128_absorb_def shake128_squeezeblocks_def SHAKE128_RATE_def
  shake256_def shake256_absorb_def shake256_squeezeblocks_def SHAKE256_RATE_def
  sha3_256_def SHA3_256_RATE_def sha3_512_def SHA3_512_RATE_def

lemma length_shake256 [simp, len_simps]: "length (shake256 outlen inp) = outlen"
proof -
  have "outlen - outlen div 136 * 136 \<le> 136"
    using mod_less_divisor [of 136 outlen] by (simp add: minus_div_mult_eq_mod)
  moreover have "outlen div 136 * 136 \<le> outlen" by simp
  ultimately show ?thesis
    using length_squeezeblocks [of 136]
    by (auto simp: shake_defs Let_def split_beta simp del: keccak_squeezeblocks.simps One_nat_def)
qed

section \<open>The sponge of the standard\<close>

text \<open>The permutation is Keccak-f[1600].\<close>

definition keccak_f :: "u64 list \<Rightarrow> u64 list" where
  "keccak_f = fold keccak_spec_round KeccakF_RoundConstants"

lemma permute_standard: "KeccakF1600_StatePermute state = keccak_f state"
proof -
  have "fold keccak_spec_round KeccakF_RoundConstants state =
        fold keccak_spec_round (concat (map (\<lambda>i. [KeccakF_RoundConstants ! (2 * i),
          KeccakF_RoundConstants ! (2 * i + 1)]) [0..<12])) state"
    by (simp add: KeccakF_RoundConstants_def upt_rec)
  also have "\<dots> = KeccakF1600_StatePermute state"
    unfolding KeccakF1600_StatePermute_def keccak_round_standard
    by (simp add: upt_rec)
  finally show ?thesis by (simp add: keccak_f_def)
qed

text \<open>The message with the domain bits and \<open>pad10*1\<close>, in bytes: the suffix byte \<open>p\<close> holds the domain bits and the
  first bit of the padding, the last bit is the top bit of the last byte of a block.\<close>

definition sponge_pad :: "nat \<Rightarrow> u8 \<Rightarrow> bytes \<Rightarrow> bytes" where
  "sponge_pad r p m =
     (let k = r - length m mod r
      in m @ (if k = 1 then [p OR 128] else p # replicate (k - 2) 0 @ [128]))"

text \<open>A block is added to the first \<open>r\<close> bytes of the state, lane by lane.\<close>

definition add_block :: "bytes \<Rightarrow> u64 list \<Rightarrow> u64 list" where
  "add_block blk s = map (\<lambda>i. if 8 * i < length blk then s ! i XOR load64 (drop (8 * i) blk) else s ! i) [0..<25]"

definition blocks_of :: "nat \<Rightarrow> bytes \<Rightarrow> bytes list" where
  "blocks_of r m = map (\<lambda>i. segment (i * r) r m) [0..<length m div r]"

definition sponge_absorb :: "nat \<Rightarrow> bytes \<Rightarrow> u64 list" where
  "sponge_absorb r m = fold (\<lambda>blk s. keccak_f (add_block blk s)) (blocks_of r m) (replicate 25 0)"

fun sponge_squeeze :: "nat \<Rightarrow> nat \<Rightarrow> u64 list \<Rightarrow> bytes" where
  "sponge_squeeze r 0 s = []"
| "sponge_squeeze r (Suc n) s = take r (concat (map store64 s)) @ sponge_squeeze r n (keccak_f s)"

definition sponge :: "nat \<Rightarrow> u8 \<Rightarrow> nat \<Rightarrow> bytes \<Rightarrow> bytes" where
  "sponge r p n m = take n (sponge_squeeze r ((n + r - 1) div r) (sponge_absorb r (sponge_pad r p m)))"

lemma length_spec_round [simp]: "length (keccak_spec_round rc A) = 25"
  by (simp add: keccak_spec_round_def iota_def chi_def lanes_def)

lemma length_keccak_f [simp]: "length (keccak_f s) = 25"
  by (simp add: keccak_f_def KeccakF_RoundConstants_def)

lemma load64_cong: "(\<And>i. i < 8 \<Longrightarrow> x ! i = y ! i) \<Longrightarrow> load64 x = load64 y"
  unfolding load64_def by (rule fold_cong) auto

lemma xor_block_add:
  assumes "8 dvd r" and "r \<le> length m" and "r \<le> 200"
  shows "keccak_xor_block r m s = add_block (take r m) s"
proof -
  have "load64 (drop (8 * i) m) = load64 (drop (8 * i) (take r m))" if "8 * i < r" for i
  proof (rule load64_cong)
    fix j :: nat assume j: "j < 8"
    then have "8 * i + j < r" using that assms(1) by (auto simp: dvd_def)
    then show "drop (8 * i) m ! j = drop (8 * i) (take r m) ! j" using assms(2) by simp
  qed
  moreover have "i < r div 8 \<longleftrightarrow> 8 * i < r" for i using assms(1) by auto
  ultimately show ?thesis using assms(2) by (simp add: keccak_xor_block_def add_block_def)
qed

lemma blocks_of_append:
  assumes "length a = k * r" and "0 < r"
  shows "blocks_of r (a @ b) = blocks_of r a @ blocks_of r b"
proof -
  have in_a: "segment (i * r) r (a @ b) = segment (i * r) r a" if "i < k" for i
  proof -
    have "Suc i * r \<le> k * r" using that by (intro mult_le_mono1) simp
    then show ?thesis using assms(1) by (intro segment_append_left) (simp add: add.commute)
  qed
  have in_b: "segment ((i + k) * r) r (a @ b) = segment (i * r) r b" for i
    using assms(1) by (simp add: algebra_simps)
  have "length (a @ b) div r = k + length b div r" using assms by simp
  then have "[0..<length (a @ b) div r] = [0..<k] @ map (\<lambda>i. i + k) [0..<length b div r]"
    using upt_add_eq_append [OF le0, of k "length b div r"] map_add_upt [of k "length b div r"] by (metis add.commute)
  moreover have "map (\<lambda>i. segment (i * r) r (a @ b)) [0..<k] = blocks_of r a"
    using assms by (simp add: blocks_of_def in_a)
  moreover have "map (\<lambda>i. segment (i * r) r (a @ b)) (map (\<lambda>i. i + k) [0..<length b div r]) = blocks_of r b"
    by (simp only: map_map o_def in_b blocks_of_def)
  ultimately show ?thesis unfolding blocks_of_def [of r "a @ b"] by (simp only: map_append)
qed

lemma blocks_of_single: "length b = r \<Longrightarrow> 0 < r \<Longrightarrow> blocks_of r b = [b]"
  by (simp add: blocks_of_def)

lemma blocks_of_short: "length b < r \<Longrightarrow> blocks_of r b = []"
  by (simp add: blocks_of_def)

lemma absorb_blocks:
  assumes "8 dvd r" and "0 < r" and "r \<le> 200"
  shows "keccak_absorb_blocks r m s = (fold (\<lambda>blk s. keccak_f (add_block blk s)) (blocks_of r m) s, drop (length m div r * r) m)"
  using assms
proof (induction r m s rule: keccak_absorb_blocks.induct)
  case (1 r m s)
  show ?case
  proof (cases "length m < r")
    case True
    then show ?thesis by (subst keccak_absorb_blocks.simps) (simp add: blocks_of_short)
  next
    case False
    then have "blocks_of r m = take r m # blocks_of r (drop r m)"
      using blocks_of_append [of "take r m" 1 r "drop r m"] 1(3) by (simp add: blocks_of_single)
    moreover have "length m div r * r = (length m - r) div r * r + r" using False 1(3) by (simp add: le_div_geq)
    ultimately show ?thesis using 1 False
      by (subst keccak_absorb_blocks.simps) (simp add: permute_standard xor_block_add)
  qed
qed

text \<open>The buffer of the last block is the last block of the padded message.\<close>

lemma last_block:
  fixes p :: u8
  assumes "length rest < r" and "r \<le> 200"
  defines "t \<equiv> overwrite 0 (rest @ [p]) (replicate 200 0)"
  shows "take r (t[r - 1 := t ! (r - 1) OR 128]) = rest @ (if r - length rest = 1 then [p OR 128] else p # replicate (r - length rest - 2) 0 @ [128])"
proof (rule nth_equalityI)
  have l: "length t = 200" using assms by (simp add: overwrite_def)
  show "length (take r (t[r - 1 := t ! (r - 1) OR 128]))
      = length (rest @ (if r - length rest = 1 then [p OR 128] else p # replicate (r - length rest - 2) 0 @ [128]))"
    using assms(1,2) l by auto
  fix i assume "i < length (take r (t[r - 1 := t ! (r - 1) OR 128]))"
  then have i: "i < r" by simp
  have t: "t ! k = (if k < length rest then rest ! k else if k = length rest then p else 0)" if "k < r" for k
    using that assms(1,2) by (auto simp: t_def overwrite_def nth_append nth_Cons')
  show "take r (t[r - 1 := t ! (r - 1) OR 128]) ! i = (rest @ (if r - length rest = 1 then [p OR 128] else p # replicate (r - length rest - 2) 0 @ [128])) ! i"
  proof (cases "i = r - 1")
    case True
    then show ?thesis using i l assms(1,2) t [of "r - 1"] by (auto simp: nth_append nth_Cons')
  next
    case False
    then show ?thesis using i l assms(1,2) t [OF i] by (auto simp: nth_append nth_Cons')
  qed
qed

lemma absorb_sponge:
  assumes "8 dvd r" and "0 < r" and "r \<le> 200"
  shows "keccak_f (keccak_absorb r m p) = sponge_absorb r (sponge_pad r p m)"
proof -
  let ?k = "length m div r" and ?rest = "drop (length m div r * r) m"
  let ?pad = "?rest @ (if r - length ?rest = 1 then [p OR 128] else p # replicate (r - length ?rest - 2) 0 @ [128])"
  have rest: "length ?rest = length m mod r" by (simp add: minus_div_mult_eq_mod)
  then have short: "length ?rest < r" using assms(2) by simp
  have pad: "sponge_pad r p m = take (?k * r) m @ ?pad" unfolding sponge_pad_def Let_def rest by simp
  have len: "length ?pad = r" using short by (auto simp del: length_drop)
  have "?k * r \<le> length m" by simp
  then have front: "length (take (?k * r) m) = ?k * r" by simp
  have m: "blocks_of r m = blocks_of r (take (?k * r) m)"
    using blocks_of_append [OF front assms(2), of ?rest] blocks_of_short [OF short] by simp
  have "blocks_of r (sponge_pad r p m) = blocks_of r m @ [?pad]"
    unfolding pad blocks_of_append [OF front assms(2)] blocks_of_single [OF len assms(2)] m by (rule refl)
  moreover have "keccak_absorb r m p = add_block ?pad (fold (\<lambda>blk s. keccak_f (add_block blk s)) (blocks_of r m) (replicate 25 0))"
    using last_block [OF short assms(3), of p] assms xor_block_add [OF assms(1) _ assms(3)] short
    unfolding keccak_absorb_def absorb_blocks [OF assms] prod.case Let_def by (simp add: overwrite_def)
  ultimately show ?thesis by (simp add: sponge_absorb_def)
qed

lemma take_lanes: "take (k * 8) (concat (map store64 s)) = concat (map store64 (take k s))"
proof (induction k arbitrary: s)
  case (Suc k)
  then show ?case by (cases s) simp_all
qed simp

lemma squeeze_sponge:
  assumes "8 dvd r" and "r \<le> 200"
  shows "keccak_squeezeblocks r n s = (sponge_squeeze r n (keccak_f s), (keccak_f ^^ n) s)"
proof (induction n arbitrary: s)
  case (Suc n)
  have "map (\<lambda>i. store64 (keccak_f s ! i)) [0..<r div 8] = map store64 (take (r div 8) (keccak_f s))"
    using assms(2) by (intro nth_equalityI) simp_all
  then have "concat (map (\<lambda>i. store64 (keccak_f s ! i)) [0..<r div 8]) = take r (concat (map store64 (keccak_f s)))"
    using take_lanes [of "r div 8" "keccak_f s"] assms(1) by simp
  then show ?case by (simp add: Let_def permute_standard Suc funpow_swap1)
qed simp

lemma sponge_squeeze_append:
  "sponge_squeeze r (m + n) s = sponge_squeeze r m s @ sponge_squeeze r n ((keccak_f ^^ m) s)"
  by (induction m arbitrary: s) (simp_all add: funpow_swap1)

lemma length_sponge_squeeze:
  assumes "8 dvd r" and "r \<le> 200"
  shows "length (sponge_squeeze r n (keccak_f s)) = n * r"
  using length_squeezeblocks [OF assms(1), of n s] by (simp add: squeeze_sponge [OF assms])

text \<open>All whole blocks, then a part of one more.\<close>

lemma xof_sponge:
  assumes "8 dvd r" and "0 < r" and "r \<le> 200"
  shows "(case keccak_squeezeblocks r (n div r) (keccak_absorb r m p) of (out, s) \<Rightarrow>
           (let rest = n - n div r * r in if rest \<noteq> 0 then out @ take rest (fst (keccak_squeezeblocks r 1 s)) else out)) = sponge r p n m"
proof -
  let ?a = "keccak_absorb r m p" and ?k = "n div r"
  have len: "length (sponge_squeeze r ?k (keccak_f ?a)) = ?k * r" by (rule length_sponge_squeeze [OF assms(1,3)])
  have n: "n = ?k * r + n mod r" by simp
  show ?thesis
  proof (cases "n mod r = 0")
    case True
    have "(n + r - 1) div r = ?k"
    proof -
      have "?k * r + n mod r = n" by simp
      then have "n + r - 1 = (r - 1) + ?k * r" using True assms(2) by linarith
      also have "\<dots> div r = ?k" using assms(2) by (subst div_mult_self1) simp_all
      finally show ?thesis .
    qed
    then show ?thesis using True len assms
      by (simp add: squeeze_sponge Let_def sponge_def absorb_sponge [symmetric] minus_div_mult_eq_mod)
  next
    case False
    have "(n + r - 1) div r = ?k + 1"
    proof -
      have "(?k + 1) * r = ?k * r + r" "?k * r + n mod r = n" by simp_all
      then have "n + r - 1 = (n mod r - 1) + (?k + 1) * r" using False by linarith
      moreover have "n mod r - 1 < r" using assms(2) by (simp add: less_imp_diff_less)
      ultimately show ?thesis using assms(2) by (simp del: mult_Suc mult_Suc_right)
    qed
    then have "sponge r p n m = take n (sponge_squeeze r ?k (keccak_f ?a) @ sponge_squeeze r 1 ((keccak_f ^^ ?k) (keccak_f ?a)))"
      by (simp only: sponge_def absorb_sponge [OF assms, symmetric] sponge_squeeze_append)
    also have "\<dots> = sponge_squeeze r ?k (keccak_f ?a) @ take (n mod r) (sponge_squeeze r 1 (keccak_f ((keccak_f ^^ ?k) ?a)))"
      using len by (simp only: take_append take_all_iff funpow_swap1 minus_div_mult_eq_mod) simp
    finally show ?thesis using False unfolding squeeze_sponge [OF assms(1,3)] prod.case Let_def minus_div_mult_eq_mod by simp
  qed
qed

text \<open>
  C33. The functions of \<open>fips202.c\<close> are those of FIPS 202: on messages and outputs of every length \<open>shake128\<close> and
  \<open>shake256\<close> are the sponge over Keccak-f[1600] (24 rounds of theta, rho, pi, chi and iota) with
  \<open>pad10*1\<close>, their rates and the suffix 1111, \<open>sha3_256\<close> and \<open>sha3_512\<close> with the suffix 01.
\<close>

theorem fips202_standard:
  "shake128 n m = sponge 168 0x1F n m \<and> shake256 n m = sponge 136 0x1F n m
   \<and> sha3_256 m = sponge 136 0x06 32 m \<and> sha3_512 m = sponge 72 0x06 64 m"
  using xof_sponge [of 168 n m "0x1F"] xof_sponge [of 136 n m "0x1F"] xof_sponge [of 136 32 m 6] xof_sponge [of 72 64 m 6]
  unfolding shake_defs Let_def by (simp del: keccak_squeezeblocks.simps(2))

end
