(* ===== verification/Haraka.thy ===== *)
theory Haraka
  imports Prelude
begin

text \<open>
  The Haraka sponge of \<open>hashs/haraka.c\<close> as far as the LMS code uses it: the bit-sliced AES
  round on eight 64-bit words, the 512-bit permutation with its round constants, absorbing
  and squeezing, and the derivation of the tweaked constants (\<open>tweak_constants\<close>), whose
  result is a global of the program and therefore a state here.
\<close>

definition haraka512_rc64 :: "u64 list list" where
  "haraka512_rc64 = [
     [0x24cf0ab9086f628b, 0xbdd6eeecc83b8382, 0xd96fb0306cdad0a7, 0xaace082ac8f95f89,
      0x449d8e8870d7041f, 0x49bb2f80b2b3e2f8, 0x0569ae98d93bb258, 0x23dc9691e7d6a4b1],
     [0xd8ba10ede0fe5b6e, 0x7ecf7dbe424c7b8e, 0x6ea9949c6df62a31, 0xbf3f3c97ec9c313e,
      0x241d03a196a1861e, 0xead3a51116e5a2ea, 0x77d479fcad9574e3, 0x18657a1af894b7a0],
     [0x10671e1a7f595522, 0xd9a00ff675d28c7b, 0x2f1edf0d2b9ba661, 0xb8ff58b8e3de45f9,
      0xee29261da9865c02, 0xd1532aa4b50bdf43, 0x8bf858159b231bb1, 0xdf17439d22d4f599],
     [0xdd4b2f0870b918c0, 0x757a81f3b39b1bb6, 0x7a5c556898952e3f, 0x7dd70a16d915d87a,
      0x3ae61971982b8301, 0xc3ab319e030412be, 0x17c0033ac094a8cb, 0x5a0630fc1a8dc4ef],
     [0x17708988c1632f73, 0xf92ddae090b44f4f, 0x11ac0285c43aa314, 0x509059941936b8ba,
      0xd03e152fa2ce9b69, 0x3fbcbcb63a32998b, 0x6204696d692254f7, 0x915542ed93ec59b4],
     [0xf4ed94aa8879236e, 0xff6cb41cd38e03c0, 0x069b38602368aeab, 0x669495b820f0ddba,
      0xf42013b1b8bf9e3d, 0xcf935efe6439734d, 0xbc1dcf42ca29e3f8, 0x7e6d3ed29f78ad67],
     [0xf3b0f6837ffcddaa, 0x3a76faef934ddf41, 0xcec7ae583a9c8e35, 0xe4dd18c68f0260af,
      0x2c0e5df1ad398eaa, 0x478df5236ae22e8c, 0xfb944c46fe865f39, 0xaa48f82f028132ba],
     [0x231b9ae2b76aca77, 0x292a76a712db0b40, 0x5850625dc8134491, 0x73137dd469810fb5,
      0x8a12a6a202a474fd, 0xd36fd9daa78bdb80, 0xb34c5e733505706f, 0xbaf1cdca818d9d96],
     [0x2e99781335e8c641, 0xbddfe5cce47d560e, 0xf74e9bf32e5e040c, 0x1d7a709d65996be9,
      0x670df36a9cf66cdd, 0xd05ef84a176a2875, 0x0f888e828cb1c44e, 0x1a79e9c9727b052c],
     [0x83497348628d84de, 0x2e9387d51f22a754, 0xb000068da2f852d6, 0x378c9e1190fd6fe5,
      0x870027c316de7293, 0xe51a9d4462e047bb, 0x90ecf7f8c6251195, 0x655953bfbed90a9c]]"

text \<open>The Boyar-Peralta circuit of the AES S-box on eight bit-planes. The code has it twice, for planes of 64 and
  of 32 bits.\<close>

definition bitslice_Sbox :: "'a::len word list \<Rightarrow> 'a word list" where
  "bitslice_Sbox q =
     (let
        x0 = q ! 7; x1 = q ! 6; x2 = q ! 5;
        x3 = q ! 4; x4 = q ! 3; x5 = q ! 2;
        x6 = q ! 1; x7 = q ! 0; y14 = x3 XOR x5;
        y13 = x0 XOR x6; y9 = x0 XOR x3; y8 = x0 XOR x5;
        t0 = x1 XOR x2; y1 = t0 XOR x7; y4 = y1 XOR x3;
        y12 = y13 XOR y14; y2 = y1 XOR x0; y5 = y1 XOR x6;
        y3 = y5 XOR y8; t1 = x4 XOR y12; y15 = t1 XOR x5;
        y20 = t1 XOR x1; y6 = y15 XOR x7; y10 = y15 XOR t0;
        y11 = y20 XOR y9; y7 = x7 XOR y11; y17 = y10 XOR y11;
        y19 = y10 XOR y8; y16 = t0 XOR y11; y21 = y13 XOR y16;
        y18 = x0 XOR y16; t2 = y12 AND y15; t3 = y3 AND y6;
        t4 = t3 XOR t2; t5 = y4 AND x7; t6 = t5 XOR t2;
        t7 = y13 AND y16; t8 = y5 AND y1; t9 = t8 XOR t7;
        t10 = y2 AND y7; t11 = t10 XOR t7; t12 = y9 AND y11;
        t13 = y14 AND y17; t14 = t13 XOR t12; t15 = y8 AND y10;
        t16 = t15 XOR t12; t17 = t4 XOR t14; t18 = t6 XOR t16;
        t19 = t9 XOR t14; t20 = t11 XOR t16; t21 = t17 XOR y20;
        t22 = t18 XOR y19; t23 = t19 XOR y21; t24 = t20 XOR y18;
        t25 = t21 XOR t22; t26 = t21 AND t23; t27 = t24 XOR t26;
        t28 = t25 AND t27; t29 = t28 XOR t22; t30 = t23 XOR t24;
        t31 = t22 XOR t26; t32 = t31 AND t30; t33 = t32 XOR t24;
        t34 = t23 XOR t33; t35 = t27 XOR t33; t36 = t24 AND t35;
        t37 = t36 XOR t34; t38 = t27 XOR t36; t39 = t29 AND t38;
        t40 = t25 XOR t39; t41 = t40 XOR t37; t42 = t29 XOR t33;
        t43 = t29 XOR t40; t44 = t33 XOR t37; t45 = t42 XOR t41;
        z0 = t44 AND y15; z1 = t37 AND y6; z2 = t33 AND x7;
        z3 = t43 AND y16; z4 = t40 AND y1; z5 = t29 AND y7;
        z6 = t42 AND y11; z7 = t45 AND y17; z8 = t41 AND y10;
        z9 = t44 AND y12; z10 = t37 AND y3; z11 = t33 AND y4;
        z12 = t43 AND y13; z13 = t40 AND y5; z14 = t29 AND y2;
        z15 = t42 AND y9; z16 = t45 AND y14; z17 = t41 AND y8;
        t46 = z15 XOR z16; t47 = z10 XOR z11; t48 = z5 XOR z13;
        t49 = z9 XOR z10; t50 = z2 XOR z12; t51 = z2 XOR z5;
        t52 = z7 XOR z8; t53 = z0 XOR z3; t54 = z6 XOR z7;
        t55 = z16 XOR z17; t56 = z12 XOR t48; t57 = t50 XOR t53;
        t58 = z4 XOR t46; t59 = z3 XOR t54; t60 = t46 XOR t57;
        t61 = z14 XOR t57; t62 = t52 XOR t58; t63 = t49 XOR t58;
        t64 = z4 XOR t59; t65 = t61 XOR t62; t66 = z1 XOR t63;
        s0 = t59 XOR t63; s6 = t56 XOR NOT t62; s7 = t48 XOR NOT t60;
        t67 = t64 XOR t65; s3 = t53 XOR t66; s4 = t51 XOR t66;
        s5 = t47 XOR t65; s1 = t64 XOR NOT s3; s2 = t55 XOR NOT t67
      in [s7, s6, s5, s4, s3, s2, s1, s0])"

definition br_aes_ct64_bitslice_Sbox :: "u64 list \<Rightarrow> u64 list" where
  "br_aes_ct64_bitslice_Sbox q = bitslice_Sbox q"

definition br_dec32le :: "bytes \<Rightarrow> u32" where
  "br_dec32le src =
     ucast (src ! 0) OR push_bit 8 (ucast (src ! 1)) OR
     push_bit 16 (ucast (src ! 2)) OR push_bit 24 (ucast (src ! 3))"

definition br_range_dec32le :: "nat \<Rightarrow> bytes \<Rightarrow> u32 list" where
  "br_range_dec32le num src = map (\<lambda>i. br_dec32le (drop (4 * i) src)) [0..<num]"

definition br_enc32le :: "u32 \<Rightarrow> bytes" where
  "br_enc32le x = [ucast x, ucast (drop_bit 8 x), ucast (drop_bit 16 x), ucast (drop_bit 24 x)]"

definition br_range_enc32le :: "u32 list \<Rightarrow> bytes" where
  "br_range_enc32le v = concat (map br_enc32le v)"

text \<open>\<open>SWAPN(cl, ch, s, q[i], q[j])\<close> and the transposition \<open>br_aes_ct64_ortho\<close>.\<close>

definition swapn :: "u64 \<Rightarrow> u64 \<Rightarrow> nat \<Rightarrow> nat \<Rightarrow> nat \<Rightarrow> u64 list \<Rightarrow> u64 list" where
  "swapn cl ch s i j q =
     (let a = q ! i; b = q ! j
      in q[i := (a AND cl) OR push_bit s (b AND cl), j := drop_bit s (a AND ch) OR (b AND ch)])"

definition swap2 :: "nat \<Rightarrow> nat \<Rightarrow> u64 list \<Rightarrow> u64 list" where
  "swap2 = swapn 0x5555555555555555 0xAAAAAAAAAAAAAAAA 1"

definition swap4 :: "nat \<Rightarrow> nat \<Rightarrow> u64 list \<Rightarrow> u64 list" where
  "swap4 = swapn 0x3333333333333333 0xCCCCCCCCCCCCCCCC 2"

definition swap8 :: "nat \<Rightarrow> nat \<Rightarrow> u64 list \<Rightarrow> u64 list" where
  "swap8 = swapn 0x0F0F0F0F0F0F0F0F 0xF0F0F0F0F0F0F0F0 4"

definition br_aes_ct64_ortho :: "u64 list \<Rightarrow> u64 list" where
  "br_aes_ct64_ortho q =
     (let q = swap2 6 7 (swap2 4 5 (swap2 2 3 (swap2 0 1 q)));
          q = swap4 5 7 (swap4 4 6 (swap4 1 3 (swap4 0 2 q)))
      in swap8 3 7 (swap8 2 6 (swap8 1 5 (swap8 0 4 q))))"

definition br_aes_ct64_interleave_in :: "u32 list \<Rightarrow> u64 \<times> u64" where
  "br_aes_ct64_interleave_in w =
     (let spread = (\<lambda>v. let x = (ucast (v :: u32) :: u64);
                            x = x OR push_bit 16 x; x = x AND 0x0000FFFF0000FFFF;
                            x = x OR push_bit 8 x in x AND 0x00FF00FF00FF00FF);
          x0 = spread (w ! 0); x1 = spread (w ! 1); x2 = spread (w ! 2); x3 = spread (w ! 3)
      in (x0 OR push_bit 8 x2, x1 OR push_bit 8 x3))"

definition br_aes_ct64_interleave_out :: "u64 \<Rightarrow> u64 \<Rightarrow> u32 list" where
  "br_aes_ct64_interleave_out q0 q1 =
     (let gather = (\<lambda>y. let x = (y :: u64) AND 0x00FF00FF00FF00FF;
                            x = x OR drop_bit 8 x; x = x AND 0x0000FFFF0000FFFF
                        in (ucast x OR ucast (drop_bit 16 x) :: u32))
      in [gather q0, gather q1, gather (drop_bit 8 q0), gather (drop_bit 8 q1)])"

definition add_round_key :: "u64 list \<Rightarrow> u64 list \<Rightarrow> u64 list" where
  "add_round_key q sk = map (\<lambda>i. q ! i XOR sk ! i) [0..<8]"

definition shift_rows :: "u64 list \<Rightarrow> u64 list" where
  "shift_rows q =
     map (\<lambda>x. (x AND 0x000000000000FFFF)
            OR drop_bit 4 (x AND 0x00000000FFF00000)
            OR push_bit 12 (x AND 0x00000000000F0000)
            OR drop_bit 8 (x AND 0x0000FF0000000000)
            OR push_bit 8 (x AND 0x000000FF00000000)
            OR drop_bit 12 (x AND 0xF000000000000000)
            OR push_bit 4 (x AND 0x0FFF000000000000)) q"

definition haraka_rotr32 :: "u64 \<Rightarrow> u64" where
  "haraka_rotr32 x = push_bit 32 x OR drop_bit 32 x"

definition mix_columns :: "u64 list \<Rightarrow> u64 list" where
  "mix_columns q =
     (let q0 = q ! 0; q1 = q ! 1; q2 = q ! 2; q3 = q ! 3;
          q4 = q ! 4; q5 = q ! 5; q6 = q ! 6; q7 = q ! 7;
          r0 = drop_bit 16 q0 OR push_bit 48 q0; r1 = drop_bit 16 q1 OR push_bit 48 q1;
          r2 = drop_bit 16 q2 OR push_bit 48 q2; r3 = drop_bit 16 q3 OR push_bit 48 q3;
          r4 = drop_bit 16 q4 OR push_bit 48 q4; r5 = drop_bit 16 q5 OR push_bit 48 q5;
          r6 = drop_bit 16 q6 OR push_bit 48 q6; r7 = drop_bit 16 q7 OR push_bit 48 q7
      in [q7 XOR r7 XOR r0 XOR haraka_rotr32 (q0 XOR r0),
          q0 XOR r0 XOR q7 XOR r7 XOR r1 XOR haraka_rotr32 (q1 XOR r1),
          q1 XOR r1 XOR r2 XOR haraka_rotr32 (q2 XOR r2),
          q2 XOR r2 XOR q7 XOR r7 XOR r3 XOR haraka_rotr32 (q3 XOR r3),
          q3 XOR r3 XOR q7 XOR r7 XOR r4 XOR haraka_rotr32 (q4 XOR r4),
          q4 XOR r4 XOR r5 XOR haraka_rotr32 (q5 XOR r5),
          q5 XOR r5 XOR r6 XOR haraka_rotr32 (q6 XOR r6),
          q6 XOR r6 XOR r7 XOR haraka_rotr32 (q7 XOR r7)])"

definition haraka_mix_word :: "u64 \<Rightarrow> u64" where
  "haraka_mix_word t =
     push_bit 5 (t AND 0x0001000100010001) OR push_bit 12 (t AND 0x0002000200020002) OR
     drop_bit 1 (t AND 0x0004000400040004) OR push_bit 6 (t AND 0x0008000800080008) OR
     push_bit 9 (t AND 0x0020002000200020) OR drop_bit 4 (t AND 0x0040004000400040) OR
     push_bit 3 (t AND 0x0080008000800080) OR drop_bit 5 (t AND 0x2100210021002100) OR
     push_bit 2 (t AND 0x0210021002100210) OR push_bit 4 (t AND 0x0800080008000800) OR
     drop_bit 12 (t AND 0x1000100010001000) OR drop_bit 10 (t AND 0x4000400040004000) OR
     drop_bit 3 (t AND 0x8400840084008400)"

definition haraka_aes_round :: "u64 list \<Rightarrow> u64 list \<Rightarrow> u64 list" where
  "haraka_aes_round rk q = add_round_key (mix_columns (shift_rows (br_aes_ct64_bitslice_Sbox q))) rk"

text \<open>Eight words from sixteen: word \<open>i\<close> and word \<open>i + 4\<close> of the result come from the
  \<open>i\<close>-th group of four.\<close>

definition haraka_interleave :: "u32 list \<Rightarrow> u64 list" where
  "haraka_interleave w =
     map (\<lambda>i. fst (br_aes_ct64_interleave_in (drop (4 * i) w))) [0..<4] @
     map (\<lambda>i. snd (br_aes_ct64_interleave_in (drop (4 * i) w))) [0..<4]"

definition haraka512_perm :: "u64 list list \<Rightarrow> bytes \<Rightarrow> bytes" where
  "haraka512_perm rcs inp =
     (let q0 = br_aes_ct64_ortho (haraka_interleave (br_range_dec32le 16 inp));
          q1 = fold (\<lambda>i q. map haraka_mix_word
                 (haraka_aes_round (rcs ! (2 * i + 1)) (haraka_aes_round (rcs ! (2 * i)) q)))
                 [0..<5] q0;
          q2 = br_aes_ct64_ortho q1
      in br_range_enc32le
           (concat (map (\<lambda>i. br_aes_ct64_interleave_out (q2 ! i) (q2 ! (i + 4))) [0..<4])))"

definition HARAKAS_RATE :: nat where "HARAKAS_RATE = 32"

definition haraka_xor_block :: "bytes \<Rightarrow> bytes \<Rightarrow> bytes" where
  "haraka_xor_block t s = map2 (\<lambda>a b. a XOR b) (take HARAKAS_RATE s) t @ drop HARAKAS_RATE s"

function haraka_absorb_blocks :: "u64 list list \<Rightarrow> bytes \<Rightarrow> bytes \<Rightarrow> bytes \<times> bytes" where
  "haraka_absorb_blocks rcs s m =
     (if length m < HARAKAS_RATE then (s, m)
      else haraka_absorb_blocks rcs
             (haraka512_perm rcs (haraka_xor_block (take HARAKAS_RATE m) s)) (drop HARAKAS_RATE m))"
  by pat_completeness auto
termination
  by (relation "measure (\<lambda>(rcs, s, m). length m)") (auto simp: HARAKAS_RATE_def)

declare haraka_absorb_blocks.simps [simp del]

definition haraka_S_absorb :: "u64 list list \<Rightarrow> bytes \<Rightarrow> bytes \<Rightarrow> u8 \<Rightarrow> bytes" where
  "haraka_S_absorb rcs s m p =
     (case haraka_absorb_blocks rcs s m of (s', rest) \<Rightarrow>
        (let t = overwrite 0 (rest @ [p]) (replicate HARAKAS_RATE 0);
             t' = t[HARAKAS_RATE - 1 := t ! (HARAKAS_RATE - 1) OR 128]
         in haraka_xor_block t' s'))"

fun haraka_S_squeezeblocks :: "u64 list list \<Rightarrow> nat \<Rightarrow> bytes \<Rightarrow> bytes \<times> bytes" where
  "haraka_S_squeezeblocks rcs 0 s = ([], s)"
| "haraka_S_squeezeblocks rcs (Suc nblocks) s =
     (let s' = haraka512_perm rcs s
      in case haraka_S_squeezeblocks rcs nblocks s' of (out, s'') \<Rightarrow>
           (take HARAKAS_RATE s' @ out, s''))"

definition haraka_S :: "u64 list list \<Rightarrow> nat \<Rightarrow> bytes \<Rightarrow> bytes" where
  "haraka_S rcs outlen inp =
     (let s = haraka_S_absorb rcs (replicate 64 0) inp 0x1F
      in case haraka_S_squeezeblocks rcs (outlen div 32) s of (out, s') \<Rightarrow>
           if outlen mod 32 \<noteq> 0
           then out @ take (outlen mod 32) (fst (haraka_S_squeezeblocks rcs 1 s'))
           else out)"

definition interleave_constant :: "bytes \<Rightarrow> u64 list" where
  "interleave_constant inp = br_aes_ct64_ortho (haraka_interleave (br_range_dec32le 16 inp))"

text \<open>
  \<open>tweak_constants\<close>, the table \<open>tweaked512_rc64\<close> it leaves: the standard constants are
  installed first, the seed is expanded with them, and the ten rows are replaced by the
  interleaved expansion. (The two 256-bit tables it also writes are read only by
  \<open>haraka256\<close> and \<open>haraka256_sk\<close>, which no LMS code calls.)
\<close>

definition tweak_constants :: "bytes \<Rightarrow> u64 list list" where
  "tweak_constants pk_seed =
     (let buf = haraka_S haraka512_rc64 (40 * 16) pk_seed
      in map (\<lambda>i. interleave_constant (drop (64 * i) buf)) [0..<10])"

lemma length_br_aes_ct64_interleave_out [simp]: "length (br_aes_ct64_interleave_out a b) = 4"
  by (simp add: br_aes_ct64_interleave_out_def Let_def)

lemma length_br_range_enc32le [simp, len_simps]: "length (br_range_enc32le v) = 4 * length v"
  by (simp add: br_range_enc32le_def br_enc32le_def length_concat o_def sum_list_triv)

lemma length_haraka512_perm [simp, len_simps]: "length (haraka512_perm rcs inp) = 64"
  by (simp add: haraka512_perm_def Let_def length_concat o_def sum_list_triv)

lemma length_haraka_squeezeblocks:
  "length (fst (haraka_S_squeezeblocks rcs n s)) = n * 32"
  by (induction n arbitrary: s) (auto simp: Let_def split_beta HARAKAS_RATE_def)

lemma length_haraka_S [simp, len_simps]: "length (haraka_S rcs outlen inp) = outlen"
proof -
  have "outlen mod 32 \<le> 32" using mod_less_divisor [of 32 outlen] by linarith
  moreover have "outlen div 32 * 32 + outlen mod 32 = outlen" by simp
  ultimately show ?thesis
    using length_haraka_squeezeblocks [of rcs]
    by (auto simp: haraka_S_def Let_def split_beta HARAKAS_RATE_def)
qed

end
