(* ===== verification/Lms_Types.thy ===== *)
theory Lms_Types
  imports Sha256 Fips202 Haraka
begin

text \<open>
  The types of \<open>include/lms.h\<close>, \<open>include/hash_api.h\<close> and \<open>src/lms_internal.h\<close>: parameter
  sets, keys, error codes, the accelerator callbacks, and the record of everything the
  library keeps in static variables (parameter caches, Haraka constants, chain statistics,
  registered backends).

  Pointers that the code passes around become values; a callback with its \<open>void *context\<close> is
  a function on the type \<open>'w\<close> of everything outside the library that callbacks may read and
  change.
\<close>

section \<open>Error codes and algorithms\<close>

text \<open>The error values of \<open>lms_status_t\<close> (\<open>LMS_OK\<close> is a returned value). \<open>LMS_NO_RETURN\<close> is
  not a C value: it marks a call that would never return (unbounded recursion).\<close>

datatype lms_status_t =
    LMS_ERR_INVALID
  | LMS_ERR_BUFFER_TOO_SMALL
  | LMS_ERR_EXHAUSTED
  | LMS_ERR_VERIFY
  | LMS_NO_RETURN

datatype lms_hash_alg_t = LMS_HASH_SHA256 | LMS_HASH_SHAKE256 | LMS_HASH_HARAKA

definition LMS_N :: nat where "LMS_N = 32"
definition LMS_I_LEN :: nat where "LMS_I_LEN = 16"
definition LMS_SEED_LEN :: nat where "LMS_SEED_LEN = 32"
definition LMS_MAX_HEIGHT :: nat where "LMS_MAX_HEIGHT = 25"
definition LMS_MAX_OTS_P :: nat where "LMS_MAX_OTS_P = 265"
definition LMS_PUBLIC_KEY_LEN :: nat where "LMS_PUBLIC_KEY_LEN = 4 + 4 + 16 + 32"
definition LMS_PRIVATE_KEY_LEN :: nat where "LMS_PRIVATE_KEY_LEN = 4 + 4 + 16 + 32 + 4"

lemmas lms_lens = LMS_N_def LMS_I_LEN_def LMS_SEED_LEN_def LMS_MAX_HEIGHT_def LMS_MAX_OTS_P_def
  LMS_PUBLIC_KEY_LEN_def LMS_PRIVATE_KEY_LEN_def

text \<open>\<open>size_t\<close> and \<open>unsigned int\<close> of the RV32 target.\<close>

definition SIZE_MAX :: nat where "SIZE_MAX = 2 ^ 32 - 1"
definition UINT_MAX :: nat where "UINT_MAX = 2 ^ 32 - 1"

abbreviation (input) LMS_SHA256_N32_H5 :: u32 where "LMS_SHA256_N32_H5 \<equiv> 0x05"
abbreviation (input) LMS_SHA256_N32_H10 :: u32 where "LMS_SHA256_N32_H10 \<equiv> 0x06"
abbreviation (input) LMS_SHA256_N32_H15 :: u32 where "LMS_SHA256_N32_H15 \<equiv> 0x07"
abbreviation (input) LMS_SHA256_N32_H20 :: u32 where "LMS_SHA256_N32_H20 \<equiv> 0x08"
abbreviation (input) LMS_SHA256_N32_H25 :: u32 where "LMS_SHA256_N32_H25 \<equiv> 0x09"
abbreviation (input) LMS_SHAKE256_N32_H5 :: u32 where "LMS_SHAKE256_N32_H5 \<equiv> 0x15"
abbreviation (input) LMS_SHAKE256_N32_H10 :: u32 where "LMS_SHAKE256_N32_H10 \<equiv> 0x16"
abbreviation (input) LMS_SHAKE256_N32_H15 :: u32 where "LMS_SHAKE256_N32_H15 \<equiv> 0x17"
abbreviation (input) LMS_SHAKE256_N32_H20 :: u32 where "LMS_SHAKE256_N32_H20 \<equiv> 0x18"
abbreviation (input) LMS_SHAKE256_N32_H25 :: u32 where "LMS_SHAKE256_N32_H25 \<equiv> 0x19"
abbreviation (input) LMS_HARAKA_N32_H5 :: u32 where "LMS_HARAKA_N32_H5 \<equiv> 0x25"
abbreviation (input) LMS_HARAKA_N32_H10 :: u32 where "LMS_HARAKA_N32_H10 \<equiv> 0x26"
abbreviation (input) LMS_HARAKA_N32_H15 :: u32 where "LMS_HARAKA_N32_H15 \<equiv> 0x27"
abbreviation (input) LMS_HARAKA_N32_H20 :: u32 where "LMS_HARAKA_N32_H20 \<equiv> 0x28"
abbreviation (input) LMS_HARAKA_N32_H25 :: u32 where "LMS_HARAKA_N32_H25 \<equiv> 0x29"

abbreviation (input) LMOTS_SHA256_N32_W1 :: u32 where "LMOTS_SHA256_N32_W1 \<equiv> 0x01"
abbreviation (input) LMOTS_SHA256_N32_W2 :: u32 where "LMOTS_SHA256_N32_W2 \<equiv> 0x02"
abbreviation (input) LMOTS_SHA256_N32_W4 :: u32 where "LMOTS_SHA256_N32_W4 \<equiv> 0x03"
abbreviation (input) LMOTS_SHA256_N32_W8 :: u32 where "LMOTS_SHA256_N32_W8 \<equiv> 0x04"
abbreviation (input) LMOTS_SHAKE256_N32_W1 :: u32 where "LMOTS_SHAKE256_N32_W1 \<equiv> 0x11"
abbreviation (input) LMOTS_SHAKE256_N32_W2 :: u32 where "LMOTS_SHAKE256_N32_W2 \<equiv> 0x12"
abbreviation (input) LMOTS_SHAKE256_N32_W4 :: u32 where "LMOTS_SHAKE256_N32_W4 \<equiv> 0x13"
abbreviation (input) LMOTS_SHAKE256_N32_W8 :: u32 where "LMOTS_SHAKE256_N32_W8 \<equiv> 0x14"
abbreviation (input) LMOTS_HARAKA_N32_W1 :: u32 where "LMOTS_HARAKA_N32_W1 \<equiv> 0x21"
abbreviation (input) LMOTS_HARAKA_N32_W2 :: u32 where "LMOTS_HARAKA_N32_W2 \<equiv> 0x22"
abbreviation (input) LMOTS_HARAKA_N32_W4 :: u32 where "LMOTS_HARAKA_N32_W4 \<equiv> 0x23"
abbreviation (input) LMOTS_HARAKA_N32_W8 :: u32 where "LMOTS_HARAKA_N32_W8 \<equiv> 0x24"

definition D_MESG :: u16 where "D_MESG = 0x8181"
definition D_PBLC :: u16 where "D_PBLC = 0x8080"
definition D_LEAF :: u16 where "D_LEAF = 0x8282"
definition D_INTR :: u16 where "D_INTR = 0x8383"
definition LMOTS_C_PRG_DOMAIN :: u16 where "LMOTS_C_PRG_DOMAIN = 0x8585"

section \<open>Keys and parameters\<close>

record lms_public_key_t =
  pub_lms_type :: u32
  pub_lmots_type :: u32
  pub_I :: bytes
  pub_root :: bytes

record lms_private_key_t =
  priv_lms_type :: u32
  priv_lmots_type :: u32
  priv_I :: bytes
  priv_seed :: bytes
  priv_q :: u32

record lms_param_t =
  lp_type :: u32
  lp_hash_alg :: lms_hash_alg_t
  lp_height :: nat
  lp_n :: nat

record lmots_param_t =
  op_type :: u32
  op_hash_alg :: lms_hash_alg_t
  op_n :: nat
  op_w :: nat
  op_p :: nat
  op_ls :: nat

record lmots_chain_stats_t =
  st_calls :: u64
  st_steps :: u64

section \<open>Accelerator callbacks\<close>

type_synonym ('w, 'a) callback = "(lms_status_t, 'w, 'a) op"

type_synonym 'w lmots_chain_backend_fn =
  "bytes \<Rightarrow> lms_hash_alg_t \<Rightarrow> u32 \<Rightarrow> nat \<Rightarrow> nat \<Rightarrow> nat \<Rightarrow> bytes \<Rightarrow> ('w, bytes) callback"
type_synonym 'w lmots_derive_chain_backend_fn =
  "bytes \<Rightarrow> lms_hash_alg_t \<Rightarrow> u32 \<Rightarrow> nat \<Rightarrow> nat \<Rightarrow> nat \<Rightarrow> ('w, bytes) callback"
type_synonym 'w lmots_randomizer_backend_fn =
  "bytes \<Rightarrow> lms_hash_alg_t \<Rightarrow> u32 \<Rightarrow> ('w, bytes) callback"
type_synonym 'w lmots_keygen_backend_fn =
  "bytes \<Rightarrow> lms_hash_alg_t \<Rightarrow> u32 \<Rightarrow> u32 \<Rightarrow> ('w, bytes) callback"
type_synonym 'w lmots_sign_backend_fn =
  "bytes \<Rightarrow> lms_hash_alg_t \<Rightarrow> u32 \<Rightarrow> u32 \<Rightarrow> nat list \<Rightarrow> ('w, bytes) callback"
type_synonym 'w lmots_verify_backend_fn =
  "bytes \<Rightarrow> lms_hash_alg_t \<Rightarrow> u32 \<Rightarrow> u32 \<Rightarrow> nat list \<Rightarrow> bytes \<Rightarrow> ('w, bytes) callback"
type_synonym 'w lmots_verify_leaf_backend_fn =
  "bytes \<Rightarrow> lms_hash_alg_t \<Rightarrow> u32 \<Rightarrow> u32 \<Rightarrow> nat list \<Rightarrow> bytes \<Rightarrow> u32 \<Rightarrow> ('w, bytes) callback"
type_synonym 'w lms_intr_backend_fn =
  "bytes \<Rightarrow> lms_hash_alg_t \<Rightarrow> u32 \<Rightarrow> bytes \<Rightarrow> bytes \<Rightarrow> ('w, bytes) callback"
type_synonym 'w lms_verify_authpath_backend_fn =
  "bytes \<Rightarrow> lms_hash_alg_t \<Rightarrow> u32 \<Rightarrow> bytes \<Rightarrow> bytes \<Rightarrow> nat \<Rightarrow> ('w, bytes) callback"
type_synonym 'w lmots_message_hash_backend_fn =
  "bytes \<Rightarrow> lms_hash_alg_t \<Rightarrow> u32 \<Rightarrow> bytes \<Rightarrow> bytes \<Rightarrow> ('w, bytes) callback"
type_synonym 'w lmots_coef_backend_fn =
  "bytes \<Rightarrow> lms_hash_alg_t \<Rightarrow> u32 \<Rightarrow> bytes \<Rightarrow> bytes \<Rightarrow> u32 \<Rightarrow> ('w, bytes \<times> nat list) callback"
type_synonym 'w lms_auth_path_backend_fn =
  "lms_private_key_t \<Rightarrow> u32 \<Rightarrow> ('w, bytes) callback"

section \<open>The static state of the library\<close>

text \<open>
  One field per static variable of \<open>lms_params.c\<close>, \<open>hash_api.c\<close>, \<open>haraka.c\<close>, \<open>lm_ots.c\<close>,
  \<open>lms_sign.c\<close> and \<open>lms_verify.c\<close>. A cache (type, valid flag, entry) is an option.
  \<open>malloc_limit\<close> is the largest allocation \<open>malloc\<close> grants; \<open>stack_tail\<close> is what the
  uninitialised last two bytes of a digest buffer happen to hold; \<open>world\<close> is the state the
  callbacks work on.
\<close>

record 'w lms_lib =
  s_lms_cache :: "(u32 \<times> lms_param_t) option"
  s_lmots_cache :: "(u32 \<times> lmots_param_t) option"
  haraka_initialized :: bool
  tweaked512_rc64 :: "u64 list list"
  malloc_limit :: nat
  stack_tail :: bytes
  chain_stats :: lmots_chain_stats_t
  keygen_chain_backend :: "'w lmots_chain_backend_fn option"
  verify_chain_backend :: "'w lmots_chain_backend_fn option"
  sign_chain_backend :: "'w lmots_chain_backend_fn option"
  keygen_derive_backend :: "'w lmots_derive_chain_backend_fn option"
  keygen_backend :: "'w lmots_keygen_backend_fn option"
  sign_backend :: "'w lmots_sign_backend_fn option"
  verify_backend :: "'w lmots_verify_backend_fn option"
  verify_leaf_backend :: "'w lmots_verify_leaf_backend_fn option"
  sign_derive_backend :: "'w lmots_derive_chain_backend_fn option"
  sign_randomizer_backend :: "'w lmots_randomizer_backend_fn option"
  intr_backend :: "'w lms_intr_backend_fn option"
  message_hash_backend :: "'w lmots_message_hash_backend_fn option"
  coef_backend :: "'w lmots_coef_backend_fn option"
  auth_path_backend :: "'w lms_auth_path_backend_fn option"
  verify_authpath_backend :: "'w lms_verify_authpath_backend_fn option"
  world :: 'w

type_synonym ('w, 'a) lop = "(lms_status_t, 'w lms_lib, 'a) op"

text \<open>A callback runs on the world and leaves the static variables alone.\<close>

definition on_world :: "('w, 'a) callback \<Rightarrow> ('w, 'a) lop" where
  "on_world m = (\<lambda>s. case m (world s) of (r, w) \<Rightarrow> (r, s\<lparr>world := w\<rparr>))"

end
