(* ===== verification/Hash_Api.thy ===== *)
theory Hash_Api
  imports Lms_Types
begin

text \<open>
  The unified hash entry point \<open>lms_hash\<close> of \<open>src/hash_api.c\<close> (default build: all three hash
  functions, SHAKE256 by \<open>fips202.c\<close>), the lazily initialised Haraka constants, and
  \<open>sha256_update_size\<close> of \<open>src/lms_params.c\<close>. The pure function \<open>lms_digest\<close> is what every
  call is shown to compute.
\<close>

section \<open>The code\<close>

text \<open>A context on the stack; what its buffer holds does not matter.\<close>

definition sha256_ctx_uninit :: SHA256_CTX where
  "sha256_ctx_uninit = \<lparr>sha_state = [], bit_len = 0, buffer = replicate 64 0, buffer_len = 0\<rparr>"

text \<open>The loop that feeds at most \<open>UINT_MAX\<close> bytes per call to \<open>SHA256_Update\<close>.\<close>

function sha256_update_size :: "SHA256_CTX \<Rightarrow> bytes \<Rightarrow> SHA256_CTX" where
  "sha256_update_size ctx data =
     (if data = [] then ctx
      else let chunk = min (length data) UINT_MAX
           in sha256_update_size (SHA256_Update ctx (take chunk data)) (drop chunk data))"
  by pat_completeness auto
termination
  by (relation "measure (\<lambda>(ctx, data). length data)") (auto simp: UINT_MAX_def)

declare sha256_update_size.simps [simp del]

definition ensure_haraka_initialized :: "('w, unit) lop" where
  "ensure_haraka_initialized =
     modify (\<lambda>s. if haraka_initialized s then s
                 else s\<lparr>tweaked512_rc64 := tweak_constants (replicate 32 0), haraka_initialized := True\<rparr>)"

definition hash_shake256 :: "bytes \<Rightarrow> nat \<Rightarrow> ('w, bytes) lop" where
  "hash_shake256 inp output_len = ret (shake256 output_len inp)"

definition hash_sha256 :: "bytes \<Rightarrow> nat \<Rightarrow> ('w, bytes) lop" where
  "hash_sha256 inp output_len =
     andthen (reject_if (output_len > SHA256_LEN) LMS_ERR_INVALID)
       (ret (take output_len (SHA256_Final (sha256_update_size (SHA256_Init sha256_ctx_uninit) inp))))"

definition hash_haraka :: "bytes \<Rightarrow> nat \<Rightarrow> ('w, bytes) lop" where
  "hash_haraka inp output_len =
     andthen (reject_if (output_len \<noteq> 32) LMS_ERR_INVALID)
       (andthen ensure_haraka_initialized
          (bind (look tweaked512_rc64) (\<lambda>rcs. ret (haraka_S rcs output_len inp))))"

definition lms_hash :: "lms_hash_alg_t \<Rightarrow> bytes \<Rightarrow> nat \<Rightarrow> ('w, bytes) lop" where
  "lms_hash alg inp output_len =
     (case alg of
        LMS_HASH_SHAKE256 \<Rightarrow> hash_shake256 inp output_len
      | LMS_HASH_SHA256 \<Rightarrow> hash_sha256 inp output_len
      | LMS_HASH_HARAKA \<Rightarrow> hash_haraka inp output_len)"

section \<open>What it computes\<close>

definition lms_digest :: "lms_hash_alg_t \<Rightarrow> bytes \<Rightarrow> bytes" where
  "lms_digest alg m =
     (case alg of
        LMS_HASH_SHA256 \<Rightarrow> sha256_spec m
      | LMS_HASH_SHAKE256 \<Rightarrow> shake256 32 m
      | LMS_HASH_HARAKA \<Rightarrow> haraka_S (tweak_constants (replicate 32 0)) 32 m)"

lemma length_lms_digest [simp, len_simps]: "length (lms_digest alg m) = 32"
  by (simp add: lms_digest_def split: lms_hash_alg_t.split)

text \<open>The Haraka table is either not yet used or the one derived from the zero seed.\<close>

definition haraka_ok :: "'w lms_lib \<Rightarrow> bool" where
  "haraka_ok s \<longleftrightarrow> (haraka_initialized s \<longrightarrow> tweaked512_rc64 s = tweak_constants (replicate 32 0))"

lemma sha_absorbed_update_size:
  "sha_absorbed ctx m \<Longrightarrow> sha_absorbed (sha256_update_size ctx data) (m @ data)"
proof (induction ctx data arbitrary: m rule: sha256_update_size.induct)
  case (1 ctx data)
  show ?case
  proof (cases "data = []")
    case True
    with "1.prems" show ?thesis by (subst sha256_update_size.simps) simp
  next
    case False
    define chunk where "chunk = min (length data) UINT_MAX"
    have "sha_absorbed (sha256_update_size (SHA256_Update ctx (take chunk data)) (drop chunk data))
        ((m @ take chunk data) @ drop chunk data)"
      by (rule "1.IH" [OF False chunk_def sha_absorbed_update [OF "1.prems"]])
    with False show ?thesis
      by (subst sha256_update_size.simps) (simp add: chunk_def Let_def)
  qed
qed

lemma sha_absorbed_uninit: "sha_absorbed (SHA256_Init sha256_ctx_uninit) []"
  by (rule sha_absorbed_init) (simp add: sha256_ctx_uninit_def)

lemma sha256_oneshot:
  "SHA256_Final (sha256_update_size (SHA256_Init sha256_ctx_uninit) m) = sha256_spec m"
  using sha256_final_spec [OF sha_absorbed_update_size [OF sha_absorbed_uninit]] by simp

text \<open>\<open>inv_frame I\<close>: the invariant does not look at the Haraka variables beyond
  \<open>haraka_ok\<close>.\<close>

definition haraka_frame :: "('w lms_lib \<Rightarrow> bool) \<Rightarrow> bool" where
  "haraka_frame I \<longleftrightarrow> (\<forall>s. I s \<longrightarrow> haraka_ok s \<and>
     I (s\<lparr>tweaked512_rc64 := tweak_constants (replicate 32 0), haraka_initialized := True\<rparr>))"

lemma gives_ensure_haraka:
  "haraka_frame I \<Longrightarrow> gives fl I ensure_haraka_initialized (Inr ())"
  unfolding ensure_haraka_initialized_def by (rule gives_modify) (auto simp: haraka_frame_def)

lemma gives_hash_haraka:
  assumes "haraka_frame I"
  shows "gives fl I (hash_haraka m 32) (Inr (lms_digest LMS_HASH_HARAKA m))"
proof (rule givesI)
  fix s assume "I s"
  then have h: "haraka_ok s" and f: "I (s\<lparr>tweaked512_rc64 := tweak_constants (replicate 32 0),
      haraka_initialized := True\<rparr>)"
    using assms by (auto simp: haraka_frame_def)
  show "fst (hash_haraka m 32 s) = Inr (lms_digest LMS_HASH_HARAKA m) \<or>
      fl \<and> isl (fst (hash_haraka m 32 s))"
    using h by (auto simp: hash_haraka_def ensure_haraka_initialized_def haraka_ok_def
        lms_digest_def op_defs)
  show "I (snd (hash_haraka m 32 s))"
    using f \<open>I s\<close> by (auto simp: hash_haraka_def ensure_haraka_initialized_def op_defs)
qed

lemma gives_lms_hash:
  fixes I :: "'w lms_lib \<Rightarrow> bool"
  assumes "haraka_frame I"
  shows "gives fl I (lms_hash alg m 32) (Inr (lms_digest alg m))"
proof (cases alg)
  case LMS_HASH_SHA256
  have "(hash_sha256 m 32 :: ('w, bytes) lop) = ret (sha256_spec m)"
    by (simp add: hash_sha256_def SHA256_LEN_def sha256_oneshot op_defs)
  then show ?thesis by (simp add: LMS_HASH_SHA256 lms_hash_def lms_digest_def gives_ret)
next
  case LMS_HASH_SHAKE256
  then show ?thesis by (simp add: lms_hash_def hash_shake256_def lms_digest_def gives_ret)
next
  case LMS_HASH_HARAKA
  then show ?thesis using gives_hash_haraka [OF assms] by (simp add: lms_hash_def)
qed

text \<open>
  C36. \<open>lms_hash\<close> on every algorithm and output length, from any state in which the Haraka
  table is unused or right (in particular before and after its lazy initialisation): SHA-256
  truncates the FIPS 180-4 digest and refuses more than 32 bytes, SHAKE256 squeezes any
  length, Haraka refuses anything but 32 bytes; the state stays good, so a second call on the
  same input returns the same digest.
\<close>

theorem lms_hash_contract:
  assumes "haraka_ok s"
  shows "fst (lms_hash alg m len s) =
      (case alg of
         LMS_HASH_SHA256 \<Rightarrow> if len > 32 then Inl LMS_ERR_INVALID else Inr (take len (sha256_spec m))
       | LMS_HASH_SHAKE256 \<Rightarrow> Inr (shake256 len m)
       | LMS_HASH_HARAKA \<Rightarrow> if len \<noteq> 32 then Inl LMS_ERR_INVALID
           else Inr (haraka_S (tweak_constants (replicate 32 0)) 32 m))
    \<and> haraka_ok (snd (lms_hash alg m len s))
    \<and> fst (lms_hash alg m len (snd (lms_hash alg m len s))) = fst (lms_hash alg m len s)"
  using assms
  by (cases alg) (auto simp: lms_hash_def hash_sha256_def hash_shake256_def hash_haraka_def
      SHA256_LEN_def sha256_oneshot ensure_haraka_initialized_def haraka_ok_def op_defs)

definition hash_test_lib :: "unit lms_lib" where
  "hash_test_lib = \<lparr>s_lms_cache = None, s_lmots_cache = None, haraka_initialized = False,
     tweaked512_rc64 = [], malloc_limit = 0, stack_tail = [0, 0],
     chain_stats = \<lparr>st_calls = 0, st_steps = 0\<rparr>,
     keygen_chain_backend = None, verify_chain_backend = None, sign_chain_backend = None,
     keygen_derive_backend = None, keygen_backend = None, sign_backend = None,
     verify_backend = None, verify_leaf_backend = None, sign_derive_backend = None,
     sign_randomizer_backend = None, intr_backend = None, message_hash_backend = None,
     coef_backend = None, auth_path_backend = None, verify_authpath_backend = None,
     world = ()\<rparr>"

text \<open>Witness of C36: the first Haraka call of a fresh library.\<close>

theorem lms_hash_contract_witness:
  "fst (lms_hash LMS_HASH_HARAKA [1, 2, 3] 32 hash_test_lib) =
     Inr (haraka_S (tweak_constants (replicate 32 0)) 32 [1, 2, 3])
   \<and> fst (lms_hash LMS_HASH_HARAKA [1, 2, 3] 33 hash_test_lib) = Inl LMS_ERR_INVALID"
proof -
  have h: "haraka_ok hash_test_lib" by (simp add: haraka_ok_def hash_test_lib_def)
  show ?thesis
    using lms_hash_contract [OF h, of LMS_HASH_HARAKA "[1, 2, 3]" 32]
      lms_hash_contract [OF h, of LMS_HASH_HARAKA "[1, 2, 3]" 33] by simp
qed

end
