(* ===== verification/Lms_Params.thy ===== *)
theory Lms_Params
  imports Hash_Api
begin

text \<open>
  \<open>src/lms_params.c\<close>: the parameter tables with their one-entry caches, the agreement checks
  on key types, the signature length, Winternitz digits and checksum, and the hash of up to
  four concatenated parts.

  The locale \<open>library_state\<close> is what the rest of the library needs of a set \<open>I\<close> of library
  states to call these functions: caches and Haraka constants are right, \<open>malloc\<close> grants at
  least \<open>heap\<close> bytes, and the functions' own bookkeeping stays inside \<open>I\<close>.
\<close>

section \<open>Parameter tables\<close>

text \<open>The \<open>switch\<close> of \<open>lms_get_lms_param\<close>: hash function and tree height of a typecode.\<close>

definition lms_type_switch :: "u32 \<Rightarrow> (lms_hash_alg_t \<times> nat) option" where
  "lms_type_switch type =
     (if type = LMS_SHAKE256_N32_H5 then Some (LMS_HASH_SHAKE256, 5)
      else if type = LMS_SHAKE256_N32_H10 then Some (LMS_HASH_SHAKE256, 10)
      else if type = LMS_SHAKE256_N32_H15 then Some (LMS_HASH_SHAKE256, 15)
      else if type = LMS_SHAKE256_N32_H20 then Some (LMS_HASH_SHAKE256, 20)
      else if type = LMS_SHAKE256_N32_H25 then Some (LMS_HASH_SHAKE256, 25)
      else if type = LMS_SHA256_N32_H5 then Some (LMS_HASH_SHA256, 5)
      else if type = LMS_SHA256_N32_H10 then Some (LMS_HASH_SHA256, 10)
      else if type = LMS_SHA256_N32_H15 then Some (LMS_HASH_SHA256, 15)
      else if type = LMS_SHA256_N32_H20 then Some (LMS_HASH_SHA256, 20)
      else if type = LMS_SHA256_N32_H25 then Some (LMS_HASH_SHA256, 25)
      else if type = LMS_HARAKA_N32_H5 then Some (LMS_HASH_HARAKA, 5)
      else if type = LMS_HARAKA_N32_H10 then Some (LMS_HASH_HARAKA, 10)
      else if type = LMS_HARAKA_N32_H15 then Some (LMS_HASH_HARAKA, 15)
      else if type = LMS_HARAKA_N32_H20 then Some (LMS_HASH_HARAKA, 20)
      else if type = LMS_HARAKA_N32_H25 then Some (LMS_HASH_HARAKA, 25)
      else None)"

definition lms_params :: "u32 \<Rightarrow> lms_param_t option" where
  "lms_params type =
     map_option (\<lambda>(hash_alg, height).
       \<lparr>lp_type = type, lp_hash_alg = hash_alg, lp_height = height, lp_n = LMS_N\<rparr>)
       (lms_type_switch type)"

definition lms_get_lms_param :: "u32 \<Rightarrow> ('w, lms_param_t) lop" where
  "lms_get_lms_param type =
     bind (look s_lms_cache) (\<lambda>cache.
       let lookup = (case lms_params type of
             None \<Rightarrow> fail LMS_ERR_INVALID
           | Some result \<Rightarrow> andthen (modify (\<lambda>s. s\<lparr>s_lms_cache := Some (type, result)\<rparr>)) (ret result))
       in case cache of
            Some (cached_type, cached_param) \<Rightarrow>
              if cached_type = type then ret cached_param else lookup
          | None \<Rightarrow> lookup)"

text \<open>The \<open>switch\<close> of \<open>lms_get_lmots_param\<close>: hash function, \<open>w\<close>, \<open>p\<close> and \<open>ls\<close>.\<close>

definition lmots_type_switch :: "u32 \<Rightarrow> (lms_hash_alg_t \<times> nat \<times> nat \<times> nat) option" where
  "lmots_type_switch type =
     (if type = LMOTS_SHA256_N32_W1 then Some (LMS_HASH_SHA256, 1, 265, 7)
      else if type = LMOTS_SHA256_N32_W2 then Some (LMS_HASH_SHA256, 2, 133, 6)
      else if type = LMOTS_SHA256_N32_W4 then Some (LMS_HASH_SHA256, 4, 67, 4)
      else if type = LMOTS_SHA256_N32_W8 then Some (LMS_HASH_SHA256, 8, 34, 0)
      else if type = LMOTS_SHAKE256_N32_W1 then Some (LMS_HASH_SHAKE256, 1, 265, 7)
      else if type = LMOTS_SHAKE256_N32_W2 then Some (LMS_HASH_SHAKE256, 2, 133, 6)
      else if type = LMOTS_SHAKE256_N32_W4 then Some (LMS_HASH_SHAKE256, 4, 67, 4)
      else if type = LMOTS_SHAKE256_N32_W8 then Some (LMS_HASH_SHAKE256, 8, 34, 0)
      else if type = LMOTS_HARAKA_N32_W1 then Some (LMS_HASH_HARAKA, 1, 265, 7)
      else if type = LMOTS_HARAKA_N32_W2 then Some (LMS_HASH_HARAKA, 2, 133, 6)
      else if type = LMOTS_HARAKA_N32_W4 then Some (LMS_HASH_HARAKA, 4, 67, 4)
      else if type = LMOTS_HARAKA_N32_W8 then Some (LMS_HASH_HARAKA, 8, 34, 0)
      else None)"

definition lmots_params :: "u32 \<Rightarrow> lmots_param_t option" where
  "lmots_params type =
     map_option (\<lambda>(hash_alg, w, p, ls).
       \<lparr>op_type = type, op_hash_alg = hash_alg, op_n = LMS_N, op_w = w, op_p = p, op_ls = ls\<rparr>)
       (lmots_type_switch type)"

definition lms_get_lmots_param :: "u32 \<Rightarrow> ('w, lmots_param_t) lop" where
  "lms_get_lmots_param type =
     bind (look s_lmots_cache) (\<lambda>cache.
       let lookup = (case lmots_params type of
             None \<Rightarrow> fail LMS_ERR_INVALID
           | Some result \<Rightarrow> andthen (modify (\<lambda>s. s\<lparr>s_lmots_cache := Some (type, result)\<rparr>)) (ret result))
       in case cache of
            Some (cached_type, cached_param) \<Rightarrow>
              if cached_type = type then ret cached_param else lookup
          | None \<Rightarrow> lookup)"

text \<open>The pattern shared by the functions that need both tables: fetch both entries and
  refuse different hash functions.\<close>

definition lms_get_param_pair :: "u32 \<Rightarrow> u32 \<Rightarrow> ('w, lms_param_t \<times> lmots_param_t) lop" where
  "lms_get_param_pair lms_type lmots_type =
     bind (or_fail LMS_ERR_INVALID (lms_get_lms_param lms_type)) (\<lambda>lms_param.
     bind (or_fail LMS_ERR_INVALID (lms_get_lmots_param lmots_type)) (\<lambda>ots_param.
     andthen (reject_if (lp_hash_alg lms_param \<noteq> op_hash_alg ots_param) LMS_ERR_INVALID)
       (ret (lms_param, ots_param))))"

definition lms_get_private_hash_alg :: "lms_private_key_t \<Rightarrow> ('w, lms_hash_alg_t) lop" where
  "lms_get_private_hash_alg priv =
     bind (lms_get_param_pair (priv_lms_type priv) (priv_lmots_type priv))
       (\<lambda>(lms_param, ots_param). ret (lp_hash_alg lms_param))"

definition lms_get_public_hash_alg :: "lms_public_key_t \<Rightarrow> ('w, lms_hash_alg_t) lop" where
  "lms_get_public_hash_alg pub =
     bind (lms_get_param_pair (pub_lms_type pub) (pub_lmots_type pub))
       (\<lambda>(lms_param, ots_param). ret (lp_hash_alg lms_param))"

definition lms_signature_len :: "u32 \<Rightarrow> u32 \<Rightarrow> ('w, nat) lop" where
  "lms_signature_len lms_type lmots_type =
     bind (attempt (lms_get_param_pair lms_type lmots_type)) (\<lambda>r.
       case r of
         Inl _ \<Rightarrow> ret 0
       | Inr (lms_param, ots_param) \<Rightarrow>
           ret (4 + 4 + op_n ots_param + op_p ots_param * op_n ots_param + 4
                + lp_height lms_param * lp_n lms_param))"

section \<open>Winternitz digits\<close>

definition lms_lmots_coef :: "bytes \<Rightarrow> nat \<Rightarrow> nat \<Rightarrow> u32" where
  "lms_lmots_coef data i w =
     (let index = (i * w) div 8;
          digits_per_byte = 8 div w;
          shift = w * unat (NOT (word_of_nat i :: u32) AND word_of_nat (digits_per_byte - 1));
          msk = push_bit w 1 - 1
      in drop_bit shift (ucast (data ! index)) AND msk)"

definition lms_lmots_checksum :: "bytes \<Rightarrow> nat \<Rightarrow> nat \<Rightarrow> nat \<Rightarrow> u32" where
  "lms_lmots_checksum Q Q_len w ls =
     (let u = 8 * Q_len div w;
          max_digit = push_bit w 1 - 1
      in push_bit ls (fold (\<lambda>i sum. sum + (max_digit - lms_lmots_coef Q i w)) [0..<u] 0))"

section \<open>Hash of four parts\<close>

text \<open>The size of \<open>stack_buf\<close>.\<close>

definition HASH_PARTS_STACK :: nat where
  "HASH_PARTS_STACK = 4 + LMS_I_LEN + LMS_N * 2 + LMS_MAX_OTS_P * LMS_N"

definition lms_hash_parts :: "bytes \<Rightarrow> bytes \<Rightarrow> bytes \<Rightarrow> bytes \<Rightarrow> lms_hash_alg_t \<Rightarrow> ('w, bytes) lop" where
  "lms_hash_parts a b c d hash_alg =
     andthen (reject_if (length a > SIZE_MAX - length b \<or>
                         length a + length b > SIZE_MAX - length c \<or>
                         length a + length b + length c > SIZE_MAX - length d) LMS_ERR_INVALID)
       (if hash_alg = LMS_HASH_SHA256
        then let ctx = SHA256_Init sha256_ctx_uninit;
                 ctx = sha256_update_size ctx a;
                 ctx = sha256_update_size ctx b;
                 ctx = sha256_update_size ctx c;
                 ctx = sha256_update_size ctx d
             in ret (SHA256_Final ctx)
        else bind (look malloc_limit) (\<lambda>limit.
               let total_len = length a + length b + length c + length d
               in andthen (reject_if (total_len > HASH_PARTS_STACK \<and> total_len > limit) LMS_ERR_INVALID)
                    (or_fail LMS_ERR_INVALID (lms_hash hash_alg (a @ b @ c @ d) LMS_N))))"

section \<open>Digits and checksum\<close>

text \<open>The widths of the parameter sets, and the digit in arithmetic form.\<close>

definition winternitz_w :: "nat \<Rightarrow> bool" where
  "winternitz_w w \<longleftrightarrow> w = 1 \<or> w = 2 \<or> w = 4 \<or> w = 8"

definition lmots_digit :: "bytes \<Rightarrow> nat \<Rightarrow> nat \<Rightarrow> nat" where
  "lmots_digit data i w = unat (data ! (i * w div 8)) div 2 ^ (8 - w - i * w mod 8) mod 2 ^ w"

lemma unat_low_digit:
  fixes x :: u32
  assumes "w \<le> 8"
  shows "unat (x AND (push_bit w 1 - 1)) = unat x mod 2 ^ w"
proof -
  have "x AND (push_bit w 1 - 1) = take_bit w x"
    by (simp add: take_bit_eq_mask mask_eq_exp_minus_1 push_bit_of_1)
  then have "unat (x AND (push_bit w 1 - 1)) = take_bit w (unat x)"
    by (simp only: unsigned_take_bit_eq)
  then show ?thesis by (simp only: take_bit_eq_mod)
qed

lemma mod_complement:
  fixes i :: nat
  assumes "i < M * K"
  shows "(M * K - 1 - i) mod K = K - 1 - i mod K"
proof -
  have K: "0 < K" using assms by (cases K) auto
  define q r where "q = i div K" and "r = i mod K"
  have i: "i = q * K + r" and r: "r < K" by (auto simp: q_def r_def K)
  have "q < M" using assms by (simp add: q_def less_mult_imp_div_less)
  then obtain d where M: "M = q + Suc d" using less_iff_Suc_add by auto
  obtain e where e: "K = r + Suc e" using r less_iff_Suc_add by auto
  have "M * K - 1 - i = d * K + (K - 1 - r)"
    unfolding M i by (simp add: algebra_simps e)
  then show ?thesis using K by (simp add: r_def)
qed

lemma not_and_low:
  assumes "k \<le> 3" and "i < 2 ^ 32"
  shows "unat (NOT (word_of_nat i :: u32) AND word_of_nat (2 ^ k - 1)) = 2 ^ k - 1 - i mod 2 ^ k"
proof -
  have m: "(word_of_nat (2 ^ k - 1) :: u32) = mask k"
    by (simp add: mask_eq_exp_minus_1 of_nat_diff)
  have "unat (NOT (word_of_nat i :: u32) AND mask k) = unat (take_bit k (NOT (word_of_nat i :: u32)))"
    by (simp add: take_bit_eq_mask)
  also have "\<dots> = take_bit k (unat (NOT (word_of_nat i :: u32)))" by (simp add: unsigned_take_bit_eq)
  also have "unat (NOT (word_of_nat i :: u32)) = 2 ^ 32 - 1 - i"
    proof -
    have "NOT (word_of_nat i :: u32) = word_of_nat (2 ^ 32 - 1 - i)"
      using assms(2) by (simp add: of_nat_diff not_eq_complement)
    moreover have "2 ^ 32 - 1 - i < (2 ^ 32 :: nat)" by simp
    ultimately show ?thesis using unat_of_nat_u32 by metis
  qed 
  also have "take_bit k (2 ^ 32 - 1 - i) = 2 ^ k - 1 - i mod 2 ^ k"
    using mod_complement [of i "2 ^ (32 - k)" "2 ^ k"] assms
    by (simp add: take_bit_eq_mod flip: power_add)
  finally show ?thesis using m by simp
qed

lemma unat_ucast_up: "unat (ucast (b :: u8) :: u32) = unat b"
proof -
  have "unat b < 2 ^ 8" using unsigned_less [of b] by simp
  then show ?thesis by (simp add: unsigned_ucast_eq take_bit_nat_eq_self_iff)
qed

lemma unat_drop_bit: "unat (drop_bit n (x :: 'a :: len word)) = unat x div 2 ^ n"
  using unat_drop_bit_eq [of n x] by (simp only: drop_bit_eq_div [where 'a = nat])

lemma unat_shift_byte: "unat (drop_bit s (ucast (b :: u8) :: u32)) = unat b div 2 ^ s"
  by (simp only: unat_drop_bit unat_ucast_up)

lemma winternitz_shifts:
  fixes i :: nat
  shows "1 * (2 ^ 3 - 1 - i mod 2 ^ 3) = 8 - 1 - i * 1 mod 8"
    and "2 * (2 ^ 2 - 1 - i mod 2 ^ 2) = 8 - 2 - i * 2 mod 8"
    and "4 * (2 ^ 1 - 1 - i mod 2 ^ 1) = 8 - 4 - i * 4 mod 8"
    and "8 * (2 ^ 0 - 1 - i mod 2 ^ 0) = 8 - 8 - i * 8 mod 8"
  using mod_mult_mult1 [of 2 i 4] mod_mult_mult1 [of 4 i 2]
  by (simp_all add: mult.commute diff_mult_distrib2)

lemma winternitz_shift:
  assumes "winternitz_w w"
  obtains k where "k \<le> 3" "8 div w = 2 ^ k" "w \<le> 8" "w * (2 ^ k - 1 - i mod 2 ^ k) = 8 - w - i * w mod 8"
proof -
  from assms consider "w = 1" | "w = 2" | "w = 4" | "w = 8" by (auto simp: winternitz_w_def)
  then show thesis
  proof cases
    case 1 then show thesis using that [of 3] winternitz_shifts(1) by simp
  next
    case 2 then show thesis using that [of 2] winternitz_shifts(2) by simp
  next
    case 3 then show thesis using that [of 1] winternitz_shifts(3) by simp
  next
    case 4 then show thesis using that [of 0] winternitz_shifts(4) by simp
  qed
qed

lemma unat_lms_lmots_coef:
  assumes "winternitz_w w" and "i < 2 ^ 16"
  shows "unat (lms_lmots_coef data i w) = lmots_digit data i w"
proof -
  obtain k where k: "k \<le> 3" "8 div w = 2 ^ k" "w \<le> 8"
    "w * (2 ^ k - 1 - i mod 2 ^ k) = 8 - w - i * w mod 8"
    by (rule winternitz_shift [OF assms(1)])
  have i: "i < 2 ^ 32" using assms(2) by simp
  have "unat (lms_lmots_coef data i w) =
      unat (drop_bit (8 - w - i * w mod 8) (ucast (data ! (i * w div 8)) :: u32)) mod 2 ^ w"
    unfolding lms_lmots_coef_def Let_def k(2) not_and_low [OF k(1) i] k(4)
    by (rule unat_low_digit [OF k(3)])
  then show ?thesis
    by (simp only: lmots_digit_def unat_shift_byte)
qed


lemma lmots_digit_less: "lmots_digit data i w < 2 ^ w"
  by (simp add: lmots_digit_def)

text \<open>A number below \<open>2 ^ (w * m)\<close> is determined by its \<open>m\<close> base-\<open>2 ^ w\<close> digits, and
  digit-wise order gives numeric order.\<close>

lemma digit_of_mod:
  fixes c :: nat
  assumes "a + w \<le> b"
  shows "c mod 2 ^ b div 2 ^ a mod 2 ^ w = c div 2 ^ a mod 2 ^ w"
proof -
  have "w \<le> b - a" using assms by simp
  then show ?thesis
    by (simp add: take_bit_eq_mod [symmetric] drop_bit_eq_div [symmetric] drop_bit_take_bit
        take_bit_take_bit min_def)
qed

lemma digits_value:
  fixes c :: nat
  assumes "c < 2 ^ (w * m)"
  shows "c = (\<Sum>j<m. (c div 2 ^ (w * j) mod 2 ^ w) * 2 ^ (w * j))"
  using assms
proof (induction m arbitrary: c)
  case 0
  then show ?case by simp
next
  case (Suc m)
  define t where "t = c mod 2 ^ (w * m)"
  have lt: "t < 2 ^ (w * m)" by (simp add: t_def)
  have low: "t div 2 ^ (w * j) mod 2 ^ w = c div 2 ^ (w * j) mod 2 ^ w" if "j < m" for j
  proof -
    have "w * Suc j \<le> w * m" using that by (intro mult_le_mono2) simp
    then show ?thesis unfolding t_def by (intro digit_of_mod) simp
  qed
  have "c = t + (c div 2 ^ (w * m)) * 2 ^ (w * m)" unfolding t_def by (rule mod_div_mult_eq [symmetric])
  moreover have "c div 2 ^ (w * m) mod 2 ^ w = c div 2 ^ (w * m)"
    using Suc.prems by (simp add: less_mult_imp_div_less power_add)
  moreover have "t = (\<Sum>j<m. (c div 2 ^ (w * j) mod 2 ^ w) * 2 ^ (w * j))"
    using Suc.IH [OF lt] low by (simp cong: sum.cong_simp)
  ultimately show ?case by simp
qed

lemma digits_mono:
  fixes c d :: nat
  assumes "c < 2 ^ (w * m)" and "d < 2 ^ (w * m)"
    and "\<And>j. j < m \<Longrightarrow> c div 2 ^ (w * j) mod 2 ^ w \<le> d div 2 ^ (w * j) mod 2 ^ w"
  shows "c \<le> d"
  by (subst digits_value [OF assms(1)], subst digits_value [OF assms(2)])
    (rule sum_mono, simp add: assms(3))

definition winternitz_sum :: "bytes \<Rightarrow> nat \<Rightarrow> nat" where
  "winternitz_sum Q w = (\<Sum>i<256 div w. 2 ^ w - 1 - lmots_digit Q i w)"

lemma if_SomeD: "(if b then Some x else r) = Some y \<Longrightarrow> x = y \<or> r = Some y"
  by (simp split: if_splits)

lemma lms_switch_cases: "lms_type_switch t = Some (a, h) \<Longrightarrow> h \<in> {5, 10, 15, 20, 25}"
  unfolding lms_type_switch_def by (auto dest!: if_SomeD)

lemma lms_param_cases:
  assumes "lms_params t = Some p"
  shows "lp_n p = 32" and "lp_type p = t" and "lp_height p \<in> {5, 10, 15, 20, 25}"
proof -
  from assms obtain a h where "lms_type_switch t = Some (a, h)"
    and "p = \<lparr>lp_type = t, lp_hash_alg = a, lp_height = h, lp_n = LMS_N\<rparr>"
    by (auto simp: lms_params_def)
  then show "lp_n p = 32" and "lp_type p = t" and "lp_height p \<in> {5, 10, 15, 20, 25}"
    using lms_switch_cases [of t a h] by (simp_all add: LMS_N_def)
qed

lemma lmots_switch_cases:
  "lmots_type_switch t = Some (a, w, p, ls) \<Longrightarrow>
     (w, p, ls) \<in> {(1, 265, 7), (2, 133, 6), (4, 67, 4), (8, 34, 0)}"
  unfolding lmots_type_switch_def by (auto dest!: if_SomeD)

lemma lmots_param_cases:
  assumes "lmots_params t = Some p"
  shows "op_n p = 32" and "op_type p = t"
    and "(op_w p, op_p p, op_ls p) \<in> {(1, 265, 7), (2, 133, 6), (4, 67, 4), (8, 34, 0)}"
proof -
  from assms obtain a w v ls where "lmots_type_switch t = Some (a, w, v, ls)"
    and "p = \<lparr>op_type = t, op_hash_alg = a, op_n = LMS_N, op_w = w, op_p = v, op_ls = ls\<rparr>"
    by (auto simp: lmots_params_def)
  then show "op_n p = 32" and "op_type p = t"
    and "(op_w p, op_p p, op_ls p) \<in> {(1, 265, 7), (2, 133, 6), (4, 67, 4), (8, 34, 0)}"
    using lmots_switch_cases [of t a w v ls] by (simp_all add: LMS_N_def)
qed

lemma lmots_params_w: "lmots_params t = Some p \<Longrightarrow> winternitz_w (op_w p)"
  using lmots_param_cases(3) by (auto simp: winternitz_w_def)

lemma winternitz_sum_le: "winternitz_sum Q w \<le> 256 div w * (2 ^ w - 1)"
proof -
  have "winternitz_sum Q w \<le> (\<Sum>i<256 div w. 2 ^ w - 1)"
    unfolding winternitz_sum_def by (rule sum_mono) simp
  then show ?thesis by simp
qed

lemma fold_add_of_nat:
  "fold (\<lambda>i s. s + word_of_nat (f i)) xs (word_of_nat a) = (word_of_nat (a + sum_list (map f xs)) :: u32)"
  by (induction xs arbitrary: a) (simp_all add: algebra_simps flip: of_nat_add)

lemma checksum_value:
  assumes "winternitz_w w"
  shows "lms_lmots_checksum Q 32 w ls = word_of_nat (2 ^ ls * winternitz_sum Q w)"
proof -
  have w: "w \<le> 8" "256 div w \<le> 256" using assms by (auto simp: winternitz_w_def)
  have d: "(push_bit w 1 - 1) - lms_lmots_coef Q i w = word_of_nat (2 ^ w - 1 - lmots_digit Q i w)"
    if "i < 256 div w" for i
  proof -
    have "i < 256" using that w(2) by (rule less_le_trans)
    then have "i < 2 ^ 16" by simp
    then have "lms_lmots_coef Q i w = word_of_nat (lmots_digit Q i w)"
      using unat_lms_lmots_coef [OF assms, of i Q, symmetric] by simp
    moreover have "Suc (lmots_digit Q i w) \<le> 2 ^ w" using lmots_digit_less [of Q i w] by simp
    ultimately show ?thesis by (simp add: of_nat_diff push_bit_of_1 algebra_simps)
  qed
  have "fold (\<lambda>i sum. sum + ((push_bit w 1 - 1) - lms_lmots_coef Q i w)) [0..<256 div w] 0 =
      fold (\<lambda>i sum. sum + word_of_nat (2 ^ w - 1 - lmots_digit Q i w)) [0..<256 div w] (word_of_nat 0)"
    by (rule fold_cong) (simp_all only: set_upt atLeastLessThan_iff d, simp)
  also have "\<dots> = word_of_nat (winternitz_sum Q w)"
    unfolding fold_add_of_nat
    by (simp add: winternitz_sum_def interv_sum_list_conv_sum_set_nat atLeast0LessThan)
  finally show ?thesis
    by (simp add: lms_lmots_checksum_def Let_def push_bit_eq_mult algebra_simps)
qed

text \<open>\<open>Q\<close> with its checksum, the byte string whose digits drive the chains.\<close>

definition with_checksum :: "bytes \<Rightarrow> lmots_param_t \<Rightarrow> bytes" where
  "with_checksum Q param =
     Q @ lms_store_u16 (ucast (lms_lmots_checksum Q (op_n param) (op_w param) (op_ls param)))"

lemma lmots_digit_append:
  "winternitz_w w \<Longrightarrow> length Q = 32 \<Longrightarrow> i < 256 div w \<Longrightarrow> lmots_digit (Q @ ck) i w = lmots_digit Q i w"
  by (auto simp: lmots_digit_def nth_append winternitz_w_def)

lemma bytes_from_digits:
  assumes w: "winternitz_w w" and len: "length Q = 32" "length Q' = 32"
    and eq: "\<And>i. i < 256 div w \<Longrightarrow> lmots_digit Q i w = lmots_digit Q' i w"
  shows "Q = Q'"
proof (rule nth_equalityI)
  show "length Q = length Q'" using len by simp
  fix n assume n: "n < length Q"
  define m where "m = 8 div w"
  have m: "w * m = 8" "256 div w = 32 * m" using w by (auto simp: m_def winternitz_w_def)
  have dig: "unat (Q ! n) div 2 ^ (w * j) mod 2 ^ w = unat (Q' ! n) div 2 ^ (w * j) mod 2 ^ w"
    if j: "j < m" for j
  proof -
    define i where "i = n * m + (m - 1 - j)"
    have iw: "i * w = n * 8 + (8 - w - w * j)"
    proof -
      have "i * w = n * (w * m) + (w * m - w - w * j)" by (simp add: i_def algebra_simps diff_mult_distrib2)
      then show ?thesis by (simp add: m)
    qed
    have lt: "8 - w - w * j < 8" using w by (auto simp: winternitz_w_def)
    have "w * Suc j \<le> w * m" using j by (intro mult_le_mono2) simp
    then have "w + w * j \<le> 8" using m by simp
    then have e: "8 - w - (8 - w - w * j) = w * j" by simp
    have "i * w div 8 = n" "i * w mod 8 = 8 - w - w * j"
      using lt unfolding iw by (simp_all only: div_mult_self3 mod_mult_self3) simp_all
    then have "i * w div 8 = n" "8 - w - i * w mod 8 = w * j" using e by simp_all
    moreover have "i < 256 div w"
    proof -
      have "i < n * m + m" using j by (simp add: i_def)
      also have "\<dots> \<le> 32 * m" using n len mult_le_mono1 [of "Suc n" 32 m] by simp
      finally show ?thesis by (simp add: m)
    qed
    ultimately show ?thesis using eq [of i] by (simp add: lmots_digit_def)
  qed
  have "unat b < 2 ^ (w * m)" for b :: u8 using unsigned_less [of b] by (simp add: m)
  then have "unat (Q ! n) = unat (Q' ! n)"
    using digits_mono [of "unat (Q ! n)" w m "unat (Q' ! n)"]
      digits_mono [of "unat (Q' ! n)" w m "unat (Q ! n)"] dig by (simp add: antisym)
  then show "Q ! n = Q' ! n" by (rule unsigned_word_eqI)
qed

lemma checksum_bound:
  assumes "lmots_params t = Some p"
  shows "2 ^ op_ls p * winternitz_sum Q (op_w p) < 2 ^ 16"
  using winternitz_sum_le [of Q "op_w p"] lmots_param_cases(3) [OF assms] by auto

text \<open>The two checksum bytes as a sixteen-bit number.\<close>

lemma unat_store_u16:
  "unat (lms_store_u16 c ! 0) = unat c div 256" "unat (lms_store_u16 c ! Suc 0) = unat c mod 256"
proof -
  have c: "unat c < 2 ^ 16" using unsigned_less [of c] by simp
  have "unat (drop_bit 8 c) = unat c div 2 ^ 8" by (rule unat_drop_bit)
  then show "unat (lms_store_u16 c ! 0) = unat c div 256"
    using c by (simp add: lms_store_u16_def unsigned_ucast_eq take_bit_eq_mod)
  show "unat (lms_store_u16 c ! Suc 0) = unat c mod 256"
    by (simp add: lms_store_u16_def unsigned_ucast_eq take_bit_eq_mod)
qed

lemma winternitz_room:
  assumes "winternitz_w w"
  shows "w * j mod 8 \<le> 8 - w" "w \<le> 8"
proof -
  define m where "m = 8 div w"
  have m: "w * m = 8" "w \<le> 8" "0 < m" using assms by (auto simp: m_def winternitz_w_def)
  have "w * j mod 8 = w * (j mod m)" using mod_mult_mult1 [of w j m] by (simp add: m)
  also have "\<dots> \<le> w * (m - 1)" using m(3) by (intro mult_le_mono2) (simp add: Suc_leI less_Suc_eq_le [symmetric])
  finally show "w * j mod 8 \<le> 8 - w" using m by (simp add: diff_mult_distrib2)
  show "w \<le> 8" by (rule m(2))
qed

lemma checksum_digit:
  assumes w: "winternitz_w w" and len: "length Q = 32" and j: "w * j < 16"
  shows "lmots_digit (Q @ lms_store_u16 c) (256 div w + j) w = unat c div 2 ^ (16 - w - w * j) mod 2 ^ w"
proof -
  have c: "unat c < 2 ^ 16" using unsigned_less [of c] by simp
  have uw: "(256 div w + j) * w = 256 + w * j" using w by (auto simp: winternitz_w_def)
  have wj: "w * j mod 8 \<le> 8 - w" "w \<le> 8" using winternitz_room [OF w] by simp_all
  have at: "(256 + w * j) div 8 = 32 + w * j div 8" "(256 + w * j) mod 8 = w * j mod 8"
    using div_mult_self3 [of 8 32 "w * j"] mod_mult_self3 [of 32 8 "w * j"] by simp_all
  show ?thesis
  proof (cases "w * j < 8")
    case True
    then have "w * j \<le> 8 - w" using wj by simp
    then have "16 - w - w * j = 8 + (8 - w - w * j)" using wj(2) by simp
    then have "unat c div 2 ^ (16 - w - w * j) = unat c div 256 div 2 ^ (8 - w - w * j)"
      by (simp only: power_add div_mult2_eq) simp
    then show ?thesis
      using True len by (simp add: lmots_digit_def uw at nth_append unat_store_u16)
  next
    case False
    define r where "r = w * j - 8"
    have r: "w * j = 8 + r" "r < 8" using False j by (auto simp: r_def)
    then have "r \<le> 8 - w" using wj(1) by simp
    then have "unat c mod 2 ^ 8 div 2 ^ (8 - w - r) mod 2 ^ w = unat c div 2 ^ (8 - w - r) mod 2 ^ w"
      using wj(2) by (intro digit_of_mod) simp
    moreover have "(264 + r) div 8 = 33" "(264 + r) mod 8 = r" using r(2) by presburger+
    ultimately show ?thesis
      using len r by (simp add: lmots_digit_def uw nth_append unat_store_u16)
  qed
qed

lemma winternitz_sum_mono:
  assumes "\<And>i. i < 256 div w \<Longrightarrow> lmots_digit Q i w \<le> lmots_digit Q' i w"
  shows "winternitz_sum Q' w \<le> winternitz_sum Q w"
  unfolding winternitz_sum_def by (rule sum_mono) (use assms in \<open>simp add: diff_le_mono2\<close>)

lemma winternitz_sum_strict:
  assumes w: "winternitz_w w" and len: "length Q = 32" "length Q' = 32" and ne: "Q \<noteq> Q'"
    and le: "\<And>i. i < 256 div w \<Longrightarrow> lmots_digit Q i w \<le> lmots_digit Q' i w"
  shows "winternitz_sum Q' w < winternitz_sum Q w"
proof -
  obtain i where i: "i < 256 div w" "lmots_digit Q i w \<noteq> lmots_digit Q' i w"
    using bytes_from_digits [OF w len] ne by blast
  then have "lmots_digit Q i w < lmots_digit Q' i w" using le by (simp add: le_neq_implies_less)
  moreover have "lmots_digit Q' i w < 2 ^ w" by (rule lmots_digit_less)
  ultimately have "2 ^ w - 1 - lmots_digit Q' i w < 2 ^ w - 1 - lmots_digit Q i w" by simp
  then show ?thesis
    unfolding winternitz_sum_def using i(1) le
    by (intro sum_strict_mono_ex1) (auto simp: diff_le_mono2)
qed

lemma ucast_of_nat_u16: "(ucast (word_of_nat n :: u32) :: u16) = word_of_nat n"
  by (rule bit_word_eqI) (simp add: bit_simps)

lemma checksum_cover:
  assumes t: "lmots_params t = Some p" and len: "length Q = 32" "length Q' = 32"
    and le: "\<And>i. i < op_p p \<Longrightarrow>
      lmots_digit (with_checksum Q p) i (op_w p) \<le> lmots_digit (with_checksum Q' p) i (op_w p)"
  shows "winternitz_sum Q (op_w p) \<le> winternitz_sum Q' (op_w p)"
proof -
  define w ls m where "w = op_w p" and "ls = op_ls p" and "m = op_p p - 256 div op_w p"
  define c where "c R = 2 ^ ls * winternitz_sum R w" for R
  have w: "winternitz_w w" unfolding w_def by (rule lmots_params_w [OF t])
  have m: "op_p p = 256 div w + m" "w * m + ls = 16" and w0: "0 < w"
    using lmots_param_cases(3) [OF t] by (auto simp: w_def m_def ls_def)
  have c: "c R < 2 ^ 16" for R using checksum_bound [OF t] by (simp add: c_def w_def ls_def)
  have ck: "with_checksum R p = R @ lms_store_u16 (word_of_nat (c R))" for R
    using checksum_value [OF w, of R ls] lmots_param_cases(1) [OF t]
    by (simp only: with_checksum_def c_def w_def ls_def ucast_of_nat_u16)
  have dig: "lmots_digit (with_checksum R p) (256 div w + j) w
      = winternitz_sum R w div 2 ^ (w * (m - 1 - j)) mod 2 ^ w"
    if "length R = 32" "j < m" for R j
  proof -
    have jm: "w * Suc j \<le> w * m" using that by (intro mult_le_mono2) simp
    then have "w * j < 16" and e: "16 - w - w * j = ls + w * (m - 1 - j)"
      using m(2) w0 by (simp_all add: diff_mult_distrib2 algebra_simps)
    then have "lmots_digit (with_checksum R p) (256 div w + j) w = c R div 2 ^ (ls + w * (m - 1 - j)) mod 2 ^ w"
      using checksum_digit [OF w that(1), of j "word_of_nat (c R)"]
      by (simp only: ck unat_of_nat_u16 [OF c])
    then show ?thesis by (simp add: c_def power_add div_mult2_eq)
  qed
  have bound: "winternitz_sum R w < 2 ^ (w * m)" for R
  proof -
    have "(2 :: nat) ^ 16 = 2 ^ ls * 2 ^ (w * m)" by (metis m(2) power_add mult.commute)
    with c [of R] have "2 ^ ls * winternitz_sum R w < 2 ^ ls * 2 ^ (w * m)"
      by (simp only: c_def)
    then show ?thesis by simp
  qed
  show ?thesis unfolding w_def [symmetric]
  proof (rule digits_mono [OF bound bound])
    fix j assume j: "j < m"
    define k where "k = m - 1 - j"
    have k: "k < m" "m - 1 - k = j" "256 div w + k < op_p p" using j m(1) by (simp_all add: k_def)
    show "winternitz_sum Q w div 2 ^ (w * j) mod 2 ^ w \<le> winternitz_sum Q' w div 2 ^ (w * j) mod 2 ^ w"
      using le [OF k(3)] dig [OF len(1) k(1)] dig [OF len(2) k(1)] by (simp only: w_def [symmetric] k(2))
  qed
qed

text \<open>
  C11. The Winternitz checksum does its job: for two different 32-byte message digests, with
  their checksums appended as \<open>lmots_sign\<close> does it, neither digit string dominates the other.
  So a signature on \<open>Q\<close> never reveals chain values from which a signature on \<open>Q'\<close> could be
  finished by hashing forward only: some digit of \<open>Q'\<close> is strictly smaller. All twelve
  parameter sets; in particular the shifted checksum never overflows its sixteen bits.
\<close>

theorem winternitz_no_domination:
  assumes "lmots_params t = Some p" and "length Q = 32" and "length Q' = 32" and "Q \<noteq> Q'"
  shows "\<exists>i < op_p p. lms_lmots_coef (with_checksum Q' p) i (op_w p)
                      < lms_lmots_coef (with_checksum Q p) i (op_w p)"
proof (rule ccontr)
  assume "\<not> ?thesis"
  then have le: "lms_lmots_coef (with_checksum Q p) i (op_w p) \<le> lms_lmots_coef (with_checksum Q' p) i (op_w p)"
    if "i < op_p p" for i using that not_less by blast
  have w: "winternitz_w (op_w p)" and p: "256 div op_w p \<le> op_p p" "op_p p < 2 ^ 16"
    using lmots_params_w [OF assms(1)] lmots_param_cases(3) [OF assms(1)] by auto
  have dig: "lmots_digit (with_checksum Q p) i (op_w p) \<le> lmots_digit (with_checksum Q' p) i (op_w p)"
    if "i < op_p p" for i
    using le [OF that] unat_lms_lmots_coef [OF w, of i] that p(2)
    by (simp add: word_le_nat_alt)
  have "lmots_digit Q i (op_w p) \<le> lmots_digit Q' i (op_w p)" if "i < 256 div op_w p" for i
    using dig [of i] that p(1) assms(2,3) by (simp add: with_checksum_def lmots_digit_append [OF w])
  then have "winternitz_sum Q' (op_w p) < winternitz_sum Q (op_w p)"
    using assms by (intro winternitz_sum_strict [OF w])
  moreover have "winternitz_sum Q (op_w p) \<le> winternitz_sum Q' (op_w p)"
    using dig by (rule checksum_cover [OF assms(1-3)])
  ultimately show False by simp
qed

text \<open>Witness of C11: two digests that differ in their last bit, with \<open>w = 8\<close>.\<close>

theorem winternitz_no_domination_witness:
  "\<exists>p. lmots_params LMOTS_SHA256_N32_W8 = Some p \<and>
     (\<exists>i < op_p p. lms_lmots_coef (with_checksum (replicate 32 0) p) i (op_w p)
                   < lms_lmots_coef (with_checksum (replicate 31 0 @ [1]) p) i (op_w p))"
proof -
  obtain p where p: "lmots_params LMOTS_SHA256_N32_W8 = Some p"
    by (simp add: lmots_params_def lmots_type_switch_def)
  have ne: "replicate 31 0 @ [1] \<noteq> (replicate 32 0 :: bytes)" by (simp add: numeral_eq_Suc)
  show ?thesis
    using winternitz_no_domination [OF p _ _ ne] p by auto
qed


section \<open>The static state behind the calls\<close>

definition statics_ok :: "'w lms_lib \<Rightarrow> bool" where
  "statics_ok s \<longleftrightarrow> haraka_ok s
     \<and> (\<forall>t p. s_lms_cache s = Some (t, p) \<longrightarrow> lms_params t = Some p)
     \<and> (\<forall>t p. s_lmots_cache s = Some (t, p) \<longrightarrow> lmots_params t = Some p)"

text \<open>\<open>set_statics\<close> replaces everything the library itself writes between two calls.\<close>

definition set_statics :: "(u32 \<times> lms_param_t) option \<Rightarrow> (u32 \<times> lmots_param_t) option \<Rightarrow> bool \<Rightarrow>
    u64 list list \<Rightarrow> lmots_chain_stats_t \<Rightarrow> 'w lms_lib \<Rightarrow> 'w lms_lib" where
  "set_statics a b c d e s = s\<lparr>s_lms_cache := a, s_lmots_cache := b, haraka_initialized := c,
     tweaked512_rc64 := d, chain_stats := e\<rparr>"

text \<open>Both table entries of a key with agreeing hash functions.\<close>

definition param_pair :: "u32 \<Rightarrow> u32 \<Rightarrow> (lms_param_t \<times> lmots_param_t) option" where
  "param_pair lms_type lmots_type =
     (case (lms_params lms_type, lmots_params lmots_type) of
        (Some a, Some b) \<Rightarrow> if lp_hash_alg a = op_hash_alg b then Some (a, b) else None
      | _ \<Rightarrow> None)"

lemma param_pairD:
  assumes "param_pair t u = Some (a, b)"
  shows "lms_params t = Some a" and "lmots_params u = Some b" and "lp_hash_alg a = op_hash_alg b"
  using assms by (auto simp: param_pair_def split: option.splits if_splits)

text \<open>The inputs \<open>lms_hash_parts\<close> accepts for certain when \<open>malloc\<close> grants \<open>heap\<close> bytes.\<close>

definition hash_fits :: "nat \<Rightarrow> lms_hash_alg_t \<Rightarrow> nat \<Rightarrow> bool" where
  "hash_fits heap alg n \<longleftrightarrow>
     n \<le> SIZE_MAX \<and> (alg = LMS_HASH_SHA256 \<or> n \<le> max HASH_PARTS_STACK heap)"

lemma hash_fits_small: "n \<le> 8564 \<Longrightarrow> hash_fits heap alg n"
  by (auto simp: hash_fits_def HASH_PARTS_STACK_def lms_lens SIZE_MAX_def)

lemma hash_parts_sha256:
  assumes "length a + length b + length c + length d \<le> SIZE_MAX"
  shows "lms_hash_parts a b c d LMS_HASH_SHA256 = ret (sha256_spec (a @ b @ c @ d))"
proof -
  have "SHA256_Final (sha256_update_size (sha256_update_size (sha256_update_size
      (sha256_update_size (SHA256_Init sha256_ctx_uninit) a) b) c) d) = sha256_spec (a @ b @ c @ d)"
    using sha256_final_spec [OF sha_absorbed_update_size [OF sha_absorbed_update_size
        [OF sha_absorbed_update_size [OF sha_absorbed_update_size [OF sha_absorbed_uninit]]]]] by simp
  moreover have "\<not> (length a > SIZE_MAX - length b \<or> length a + length b > SIZE_MAX - length c \<or>
      length a + length b + length c > SIZE_MAX - length d)" using assms by linarith
  ultimately show ?thesis by (simp only: lms_hash_parts_def Let_def) (simp add: op_defs)
qed

locale library_state =
  fixes I :: "'w lms_lib \<Rightarrow> bool" and heap :: nat
  assumes statics: "I s \<Longrightarrow> statics_ok s"
    and heap_granted: "I s \<Longrightarrow> heap \<le> malloc_limit s"
    and own_writes: "I s \<Longrightarrow> statics_ok (set_statics a b c d e s) \<Longrightarrow> I (set_statics a b c d e s)"
begin

lemma haraka_frame_I: "haraka_frame I"
  unfolding haraka_frame_def
proof (intro allI impI conjI)
  fix s assume s: "I s"
  show "haraka_ok s" using statics [OF s] by (simp add: statics_ok_def)
  have "I (set_statics (s_lms_cache s) (s_lmots_cache s) True (tweak_constants (replicate 32 0)) (chain_stats s) s)"
    using statics [OF s] by (intro own_writes [OF s]) (simp add: statics_ok_def haraka_ok_def set_statics_def)
  then show "I (s\<lparr>tweaked512_rc64 := tweak_constants (replicate 32 0), haraka_initialized := True\<rparr>)"
    by (cases s) (simp add: set_statics_def)
qed

lemma gives_hash: "gives fl I (lms_hash alg m 32) (Inr (lms_digest alg m))"
  by (rule gives_lms_hash [OF haraka_frame_I])

lemma I_lms_cache:
  assumes "I s" and "lms_params t = Some p"
  shows "I (s\<lparr>s_lms_cache := Some (t, p)\<rparr>)"
  using statics [OF assms(1)] assms(2)
    own_writes [OF assms(1), of "Some (t, p)" "s_lmots_cache s" "haraka_initialized s" "tweaked512_rc64 s" "chain_stats s"]
  by (simp add: set_statics_def statics_ok_def haraka_ok_def)

lemma I_lmots_cache:
  assumes "I s" and "lmots_params t = Some p"
  shows "I (s\<lparr>s_lmots_cache := Some (t, p)\<rparr>)"
  using statics [OF assms(1)] assms(2)
    own_writes [OF assms(1), of "s_lms_cache s" "Some (t, p)" "haraka_initialized s" "tweaked512_rc64 s" "chain_stats s"]
  by (simp add: set_statics_def statics_ok_def haraka_ok_def)

lemma I_chain_stats:
  assumes "I s"
  shows "I (s\<lparr>chain_stats := e\<rparr>)"
  using statics [OF assms]
    own_writes [OF assms, of "s_lms_cache s" "s_lmots_cache s" "haraka_initialized s" "tweaked512_rc64 s" e]
  by (simp add: set_statics_def statics_ok_def haraka_ok_def)

lemma gives_get_lms_param:
  "gives fl I (lms_get_lms_param t)
     (case lms_params t of None \<Rightarrow> Inl LMS_ERR_INVALID | Some p \<Rightarrow> Inr p)"
proof (rule givesI)
  fix s assume s: "I s"
  have c: "\<And>t' p. s_lms_cache s = Some (t', p) \<Longrightarrow> lms_params t' = Some p"
    using statics [OF s] by (simp add: statics_ok_def)
  show "fst (lms_get_lms_param t s) = (case lms_params t of None \<Rightarrow> Inl LMS_ERR_INVALID | Some p \<Rightarrow> Inr p)
      \<or> fl \<and> isl (fst (lms_get_lms_param t s))"
    using c by (auto simp: lms_get_lms_param_def Let_def op_defs split: option.split)
  show "I (snd (lms_get_lms_param t s))"
    using s I_lms_cache [OF s] by (auto simp: lms_get_lms_param_def Let_def op_defs split: option.split)
qed

lemma gives_get_lmots_param:
  "gives fl I (lms_get_lmots_param t)
     (case lmots_params t of None \<Rightarrow> Inl LMS_ERR_INVALID | Some p \<Rightarrow> Inr p)"
proof (rule givesI)
  fix s assume s: "I s"
  have c: "\<And>t' p. s_lmots_cache s = Some (t', p) \<Longrightarrow> lmots_params t' = Some p"
    using statics [OF s] by (simp add: statics_ok_def)
  show "fst (lms_get_lmots_param t s) = (case lmots_params t of None \<Rightarrow> Inl LMS_ERR_INVALID | Some p \<Rightarrow> Inr p)
      \<or> fl \<and> isl (fst (lms_get_lmots_param t s))"
    using c by (auto simp: lms_get_lmots_param_def Let_def op_defs split: option.split)
  show "I (snd (lms_get_lmots_param t s))"
    using s I_lmots_cache [OF s] by (auto simp: lms_get_lmots_param_def Let_def op_defs split: option.split)
qed

lemma gives_lms_param_ok [gives_intros]:
  "lms_params t = Some p \<Longrightarrow> gives fl I (lms_get_lms_param t) (Inr p)"
  using gives_get_lms_param [of fl t] by simp

lemma gives_lmots_param_ok [gives_intros]:
  "lmots_params t = Some p \<Longrightarrow> gives fl I (lms_get_lmots_param t) (Inr p)"
  using gives_get_lmots_param [of fl t] by simp

lemma gives_param_pair:
  "gives fl I (lms_get_param_pair t u)
     (case param_pair t u of None \<Rightarrow> Inl LMS_ERR_INVALID | Some ab \<Rightarrow> Inr ab)"
proof (cases "lms_params t")
  case None
  then have "gives fl I (lms_get_lms_param t) (Inl LMS_ERR_INVALID)"
    using gives_get_lms_param [of fl t] by simp
  then show ?thesis using None
    by (simp add: lms_get_param_pair_def param_pair_def gives_bind_err gives_or_fail_err)
next
  case a: (Some a)
  show ?thesis
  proof (cases "lmots_params u")
    case None
    then have "gives fl I (lms_get_lmots_param u) (Inl LMS_ERR_INVALID)"
      using gives_get_lmots_param [of fl u] by simp
    then have "gives fl I (lms_get_param_pair t u) (Inl LMS_ERR_INVALID)" unfolding lms_get_param_pair_def
      by (intro gives_bind [OF gives_or_fail [OF gives_lms_param_ok [OF a]]] gives_bind_err gives_or_fail_err)
    then show ?thesis using a None by (simp add: param_pair_def)
  next
    case b: (Some b)
    show ?thesis unfolding lms_get_param_pair_def
      by (rule gives_bind [OF gives_or_fail [OF gives_lms_param_ok [OF a]]],
          rule gives_bind [OF gives_or_fail [OF gives_lmots_param_ok [OF b]]])
        (auto simp: param_pair_def a b intro: gives_andthen gives_andthen_err gives_reject
          gives_reject_pass gives_ret)
  qed
qed

lemma gives_param_pair_ok [gives_intros]:
  "param_pair t u = Some ab \<Longrightarrow> gives fl I (lms_get_param_pair t u) (Inr ab)"
  using gives_param_pair [of fl t u] by simp

lemma gives_private_hash_alg [gives_intros]:
  "param_pair (priv_lms_type priv) (priv_lmots_type priv) = Some (a, b) \<Longrightarrow>
     gives fl I (lms_get_private_hash_alg priv) (Inr (lp_hash_alg a))"
  unfolding lms_get_private_hash_alg_def
  by (rule gives_bind, erule gives_param_pair_ok) (simp add: gives_ret)

lemma gives_private_hash_alg_err:
  "param_pair (priv_lms_type priv) (priv_lmots_type priv) = None \<Longrightarrow>
     gives fl I (lms_get_private_hash_alg priv) (Inl LMS_ERR_INVALID)"
  unfolding lms_get_private_hash_alg_def
  using gives_param_pair [of fl "priv_lms_type priv" "priv_lmots_type priv"]
  by (intro gives_bind_err) simp

lemma gives_public_hash_alg [gives_intros]:
  "param_pair (pub_lms_type pub) (pub_lmots_type pub) = Some (a, b) \<Longrightarrow>
     gives fl I (lms_get_public_hash_alg pub) (Inr (lp_hash_alg a))"
  unfolding lms_get_public_hash_alg_def
  by (rule gives_bind, erule gives_param_pair_ok) (simp add: gives_ret)

lemma gives_attempt_pair:
  "gives False I (attempt (lms_get_param_pair t u))
     (Inr (case param_pair t u of None \<Rightarrow> Inl LMS_ERR_INVALID | Some ab \<Rightarrow> Inr ab))"
  using gives_param_pair [of False t u]
  by (fastforce simp: gives_def yields_def attempt_def split: prod.splits)

lemma gives_mono: "gives False I m r \<Longrightarrow> gives fl I m r"
  by (simp add: gives_def yields_def)

lemma gives_signature_len:
  "gives fl I (lms_signature_len t u)
     (Inr (case param_pair t u of None \<Rightarrow> 0
           | Some (a, b) \<Rightarrow> 12 + 32 + op_p b * 32 + lp_height a * 32))"
proof (cases "param_pair t u")
  case None
  have "gives fl I (attempt (lms_get_param_pair t u)) (Inr (Inl LMS_ERR_INVALID))"
    using gives_mono [OF gives_attempt_pair [of t u]] None by simp
  then show ?thesis unfolding lms_signature_len_def
    by (rule gives_bind) (simp add: None gives_ret)
next
  case (Some ab)
  obtain a b where ab: "ab = (a, b)" by force
  have n: "op_n b = 32" "lp_n a = 32"
    using param_pairD [OF Some [unfolded ab]] lms_param_cases(1) lmots_param_cases(1) by auto
  have "gives fl I (attempt (lms_get_param_pair t u)) (Inr (Inr (a, b)))"
    using gives_mono [OF gives_attempt_pair [of t u]] Some ab by simp
  then show ?thesis unfolding lms_signature_len_def
    by (rule gives_bind) (simp add: Some ab n gives_ret)
qed

lemma gives_hash_parts:
  assumes "hash_fits heap alg (length a + length b + length c + length d)"
  shows "gives fl I (lms_hash_parts a b c d alg) (Inr (lms_digest alg (a @ b @ c @ d)))"
proof (cases "alg = LMS_HASH_SHA256")
  case True
  then show ?thesis
    using assms by (simp add: hash_parts_sha256 hash_fits_def lms_digest_def gives_ret)
next
  case False
  have sz: "length a + length b + length c + length d \<le> SIZE_MAX"
    and fit: "length a + length b + length c + length d \<le> max HASH_PARTS_STACK heap"
    using assms False by (auto simp: hash_fits_def)
  have "\<not> (length a + length b + length c + length d > HASH_PARTS_STACK \<and>
      length a + length b + length c + length d > malloc_limit s)" if "I s" for s
    using fit heap_granted [OF that] by linarith
  then show ?thesis unfolding lms_hash_parts_def Let_def
    using sz False by (auto simp: LMS_N_def intro!: gives_andthen gives_reject_pass gives_bind_look
        gives_or_fail gives_hash)
qed

end

text \<open>The library without accelerators: correct static state and a heap of \<open>h\<close> bytes.\<close>

definition plain_state :: "nat \<Rightarrow> 'w lms_lib \<Rightarrow> bool" where
  "plain_state h s \<longleftrightarrow> statics_ok s \<and> h \<le> malloc_limit s"

interpretation plain: library_state "plain_state h" h for h
  by unfold_locales (auto simp: plain_state_def set_statics_def)

lemma test_lib_plain: "plain_state 0 hash_test_lib"
  by (simp add: plain_state_def statics_ok_def haraka_ok_def hash_test_lib_def)

section \<open>Properties\<close>

text \<open>
  The one-entry parameter caches are transparent: from any state with consistent caches
  a query of either table, for any 32-bit typecode, returns exactly what the \<open>switch\<close>
  prescribes (unknown typecodes are refused), and leaves consistent caches; so the outcome of
  a query never depends on the queries before it.
\<close>

theorem param_caches_transparent:
  assumes "statics_ok s"
  shows "fst (lms_get_lms_param t s) =
      (case lms_type_switch t of None \<Rightarrow> Inl LMS_ERR_INVALID
       | Some (a, h) \<Rightarrow> Inr \<lparr>lp_type = t, lp_hash_alg = a, lp_height = h, lp_n = 32\<rparr>)
    \<and> statics_ok (snd (lms_get_lms_param t s))
    \<and> fst (lms_get_lmots_param t s) =
      (case lmots_type_switch t of None \<Rightarrow> Inl LMS_ERR_INVALID
       | Some (a, w, p, ls) \<Rightarrow>
           Inr \<lparr>op_type = t, op_hash_alg = a, op_n = 32, op_w = w, op_p = p, op_ls = ls\<rparr>)
    \<and> statics_ok (snd (lms_get_lmots_param t s))"
proof -
  have s: "plain_state 0 s" using assms by (simp add: plain_state_def)
  show ?thesis
    using gives_run [OF plain.gives_get_lms_param s, of t] gives_run [OF plain.gives_get_lmots_param s, of t]
    by (auto simp: plain_state_def lms_params_def lmots_params_def LMS_N_def split: option.split)
qed

text \<open>An instance: a query that hits another entry's cache.\<close>

theorem param_caches_transparent_witness:
  "fst (lms_get_lms_param LMS_SHA256_N32_H10 (snd (lms_get_lms_param LMS_SHA256_N32_H5 hash_test_lib))) =
     Inr \<lparr>lp_type = LMS_SHA256_N32_H10, lp_hash_alg = LMS_HASH_SHA256, lp_height = 10, lp_n = 32\<rparr>"
proof -
  have "statics_ok hash_test_lib" by (simp add: statics_ok_def haraka_ok_def hash_test_lib_def)
  then have s: "statics_ok (snd (lms_get_lms_param LMS_SHA256_N32_H5 hash_test_lib))"
    using param_caches_transparent by blast
  show ?thesis using param_caches_transparent [OF s, of LMS_SHA256_N32_H10]
    by (simp add: lms_type_switch_def)
qed

text \<open>
  \<open>lms_hash_parts\<close> returns the digest of the concatenation of its four parts, whichever
  of its three paths it takes (streaming SHA-256, stack buffer, heap buffer); the only inputs
  refused (each part being an object, so no longer than \<open>SIZE_MAX\<close>) are those whose total
  length overflows \<open>size_t\<close> and, for SHAKE256 and Haraka, those
  that need a heap buffer which \<open>malloc\<close> does not grant.
\<close>

theorem lms_hash_parts_correct:
  assumes "statics_ok s" and "length a + length b + length c + length d = n"
    and "length a \<le> SIZE_MAX" and "length b \<le> SIZE_MAX" and "length c \<le> SIZE_MAX" and "length d \<le> SIZE_MAX"
  shows "fst (lms_hash_parts a b c d alg s) =
      (if n > SIZE_MAX \<or> alg \<noteq> LMS_HASH_SHA256 \<and> n > 8564 \<and> n > malloc_limit s
       then Inl LMS_ERR_INVALID else Inr (lms_digest alg (a @ b @ c @ d)))"
proof (cases "hash_fits (malloc_limit s) alg n")
  case True
  have "plain_state (malloc_limit s) s" using assms(1) by (simp add: plain_state_def)
  then have "fst (lms_hash_parts a b c d alg s) = Inr (lms_digest alg (a @ b @ c @ d))"
    using gives_run(1) [OF plain.gives_hash_parts] True assms(2) by blast
  then show ?thesis
    using True by (auto simp: hash_fits_def HASH_PARTS_STACK_def lms_lens)
next
  case False
  then consider "n > SIZE_MAX" | "n \<le> SIZE_MAX" "alg \<noteq> LMS_HASH_SHA256" "n > 8564" "n > malloc_limit s"
    by (fastforce simp: hash_fits_def HASH_PARTS_STACK_def lms_lens not_le)
  then show ?thesis
  proof cases
    case 1
    then have "length a > SIZE_MAX - length b \<or> length a + length b > SIZE_MAX - length c \<or>
        length a + length b + length c > SIZE_MAX - length d" using assms(2-) by linarith
    then show ?thesis using 1 by (simp only: lms_hash_parts_def) (simp add: op_defs)
  next
    case 2
    then have "total > HASH_PARTS_STACK \<and> total > malloc_limit s"
      if "total = length a + length b + length c + length d" for total
      using assms(2) that by (simp add: HASH_PARTS_STACK_def lms_lens)
    then show ?thesis using 2 assms(2) by (auto simp: lms_hash_parts_def Let_def op_defs)
  qed
qed

text \<open>An instance: the empty library refuses nothing that fits its stack buffer.\<close>

theorem lms_hash_parts_correct_witness:
  "fst (lms_hash_parts [1] [2] [] [3] LMS_HASH_SHAKE256 hash_test_lib) =
     Inr (lms_digest LMS_HASH_SHAKE256 [1, 2, 3])"
proof -
  have "statics_ok hash_test_lib" by (simp add: statics_ok_def haraka_ok_def hash_test_lib_def)
  then show ?thesis
    using lms_hash_parts_correct [of hash_test_lib "[1]" "[2]" "[]" "[3]" 3 LMS_HASH_SHAKE256]
    by (simp add: SIZE_MAX_def)
qed

end
