(* ===== verification/Lm_Ots.thy ===== *)
theory Lm_Ots
  imports Lms_Params
begin

text \<open>
  \<open>src/lm_ots.c\<close>: LM-OTS key generation, signing and public-key recovery, in software and
  through the registered accelerator callbacks, with the chain statistics.

  Output buffers become returned byte lists; a function that stops with an error returns the
  error and no bytes (what it had already written to the caller's buffer is not modelled).
\<close>

section \<open>Registering callbacks\<close>

text \<open>A setter stores the callback together with its context; \<open>None\<close> is \<open>NULL\<close>.\<close>

definition lms_intr_backend_set :: "'w lms_intr_backend_fn option \<Rightarrow> ('w, unit) lop" where
  "lms_intr_backend_set backend = modify (\<lambda>s. s\<lparr>intr_backend := backend\<rparr>)"

definition lms_intr_backend_available :: "('w, bool) lop" where
  "lms_intr_backend_available = look (\<lambda>s. intr_backend s \<noteq> None)"

definition lms_intr_backend_run :: "bytes \<Rightarrow> lms_hash_alg_t \<Rightarrow> u32 \<Rightarrow> bytes \<Rightarrow> bytes \<Rightarrow> ('w, bytes) lop" where
  "lms_intr_backend_run I hash_alg node_num left right =
     bind (look intr_backend) (\<lambda>b. case b of
         None \<Rightarrow> fail LMS_ERR_INVALID
       | Some f \<Rightarrow> on_world (f I hash_alg node_num left right))"

definition lmots_keygen_chain_backend_set :: "'w lmots_chain_backend_fn option \<Rightarrow> ('w, unit) lop" where
  "lmots_keygen_chain_backend_set backend = modify (\<lambda>s. s\<lparr>keygen_chain_backend := backend\<rparr>)"

definition lmots_verify_chain_backend_set :: "'w lmots_chain_backend_fn option \<Rightarrow> ('w, unit) lop" where
  "lmots_verify_chain_backend_set backend = modify (\<lambda>s. s\<lparr>verify_chain_backend := backend\<rparr>)"

definition lmots_sign_chain_backend_set :: "'w lmots_chain_backend_fn option \<Rightarrow> ('w, unit) lop" where
  "lmots_sign_chain_backend_set backend = modify (\<lambda>s. s\<lparr>sign_chain_backend := backend\<rparr>)"

definition lmots_keygen_derive_backend_set :: "'w lmots_derive_chain_backend_fn option \<Rightarrow> ('w, unit) lop" where
  "lmots_keygen_derive_backend_set backend = modify (\<lambda>s. s\<lparr>keygen_derive_backend := backend\<rparr>)"

definition lmots_keygen_backend_set :: "'w lmots_keygen_backend_fn option \<Rightarrow> ('w, unit) lop" where
  "lmots_keygen_backend_set backend = modify (\<lambda>s. s\<lparr>keygen_backend := backend\<rparr>)"

definition lmots_sign_backend_set :: "'w lmots_sign_backend_fn option \<Rightarrow> ('w, unit) lop" where
  "lmots_sign_backend_set backend = modify (\<lambda>s. s\<lparr>sign_backend := backend\<rparr>)"

definition lmots_verify_backend_set :: "'w lmots_verify_backend_fn option \<Rightarrow> ('w, unit) lop" where
  "lmots_verify_backend_set backend = modify (\<lambda>s. s\<lparr>verify_backend := backend\<rparr>)"

definition lmots_verify_leaf_backend_set :: "'w lmots_verify_leaf_backend_fn option \<Rightarrow> ('w, unit) lop" where
  "lmots_verify_leaf_backend_set backend = modify (\<lambda>s. s\<lparr>verify_leaf_backend := backend\<rparr>)"

definition lmots_sign_derive_backend_set :: "'w lmots_derive_chain_backend_fn option \<Rightarrow> ('w, unit) lop" where
  "lmots_sign_derive_backend_set backend = modify (\<lambda>s. s\<lparr>sign_derive_backend := backend\<rparr>)"

definition lmots_sign_randomizer_backend_set :: "'w lmots_randomizer_backend_fn option \<Rightarrow> ('w, unit) lop" where
  "lmots_sign_randomizer_backend_set backend = modify (\<lambda>s. s\<lparr>sign_randomizer_backend := backend\<rparr>)"

definition lmots_message_hash_backend_set :: "'w lmots_message_hash_backend_fn option \<Rightarrow> ('w, unit) lop" where
  "lmots_message_hash_backend_set backend = modify (\<lambda>s. s\<lparr>message_hash_backend := backend\<rparr>)"

definition lmots_coef_backend_set :: "'w lmots_coef_backend_fn option \<Rightarrow> ('w, unit) lop" where
  "lmots_coef_backend_set backend = modify (\<lambda>s. s\<lparr>coef_backend := backend\<rparr>)"

section \<open>Statistics\<close>

definition lmots_chain_stats_reset :: "('w, unit) lop" where
  "lmots_chain_stats_reset = modify (\<lambda>s. s\<lparr>chain_stats := \<lparr>st_calls = 0, st_steps = 0\<rparr>\<rparr>)"

definition lmots_chain_stats_get :: "('w, lmots_chain_stats_t) lop" where
  "lmots_chain_stats_get = look chain_stats"

text \<open>\<open>chain_stats.calls++\<close> and \<open>chain_stats.steps += n\<close>, on 64-bit counters.\<close>

definition count_call :: "('w, unit) lop" where
  "count_call = modify (\<lambda>s. s\<lparr>chain_stats := (chain_stats s)\<lparr>st_calls := st_calls (chain_stats s) + 1\<rparr>\<rparr>)"

definition count_steps :: "nat \<Rightarrow> ('w, unit) lop" where
  "count_steps n = modify (\<lambda>s. s\<lparr>chain_stats :=
     (chain_stats s)\<lparr>st_steps := st_steps (chain_stats s) + word_of_nat n\<rparr>\<rparr>)"

section \<open>Private values, randomizer and chains\<close>

definition lmots_private_value :: "lms_private_key_t \<Rightarrow> u32 \<Rightarrow> nat \<Rightarrow> ('w, bytes) lop" where
  "lmots_private_value priv q i =
     andthen (reject_if (i > 0xFFFF) LMS_ERR_INVALID)
       (bind (or_fail LMS_ERR_INVALID (lms_get_private_hash_alg priv)) (\<lambda>hash_alg.
          or_fail LMS_ERR_INVALID
            (lms_hash hash_alg (priv_I priv @ lms_store_u32 q @ lms_store_u16 (word_of_nat i) @
                                [0xff] @ priv_seed priv) LMS_N)))"

definition lmots_randomizer :: "lms_private_key_t \<Rightarrow> u32 \<Rightarrow> ('w, bytes) lop" where
  "lmots_randomizer priv q =
     bind (or_fail LMS_ERR_INVALID (lms_get_private_hash_alg priv)) (\<lambda>hash_alg.
     bind (look sign_randomizer_backend) (\<lambda>b. case b of
         None \<Rightarrow> or_fail LMS_ERR_INVALID
            (lms_hash hash_alg (priv_I priv @ lms_store_u32 q @ lms_store_u16 LMOTS_C_PRG_DOMAIN @
                                priv_seed priv) LMS_N)
       | Some f \<Rightarrow> on_world (f (priv_I priv) hash_alg q)))"

definition lmots_chain_compute :: "bytes \<Rightarrow> lms_hash_alg_t \<Rightarrow> u32 \<Rightarrow> nat \<Rightarrow> nat \<Rightarrow> nat \<Rightarrow> bytes \<Rightarrow> ('w, bytes) lop" where
  "lmots_chain_compute I hash_alg q i start steps value =
     andthen (reject_if (i > 0xFFFF \<or> start > 0xFF \<or> steps > 0xFF \<or> start + steps > 0xFF) LMS_ERR_INVALID)
       (andthen count_call
          (fold_each (\<lambda>j value.
             bind (or_fail LMS_ERR_INVALID
               (lms_hash hash_alg (I @ lms_store_u32 q @ lms_store_u16 (word_of_nat i) @
                                   [word_of_nat j] @ value) LMS_N)) (\<lambda>value'.
             andthen (count_steps 1) (ret value')))
           [start..<start + steps] value))"

text \<open>The common body of the three dispatchers below.\<close>

definition chain_via :: "('w lms_lib \<Rightarrow> 'w lmots_chain_backend_fn option) \<Rightarrow>
    bytes \<Rightarrow> lms_hash_alg_t \<Rightarrow> u32 \<Rightarrow> nat \<Rightarrow> nat \<Rightarrow> nat \<Rightarrow> bytes \<Rightarrow> ('w, bytes) lop" where
  "chain_via backend I hash_alg q i start steps value =
     bind (look backend) (\<lambda>b. case b of
         None \<Rightarrow> lmots_chain_compute I hash_alg q i start steps value
       | Some f \<Rightarrow> andthen count_call
           (bind (on_world (f I hash_alg q i start steps value)) (\<lambda>value'.
            andthen (count_steps steps) (ret value'))))"

definition lmots_keygen_chain_compute :: "bytes \<Rightarrow> lms_hash_alg_t \<Rightarrow> u32 \<Rightarrow> nat \<Rightarrow> nat \<Rightarrow> nat \<Rightarrow> bytes \<Rightarrow> ('w, bytes) lop" where
  "lmots_keygen_chain_compute = chain_via keygen_chain_backend"

definition lmots_verify_chain_compute :: "bytes \<Rightarrow> lms_hash_alg_t \<Rightarrow> u32 \<Rightarrow> nat \<Rightarrow> nat \<Rightarrow> nat \<Rightarrow> bytes \<Rightarrow> ('w, bytes) lop" where
  "lmots_verify_chain_compute = chain_via verify_chain_backend"

definition lmots_sign_chain_compute :: "bytes \<Rightarrow> lms_hash_alg_t \<Rightarrow> u32 \<Rightarrow> nat \<Rightarrow> nat \<Rightarrow> nat \<Rightarrow> bytes \<Rightarrow> ('w, bytes) lop" where
  "lmots_sign_chain_compute = chain_via sign_chain_backend"

section \<open>Message digest and coefficients\<close>

definition lmots_message_hash :: "bytes \<Rightarrow> lms_hash_alg_t \<Rightarrow> u32 \<Rightarrow> bytes \<Rightarrow> bytes \<Rightarrow> ('w, bytes) lop" where
  "lmots_message_hash I hash_alg q C message =
     bind (look message_hash_backend) (\<lambda>b. case b of
         None \<Rightarrow> or_fail LMS_ERR_INVALID
            (lms_hash_parts (I @ lms_store_u32 q @ lms_store_u16 D_MESG @ C) message [] [] hash_alg)
       | Some f \<Rightarrow> on_world (f I hash_alg q C message))"

text \<open>Message hash, checksum and digit loop in software.\<close>

definition software_coefficients :: "bytes \<Rightarrow> lms_hash_alg_t \<Rightarrow> u32 \<Rightarrow> bytes \<Rightarrow> bytes \<Rightarrow> lmots_param_t \<Rightarrow>
    ('w, bytes \<times> nat list) lop" where
  "software_coefficients I hash_alg q C message param =
     bind (or_fail LMS_ERR_INVALID (lmots_message_hash I hash_alg q C message)) (\<lambda>Q.
     let checksum = lms_lmots_checksum Q (op_n param) (op_w param) (op_ls param);
         Q' = Q @ lms_store_u16 (ucast checksum)
     in ret (Q', map (\<lambda>i. unat (ucast (lms_lmots_coef Q' i (op_w param)) :: u8)) [0..<op_p param]))"

text \<open>
  The block that five functions repeat: one call of the coefficient backend gives \<open>Q\<close> and the
  coefficients (it fills the first 32 bytes of the 34-byte \<open>Q\<close>; the last two keep what the
  stack held); on failure, or when none is registered, message hash, checksum and digit loop
  run in software. Where the code skips the digit loop the coefficients are not read.
\<close>

definition lmots_coefficients :: "bytes \<Rightarrow> lms_hash_alg_t \<Rightarrow> u32 \<Rightarrow> bytes \<Rightarrow> bytes \<Rightarrow> u32 \<Rightarrow> lmots_param_t \<Rightarrow>
    ('w, bytes \<times> nat list) lop" where
  "lmots_coefficients I hash_alg q C message lmots_type param =
     bind (look coef_backend) (\<lambda>b.
     bind (case b of
             None \<Rightarrow> ret None
           | Some f \<Rightarrow> bind (attempt (on_world (f I hash_alg q C message lmots_type))) (\<lambda>r.
               case r of
                 Inl _ \<Rightarrow> ret None
               | Inr (Q, coefficients) \<Rightarrow>
                   bind (look stack_tail) (\<lambda>tail. ret (Some (Q @ tail, coefficients))))) (\<lambda>hw.
     case hw of
       Some Qc \<Rightarrow> ret Qc
     | None \<Rightarrow> software_coefficients I hash_alg q C message param))"

section \<open>Public keys\<close>

text \<open>The software tail of \<open>lmots_public_from_signature\<close>: finish each chain, hash the ends.\<close>

definition lmots_finish_chains :: "bytes \<Rightarrow> lms_hash_alg_t \<Rightarrow> u32 \<Rightarrow> lmots_param_t \<Rightarrow> bytes \<Rightarrow> bytes \<Rightarrow>
    ('w, bytes) lop" where
  "lmots_finish_chains I hash_alg q param Q y =
     bind (for_each (\<lambda>i.
             let a = unat (lms_lmots_coef Q i (op_w param))
             in or_fail LMS_ERR_INVALID
                  (lmots_verify_chain_compute I hash_alg q i a ((2 ^ op_w param - 1) - a)
                     (segment (i * op_n param) (op_n param) y)))
           [0..<op_p param]) (\<lambda>pub_buf.
     lms_hash_parts (I @ lms_store_u32 q @ lms_store_u16 D_PBLC) (concat pub_buf) [] [] hash_alg)"

definition lmots_public_from_signature :: "bytes \<Rightarrow> lms_hash_alg_t \<Rightarrow> u32 \<Rightarrow> u32 \<Rightarrow> bytes \<Rightarrow> bytes \<Rightarrow>
    ('w, bytes) lop" where
  "lmots_public_from_signature I hash_alg q expected_type message signature =
     bind (or_fail LMS_ERR_INVALID (lms_get_lmots_param expected_type)) (\<lambda>param.
     let n = op_n param; p = op_p param
     in andthen (reject_if (length signature \<noteq> 4 + n + p * n) LMS_ERR_INVALID)
       (andthen (reject_if (lms_load_u32 signature \<noteq> expected_type) LMS_ERR_VERIFY)
       (let C = segment 4 n signature; y = drop (4 + n) signature
        in andthen (reject_if (op_hash_alg param \<noteq> hash_alg) LMS_ERR_INVALID)
          (bind (lmots_coefficients I hash_alg q C message expected_type param) (\<lambda>(Q, coefficients).
           bind (look verify_backend) (\<lambda>b. case b of
               Some f \<Rightarrow> on_world (f I hash_alg q expected_type coefficients y)
             | None \<Rightarrow> lmots_finish_chains I hash_alg q param Q y))))))"

definition lmots_verify_leaf :: "bytes \<Rightarrow> lms_hash_alg_t \<Rightarrow> u32 \<Rightarrow> u32 \<Rightarrow> u32 \<Rightarrow> bytes \<Rightarrow> bytes \<Rightarrow>
    ('w, bytes) lop" where
  "lmots_verify_leaf I hash_alg q expected_type node_num message signature =
     bind (or_fail LMS_ERR_INVALID (lms_get_lmots_param expected_type)) (\<lambda>param.
     let n = op_n param; p = op_p param
     in andthen (reject_if (length signature \<noteq> 4 + n + p * n) LMS_ERR_INVALID)
       (andthen (reject_if (lms_load_u32 signature \<noteq> expected_type) LMS_ERR_VERIFY)
       (let C = segment 4 n signature; y = drop (4 + n) signature
        in andthen (reject_if (op_hash_alg param \<noteq> hash_alg) LMS_ERR_INVALID)
          (bind (lmots_coefficients I hash_alg q C message expected_type param) (\<lambda>(Q, coefficients).
           bind (look verify_leaf_backend) (\<lambda>b. case b of
               Some f \<Rightarrow> on_world (f I hash_alg q expected_type coefficients y node_num)
             | None \<Rightarrow>
                 bind (or_fail LMS_ERR_VERIFY
                   (lmots_public_from_signature I hash_alg q expected_type message signature)) (\<lambda>pub.
                 lms_hash_parts (I @ lms_store_u32 node_num @ lms_store_u16 D_LEAF) pub [] [] hash_alg)))))))"

text \<open>One chain from its secret start, by the derive callback or in software; the loop bodies of
  \<open>lmots_public_from_private\<close> and \<open>lmots_sign\<close>.\<close>

definition derived_chain :: "('w lms_lib \<Rightarrow> 'w lmots_derive_chain_backend_fn option) \<Rightarrow>
    (bytes \<Rightarrow> lms_hash_alg_t \<Rightarrow> u32 \<Rightarrow> nat \<Rightarrow> nat \<Rightarrow> nat \<Rightarrow> bytes \<Rightarrow> ('w, bytes) lop) \<Rightarrow>
    lms_private_key_t \<Rightarrow> lms_hash_alg_t \<Rightarrow> u32 \<Rightarrow> nat \<Rightarrow> nat \<Rightarrow> ('w, bytes) lop" where
  "derived_chain backend chain_compute priv hash_alg q i steps =
     bind (look backend) (\<lambda>d. case d of
         Some f \<Rightarrow> andthen count_call
           (bind (or_fail LMS_ERR_INVALID (on_world (f (priv_I priv) hash_alg q i 0 steps))) (\<lambda>v.
            andthen (count_steps steps) (ret v)))
       | None \<Rightarrow>
           bind (or_fail LMS_ERR_INVALID (lmots_private_value priv q i)) (\<lambda>v.
           or_fail LMS_ERR_INVALID (chain_compute (priv_I priv) hash_alg q i 0 steps v)))"

definition lmots_public_from_private :: "lms_private_key_t \<Rightarrow> u32 \<Rightarrow> ('w, bytes) lop" where
  "lmots_public_from_private priv q =
     bind (or_fail LMS_ERR_INVALID (lms_get_lmots_param (priv_lmots_type priv))) (\<lambda>param.
     bind (or_fail LMS_ERR_INVALID (lms_get_private_hash_alg priv)) (\<lambda>hash_alg.
     bind (look keygen_backend) (\<lambda>b. case b of
         Some f \<Rightarrow> on_world (f (priv_I priv) hash_alg q (priv_lmots_type priv))
       | None \<Rightarrow>
           bind (for_each (\<lambda>i.
                   derived_chain keygen_derive_backend lmots_keygen_chain_compute priv hash_alg q i
                     (2 ^ op_w param - 1))
                 [0..<op_p param]) (\<lambda>pub_buf.
           lms_hash_parts (priv_I priv @ lms_store_u32 q @ lms_store_u16 D_PBLC) (concat pub_buf) [] [] hash_alg))))"

section \<open>Signing\<close>

definition lmots_sign :: "lms_private_key_t \<Rightarrow> u32 \<Rightarrow> bytes \<Rightarrow> nat \<Rightarrow> ('w, bytes) lop" where
  "lmots_sign priv q message signature_len =
     bind (or_fail LMS_ERR_INVALID (lms_get_lmots_param (priv_lmots_type priv))) (\<lambda>param.
     bind (or_fail LMS_ERR_INVALID (lms_get_private_hash_alg priv)) (\<lambda>hash_alg.
     andthen (reject_if (op_hash_alg param \<noteq> hash_alg) LMS_ERR_INVALID)
     (andthen (reject_if (signature_len < 4 + op_n param + op_p param * op_n param) LMS_ERR_BUFFER_TOO_SMALL)
     (bind (or_fail LMS_ERR_INVALID (lmots_randomizer priv q)) (\<lambda>C.
      bind (lmots_coefficients (priv_I priv) hash_alg q C message (priv_lmots_type priv) param) (\<lambda>(Q, coefficients).
      bind (look sign_backend) (\<lambda>b. case b of
          Some f \<Rightarrow>
            bind (on_world (f (priv_I priv) hash_alg q (priv_lmots_type priv) coefficients)) (\<lambda>y.
            ret (lms_store_u32 (priv_lmots_type priv) @ C @ y))
        | None \<Rightarrow>
            bind (for_each (\<lambda>i.
                    derived_chain sign_derive_backend lmots_sign_chain_compute priv hash_alg q i
                      (unat (lms_lmots_coef Q i (op_w param))))
                  [0..<op_p param]) (\<lambda>ys.
            ret (lms_store_u32 (priv_lmots_type priv) @ C @ concat ys)))))))))"

definition lmots_sign_prepare :: "lms_private_key_t \<Rightarrow> u32 \<Rightarrow> bytes \<Rightarrow> ('w, bytes \<times> nat list) lop" where
  "lmots_sign_prepare priv q message =
     bind (or_fail LMS_ERR_INVALID (lms_get_lmots_param (priv_lmots_type priv))) (\<lambda>param.
     bind (or_fail LMS_ERR_INVALID (lms_get_private_hash_alg priv)) (\<lambda>hash_alg.
     andthen (reject_if (op_hash_alg param \<noteq> hash_alg) LMS_ERR_INVALID)
     (bind (or_fail LMS_ERR_INVALID (lmots_randomizer priv q)) (\<lambda>C.
      bind (lmots_coefficients (priv_I priv) hash_alg q C message (priv_lmots_type priv) param) (\<lambda>(Q, coefficients).
      ret (C, coefficients))))))"

definition lmots_public_from_signature_prepare :: "bytes \<Rightarrow> lms_hash_alg_t \<Rightarrow> u32 \<Rightarrow> u32 \<Rightarrow> bytes \<Rightarrow> bytes \<Rightarrow>
    ('w, nat list) lop" where
  "lmots_public_from_signature_prepare I hash_alg q expected_type message C =
     bind (or_fail LMS_ERR_INVALID (lms_get_lmots_param expected_type)) (\<lambda>param.
     andthen (reject_if (op_hash_alg param \<noteq> hash_alg) LMS_ERR_INVALID)
     (bind (lmots_coefficients I hash_alg q C message expected_type param) (\<lambda>(Q, coefficients).
      ret coefficients)))"


lemma gives_dispatch:
  assumes "gives fl I m r" and "\<And>s f. I s \<Longrightarrow> sel s = Some f \<Longrightarrow> gives fl I (k f) r"
  shows "gives fl I (bind (look sel) (\<lambda>b. case b of None \<Rightarrow> m | Some f \<Rightarrow> k f)) r"
  using assms by (intro gives_bind_look) (auto split: option.split)

lemma yields_dispatch:
  assumes "yields fl I m R" and "\<And>s f. I s \<Longrightarrow> sel s = Some f \<Longrightarrow> yields fl I (k f) R"
  shows "yields fl I (bind (look sel) (\<lambda>b. case b of None \<Rightarrow> m | Some f \<Rightarrow> k f)) R"
  using assms by (intro yields_bind_look) (auto split: option.split)

lemma yields_guard: "\<not> b \<Longrightarrow> yields fl I k R \<Longrightarrow> yields fl I (andthen (reject_if b e) k) R"
  unfolding andthen_def by (rule yields_bind_gives [OF gives_reject_pass])

lemma yields_attempt:
  "yields fl I m R \<Longrightarrow> yields fl I (attempt m) (\<lambda>r. \<exists>x. r = Inr x \<and> (R x \<or> fl \<and> isl x))"
  by (fastforce simp: yields_def attempt_def split: prod.splits)

lemma gives_bind_yields:
  assumes "yields fl I m R" and "\<And>x. R (Inr x) \<Longrightarrow> gives fl I (f x) r" and "\<And>e. R (Inl e) \<Longrightarrow> r = Inl e"
  shows "gives fl I (bind m f) r"
  unfolding gives_def
  by (rule yields_bind [OF assms(1)]) (use assms(2,3) in \<open>auto simp: gives_def\<close>)

section \<open>Reference: LM-OTS as pure functions\<close>

definition ots_x :: "lms_hash_alg_t \<Rightarrow> bytes \<Rightarrow> bytes \<Rightarrow> u32 \<Rightarrow> nat \<Rightarrow> bytes" where
  "ots_x alg I seed q i =
     lms_digest alg (I @ lms_store_u32 q @ lms_store_u16 (word_of_nat i) @ [0xff] @ seed)"

definition ots_step :: "lms_hash_alg_t \<Rightarrow> bytes \<Rightarrow> u32 \<Rightarrow> nat \<Rightarrow> nat \<Rightarrow> bytes \<Rightarrow> bytes" where
  "ots_step alg I q i j v =
     lms_digest alg (I @ lms_store_u32 q @ lms_store_u16 (word_of_nat i) @ [word_of_nat j] @ v)"

definition ots_chain :: "lms_hash_alg_t \<Rightarrow> bytes \<Rightarrow> u32 \<Rightarrow> nat \<Rightarrow> nat \<Rightarrow> nat \<Rightarrow> bytes \<Rightarrow> bytes" where
  "ots_chain alg I q i start steps v = fold (ots_step alg I q i) [start..<start + steps] v"

definition ots_Q :: "lms_hash_alg_t \<Rightarrow> bytes \<Rightarrow> u32 \<Rightarrow> bytes \<Rightarrow> bytes \<Rightarrow> bytes" where
  "ots_Q alg I q C message = lms_digest alg (I @ lms_store_u32 q @ lms_store_u16 D_MESG @ C @ message)"

definition ots_coefs :: "lmots_param_t \<Rightarrow> bytes \<Rightarrow> nat list" where
  "ots_coefs param Q = map (\<lambda>i. lmots_digit (with_checksum Q param) i (op_w param)) [0..<op_p param]"

definition ots_key :: "lms_hash_alg_t \<Rightarrow> bytes \<Rightarrow> u32 \<Rightarrow> bytes list \<Rightarrow> bytes" where
  "ots_key alg I q ends = lms_digest alg (I @ lms_store_u32 q @ lms_store_u16 D_PBLC @ concat ends)"

definition ots_pub :: "lms_hash_alg_t \<Rightarrow> lmots_param_t \<Rightarrow> bytes \<Rightarrow> bytes \<Rightarrow> u32 \<Rightarrow> bytes" where
  "ots_pub alg param I seed q = ots_key alg I q
     (map (\<lambda>i. ots_chain alg I q i 0 (2 ^ op_w param - 1) (ots_x alg I seed q i)) [0..<op_p param])"

definition ots_y :: "lms_hash_alg_t \<Rightarrow> lmots_param_t \<Rightarrow> bytes \<Rightarrow> bytes \<Rightarrow> u32 \<Rightarrow> nat list \<Rightarrow> bytes" where
  "ots_y alg param I seed q coefs =
     concat (map (\<lambda>i. ots_chain alg I q i 0 (coefs ! i) (ots_x alg I seed q i)) [0..<op_p param])"

definition ots_candidate :: "lms_hash_alg_t \<Rightarrow> lmots_param_t \<Rightarrow> bytes \<Rightarrow> u32 \<Rightarrow> nat list \<Rightarrow> bytes \<Rightarrow> bytes" where
  "ots_candidate alg param I q coefs y = ots_key alg I q
     (map (\<lambda>i. ots_chain alg I q i (coefs ! i) ((2 ^ op_w param - 1) - coefs ! i) (segment (i * 32) 32 y))
        [0..<op_p param])"

definition coefs_ok :: "lmots_param_t \<Rightarrow> nat list \<Rightarrow> bool" where
  "coefs_ok param coefs \<longleftrightarrow> length coefs = op_p param \<and> (\<forall>i < op_p param. coefs ! i \<le> 2 ^ op_w param - 1)"

definition lms_leaf_hash :: "lms_hash_alg_t \<Rightarrow> bytes \<Rightarrow> u32 \<Rightarrow> bytes \<Rightarrow> bytes" where
  "lms_leaf_hash alg I node_num pub = lms_digest alg (I @ lms_store_u32 node_num @ lms_store_u16 D_LEAF @ pub)"

lemma length_ots_x [simp, len_simps]: "length (ots_x alg I seed q i) = 32"
  by (simp add: ots_x_def)

lemma length_ots_chain [simp, len_simps]: "length v = 32 \<Longrightarrow> length (ots_chain alg I q i a n v) = 32"
proof (cases n)
  case (Suc m)
  then show ?thesis by (simp add: ots_chain_def ots_step_def)
qed (simp add: ots_chain_def)

lemma length_ots_key [simp, len_simps]: "length (ots_key alg I q ends) = 32"
  by (simp add: ots_key_def)

lemma length_ots_pub [simp, len_simps]: "length (ots_pub alg param I seed q) = 32"
  by (simp add: ots_pub_def)

lemma length_ots_candidate [simp, len_simps]: "length (ots_candidate alg param I q coefs y) = 32"
  by (simp add: ots_candidate_def)

lemma length_ots_Q [simp, len_simps]: "length (ots_Q alg I q C m) = 32"
  by (simp add: ots_Q_def)

lemma length_ots_coefs [simp, len_simps]: "length (ots_coefs param Q) = op_p param"
  by (simp add: ots_coefs_def)

lemma length_ots_y [simp, len_simps]: "length (ots_y alg param I seed q coefs) = op_p param * 32"
  unfolding ots_y_def by (subst length_concat_uniform [where n = 32]) auto

lemma nth_ots_coefs:
  "i < op_p param \<Longrightarrow> ots_coefs param Q ! i = lmots_digit (with_checksum Q param) i (op_w param)"
  by (simp add: ots_coefs_def)

lemma ots_coef_bound: "i < op_p param \<Longrightarrow> ots_coefs param Q ! i \<le> 2 ^ op_w param - 1"
  using lmots_digit_less [of "with_checksum Q param" i "op_w param"] by (simp add: nth_ots_coefs)

lemma lmots_coef_u8:
  assumes "lmots_params t = Some param" and "i < op_p param"
  shows "unat (lms_lmots_coef data i (op_w param)) = lmots_digit data i (op_w param)"
    and "unat (ucast (lms_lmots_coef data i (op_w param)) :: u8) = lmots_digit data i (op_w param)"
proof -
  have w: "winternitz_w (op_w param)" "op_w param \<le> 8" and "i < 2 ^ 16"
    using lmots_params_w [OF assms(1)] lmots_param_cases(3) [OF assms(1)] assms(2) by auto
  then show u: "unat (lms_lmots_coef data i (op_w param)) = lmots_digit data i (op_w param)"
    by (simp add: unat_lms_lmots_coef)
  have "lmots_digit data i (op_w param) < 2 ^ 8"
    using lmots_digit_less [of data i "op_w param"] power_increasing [OF w(2), of "2 :: nat"] by simp
  then show "unat (ucast (lms_lmots_coef data i (op_w param)) :: u8) = lmots_digit data i (op_w param)"
    by (simp add: unsigned_ucast_eq u take_bit_nat_eq_self_iff)
qed

lemma ots_coefs_ok [simp]: "coefs_ok param (ots_coefs param Q)"
  using ots_coef_bound by (simp only: coefs_ok_def length_ots_coefs) blast

lemma lmots_p_bounds:
  assumes "lmots_params t = Some param"
  shows "op_p param \<le> 265" and "2 ^ op_w param \<le> (256 :: nat)" and "op_n param = 32"
  using lmots_param_cases [OF assms] by auto

lemma ots_chain_append:
  "ots_chain alg I q i (a + n) k (ots_chain alg I q i a n v) = ots_chain alg I q i a (n + k) v"
proof -
  have "[a..<a + (n + k)] = [a..<a + n] @ [a + n..<a + n + k]"
    using upt_add_eq_append [of a "a + n" k] by (simp add: add.assoc)
  then show ?thesis by (simp add: ots_chain_def)
qed

lemma ots_chain_finish:
  assumes "n \<le> m"
  shows "ots_chain alg I q i n (m - n) (ots_chain alg I q i 0 n v) = ots_chain alg I q i 0 m v"
  using ots_chain_append [of alg I q i 0 n "m - n" v] assms by simp

text \<open>The heart of LM-OTS: finishing the signature's chains yields the public key.\<close>

lemma ots_candidate_of_signature:
  assumes "\<And>i. i < op_p param \<Longrightarrow> coefs ! i \<le> 2 ^ op_w param - 1"
  shows "ots_candidate alg param I q coefs (ots_y alg param I seed q coefs) = ots_pub alg param I seed q"
proof -
  have "segment (i * 32) 32 (ots_y alg param I seed q coefs)
      = ots_chain alg I q i 0 (coefs ! i) (ots_x alg I seed q i)" if "i < op_p param" for i
    unfolding ots_y_def using that by (subst segment_concat [where n = 32]) auto
  then have "ots_chain alg I q i (coefs ! i) ((2 ^ op_w param - 1) - coefs ! i)
        (segment (i * 32) 32 (ots_y alg param I seed q coefs))
      = ots_chain alg I q i 0 (2 ^ op_w param - 1) (ots_x alg I seed q i)" if "i < op_p param" for i
    using that ots_chain_finish [OF assms [OF that]] by (simp only:)
  then show ?thesis unfolding ots_candidate_def ots_pub_def
    by (intro arg_cong [where f = "ots_key alg I q"] map_cong refl) simp
qed

section \<open>What a registered callback promises\<close>

text \<open>
  A callback of each kind promises the reference value on the arguments the library passes;
  \<open>fl\<close> allows it to fail, \<open>W\<close> is the set of worlds it works in and keeps. Callbacks that need
  the secret seed hold it themselves (\<open>seed\<close>). A randomizer may return any 32 bytes. A
  coefficient backend promises the coefficients, nothing about the bytes it leaves in \<open>Q\<close>.
\<close>

definition chain_conf :: "bool \<Rightarrow> ('w \<Rightarrow> bool) \<Rightarrow> 'w lmots_chain_backend_fn \<Rightarrow> bool" where
  "chain_conf fl W f \<longleftrightarrow> (\<forall>I alg q i start steps v.
     length I = 16 \<and> length v = 32 \<and> i < 265 \<and> start + steps \<le> 255 \<longrightarrow>
     gives fl W (f I alg q i start steps v) (Inr (ots_chain alg I q i start steps v)))"

definition derive_conf :: "bool \<Rightarrow> ('w \<Rightarrow> bool) \<Rightarrow> bytes \<Rightarrow> 'w lmots_derive_chain_backend_fn \<Rightarrow> bool" where
  "derive_conf fl W seed f \<longleftrightarrow> (\<forall>I alg q i steps.
     length I = 16 \<and> i < 265 \<and> steps \<le> 255 \<longrightarrow>
     gives fl W (f I alg q i 0 steps) (Inr (ots_chain alg I q i 0 steps (ots_x alg I seed q i))))"

definition keygen_conf :: "bool \<Rightarrow> ('w \<Rightarrow> bool) \<Rightarrow> bytes \<Rightarrow> 'w lmots_keygen_backend_fn \<Rightarrow> bool" where
  "keygen_conf fl W seed f \<longleftrightarrow> (\<forall>I q t param.
     length I = 16 \<and> lmots_params t = Some param \<longrightarrow>
     gives fl W (f I (op_hash_alg param) q t) (Inr (ots_pub (op_hash_alg param) param I seed q)))"

definition sign_conf :: "bool \<Rightarrow> ('w \<Rightarrow> bool) \<Rightarrow> bytes \<Rightarrow> 'w lmots_sign_backend_fn \<Rightarrow> bool" where
  "sign_conf fl W seed f \<longleftrightarrow> (\<forall>I q t param coefs.
     length I = 16 \<and> lmots_params t = Some param \<and> coefs_ok param coefs \<longrightarrow>
     gives fl W (f I (op_hash_alg param) q t coefs) (Inr (ots_y (op_hash_alg param) param I seed q coefs)))"

definition verify_conf :: "bool \<Rightarrow> ('w \<Rightarrow> bool) \<Rightarrow> 'w lmots_verify_backend_fn \<Rightarrow> bool" where
  "verify_conf fl W f \<longleftrightarrow> (\<forall>I q t param coefs y.
     length I = 16 \<and> lmots_params t = Some param \<and> coefs_ok param coefs \<and> length y = op_p param * 32 \<longrightarrow>
     gives fl W (f I (op_hash_alg param) q t coefs y)
       (Inr (ots_candidate (op_hash_alg param) param I q coefs y)))"

definition verify_leaf_conf :: "bool \<Rightarrow> ('w \<Rightarrow> bool) \<Rightarrow> 'w lmots_verify_leaf_backend_fn \<Rightarrow> bool" where
  "verify_leaf_conf fl W f \<longleftrightarrow> (\<forall>I q t param coefs y node_num.
     length I = 16 \<and> lmots_params t = Some param \<and> coefs_ok param coefs \<and> length y = op_p param * 32 \<longrightarrow>
     gives fl W (f I (op_hash_alg param) q t coefs y node_num)
       (Inr (lms_leaf_hash (op_hash_alg param) I node_num
               (ots_candidate (op_hash_alg param) param I q coefs y))))"

definition randomizer_conf :: "bool \<Rightarrow> ('w \<Rightarrow> bool) \<Rightarrow> 'w lmots_randomizer_backend_fn \<Rightarrow> bool" where
  "randomizer_conf fl W f \<longleftrightarrow> (\<forall>I alg q. length I = 16 \<longrightarrow>
     yields fl W (f I alg q) (\<lambda>r. \<exists>C. r = Inr C \<and> length C = 32))"

definition message_hash_conf :: "bool \<Rightarrow> ('w \<Rightarrow> bool) \<Rightarrow> nat \<Rightarrow> 'w lmots_message_hash_backend_fn \<Rightarrow> bool" where
  "message_hash_conf fl W heap f \<longleftrightarrow> (\<forall>I alg q C m.
     length I = 16 \<and> length C = 32 \<and> hash_fits heap alg (54 + length m) \<longrightarrow>
     gives fl W (f I alg q C m) (Inr (ots_Q alg I q C m)))"

definition coef_conf :: "bool \<Rightarrow> ('w \<Rightarrow> bool) \<Rightarrow> nat \<Rightarrow> 'w lmots_coef_backend_fn \<Rightarrow> bool" where
  "coef_conf fl W heap f \<longleftrightarrow> (\<forall>I q C m t param.
     length I = 16 \<and> length C = 32 \<and> lmots_params t = Some param \<and>
     hash_fits heap (op_hash_alg param) (54 + length m) \<longrightarrow>
     yields fl W (f I (op_hash_alg param) q C m t)
       (\<lambda>r. \<exists>Q. r = Inr (Q, ots_coefs param (ots_Q (op_hash_alg param) I q C m))))"

section \<open>Running under conforming callbacks\<close>

text \<open>
  The interface the clients of LM-OTS rely on: a set of library states in which every
  registered callback keeps its promise. \<open>coef_hw\<close> says whether a coefficient backend may be
  registered: the digits of \<open>Q\<close> are then only known through it, so the signing and
  verification backends that consume them have to be registered too.
\<close>

locale ots_library = library_state I heap
  for I :: "'w lms_lib \<Rightarrow> bool" and heap :: nat +
  fixes fl :: bool and W :: "'w \<Rightarrow> bool" and seed :: bytes and coef_hw :: bool
  assumes world_in: "I s \<Longrightarrow> W (world s)"
    and world_step: "I s \<Longrightarrow> W w \<Longrightarrow> I (s\<lparr>world := w\<rparr>)"
    and keygen_chain: "I s \<Longrightarrow> keygen_chain_backend s = Some f1 \<Longrightarrow> chain_conf fl W f1"
    and verify_chain: "I s \<Longrightarrow> verify_chain_backend s = Some f1 \<Longrightarrow> chain_conf fl W f1"
    and sign_chain: "I s \<Longrightarrow> sign_chain_backend s = Some f1 \<Longrightarrow> chain_conf fl W f1"
    and keygen_derive: "I s \<Longrightarrow> keygen_derive_backend s = Some f2 \<Longrightarrow> derive_conf fl W seed f2"
    and sign_derive: "I s \<Longrightarrow> sign_derive_backend s = Some f2 \<Longrightarrow> derive_conf fl W seed f2"
    and keygen: "I s \<Longrightarrow> keygen_backend s = Some f3 \<Longrightarrow> keygen_conf fl W seed f3"
    and sign: "I s \<Longrightarrow> sign_backend s = Some f4 \<Longrightarrow> sign_conf fl W seed f4"
    and verify: "I s \<Longrightarrow> verify_backend s = Some f5 \<Longrightarrow> verify_conf fl W f5"
    and verify_leaf: "I s \<Longrightarrow> verify_leaf_backend s = Some f6 \<Longrightarrow> verify_leaf_conf fl W f6"
    and randomizer: "I s \<Longrightarrow> sign_randomizer_backend s = Some f7 \<Longrightarrow> randomizer_conf fl W f7"
    and message_hash: "I s \<Longrightarrow> message_hash_backend s = Some f8 \<Longrightarrow> message_hash_conf fl W heap f8"
    and coef: "I s \<Longrightarrow> coef_backend s = Some f9 \<Longrightarrow> coef_hw \<and> coef_conf fl W heap f9"
    and coef_consumers: "I s \<Longrightarrow> coef_hw \<Longrightarrow> sign_backend s \<noteq> None \<and> verify_backend s \<noteq> None"
begin

lemma yields_on_world: "yields fl W m R \<Longrightarrow> yields fl I (on_world m) R"
  using world_in world_step by (fastforce simp: yields_def on_world_def split: prod.splits)

lemma gives_on_world: "gives fl W m r \<Longrightarrow> gives fl I (on_world m) r"
  unfolding gives_def by (rule yields_on_world)

lemma gives_count_call [gives_intros]: "gives fl I count_call (Inr ())"
  unfolding count_call_def by (rule gives_modify) (rule I_chain_stats)

lemma gives_count_steps [gives_intros]: "gives fl I (count_steps n) (Inr ())"
  unfolding count_steps_def by (rule gives_modify) (rule I_chain_stats)

lemma gives_private_value:
  assumes "param_pair (priv_lms_type priv) (priv_lmots_type priv) = Some (a, b)" and "i < 265"
  shows "gives fl I (lmots_private_value priv q i)
    (Inr (ots_x (lp_hash_alg a) (priv_I priv) (priv_seed priv) q i))"
  unfolding lmots_private_value_def ots_x_def LMS_N_def
  by (rule gives_intros gives_hash assms(1) | use assms(2) in simp)+

lemma gives_chain_compute:
  assumes "i < 265" and "start + steps \<le> 255"
  shows "gives fl I (lmots_chain_compute J alg q i start steps v) (Inr (ots_chain alg J q i start steps v))"
  unfolding lmots_chain_compute_def ots_chain_def ots_step_def LMS_N_def
  by (rule gives_intros gives_fold_each gives_hash | use assms in simp)+

lemma gives_chain_via:
  assumes "\<And>s f. I s \<Longrightarrow> backend s = Some f \<Longrightarrow> chain_conf fl W f"
    and "length J = 16" and "length v = 32" and "i < 265" and "start + steps \<le> 255"
  shows "gives fl I (chain_via backend J alg q i start steps v) (Inr (ots_chain alg J q i start steps v))"
  unfolding chain_via_def
proof (rule gives_dispatch)
  show "gives fl I (lmots_chain_compute J alg q i start steps v) (Inr (ots_chain alg J q i start steps v))"
    by (rule gives_chain_compute [OF assms(4,5)])
  fix s f assume "I s" "backend s = Some f"
  then have v: "gives fl I (on_world (f J alg q i start steps v)) (Inr (ots_chain alg J q i start steps v))"
    using assms by (intro gives_on_world) (simp add: chain_conf_def)
  show "gives fl I (andthen count_call (bind (on_world (f J alg q i start steps v))
      (\<lambda>value'. andthen (count_steps steps) (ret value')))) (Inr (ots_chain alg J q i start steps v))"
    by (rule gives_intros v)+
qed

lemma gives_message_hash:
  assumes "length J = 16" and "length C = 32" and "hash_fits heap alg (54 + length m)"
  shows "gives fl I (lmots_message_hash J alg q C m) (Inr (ots_Q alg J q C m))"
  unfolding lmots_message_hash_def
proof (rule gives_dispatch)
  show "gives fl I (or_fail LMS_ERR_INVALID
      (lms_hash_parts (J @ lms_store_u32 q @ lms_store_u16 D_MESG @ C) m [] [] alg)) (Inr (ots_Q alg J q C m))"
    using gives_hash_parts [of alg "J @ lms_store_u32 q @ lms_store_u16 D_MESG @ C" m "[]" "[]"] assms
    by (intro gives_or_fail) (simp add: ots_Q_def)
  fix s f assume "I s" "message_hash_backend s = Some f"
  then show "gives fl I (on_world (f J alg q C m)) (Inr (ots_Q alg J q C m))"
    using message_hash assms by (intro gives_on_world) (simp add: message_hash_conf_def)
qed

lemma yields_randomizer:
  assumes "param_pair (priv_lms_type priv) (priv_lmots_type priv) = Some (a, b)" and "length (priv_I priv) = 16"
  shows "yields fl I (lmots_randomizer priv q) (\<lambda>r. \<exists>C. r = Inr C \<and> length C = 32)"
  unfolding lmots_randomizer_def
proof (rule yields_bind_gives [OF gives_or_fail [OF gives_private_hash_alg [OF assms(1)]]],
    rule yields_dispatch)
  show "yields fl I (or_fail LMS_ERR_INVALID (lms_hash (lp_hash_alg a)
      (priv_I priv @ lms_store_u32 q @ lms_store_u16 LMOTS_C_PRG_DOMAIN @ priv_seed priv) LMS_N))
      (\<lambda>r. \<exists>C. r = Inr C \<and> length C = 32)"
    unfolding LMS_N_def by (rule yields_gives [OF gives_or_fail [OF gives_hash]]) simp
  fix s f assume "I s" "sign_randomizer_backend s = Some f"
  then show "yields fl I (on_world (f (priv_I priv) (lp_hash_alg a) q)) (\<lambda>r. \<exists>C. r = Inr C \<and> length C = 32)"
    using randomizer assms(2) by (intro yields_on_world) (simp add: randomizer_conf_def)
qed

lemma yields_randomizer_or_fail:
  assumes "param_pair (priv_lms_type priv) (priv_lmots_type priv) = Some (a, b)" and "length (priv_I priv) = 16"
  shows "yields fl I (or_fail e (lmots_randomizer priv q)) (\<lambda>r. \<exists>C. r = Inr C \<and> length C = 32)"
  by (rule yields_or_fail [OF yields_randomizer [OF assms]]) auto

lemma yields_coefficients:
  assumes "length J = 16" and "length C = 32" and "lmots_params t = Some param"
    and alg: "alg = op_hash_alg param" and "hash_fits heap alg (54 + length m)"
  shows "yields fl I (lmots_coefficients J alg q C m t param) (\<lambda>r. \<exists>Q.
      r = Inr (Q, ots_coefs param (ots_Q alg J q C m)) \<and>
      (\<not> coef_hw \<longrightarrow> Q = with_checksum (ots_Q alg J q C m) param))" (is "yields fl I _ ?R")
proof -
  let ?Q = "ots_Q alg J q C m" and ?hw = "\<lambda>r. r = Inr None \<or>
      (\<exists>Q. r = Inr (Some (Q, ots_coefs param (ots_Q alg J q C m))) \<and> coef_hw)"
  have digits: "map (\<lambda>i. unat (ucast (lms_lmots_coef (with_checksum ?Q param) i (op_w param)) :: u8)) [0..<op_p param]
      = ots_coefs param ?Q"
    unfolding ots_coefs_def by (rule map_cong) (use lmots_coef_u8 [OF assms(3)] in auto)
  have soft: "gives fl I (software_coefficients J alg q C m param)
     (Inr (with_checksum ?Q param, ots_coefs param ?Q))"
    unfolding software_coefficients_def
    by (rule gives_bind [OF gives_or_fail [OF gives_message_hash [OF assms(1,2,5)]]])
      (simp add: Let_def digits [unfolded with_checksum_def] with_checksum_def gives_ret)
  have step: "yields fl I (case b of
             None \<Rightarrow> ret None
           | Some f \<Rightarrow> bind (attempt (on_world (f J alg q C m t))) (\<lambda>r.
               case r of
                 Inl _ \<Rightarrow> ret None
               | Inr (Q, coefficients) \<Rightarrow>
                   bind (look stack_tail) (\<lambda>tail. ret (Some (Q @ tail, coefficients))))) ?hw"
    if "I s" "coef_backend s = b" for s b
  proof (cases b)
    case None
    then show ?thesis by (simp add: yields_ret)
  next
    case (Some f)
    then have c: "coef_hw" "coef_conf fl W heap f" using coef that by auto
    then have "yields fl I (on_world (f J alg q C m t)) (\<lambda>r. \<exists>Q. r = Inr (Q, ots_coefs param ?Q))"
      using assms by (intro yields_on_world) (simp add: coef_conf_def)
    then show ?thesis unfolding Some option.case
      by (rule yields_bind [OF yields_attempt])
        (auto simp: c split: sum.split intro!: yields_ret yields_bind_look)
  qed
  have cont: "yields fl I (case hw of Some Qc \<Rightarrow> ret Qc | None \<Rightarrow> software_coefficients J alg q C m param) ?R"
    if "?hw (Inr hw)" for hw
    using that by (auto intro!: yields_gives [OF soft] yields_ret)
  show ?thesis unfolding lmots_coefficients_def
    by (rule yields_bind_look, rule yields_bind [OF step _ _], assumption, rule refl, erule cont) simp
qed

lemma gives_ots_key:
  assumes "lmots_params t = Some param" and "length J = 16"
    and "length ends = op_p param" and "\<And>v. v \<in> set ends \<Longrightarrow> length v = 32"
  shows "gives fl I (lms_hash_parts (J @ lms_store_u32 q @ lms_store_u16 D_PBLC) (concat ends) [] [] alg)
    (Inr (ots_key alg J q ends))"
proof -
  have "length (concat ends) = op_p param * 32" using assms(3,4) length_concat_uniform by metis
  then have "22 + length (concat ends) \<le> 8564" using lmots_p_bounds(1) [OF assms(1)] by simp
  then show ?thesis
    using gives_hash_parts [of alg "J @ lms_store_u32 q @ lms_store_u16 D_PBLC" "concat ends" "[]" "[]"] assms(2)
      hash_fits_small by (simp add: ots_key_def)
qed

lemma gives_finish_chains:
  assumes J: "length J = 16" and t: "lmots_params t = Some param" and y: "length y = op_p param * 32"
  shows "gives fl I (lmots_finish_chains J alg q param (with_checksum Q param) y)
    (Inr (ots_candidate alg param J q (ots_coefs param Q) y))"
  unfolding lmots_finish_chains_def ots_candidate_def lmots_p_bounds(3) [OF t]
proof (rule gives_bind [OF gives_for_each gives_ots_key [OF t J]])
  note n = lmots_p_bounds [OF t]
  have seg: "length (segment (i * 32) 32 y) = 32" if "i < op_p param" for i
  proof -
    have "(i + 1) * 32 \<le> op_p param * 32" using that by (intro mult_le_mono1) simp
    then show ?thesis using y by simp
  qed
  fix i assume "i \<in> set [0..<op_p param]"
  then have i: "i < op_p param" by simp
  then have a: "ots_coefs param Q ! i \<le> 2 ^ op_w param - 1" by (rule ots_coef_bound)
  show "gives fl I (let a = unat (lms_lmots_coef (with_checksum Q param) i (op_w param))
      in or_fail LMS_ERR_INVALID (lmots_verify_chain_compute J alg q i a ((2 ^ op_w param - 1) - a)
           (segment (i * 32) 32 y)))
     (Inr (ots_chain alg J q i (ots_coefs param Q ! i) ((2 ^ op_w param - 1) - ots_coefs param Q ! i)
           (segment (i * 32) 32 y)))"
    unfolding Let_def lmots_coef_u8(1) [OF t i] nth_ots_coefs [OF i, symmetric] lmots_verify_chain_compute_def
    using i n a by (intro gives_or_fail gives_chain_via [OF verify_chain J seg]) auto
next
  fix v assume "v \<in> set (map (\<lambda>i. ots_chain alg J q i (ots_coefs param Q ! i)
      ((2 ^ op_w param - 1) - ots_coefs param Q ! i) (segment (i * 32) 32 y)) [0..<op_p param])"
  then obtain i where i: "i < op_p param" and v: "v = ots_chain alg J q i (ots_coefs param Q ! i)
      ((2 ^ op_w param - 1) - ots_coefs param Q ! i) (segment (i * 32) 32 y)" by auto
  have "(i + 1) * 32 \<le> op_p param * 32" using i by (intro mult_le_mono1) simp
  then show "length v = 32" using y v by simp
qed simp

lemma header_36: "4 + 32 = (36 :: nat)"
  by simp

lemma gives_public_from_signature:
  assumes J: "length J = 16" and t: "lmots_params t = Some param" and alg: "alg = op_hash_alg param"
    and len: "length sig = 36 + op_p param * 32" and ty: "lms_load_u32 sig = t"
    and fit: "hash_fits heap alg (54 + length m)"
  shows "gives fl I (lmots_public_from_signature J alg q t m sig)
    (Inr (ots_candidate alg param J q (ots_coefs param (ots_Q alg J q (segment 4 32 sig) m)) (drop 36 sig)))"
proof -
  let ?C = "segment 4 32 sig" and ?y = "drop 36 sig"
  let ?Q = "ots_Q alg J q ?C m"
  have C: "length ?C = 32" and y: "length ?y = op_p param * 32" using len by simp_all
  note n = lmots_p_bounds(3) [OF t]
  have hw: "gives fl I (on_world (f J alg q t (ots_coefs param ?Q) ?y))
      (Inr (ots_candidate alg param J q (ots_coefs param ?Q) ?y))"
    if "I s" "verify_backend s = Some f" for s f
    using verify [OF that] J t len by (intro gives_on_world) (simp add: verify_conf_def alg)
  have tail: "gives fl I (bind (look verify_backend) (\<lambda>b. case b of
        Some f \<Rightarrow> on_world (f J alg q t (ots_coefs param ?Q) ?y)
      | None \<Rightarrow> lmots_finish_chains J alg q param Q ?y))
      (Inr (ots_candidate alg param J q (ots_coefs param ?Q) ?y))"
    if "\<not> coef_hw \<longrightarrow> Q = with_checksum ?Q param" for Q
  proof (rule gives_bind_look)
    fix s assume s: "I s"
    show "gives fl I (case verify_backend s of
        Some f \<Rightarrow> on_world (f J alg q t (ots_coefs param ?Q) ?y)
      | None \<Rightarrow> lmots_finish_chains J alg q param Q ?y)
      (Inr (ots_candidate alg param J q (ots_coefs param ?Q) ?y))"
    proof (cases "verify_backend s")
      case None
      then have Q: "Q = with_checksum ?Q param" using that coef_consumers [OF s] by blast
      show ?thesis unfolding None option.case Q by (rule gives_finish_chains [OF J t y])
    next
      case (Some f)
      show ?thesis unfolding Some option.case by (rule hw [OF s Some])
    qed
  qed
  have body: "gives fl I (bind (lmots_coefficients J alg q ?C m t param) (\<lambda>(Q, coefficients).
      bind (look verify_backend) (\<lambda>b. case b of
          Some f \<Rightarrow> on_world (f J alg q t coefficients ?y)
        | None \<Rightarrow> lmots_finish_chains J alg q param Q ?y)))
      (Inr (ots_candidate alg param J q (ots_coefs param ?Q) ?y))"
    by (rule gives_bind_yields [OF yields_coefficients [OF J C t alg fit]]) (auto intro!: tail)
  show ?thesis unfolding lmots_public_from_signature_def
    by (rule gives_bind [OF gives_or_fail [OF gives_lmots_param_ok [OF t]]], simp only: Let_def n header_36)
      ((rule gives_andthen, rule gives_reject_pass, simp add: len ty alg)+, rule body)
qed

lemma gives_leaf_hash:
  assumes "length J = 16" and "length pub = 32"
  shows "gives fl I (lms_hash_parts (J @ lms_store_u32 node_num @ lms_store_u16 D_LEAF) pub [] [] alg)
    (Inr (lms_leaf_hash alg J node_num pub))"
  using gives_hash_parts [of alg "J @ lms_store_u32 node_num @ lms_store_u16 D_LEAF" pub "[]" "[]"] assms
  by (simp add: lms_leaf_hash_def hash_fits_small)

lemma gives_verify_leaf:
  assumes J: "length J = 16" and t: "lmots_params t = Some param" and alg: "alg = op_hash_alg param"
    and len: "length sig = 36 + op_p param * 32" and ty: "lms_load_u32 sig = t"
    and fit: "hash_fits heap alg (54 + length m)"
  shows "gives fl I (lmots_verify_leaf J alg q t node_num m sig)
    (Inr (lms_leaf_hash alg J node_num
       (ots_candidate alg param J q (ots_coefs param (ots_Q alg J q (segment 4 32 sig) m)) (drop 36 sig))))"
    (is "gives fl I _ (Inr ?leaf)")
proof -
  let ?C = "segment 4 32 sig" and ?y = "drop 36 sig"
  let ?Q = "ots_Q alg J q ?C m"
  have C: "length ?C = 32" and y: "length ?y = op_p param * 32" using len by simp_all
  note n = lmots_p_bounds(3) [OF t]
  have soft: "gives fl I (bind (or_fail LMS_ERR_VERIFY (lmots_public_from_signature J alg q t m sig)) (\<lambda>pub.
      lms_hash_parts (J @ lms_store_u32 node_num @ lms_store_u16 D_LEAF) pub [] [] alg)) (Inr ?leaf)"
    by (rule gives_bind [OF gives_or_fail [OF gives_public_from_signature [OF assms]]])
      (rule gives_leaf_hash [OF J], simp)
  have hw: "gives fl I (on_world (f J alg q t (ots_coefs param ?Q) ?y node_num)) (Inr ?leaf)"
    if "I s" "verify_leaf_backend s = Some f" for s f
    using verify_leaf [OF that] J t len by (intro gives_on_world) (simp add: verify_leaf_conf_def alg)
  have body: "gives fl I (bind (lmots_coefficients J alg q ?C m t param) (\<lambda>(Q, coefficients).
      bind (look verify_leaf_backend) (\<lambda>b. case b of
          Some f \<Rightarrow> on_world (f J alg q t coefficients ?y node_num)
        | None \<Rightarrow> bind (or_fail LMS_ERR_VERIFY (lmots_public_from_signature J alg q t m sig)) (\<lambda>pub.
            lms_hash_parts (J @ lms_store_u32 node_num @ lms_store_u16 D_LEAF) pub [] [] alg)))) (Inr ?leaf)"
    by (rule gives_bind_yields [OF yields_coefficients [OF J C t alg fit]])
      (auto intro!: gives_dispatch [OF soft] hw)
  show ?thesis unfolding lmots_verify_leaf_def
    by (rule gives_bind [OF gives_or_fail [OF gives_lmots_param_ok [OF t]]], simp only: Let_def n header_36)
      ((rule gives_andthen, rule gives_reject_pass, simp add: len ty alg)+, rule body)
qed

lemma gives_derived_chain:
  assumes key: "param_pair (priv_lms_type priv) (priv_lmots_type priv) = Some (a, b)"
    and J: "length (priv_I priv) = 16" and seed: "priv_seed priv = seed"
    and derive: "\<And>s f. I s \<Longrightarrow> backend s = Some f \<Longrightarrow> derive_conf fl W seed f"
    and chain: "\<And>s f. I s \<Longrightarrow> chain_backend s = Some f \<Longrightarrow> chain_conf fl W f"
    and i: "i < 265" "steps \<le> 255" and alg: "alg = lp_hash_alg a"
  shows "gives fl I (derived_chain backend (chain_via chain_backend) priv alg q i steps)
    (Inr (ots_chain alg (priv_I priv) q i 0 steps (ots_x alg (priv_I priv) (priv_seed priv) q i)))"
    (is "gives fl I _ (Inr ?v)")
  unfolding derived_chain_def
proof (rule gives_dispatch)
  have pv: "gives fl I (lmots_private_value priv q i) (Inr (ots_x alg (priv_I priv) (priv_seed priv) q i))"
    using gives_private_value [OF key i(1)] by (simp add: alg)
  show "gives fl I (bind (or_fail LMS_ERR_INVALID (lmots_private_value priv q i)) (\<lambda>v.
      or_fail LMS_ERR_INVALID (chain_via chain_backend (priv_I priv) alg q i 0 steps v))) (Inr ?v)"
    by (rule gives_bind [OF gives_or_fail [OF pv]], rule gives_or_fail)
      (rule gives_chain_via [OF chain J], use i in simp_all)
  fix s f assume "I s" "backend s = Some f"
  then have v: "gives fl I (on_world (f (priv_I priv) alg q i 0 steps)) (Inr ?v)"
    using derive J i by (intro gives_on_world) (simp add: derive_conf_def seed)
  show "gives fl I (andthen count_call
     (bind (or_fail LMS_ERR_INVALID (on_world (f (priv_I priv) alg q i 0 steps))) (\<lambda>v.
      andthen (count_steps steps) (ret v)))) (Inr ?v)"
    by (rule gives_intros v)+
qed

lemma gives_public_from_private:
  assumes key: "param_pair (priv_lms_type priv) (priv_lmots_type priv) = Some (a, b)"
    and J: "length (priv_I priv) = 16" and seed: "priv_seed priv = seed"
  shows "gives fl I (lmots_public_from_private priv q)
    (Inr (ots_pub (op_hash_alg b) b (priv_I priv) (priv_seed priv) q))"
proof -
  have t: "lmots_params (priv_lmots_type priv) = Some b" and alg: "lp_hash_alg a = op_hash_alg b"
    using param_pairD [OF key] by simp_all
  note n = lmots_p_bounds [OF t]
  have soft: "gives fl I (bind (for_each (\<lambda>i.
        derived_chain keygen_derive_backend lmots_keygen_chain_compute priv (op_hash_alg b) q i (2 ^ op_w b - 1))
        [0..<op_p b]) (\<lambda>pub_buf.
      lms_hash_parts (priv_I priv @ lms_store_u32 q @ lms_store_u16 D_PBLC) (concat pub_buf) [] [] (op_hash_alg b)))
      (Inr (ots_pub (op_hash_alg b) b (priv_I priv) (priv_seed priv) q))"
    unfolding ots_pub_def lmots_keygen_chain_compute_def
    by (rule gives_bind [OF gives_for_each gives_ots_key [OF t J]],
        rule gives_derived_chain [OF key J seed keygen_derive keygen_chain])
      (use n alg in auto)
  have hw: "gives fl I (on_world (f (priv_I priv) (op_hash_alg b) q (priv_lmots_type priv)))
      (Inr (ots_pub (op_hash_alg b) b (priv_I priv) (priv_seed priv) q))"
    if "I s" "keygen_backend s = Some f" for s f
    using keygen [OF that] J t by (intro gives_on_world) (simp add: keygen_conf_def seed)
  show ?thesis unfolding lmots_public_from_private_def
    by (rule gives_bind [OF gives_or_fail [OF gives_lmots_param_ok [OF t]]],
        rule gives_bind [OF gives_or_fail [OF gives_private_hash_alg [OF key]]], unfold alg)
      (rule gives_dispatch [OF soft hw])
qed

lemma gives_sign_chains:
  assumes key: "param_pair (priv_lms_type priv) (priv_lmots_type priv) = Some (a, b)"
    and J: "length (priv_I priv) = 16" and seed: "priv_seed priv = seed"
  shows "gives fl I (for_each (\<lambda>i. derived_chain sign_derive_backend lmots_sign_chain_compute priv (op_hash_alg b) q i
        (unat (lms_lmots_coef (with_checksum Q b) i (op_w b)))) [0..<op_p b])
     (Inr (map (\<lambda>i. ots_chain (op_hash_alg b) (priv_I priv) q i 0 (ots_coefs b Q ! i)
        (ots_x (op_hash_alg b) (priv_I priv) (priv_seed priv) q i)) [0..<op_p b]))"
proof (rule gives_for_each)
  fix i assume "i \<in> set [0..<op_p b]"
  then have i: "i < op_p b" by simp
  have t: "lmots_params (priv_lmots_type priv) = Some b" using param_pairD [OF key] by simp
  have "ots_coefs b Q ! i \<le> 255"
    using ots_coef_bound [OF i, of Q] lmots_p_bounds(2) [OF t] by simp
  then show "gives fl I (derived_chain sign_derive_backend lmots_sign_chain_compute priv (op_hash_alg b) q i
        (unat (lms_lmots_coef (with_checksum Q b) i (op_w b))))
      (Inr (ots_chain (op_hash_alg b) (priv_I priv) q i 0 (ots_coefs b Q ! i)
        (ots_x (op_hash_alg b) (priv_I priv) (priv_seed priv) q i)))"
    unfolding lmots_coef_u8(1) [OF t i] nth_ots_coefs [OF i, symmetric] lmots_sign_chain_compute_def
    using gives_derived_chain [OF key J seed sign_derive sign_chain] i lmots_p_bounds(1) [OF t]
      param_pairD(3) [OF key] by simp
qed

lemma yields_sign:
  assumes key: "param_pair (priv_lms_type priv) (priv_lmots_type priv) = Some (a, b)"
    and J: "length (priv_I priv) = 16" and seed: "priv_seed priv = seed"
    and len: "36 + op_p b * 32 \<le> signature_len"
    and fit: "hash_fits heap (op_hash_alg b) (54 + length m)"
  shows "yields fl I (lmots_sign priv q m signature_len) (\<lambda>r. \<exists>C. length C = 32 \<and>
    r = Inr (lms_store_u32 (priv_lmots_type priv) @ C @
      ots_y (op_hash_alg b) b (priv_I priv) (priv_seed priv) q
        (ots_coefs b (ots_Q (op_hash_alg b) (priv_I priv) q C m))))"
    (is "yields fl I _ ?R")
proof -
  have t: "lmots_params (priv_lmots_type priv) = Some b" and alg: "lp_hash_alg a = op_hash_alg b"
    using param_pairD [OF key] by simp_all
  note n = lmots_p_bounds [OF t]
  let ?sig = "\<lambda>C. lms_store_u32 (priv_lmots_type priv) @ C @
      ots_y (op_hash_alg b) b (priv_I priv) (priv_seed priv) q
        (ots_coefs b (ots_Q (op_hash_alg b) (priv_I priv) q C m))"
  have body: "gives fl I (bind (lmots_coefficients (priv_I priv) (op_hash_alg b) q C m (priv_lmots_type priv) b)
     (\<lambda>(Q, coefficients). bind (look sign_backend) (\<lambda>sb. case sb of
          Some f \<Rightarrow> bind (on_world (f (priv_I priv) (op_hash_alg b) q (priv_lmots_type priv) coefficients)) (\<lambda>y.
            ret (lms_store_u32 (priv_lmots_type priv) @ C @ y))
        | None \<Rightarrow> bind (for_each (\<lambda>i. derived_chain sign_derive_backend lmots_sign_chain_compute priv
                      (op_hash_alg b) q i (unat (lms_lmots_coef Q i (op_w b)))) [0..<op_p b]) (\<lambda>ys.
            ret (lms_store_u32 (priv_lmots_type priv) @ C @ concat ys))))) (Inr (?sig C))"
    if C: "length C = 32" for C
  proof (rule gives_bind_yields [OF yields_coefficients [OF J C t refl fit]], clarsimp, rule gives_bind_look)
    fix Q s
    let ?Q = "ots_Q (op_hash_alg b) (priv_I priv) q C m"
    assume Q: "\<not> coef_hw \<longrightarrow> Q = with_checksum ?Q b" and s: "I s"
    show "gives fl I (case sign_backend s of
          Some f \<Rightarrow> bind (on_world (f (priv_I priv) (op_hash_alg b) q (priv_lmots_type priv) (ots_coefs b ?Q))) (\<lambda>y.
            ret (lms_store_u32 (priv_lmots_type priv) @ C @ y))
        | None \<Rightarrow> bind (for_each (\<lambda>i. derived_chain sign_derive_backend lmots_sign_chain_compute priv
                      (op_hash_alg b) q i (unat (lms_lmots_coef Q i (op_w b)))) [0..<op_p b]) (\<lambda>ys.
            ret (lms_store_u32 (priv_lmots_type priv) @ C @ concat ys))) (Inr (?sig C))"
    proof (cases "sign_backend s")
      case None
      then have Q': "Q = with_checksum ?Q b" using Q coef_consumers [OF s] by blast
      show ?thesis unfolding None option.case Q' ots_y_def
        by (rule gives_bind [OF gives_sign_chains [OF key J seed]]) (rule gives_ret)
    next
      case (Some f)
      then have "gives fl I (on_world (f (priv_I priv) (op_hash_alg b) q (priv_lmots_type priv) (ots_coefs b ?Q)))
          (Inr (ots_y (op_hash_alg b) b (priv_I priv) (priv_seed priv) q (ots_coefs b ?Q)))"
        using sign [OF s] J t by (intro gives_on_world) (simp add: sign_conf_def seed)
      then show ?thesis unfolding Some option.case by (rule gives_bind) (rule gives_ret)
    qed
  qed auto
  have R: "?R (Inr (?sig C))" if "length C = 32" for C using that by blast
  show ?thesis unfolding lmots_sign_def
    by (rule yields_bind_gives [OF gives_or_fail [OF gives_lmots_param_ok [OF t]]],
        rule yields_bind_gives [OF gives_or_fail [OF gives_private_hash_alg [OF key]]],
        unfold alg n(3) header_36, (rule yields_guard, use len in simp)+,
        rule yields_bind [OF yields_randomizer_or_fail [OF key J]])
      (auto intro!: yields_gives [OF body] R)
qed

lemma yields_sign_prepare:
  assumes key: "param_pair (priv_lms_type priv) (priv_lmots_type priv) = Some (a, b)"
    and J: "length (priv_I priv) = 16" and fit: "hash_fits heap (op_hash_alg b) (54 + length m)"
  shows "yields fl I (lmots_sign_prepare priv q m) (\<lambda>r. \<exists>C. length C = 32 \<and>
    r = Inr (C, ots_coefs b (ots_Q (op_hash_alg b) (priv_I priv) q C m)))"
proof -
  have t: "lmots_params (priv_lmots_type priv) = Some b" and alg: "lp_hash_alg a = op_hash_alg b"
    using param_pairD [OF key] by simp_all
  have body: "gives fl I (bind (lmots_coefficients (priv_I priv) (op_hash_alg b) q C m (priv_lmots_type priv) b)
      (\<lambda>(Q, coefficients). ret (C, coefficients))) (Inr (C, ots_coefs b (ots_Q (op_hash_alg b) (priv_I priv) q C m)))"
    if C: "length C = 32" for C
    by (rule gives_bind_yields [OF yields_coefficients [OF J C t refl fit]]) (auto intro: gives_ret)
  show ?thesis unfolding lmots_sign_prepare_def
    by (rule yields_bind_gives [OF gives_or_fail [OF gives_lmots_param_ok [OF t]]],
        rule yields_bind_gives [OF gives_or_fail [OF gives_private_hash_alg [OF key]]],
        unfold alg, rule yields_guard, simp,
        rule yields_bind [OF yields_randomizer_or_fail [OF key J]])
      (auto intro!: yields_gives [OF body])
qed

lemma gives_public_from_signature_prepare:
  assumes J: "length J = 16" and C: "length C = 32" and t: "lmots_params t = Some param"
    and alg: "alg = op_hash_alg param" and fit: "hash_fits heap alg (54 + length m)"
  shows "gives fl I (lmots_public_from_signature_prepare J alg q t m C)
    (Inr (ots_coefs param (ots_Q alg J q C m)))"
proof -
  have body: "gives fl I (bind (lmots_coefficients J alg q C m t param) (\<lambda>(Q, coefficients). ret coefficients))
      (Inr (ots_coefs param (ots_Q alg J q C m)))"
    by (rule gives_bind_yields [OF yields_coefficients [OF J C t alg fit]]) (auto intro: gives_ret)
  show ?thesis unfolding lmots_public_from_signature_prepare_def
    by (rule gives_bind [OF gives_or_fail [OF gives_lmots_param_ok [OF t]]], rule gives_andthen,
        rule gives_reject_pass, simp add: alg, rule body)
qed

end

section \<open>Conforming library states\<close>

text \<open>What is known of the environment: whether accelerators may fail, the worlds they work
  in, the seed they hold, the heap that \<open>malloc\<close> grants, whether a coefficient backend may
  be registered, and the keys (with their current leaf) an authentication-path backend serves.\<close>

record 'w lms_env =
  env_fails :: bool
  env_world :: "'w \<Rightarrow> bool"
  env_seed :: bytes
  env_heap :: nat
  env_coef :: bool
  env_serves :: "lms_private_key_t \<Rightarrow> bool"

definition ots_backends_conform :: "'w lms_env \<Rightarrow> 'w lms_lib \<Rightarrow> bool" where
  "ots_backends_conform E s \<longleftrightarrow>
     pred_option (chain_conf (env_fails E) (env_world E)) (keygen_chain_backend s)
   \<and> pred_option (chain_conf (env_fails E) (env_world E)) (verify_chain_backend s)
   \<and> pred_option (chain_conf (env_fails E) (env_world E)) (sign_chain_backend s)
   \<and> pred_option (derive_conf (env_fails E) (env_world E) (env_seed E)) (keygen_derive_backend s)
   \<and> pred_option (derive_conf (env_fails E) (env_world E) (env_seed E)) (sign_derive_backend s)
   \<and> pred_option (keygen_conf (env_fails E) (env_world E) (env_seed E)) (keygen_backend s)
   \<and> pred_option (sign_conf (env_fails E) (env_world E) (env_seed E)) (sign_backend s)
   \<and> pred_option (verify_conf (env_fails E) (env_world E)) (verify_backend s)
   \<and> pred_option (verify_leaf_conf (env_fails E) (env_world E)) (verify_leaf_backend s)
   \<and> pred_option (randomizer_conf (env_fails E) (env_world E)) (sign_randomizer_backend s)
   \<and> pred_option (message_hash_conf (env_fails E) (env_world E) (env_heap E)) (message_hash_backend s)
   \<and> pred_option (\<lambda>f. env_coef E \<and> coef_conf (env_fails E) (env_world E) (env_heap E) f) (coef_backend s)
   \<and> (env_coef E \<longrightarrow> sign_backend s \<noteq> None \<and> verify_backend s \<noteq> None)"

definition ots_conforming :: "'w lms_env \<Rightarrow> 'w lms_lib \<Rightarrow> bool" where
  "ots_conforming E s \<longleftrightarrow> plain_state (env_heap E) s \<and> env_world E (world s) \<and> ots_backends_conform E s"

interpretation ots: ots_library "ots_conforming E" "env_heap E" "env_fails E" "env_world E" "env_seed E" "env_coef E"
  for E
  by unfold_locales
    (auto simp: ots_conforming_def ots_backends_conform_def plain_state_def set_statics_def statics_ok_def
      haraka_ok_def)

section \<open>Properties\<close>

definition ots_key_ok :: "lms_private_key_t \<Rightarrow> bool" where
  "ots_key_ok priv \<longleftrightarrow> length (priv_I priv) = 16 \<and> length (priv_seed priv) = 32
     \<and> param_pair (priv_lms_type priv) (priv_lmots_type priv) \<noteq> None"

lemma ots_key_okD:
  assumes "ots_key_ok priv"
  obtains a b where "param_pair (priv_lms_type priv) (priv_lmots_type priv) = Some (a, b)"
    and "length (priv_I priv) = 16"
  using assms by (auto simp: ots_key_ok_def)

text \<open>A concrete key and an environment without accelerators, for the witnesses.\<close>

definition test_priv :: lms_private_key_t where
  "test_priv = \<lparr>priv_lms_type = LMS_SHA256_N32_H5, priv_lmots_type = LMOTS_SHA256_N32_W8,
     priv_I = replicate 16 7, priv_seed = replicate 32 9, priv_q = 0\<rparr>"

definition test_lms_param :: lms_param_t where
  "test_lms_param = \<lparr>lp_type = LMS_SHA256_N32_H5, lp_hash_alg = LMS_HASH_SHA256, lp_height = 5, lp_n = 32\<rparr>"

definition test_ots_param :: lmots_param_t where
  "test_ots_param = \<lparr>op_type = LMOTS_SHA256_N32_W8, op_hash_alg = LMS_HASH_SHA256, op_n = 32,
     op_w = 8, op_p = 34, op_ls = 0\<rparr>"

definition test_env :: "unit lms_env" where
  "test_env = \<lparr>env_fails = False, env_world = (\<lambda>_. True), env_seed = replicate 32 9, env_heap = 0,
     env_coef = False, env_serves = (\<lambda>_. True)\<rparr>"

lemma test_priv_facts:
  "ots_key_ok test_priv" "lmots_params (priv_lmots_type test_priv) = Some test_ots_param"
  "param_pair (priv_lms_type test_priv) (priv_lmots_type test_priv) = Some (test_lms_param, test_ots_param)"
  "env_seed test_env = priv_seed test_priv" "\<not> env_fails test_env" "env_heap test_env = 0"
  by (simp_all add: ots_key_ok_def test_priv_def test_ots_param_def test_lms_param_def test_env_def
      param_pair_def lms_params_def lmots_params_def lms_type_switch_def lmots_type_switch_def LMS_N_def)

lemma test_lib_conforming: "ots_conforming test_env hash_test_lib"
  by (simp add: ots_conforming_def ots_backends_conform_def plain_state_def statics_ok_def haraka_ok_def
      hash_test_lib_def test_env_def)

text \<open>
  C13. LM-OTS round trip across accelerators: whatever mix of conforming callbacks (or none)
  serves key generation, signing and verification, each in its own library state,
  \<open>lmots_sign\<close> succeeds and \<open>lmots_public_from_signature\<close> on its output returns exactly the
  public key \<open>lmots_public_from_private\<close> returns; the signature has the RFC 8554 length.
\<close>

theorem lmots_roundtrip:
  assumes key: "ots_key_ok priv" and t: "lmots_params (priv_lmots_type priv) = Some param"
    and s: "ots_conforming E s" "\<not> env_fails E" "env_seed E = priv_seed priv"
    and s': "ots_conforming E' s'" "\<not> env_fails E'" "env_seed E' = priv_seed priv"
    and s'': "ots_conforming E'' s''" "\<not> env_fails E''"
    and len: "36 + op_p param * 32 \<le> signature_len"
    and fit: "hash_fits (env_heap E) (op_hash_alg param) (54 + length m)"
      "hash_fits (env_heap E'') (op_hash_alg param) (54 + length m)"
  shows "\<exists>sig K. fst (lmots_public_from_private priv q s') = Inr K
    \<and> fst (lmots_sign priv q m signature_len s) = Inr sig
    \<and> length sig = 36 + op_p param * 32
    \<and> fst (lmots_public_from_signature (priv_I priv) (op_hash_alg param) q (priv_lmots_type priv) m sig s'') = Inr K"
proof -
  obtain a b where ab: "param_pair (priv_lms_type priv) (priv_lmots_type priv) = Some (a, b)"
    and J: "length (priv_I priv) = 16" using key by (rule ots_key_okD)
  have b: "b = param" using param_pairD(2) [OF ab] t by simp
  let ?K = "ots_pub (op_hash_alg param) param (priv_I priv) (priv_seed priv) q"
  have K: "fst (lmots_public_from_private priv q s') = Inr ?K"
    using yields_run(1) [OF ots.gives_public_from_private [OF ab J s'(3) [symmetric], of q, unfolded gives_def] s'(1)]
      s'(2) b by simp
  obtain C where C: "length C = 32" and sig: "fst (lmots_sign priv q m signature_len s) =
      Inr (lms_store_u32 (priv_lmots_type priv) @ C @ ots_y (op_hash_alg param) param (priv_I priv) (priv_seed priv) q
        (ots_coefs param (ots_Q (op_hash_alg param) (priv_I priv) q C m)))"
    using yields_run(1) [OF ots.yields_sign [OF ab J s(3) [symmetric], of signature_len m q] s(1)] s(2) len fit(1) b
    by auto
  let ?sig = "lms_store_u32 (priv_lmots_type priv) @ C @ ots_y (op_hash_alg param) param (priv_I priv) (priv_seed priv) q
        (ots_coefs param (ots_Q (op_hash_alg param) (priv_I priv) q C m))"
  have l: "length ?sig = 36 + op_p param * 32" using C by simp
  have parts: "segment 4 32 ?sig = C" "drop 36 ?sig = ots_y (op_hash_alg param) param (priv_I priv) (priv_seed priv) q
        (ots_coefs param (ots_Q (op_hash_alg param) (priv_I priv) q C m))"
    using C by simp_all
  have "fst (lmots_public_from_signature (priv_I priv) (op_hash_alg param) q (priv_lmots_type priv) m ?sig s'') = Inr ?K"
    using yields_run(1) [OF ots.gives_public_from_signature [OF J t refl l _ fit(2), of q, unfolded gives_def] s''(1)]
      s''(2) parts ots_candidate_of_signature [OF ots_coef_bound] by simp
  then show ?thesis using K sig l by blast
qed

text \<open>Witness of C13: an accelerator-free library and a short message.\<close>

theorem lmots_roundtrip_witness:
  "\<exists>sig K. fst (lmots_public_from_private test_priv 3 hash_test_lib) = Inr K
    \<and> fst (lmots_sign test_priv 3 [1, 2, 3] 1124 hash_test_lib) = Inr sig
    \<and> length sig = 1124
    \<and> fst (lmots_public_from_signature (priv_I test_priv) LMS_HASH_SHA256 3 LMOTS_SHA256_N32_W8 [1, 2, 3] sig
          hash_test_lib) = Inr K"
proof -
  have f: "hash_fits (env_heap test_env) (op_hash_alg test_ots_param) (54 + length [1 :: u8, 2, 3])"
    by (simp add: hash_fits_small)
  have l: "36 + op_p test_ots_param * 32 \<le> 1124" by (simp add: test_ots_param_def)
  note facts = test_priv_facts
  show ?thesis
    using lmots_roundtrip [OF facts(1,2) test_lib_conforming facts(5,4) test_lib_conforming facts(5,4)
        test_lib_conforming facts(5) l f f, of 3]
    by (simp add: test_ots_param_def test_priv_def)
qed

text \<open>
  Public-key recovery on every input, with callbacks that may not fail: wrong length and
  wrong hash function are refused as invalid, a wrong typecode as a verification failure, in
  that order, and otherwise the candidate key is the hash of all chains finished from the
  digits of the message digest under the signature's own randomizer.
\<close>

theorem lmots_public_from_signature_complete:
  assumes s: "ots_conforming E s" "\<not> env_fails E" and J: "length J = 16"
    and fit: "hash_fits (env_heap E) alg (54 + length m)"
  shows "fst (lmots_public_from_signature J alg q t m sig s) =
    (case lmots_params t of
       None \<Rightarrow> Inl LMS_ERR_INVALID
     | Some param \<Rightarrow>
         if length sig \<noteq> 36 + op_p param * 32 then Inl LMS_ERR_INVALID
         else if lms_load_u32 sig \<noteq> t then Inl LMS_ERR_VERIFY
         else if op_hash_alg param \<noteq> alg then Inl LMS_ERR_INVALID
         else Inr (ots_candidate alg param J q (ots_coefs param (ots_Q alg J q (segment 4 32 sig) m)) (drop 36 sig)))"
    (is "_ = ?r")
proof -
  have "gives False (ots_conforming E) (lmots_public_from_signature J alg q t m sig) ?r"
  proof (cases "lmots_params t")
    case None
    then have "gives False (ots_conforming E) (lms_get_lmots_param t) (Inl LMS_ERR_INVALID)"
      using ots.gives_get_lmots_param [where E = E and fl = False and t = t] by simp
    then show ?thesis unfolding lmots_public_from_signature_def None
      by (simp add: gives_bind_err [OF gives_or_fail_err])
  next
    case (Some param)
    note n = lmots_p_bounds(3) [OF Some]
    note start = gives_bind [OF gives_or_fail [OF ots.gives_lmots_param_ok [OF Some]]]
    consider "length sig \<noteq> 36 + op_p param * 32"
      | "length sig = 36 + op_p param * 32" "lms_load_u32 sig \<noteq> t"
      | "length sig = 36 + op_p param * 32" "lms_load_u32 sig = t" "op_hash_alg param \<noteq> alg"
      | "length sig = 36 + op_p param * 32" "lms_load_u32 sig = t" "op_hash_alg param = alg" by blast
    then show ?thesis
    proof cases
      case 1
      then show ?thesis unfolding lmots_public_from_signature_def
        by (intro start) (simp add: Some n gives_andthen_err gives_reject)
    next
      case 2
      then show ?thesis unfolding lmots_public_from_signature_def
        by (intro start) (simp add: Some n Let_def gives_andthen [OF gives_reject_pass] gives_andthen_err gives_reject)
    next
      case 3
      then show ?thesis unfolding lmots_public_from_signature_def
        by (intro start) (simp add: Some n Let_def gives_andthen [OF gives_reject_pass] gives_andthen_err gives_reject)
    next
      case 4
      then show ?thesis
        using ots.gives_public_from_signature [OF J Some _ 4(1,2) fit, of q] s(2) by (simp add: Some)
    qed
  qed
  then show ?thesis by (rule gives_run(1)) (rule s(1))
qed

text \<open>An instance: an empty signature and an unknown typecode.\<close>

theorem lmots_public_from_signature_complete_witness:
  "fst (lmots_public_from_signature (replicate 16 0) LMS_HASH_SHA256 0 LMOTS_SHA256_N32_W8 [] [] hash_test_lib)
     = Inl LMS_ERR_INVALID
   \<and> fst (lmots_public_from_signature (replicate 16 0) LMS_HASH_SHA256 0 LMOTS_SHA256_N32_W8 [] (replicate 1124 0)
       hash_test_lib) = Inl LMS_ERR_VERIFY"
proof -
  have f: "hash_fits (env_heap test_env) LMS_HASH_SHA256 (54 + length ([] :: bytes))" by (simp add: hash_fits_small)
  have z: "lms_load_u32 (replicate 1124 0) = 0" by (simp add: lms_load_u32_def)
  note c = lmots_public_from_signature_complete [OF test_lib_conforming test_priv_facts(5) _ f,
      where J = "replicate 16 0" and q = 0 and t = LMOTS_SHA256_N32_W8]
  show ?thesis using c [of "[]"] c [of "replicate 1124 0"] z
    by (simp add: lmots_params_def lmots_type_switch_def)
qed

lemma chain_loop_run:
  assumes "plain_state h s"
  shows "\<exists>s'. fold_each (\<lambda>j value.
        bind (or_fail LMS_ERR_INVALID
          (lms_hash alg (J @ lms_store_u32 q @ lms_store_u16 (word_of_nat i) @ [word_of_nat j] @ value) 32)) (\<lambda>value'.
        andthen (count_steps 1) (ret value'))) js v s = (Inr (fold (ots_step alg J q i) js v), s')
     \<and> plain_state h s'
     \<and> chain_stats s' = (chain_stats s)\<lparr>st_steps := st_steps (chain_stats s) + word_of_nat (length js)\<rparr>"
  using assms
proof (induction js arbitrary: v s)
  case Nil
  then show ?case by (simp add: op_defs)
next
  case (Cons j js)
  let ?m = "lms_hash alg (J @ lms_store_u32 q @ lms_store_u16 (word_of_nat i) @ [word_of_nat j] @ v) 32"
  have st: "chain_stats (snd (lms_hash alg x n s)) = chain_stats s" for x n
    by (cases alg) (auto simp: lms_hash_def hash_shake256_def hash_sha256_def hash_haraka_def
        ensure_haraka_initialized_def op_defs)
  obtain s1 where s1: "?m s = (Inr (ots_step alg J q i j v), s1)" "plain_state h s1"
    "chain_stats s1 = chain_stats s"
    using gives_run [OF plain.gives_hash Cons.prems] st by (metis ots_step_def prod.collapse)
  define s2 where "s2 = snd (count_steps 1 s1 :: (lms_status_t + unit) \<times> _)"
  have s2: "plain_state h s2"
    "chain_stats s2 = (chain_stats s)\<lparr>st_steps := st_steps (chain_stats s) + 1\<rparr>"
    using plain.I_chain_stats [OF s1(2)] s1(3) by (simp_all add: s2_def count_steps_def op_defs)
  have c: "count_steps 1 s1 = (Inr (), s2)" by (simp add: s2_def count_steps_def op_defs)
  show ?case using Cons.IH [OF s2(1), of "ots_step alg J q i j v"] s1(1) s2(2) c
    by (auto simp: op_defs)
qed

text \<open>
  One Winternitz chain in software, on every argument: indices and step ranges outside
  16 and 8 bits are refused without touching the statistics; otherwise the value is the
  chain of the reference and the counters advance by exactly one call and \<open>steps\<close> steps.
\<close>

theorem lmots_chain_compute_correct:
  assumes s: "plain_state h s"
  shows "if i > 65535 \<or> start + steps > 255
    then lmots_chain_compute J alg q i start steps v s = (Inl LMS_ERR_INVALID, s)
    else fst (lmots_chain_compute J alg q i start steps v s) = Inr (ots_chain alg J q i start steps v)
      \<and> chain_stats (snd (lmots_chain_compute J alg q i start steps v s)) =
          \<lparr>st_calls = st_calls (chain_stats s) + 1, st_steps = st_steps (chain_stats s) + word_of_nat steps\<rparr>"
proof (cases "i > 65535 \<or> start + steps > 255")
  case True
  then have "i > 0xFFFF \<or> start > 0xFF \<or> steps > 0xFF \<or> start + steps > 0xFF" by auto
  then show ?thesis using True by (simp only: lmots_chain_compute_def) (simp add: op_defs)
next
  case False
  define s1 where "s1 = snd (count_call s :: (lms_status_t + unit) \<times> _)"
  have s1: "plain_state h s1" "chain_stats s1 = (chain_stats s)\<lparr>st_calls := st_calls (chain_stats s) + 1\<rparr>"
    using plain.I_chain_stats [OF s] by (simp_all add: s1_def count_call_def op_defs)
  have c: "count_call s = (Inr (), s1)" by (simp add: s1_def count_call_def op_defs)
  show ?thesis
    using chain_loop_run [OF s1(1), of alg J q i "[start..<start + steps]" v] False s1(2) c
    by (auto simp: lmots_chain_compute_def LMS_N_def ots_chain_def op_defs)
qed

text \<open>An instance: two steps of chain 5, and a range that is refused.\<close>

theorem lmots_chain_compute_correct_witness:
  "fst (lmots_chain_compute [] LMS_HASH_SHA256 0 5 1 2 [] hash_test_lib) = Inr (ots_chain LMS_HASH_SHA256 [] 0 5 1 2 [])
   \<and> st_steps (chain_stats (snd (lmots_chain_compute [] LMS_HASH_SHA256 0 5 1 2 [] hash_test_lib))) = 2
   \<and> fst (lmots_chain_compute [] LMS_HASH_SHA256 0 5 200 56 [] hash_test_lib) = Inl LMS_ERR_INVALID"
proof -
  note s = test_lib_plain
  have z: "chain_stats hash_test_lib = \<lparr>st_calls = 0, st_steps = 0\<rparr>" by (simp add: hash_test_lib_def)
  show ?thesis
    using lmots_chain_compute_correct [OF s, of 5 1 2 "[]" LMS_HASH_SHA256 0 "[]"]
      lmots_chain_compute_correct [OF s, of 5 200 56 "[]" LMS_HASH_SHA256 0 "[]"] z by simp
qed

end
