(* ===== verification/Merkle.thy ===== *)
theory Merkle
  imports Prelude
begin

text \<open>
  Binary hash trees in heap order, apart from any hash function: node 1 is the root, node
  \<open>n\<close> has the children \<open>2 * n\<close> and \<open>2 * n + 1\<close>, the leaves of a tree of height \<open>h\<close> are
  the nodes \<open>2 ^ h, \<dots>, 2 ^ (h + 1) - 1\<close>. The theory gives the value of a node, the
  authentication path of a leaf and the climb from a leaf to the root, and shows that the
  climb along the true path ends in the root and that a different leaf with the same root
  needs a collision on the way.
\<close>

function merkle :: "nat \<Rightarrow> (nat \<Rightarrow> 'a) \<Rightarrow> (nat \<Rightarrow> 'a \<Rightarrow> 'a \<Rightarrow> 'a) \<Rightarrow> nat \<Rightarrow> 'a" where
  "merkle h leaf intr n =
     (if n = 0 \<or> 2 ^ h \<le> n then leaf n
      else intr n (merkle h leaf intr (2 * n)) (merkle h leaf intr (2 * n + 1)))"
  by pat_completeness auto
termination
  by (relation "measure (\<lambda>(h, leaf, intr, n). 2 ^ h - n)") auto

declare merkle.simps [simp del]

definition sibling :: "nat \<Rightarrow> nat" where
  "sibling n = (if even n then n + 1 else n - 1)"

definition auth_path :: "nat \<Rightarrow> (nat \<Rightarrow> 'a) \<Rightarrow> (nat \<Rightarrow> 'a \<Rightarrow> 'a \<Rightarrow> 'a) \<Rightarrow> nat \<Rightarrow> nat \<Rightarrow> 'a list" where
  "auth_path h leaf intr n k = map (\<lambda>i. merkle h leaf intr (sibling (n div 2 ^ i))) [0..<k]"

fun climb :: "(nat \<Rightarrow> 'a \<Rightarrow> 'a \<Rightarrow> 'a) \<Rightarrow> nat \<Rightarrow> 'a \<Rightarrow> 'a list \<Rightarrow> 'a" where
  "climb intr n v [] = v"
| "climb intr n v (s # ss) =
     climb intr (n div 2) (if even n then intr (n div 2) v s else intr (n div 2) s v) ss"

lemma merkle_leaf: "2 ^ h \<le> n \<Longrightarrow> merkle h leaf intr n = leaf n"
  by (simp add: merkle.simps)

lemma merkle_node:
  "0 < n \<Longrightarrow> n < 2 ^ h \<Longrightarrow>
     merkle h leaf intr n = intr n (merkle h leaf intr (2 * n)) (merkle h leaf intr (2 * n + 1))"
  by (subst merkle.simps) simp

lemma length_auth_path [simp, len_simps]: "length (auth_path h leaf intr n k) = k"
  by (simp add: auth_path_def)

lemma auth_path_Suc:
  "auth_path h leaf intr n (Suc k) = merkle h leaf intr (sibling n) # auth_path h leaf intr (n div 2) k"
  by (simp add: auth_path_def upt_rec [of 0 "Suc k"] map_Suc_upt [symmetric] div_mult2_eq comp_def
      del: upt_Suc)

lemma even_unat: "even (unat (x :: 'a :: len word)) \<longleftrightarrow> even x"
proof -
  have "bit (unat x) 0 \<longleftrightarrow> bit x 0" by (simp only: bit_unsigned_iff) simp
  then show ?thesis by (simp only: bit_0) blast
qed

lemma unat_xor_one: "unat (x XOR 1) = sibling (unat (x :: u32))"
proof (cases "even x")
  case True
  then have "x XOR 1 = 1 + x" by (simp add: xor_one_eq)
  moreover have "1 + x \<noteq> 0" using True by (metis even_add odd_one even_zero)
  then have "unat (1 + x) = unat x + 1" by (simp add: unatSuc)
  ultimately show ?thesis using True by (simp add: sibling_def even_unat)
next
  case False
  then have "x XOR 1 = x - 1" by (simp add: xor_one_eq)
  moreover have "x \<noteq> 0" using False by auto
  then have "unat (x - 1) = unat x - 1" by (simp add: unat_minus_one)
  ultimately show ?thesis using False by (simp add: sibling_def even_unat)
qed

lemma merkle_parent:
  assumes "1 < n" and "n < 2 ^ Suc h"
  shows "merkle h leaf intr (n div 2) =
    (if even n then intr (n div 2) (merkle h leaf intr n) (merkle h leaf intr (sibling n))
     else intr (n div 2) (merkle h leaf intr (sibling n)) (merkle h leaf intr n))"
proof -
  have "0 < n div 2" "n div 2 < 2 ^ h" using assms by (simp_all add: less_mult_imp_div_less)
  from merkle_node [OF this, of leaf intr] show ?thesis
    by (cases "even n") (auto simp: sibling_def elim!: evenE oddE)
qed

lemma climb_auth_path:
  assumes "2 ^ k \<le> n" and "n < 2 ^ Suc h"
  shows "climb intr n (merkle h leaf intr n) (auth_path h leaf intr n k) = merkle h leaf intr (n div 2 ^ k)"
  using assms
proof (induction k arbitrary: n)
  case 0
  then show ?case by (simp add: auth_path_def)
next
  case (Suc k)
  have n: "1 < n" using Suc.prems(1) one_less_power [of "2 :: nat" "Suc k"] by linarith
  have "2 ^ k \<le> n div 2" "n div 2 < 2 ^ Suc h" using Suc.prems by auto
  from Suc.IH [OF this] show ?case
    using merkle_parent [OF n Suc.prems(2), of leaf intr] by (simp add: auth_path_Suc div_mult2_eq)
qed

text \<open>Binding: the level of the first collision on two climbs that meet in one root.\<close>

definition climb_pair :: "(nat \<Rightarrow> 'a \<Rightarrow> 'a \<Rightarrow> 'a) \<Rightarrow> nat \<Rightarrow> 'a \<Rightarrow> 'a list \<Rightarrow> nat \<Rightarrow> 'a \<times> 'a" where
  "climb_pair intr n v p i =
     (let x = climb intr n v (take i p)
      in if even (n div 2 ^ i) then (x, p ! i) else (p ! i, x))"

lemma climb_append: "climb intr n v (p @ q) = climb intr (n div 2 ^ length p) (climb intr n v p) q"
  by (induction p arbitrary: n v) (auto simp: div_mult2_eq)

lemma climb_take_Suc:
  assumes "i < length p"
  shows "climb intr n v (take (Suc i) p) =
    intr (n div 2 ^ Suc i) (fst (climb_pair intr n v p i)) (snd (climb_pair intr n v p i))"
proof -
  have "length (take i p) = i" using assms by simp
  moreover have "n div 2 ^ i div 2 = n div 2 ^ Suc i" by (metis div_mult2_eq power_Suc2)
  ultimately show ?thesis using assms
    by (auto simp: take_Suc_conv_app_nth climb_append climb_pair_def Let_def simp del: power_Suc)
qed

lemma climb_binding:
  assumes "climb intr n v p = climb intr n v' p'" and "length p' = length p" and "v \<noteq> v'"
  shows "\<exists>i < length p. climb_pair intr n v p i \<noteq> climb_pair intr n v' p' i
     \<and> intr (n div 2 ^ Suc i) (fst (climb_pair intr n v p i)) (snd (climb_pair intr n v p i))
       = intr (n div 2 ^ Suc i) (fst (climb_pair intr n v' p' i)) (snd (climb_pair intr n v' p' i))"
proof -
  let ?eq = "\<lambda>i. climb intr n v (take i p) = climb intr n v' (take i p')"
  have "\<exists>i < length p. \<not> ?eq i \<and> ?eq (Suc i)"
  proof (rule ccontr)
    assume none: "\<not> ?thesis"
    have "\<not> ?eq i" if "i \<le> length p" for i
      using that
    proof (induction i)
      case 0
      then show ?case using assms(3) by simp
    next
      case (Suc i)
      then show ?case using none Suc_le_lessD Suc_leD by blast
    qed
    from this [of "length p"] show False using assms by simp
  qed
  then obtain i where i: "i < length p" "\<not> ?eq i" "?eq (Suc i)" by blast
  then have "climb_pair intr n v p i \<noteq> climb_pair intr n v' p' i"
    by (auto simp: climb_pair_def Let_def)
  then show ?thesis
    using i(1,3) climb_take_Suc [of i p intr n v] climb_take_Suc [of i p' intr n v'] assms(2) by auto
qed

end
