(* ===== verification/Lms_Tree.thy ===== *)
theory Lms_Tree
  imports Lm_Ots Merkle
begin

text \<open>
  \<open>src/lms_tree.c\<close>: leaves, internal nodes and the recursive node computation
  \<open>lms_tree_node\<close>, with the proof that it returns the node of the Merkle tree over the
  LM-OTS public keys, for every node of the tree.
\<close>

section \<open>The code\<close>

definition lms_leaf :: "lms_private_key_t \<Rightarrow> u32 \<Rightarrow> ('w, bytes) lop" where
  "lms_leaf priv q =
     bind (or_fail LMS_ERR_INVALID (lms_get_lms_param (priv_lms_type priv))) (\<lambda>lms_param.
     bind (or_fail LMS_ERR_INVALID (lms_get_private_hash_alg priv)) (\<lambda>hash_alg.
     let node_num = push_bit (lp_height lms_param) 1 + q
     in bind (or_fail LMS_ERR_INVALID (lmots_public_from_private priv q)) (\<lambda>ots_pub.
        lms_hash_parts (priv_I priv @ lms_store_u32 node_num @ lms_store_u16 D_LEAF) ots_pub [] [] hash_alg)))"

definition lms_internal_node :: "bytes \<Rightarrow> lms_hash_alg_t \<Rightarrow> u32 \<Rightarrow> bytes \<Rightarrow> bytes \<Rightarrow> ('w, bytes) lop" where
  "lms_internal_node I hash_alg node_num left right =
     bind lms_intr_backend_available (\<lambda>available.
     if available then lms_intr_backend_run I hash_alg node_num left right
     else lms_hash_parts (I @ lms_store_u32 node_num @ lms_store_u16 D_INTR) left right [] hash_alg)"

text \<open>
  \<open>if (lms_tree_node(..) != LMS_OK) return LMS_ERR_INVALID;\<close> around a recursive call: an error
  becomes \<open>LMS_ERR_INVALID\<close>, a call that never returns never gets there.
\<close>

definition or_fail_call :: "lms_status_t \<Rightarrow> ('w, 'a) lop \<Rightarrow> ('w, 'a) lop" where
  "or_fail_call e m = (\<lambda>s. case m s of
       (Inl d, s') \<Rightarrow> (Inl (if d = LMS_NO_RETURN then LMS_NO_RETURN else e), s')
     | (Inr x, s') \<Rightarrow> (Inr x, s'))"

text \<open>
  The recursion of \<open>lms_tree_node\<close> with a bound on its depth. A node number at least 1
  doubles with every level, so it reaches the leaves after at most 25 levels; node 0 is its
  own left child and the C function would never return.
\<close>

fun lms_tree_node_rec :: "nat \<Rightarrow> lms_private_key_t \<Rightarrow> u32 \<Rightarrow> ('w, bytes) lop" where
  "lms_tree_node_rec 0 priv node_num = fail LMS_NO_RETURN"
| "lms_tree_node_rec (Suc depth) priv node_num =
     bind (or_fail LMS_ERR_INVALID (lms_get_lms_param (priv_lms_type priv))) (\<lambda>lms_param.
     bind (or_fail LMS_ERR_INVALID (lms_get_private_hash_alg priv)) (\<lambda>hash_alg.
     let leaf_base = push_bit (lp_height lms_param) 1
     in if node_num \<ge> leaf_base then lms_leaf priv (node_num - leaf_base)
        else
          bind (or_fail_call LMS_ERR_INVALID (lms_tree_node_rec depth priv (node_num * 2))) (\<lambda>left.
          bind (or_fail_call LMS_ERR_INVALID (lms_tree_node_rec depth priv (node_num * 2 + 1))) (\<lambda>right.
          lms_internal_node (priv_I priv) hash_alg node_num left right))))"

definition LMS_TREE_DEPTH :: nat where "LMS_TREE_DEPTH = 26"

definition lms_tree_node :: "lms_private_key_t \<Rightarrow> u32 \<Rightarrow> ('w, bytes) lop" where
  "lms_tree_node priv node_num = lms_tree_node_rec LMS_TREE_DEPTH priv node_num"

section \<open>Reference tree\<close>

definition lms_intr_hash :: "lms_hash_alg_t \<Rightarrow> bytes \<Rightarrow> u32 \<Rightarrow> bytes \<Rightarrow> bytes \<Rightarrow> bytes" where
  "lms_intr_hash alg I node_num left right =
     lms_digest alg (I @ lms_store_u32 node_num @ lms_store_u16 D_INTR @ left @ right)"

definition lms_leaf_at :: "lms_param_t \<Rightarrow> lmots_param_t \<Rightarrow> bytes \<Rightarrow> bytes \<Rightarrow> nat \<Rightarrow> bytes" where
  "lms_leaf_at a b I seed n =
     lms_leaf_hash (op_hash_alg b) I (word_of_nat n)
       (ots_pub (op_hash_alg b) b I seed (word_of_nat (n - 2 ^ lp_height a)))"

definition lms_intr_at :: "lms_hash_alg_t \<Rightarrow> bytes \<Rightarrow> nat \<Rightarrow> bytes \<Rightarrow> bytes \<Rightarrow> bytes" where
  "lms_intr_at alg I n = lms_intr_hash alg I (word_of_nat n)"

definition lms_node :: "lms_param_t \<Rightarrow> lmots_param_t \<Rightarrow> bytes \<Rightarrow> bytes \<Rightarrow> nat \<Rightarrow> bytes" where
  "lms_node a b I seed n =
     merkle (lp_height a) (lms_leaf_at a b I seed) (lms_intr_at (op_hash_alg b) I) n"

lemma length_lms_intr_hash [simp, len_simps]: "length (lms_intr_hash alg I n l r) = 32"
  by (simp add: lms_intr_hash_def)

lemma length_lms_intr_at [simp, len_simps]: "length (lms_intr_at alg I n l r) = 32"
  by (simp add: lms_intr_at_def)

lemma length_lms_leaf_hash [simp, len_simps]: "length (lms_leaf_hash alg I n p) = 32"
  by (simp add: lms_leaf_hash_def)

lemma length_lms_leaf_at [simp, len_simps]: "length (lms_leaf_at a b I seed n) = 32"
  by (simp add: lms_leaf_at_def)

lemma length_lms_node [simp, len_simps]: "length (lms_node a b I seed n) = 32"
  unfolding lms_node_def by (subst merkle.simps) simp

definition intr_conf :: "bool \<Rightarrow> ('w \<Rightarrow> bool) \<Rightarrow> 'w lms_intr_backend_fn \<Rightarrow> bool" where
  "intr_conf fl W f \<longleftrightarrow> (\<forall>I alg node_num l r.
     length I = 16 \<and> length l = 32 \<and> length r = 32 \<longrightarrow>
     gives fl W (f I alg node_num l r) (Inr (lms_intr_hash alg I node_num l r)))"

lemma gives_or_fail_call: "gives fl I m (Inr x) \<Longrightarrow> gives fl I (or_fail_call e m) (Inr x)"
  by (fastforce simp: gives_def yields_def or_fail_call_def split: prod.splits sum.splits)

lemma gives_or_fail_call_diverges:
  assumes "gives False I m (Inl LMS_NO_RETURN)"
  shows "gives False I (or_fail_call e m) (Inl LMS_NO_RETURN)"
proof (rule givesI)
  fix s assume s: "I s"
  then obtain s' where "m s = (Inl LMS_NO_RETURN, s')" "I s'"
    using gives_run [OF assms s] by (metis prod.collapse)
  then show "fst (or_fail_call e m s) = Inl LMS_NO_RETURN \<or> False \<and> isl (fst (or_fail_call e m s))"
    and "I (snd (or_fail_call e m s))"
    by (simp_all add: or_fail_call_def)
qed

lemma lp_height_bounds:
  assumes "lms_params t = Some a"
  shows "lp_height a \<le> 25" and "0 < lp_height a" and "lp_n a = 32"
  using lms_param_cases [OF assms] by auto

lemma unat_leaf_base: "h \<le> 25 \<Longrightarrow> unat (push_bit h 1 :: u32) = 2 ^ h"
  using unat_of_nat_u32 [of "2 ^ h"] power_strict_increasing [of h 32 "2 :: nat"] by (simp add: push_bit_of_1)

lemma unat_double:
  assumes "unat (n :: u32) < 2 ^ 26"
  shows "unat (n * 2) = 2 * unat n" and "unat (n * 2 + 1) = 2 * unat n + 1"
proof -
  have "n * 2 = word_of_nat (2 * unat n)" "n * 2 + 1 = word_of_nat (2 * unat n + 1)"
    by (simp_all add: algebra_simps)
  then show "unat (n * 2) = 2 * unat n" and "unat (n * 2 + 1) = 2 * unat n + 1"
    using assms unat_of_nat_u32 [of "2 * unat n"] unat_of_nat_u32 [of "2 * unat n + 1"] by (simp_all add: algebra_simps)
qed

lemma lms_internal_node_dispatch:
  "lms_internal_node I alg node_num l r =
     bind (look intr_backend) (\<lambda>b. case b of
         None \<Rightarrow> lms_hash_parts (I @ lms_store_u32 node_num @ lms_store_u16 D_INTR) l r [] alg
       | Some f \<Rightarrow> on_world (f I alg node_num l r))"
  by (rule ext) (auto simp: lms_internal_node_def lms_intr_backend_available_def lms_intr_backend_run_def
      op_defs split: option.split)

section \<open>Running under conforming callbacks\<close>

locale tree_library = ots_library +
  assumes intr: "I s \<Longrightarrow> intr_backend s = Some f10 \<Longrightarrow> intr_conf fl W f10"
begin

lemma gives_internal_node:
  assumes "length J = 16" and "length l = 32" and "length r = 32"
  shows "gives fl I (lms_internal_node J alg node_num l r) (Inr (lms_intr_hash alg J node_num l r))"
  unfolding lms_internal_node_dispatch
proof (rule gives_dispatch)
  show "gives fl I (lms_hash_parts (J @ lms_store_u32 node_num @ lms_store_u16 D_INTR) l r [] alg)
      (Inr (lms_intr_hash alg J node_num l r))"
    using gives_hash_parts [of alg "J @ lms_store_u32 node_num @ lms_store_u16 D_INTR" l r "[]"] assms
    by (simp add: lms_intr_hash_def hash_fits_small)
  fix s f assume "I s" "intr_backend s = Some f"
  then show "gives fl I (on_world (f J alg node_num l r)) (Inr (lms_intr_hash alg J node_num l r))"
    using intr assms by (intro gives_on_world) (simp add: intr_conf_def)
qed

lemma gives_leaf:
  assumes key: "param_pair (priv_lms_type priv) (priv_lmots_type priv) = Some (a, b)"
    and J: "length (priv_I priv) = 16" and seed: "priv_seed priv = seed"
  shows "gives fl I (lms_leaf priv q)
    (Inr (lms_leaf_hash (op_hash_alg b) (priv_I priv) (push_bit (lp_height a) 1 + q)
       (ots_pub (op_hash_alg b) b (priv_I priv) (priv_seed priv) q)))"
  unfolding lms_leaf_def
  by (rule gives_bind [OF gives_or_fail [OF gives_lms_param_ok [OF param_pairD(1) [OF key]]]],
      rule gives_bind [OF gives_or_fail [OF gives_private_hash_alg [OF key]]], unfold Let_def param_pairD(3) [OF key],
      rule gives_bind [OF gives_or_fail [OF gives_public_from_private [OF assms]]])
    (rule gives_leaf_hash [OF J], simp)

lemma gives_tree_node_leaf:
  assumes key: "param_pair (priv_lms_type priv) (priv_lmots_type priv) = Some (a, b)"
    and J: "length (priv_I priv) = 16" and seed: "priv_seed priv = seed"
    and n: "2 ^ lp_height a \<le> unat node_num"
  shows "gives fl I (lms_tree_node_rec (Suc depth) priv node_num)
    (Inr (lms_node a b (priv_I priv) (priv_seed priv) (unat node_num)))"
proof -
  note h = lp_height_bounds(1) [OF param_pairD(1) [OF key]]
  have le: "push_bit (lp_height a) 1 \<le> node_num" using n by (simp only: word_le_nat_alt unat_leaf_base [OF h])
  have q: "word_of_nat (unat node_num - 2 ^ lp_height a) = node_num - push_bit (lp_height a) 1"
    using n by (simp add: of_nat_diff push_bit_of_1)
  have "lms_node a b (priv_I priv) (priv_seed priv) (unat node_num) =
      lms_leaf_hash (op_hash_alg b) (priv_I priv) (push_bit (lp_height a) 1 + (node_num - push_bit (lp_height a) 1))
        (ots_pub (op_hash_alg b) b (priv_I priv) (priv_seed priv) (node_num - push_bit (lp_height a) 1))"
    using n by (simp add: lms_node_def merkle_leaf lms_leaf_at_def q)
  then show ?thesis using le gives_leaf [OF key J seed, of "node_num - push_bit (lp_height a) 1"]
    by (auto simp: Let_def intro!: gives_bind [OF gives_or_fail [OF gives_lms_param_ok [OF param_pairD(1) [OF key]]]]
        gives_bind [OF gives_or_fail [OF gives_private_hash_alg [OF key]]])
qed

lemma gives_tree_node_inner:
  assumes key: "param_pair (priv_lms_type priv) (priv_lmots_type priv) = Some (a, b)"
    and J: "length (priv_I priv) = 16"
    and n: "0 < unat node_num" "unat node_num < 2 ^ lp_height a"
    and left: "gives fl I (lms_tree_node_rec depth priv (node_num * 2))
      (Inr (lms_node a b (priv_I priv) (priv_seed priv) (2 * unat node_num)))"
    and right: "gives fl I (lms_tree_node_rec depth priv (node_num * 2 + 1))
      (Inr (lms_node a b (priv_I priv) (priv_seed priv) (2 * unat node_num + 1)))"
  shows "gives fl I (lms_tree_node_rec (Suc depth) priv node_num)
    (Inr (lms_node a b (priv_I priv) (priv_seed priv) (unat node_num)))"
proof -
  note h = lp_height_bounds(1) [OF param_pairD(1) [OF key]]
  have nle: "\<not> push_bit (lp_height a) 1 \<le> node_num"
    using n by (simp only: word_le_nat_alt unat_leaf_base [OF h])
  let ?l = "lms_node a b (priv_I priv) (priv_seed priv) (2 * unat node_num)"
    and ?r = "lms_node a b (priv_I priv) (priv_seed priv) (2 * unat node_num + 1)"
  have node: "lms_node a b (priv_I priv) (priv_seed priv) (unat node_num) =
      lms_intr_hash (op_hash_alg b) (priv_I priv) node_num ?l ?r"
    using merkle_node [OF n, of "lms_leaf_at a b (priv_I priv) (priv_seed priv)" "lms_intr_at (op_hash_alg b) (priv_I priv)"]
    by (simp add: lms_node_def lms_intr_at_def)
  show ?thesis unfolding node lms_tree_node_rec.simps
    by (rule gives_bind [OF gives_or_fail [OF gives_lms_param_ok [OF param_pairD(1) [OF key]]]],
        rule gives_bind [OF gives_or_fail [OF gives_private_hash_alg [OF key]]],
        simp only: Let_def nle if_False param_pairD(3) [OF key],
        rule gives_bind [OF gives_or_fail_call [OF left]],
        rule gives_bind [OF gives_or_fail_call [OF right]])
      (rule gives_internal_node [OF J], simp_all)
qed

lemma gives_tree_node_rec:
  assumes key: "param_pair (priv_lms_type priv) (priv_lmots_type priv) = Some (a, b)"
    and J: "length (priv_I priv) = 16" and seed: "priv_seed priv = seed"
    and "0 < unat node_num" and "unat node_num < 2 ^ Suc (lp_height a)"
    and "2 ^ lp_height a \<le> unat node_num * 2 ^ depth"
  shows "gives fl I (lms_tree_node_rec (Suc depth) priv node_num)
    (Inr (lms_node a b (priv_I priv) (priv_seed priv) (unat node_num)))"
  using assms(4-6)
proof (induction depth arbitrary: node_num)
  case 0
  then show ?case by (intro gives_tree_node_leaf [OF key J seed]) simp
next
  case (Suc depth)
  show ?case
  proof (cases "2 ^ lp_height a \<le> unat node_num")
    case True
    then show ?thesis by (rule gives_tree_node_leaf [OF key J seed])
  next
    case False
    have "2 * 2 ^ lp_height a \<le> (2 :: nat) ^ 26"
      using power_increasing [of "Suc (lp_height a)" 26 "2 :: nat"]
        lp_height_bounds(1) [OF param_pairD(1) [OF key]] by simp
    then have u: "unat (node_num * 2) = 2 * unat node_num" "unat (node_num * 2 + 1) = 2 * unat node_num + 1"
      using False unat_double by auto
    have "2 ^ lp_height a \<le> 2 * unat node_num * 2 ^ depth" using Suc.prems(3) by (simp add: mult_ac)
    moreover have "\<dots> \<le> (2 * unat node_num + 1) * 2 ^ depth" by (intro mult_le_mono1) simp
    ultimately have d: "2 ^ lp_height a \<le> unat (node_num * 2) * 2 ^ depth"
      "2 ^ lp_height a \<le> unat (node_num * 2 + 1) * 2 ^ depth" unfolding u by linarith+
    show ?thesis
      using Suc.IH [OF _ _ d(1)] Suc.IH [OF _ _ d(2)] False Suc.prems(1)
      by (intro gives_tree_node_inner [OF key J]) (simp_all add: u)
  qed
qed

lemma gives_tree_node:
  assumes key: "param_pair (priv_lms_type priv) (priv_lmots_type priv) = Some (a, b)"
    and J: "length (priv_I priv) = 16" and seed: "priv_seed priv = seed"
    and n: "0 < unat node_num" "unat node_num < 2 ^ Suc (lp_height a)"
  shows "gives fl I (lms_tree_node priv node_num)
    (Inr (lms_node a b (priv_I priv) (priv_seed priv) (unat node_num)))"
proof -
  have "2 ^ lp_height a \<le> (2 :: nat) ^ 25"
    using lp_height_bounds(1) [OF param_pairD(1) [OF key]] by (rule power_increasing) simp
  also have "\<dots> \<le> unat node_num * 2 ^ 25" using n(1) by simp
  finally have "gives fl I (lms_tree_node_rec (Suc 25) priv node_num)
      (Inr (lms_node a b (priv_I priv) (priv_seed priv) (unat node_num)))" by (rule gives_tree_node_rec [OF assms])
  moreover have "LMS_TREE_DEPTH = Suc 25" by (simp add: LMS_TREE_DEPTH_def)
  ultimately show ?thesis by (simp only: lms_tree_node_def)
qed

end

definition tree_conforming :: "'w lms_env \<Rightarrow> 'w lms_lib \<Rightarrow> bool" where
  "tree_conforming E s \<longleftrightarrow> ots_conforming E s
     \<and> pred_option (intr_conf (env_fails E) (env_world E)) (intr_backend s)"

interpretation tree: tree_library "tree_conforming E" "env_heap E" "env_fails E" "env_world E" "env_seed E" "env_coef E"
  for E
  by unfold_locales
    (auto simp: tree_conforming_def ots_conforming_def ots_backends_conform_def plain_state_def
      set_statics_def statics_ok_def haraka_ok_def)

section \<open>Properties\<close>

text \<open>
  C14. \<open>lms_tree_node\<close> terminates and is right on the whole tree: for every node number from
  1 to the last leaf, with any conforming accelerators, it returns the node of the Merkle
  tree whose leaves hash the LM-OTS public keys (the recursion depth of 26 is enough).
\<close>

theorem lms_tree_node_correct:
  assumes "tree_conforming E s" and "\<not> env_fails E" and "env_seed E = priv_seed priv"
    and "param_pair (priv_lms_type priv) (priv_lmots_type priv) = Some (a, b)"
    and "length (priv_I priv) = 16"
    and "0 < unat node_num" and "unat node_num < 2 ^ Suc (lp_height a)"
  shows "fst (lms_tree_node priv node_num s) = Inr (lms_node a b (priv_I priv) (priv_seed priv) (unat node_num))"
  using yields_run(1) [OF tree.gives_tree_node [OF assms(4,5) assms(3) [symmetric] assms(6,7), unfolded gives_def]
      assms(1)] assms(2) by simp

lemma test_lib_tree_conforming: "tree_conforming test_env hash_test_lib"
  using test_lib_conforming by (simp add: tree_conforming_def) (simp add: hash_test_lib_def)

text \<open>Witness of C14: the root of a tree of height 5.\<close>

theorem lms_tree_node_correct_witness:
  "fst (lms_tree_node test_priv 1 hash_test_lib) =
     Inr (lms_node test_lms_param test_ots_param (replicate 16 7) (replicate 32 9) 1)"
  using lms_tree_node_correct [OF test_lib_tree_conforming test_priv_facts(5,4,3), of 1]
  by (simp add: test_priv_def test_lms_param_def)

text \<open>
  Node 0 is outside the tree: with valid parameters the recursion never returns, at any
  depth; the callers below never ask for it.
\<close>

theorem lms_tree_node_zero_diverges:
  fixes s :: "'w lms_lib"
  assumes "plain_state h s"
    and "param_pair (priv_lms_type priv) (priv_lmots_type priv) = Some (a, b)"
  shows "fst (lms_tree_node_rec depth priv 0 s) = Inl LMS_NO_RETURN"
proof -
  have key: "param_pair (priv_lms_type priv) (priv_lmots_type priv) = Some (a, b)" by (rule assms(2))
  have nle: "\<not> push_bit (lp_height a) 1 \<le> (0 :: u32)"
    using lp_height_bounds(1) [OF param_pairD(1) [OF key]] by (simp only: word_le_nat_alt unat_leaf_base) simp
  have "gives False (plain_state h :: 'w lms_lib \<Rightarrow> bool) (lms_tree_node_rec depth priv 0) (Inl LMS_NO_RETURN)"
  proof (induction depth)
    case 0
    show ?case by (simp add: gives_fail)
  next
    case (Suc depth)
    then have rec: "gives False (plain_state h :: 'w lms_lib \<Rightarrow> bool)
        (or_fail_call LMS_ERR_INVALID (lms_tree_node_rec depth priv (0 * 2))) (Inl LMS_NO_RETURN)"
      by (simp add: gives_or_fail_call_diverges)
    show ?case unfolding lms_tree_node_rec.simps
      by (rule gives_bind [OF gives_or_fail [OF plain.gives_lms_param_ok [OF param_pairD(1) [OF key]]]],
          rule gives_bind [OF gives_or_fail [OF plain.gives_private_hash_alg [OF key]]],
          simp only: Let_def nle if_False, rule gives_bind_err [OF rec])
  qed
  then show ?thesis by (rule gives_run(1)) (rule assms(1))
qed

text \<open>The test key is one for which it does not return.\<close>

theorem lms_tree_node_zero_diverges_witness:
  "fst (lms_tree_node_rec 1000 test_priv 0 hash_test_lib) = Inl LMS_NO_RETURN"
  by (rule lms_tree_node_zero_diverges [OF test_lib_plain test_priv_facts(3)])

end
