(* ===== verification/Lms_Sign.thy ===== *)
theory Lms_Sign
  imports Lms_Tree
begin

text \<open>
  \<open>src/lms_sign.c\<close>: \<open>lms_do_sign\<close> with the default authentication path (one
  \<open>lms_tree_node\<close> per sibling) and the registered authentication-path backend.
\<close>

section \<open>The code\<close>

definition lms_auth_path_backend_set :: "'w lms_auth_path_backend_fn option \<Rightarrow> ('w, unit) lop" where
  "lms_auth_path_backend_set backend = modify (\<lambda>s. s\<lparr>auth_path_backend := backend\<rparr>)"

text \<open>The default loop over the levels: \<open>sibling = node_num ^ 1; node_num /= 2\<close>.\<close>

fun lms_default_path :: "nat \<Rightarrow> lms_private_key_t \<Rightarrow> u32 \<Rightarrow> ('w, bytes) lop" where
  "lms_default_path 0 priv node_num = ret []"
| "lms_default_path (Suc levels) priv node_num =
     bind (or_fail LMS_ERR_INVALID (lms_tree_node priv (node_num XOR 1))) (\<lambda>sib.
     bind (lms_default_path levels priv (node_num div 2)) (\<lambda>path.
     ret (sib @ path)))"

text \<open>\<open>lms_do_sign\<close> returns the private key with its counter advanced, the signature bytes and
  \<open>*written\<close>; on an error the key is unchanged.\<close>

definition lms_do_sign :: "lms_private_key_t \<Rightarrow> bytes \<Rightarrow> nat \<Rightarrow> ('w, lms_private_key_t \<times> bytes \<times> nat) lop" where
  "lms_do_sign priv message signature_len =
     bind (or_fail LMS_ERR_INVALID (lms_get_lms_param (priv_lms_type priv))) (\<lambda>lms_param.
     bind (or_fail LMS_ERR_INVALID (lms_get_lmots_param (priv_lmots_type priv))) (\<lambda>ots_param.
     bind (lms_signature_len (priv_lms_type priv) (priv_lmots_type priv)) (\<lambda>needed.
     andthen (reject_if (signature_len < needed) LMS_ERR_BUFFER_TOO_SMALL)
     (andthen (reject_if (priv_q priv \<ge> push_bit (lp_height lms_param) 1) LMS_ERR_EXHAUSTED)
     (let q = priv_q priv
      in bind (or_fail LMS_ERR_INVALID
             (lmots_sign priv q message (4 + op_n ots_param + op_p ots_param * op_n ots_param))) (\<lambda>ots_sig.
         bind (look auth_path_backend) (\<lambda>b.
         bind (case b of
                 Some f \<Rightarrow> or_fail LMS_ERR_INVALID (on_world (f priv q))
               | None \<Rightarrow> lms_default_path (lp_height lms_param) priv (push_bit (lp_height lms_param) 1 + q)) (\<lambda>path.
         ret (priv\<lparr>priv_q := q + 1\<rparr>,
              lms_store_u32 q @ ots_sig @ lms_store_u32 (priv_lms_type priv) @ path, needed)))))))))"

section \<open>Reference\<close>

definition lms_path :: "lms_param_t \<Rightarrow> lmots_param_t \<Rightarrow> bytes \<Rightarrow> bytes \<Rightarrow> nat \<Rightarrow> bytes list" where
  "lms_path a b I seed q =
     auth_path (lp_height a) (lms_leaf_at a b I seed) (lms_intr_at (op_hash_alg b) I)
       (2 ^ lp_height a + q) (lp_height a)"

definition lms_sig_len :: "lms_param_t \<Rightarrow> lmots_param_t \<Rightarrow> nat" where
  "lms_sig_len a b = 44 + op_p b * 32 + lp_height a * 32"

text \<open>The signature with leaf \<open>q\<close> and randomizer \<open>C\<close>.\<close>

definition lms_signature :: "lms_param_t \<Rightarrow> lmots_param_t \<Rightarrow> bytes \<Rightarrow> bytes \<Rightarrow> u32 \<Rightarrow> bytes \<Rightarrow> bytes \<Rightarrow> bytes" where
  "lms_signature a b I seed q C m =
     lms_store_u32 q @
     (lms_store_u32 (op_type b) @ C @ ots_y (op_hash_alg b) b I seed q (ots_coefs b (ots_Q (op_hash_alg b) I q C m))) @
     lms_store_u32 (lp_type a) @ concat (lms_path a b I seed (unat q))"

text \<open>The answer of \<open>lms_do_sign\<close> when it does not sign.\<close>

definition sign_refusal :: "lms_private_key_t \<Rightarrow> nat \<Rightarrow> lms_status_t option" where
  "sign_refusal priv n =
     (case (lms_params (priv_lms_type priv), lmots_params (priv_lmots_type priv)) of
        (Some a, Some b) \<Rightarrow>
          if lp_hash_alg a = op_hash_alg b \<and> n < lms_sig_len a b then Some LMS_ERR_BUFFER_TOO_SMALL
          else if 2 ^ lp_height a \<le> unat (priv_q priv) then Some LMS_ERR_EXHAUSTED
          else if lp_hash_alg a \<noteq> op_hash_alg b then Some LMS_ERR_INVALID
          else None
      | _ \<Rightarrow> Some LMS_ERR_INVALID)"

definition auth_path_conf :: "bool \<Rightarrow> ('w \<Rightarrow> bool) \<Rightarrow> bytes \<Rightarrow> (lms_private_key_t \<Rightarrow> bool) \<Rightarrow>
    'w lms_auth_path_backend_fn \<Rightarrow> bool" where
  "auth_path_conf fl W seed serves f \<longleftrightarrow> (\<forall>priv a b.
     param_pair (priv_lms_type priv) (priv_lmots_type priv) = Some (a, b) \<and> length (priv_I priv) = 16 \<and>
     priv_seed priv = seed \<and> unat (priv_q priv) < 2 ^ lp_height a \<and> serves priv \<longrightarrow>
     gives fl W (f priv (priv_q priv)) (Inr (concat (lms_path a b (priv_I priv) seed (unat (priv_q priv))))))"

lemma length_in_auth_path:
  "(\<And>n. length (leaf n) = 32) \<Longrightarrow> (\<And>n l r. length (intr n l r) = 32) \<Longrightarrow>
     x \<in> set (auth_path h leaf intr n k) \<Longrightarrow> length x = 32"
  by (auto simp: auth_path_def) (subst merkle.simps, simp)

lemma length_in_lms_path: "x \<in> set (lms_path a b I seed q) \<Longrightarrow> length x = 32"
  unfolding lms_path_def by (rule length_in_auth_path) auto

lemma length_concat_lms_path [simp, len_simps]:
  "length (concat (lms_path a b I seed q)) = lp_height a * 32"
  by (subst length_concat_uniform [where n = 32]) (auto intro: length_in_lms_path simp: lms_path_def)

lemma length_lms_signature [simp, len_simps]:
  "length C = 32 \<Longrightarrow> length (lms_signature a b I seed q C m) = lms_sig_len a b"
  by (simp add: lms_signature_def lms_sig_len_def)

section \<open>Running under conforming callbacks\<close>

locale sign_library = tree_library +
  fixes serves :: "lms_private_key_t \<Rightarrow> bool"
  assumes auth_path: "I s \<Longrightarrow> auth_path_backend s = Some f11 \<Longrightarrow> auth_path_conf fl W seed serves f11"
begin

lemma gives_default_path:
  assumes key: "param_pair (priv_lms_type priv) (priv_lmots_type priv) = Some (a, b)"
    and J: "length (priv_I priv) = 16" and seed: "priv_seed priv = seed"
    and "2 ^ levels \<le> unat node_num" and "unat node_num < 2 ^ Suc (lp_height a)"
  shows "gives fl I (lms_default_path levels priv node_num)
    (Inr (concat (auth_path (lp_height a) (lms_leaf_at a b (priv_I priv) (priv_seed priv))
       (lms_intr_at (op_hash_alg b) (priv_I priv)) (unat node_num) levels)))"
  using assms(4,5)
proof (induction levels arbitrary: node_num)
  case 0
  then show ?case by (simp add: auth_path_def gives_ret)
next
  case (Suc levels)
  have two: "2 \<le> unat node_num" using Suc.prems(1) one_le_power [of "2 :: nat" levels] by (simp only: power_Suc) linarith
  have half: "unat (node_num div 2) = unat node_num div 2" by (simp add: unat_div)
  then have rec: "gives fl I (lms_default_path levels priv (node_num div 2))
    (Inr (concat (auth_path (lp_height a) (lms_leaf_at a b (priv_I priv) (priv_seed priv))
       (lms_intr_at (op_hash_alg b) (priv_I priv)) (unat node_num div 2) levels)))"
    using Suc.IH [of "node_num div 2"] Suc.prems by auto
  have "0 < sibling (unat node_num)" "sibling (unat node_num) < 2 ^ Suc (lp_height a)"
    using two Suc.prems(2) by (auto simp: sibling_def elim!: evenE)
  then have sib: "gives fl I (lms_tree_node priv (node_num XOR 1))
      (Inr (lms_node a b (priv_I priv) (priv_seed priv) (sibling (unat node_num))))"
    using gives_tree_node [OF key J seed, of "node_num XOR 1"] by (simp add: unat_xor_one)
  show ?case unfolding lms_default_path.simps auth_path_Suc concat.simps
    by (rule gives_bind [OF gives_or_fail [OF sib]], rule gives_bind [OF rec])
      (simp add: lms_node_def gives_ret)
qed

lemma gives_sign_path:
  assumes key: "param_pair (priv_lms_type priv) (priv_lmots_type priv) = Some (a, b)"
    and J: "length (priv_I priv) = 16" and seed: "priv_seed priv = seed"
    and q: "unat (priv_q priv) < 2 ^ lp_height a" and "serves priv"
  shows "gives fl I (bind (look auth_path_backend) (\<lambda>p. bind (case p of
         Some f \<Rightarrow> or_fail LMS_ERR_INVALID (on_world (f priv (priv_q priv)))
       | None \<Rightarrow> lms_default_path (lp_height a) priv (push_bit (lp_height a) 1 + priv_q priv)) (\<lambda>path.
       ret (k path))))
    (Inr (k (concat (lms_path a b (priv_I priv) (priv_seed priv) (unat (priv_q priv))))))"
proof (rule gives_bind_look)
  fix s assume s: "I s"
  note h = lp_height_bounds(1) [OF param_pairD(1) [OF key]]
  have "(2 :: nat) ^ lp_height a \<le> 2 ^ 25" using h by (rule power_increasing) simp
  then have u: "unat (push_bit (lp_height a) 1 + priv_q priv) = 2 ^ lp_height a + unat (priv_q priv)"
    using q by (simp only: unat_plus_if' unat_leaf_base [OF h]) simp
  show "gives fl I (bind (case auth_path_backend s of
         Some f \<Rightarrow> or_fail LMS_ERR_INVALID (on_world (f priv (priv_q priv)))
       | None \<Rightarrow> lms_default_path (lp_height a) priv (push_bit (lp_height a) 1 + priv_q priv)) (\<lambda>path.
       ret (k path)))
    (Inr (k (concat (lms_path a b (priv_I priv) (priv_seed priv) (unat (priv_q priv))))))"
  proof (cases "auth_path_backend s")
    case None
    have "2 ^ lp_height a \<le> unat (push_bit (lp_height a) 1 + priv_q priv)"
      "unat (push_bit (lp_height a) 1 + priv_q priv) < 2 ^ Suc (lp_height a)" unfolding u using q by simp_all
    note gives_default_path [OF key J seed this]
    then show ?thesis unfolding None option.case u lms_path_def by (rule gives_bind) (rule gives_ret)
  next
    case (Some f)
    have "gives fl I (on_world (f priv (priv_q priv)))
        (Inr (concat (lms_path a b (priv_I priv) seed (unat (priv_q priv)))))"
      using auth_path [OF s Some] assms by (intro gives_on_world) (simp add: auth_path_conf_def)
    then show ?thesis unfolding Some option.case seed by (rule gives_bind [OF gives_or_fail]) (rule gives_ret)
  qed
qed

lemma yields_do_sign:
  assumes key: "param_pair (priv_lms_type priv) (priv_lmots_type priv) = Some (a, b)"
    and J: "length (priv_I priv) = 16" and seed: "priv_seed priv = seed"
    and q: "unat (priv_q priv) < 2 ^ lp_height a" and serves: "serves priv"
    and len: "lms_sig_len a b \<le> signature_len"
    and fit: "hash_fits heap (op_hash_alg b) (54 + length m)"
  shows "yields fl I (lms_do_sign priv m signature_len) (\<lambda>r. \<exists>C. length C = 32 \<and>
    r = Inr (priv\<lparr>priv_q := priv_q priv + 1\<rparr>,
             lms_signature a b (priv_I priv) (priv_seed priv) (priv_q priv) C m,
             lms_sig_len a b))" (is "yields fl I _ ?R")
proof -
  note p = param_pairD [OF key]
  note h = lp_height_bounds(1) [OF p(1)] and n = lmots_p_bounds(3) [OF p(2)]
  have ty: "op_type b = priv_lmots_type priv" "lp_type a = priv_lms_type priv"
    using lmots_param_cases(2) [OF p(2)] lms_param_cases(2) [OF p(1)] by simp_all
  have siglen: "gives fl I (lms_signature_len (priv_lms_type priv) (priv_lmots_type priv))
      (Inr (lms_sig_len a b))"
    using gives_signature_len [of fl "priv_lms_type priv" "priv_lmots_type priv"] key by (simp add: lms_sig_len_def)
  have nq: "\<not> push_bit (lp_height a) 1 \<le> priv_q priv"
    using q by (simp only: word_le_nat_alt unat_leaf_base [OF h])
  have ots: "yields fl I (or_fail LMS_ERR_INVALID (lmots_sign priv (priv_q priv) m (36 + op_p b * 32)))
      (\<lambda>r. \<exists>C. length C = 32 \<and> r = Inr (lms_store_u32 (priv_lmots_type priv) @ C @
      ots_y (op_hash_alg b) b (priv_I priv) (priv_seed priv) (priv_q priv)
        (ots_coefs b (ots_Q (op_hash_alg b) (priv_I priv) (priv_q priv) C m))))"
    by (rule yields_or_fail [OF yields_sign [OF key J seed order_refl fit]]) auto
  have R: "?R (Inr (priv\<lparr>priv_q := priv_q priv + 1\<rparr>,
             lms_store_u32 (priv_q priv) @ (lms_store_u32 (priv_lmots_type priv) @ C @
               ots_y (op_hash_alg b) b (priv_I priv) (priv_seed priv) (priv_q priv)
               (ots_coefs b (ots_Q (op_hash_alg b) (priv_I priv) (priv_q priv) C m))) @
             lms_store_u32 (priv_lms_type priv) @ concat (lms_path a b (priv_I priv) (priv_seed priv) (unat (priv_q priv))),
             lms_sig_len a b))" if "length C = 32" for C
    using that ty unfolding lms_signature_def by (intro exI [of _ C]) simp
  show ?thesis unfolding lms_do_sign_def
    by (rule yields_bind_gives [OF gives_or_fail [OF gives_lms_param_ok [OF p(1)]]],
        rule yields_bind_gives [OF gives_or_fail [OF gives_lmots_param_ok [OF p(2)]]],
        rule yields_bind_gives [OF siglen], rule yields_guard, use len in simp, rule yields_guard, rule nq,
        unfold Let_def n header_36, rule yields_bind [OF ots])
      (clarsimp simp del: append_assoc, rule yields_gives [OF gives_sign_path [OF key J seed q serves]], erule R, auto)
qed

lemma gives_do_sign_refused:
  assumes "sign_refusal priv n = Some e"
  shows "gives fl I (lms_do_sign priv m n) (Inl e)"
proof (cases "lms_params (priv_lms_type priv)")
  case None
  then have "gives fl I (lms_get_lms_param (priv_lms_type priv)) (Inl LMS_ERR_INVALID)"
    using gives_get_lms_param [of fl "priv_lms_type priv"] by simp
  then show ?thesis using assms None unfolding lms_do_sign_def
    by (simp add: sign_refusal_def gives_bind_err [OF gives_or_fail_err])
next
  case a: (Some a)
  note step1 = gives_bind [OF gives_or_fail [OF gives_lms_param_ok [OF a]]]
  show ?thesis
  proof (cases "lmots_params (priv_lmots_type priv)")
    case None
    then have "gives fl I (lms_get_lmots_param (priv_lmots_type priv)) (Inl LMS_ERR_INVALID)"
      using gives_get_lmots_param [of fl "priv_lmots_type priv"] by simp
    then show ?thesis using assms a None unfolding lms_do_sign_def
      by (intro step1) (simp add: sign_refusal_def gives_bind_err [OF gives_or_fail_err])
  next
    case b: (Some b)
    note step2 = gives_bind [OF gives_or_fail [OF gives_lmots_param_ok [OF b]]]
    define needed where "needed = (if lp_hash_alg a = op_hash_alg b then lms_sig_len a b else 0)"
    have len: "gives fl I (lms_signature_len (priv_lms_type priv) (priv_lmots_type priv)) (Inr needed)"
      using gives_signature_len [of fl "priv_lms_type priv" "priv_lmots_type priv"]
      by (cases "lp_hash_alg a = op_hash_alg b") (simp_all add: needed_def param_pair_def a b lms_sig_len_def)
    note start = step1 [OF step2 [OF gives_bind [OF len]]]
    have base: "push_bit (lp_height a) 1 \<le> priv_q priv \<longleftrightarrow> 2 ^ lp_height a \<le> unat (priv_q priv)"
      by (simp only: word_le_nat_alt unat_leaf_base [OF lp_height_bounds(1) [OF a]])
    consider "n < needed" "e = LMS_ERR_BUFFER_TOO_SMALL"
      | "\<not> n < needed" "push_bit (lp_height a) 1 \<le> priv_q priv" "e = LMS_ERR_EXHAUSTED"
      | "\<not> n < needed" "\<not> push_bit (lp_height a) 1 \<le> priv_q priv" "lp_hash_alg a \<noteq> op_hash_alg b" "e = LMS_ERR_INVALID"
      using assms unfolding base sign_refusal_def by (auto simp: a b needed_def split: if_splits)
    then show ?thesis
    proof cases
      case 1
      then show ?thesis unfolding lms_do_sign_def by (intro start) (simp add: gives_andthen_err gives_reject)
    next
      case 2
      then show ?thesis unfolding lms_do_sign_def
        by (intro start gives_andthen [OF gives_reject_pass] gives_andthen_err) (simp_all add: gives_reject)
    next
      case 3
      have "gives fl I (lms_get_private_hash_alg priv) (Inl LMS_ERR_INVALID)"
        using 3 by (intro gives_private_hash_alg_err) (simp add: param_pair_def a b)
      then have "gives fl I (lmots_sign priv (priv_q priv) m x) (Inl LMS_ERR_INVALID)" for x
        unfolding lmots_sign_def by (intro step2 gives_bind_err gives_or_fail_err)
      then show ?thesis using 3(1,2) unfolding lms_do_sign_def 3(4) Let_def
        by (intro start gives_andthen [OF gives_reject_pass] gives_bind_err gives_or_fail_err)
    qed
  qed
qed

end

definition sign_conforming :: "'w lms_env \<Rightarrow> 'w lms_lib \<Rightarrow> bool" where
  "sign_conforming E s \<longleftrightarrow> tree_conforming E s
     \<and> pred_option (auth_path_conf (env_fails E) (env_world E) (env_seed E) (env_serves E)) (auth_path_backend s)"

interpretation sign: sign_library "sign_conforming E" "env_heap E" "env_fails E" "env_world E" "env_seed E" "env_coef E"
    "env_serves E" for E
  by unfold_locales
    (auto simp: sign_conforming_def tree_conforming_def ots_conforming_def ots_backends_conform_def plain_state_def
      set_statics_def statics_ok_def haraka_ok_def)

lemma test_lib_sign_conforming: "sign_conforming test_env hash_test_lib"
  using test_lib_tree_conforming by (simp add: sign_conforming_def) (simp add: hash_test_lib_def)

section \<open>Properties\<close>

text \<open>
  \<open>lms_do_sign\<close> on every branch, in any conforming state whose accelerators do not fail.
  The refusals come in the order of the code: unknown typecode, short buffer, exhausted key,
  and two known typecodes with different hash functions (for which \<open>lms_signature_len\<close> is 0,
  so that any buffer passes the length check). In every other case it succeeds: the signature
  is the RFC 8554 signature for leaf \<open>q\<close> under some 32-byte randomizer, \<open>*written\<close> is its
  length, and the counter of the key has moved to \<open>q + 1\<close>.
\<close>

theorem lms_do_sign_complete:
  assumes s: "sign_conforming E s" "\<not> env_fails E" and seed: "env_seed E = priv_seed priv"
    and I: "length (priv_I priv) = 16" and serves: "env_serves E priv"
    and fit: "\<And>alg. hash_fits (env_heap E) alg (54 + length m)"
  shows "case sign_refusal priv n of
      Some e \<Rightarrow> fst (lms_do_sign priv m n s) = Inl e
    | None \<Rightarrow> \<exists>a b C. param_pair (priv_lms_type priv) (priv_lmots_type priv) = Some (a, b) \<and> length C = 32
        \<and> fst (lms_do_sign priv m n s) =
            Inr (priv\<lparr>priv_q := priv_q priv + 1\<rparr>,
                 lms_signature a b (priv_I priv) (priv_seed priv) (priv_q priv) C m, lms_sig_len a b)
        \<and> length (lms_signature a b (priv_I priv) (priv_seed priv) (priv_q priv) C m) = lms_sig_len a b"
proof (cases "sign_refusal priv n")
  case None
  then obtain a b where ab: "param_pair (priv_lms_type priv) (priv_lmots_type priv) = Some (a, b)"
    and q: "unat (priv_q priv) < 2 ^ lp_height a" and len: "lms_sig_len a b \<le> n"
    by (auto simp: sign_refusal_def param_pair_def split: option.splits if_splits)
  show ?thesis
    using yields_run(1) [OF sign.yields_do_sign [OF ab I seed [symmetric] q serves len fit] s(1)] s(2) ab None
    by auto
next
  case (Some e)
  then show ?thesis
    using yields_run(1) [OF sign.gives_do_sign_refused [OF Some, unfolded gives_def] s(1), of m] s(2) by simp
qed

text \<open>An instance: a successful signature, an exhausted key and a short buffer.\<close>

theorem lms_do_sign_complete_witness:
  "(\<exists>C. fst (lms_do_sign test_priv [1, 2] 1292 hash_test_lib) =
      Inr (test_priv\<lparr>priv_q := 1\<rparr>,
           lms_signature test_lms_param test_ots_param (replicate 16 7) (replicate 32 9) 0 C [1, 2], 1292))
   \<and> fst (lms_do_sign (test_priv\<lparr>priv_q := 32\<rparr>) [] 1292 hash_test_lib) = Inl LMS_ERR_EXHAUSTED
   \<and> fst (lms_do_sign test_priv [] 1291 hash_test_lib) = Inl LMS_ERR_BUFFER_TOO_SMALL"
proof -
  have fit: "hash_fits (env_heap test_env) alg (54 + length m)" if "length m \<le> 100" for alg and m :: bytes
    using that by (simp add: hash_fits_small)
  have key: "priv_seed test_priv = env_seed test_env" "length (priv_I test_priv) = 16" "env_serves test_env p" for p
    by (simp_all add: test_priv_def test_env_def)
  have p: "lms_params LMS_SHA256_N32_H5 = Some test_lms_param" "lmots_params LMOTS_SHA256_N32_W8 = Some test_ots_param"
    using param_pairD [OF test_priv_facts(3)] by (simp_all add: test_priv_def)
  have r: "sign_refusal test_priv 1292 = None"
    "sign_refusal (test_priv\<lparr>priv_q := 32\<rparr>) 1292 = Some LMS_ERR_EXHAUSTED"
    "sign_refusal test_priv 1291 = Some LMS_ERR_BUFFER_TOO_SMALL"
    by (simp_all add: sign_refusal_def test_priv_def p lms_sig_len_def) (simp_all add: test_lms_param_def test_ots_param_def)
  note c = lms_do_sign_complete [OF test_lib_sign_conforming test_priv_facts(5)]
  have 1: "\<exists>C. fst (lms_do_sign test_priv [1, 2] 1292 hash_test_lib) =
      Inr (test_priv\<lparr>priv_q := 1\<rparr>,
           lms_signature test_lms_param test_ots_param (replicate 16 7) (replicate 32 9) 0 C [1, 2], 1292)"
    using c [of test_priv "[1, 2]" 1292] key fit [of "[1, 2]"] r(1) test_priv_facts(3)
    by (auto simp: lms_sig_len_def) (auto simp: test_priv_def test_lms_param_def test_ots_param_def)
  have 2: "fst (lms_do_sign (test_priv\<lparr>priv_q := 32\<rparr>) [] 1292 hash_test_lib) = Inl LMS_ERR_EXHAUSTED"
    using c [of "test_priv\<lparr>priv_q := 32\<rparr>" "[]" 1292] key fit [of "[]"] r(2) by simp
  have 3: "fst (lms_do_sign test_priv [] 1291 hash_test_lib) = Inl LMS_ERR_BUFFER_TOO_SMALL"
    using c [of test_priv "[]" 1291] key fit [of "[]"] r(3) by simp
  show ?thesis using 1 2 3 by blast
qed

end
