(* ===== verification/Lms_Verify.thy ===== *)
theory Lms_Verify
  imports Lms_Tree
begin

text \<open>
  \<open>src/lms_verify.c\<close>: recomputing the root from a signature, with the level-by-level climb and
  the registered authentication-path backend.
\<close>

section \<open>The code\<close>

definition lms_verify_authpath_backend_set :: "'w lms_verify_authpath_backend_fn option \<Rightarrow> ('w, unit) lop" where
  "lms_verify_authpath_backend_set backend = modify (\<lambda>s. s\<lparr>verify_authpath_backend := backend\<rparr>)"

text \<open>The loop over the levels of the authentication path; \<open>path\<close> points at the next sibling.\<close>

fun lms_climb :: "nat \<Rightarrow> bytes \<Rightarrow> lms_hash_alg_t \<Rightarrow> u32 \<Rightarrow> bytes \<Rightarrow> bytes \<Rightarrow> nat \<Rightarrow> ('w, bytes) lop" where
  "lms_climb 0 I hash_alg node_num node path n = ret node"
| "lms_climb (Suc levels) I hash_alg node_num node path n =
     (let sib = take n path
      in bind (if even node_num
               then or_fail LMS_ERR_INVALID (lms_internal_node I hash_alg (node_num div 2) node sib)
               else or_fail LMS_ERR_INVALID (lms_internal_node I hash_alg (node_num div 2) sib node)) (\<lambda>node'.
         lms_climb levels I hash_alg (node_num div 2) node' (drop n path) n))"

text \<open>Everything after the parameter look-ups of \<open>lms_root_from_signature\<close>.\<close>

definition lms_root_checked :: "lms_param_t \<Rightarrow> lmots_param_t \<Rightarrow> lms_hash_alg_t \<Rightarrow> lms_public_key_t \<Rightarrow> bytes \<Rightarrow> bytes \<Rightarrow>
    ('w, bytes) lop" where
  "lms_root_checked lms_param ots_param hash_alg pub message signature =
    (let ots_len = 4 + op_n ots_param + op_p ots_param * op_n ots_param;
         expected_len = 4 + ots_len + 4 + lp_height lms_param * lp_n lms_param;
         q = lms_load_u32 signature;
         ots_sig = drop 4 signature;
         path = drop (ots_len + 4) ots_sig;
         node_num = push_bit (lp_height lms_param) 1 + q
     in andthen (reject_if (length signature \<noteq> expected_len) LMS_ERR_INVALID)
       (andthen (reject_if (q \<ge> push_bit (lp_height lms_param) 1) LMS_ERR_VERIFY)
       (andthen (reject_if (lms_load_u32 (drop ots_len ots_sig) \<noteq> pub_lms_type pub) LMS_ERR_VERIFY)
       (bind (or_fail LMS_ERR_VERIFY
          (lmots_verify_leaf (pub_I pub) hash_alg q (pub_lmots_type pub) node_num message
             (take ots_len ots_sig))) (\<lambda>node.
        bind (look verify_authpath_backend) (\<lambda>b. case b of
            Some f \<Rightarrow> or_fail LMS_ERR_VERIFY
              (on_world (f (pub_I pub) hash_alg node_num node path (lp_height lms_param)))
          | None \<Rightarrow>
              lms_climb (lp_height lms_param) (pub_I pub) hash_alg node_num node path (lp_n lms_param)))))))"

definition lms_root_from_signature :: "lms_public_key_t \<Rightarrow> bytes \<Rightarrow> bytes \<Rightarrow> ('w, bytes) lop" where
  "lms_root_from_signature pub message signature =
     bind (or_fail LMS_ERR_INVALID (lms_get_lms_param (pub_lms_type pub))) (\<lambda>lms_param.
     bind (or_fail LMS_ERR_INVALID (lms_get_lmots_param (pub_lmots_type pub))) (\<lambda>ots_param.
     bind (or_fail LMS_ERR_INVALID (lms_get_public_hash_alg pub)) (\<lambda>hash_alg.
     lms_root_checked lms_param ots_param hash_alg pub message signature)))"

section \<open>Reference\<close>

definition chunks :: "nat \<Rightarrow> bytes \<Rightarrow> bytes list" where
  "chunks k path = map (\<lambda>i. segment (i * 32) 32 path) [0..<k]"

lemma length_chunks [simp, len_simps]: "length (chunks k path) = k"
  by (simp add: chunks_def)

lemma chunks_Suc: "chunks (Suc k) path = take 32 path # chunks k (drop 32 path)"
  by (simp add: chunks_def upt_rec [of 0 "Suc k"] map_Suc_upt [symmetric] segment_def comp_def
      add.commute del: upt_Suc)

lemma chunks_concat:
  assumes "\<And>x. x \<in> set xs \<Longrightarrow> length x = 32"
  shows "chunks (length xs) (concat xs) = xs"
  using assms by (induction xs) (simp_all add: chunks_Suc, simp add: chunks_def)

lemma word_of_nat_unat_u32: "word_of_nat (unat (x :: u32)) = x"
  by simp

text \<open>The root a signature leads to, on its own \<open>q\<close>, randomizer, chain values and path.\<close>

definition sig_q :: "bytes \<Rightarrow> u32" where
  "sig_q sig = lms_load_u32 sig"

definition sig_ots_key :: "lmots_param_t \<Rightarrow> bytes \<Rightarrow> bytes \<Rightarrow> bytes \<Rightarrow> bytes" where
  "sig_ots_key b I m sig =
     (let alg = op_hash_alg b; q = sig_q sig; C = segment 8 32 sig
      in ots_candidate alg b I q (ots_coefs b (ots_Q alg I q C m)) (segment 40 (op_p b * 32) sig))"

definition sig_path :: "lms_param_t \<Rightarrow> lmots_param_t \<Rightarrow> bytes \<Rightarrow> bytes list" where
  "sig_path a b sig = chunks (lp_height a) (drop (44 + op_p b * 32) sig)"

definition sig_leaf :: "lms_param_t \<Rightarrow> lmots_param_t \<Rightarrow> bytes \<Rightarrow> bytes \<Rightarrow> bytes \<Rightarrow> bytes" where
  "sig_leaf a b I m sig =
     lms_leaf_hash (op_hash_alg b) I (push_bit (lp_height a) 1 + sig_q sig) (sig_ots_key b I m sig)"

definition sig_root :: "lms_param_t \<Rightarrow> lmots_param_t \<Rightarrow> bytes \<Rightarrow> bytes \<Rightarrow> bytes \<Rightarrow> bytes" where
  "sig_root a b I m sig =
     climb (lms_intr_at (op_hash_alg b) I) (2 ^ lp_height a + unat (sig_q sig)) (sig_leaf a b I m sig)
       (sig_path a b sig)"

text \<open>The answer of \<open>lms_root_from_signature\<close>: what it refuses and the root otherwise.\<close>

definition sig_refusal :: "lms_param_t \<Rightarrow> lmots_param_t \<Rightarrow> lms_public_key_t \<Rightarrow> bytes \<Rightarrow> lms_status_t option" where
  "sig_refusal a b pub sig =
     (if length sig \<noteq> 44 + op_p b * 32 + lp_height a * 32 then Some LMS_ERR_INVALID
      else if 2 ^ lp_height a \<le> unat (sig_q sig) then Some LMS_ERR_VERIFY
      else if lms_load_u32 (drop (40 + op_p b * 32) sig) \<noteq> pub_lms_type pub then Some LMS_ERR_VERIFY
      else if lms_load_u32 (drop 4 sig) \<noteq> pub_lmots_type pub then Some LMS_ERR_VERIFY
      else None)"

definition verify_authpath_conf :: "bool \<Rightarrow> ('w \<Rightarrow> bool) \<Rightarrow> 'w lms_verify_authpath_backend_fn \<Rightarrow> bool" where
  "verify_authpath_conf fl W f \<longleftrightarrow> (\<forall>I alg node_num leaf path h.
     length I = 16 \<and> length leaf = 32 \<and> length path = h * 32 \<and> h \<le> 25 \<and>
     2 ^ h \<le> unat node_num \<and> unat node_num < 2 ^ Suc h \<longrightarrow>
     gives fl W (f I alg node_num leaf path h)
       (Inr (climb (lms_intr_at alg I) (unat node_num) leaf (chunks h path))))"

section \<open>Running under conforming callbacks\<close>

locale verify_library = tree_library +
  assumes verify_authpath: "I s \<Longrightarrow> verify_authpath_backend s = Some f12 \<Longrightarrow> verify_authpath_conf fl W f12"
begin

lemma gives_climb:
  assumes J: "length J = 16" and "length node = 32" and "length path = levels * 32"
  shows "gives fl I (lms_climb levels J alg node_num node path 32)
    (Inr (climb (lms_intr_at alg J) (unat node_num) node (chunks levels path)))"
  using assms(2,3)
proof (induction levels arbitrary: node_num node path)
  case 0
  then show ?case by (simp add: chunks_def gives_ret)
next
  case (Suc levels)
  have half: "unat (node_num div 2) = unat node_num div 2" by (simp add: unat_div)
  have half': "word_of_nat (unat node_num div 2) = node_num div 2"
    using word_of_nat_unat_u32 [of "node_num div 2"] unfolding half .
  have t: "length (take 32 path) = 32" using Suc.prems by simp
  let ?v = "if even node_num then lms_intr_hash alg J (node_num div 2) node (take 32 path)
            else lms_intr_hash alg J (node_num div 2) (take 32 path) node"
  have step: "gives fl I (if even node_num
       then or_fail LMS_ERR_INVALID (lms_internal_node J alg (node_num div 2) node (take 32 path))
       else or_fail LMS_ERR_INVALID (lms_internal_node J alg (node_num div 2) (take 32 path) node)) (Inr ?v)"
    using gives_internal_node [OF J Suc.prems(1) t] gives_internal_node [OF J t Suc.prems(1)]
    by (auto intro!: gives_or_fail)
  have "length ?v = 32" by simp
  from Suc.IH [OF this, of "drop 32 path" "node_num div 2"] Suc.prems(2)
  have rec: "gives fl I (lms_climb levels J alg (node_num div 2) ?v (drop 32 path) 32)
      (Inr (climb (lms_intr_at alg J) (unat node_num div 2) ?v (chunks levels (drop 32 path))))"
    by (simp add: half)
  show ?case unfolding lms_climb.simps Let_def chunks_Suc climb.simps
    by (rule gives_bind [OF step]) (use rec half' in \<open>cases "even node_num"; simp add: lms_intr_at_def even_unat\<close>)
qed

lemma gives_verify_path:
  assumes J: "length J = 16" and leaf: "length leaf = 32" and path: "length path = h * 32"
    and h: "h \<le> 25" and n: "2 ^ h \<le> unat node_num" "unat node_num < 2 ^ Suc h"
  shows "gives fl I (bind (look verify_authpath_backend) (\<lambda>b. case b of
       Some f \<Rightarrow> or_fail LMS_ERR_VERIFY (on_world (f J alg node_num leaf path h))
     | None \<Rightarrow> lms_climb h J alg node_num leaf path 32))
    (Inr (climb (lms_intr_at alg J) (unat node_num) leaf (chunks h path)))"
proof (rule gives_dispatch)
  show "gives fl I (lms_climb h J alg node_num leaf path 32)
      (Inr (climb (lms_intr_at alg J) (unat node_num) leaf (chunks h path)))"
    by (rule gives_climb [OF J leaf path])
  fix s f assume "I s" "verify_authpath_backend s = Some f"
  then have "gives fl I (on_world (f J alg node_num leaf path h))
      (Inr (climb (lms_intr_at alg J) (unat node_num) leaf (chunks h path)))"
    using verify_authpath assms by (intro gives_on_world) (simp add: verify_authpath_conf_def)
  then show "gives fl I (or_fail LMS_ERR_VERIFY (on_world (f J alg node_num leaf path h)))
      (Inr (climb (lms_intr_at alg J) (unat node_num) leaf (chunks h path)))" by (rule gives_or_fail)
qed

lemma gives_root_ok:
  assumes key: "param_pair (pub_lms_type pub) (pub_lmots_type pub) = Some (a, b)"
    and J: "length (pub_I pub) = 16" and fit: "hash_fits heap (op_hash_alg b) (54 + length m)"
    and ok: "sig_refusal a b pub sig = None"
  shows "gives fl I (lms_root_checked a b (op_hash_alg b) pub m sig) (Inr (sig_root a b (pub_I pub) m sig))"
proof -
  note p = param_pairD [OF key]
  note h = lp_height_bounds [OF p(1)] and n = lmots_p_bounds(3) [OF p(2)]
  let ?h = "lp_height a" and ?ots = "take (36 + op_p b * 32) (drop 4 sig)"
  let ?node_num = "push_bit ?h 1 + lms_load_u32 sig :: u32"
  have len: "length sig = 44 + op_p b * 32 + ?h * 32" and q: "unat (lms_load_u32 sig) < 2 ^ ?h"
    and ty: "lms_load_u32 (drop (40 + op_p b * 32) sig) = pub_lms_type pub" "lms_load_u32 (drop 4 sig) = pub_lmots_type pub"
    using ok by (auto simp: sig_refusal_def sig_q_def split: if_splits)
  have nq: "\<not> push_bit ?h 1 \<le> lms_load_u32 sig"
    using q by (simp only: word_le_nat_alt unat_leaf_base [OF h(1)])
  have "(2 :: nat) ^ ?h \<le> 2 ^ 25" using h(1) by (rule power_increasing) simp
  then have u: "unat ?node_num = 2 ^ ?h + unat (lms_load_u32 sig)"
    using q by (simp only: unat_plus_if' unat_leaf_base [OF h(1)]) simp
  have ots_ty: "lms_load_u32 ?ots = pub_lmots_type pub"
    using ty(2) by (simp add: lms_load_u32_def)
  have ots_len: "length ?ots = 36 + op_p b * 32" using len by simp
  have parts: "segment 4 32 ?ots = segment 8 32 sig" "drop 36 ?ots = segment 40 (op_p b * 32) sig"
    by (simp_all add: segment_def take_drop drop_drop min_def add.commute)
  have leaf: "gives fl I (lmots_verify_leaf (pub_I pub) (op_hash_alg b) (lms_load_u32 sig) (pub_lmots_type pub)
        ?node_num m ?ots) (Inr (sig_leaf a b (pub_I pub) m sig))"
    using gives_verify_leaf [OF J p(2) refl ots_len ots_ty fit]
    by (simp add: parts sig_leaf_def sig_ots_key_def sig_q_def Let_def)
  have path: "gives fl I (bind (look verify_authpath_backend) (\<lambda>c. case c of
       Some f \<Rightarrow> or_fail LMS_ERR_VERIFY (on_world (f (pub_I pub) (op_hash_alg b) ?node_num
         (sig_leaf a b (pub_I pub) m sig) (drop (44 + op_p b * 32) sig) ?h))
     | None \<Rightarrow> lms_climb ?h (pub_I pub) (op_hash_alg b) ?node_num (sig_leaf a b (pub_I pub) m sig)
         (drop (44 + op_p b * 32) sig) 32)) (Inr (sig_root a b (pub_I pub) m sig))"
    unfolding sig_root_def sig_path_def sig_q_def u [symmetric]
    by (rule gives_verify_path [OF J _ _ h(1)]) (use len q u in \<open>simp_all add: sig_leaf_def\<close>)
  have num: "4 + (36 + op_p b * 32) + 4 + ?h * 32 = 44 + op_p b * 32 + ?h * 32"
    "drop (36 + op_p b * 32) (drop 4 sig) = drop (40 + op_p b * 32) sig"
    "drop (36 + op_p b * 32 + 4) (drop 4 sig) = drop (44 + op_p b * 32) sig" by simp_all
  show ?thesis unfolding lms_root_checked_def Let_def n h(3) header_36 num
    by (rule gives_andthen, rule gives_reject_pass, simp add: len,
        rule gives_andthen, rule gives_reject_pass, rule nq,
        rule gives_andthen, rule gives_reject_pass, simp add: ty,
        rule gives_bind [OF gives_or_fail [OF leaf]], rule path)
qed

lemma gives_verify_leaf_type_mismatch:
  assumes t: "lmots_params t = Some param" and len: "length sig = 36 + op_p param * 32" and ty: "lms_load_u32 sig \<noteq> t"
  shows "gives fl I (lmots_verify_leaf J alg q t node_num m sig) (Inl LMS_ERR_VERIFY)"
  unfolding lmots_verify_leaf_def
  by (rule gives_bind [OF gives_or_fail [OF gives_lmots_param_ok [OF t]]],
      simp only: Let_def lmots_p_bounds(3) [OF t] header_36,
      rule gives_andthen, rule gives_reject_pass, simp add: len, rule gives_andthen_err, rule gives_reject, rule ty)

lemma gives_root_refused:
  assumes key: "param_pair (pub_lms_type pub) (pub_lmots_type pub) = Some (a, b)"
    and refused: "sig_refusal a b pub sig = Some e"
  shows "gives fl I (lms_root_checked a b (op_hash_alg b) pub m sig) (Inl e)"
proof -
  note p = param_pairD [OF key]
  note h = lp_height_bounds [OF p(1)] and n = lmots_p_bounds(3) [OF p(2)]
  let ?h = "lp_height a" and ?ots = "take (36 + op_p b * 32) (drop 4 sig)"
  have base: "2 ^ ?h \<le> unat (lms_load_u32 sig) \<longleftrightarrow> push_bit ?h 1 \<le> lms_load_u32 sig"
    by (simp only: word_le_nat_alt unat_leaf_base [OF h(1)])
  have num: "4 + (36 + op_p b * 32) + 4 + ?h * 32 = 44 + op_p b * 32 + ?h * 32"
    "drop (36 + op_p b * 32) (drop 4 sig) = drop (40 + op_p b * 32) sig" by simp_all
  note unfolded = lms_root_checked_def Let_def n h(3) header_36 num
  consider "length sig \<noteq> 44 + op_p b * 32 + ?h * 32" "e = LMS_ERR_INVALID"
    | "length sig = 44 + op_p b * 32 + ?h * 32" "push_bit ?h 1 \<le> lms_load_u32 sig" "e = LMS_ERR_VERIFY"
    | "length sig = 44 + op_p b * 32 + ?h * 32" "\<not> push_bit ?h 1 \<le> lms_load_u32 sig"
      "lms_load_u32 (drop (40 + op_p b * 32) sig) \<noteq> pub_lms_type pub" "e = LMS_ERR_VERIFY"
    | "length sig = 44 + op_p b * 32 + ?h * 32" "\<not> push_bit ?h 1 \<le> lms_load_u32 sig"
      "lms_load_u32 (drop (40 + op_p b * 32) sig) = pub_lms_type pub"
      "lms_load_u32 (drop 4 sig) \<noteq> pub_lmots_type pub" "e = LMS_ERR_VERIFY"
    using refused unfolding sig_refusal_def sig_q_def base by (auto split: if_splits)
  then show ?thesis
  proof cases
    case 1
    then show ?thesis unfolding unfolded by (intro gives_andthen_err) (simp add: gives_reject)
  next
    case 2
    then show ?thesis unfolding unfolded
      by (intro gives_andthen [OF gives_reject_pass] gives_andthen_err) (simp_all add: gives_reject)
  next
    case 3
    then show ?thesis unfolding unfolded
      by (intro gives_andthen [OF gives_reject_pass] gives_andthen_err) (simp_all add: gives_reject)
  next
    case 4
    have len: "length ?ots = 36 + op_p b * 32" using 4(1) by simp
    have ty: "lms_load_u32 ?ots \<noteq> pub_lmots_type pub" using 4(4) by (simp add: lms_load_u32_def)
    show ?thesis unfolding unfolded 4(5)
      by (rule gives_andthen, rule gives_reject_pass, use 4(1) in simp,
          rule gives_andthen, rule gives_reject_pass, rule 4(2),
          rule gives_andthen, rule gives_reject_pass, use 4(3) in simp,
          rule gives_bind_err, rule gives_or_fail_err,
          rule gives_verify_leaf_type_mismatch [OF p(2) len ty])
  qed
qed

lemma gives_root_from_signature:
  assumes J: "length (pub_I pub) = 16" and fit: "\<And>alg. hash_fits heap alg (54 + length m)"
  shows "gives fl I (lms_root_from_signature pub m sig)
    (case param_pair (pub_lms_type pub) (pub_lmots_type pub) of
       None \<Rightarrow> Inl LMS_ERR_INVALID
     | Some (a, b) \<Rightarrow> (case sig_refusal a b pub sig of
           Some e \<Rightarrow> Inl e | None \<Rightarrow> Inr (sig_root a b (pub_I pub) m sig)))"
proof (cases "param_pair (pub_lms_type pub) (pub_lmots_type pub)")
  case (Some ab)
  obtain a b where ab: "ab = (a, b)" by force
  note key = Some [unfolded ab]
  note p = param_pairD [OF key]
  have "gives fl I (lms_root_checked a b (op_hash_alg b) pub m sig)
      (case sig_refusal a b pub sig of Some e \<Rightarrow> Inl e | None \<Rightarrow> Inr (sig_root a b (pub_I pub) m sig))"
    using gives_root_refused [OF key] gives_root_ok [OF key J fit] by (cases "sig_refusal a b pub sig") auto
  then show ?thesis unfolding lms_root_from_signature_def key option.case prod.case
    by (intro gives_bind [OF gives_or_fail [OF gives_lms_param_ok [OF p(1)]]]
        gives_bind [OF gives_or_fail [OF gives_lmots_param_ok [OF p(2)]]]
        gives_bind [OF gives_or_fail [OF gives_public_hash_alg [OF key]]]) (simp only: p(3))
next
  case None
  have alg: "gives fl I (lms_get_public_hash_alg pub) (Inl LMS_ERR_INVALID)"
    unfolding lms_get_public_hash_alg_def
    using gives_param_pair [of fl "pub_lms_type pub" "pub_lmots_type pub"] None by (intro gives_bind_err) simp
  have a: "gives fl I (lms_get_lms_param (pub_lms_type pub))
      (case lms_params (pub_lms_type pub) of None \<Rightarrow> Inl LMS_ERR_INVALID | Some p \<Rightarrow> Inr p)"
    and b: "gives fl I (lms_get_lmots_param (pub_lmots_type pub))
      (case lmots_params (pub_lmots_type pub) of None \<Rightarrow> Inl LMS_ERR_INVALID | Some p \<Rightarrow> Inr p)"
    by (rule gives_get_lms_param gives_get_lmots_param)+
  show ?thesis unfolding lms_root_from_signature_def None option.case
    using a b
    by (cases "lms_params (pub_lms_type pub)"; cases "lmots_params (pub_lmots_type pub)")
      (auto intro: gives_bind_err [OF gives_or_fail_err] gives_bind [OF gives_or_fail] alg)
qed

end

definition verify_conforming :: "'w lms_env \<Rightarrow> 'w lms_lib \<Rightarrow> bool" where
  "verify_conforming E s \<longleftrightarrow> tree_conforming E s
     \<and> pred_option (verify_authpath_conf (env_fails E) (env_world E)) (verify_authpath_backend s)"

interpretation verify: verify_library "verify_conforming E" "env_heap E" "env_fails E" "env_world E" "env_seed E"
    "env_coef E" for E
  by unfold_locales
    (auto simp: verify_conforming_def tree_conforming_def ots_conforming_def ots_backends_conform_def plain_state_def
      set_statics_def statics_ok_def haraka_ok_def)

lemma test_lib_verify_conforming: "verify_conforming test_env hash_test_lib"
  using test_lib_tree_conforming by (simp add: verify_conforming_def) (simp add: hash_test_lib_def)

section \<open>Properties\<close>

text \<open>
  \<open>lms_root_from_signature\<close> on every public key and every byte string, with any mix of
  non-failing accelerators: mismatched or unknown typecodes and a wrong length are invalid; a
  leaf index outside the tree or a typecode in the signature that is not the key's is a
  verification failure; every other signature leads to the root obtained by finishing its
  chains, hashing the leaf and climbing its authentication path.
\<close>

theorem lms_root_from_signature_complete:
  assumes "verify_conforming E s" and "\<not> env_fails E" and "length (pub_I pub) = 16"
    and "\<And>alg. hash_fits (env_heap E) alg (54 + length m)"
  shows "fst (lms_root_from_signature pub m sig s) =
    (case param_pair (pub_lms_type pub) (pub_lmots_type pub) of
       None \<Rightarrow> Inl LMS_ERR_INVALID
     | Some (a, b) \<Rightarrow> (case sig_refusal a b pub sig of
           Some e \<Rightarrow> Inl e | None \<Rightarrow> Inr (sig_root a b (pub_I pub) m sig)))"
  using yields_run(1) [OF verify.gives_root_from_signature [OF assms(3,4), unfolded gives_def] assms(1)] assms(2)
  by simp

definition test_pub :: lms_public_key_t where
  "test_pub = \<lparr>pub_lms_type = LMS_SHA256_N32_H5, pub_lmots_type = LMOTS_SHA256_N32_W8,
     pub_I = replicate 16 7, pub_root = replicate 32 0\<rparr>"

text \<open>An instance: a signature of the right length whose leaf index is outside the tree.\<close>

theorem lms_root_from_signature_complete_witness:
  "fst (lms_root_from_signature test_pub [] (replicate 1292 255) hash_test_lib) = Inl LMS_ERR_VERIFY"
proof -
  have key: "param_pair (pub_lms_type test_pub) (pub_lmots_type test_pub) = Some (test_lms_param, test_ots_param)"
    using test_priv_facts(3) by (simp add: test_pub_def test_priv_def)
  have "sig_q (replicate 1292 255) = - 1" by (simp add: sig_q_def lms_load_u32_def)
  then have "unat (sig_q (replicate 1292 255)) = 4294967295" by (simp add: unsigned_minus_1_eq_mask mask_eq_exp_minus_1)
  then have "sig_refusal test_lms_param test_ots_param test_pub (replicate 1292 255) = Some LMS_ERR_VERIFY"
    by (simp add: sig_refusal_def test_lms_param_def test_ots_param_def)
  then show ?thesis
    using lms_root_from_signature_complete [OF test_lib_verify_conforming test_priv_facts(5), of test_pub "[]"
        "replicate 1292 255"] key hash_fits_small
    by (simp add: test_pub_def)
qed

end
