(* ===== verification/Lms_Api.thy ===== *)
theory Lms_Api
  imports Lms_Sign Lms_Verify
begin

text \<open>
  \<open>src/lms.c\<close>, the public interface: key initialisation and generation, serialisation and
  parsing, signing and verifying. The properties put the layers below together: signatures
  verify under the generated key, verification accepts nothing else than a path to the root,
  a signing key never uses a leaf twice, keys survive serialisation.
\<close>

section \<open>The code\<close>

definition lms_private_key_init :: "u32 \<Rightarrow> u32 \<Rightarrow> bytes \<Rightarrow> bytes \<Rightarrow> ('w, lms_private_key_t) lop" where
  "lms_private_key_init lms_type lmots_type I seed =
     andthen (or_fail LMS_ERR_INVALID (lms_get_param_pair lms_type lmots_type))
       (ret \<lparr>priv_lms_type = lms_type, priv_lmots_type = lmots_type, priv_I = I, priv_seed = seed, priv_q = 0\<rparr>)"

definition lms_public_key_generate :: "lms_private_key_t \<Rightarrow> ('w, lms_public_key_t) lop" where
  "lms_public_key_generate priv =
     andthen (or_fail LMS_ERR_INVALID (lms_get_lms_param (priv_lms_type priv)))
     (andthen (or_fail LMS_ERR_INVALID (lms_get_lmots_param (priv_lmots_type priv)))
     (bind (lms_tree_node priv 1) (\<lambda>root.
      ret \<lparr>pub_lms_type = priv_lms_type priv, pub_lmots_type = priv_lmots_type priv, pub_I = priv_I priv,
           pub_root = root\<rparr>)))"

definition lms_public_key_serialize :: "lms_public_key_t \<Rightarrow> nat \<Rightarrow> ('w, bytes) lop" where
  "lms_public_key_serialize pub out_len =
     andthen (reject_if (out_len < LMS_PUBLIC_KEY_LEN) LMS_ERR_BUFFER_TOO_SMALL)
       (ret (lms_store_u32 (pub_lms_type pub) @ lms_store_u32 (pub_lmots_type pub) @ pub_I pub @ pub_root pub))"

definition lms_public_key_parse :: "bytes \<Rightarrow> ('w, lms_public_key_t) lop" where
  "lms_public_key_parse inp =
     andthen (reject_if (length inp \<noteq> LMS_PUBLIC_KEY_LEN) LMS_ERR_INVALID)
     (let lms_type = lms_load_u32 inp; lmots_type = lms_load_u32 (drop 4 inp)
      in andthen (or_fail LMS_ERR_INVALID (lms_get_param_pair lms_type lmots_type))
        (ret \<lparr>pub_lms_type = lms_type, pub_lmots_type = lmots_type,
              pub_I = segment 8 LMS_I_LEN inp, pub_root = segment (8 + LMS_I_LEN) LMS_N inp\<rparr>))"

definition lms_private_key_serialize :: "lms_private_key_t \<Rightarrow> nat \<Rightarrow> ('w, bytes) lop" where
  "lms_private_key_serialize priv out_len =
     andthen (reject_if (out_len < LMS_PRIVATE_KEY_LEN) LMS_ERR_BUFFER_TOO_SMALL)
       (ret (lms_store_u32 (priv_lms_type priv) @ lms_store_u32 (priv_lmots_type priv) @ priv_I priv @
             priv_seed priv @ lms_store_u32 (priv_q priv)))"

definition lms_private_key_parse :: "bytes \<Rightarrow> ('w, lms_private_key_t) lop" where
  "lms_private_key_parse inp =
     andthen (reject_if (length inp \<noteq> LMS_PRIVATE_KEY_LEN) LMS_ERR_INVALID)
     (let lms_type = lms_load_u32 inp; lmots_type = lms_load_u32 (drop 4 inp)
      in bind (or_fail LMS_ERR_INVALID (lms_get_param_pair lms_type lmots_type)) (\<lambda>(lms_param, ots_param).
         let q = lms_load_u32 (drop (8 + LMS_I_LEN + LMS_SEED_LEN) inp)
         in andthen (reject_if (q > push_bit (lp_height lms_param) 1) LMS_ERR_INVALID)
           (ret \<lparr>priv_lms_type = lms_type, priv_lmots_type = lmots_type,
                 priv_I = segment 8 LMS_I_LEN inp, priv_seed = segment (8 + LMS_I_LEN) LMS_SEED_LEN inp,
                 priv_q = q\<rparr>)))"

definition lms_sign :: "lms_private_key_t \<Rightarrow> bytes \<Rightarrow> nat \<Rightarrow> ('w, lms_private_key_t \<times> bytes \<times> nat) lop" where
  "lms_sign priv message signature_len = lms_do_sign priv message signature_len"

text \<open>The comparison runs over all bytes and collects the differences.\<close>

definition lms_verify :: "lms_public_key_t \<Rightarrow> bytes \<Rightarrow> bytes \<Rightarrow> ('w, unit) lop" where
  "lms_verify pub message signature =
     bind (or_fail LMS_ERR_VERIFY (lms_root_from_signature pub message signature)) (\<lambda>root.
     let diff = fold (\<lambda>i d. d OR (root ! i XOR pub_root pub ! i)) [0..<LMS_N] (0 :: u8)
     in if diff = 0 then ret () else fail LMS_ERR_VERIFY)"

section \<open>Comparing roots\<close>

lemma fold_or_zero:
  "fold (\<lambda>i d. d OR (f i :: u8)) is d = 0 \<longleftrightarrow> d = 0 \<and> (\<forall>i \<in> set is. f i = 0)"
  by (induction "is" arbitrary: d) (auto simp: or_eq_0_iff)

lemma xor_zero_iff: "(a :: u8) XOR b = 0 \<longleftrightarrow> a = b"
proof
  assume z: "a XOR b = 0"
  have "a = (a XOR b) XOR b" by (simp only: xor.assoc xor_self_eq xor.right_neutral)
  then show "a = b" unfolding z by simp
qed simp

lemma diff_loop:
  assumes "length r = 32" and "length r' = 32"
  shows "fold (\<lambda>i d. d OR (r ! i XOR r' ! i)) [0..<LMS_N] (0 :: u8) = 0 \<longleftrightarrow> r = r'"
  using assms by (auto simp: fold_or_zero LMS_N_def xor_zero_iff list_eq_iff_nth_eq)

lemma length_sig_root [simp, len_simps]: "length (sig_root a b I m sig) = 32"
proof -
  have "length v = 32 \<Longrightarrow> length (climb (lms_intr_at alg I) n v p) = 32" for alg n v p
    by (induction p arbitrary: n v) auto
  then show ?thesis by (simp add: sig_root_def sig_leaf_def)
qed

lemma lms_params_max_height: "lms_params t = Some a \<Longrightarrow> unat (push_bit (lp_height a) 1 :: u32) = 2 ^ lp_height a"
  by (rule unat_leaf_base) (rule lp_height_bounds(1))

text \<open>The signatures a public key accepts, and that \<open>lms_verify\<close> decides it.\<close>

definition lms_accepts :: "lms_public_key_t \<Rightarrow> bytes \<Rightarrow> bytes \<Rightarrow> bool" where
  "lms_accepts pub m sig \<longleftrightarrow>
     (case param_pair (pub_lms_type pub) (pub_lmots_type pub) of
        None \<Rightarrow> False
      | Some (a, b) \<Rightarrow> sig_refusal a b pub sig = None \<and> sig_root a b (pub_I pub) m sig = pub_root pub)"

context verify_library
begin

lemma gives_lms_verify:
  assumes "length (pub_I pub) = 16" and root: "length (pub_root pub) = 32"
    and "\<And>alg. hash_fits heap alg (54 + length m)"
  shows "gives fl I (lms_verify pub m sig)
    (if lms_accepts pub m sig then Inr () else Inl LMS_ERR_VERIFY)"
proof -
  let ?r = "case param_pair (pub_lms_type pub) (pub_lmots_type pub) of
       None \<Rightarrow> Inl LMS_ERR_INVALID
     | Some (a, b) \<Rightarrow> (case sig_refusal a b pub sig of
           Some e \<Rightarrow> Inl e | None \<Rightarrow> Inr (sig_root a b (pub_I pub) m sig))"
  have r: "gives fl I (lms_root_from_signature pub m sig) ?r"
    by (rule gives_root_from_signature [OF assms(1,3)])
  show ?thesis
  proof (cases ?r)
    case (Inl e)
    then have "\<not> lms_accepts pub m sig" by (auto simp: lms_accepts_def split: option.splits)
    then show ?thesis unfolding lms_verify_def
      using r [unfolded Inl] by (simp add: gives_bind_err [OF gives_or_fail_err])
  next
    case (Inr v)
    then have v: "length v = 32" "lms_accepts pub m sig \<longleftrightarrow> v = pub_root pub"
      by (auto simp: lms_accepts_def split: option.splits)
    have cmp: "gives fl I
        (let diff = fold (\<lambda>i d. d OR (v ! i XOR pub_root pub ! i)) [0..<LMS_N] (0 :: u8)
         in if diff = 0 then ret () else fail LMS_ERR_VERIFY)
        (if lms_accepts pub m sig then Inr () else Inl LMS_ERR_VERIFY)"
      unfolding Let_def diff_loop [OF v(1) root] v(2) by (simp add: gives_ret gives_fail)
    show ?thesis unfolding lms_verify_def by (rule gives_bind [OF gives_or_fail [OF r [unfolded Inr]]]) (rule cmp)
  qed
qed

end

context tree_library
begin

lemma gives_public_key_generate:
  assumes key: "param_pair (priv_lms_type priv) (priv_lmots_type priv) = Some (a, b)"
    and J: "length (priv_I priv) = 16" and seed: "priv_seed priv = seed"
  shows "gives fl I (lms_public_key_generate priv)
    (Inr \<lparr>pub_lms_type = priv_lms_type priv, pub_lmots_type = priv_lmots_type priv, pub_I = priv_I priv,
      pub_root = lms_node a b (priv_I priv) (priv_seed priv) 1\<rparr>)"
proof -
  note p = param_pairD [OF key]
  have h: "1 < (2 :: nat) ^ Suc (lp_height a)" by (rule one_less_power) simp_all
  have root: "gives fl I (lms_tree_node priv 1)
      (Inr (lms_node a b (priv_I priv) (priv_seed priv) 1))"
    using gives_tree_node [OF assms, of 1] h by simp
  show ?thesis unfolding lms_public_key_generate_def
    by (rule gives_andthen [OF gives_or_fail [OF gives_lms_param_ok [OF p(1)]]],
        rule gives_andthen [OF gives_or_fail [OF gives_lmots_param_ok [OF p(2)]]], rule gives_bind [OF root])
      (rule gives_ret)
qed

end

section \<open>Properties\<close>

lemma sig_root_of_signature:
  assumes key: "param_pair t u = Some (a, b)" and I: "length I = 16" and C: "length C = 32"
    and q: "unat q < 2 ^ lp_height a"
  shows "sig_root a b I m (lms_signature a b I seed q C m) = lms_node a b I seed 1"
    and "pub_lms_type pub = t \<Longrightarrow> pub_lmots_type pub = u \<Longrightarrow>
      sig_refusal a b pub (lms_signature a b I seed q C m) = None"
proof -
  note p = param_pairD [OF key]
  let ?sig = "lms_signature a b I seed q C m" and ?alg = "op_hash_alg b" and ?h = "lp_height a"
  let ?ots = "ots_y ?alg b I seed q (ots_coefs b (ots_Q ?alg I q C m))"
  have ty: "op_type b = u" "lp_type a = t" using lmots_param_cases(2) [OF p(2)] lms_param_cases(2) [OF p(1)] by simp_all
  have sq: "sig_q ?sig = q" by (simp add: sig_q_def lms_signature_def)
  have C': "segment 8 32 ?sig = C" and y: "segment 40 (op_p b * 32) ?sig = ?ots"
    using C by (simp_all add: lms_signature_def)
  have path: "sig_path a b ?sig = lms_path a b I seed (unat q)"
  proof -
    have "drop (44 + op_p b * 32) ?sig = concat (lms_path a b I seed (unat q))"
      using C by (simp add: lms_signature_def)
    then show ?thesis
      using chunks_concat [of "lms_path a b I seed (unat q)", OF length_in_lms_path]
      by (simp add: sig_path_def) (simp add: lms_path_def)
  qed
  have K: "sig_ots_key b I m ?sig = ots_pub ?alg b I seed q"
    by (simp add: sig_ots_key_def Let_def sq C' y ots_candidate_of_signature [OF ots_coef_bound])
  have leaf: "sig_leaf a b I m ?sig = merkle ?h (lms_leaf_at a b I seed) (lms_intr_at ?alg I) (2 ^ ?h + unat q)"
    by (simp add: sig_leaf_def K sq merkle_leaf lms_leaf_at_def push_bit_of_1)
  have "(2 ^ ?h + unat q) div 2 ^ ?h = 1" using q by (simp add: div_nat_eqI)
  then show "sig_root a b I m ?sig = lms_node a b I seed 1"
    using climb_auth_path [of ?h "2 ^ ?h + unat q" ?h "lms_intr_at ?alg I" "lms_leaf_at a b I seed"] q
    by (simp add: sig_root_def sq leaf path lms_path_def lms_node_def)
  assume pub: "pub_lms_type pub = t" "pub_lmots_type pub = u"
  have "lms_load_u32 (drop (40 + op_p b * 32) ?sig) = t" "lms_load_u32 (drop 4 ?sig) = u"
    using C by (simp_all add: lms_signature_def ty)
  then show "sig_refusal a b pub ?sig = None"
    using q C by (simp add: sig_refusal_def sq pub lms_sig_len_def)
qed

text \<open>
  C3. Signatures verify. For every private key with agreeing typecodes, message and leaf: the
  public key is generated, signing succeeds, and \<open>lms_verify\<close> accepts the signature; key
  generation, signing and verification may each run in their own library state with their
  own mix of conforming accelerators.
\<close>

theorem lms_sign_verify:
  assumes key: "param_pair (priv_lms_type priv) (priv_lmots_type priv) = Some (a, b)"
    and I: "length (priv_I priv) = 16" and q: "unat (priv_q priv) < 2 ^ lp_height a"
    and gen: "tree_conforming E s" "\<not> env_fails E" "env_seed E = priv_seed priv"
    and sgn: "sign_conforming E' s'" "\<not> env_fails E'" "env_seed E' = priv_seed priv" "env_serves E' priv"
    and ver: "verify_conforming E'' s''" "\<not> env_fails E''"
    and fit: "\<And>alg. hash_fits (env_heap E') alg (54 + length m)" "\<And>alg. hash_fits (env_heap E'') alg (54 + length m)"
    and len: "lms_sig_len a b \<le> signature_len"
  shows "\<exists>pub sig. fst (lms_public_key_generate priv s) = Inr pub
    \<and> fst (lms_sign priv m signature_len s') = Inr (priv\<lparr>priv_q := priv_q priv + 1\<rparr>, sig, lms_sig_len a b)
    \<and> length sig = lms_sig_len a b
    \<and> fst (lms_verify pub m sig s'') = Inr ()"
proof -
  let ?root = "lms_node a b (priv_I priv) (priv_seed priv) 1"
  let ?pub = "\<lparr>pub_lms_type = priv_lms_type priv, pub_lmots_type = priv_lmots_type priv, pub_I = priv_I priv,
      pub_root = ?root\<rparr>"
  have "gives False (tree_conforming E) (lms_public_key_generate priv) (Inr ?pub)"
    using tree.gives_public_key_generate [OF key I gen(3) [symmetric]] gen(2) by simp
  then have pub: "fst (lms_public_key_generate priv s) = Inr ?pub" using gen(1) by (rule gives_run(1))
  obtain C where C: "length C = 32" and sig: "fst (lms_sign priv m signature_len s') =
      Inr (priv\<lparr>priv_q := priv_q priv + 1\<rparr>,
           lms_signature a b (priv_I priv) (priv_seed priv) (priv_q priv) C m, lms_sig_len a b)"
    using yields_run(1) [OF sign.yields_do_sign [OF key I sgn(3) [symmetric] q sgn(4) len fit(1)] sgn(1)] sgn(2)
    by (auto simp: lms_sign_def)
  let ?sig = "lms_signature a b (priv_I priv) (priv_seed priv) (priv_q priv) C m"
  have root: "sig_root a b (priv_I priv) m ?sig = ?root" and ok: "sig_refusal a b ?pub ?sig = None"
    using sig_root_of_signature [OF key I C q] by simp_all
  have "lms_accepts ?pub m ?sig" using key ok root by (simp add: lms_accepts_def)
  then have "gives False (verify_conforming E'') (lms_verify ?pub m ?sig) (Inr ())"
    using verify.gives_lms_verify [of ?pub E'' m ?sig] I fit(2) ver(2) by simp
  then have "fst (lms_verify ?pub m ?sig s'') = Inr ()" using ver(1) by (rule gives_run(1))
  then show ?thesis using pub sig C by fastforce
qed

text \<open>A genuine public key of the test key and a signature it accepts.\<close>

lemma test_key_accepts:
  "\<exists>pub sig. fst (lms_public_key_generate test_priv hash_test_lib) = Inr pub \<and> lms_accepts pub [1] sig
     \<and> length (pub_I pub) = 16 \<and> length (pub_root pub) = 32"
proof -
  let ?root = "lms_node test_lms_param test_ots_param (priv_I test_priv) (priv_seed test_priv) 1"
  let ?pub = "\<lparr>pub_lms_type = priv_lms_type test_priv, pub_lmots_type = priv_lmots_type test_priv,
      pub_I = priv_I test_priv, pub_root = ?root\<rparr>"
  let ?sig = "lms_signature test_lms_param test_ots_param (priv_I test_priv) (priv_seed test_priv) 0 (replicate 32 0) [1]"
  have I: "length (priv_I test_priv) = 16" and C: "length (replicate 32 (0 :: u8)) = 32"
    and q: "unat (0 :: u32) < 2 ^ lp_height test_lms_param"
    by (simp_all add: test_priv_def test_lms_param_def)
  have "gives False (tree_conforming test_env) (lms_public_key_generate test_priv) (Inr ?pub)"
    using tree.gives_public_key_generate [OF test_priv_facts(3) I test_priv_facts(4) [symmetric]] test_priv_facts(5) by simp
  then have "fst (lms_public_key_generate test_priv hash_test_lib) = Inr ?pub"
    using test_lib_tree_conforming by (rule gives_run(1))
  moreover have "lms_accepts ?pub [1] ?sig"
    using sig_root_of_signature [OF test_priv_facts(3) I C q, where m = "[1]" and seed = "priv_seed test_priv"]
      test_priv_facts(3) by (simp add: lms_accepts_def)
  ultimately show ?thesis using I by fastforce
qed

text \<open>Witness of C3: the test key signs and verifies in an accelerator-free library.\<close>

theorem lms_sign_verify_witness:
  "\<exists>pub sig. fst (lms_public_key_generate test_priv hash_test_lib) = Inr pub
    \<and> fst (lms_sign test_priv [1, 2, 3] 1292 hash_test_lib) = Inr (test_priv\<lparr>priv_q := 1\<rparr>, sig, 1292)
    \<and> length sig = 1292
    \<and> fst (lms_verify pub [1, 2, 3] sig hash_test_lib) = Inr ()"
proof -
  have key: "length (priv_I test_priv) = 16" "unat (priv_q test_priv) < 2 ^ lp_height test_lms_param"
    "env_serves test_env test_priv" by (simp_all add: test_priv_def test_lms_param_def test_env_def)
  have fit: "hash_fits (env_heap test_env) alg (54 + length [1 :: u8, 2, 3])" for alg by (simp add: hash_fits_small)
  have len: "lms_sig_len test_lms_param test_ots_param = 1292"
    by (simp add: lms_sig_len_def test_lms_param_def test_ots_param_def)
  show ?thesis
    using lms_sign_verify [OF test_priv_facts(3) key(1,2) test_lib_tree_conforming test_priv_facts(5,4)
        test_lib_sign_conforming test_priv_facts(5,4) key(3) test_lib_verify_conforming test_priv_facts(5) fit fit,
        of 1292] len
    by (simp add: test_priv_def)
qed

text \<open>
  C8. \<open>lms_verify\<close> is a decision procedure: with conforming, non-failing accelerators it
  returns \<open>LMS_OK\<close> exactly on the signatures whose length, leaf index and typecodes fit the key
  and whose recomputed root is the key's root, and \<open>LMS_ERR_VERIFY\<close> on everything else
  (also where \<open>lms_root_from_signature\<close> reports an invalid argument).
\<close>

theorem lms_verify_decides:
  assumes "verify_conforming E s" and "\<not> env_fails E" and "length (pub_I pub) = 16" and "length (pub_root pub) = 32"
    and "\<And>alg. hash_fits (env_heap E) alg (54 + length m)"
  shows "fst (lms_verify pub m sig s) = (if lms_accepts pub m sig then Inr () else Inl LMS_ERR_VERIFY)"
  using yields_run(1) [OF verify.gives_lms_verify [where E = E, OF assms(3,4,5), unfolded gives_def] assms(1)] assms(2) by simp

text \<open>Witness of C8: an empty signature is rejected.\<close>

theorem lms_verify_decides_witness:
  "fst (lms_verify test_pub [] [] hash_test_lib) = Inl LMS_ERR_VERIFY"
proof -
  have pub: "length (pub_I test_pub) = 16" "length (pub_root test_pub) = 32" by (simp_all add: test_pub_def)
  have fit: "hash_fits (env_heap test_env) alg (54 + length ([] :: bytes))" for alg by (simp add: hash_fits_small)
  have "\<not> lms_accepts test_pub [] []"
    by (auto simp: lms_accepts_def sig_refusal_def split: option.splits)
  then show ?thesis
    using lms_verify_decides [OF test_lib_verify_conforming test_priv_facts(5) pub fit, of "[]"] by simp
qed

text \<open>
  C7. Acceptance binds the one-time key. Let the public key be generated from a private key.
  If \<open>lms_verify\<close> accepts a signature, then the one-time public key recovered from it is the
  genuine key of leaf \<open>q\<close>, or the signature exhibits a hash collision at a definite place: at
  the leaf hash of node \<open>2 ^ h + q\<close>, or at one level of the climb, between the pair of nodes
  the signature leads through and the pair of the genuine tree.
\<close>

theorem lms_verify_binds_leaf:
  assumes key: "param_pair (priv_lms_type priv) (priv_lmots_type priv) = Some (a, b)" and I: "length (priv_I priv) = 16"
    and gen: "tree_conforming E s" "\<not> env_fails E" "env_seed E = priv_seed priv"
      "fst (lms_public_key_generate priv s) = Inr pub"
    and ver: "verify_conforming E' s'" "\<not> env_fails E'" "\<And>alg. hash_fits (env_heap E') alg (54 + length m)"
      "fst (lms_verify pub m sig s') = Inr ()"
  defines "alg \<equiv> op_hash_alg b" and "q \<equiv> sig_q sig" and "n \<equiv> 2 ^ lp_height a + unat (sig_q sig)"
  defines "genuine \<equiv> ots_pub alg b (priv_I priv) (priv_seed priv) q" and "found \<equiv> sig_ots_key b (priv_I priv) m sig"
  shows "unat q < 2 ^ lp_height a \<and>
    (found = genuine
     \<or> found \<noteq> genuine \<and> lms_leaf_hash alg (priv_I priv) (word_of_nat n) found
                            = lms_leaf_hash alg (priv_I priv) (word_of_nat n) genuine
     \<or> (\<exists>i < lp_height a.
          let here = climb_pair (lms_intr_at alg (priv_I priv)) n (sig_leaf a b (priv_I priv) m sig) (sig_path a b sig) i;
              there = climb_pair (lms_intr_at alg (priv_I priv)) n (lms_leaf_at a b (priv_I priv) (priv_seed priv) n)
                        (lms_path a b (priv_I priv) (priv_seed priv) (unat q)) i
          in here \<noteq> there
             \<and> lms_intr_at alg (priv_I priv) (n div 2 ^ Suc i) (fst here) (snd here)
               = lms_intr_at alg (priv_I priv) (n div 2 ^ Suc i) (fst there) (snd there)))"
proof -
  note p = param_pairD [OF key]
  let ?root = "lms_node a b (priv_I priv) (priv_seed priv) 1"
  have h: "1 < (2 :: nat) ^ Suc (lp_height a)" by (rule one_less_power) simp_all
  have "gives False (tree_conforming E) (lms_public_key_generate priv) (Inr \<lparr>pub_lms_type = priv_lms_type priv,
      pub_lmots_type = priv_lmots_type priv, pub_I = priv_I priv, pub_root = ?root\<rparr>)"
    using tree.gives_public_key_generate [OF key I gen(3) [symmetric]] gen(2) by simp
  from gives_run(1) [OF this gen(1)] gen(4)
  have pub: "pub_lms_type pub = priv_lms_type priv" "pub_lmots_type pub = priv_lmots_type priv"
    "pub_I pub = priv_I priv" "pub_root pub = ?root" by auto
  have "lms_accepts pub m sig"
    using yields_run(1) [OF verify.gives_lms_verify [where E = E' and sig = sig, OF _ _ ver(3), unfolded gives_def] ver(1), of pub]
      ver(2,4) pub I by (auto split: if_splits)
  then have q: "unat q < 2 ^ lp_height a" and root: "sig_root a b (priv_I priv) m sig = ?root"
    by (auto simp: lms_accepts_def pub key sig_refusal_def q_def split: if_splits)
  have n: "n div 2 ^ lp_height a = 1" "2 ^ lp_height a \<le> n" "n < 2 ^ Suc (lp_height a)"
    using q by (simp_all add: n_def q_def div_nat_eqI)
  let ?leaf = "lms_leaf_at a b (priv_I priv) (priv_seed priv) n" and ?intr = "lms_intr_at alg (priv_I priv)"
  have meet: "climb ?intr n (sig_leaf a b (priv_I priv) m sig) (sig_path a b sig)
      = climb ?intr n ?leaf (lms_path a b (priv_I priv) (priv_seed priv) (unat q))"
    using root climb_auth_path [OF n(2,3), of ?intr "lms_leaf_at a b (priv_I priv) (priv_seed priv)"] n
    by (simp add: sig_root_def lms_path_def lms_node_def merkle_leaf n_def alg_def q_def)
  have len: "length (lms_path a b (priv_I priv) (priv_seed priv) (unat q)) = length (sig_path a b sig)"
    "length (sig_path a b sig) = lp_height a"
    by (simp_all add: lms_path_def sig_path_def)
  have leaf: "sig_leaf a b (priv_I priv) m sig = lms_leaf_hash alg (priv_I priv) (word_of_nat n) found"
    "?leaf = lms_leaf_hash alg (priv_I priv) (word_of_nat n) genuine"
    by (simp_all add: sig_leaf_def lms_leaf_at_def found_def genuine_def n_def alg_def q_def push_bit_of_1)
  show ?thesis
  proof (cases "sig_leaf a b (priv_I priv) m sig = ?leaf")
    case True
    then show ?thesis using leaf q by auto
  next
    case False
    from climb_binding [OF meet len(1) False] show ?thesis using q len(2) by (auto simp: Let_def)
  qed
qed

text \<open>Witness of C7: a signature the test key accepts.\<close>

theorem lms_verify_binds_leaf_witness:
  "\<exists>pub sig. fst (lms_public_key_generate test_priv hash_test_lib) = Inr pub
     \<and> fst (lms_verify pub [1] sig hash_test_lib) = Inr () \<and> unat (sig_q sig) < 32"
proof -
  obtain pub sig where g: "fst (lms_public_key_generate test_priv hash_test_lib) = Inr pub"
    and acc: "lms_accepts pub [1] sig" and l: "length (pub_I pub) = 16" "length (pub_root pub) = 32"
    using test_key_accepts by blast
  have fit: "hash_fits (env_heap test_env) alg (54 + length [1 :: u8])" for alg by (simp add: hash_fits_small)
  have "gives False (verify_conforming test_env) (lms_verify pub [1] sig) (Inr ())"
    using verify.gives_lms_verify [OF l fit, of sig] acc test_priv_facts(5) by simp
  then have v: "fst (lms_verify pub [1] sig hash_test_lib) = Inr ()"
    using test_lib_verify_conforming by (rule gives_run(1))
  have I: "length (priv_I test_priv) = 16" by (simp add: test_priv_def)
  have "unat (sig_q sig) < 2 ^ lp_height test_lms_param"
    using lms_verify_binds_leaf [OF test_priv_facts(3) I test_lib_tree_conforming test_priv_facts(5,4) g
        test_lib_verify_conforming test_priv_facts(5) fit v] by blast
  then show ?thesis using g v by (auto simp: test_lms_param_def)
qed

section \<open>Serialisation\<close>

definition private_key_valid :: "lms_private_key_t \<Rightarrow> bool" where
  "private_key_valid priv \<longleftrightarrow> length (priv_I priv) = 16 \<and> length (priv_seed priv) = 32
     \<and> (case param_pair (priv_lms_type priv) (priv_lmots_type priv) of
          None \<Rightarrow> False | Some (a, b) \<Rightarrow> unat (priv_q priv) \<le> 2 ^ lp_height a)"

definition public_key_valid :: "lms_public_key_t \<Rightarrow> bool" where
  "public_key_valid pub \<longleftrightarrow> length (pub_I pub) = 16 \<and> length (pub_root pub) = 32
     \<and> param_pair (pub_lms_type pub) (pub_lmots_type pub) \<noteq> None"

text \<open>Four bytes survive a load and a store.\<close>

lemma store_load_u32: "length xs = 4 \<Longrightarrow> lms_store_u32 (lms_load_u32 xs) = xs"
proof -
  assume "length xs = 4"
  then obtain a b c d where xs: "xs = [a, b, c, d]" by (auto simp: length_Suc_conv eval_nat_numeral)
  have "(ucast (drop_bit 24 (lms_load_u32 xs)) :: u8) = a" "(ucast (drop_bit 16 (lms_load_u32 xs)) :: u8) = b"
    "(ucast (drop_bit 8 (lms_load_u32 xs)) :: u8) = c" "(ucast (lms_load_u32 xs) :: u8) = d"
    unfolding xs lms_load_u32_def by (rule bit_word_eqI; auto simp: bit_simps dest: bit_imp_le_length)+
  then show ?thesis unfolding lms_store_u32_def xs by simp
qed


text \<open>The layout of an encoded key, read back.\<close>

definition private_key_bytes :: "lms_private_key_t \<Rightarrow> bytes" where
  "private_key_bytes priv = lms_store_u32 (priv_lms_type priv) @ lms_store_u32 (priv_lmots_type priv) @
     priv_I priv @ priv_seed priv @ lms_store_u32 (priv_q priv)"

definition public_key_bytes :: "lms_public_key_t \<Rightarrow> bytes" where
  "public_key_bytes pub = lms_store_u32 (pub_lms_type pub) @ lms_store_u32 (pub_lmots_type pub) @
     pub_I pub @ pub_root pub"

lemma load_u32_take: "lms_load_u32 (take 4 xs) = lms_load_u32 xs"
  by (simp add: lms_load_u32_def)

lemma store_load_prefix: "4 \<le> length xs \<Longrightarrow> lms_store_u32 (lms_load_u32 xs) = take 4 xs"
  using store_load_u32 [of "take 4 xs"] by (simp add: load_u32_take)

lemma private_key_bytes_parse:
  assumes "length inp = 60"
  shows "private_key_bytes \<lparr>priv_lms_type = lms_load_u32 inp, priv_lmots_type = lms_load_u32 (drop 4 inp),
      priv_I = segment 8 16 inp, priv_seed = segment 24 32 inp, priv_q = lms_load_u32 (drop 56 inp)\<rparr> = inp"
proof -
  have "inp = take 4 inp @ take 4 (drop 4 inp) @ take 16 (drop 8 inp) @ take 32 (drop 24 inp) @ drop 56 inp"
    using assms by (simp add: list_eq_iff_nth_eq nth_append)
  then show ?thesis using assms by (simp add: private_key_bytes_def store_load_prefix store_load_u32 segment_def)
qed

lemma public_key_bytes_parse:
  assumes "length inp = 56"
  shows "public_key_bytes \<lparr>pub_lms_type = lms_load_u32 inp, pub_lmots_type = lms_load_u32 (drop 4 inp),
      pub_I = segment 8 16 inp, pub_root = segment 24 32 inp\<rparr> = inp"
proof -
  have "inp = take 4 inp @ take 4 (drop 4 inp) @ take 16 (drop 8 inp) @ drop 24 inp"
    using assms by (simp add: list_eq_iff_nth_eq nth_append)
  then show ?thesis using assms by (simp add: public_key_bytes_def store_load_prefix segment_def)
qed

lemma private_key_fields:
  assumes "private_key_valid priv"
  defines "inp \<equiv> private_key_bytes priv"
  shows "length inp = 60" and "lms_load_u32 inp = priv_lms_type priv" and "lms_load_u32 (drop 4 inp) = priv_lmots_type priv"
    and "segment 8 16 inp = priv_I priv" and "segment 24 32 inp = priv_seed priv" and "lms_load_u32 (drop 56 inp) = priv_q priv"
  using assms by (simp_all add: private_key_valid_def private_key_bytes_def)

lemma public_key_fields:
  assumes "public_key_valid pub"
  defines "inp \<equiv> public_key_bytes pub"
  shows "length inp = 56" and "lms_load_u32 inp = pub_lms_type pub" and "lms_load_u32 (drop 4 inp) = pub_lmots_type pub"
    and "segment 8 16 inp = pub_I pub" and "segment 24 32 inp = pub_root pub"
  using assms by (simp_all add: public_key_valid_def public_key_bytes_def)

definition parsed_private_key :: "bytes \<Rightarrow> lms_private_key_t" where
  "parsed_private_key inp = \<lparr>priv_lms_type = lms_load_u32 inp, priv_lmots_type = lms_load_u32 (drop 4 inp),
      priv_I = segment 8 16 inp, priv_seed = segment 24 32 inp, priv_q = lms_load_u32 (drop 56 inp)\<rparr>"

definition parsed_public_key :: "bytes \<Rightarrow> lms_public_key_t" where
  "parsed_public_key inp = \<lparr>pub_lms_type = lms_load_u32 inp, pub_lmots_type = lms_load_u32 (drop 4 inp),
      pub_I = segment 8 16 inp, pub_root = segment 24 32 inp\<rparr>"

lemma parse_bounds:
  assumes "lms_params t = Some a"
  shows "push_bit (lp_height a) 1 < (q :: u32) \<longleftrightarrow> 2 ^ lp_height a < unat q"
  using lms_params_max_height [OF assms] by (simp only: word_less_nat_alt)

lemma private_key_parse_result:
  assumes s: "statics_ok s"
  shows "fst (lms_private_key_parse inp s) =
    (if length inp = 60 \<and> private_key_valid (parsed_private_key inp) then Inr (parsed_private_key inp) else Inl LMS_ERR_INVALID)"
proof -
  let ?t = "lms_load_u32 inp" and ?u = "lms_load_u32 (drop 4 inp)"
  have pair: "fst (lms_get_param_pair ?t ?u s) = (case param_pair ?t ?u of None \<Rightarrow> Inl LMS_ERR_INVALID | Some ab \<Rightarrow> Inr ab)"
    using gives_run(1) [OF plain.gives_param_pair [of False 0]] s by (simp add: plain_state_def)
  show ?thesis
  proof (cases "param_pair ?t ?u")
    case None
    then show ?thesis using pair
      by (auto simp: lms_private_key_parse_def op_defs Let_def private_key_valid_def parsed_private_key_def split: prod.splits)
  next
    case (Some ab)
    obtain a b where ab: "ab = (a, b)" by force
    note q = parse_bounds [OF param_pairD(1) [OF Some [unfolded ab]], of "lms_load_u32 (drop 56 inp)"]
    have valid: "length inp = 60 \<Longrightarrow> private_key_valid (parsed_private_key inp) \<longleftrightarrow> \<not> push_bit (lp_height a) 1 < lms_load_u32 (drop 56 inp)"
      unfolding q using Some by (simp add: private_key_valid_def parsed_private_key_def ab not_less)
    obtain s' where ms: "lms_get_param_pair ?t ?u s = (Inr (a, b), s')" using pair Some ab by (cases "lms_get_param_pair ?t ?u s") auto
    show ?thesis
      using valid ms unfolding lms_private_key_parse_def lms_lens
      by (cases "length inp = 60"; cases "push_bit (lp_height a) 1 < lms_load_u32 (drop 56 inp)")
         (simp_all add: op_defs Let_def parsed_private_key_def)
  qed
qed

lemma public_key_parse_result:
  assumes s: "statics_ok s"
  shows "fst (lms_public_key_parse inp s) =
    (if length inp = 56 \<and> public_key_valid (parsed_public_key inp) then Inr (parsed_public_key inp) else Inl LMS_ERR_INVALID)"
proof -
  let ?t = "lms_load_u32 inp" and ?u = "lms_load_u32 (drop 4 inp)"
  have pair: "fst (lms_get_param_pair ?t ?u s) = (case param_pair ?t ?u of None \<Rightarrow> Inl LMS_ERR_INVALID | Some ab \<Rightarrow> Inr ab)"
    using gives_run(1) [OF plain.gives_param_pair [of False 0]] s by (simp add: plain_state_def)
  show ?thesis using pair unfolding lms_public_key_parse_def lms_lens
    by (cases "length inp = 56")
      (auto simp: op_defs Let_def public_key_valid_def parsed_public_key_def split: prod.splits option.splits sum.splits)
qed

text \<open>
  C20. Serialised private keys. Parsing accepts exactly the 60-byte encodings of valid keys
  (known typecodes with one hash function, \<open>q\<close> at most \<open>2 ^ h\<close>): it returns \<open>priv\<close> if and only
  if \<open>priv\<close> is valid and serialises to the input, so a stored counter is restored as it was and
  no two inputs give one key. All other inputs are \<open>LMS_ERR_INVALID\<close>.
\<close>

theorem lms_private_key_roundtrip:
  assumes "statics_ok s" and "60 \<le> out_len"
  shows "(fst (lms_private_key_parse inp s) = Inr priv \<longleftrightarrow>
      private_key_valid priv \<and> fst (lms_private_key_serialize priv out_len s) = Inr inp)
    \<and> (isl (fst (lms_private_key_parse inp s)) \<longrightarrow> fst (lms_private_key_parse inp s) = Inl LMS_ERR_INVALID)"
proof -
  have ser: "fst (lms_private_key_serialize priv out_len s) = Inr (private_key_bytes priv)" for priv
    using assms(2) by (simp add: lms_private_key_serialize_def private_key_bytes_def op_defs lms_lens)
  have "parsed_private_key (private_key_bytes priv) = priv" if "private_key_valid priv" for priv
    by (cases priv) (use private_key_fields [OF that] in \<open>simp add: parsed_private_key_def\<close>)
  moreover have "private_key_bytes (parsed_private_key inp) = inp" if "length inp = 60"
    using private_key_bytes_parse [OF that] by (simp add: parsed_private_key_def)
  ultimately show ?thesis
    using private_key_fields(1) [of priv] unfolding ser private_key_parse_result [OF assms(1)] by auto
qed

text \<open>Witness of C20: the test key written and read back, and a counter past the tree refused.\<close>

theorem lms_private_key_roundtrip_witness:
  "(\<exists>inp. fst (lms_private_key_serialize test_priv 60 hash_test_lib) = Inr inp
      \<and> fst (lms_private_key_parse inp hash_test_lib) = Inr test_priv)
   \<and> fst (lms_private_key_parse [] hash_test_lib) = Inl LMS_ERR_INVALID"
proof -
  have s: "statics_ok hash_test_lib" using test_lib_plain by (simp add: plain_state_def)
  have v: "private_key_valid test_priv"
    using test_priv_facts(3) by (simp add: private_key_valid_def) (simp add: test_priv_def)
  have ser: "fst (lms_private_key_serialize test_priv 60 hash_test_lib) = Inr (private_key_bytes test_priv)"
    by (simp add: lms_private_key_serialize_def private_key_bytes_def op_defs lms_lens)
  have nov: "\<not> (private_key_valid p \<and> fst (lms_private_key_serialize p 60 hash_test_lib) = Inr [])" for p
    by (auto simp: lms_private_key_serialize_def op_defs lms_lens lms_store_u32_def)
  show ?thesis
    using lms_private_key_roundtrip [OF s order_refl, of "private_key_bytes test_priv" test_priv] v ser
      lms_private_key_roundtrip [OF s order_refl, of "[]"] nov
    by (cases "fst (lms_private_key_parse [] hash_test_lib)") auto
qed

text \<open>
  C21. Serialised public keys: the parser accepts exactly the 56-byte encodings of keys with
  known, agreeing typecodes, and returns the key that was written.
\<close>

theorem lms_public_key_roundtrip:
  assumes "statics_ok s" and "56 \<le> out_len"
  shows "(fst (lms_public_key_parse inp s) = Inr pub \<longleftrightarrow>
      public_key_valid pub \<and> fst (lms_public_key_serialize pub out_len s) = Inr inp)
    \<and> (isl (fst (lms_public_key_parse inp s)) \<longrightarrow> fst (lms_public_key_parse inp s) = Inl LMS_ERR_INVALID)"
proof -
  have ser: "fst (lms_public_key_serialize pub out_len s) = Inr (public_key_bytes pub)" for pub
    using assms(2) by (simp add: lms_public_key_serialize_def public_key_bytes_def op_defs lms_lens)
  have "parsed_public_key (public_key_bytes pub) = pub" if "public_key_valid pub" for pub
    by (cases pub) (use public_key_fields [OF that] in \<open>simp add: parsed_public_key_def\<close>)
  moreover have "public_key_bytes (parsed_public_key inp) = inp" if "length inp = 56"
    using public_key_bytes_parse [OF that] by (simp add: parsed_public_key_def)
  ultimately show ?thesis
    using public_key_fields(1) [of pub] unfolding ser public_key_parse_result [OF assms(1)] by auto
qed

text \<open>Witness of C21: a public key read back.\<close>

theorem lms_public_key_roundtrip_witness:
  "fst (lms_public_key_parse (public_key_bytes test_pub) hash_test_lib) = Inr test_pub"
proof -
  have s: "statics_ok hash_test_lib" using test_lib_plain by (simp add: plain_state_def)
  have v: "public_key_valid test_pub"
    using test_priv_facts(3) by (simp add: public_key_valid_def test_pub_def test_priv_def)
  have ser: "fst (lms_public_key_serialize test_pub 56 hash_test_lib) = Inr (public_key_bytes test_pub)"
    by (simp add: lms_public_key_serialize_def public_key_bytes_def op_defs lms_lens)
  show ?thesis
    using lms_public_key_roundtrip [OF s order_refl, of "public_key_bytes test_pub" test_pub] v ser by simp
qed


section \<open>A signing session\<close>

text \<open>A client that signs a list of messages one after the other and keeps the returned key;
  a failed call leaves the key as it was. The outcome is the released signatures in order, the
  key and the library state.\<close>

fun sign_session :: "nat \<Rightarrow> lms_private_key_t \<Rightarrow> bytes list \<Rightarrow> 'w lms_lib \<Rightarrow> bytes list \<times> lms_private_key_t \<times> 'w lms_lib" where
  "sign_session n priv [] s = ([], priv, s)"
| "sign_session n priv (m # ms) s =
     (case lms_sign priv m n s of
        (Inl _, s') \<Rightarrow> sign_session n priv ms s'
      | (Inr (priv', sig, written), s') \<Rightarrow>
          (case sign_session n priv' ms s' of (sigs, p, t) \<Rightarrow> (sig # sigs, p, t)))"

lemma sig_q_of_signature: "sig_q (lms_signature a b I seed q C m) = q"
  by (simp add: sig_q_def lms_signature_def)

text \<open>One call in a state whose accelerators may fail: it releases nothing and keeps the key,
  or releases a signature of leaf \<open>q\<close> below \<open>2 ^ h\<close> and returns the key at \<open>q + 1\<close>.\<close>

lemma sign_step:
  assumes key: "param_pair (priv_lms_type priv) (priv_lmots_type priv) = Some (a, b)"
    and I: "length (priv_I priv) = 16" and seed: "env_seed E = priv_seed priv" and serves: "env_serves E priv"
    and s: "sign_conforming E s" and fit: "hash_fits (env_heap E) (op_hash_alg b) (54 + length m)"
  shows "sign_conforming E (snd (lms_sign priv m n s))
    \<and> (isl (fst (lms_sign priv m n s)) \<or> unat (priv_q priv) < 2 ^ lp_height a \<and>
       (\<exists>sig. fst (lms_sign priv m n s) = Inr (priv\<lparr>priv_q := priv_q priv + 1\<rparr>, sig, lms_sig_len a b) \<and> sig_q sig = priv_q priv))"
proof (cases "sign_refusal priv n")
  case (Some e)
  show ?thesis
    using yields_run [OF sign.gives_do_sign_refused [OF Some, unfolded gives_def] s, of m] by (auto simp: lms_sign_def)
next
  case None
  then have q: "unat (priv_q priv) < 2 ^ lp_height a" and len: "lms_sig_len a b \<le> n"
    using param_pairD [OF key] by (auto simp: sign_refusal_def split: option.splits if_splits)
  show ?thesis
    using yields_run [OF sign.yields_do_sign [OF key I seed [symmetric] q serves len fit] s] q
    by (auto simp: lms_sign_def sig_q_of_signature)
qed

text \<open>
  C2. One-time keys are used once. However many messages are signed in a row, with
  accelerators that may fail at any call and buffers of any size, the released signatures
  carry the leaf indices \<open>q, q + 1, q + 2, \<dots>\<close> without gap or repetition, none reaches \<open>2 ^ h\<close>,
  and the key that comes out of the session points to the first unused leaf.
\<close>

theorem lms_no_leaf_reuse:
  assumes "param_pair (priv_lms_type priv) (priv_lmots_type priv) = Some (a, b)"
    and "length (priv_I priv) = 16" and "env_seed E = priv_seed priv" and "\<And>q. env_serves E (priv\<lparr>priv_q := q\<rparr>)"
    and "sign_conforming E s" and "\<And>m. m \<in> set ms \<Longrightarrow> hash_fits (env_heap E) (op_hash_alg b) (54 + length m)"
    and "unat (priv_q priv) \<le> 2 ^ lp_height a"
    and "sign_session n priv ms s = (sigs, priv', t)"
  shows "map (\<lambda>sig. unat (sig_q sig)) sigs = [unat (priv_q priv) ..< unat (priv_q priv) + length sigs]
    \<and> unat (priv_q priv) + length sigs \<le> 2 ^ lp_height a
    \<and> priv' = priv\<lparr>priv_q := priv_q priv + word_of_nat (length sigs)\<rparr>"
  using assms
proof (induction ms arbitrary: priv s sigs)
  case Nil
  then show ?case by simp
next
  case (Cons m ms)
  note key = Cons.prems(1)
  have fit: "\<And>m'. m' \<in> set ms \<Longrightarrow> hash_fits (env_heap E) (op_hash_alg b) (54 + length m')" using Cons.prems(6) by simp
  have serves: "env_serves E priv" using Cons.prems(4) [of "priv_q priv"] by simp
  obtain r s' where run: "lms_sign priv m n s = (r, s')" by force
  note step = sign_step [OF Cons.prems(1-3) serves Cons.prems(5), of m n, unfolded run fst_conv snd_conv]
  have s': "sign_conforming E s'" using step Cons.prems(6) by simp
  show ?case
  proof (cases r)
    case (Inl e)
    then show ?thesis using Cons.IH [OF Cons.prems(1-4) s' fit Cons.prems(7)] Cons.prems(8) run by simp
  next
    case (Inr x)
    obtain sig where q: "unat (priv_q priv) < 2 ^ lp_height a"
      and x: "x = (priv\<lparr>priv_q := priv_q priv + 1\<rparr>, sig, lms_sig_len a b)" "sig_q sig = priv_q priv"
      using step Cons.prems(6) Inr by auto
    let ?p = "priv\<lparr>priv_q := priv_q priv + 1\<rparr>"
    obtain sigs' where rest: "sign_session n ?p ms s' = (sigs', priv', t)" and sigs: "sigs = sig # sigs'"
      using Cons.prems(8) run Inr x by (auto split: prod.splits)
    have "(2 :: nat) ^ lp_height a \<le> 2 ^ 25"
      using lp_height_bounds(1) [OF param_pairD(1) [OF key]] by (rule power_increasing) simp
    then have u: "unat (priv_q priv + 1) = Suc (unat (priv_q priv))"
      using q by (simp only: unat_plus_if') simp
    have "map (\<lambda>sig. unat (sig_q sig)) sigs' = [unat (priv_q ?p) ..< unat (priv_q ?p) + length sigs']
        \<and> unat (priv_q ?p) + length sigs' \<le> 2 ^ lp_height a
        \<and> priv' = ?p\<lparr>priv_q := priv_q ?p + word_of_nat (length sigs')\<rparr>"
      by (rule Cons.IH) (use Cons.prems s' fit rest u q in simp_all)
    moreover have "[unat (priv_q priv) ..< unat (priv_q priv) + length sigs] =
        unat (priv_q priv) # [Suc (unat (priv_q priv)) ..< Suc (unat (priv_q priv)) + length sigs']"
      by (simp add: sigs upt_conv_Cons del: upt_Suc)
    ultimately show ?thesis using u x(2) by (simp add: sigs algebra_simps del: upt_Suc)
  qed
qed

text \<open>Witness of C2: three calls on the test key, the last with the key exhausted.\<close>

theorem lms_no_leaf_reuse_witness:
  "case sign_session 1292 (test_priv\<lparr>priv_q := 30\<rparr>) [[1], [2], [3]] hash_test_lib of (sigs, priv', t) \<Rightarrow>
     length sigs \<le> 2 \<and> map (\<lambda>sig. unat (sig_q sig)) sigs = [30 ..< 30 + length sigs]"
proof -
  let ?p = "test_priv\<lparr>priv_q := 30\<rparr>"
  obtain sigs priv' t where run: "sign_session 1292 ?p [[1], [2], [3]] hash_test_lib = (sigs, priv', t)"
    by (metis prod_cases3)
  have p: "param_pair (priv_lms_type ?p) (priv_lmots_type ?p) = Some (test_lms_param, test_ots_param)"
    "length (priv_I ?p) = 16" "env_seed test_env = priv_seed ?p" "\<And>q. env_serves test_env (?p\<lparr>priv_q := q\<rparr>)"
    "unat (priv_q ?p) \<le> 2 ^ lp_height test_lms_param"
    using test_priv_facts by (simp_all add: test_priv_def test_env_def test_lms_param_def)
  have fit: "hash_fits (env_heap test_env) (op_hash_alg test_ots_param) (54 + length m)"
    if "m \<in> set [[1 :: u8], [2], [3]]" for m using that by (auto intro: hash_fits_small)
  show ?thesis
    using lms_no_leaf_reuse [OF p(1-4) test_lib_sign_conforming fit p(5) run]
    unfolding run by (simp add: test_lms_param_def)
qed

end
