(* ===== verification/Software_Library.thy ===== *)
theory Software_Library
  imports Lms_Api
begin

text \<open>
  The library with no accelerator registered, as on the host and in the software build of the
  firmware, and the keys it works with.
\<close>

section \<open>The library without accelerators\<close>

text \<open>Correct static state, a heap of \<open>h\<close> bytes, no backend registered. Every seed is then served, since no
  accelerator holds one.\<close>

definition software_state :: "nat \<Rightarrow> 'w lms_lib \<Rightarrow> bool" where
  "software_state h s \<longleftrightarrow> plain_state h s \<and> keygen_chain_backend s = None \<and> verify_chain_backend s = None
     \<and> sign_chain_backend s = None \<and> keygen_derive_backend s = None \<and> keygen_backend s = None \<and> sign_backend s = None
     \<and> verify_backend s = None \<and> verify_leaf_backend s = None \<and> sign_derive_backend s = None \<and> sign_randomizer_backend s = None
     \<and> intr_backend s = None \<and> message_hash_backend s = None \<and> coef_backend s = None \<and> auth_path_backend s = None
     \<and> verify_authpath_backend s = None"

interpretation soft: sign_library "software_state h" h False "\<lambda>_. True" seed False "\<lambda>_. True" for h seed
  by unfold_locales (auto simp: software_state_def plain_state_def set_statics_def statics_ok_def haraka_ok_def)

interpretation softv: verify_library "software_state h" h False "\<lambda>_. True" seed False for h seed
  by unfold_locales (auto simp: software_state_def)

section \<open>One key\<close>

definition sig_len_of :: "u32 \<Rightarrow> u32 \<Rightarrow> nat" where
  "sig_len_of t u = (case param_pair t u of None \<Rightarrow> 0 | Some (a, b) \<Rightarrow> lms_sig_len a b)"

definition lms_public_of :: "lms_private_key_t \<Rightarrow> lms_public_key_t" where
  "lms_public_of priv = \<lparr>pub_lms_type = priv_lms_type priv, pub_lmots_type = priv_lmots_type priv, pub_I = priv_I priv,
     pub_root = (case param_pair (priv_lms_type priv) (priv_lmots_type priv) of
        None \<Rightarrow> [] | Some (a, b) \<Rightarrow> lms_node a b (priv_I priv) (priv_seed priv) 1)\<rparr>"

definition key_leaves :: "lms_private_key_t \<Rightarrow> nat" where
  "key_leaves priv = (case lms_params (priv_lms_type priv) of None \<Rightarrow> 0 | Some a \<Rightarrow> 2 ^ lp_height a)"

lemma private_key_validE:
  assumes "private_key_valid priv"
  obtains a b where "param_pair (priv_lms_type priv) (priv_lmots_type priv) = Some (a, b)" "lms_params (priv_lms_type priv) = Some a"
    "length (priv_I priv) = 16" "length (priv_seed priv) = 32" "key_leaves priv = 2 ^ lp_height a" "unat (priv_q priv) \<le> key_leaves priv"
proof -
  obtain a b where ab: "param_pair (priv_lms_type priv) (priv_lmots_type priv) = Some (a, b)" "unat (priv_q priv) \<le> 2 ^ lp_height a"
    using assms by (auto simp: private_key_valid_def split: option.splits)
  note p = param_pairD [OF ab(1)]
  show thesis using that [of a b] ab p assms by (simp add: private_key_valid_def key_leaves_def)
qed

lemma lms_public_of_q [simp]: "lms_public_of (priv\<lparr>priv_q := q\<rparr>) = lms_public_of priv"
  by (simp add: lms_public_of_def split: option.split)

lemma public_of_valid: "private_key_valid priv \<Longrightarrow> public_key_valid (lms_public_of priv)"
  by (elim private_key_validE) (simp add: public_key_valid_def lms_public_of_def)

lemma parsed_public_key_bytes: "public_key_valid pub \<Longrightarrow> parsed_public_key (public_key_bytes pub) = pub"
  by (cases pub) (use public_key_fields [of pub] in \<open>simp add: parsed_public_key_def\<close>)

lemma gives_public_of:
  "private_key_valid priv \<Longrightarrow> gives False (software_state h) (lms_public_key_generate priv) (Inr (lms_public_of priv))"
proof (elim private_key_validE)
  fix a b assume k: "param_pair (priv_lms_type priv) (priv_lmots_type priv) = Some (a, b)" "length (priv_I priv) = 16"
  show ?thesis using soft.gives_public_key_generate [OF k refl] k by (simp add: lms_public_of_def)
qed

lemma key_leaves_bounds: "private_key_valid priv \<Longrightarrow> 2 \<le> key_leaves priv \<and> key_leaves priv \<le> 2 ^ 25"
proof (elim private_key_validE)
  fix a assume k: "lms_params (priv_lms_type priv) = Some a" "key_leaves priv = 2 ^ lp_height a"
  have "2 ^ 1 \<le> (2 :: nat) ^ lp_height a" using lp_height_bounds(2) [OF k(1)] by (intro power_increasing) simp_all
  moreover have "(2 :: nat) ^ lp_height a \<le> 2 ^ 25" using lp_height_bounds(1) [OF k(1)] by (intro power_increasing) simp_all
  ultimately show ?thesis using k(2) by simp
qed

end
