(* ===== verification/Hss.thy ===== *)
theory Hss
  imports Software_Library
begin

text \<open>
  \<open>src/hss.c\<close>, the hierarchical signatures of RFC 8554: a chain of LMS keys in which every key but
  the last signs the public key of the next one, with the keys derived from a master seed and
  regenerated when they are used up.

  A private key buffer that a failing function leaves half-written is not part of the model:
  \<open>hss_sign\<close> works on a copy that it drops on every error, and after a failed
  \<open>hss_private_key_init\<close> there is no key.
\<close>

section \<open>The code\<close>

definition HSS_MAX_LEVELS :: nat where "HSS_MAX_LEVELS = 8"
definition HSS_MASTER_SEED_LEN :: nat where "HSS_MASTER_SEED_LEN = 32"
definition HSS_GENERATION_LEN :: nat where "HSS_GENERATION_LEN = 32"
definition HSS_PUBLIC_KEY_LEN :: nat where "HSS_PUBLIC_KEY_LEN = 4 + LMS_PUBLIC_KEY_LEN"
definition LMS_MAX_SIGNATURE_LEN :: nat where
  "LMS_MAX_SIGNATURE_LEN = 4 + 4 + LMS_N + LMS_MAX_OTS_P * LMS_N + 4 + LMS_MAX_HEIGHT * LMS_N"

record hss_public_key_t =
  hpub_levels :: u32
  hpub_root_pub :: lms_public_key_t

record hss_private_key_t =
  hss_levels :: u32
  hss_master_seed :: bytes
  hss_lms_types :: "u32 list"
  hss_lmots_types :: "u32 list"
  hss_generation :: "bytes list"
  hss_keys :: "lms_private_key_t list"
  hss_pubs :: "lms_public_key_t list"
  hss_cert_len :: "nat list"
  hss_cert_sig :: "bytes list"

text \<open>\<open>sizeof(hss_private_key_t)\<close> with a 32-bit \<open>size_t\<close>, which \<open>hss_sign\<close> asks of \<open>malloc\<close>.\<close>

definition HSS_PRIVATE_KEY_SIZE :: nat where
  "HSS_PRIVATE_KEY_SIZE = 4 + 32 + 8 * 4 + 8 * 4 + 8 * 32 + 8 * 60 + 8 * 56 + 7 * 4 + 7 * LMS_MAX_SIGNATURE_LEN"

definition lms_capacity :: "lms_private_key_t \<Rightarrow> ('w, u32) lop" where
  "lms_capacity key =
     bind (or_fail LMS_ERR_INVALID (lms_get_lms_param (priv_lms_type key))) (\<lambda>param.
     ret (push_bit (lp_height param) 1))"

definition derive_level_material :: "hss_private_key_t \<Rightarrow> nat \<Rightarrow> bytes \<Rightarrow> ('w, bytes \<times> bytes) lop" where
  "derive_level_material priv level generation =
     bind (or_fail LMS_ERR_INVALID (lms_get_lms_param (hss_lms_types priv ! level))) (\<lambda>lms_param.
     let hash_alg = lp_hash_alg lms_param;
         input = hss_master_seed priv @ lms_store_u32 (word_of_nat level) @ generation
     in bind (or_fail LMS_ERR_INVALID (lms_hash hash_alg (input @ [0x49]) LMS_N)) (\<lambda>digest.
        bind (or_fail LMS_ERR_INVALID (lms_hash hash_alg (input @ [0x53]) LMS_SEED_LEN)) (\<lambda>seed.
        ret (take LMS_I_LEN digest, seed))))"

definition build_level :: "nat \<Rightarrow> hss_private_key_t \<Rightarrow> ('w, hss_private_key_t) lop" where
  "build_level level priv =
     bind (or_fail LMS_ERR_INVALID (derive_level_material priv level (hss_generation priv ! level))) (\<lambda>(I, seed).
     bind (or_fail LMS_ERR_INVALID
             (lms_private_key_init (hss_lms_types priv ! level) (hss_lmots_types priv ! level) I seed)) (\<lambda>key.
     bind (or_fail_call LMS_ERR_INVALID (lms_public_key_generate key)) (\<lambda>pub.
     ret (priv\<lparr>hss_keys := (hss_keys priv)[level := key], hss_pubs := (hss_pubs priv)[level := pub]\<rparr>))))"

text \<open>The loop of \<open>increment_generation\<close> runs from the last byte; \<open>None\<close> is the overflow.\<close>

fun increment_bytes :: "bytes \<Rightarrow> bytes option" where
  "increment_bytes [] = None"
| "increment_bytes (b # bs) = (if b + 1 \<noteq> 0 then Some ((b + 1) # bs) else map_option ((#) 0) (increment_bytes bs))"

definition increment_generation :: "bytes \<Rightarrow> ('w, bytes) lop" where
  "increment_generation generation =
     (case increment_bytes (rev generation) of None \<Rightarrow> fail LMS_ERR_EXHAUSTED | Some g \<Rightarrow> ret (rev g))"

definition sign_child_certificate :: "nat \<Rightarrow> hss_private_key_t \<Rightarrow> ('w, hss_private_key_t) lop" where
  "sign_child_certificate parent_level priv =
     andthen (reject_if (parent_level + 1 \<ge> unat (hss_levels priv)) LMS_ERR_INVALID)
     (bind (or_fail LMS_ERR_INVALID (lms_public_key_serialize (hss_pubs priv ! (parent_level + 1)) LMS_PUBLIC_KEY_LEN)) (\<lambda>child_pub.
      bind (or_fail_call LMS_ERR_EXHAUSTED (lms_sign (hss_keys priv ! parent_level) child_pub LMS_MAX_SIGNATURE_LEN)) (\<lambda>(key, sig, sig_len).
      ret (priv\<lparr>hss_keys := (hss_keys priv)[parent_level := key],
                hss_cert_sig := (hss_cert_sig priv)[parent_level := overwrite 0 sig (hss_cert_sig priv ! parent_level)],
                hss_cert_len := (hss_cert_len priv)[parent_level := sig_len]\<rparr>))))"

text \<open>The three steps that \<open>refresh_level_if_exhausted\<close> takes for a level, first for the exhausted one
  and then for every level below it.\<close>

definition rebuild_level :: "nat \<Rightarrow> hss_private_key_t \<Rightarrow> ('w, hss_private_key_t) lop" where
  "rebuild_level level priv =
     bind (or_fail LMS_ERR_EXHAUSTED (increment_generation (hss_generation priv ! level))) (\<lambda>g.
     bind (or_fail_call LMS_ERR_INVALID (build_level level (priv\<lparr>hss_generation := (hss_generation priv)[level := g]\<rparr>))) (\<lambda>priv.
     or_fail_call LMS_ERR_EXHAUSTED (sign_child_certificate (level - 1) priv)))"

fun refresh_level_if_exhausted :: "nat \<Rightarrow> hss_private_key_t \<Rightarrow> ('w, hss_private_key_t) lop" where
  "refresh_level_if_exhausted level priv =
     bind (or_fail LMS_ERR_INVALID (lms_capacity (hss_keys priv ! level))) (\<lambda>cap.
     if priv_q (hss_keys priv ! level) < cap then ret priv
     else case level of
       0 \<Rightarrow> fail LMS_ERR_EXHAUSTED
     | Suc upper \<Rightarrow>
         bind (or_fail_call LMS_ERR_EXHAUSTED (refresh_level_if_exhausted upper priv)) (\<lambda>priv.
         bind (rebuild_level level priv) (\<lambda>priv.
         fold_each rebuild_level [level + 1..<unat (hss_levels priv)] priv)))"

text \<open>The agreement of two parameter sets that \<open>hss_private_key_init\<close> requires.\<close>

definition same_hash_levels :: "u32 list \<Rightarrow> u32 list \<Rightarrow> nat \<Rightarrow> ('w, unit) lop" where
  "same_hash_levels lms_types lmots_types i =
     bind (or_fail LMS_ERR_INVALID (lms_get_lms_param (lms_types ! 0))) (\<lambda>p0.
     bind (or_fail LMS_ERR_INVALID (lms_get_lms_param (lms_types ! i))) (\<lambda>pi.
     bind (or_fail LMS_ERR_INVALID (lms_get_lmots_param (lmots_types ! 0))) (\<lambda>o0.
     bind (or_fail LMS_ERR_INVALID (lms_get_lmots_param (lmots_types ! i))) (\<lambda>oi.
     reject_if (lp_hash_alg p0 \<noteq> lp_hash_alg pi \<or> op_hash_alg o0 \<noteq> op_hash_alg oi \<or> lp_hash_alg p0 \<noteq> op_hash_alg o0) LMS_ERR_INVALID))))"

text \<open>A cleared key, after the \<open>memset\<close>.\<close>

definition hss_cleared :: "u32 \<Rightarrow> bytes \<Rightarrow> hss_private_key_t" where
  "hss_cleared levels master_seed =
     \<lparr>hss_levels = levels, hss_master_seed = master_seed, hss_lms_types = replicate 8 0, hss_lmots_types = replicate 8 0,
      hss_generation = replicate 8 (replicate 32 0),
      hss_keys = replicate 8 \<lparr>priv_lms_type = 0, priv_lmots_type = 0, priv_I = replicate 16 0, priv_seed = replicate 32 0, priv_q = 0\<rparr>,
      hss_pubs = replicate 8 \<lparr>pub_lms_type = 0, pub_lmots_type = 0, pub_I = replicate 16 0, pub_root = replicate 32 0\<rparr>,
      hss_cert_len = replicate 7 0, hss_cert_sig = replicate 7 (replicate LMS_MAX_SIGNATURE_LEN 0)\<rparr>"

definition set_level_types :: "u32 list \<Rightarrow> u32 list \<Rightarrow> nat \<Rightarrow> hss_private_key_t \<Rightarrow> hss_private_key_t" where
  "set_level_types lms_types lmots_types i priv =
     priv\<lparr>hss_lms_types := (hss_lms_types priv)[i := lms_types ! i], hss_lmots_types := (hss_lmots_types priv)[i := lmots_types ! i]\<rparr>"

definition hss_private_key_init :: "u32 \<Rightarrow> u32 list \<Rightarrow> u32 list \<Rightarrow> bytes \<Rightarrow> ('w, hss_private_key_t) lop" where
  "hss_private_key_init levels lms_types lmots_types master_seed =
     andthen (reject_if (levels = 0 \<or> unat levels > HSS_MAX_LEVELS) LMS_ERR_INVALID)
     (andthen (for_each (same_hash_levels lms_types lmots_types) [1..<unat levels])
     (bind (fold_each (\<lambda>i priv. or_fail_call LMS_ERR_INVALID (build_level i (set_level_types lms_types lmots_types i priv)))
              [0..<unat levels] (hss_cleared levels master_seed)) (\<lambda>priv.
      fold_each (\<lambda>i priv. or_fail_call LMS_ERR_EXHAUSTED (sign_child_certificate i priv)) [0..<unat levels - 1] priv)))"

definition hss_public_key_generate :: "hss_private_key_t \<Rightarrow> ('w, hss_public_key_t) lop" where
  "hss_public_key_generate priv =
     andthen (reject_if (hss_levels priv = 0) LMS_ERR_INVALID)
       (ret \<lparr>hpub_levels = hss_levels priv, hpub_root_pub = hss_pubs priv ! 0\<rparr>)"

definition hss_public_key_serialize :: "hss_public_key_t \<Rightarrow> nat \<Rightarrow> ('w, bytes) lop" where
  "hss_public_key_serialize pub out_len =
     andthen (reject_if (out_len < HSS_PUBLIC_KEY_LEN) LMS_ERR_BUFFER_TOO_SMALL)
     (bind (lms_public_key_serialize (hpub_root_pub pub) (out_len - 4)) (\<lambda>root.
      ret (lms_store_u32 (hpub_levels pub) @ root)))"

definition hss_public_key_parse :: "bytes \<Rightarrow> ('w, hss_public_key_t) lop" where
  "hss_public_key_parse inp =
     andthen (reject_if (length inp \<noteq> HSS_PUBLIC_KEY_LEN) LMS_ERR_INVALID)
     (let levels = lms_load_u32 inp
      in andthen (reject_if (levels = 0 \<or> unat levels > HSS_MAX_LEVELS) LMS_ERR_INVALID)
         (bind (lms_public_key_parse (drop 4 inp)) (\<lambda>root.
          ret \<lparr>hpub_levels = levels, hpub_root_pub = root\<rparr>)))"

text \<open>Lengths: 0 when a certificate is missing or the last level has no parameters.\<close>

definition hss_signature_len :: "hss_private_key_t \<Rightarrow> ('w, nat) lop" where
  "hss_signature_len priv =
     (let certs = take (unat (hss_levels priv) - 1) (hss_cert_len priv)
      in if hss_levels priv = 0 \<or> 0 \<in> set certs then ret 0
         else bind (lms_signature_len (hss_lms_types priv ! (unat (hss_levels priv) - 1)) (hss_lmots_types priv ! (unat (hss_levels priv) - 1))) (\<lambda>final_len.
              ret (if final_len = 0 then 0 else 4 + (\<Sum>c\<leftarrow>certs. c + LMS_PUBLIC_KEY_LEN) + final_len)))"

definition hss_sign :: "hss_private_key_t \<Rightarrow> bytes \<Rightarrow> nat \<Rightarrow> ('w, hss_private_key_t \<times> bytes \<times> nat) lop" where
  "hss_sign priv message signature_len =
     andthen (reject_if (hss_levels priv = 0) LMS_ERR_INVALID)
     (bind (hss_signature_len priv) (\<lambda>needed.
      andthen (reject_if (needed = 0 \<or> signature_len < needed) LMS_ERR_BUFFER_TOO_SMALL)
      (bind (look malloc_limit) (\<lambda>limit.
       andthen (reject_if (limit < HSS_PRIVATE_KEY_SIZE) LMS_ERR_INVALID)
       (bind (or_fail_call LMS_ERR_EXHAUSTED (refresh_level_if_exhausted (unat (hss_levels priv) - 1) priv)) (\<lambda>priv.
        let last = unat (hss_levels priv) - 1
        in bind (for_each (\<lambda>i.
               bind (or_fail LMS_ERR_INVALID (lms_public_key_serialize (hss_pubs priv ! (i + 1)) LMS_PUBLIC_KEY_LEN)) (\<lambda>child_pub.
               ret (take (hss_cert_len priv ! i) (hss_cert_sig priv ! i) @ child_pub))) [0..<last]) (\<lambda>certs.
           let head = lms_store_u32 (hss_levels priv - 1) @ concat certs
           in bind (or_fail_call LMS_ERR_EXHAUSTED (lms_sign (hss_keys priv ! last) message (signature_len - length head))) (\<lambda>(key, sig, final_len).
              ret (priv\<lparr>hss_keys := (hss_keys priv)[last := key]\<rparr>, head @ sig, length head + final_len)))))))))"

text \<open>The loop of \<open>hss_verify\<close> over the remaining levels: the key that has to verify the rest of the
  signature, and that rest. An offset past the end, which the code asks for after the loop, is a
  rest of negative length: the length check of every round leaves none.\<close>

fun verify_certificates :: "nat \<Rightarrow> lms_public_key_t \<Rightarrow> bytes \<Rightarrow> ('w, lms_public_key_t \<times> bytes) lop" where
  "verify_certificates 0 current rest = ret (current, rest)"
| "verify_certificates (Suc n) current rest =
     bind (lms_signature_len (pub_lms_type current) (pub_lmots_type current)) (\<lambda>cert_len.
     andthen (reject_if (cert_len = 0 \<or> cert_len + LMS_PUBLIC_KEY_LEN > length rest) LMS_ERR_INVALID)
     (let child_pub = segment cert_len LMS_PUBLIC_KEY_LEN rest
      in andthen (or_fail LMS_ERR_VERIFY (lms_verify current child_pub (take cert_len rest)))
         (bind (or_fail LMS_ERR_VERIFY (lms_public_key_parse child_pub)) (\<lambda>next_pub.
          verify_certificates n next_pub (drop (cert_len + LMS_PUBLIC_KEY_LEN) rest)))))"

definition hss_verify :: "hss_public_key_t \<Rightarrow> bytes \<Rightarrow> bytes \<Rightarrow> ('w, unit) lop" where
  "hss_verify pub message signature =
     andthen (reject_if (hpub_levels pub = 0) LMS_ERR_INVALID)
     (andthen (reject_if (length signature < 4) LMS_ERR_INVALID)
     (let levels = lms_load_u32 signature + 1
      in andthen (reject_if (levels \<noteq> hpub_levels pub \<or> levels = 0 \<or> unat levels > HSS_MAX_LEVELS) LMS_ERR_VERIFY)
         (bind (verify_certificates (unat levels - 1) (hpub_root_pub pub) (drop 4 signature)) (\<lambda>(current, rest).
          lms_verify current message rest))))"

declare refresh_level_if_exhausted.simps [simp del]

section \<open>One key\<close>

lemma sig_len_max: "sig_len_of t u \<le> LMS_MAX_SIGNATURE_LEN"
proof (cases "param_pair t u")
  case (Some ab)
  obtain a b where ab: "ab = (a, b)" by force
  note p = param_pairD [OF Some [unfolded ab]]
  show ?thesis using lmots_p_bounds(1) [OF p(2)] lp_height_bounds(1) [OF p(1)]
    by (simp add: sig_len_of_def Some ab lms_sig_len_def LMS_MAX_SIGNATURE_LEN_def lms_lens)
qed (simp add: sig_len_of_def)

text \<open>A key with a free leaf signs; the signature is accepted under its public key.\<close>

definition signed_by :: "lms_private_key_t \<Rightarrow> bytes \<Rightarrow> lms_private_key_t \<times> bytes \<times> nat \<Rightarrow> bool" where
  "signed_by priv m = (\<lambda>(priv', sig, n). priv' = priv\<lparr>priv_q := priv_q priv + 1\<rparr> \<and> n = length sig
     \<and> length sig = sig_len_of (priv_lms_type priv) (priv_lmots_type priv) \<and> sig_q sig = priv_q priv
     \<and> lms_accepts (lms_public_of priv) m sig)"

lemma yields_lms_sign:
  assumes valid: "private_key_valid priv" and q: "unat (priv_q priv) < key_leaves priv"
    and len: "sig_len_of (priv_lms_type priv) (priv_lmots_type priv) \<le> n" and fit: "\<And>alg. hash_fits h alg (54 + length m)"
  shows "yields False (software_state h) (lms_sign priv m n) (\<lambda>r. \<exists>x. r = Inr x \<and> signed_by priv m x)"
  using valid
proof (rule private_key_validE)
  fix a b assume k: "param_pair (priv_lms_type priv) (priv_lmots_type priv) = Some (a, b)" "length (priv_I priv) = 16"
    "key_leaves priv = 2 ^ lp_height a"
  have s: "sig_len_of (priv_lms_type priv) (priv_lmots_type priv) = lms_sig_len a b" by (simp add: sig_len_of_def k(1))
  have q': "unat (priv_q priv) < 2 ^ lp_height a" using q k(3) by simp
  have acc: "lms_accepts (lms_public_of priv) m (lms_signature a b (priv_I priv) (priv_seed priv) (priv_q priv) C m)"
    if "length C = 32" for C
    using sig_root_of_signature [OF k(1,2) that q', where m = m and seed = "priv_seed priv"] k(1) by (simp add: lms_accepts_def lms_public_of_def)
  show ?thesis unfolding lms_sign_def
    by (rule yields_mono [OF soft.yields_do_sign [OF k(1,2) refl q' TrueI len [unfolded s] fit]])
      (auto simp: signed_by_def s sig_q_of_signature acc)
qed

lemma signed_by_valid:
  assumes "signed_by priv m (priv', sig, n)" and "private_key_valid priv" and "unat (priv_q priv) < key_leaves priv"
  shows "private_key_valid priv' \<and> key_leaves priv' = key_leaves priv \<and> unat (priv_q priv') = Suc (unat (priv_q priv))"
proof -
  have "unat (priv_q priv) < 2 ^ 25" using assms(3) key_leaves_bounds [OF assms(2)] by linarith
  then have u: "unat (priv_q priv + 1) = Suc (unat (priv_q priv))" by (simp only: unat_plus_if') simp
  show ?thesis using assms(2)
  proof (rule private_key_validE)
    fix a b assume k: "param_pair (priv_lms_type priv) (priv_lmots_type priv) = Some (a, b)" "key_leaves priv = 2 ^ lp_height a"
    then show ?thesis using assms u by (simp add: signed_by_def private_key_valid_def key_leaves_def)
  qed
qed


section \<open>Generations\<close>

text \<open>The generation as a number: big-endian, so the loop works on the reversed bytes.\<close>

fun le_value :: "bytes \<Rightarrow> nat" where
  "le_value [] = 0"
| "le_value (b # bs) = unat b + 256 * le_value bs"

definition generation_value :: "bytes \<Rightarrow> nat" where
  "generation_value g = le_value (rev g)"

lemma u8_succ: "(b :: u8) + 1 \<noteq> 0 \<Longrightarrow> unat (b + 1) = Suc (unat b)" "(b :: u8) + 1 = 0 \<Longrightarrow> unat b = 255"
proof -
  show "b + 1 \<noteq> 0 \<Longrightarrow> unat (b + 1) = Suc (unat b)" by (simp add: unatSuc add.commute)
  assume "b + 1 = 0"
  then have "b + 1 = 255 + 1" by simp
  then have "b = 255" by (simp only: add_right_cancel)
  then show "unat b = 255" by simp
qed

lemma increment_bytes_value:
  "increment_bytes bs = Some bs' \<Longrightarrow> le_value bs' = Suc (le_value bs) \<and> length bs' = length bs"
proof (induction bs arbitrary: bs')
  case (Cons b bs)
  then show ?case using u8_succ [of b] by (cases "b + 1 = 0") auto
qed simp

lemma increment_bytes_total: "Suc (le_value bs) < 256 ^ length bs \<Longrightarrow> increment_bytes bs \<noteq> None"
proof (induction bs)
  case (Cons b bs)
  then show ?case using u8_succ(2) [of b] by (cases "b + 1 = 0") auto
qed simp

lemma gives_increment:
  assumes "Suc (generation_value g) < 256 ^ length g"
  obtains g' where "gives fl I (increment_generation g) (Inr g')" "generation_value g' = Suc (generation_value g)" "length g' = length g"
proof -
  obtain bs where bs: "increment_bytes (rev g) = Some bs"
    using increment_bytes_total [of "rev g"] assms by (auto simp: generation_value_def)
  show thesis
    using that [of "rev bs"] increment_bytes_value [OF bs] by (simp add: increment_generation_def bs gives_ret generation_value_def)
qed

section \<open>Invariants\<close>

definition hss_shape :: "hss_private_key_t \<Rightarrow> bool" where
  "hss_shape p \<longleftrightarrow> length (hss_keys p) = 8 \<and> length (hss_pubs p) = 8 \<and> length (hss_generation p) = 8
     \<and> length (hss_cert_len p) = 7 \<and> length (hss_cert_sig p) = 7 \<and> (\<forall>i < 7. length (hss_cert_sig p ! i) = LMS_MAX_SIGNATURE_LEN)
     \<and> 0 < unat (hss_levels p) \<and> unat (hss_levels p) \<le> 8"

definition level_ok :: "hss_private_key_t \<Rightarrow> nat \<Rightarrow> bool" where
  "level_ok p i \<longleftrightarrow> private_key_valid (hss_keys p ! i) \<and> priv_lms_type (hss_keys p ! i) = hss_lms_types p ! i
     \<and> priv_lmots_type (hss_keys p ! i) = hss_lmots_types p ! i \<and> hss_pubs p ! i = lms_public_of (hss_keys p ! i)
     \<and> length (hss_generation p ! i) = 32"

text \<open>The certificate a level has issued last: the parent's signature of the child's public key, made
  with the leaf before the parent's counter.\<close>

definition hss_cert :: "hss_private_key_t \<Rightarrow> nat \<Rightarrow> bytes" where
  "hss_cert p i = take (hss_cert_len p ! i) (hss_cert_sig p ! i)"

definition cert_ok :: "hss_private_key_t \<Rightarrow> nat \<Rightarrow> bool" where
  "cert_ok p i \<longleftrightarrow> hss_cert_len p ! i = sig_len_of (hss_lms_types p ! i) (hss_lmots_types p ! i)
     \<and> lms_accepts (hss_pubs p ! i) (public_key_bytes (hss_pubs p ! Suc i)) (hss_cert p i)
     \<and> unat (priv_q (hss_keys p ! i)) = Suc (unat (sig_q (hss_cert p i)))"

text \<open>All levels have sound keys, and the certificates of the first \<open>k\<close> levels are sound.\<close>

definition hss_inv :: "nat \<Rightarrow> hss_private_key_t \<Rightarrow> bool" where
  "hss_inv k p \<longleftrightarrow> hss_shape p \<and> (\<forall>i < unat (hss_levels p). level_ok p i) \<and> (\<forall>i < k. cert_ok p i)"

definition hss_valid :: "hss_private_key_t \<Rightarrow> bool" where
  "hss_valid p \<longleftrightarrow> hss_inv (unat (hss_levels p) - 1) p"

text \<open>The number of the next leaf of a level, counted over all its generations; it has a free leaf
  when its counter is below the size of its tree.\<close>

definition leaf_no :: "nat \<Rightarrow> hss_private_key_t \<Rightarrow> nat" where
  "leaf_no i p = generation_value (hss_generation p ! i) * 2 ^ 32 + unat (priv_q (hss_keys p ! i))"

definition has_leaf :: "nat \<Rightarrow> hss_private_key_t \<Rightarrow> bool" where
  "has_leaf i p \<longleftrightarrow> unat (priv_q (hss_keys p ! i)) < key_leaves (hss_keys p ! i)"

text \<open>Progress: the parameters and the root stay, generations move by at most \<open>n\<close>, leaf numbers only
  grow, and a level issues another certificate only with a further leaf.\<close>

definition hss_progress :: "nat \<Rightarrow> hss_private_key_t \<Rightarrow> hss_private_key_t \<Rightarrow> bool" where
  "hss_progress n p p' \<longleftrightarrow> hss_levels p' = hss_levels p \<and> hss_lms_types p' = hss_lms_types p \<and> hss_lmots_types p' = hss_lmots_types p
     \<and> hss_pubs p' ! 0 = hss_pubs p ! 0
     \<and> (\<forall>i. generation_value (hss_generation p' ! i) \<le> generation_value (hss_generation p ! i) + n)
     \<and> (\<forall>i. leaf_no i p \<le> leaf_no i p' \<and> (hss_cert p' i = hss_cert p i \<or> leaf_no i p < leaf_no i p'))"

lemma progress_refl: "hss_progress 0 p p"
  by (simp add: hss_progress_def)

lemma progress_trans:
  assumes a: "hss_progress n p p'" and b: "hss_progress m p' p''"
  shows "hss_progress (n + m) p p''"
proof -
  have "generation_value (hss_generation p'' ! i) \<le> generation_value (hss_generation p ! i) + (n + m)"
    "leaf_no i p \<le> leaf_no i p''" "hss_cert p'' i = hss_cert p i \<or> leaf_no i p < leaf_no i p''" for i
    using a b unfolding hss_progress_def by (force dest!: spec [of _ i])+
  then show ?thesis using a b by (simp add: hss_progress_def)
qed

lemma progress_mono: "hss_progress n p p' \<Longrightarrow> n \<le> m \<Longrightarrow> hss_progress m p p'"
  unfolding hss_progress_def by (meson add_le_cancel_left order_trans)

section \<open>Building a level\<close>

definition level_key :: "hss_private_key_t \<Rightarrow> nat \<Rightarrow> lms_private_key_t" where
  "level_key p j = (let alg = (case lms_params (hss_lms_types p ! j) of None \<Rightarrow> LMS_HASH_SHA256 | Some a \<Rightarrow> lp_hash_alg a);
       input = hss_master_seed p @ lms_store_u32 (word_of_nat j) @ hss_generation p ! j
     in \<lparr>priv_lms_type = hss_lms_types p ! j, priv_lmots_type = hss_lmots_types p ! j,
         priv_I = take 16 (lms_digest alg (input @ [0x49])), priv_seed = lms_digest alg (input @ [0x53]), priv_q = 0\<rparr>)"

definition built :: "nat \<Rightarrow> hss_private_key_t \<Rightarrow> hss_private_key_t" where
  "built j p = p\<lparr>hss_keys := (hss_keys p)[j := level_key p j], hss_pubs := (hss_pubs p)[j := lms_public_of (level_key p j)]\<rparr>"

lemma level_key_valid:
  "param_pair (hss_lms_types p ! j) (hss_lmots_types p ! j) \<noteq> None \<Longrightarrow> private_key_valid (level_key p j)"
  by (auto simp: level_key_def Let_def private_key_valid_def)

lemma gives_build_level:
  assumes "param_pair (hss_lms_types p ! j) (hss_lmots_types p ! j) \<noteq> None"
  shows "gives False (software_state h) (build_level j p) (Inr (built j p))"
proof -
  obtain a b where ab: "param_pair (hss_lms_types p ! j) (hss_lmots_types p ! j) = Some (a, b)" using assms by auto
  note pa = param_pairD [OF ab]
  let ?k = "level_key p j"
  have 1: "gives False (software_state h) (derive_level_material p j (hss_generation p ! j)) (Inr (priv_I ?k, priv_seed ?k))"
    unfolding derive_level_material_def Let_def
    by (rule gives_bind [OF gives_or_fail [OF soft.gives_lms_param_ok [OF pa(1)]]], unfold LMS_N_def LMS_SEED_LEN_def,
        rule gives_bind [OF gives_or_fail [OF soft.gives_hash]], rule gives_bind [OF gives_or_fail [OF soft.gives_hash]])
      (simp add: gives_ret level_key_def Let_def pa(1) LMS_I_LEN_def)
  have 2: "gives False (software_state h) (lms_private_key_init (hss_lms_types p ! j) (hss_lmots_types p ! j) (priv_I ?k) (priv_seed ?k)) (Inr ?k)"
    unfolding lms_private_key_init_def
    by (rule gives_andthen [OF gives_or_fail [OF soft.gives_param_pair_ok [OF ab]]]) (simp add: gives_ret level_key_def Let_def)
  show ?thesis unfolding build_level_def
    by (rule gives_bind [OF gives_or_fail [OF 1]], unfold prod.case, rule gives_bind [OF gives_or_fail [OF 2]],
        rule gives_bind [OF gives_or_fail_call [OF gives_public_of [OF level_key_valid [OF assms]]]])
      (simp add: gives_ret built_def)
qed

section \<open>Certificates\<close>

definition certified :: "nat \<Rightarrow> bytes \<Rightarrow> hss_private_key_t \<Rightarrow> hss_private_key_t" where
  "certified i sig p = p\<lparr>hss_keys := (hss_keys p)[i := (hss_keys p ! i)\<lparr>priv_q := priv_q (hss_keys p ! i) + 1\<rparr>],
     hss_cert_sig := (hss_cert_sig p)[i := overwrite 0 sig (hss_cert_sig p ! i)], hss_cert_len := (hss_cert_len p)[i := length sig]\<rparr>"

lemma yields_or_fail_call:
  assumes "yields False I m (\<lambda>r. \<exists>x. r = Inr x \<and> R x)"
  shows "yields False I (or_fail_call e m) (\<lambda>r. \<exists>x. r = Inr x \<and> R x)"
  using assms by (fastforce simp: yields_def or_fail_call_def split: prod.splits sum.splits)

lemma yields_bind_ok:
  assumes "yields fl I m (\<lambda>r. \<exists>x. r = Inr x \<and> R x)" and "\<And>x. R x \<Longrightarrow> yields fl I (f x) Q"
  shows "yields fl I (bind m f) Q"
  using assms by (rule yields_bind) auto

lemma gives_serialize: "gives fl I (lms_public_key_serialize pub LMS_PUBLIC_KEY_LEN) (Inr (public_key_bytes pub))"
  by (simp add: lms_public_key_serialize_def public_key_bytes_def gives_andthen [OF gives_reject_pass] gives_ret)

lemma yields_sign_child:
  assumes i: "Suc i < unat (hss_levels p)" and key: "level_ok p i" "has_leaf i p" and child: "level_ok p (Suc i)"
  shows "yields False (software_state h) (sign_child_certificate i p) (\<lambda>r. \<exists>p'. r = Inr p' \<and>
    (\<exists>sig. p' = certified i sig p \<and> (\<exists>x n. signed_by (hss_keys p ! i) (public_key_bytes (hss_pubs p ! Suc i)) (x, sig, n))))"
proof -
  let ?m = "public_key_bytes (hss_pubs p ! Suc i)"
  have "public_key_valid (hss_pubs p ! Suc i)" using child public_of_valid by (simp add: level_ok_def)
  then have "length ?m = 56" by (rule public_key_fields(1))
  then have fit: "hash_fits h alg (54 + length ?m)" for alg by (simp add: hash_fits_small)
  have sgn: "yields False (software_state h) (lms_sign (hss_keys p ! i) ?m LMS_MAX_SIGNATURE_LEN) (\<lambda>r. \<exists>x. r = Inr x \<and> signed_by (hss_keys p ! i) ?m x)"
    using key by (intro yields_lms_sign fit sig_len_max) (simp_all add: level_ok_def has_leaf_def)
  show ?thesis unfolding sign_child_certificate_def Suc_eq_plus1 [symmetric]
    by (rule yields_guard, use i in simp, rule yields_bind_gives [OF gives_or_fail [OF gives_serialize]],
        rule yields_bind_ok [OF yields_or_fail_call [OF sgn]])
      (auto simp: signed_by_def certified_def intro!: yields_ret)
qed

text \<open>What a certificate changes.\<close>

lemma certified_same [simp]:
  "hss_levels (certified i sig p) = hss_levels p" "hss_lms_types (certified i sig p) = hss_lms_types p"
  "hss_lmots_types (certified i sig p) = hss_lmots_types p" "hss_pubs (certified i sig p) = hss_pubs p"
  "hss_generation (certified i sig p) = hss_generation p"
  "k \<noteq> i \<Longrightarrow> hss_keys (certified i sig p) ! k = hss_keys p ! k"
  "k \<noteq> i \<Longrightarrow> hss_cert (certified i sig p) k = hss_cert p k" "k \<noteq> i \<Longrightarrow> hss_cert_len (certified i sig p) ! k = hss_cert_len p ! k"
  by (simp_all add: certified_def hss_cert_def)

lemma certified_new:
  assumes shape: "hss_shape p" and i: "Suc i < unat (hss_levels p)" and key: "level_ok p i" "has_leaf i p"
    and sig: "signed_by (hss_keys p ! i) (public_key_bytes (hss_pubs p ! Suc i)) (x, sig, n)"
  shows "hss_shape (certified i sig p)" and "level_ok (certified i sig p) i" and "cert_ok (certified i sig p) i"
    and "unat (priv_q (hss_keys (certified i sig p) ! i)) = Suc (unat (priv_q (hss_keys p ! i)))"
    and "leaf_no i (certified i sig p) = Suc (leaf_no i p)"
proof -
  let ?c = "certified i sig p" and ?k = "hss_keys p ! i"
  have i7: "i < 7" "i < 8" using i shape by (auto simp: hss_shape_def)
  have len: "length sig = sig_len_of (hss_lms_types p ! i) (hss_lmots_types p ! i)" "length sig \<le> LMS_MAX_SIGNATURE_LEN"
    using sig key(1) sig_len_max [of "hss_lms_types p ! i" "hss_lmots_types p ! i"] by (auto simp: signed_by_def level_ok_def)
  have x: "hss_keys ?c ! i = x" "x = ?k\<lparr>priv_q := priv_q ?k + 1\<rparr>"
    using sig i7 shape by (auto simp: signed_by_def certified_def hss_shape_def)
  note v = signed_by_valid [OF sig, folded x(1)]
  have val: "private_key_valid (hss_keys ?c ! i)" "unat (priv_q (hss_keys ?c ! i)) = Suc (unat (priv_q ?k))"
    using v key by (simp_all add: level_ok_def has_leaf_def)
  show shape': "hss_shape ?c" using shape len(2) i7
    by (auto simp: hss_shape_def certified_def nth_list_update)
  show "level_ok ?c i" using key(1) val x by (simp add: level_ok_def)
  show "unat (priv_q (hss_keys ?c ! i)) = Suc (unat (priv_q ?k))" by (rule val)
  then show "leaf_no i ?c = Suc (leaf_no i p)" by (simp add: leaf_no_def)
  have c: "hss_cert ?c i = sig" using i7 shape len(2) by (simp add: hss_cert_def certified_def hss_shape_def overwrite_def)
  have "hss_cert_len ?c ! i = length sig" using i7 shape by (simp add: certified_def hss_shape_def)
  moreover have "lms_accepts (lms_public_of ?k) (public_key_bytes (hss_pubs p ! Suc i)) sig" "sig_q sig = priv_q ?k"
    using sig by (simp_all add: signed_by_def)
  moreover have "hss_pubs p ! i = lms_public_of ?k" using key(1) by (simp add: level_ok_def)
  ultimately show "cert_ok ?c i" unfolding cert_ok_def c certified_same using val(2) len(1) by metis
qed

lemma certified_inv:
  assumes inv: "hss_inv i p" and i: "Suc i < unat (hss_levels p)" and leaf: "has_leaf i p"
    and sig: "signed_by (hss_keys p ! i) (public_key_bytes (hss_pubs p ! Suc i)) (x, sig, n)"
  shows "hss_inv (Suc i) (certified i sig p)"
proof -
  have key: "hss_shape p" "level_ok p i" using inv i by (simp_all add: hss_inv_def)
  note new = certified_new [OF key(1) i key(2) leaf sig]
  have "level_ok (certified i sig p) k" if "k < unat (hss_levels p)" for k
    using inv that new(2) by (cases "k = i") (auto simp: hss_inv_def level_ok_def)
  moreover have "cert_ok (certified i sig p) k" if "k < Suc i" for k
    using inv that new(3) by (cases "k = i") (auto simp: hss_inv_def cert_ok_def)
  ultimately show ?thesis using new(1) by (simp add: hss_inv_def)
qed

section \<open>Rebuilding a level\<close>

lemma built_inv:
  assumes inv: "hss_inv k p" and j: "k \<le> j - 1" "0 < j" "j < unat (hss_levels p)" and g: "length g = 32"
  defines "p' \<equiv> built j (p\<lparr>hss_generation := (hss_generation p)[j := g]\<rparr>)"
  shows "hss_inv k p'"
    and "hss_levels p' = hss_levels p" "hss_lms_types p' = hss_lms_types p" "hss_lmots_types p' = hss_lmots_types p"
    and "\<And>i. i \<noteq> j \<Longrightarrow> hss_keys p' ! i = hss_keys p ! i" "\<And>i. i \<noteq> j \<Longrightarrow> hss_pubs p' ! i = hss_pubs p ! i"
    and "\<And>i. i \<noteq> j \<Longrightarrow> hss_generation p' ! i = hss_generation p ! i" "hss_generation p' ! j = g"
    and "priv_q (hss_keys p' ! j) = 0" "\<And>i. hss_cert p' i = hss_cert p i"
proof -
  have shape: "hss_shape p" and j8: "j < 8" using inv j(3) by (auto simp: hss_inv_def hss_shape_def)
  show same: "hss_levels p' = hss_levels p" "hss_lms_types p' = hss_lms_types p" "hss_lmots_types p' = hss_lmots_types p"
    "\<And>i. i \<noteq> j \<Longrightarrow> hss_keys p' ! i = hss_keys p ! i" "\<And>i. i \<noteq> j \<Longrightarrow> hss_pubs p' ! i = hss_pubs p ! i"
    "\<And>i. i \<noteq> j \<Longrightarrow> hss_generation p' ! i = hss_generation p ! i" "hss_generation p' ! j = g" "\<And>i. hss_cert p' i = hss_cert p i"
    using shape j8 by (simp_all add: p'_def built_def hss_shape_def hss_cert_def)
  let ?q = "p\<lparr>hss_generation := (hss_generation p)[j := g]\<rparr>"
  have at: "hss_keys p' ! j = level_key ?q j" "hss_pubs p' ! j = lms_public_of (level_key ?q j)"
    using shape j8 by (simp_all add: p'_def built_def hss_shape_def)
  show "priv_q (hss_keys p' ! j) = 0" by (simp add: at level_key_def Let_def)
  have "level_ok p j" using inv j(3) by (simp add: hss_inv_def)
  then have "param_pair (hss_lms_types p ! j) (hss_lmots_types p ! j) \<noteq> None"
    by (auto simp: level_ok_def elim!: private_key_validE)
  then have "private_key_valid (level_key ?q j)" by (intro level_key_valid) simp
  then have new: "level_ok p' j" using same(7) g by (simp add: level_ok_def at same(2,3)) (simp add: level_key_def Let_def)
  have "level_ok p' i" if "i < unat (hss_levels p)" for i
    using inv that new by (cases "i = j") (simp_all add: hss_inv_def level_ok_def same)
  moreover have "cert_ok p' i" if "i < k" for i
    using inv that j by (simp add: hss_inv_def cert_ok_def same) (simp add: p'_def built_def)
  moreover have "hss_shape p'" using shape by (simp add: hss_shape_def p'_def built_def)
  ultimately show "hss_inv k p'" by (simp add: hss_inv_def same)
qed

definition rebuilt :: "nat \<Rightarrow> hss_private_key_t \<Rightarrow> hss_private_key_t \<Rightarrow> bool" where
  "rebuilt j p p' \<longleftrightarrow> hss_inv j p' \<and> hss_progress 1 p p' \<and> priv_q (hss_keys p' ! j) = 0
     \<and> unat (priv_q (hss_keys p' ! (j - 1))) = Suc (unat (priv_q (hss_keys p ! (j - 1))))
     \<and> (\<forall>i. i \<noteq> j \<and> i \<noteq> j - 1 \<longrightarrow> hss_keys p' ! i = hss_keys p ! i)"

lemma yields_rebuild:
  assumes inv: "hss_inv (j - 1) p" and j: "0 < j" "j < unat (hss_levels p)" and leaf: "has_leaf (j - 1) p"
    and room: "Suc (generation_value (hss_generation p ! j)) < 256 ^ 32"
  shows "yields False (software_state h :: 'w lms_lib \<Rightarrow> bool) (rebuild_level j p) (\<lambda>r. \<exists>p'. r = Inr p' \<and> rebuilt j p p')"
proof -
  obtain i where i: "j = Suc i" using j(1) by (cases j) auto
  have lv: "level_ok p j" using inv j by (simp add: hss_inv_def)
  then have l32: "length (hss_generation p ! j) = 32" by (simp add: level_ok_def)
  obtain g where g: "gives False (software_state h :: 'w lms_lib \<Rightarrow> bool) (increment_generation (hss_generation p ! j)) (Inr g)"
      "generation_value g = Suc (generation_value (hss_generation p ! j))" "length g = 32"
    using gives_increment [of "hss_generation p ! j"] room l32 by metis
  let ?q = "p\<lparr>hss_generation := (hss_generation p)[j := g]\<rparr>"
  define p1 where "p1 = built j ?q"
  have pp: "param_pair (hss_lms_types p ! j) (hss_lmots_types p ! j) \<noteq> None"
    using lv by (auto simp: level_ok_def elim!: private_key_validE)
  have b: "gives False (software_state h :: 'w lms_lib \<Rightarrow> bool) (build_level j ?q) (Inr p1)"
    unfolding p1_def by (rule gives_build_level) (use pp in simp)
  note f = built_inv [OF inv order_refl j g(3), folded p1_def, unfolded i diff_Suc_1]
  have pre: "Suc i < unat (hss_levels p1)" "level_ok p1 i" "level_ok p1 (Suc i)" "has_leaf i p1"
    using f(1,2,5) j leaf by (auto simp: i hss_inv_def has_leaf_def)
  have post: "rebuilt j p (certified i sig p1)"
    if sig: "signed_by (hss_keys p1 ! i) (public_key_bytes (hss_pubs p1 ! Suc i)) (x, sig, n)" for x sig n
  proof -
    have shape: "hss_shape p1" using f(1) by (simp add: hss_inv_def)
    note new = certified_new [OF shape pre(1,2,4) sig]
    have "unat (priv_q (hss_keys p ! j)) < 2 ^ 32" using unsigned_less [of "priv_q (hss_keys p ! j)"] by simp
    then have "leaf_no j p < leaf_no j (certified i sig p1)" using g(2) f(8,9) by (simp add: leaf_no_def i)
    moreover have "leaf_no i (certified i sig p1) = Suc (leaf_no i p)" using new(5) f(5,7) by (simp add: leaf_no_def)
    moreover have "leaf_no k (certified i sig p1) = leaf_no k p" if "k \<noteq> j" "k \<noteq> i" for k
      using that f(5,7) by (simp add: leaf_no_def i)
    ultimately have "leaf_no k p \<le> leaf_no k (certified i sig p1)
        \<and> (hss_cert (certified i sig p1) k = hss_cert p k \<or> leaf_no k p < leaf_no k (certified i sig p1))" for k
      using f(10) by (cases "k = j"; cases "k = i") auto
    moreover have "generation_value (hss_generation p1 ! k) \<le> generation_value (hss_generation p ! k) + 1" for k
      using f(7,8) g(2) by (cases "k = j") (simp_all add: i)
    ultimately have "hss_progress 1 p (certified i sig p1)"
      using f(2,3,4) f(6) [of 0] by (simp add: hss_progress_def)
    then show ?thesis
      using certified_inv [OF f(1) pre(1,4) sig] new(4) f(5,9) by (simp add: rebuilt_def i)
  qed
  have "yields False (software_state h :: 'w lms_lib \<Rightarrow> bool) (or_fail_call LMS_ERR_EXHAUSTED (sign_child_certificate (j - 1) p1)) (\<lambda>r. \<exists>p'. r = Inr p' \<and> rebuilt j p p')"
    unfolding i diff_Suc_1
    by (rule yields_mono [OF yields_or_fail_call [OF yields_sign_child [OF pre(1,2,4,3)]]]) (use post in \<open>auto simp: i\<close>)
  then show ?thesis unfolding rebuild_level_def
    by (intro yields_bind_gives [OF gives_or_fail [OF g(1)]] yields_bind_gives [OF gives_or_fail_call [OF b]])
qed

section \<open>Refreshing exhausted levels\<close>

lemma yields_fold_upt:
  assumes "\<And>i p. lo \<le> i \<Longrightarrow> i < hi \<Longrightarrow> P i p \<Longrightarrow> yields fl I (f i p) (\<lambda>r. \<exists>p'. r = Inr p' \<and> P (Suc i) p')"
    and "P lo p" and "lo \<le> hi"
  shows "yields fl I (fold_each f [lo..<hi] p) (\<lambda>r. \<exists>p'. r = Inr p' \<and> P hi p')"
  using assms
proof (induction "hi - lo" arbitrary: lo p)
  case 0
  then show ?case by (simp add: yields_ret)
next
  case (Suc n)
  then have "[lo..<hi] = lo # [Suc lo..<hi]" by (simp add: upt_conv_Cons)
  moreover have "yields fl I (f lo p) (\<lambda>r. \<exists>p'. r = Inr p' \<and> P (Suc lo) p')" using Suc by simp
  moreover have "yields fl I (fold_each f [Suc lo..<hi] p') (\<lambda>r. \<exists>p'. r = Inr p' \<and> P hi p')" if "P (Suc lo) p'" for p'
    using Suc that by (intro Suc.hyps(1)) auto
  ultimately show ?case by (simp add: yields_bind_ok)
qed

lemma gives_or_fail_call_err:
  "gives False I m (Inl LMS_ERR_EXHAUSTED) \<Longrightarrow> gives False I (or_fail_call e m) (Inl e)"
  by (fastforce simp: gives_def yields_def or_fail_call_def split: prod.splits sum.splits)

lemma rebuilt_leaf:
  assumes "rebuilt j p p'" and "j < unat (hss_levels p)"
  shows "has_leaf j p'" "hss_levels p' = hss_levels p" "hss_shape p'"
proof -
  show *: "hss_levels p' = hss_levels p" "hss_shape p'" using assms(1) by (simp_all add: rebuilt_def hss_progress_def hss_inv_def)
  have "private_key_valid (hss_keys p' ! j)" using assms * by (simp add: rebuilt_def hss_inv_def level_ok_def)
  from key_leaves_bounds [OF this] show "has_leaf j p'" using assms(1) by (simp add: rebuilt_def has_leaf_def)
qed

text \<open>The levels below a rebuilt level are rebuilt one after the other. The level above them spends
  one leaf, every other one starts afresh.\<close>

lemma yields_rebuild_below:
  fixes h :: nat
  assumes start: "hss_inv l p" "priv_q (hss_keys p ! l) = 0" and l: "l < unat (hss_levels p)"
    and room: "\<And>i. i < unat (hss_levels p) \<Longrightarrow> generation_value (hss_generation p ! i) + 8 < 256 ^ 32"
  shows "yields False (software_state h :: 'w lms_lib \<Rightarrow> bool) (fold_each rebuild_level [Suc l..<unat (hss_levels p)] p)
    (\<lambda>r. \<exists>p'. r = Inr p' \<and> hss_valid p' \<and> hss_progress 7 p p' \<and> has_leaf l p')"
proof -
  define P where "P i p' \<longleftrightarrow> hss_inv (i - 1) p' \<and> hss_progress (i - Suc l) p p' \<and> priv_q (hss_keys p' ! (i - 1)) = 0
     \<and> unat (priv_q (hss_keys p' ! l)) = of_bool (Suc l < i)" for i p'
  have lev: "unat (hss_levels p) \<le> 8" using start(1) by (simp add: hss_inv_def hss_shape_def)
  have "yields False (software_state h :: 'w lms_lib \<Rightarrow> bool) (fold_each rebuild_level [Suc l..<unat (hss_levels p)] p)
    (\<lambda>r. \<exists>p'. r = Inr p' \<and> P (unat (hss_levels p)) p')"
  proof (rule yields_fold_upt)
    show "P (Suc l) p" using start progress_refl by (simp add: P_def)
    show "Suc l \<le> unat (hss_levels p)" using l by simp
    fix i p' assume i: "Suc l \<le> i" "i < unat (hss_levels p)" and P: "P i p'"
    then have lv: "hss_levels p' = hss_levels p" by (simp add: P_def hss_progress_def)
    have "private_key_valid (hss_keys p' ! (i - 1))" using P i lv by (auto simp: P_def hss_inv_def level_ok_def)
    from key_leaves_bounds [OF this] have leaf: "has_leaf (i - 1) p'" using P by (simp add: P_def has_leaf_def)
    have "generation_value (hss_generation p' ! i) \<le> generation_value (hss_generation p ! i) + (i - Suc l)"
      using P by (simp add: P_def hss_progress_def)
    then have "Suc (generation_value (hss_generation p' ! i)) < 256 ^ 32" using room [OF i(2)] i lev by linarith
    note step = yields_rebuild [OF _ _ _ leaf this, where h = h]
    have "P (Suc i) p''" if "rebuilt i p' p''" for p''
    proof -
      have "i - Suc l + 1 = Suc i - Suc l" using i by simp
      then have "hss_progress (Suc i - Suc l) p p''"
        using that P progress_trans [of "i - Suc l" p p' 1 p''] by (simp add: P_def rebuilt_def)
      moreover have "unat (priv_q (hss_keys p'' ! l)) = 1"
        using that P i by (cases "i = Suc l") (auto simp: rebuilt_def P_def)
      ultimately show ?thesis using that i by (simp add: P_def rebuilt_def)
    qed
    then show "yields False (software_state h :: 'w lms_lib \<Rightarrow> bool) (rebuild_level i p') (\<lambda>r. \<exists>p''. r = Inr p'' \<and> P (Suc i) p'')"
      by (intro yields_mono [OF step]) (use P i lv in \<open>auto simp: P_def\<close>)
  qed
  moreover have "hss_valid p' \<and> hss_progress 7 p p' \<and> has_leaf l p'" if "P (unat (hss_levels p)) p'" for p'
  proof -
    have lv: "hss_levels p' = hss_levels p" using that by (simp add: P_def hss_progress_def)
    then have "private_key_valid (hss_keys p' ! l)" using that l by (simp add: P_def hss_inv_def level_ok_def)
    from key_leaves_bounds [OF this] have "has_leaf l p'" using that by (auto simp: P_def has_leaf_def)
    moreover have "hss_progress (unat (hss_levels p) - Suc l) p p'" using that by (simp only: P_def)
    then have "hss_progress 7 p p'" using lev by (elim progress_mono) linarith
    ultimately show ?thesis using that lv by (simp add: P_def hss_valid_def)
  qed
  ultimately show ?thesis by (elim yields_mono exE conjE) blast
qed

lemma gives_capacity:
  assumes "private_key_valid key"
  shows "gives False (software_state h) (lms_capacity key) (Inr (word_of_nat (key_leaves key)))"
  using assms
proof (rule private_key_validE)
  fix a assume k: "lms_params (priv_lms_type key) = Some a" "key_leaves key = 2 ^ lp_height a"
  show ?thesis unfolding lms_capacity_def
    by (rule gives_bind [OF gives_or_fail [OF soft.gives_lms_param_ok [OF k(1)]]]) (simp add: gives_ret k(2) push_bit_of_1)
qed

lemma below_capacity:
  assumes "private_key_valid key"
  shows "priv_q key < word_of_nat (key_leaves key) \<longleftrightarrow> unat (priv_q key) < key_leaves key"
proof -
  have "key_leaves key < 2 ^ 32" using key_leaves_bounds [OF assms] by simp
  then show ?thesis by (simp only: word_less_nat_alt unat_of_nat_u32)
qed

text \<open>A level can be refreshed exactly when it or a level above it has a free leaf.\<close>

lemma yields_refresh:
  fixes h :: nat
  assumes "hss_valid p" and "level < unat (hss_levels p)"
    and "\<And>i. i < unat (hss_levels p) \<Longrightarrow> generation_value (hss_generation p ! i) + 8 * Suc level < 256 ^ 32"
  shows "yields False (software_state h :: 'w lms_lib \<Rightarrow> bool) (refresh_level_if_exhausted level p)
    (\<lambda>r. if \<exists>k \<le> level. has_leaf k p
         then \<exists>p'. r = Inr p' \<and> hss_valid p' \<and> hss_progress (8 * level) p p' \<and> has_leaf level p'
         else r = Inl LMS_ERR_EXHAUSTED)"
  using assms
proof (induction level)
  case (Suc u)
  let ?I = "software_state h :: 'w lms_lib \<Rightarrow> bool"
  have valid: "private_key_valid (hss_keys p ! Suc u)" using Suc.prems by (simp add: hss_valid_def hss_inv_def level_ok_def)
  note cap = gives_or_fail [OF gives_capacity [OF valid]]
  show ?case
  proof (cases "has_leaf (Suc u) p")
    case True
    then have "priv_q (hss_keys p ! Suc u) < word_of_nat (key_leaves (hss_keys p ! Suc u))"
      by (simp add: below_capacity [OF valid] has_leaf_def)
    moreover have "hss_progress (8 * Suc u) p p" by (rule progress_mono [OF progress_refl]) simp
    ultimately show ?thesis
      by (subst refresh_level_if_exhausted.simps, intro yields_bind_gives [OF cap]) (use True Suc.prems in \<open>auto intro!: yields_ret\<close>)
  next
    case False
    then have full: "\<not> priv_q (hss_keys p ! Suc u) < word_of_nat (key_leaves (hss_keys p ! Suc u))"
      by (simp add: below_capacity [OF valid] has_leaf_def)
    have ih: "yields False ?I (refresh_level_if_exhausted u p)
      (\<lambda>r. if \<exists>k \<le> u. has_leaf k p then \<exists>p'. r = Inr p' \<and> hss_valid p' \<and> hss_progress (8 * u) p p' \<and> has_leaf u p' else r = Inl LMS_ERR_EXHAUSTED)"
      using Suc by (intro Suc.IH) force+
    have ex: "(\<exists>k \<le> Suc u. has_leaf k p) \<longleftrightarrow> (\<exists>k \<le> u. has_leaf k p)" using False le_Suc_eq by auto
    let ?rest = "\<lambda>p. bind (rebuild_level (Suc u) p) (\<lambda>p. fold_each rebuild_level [Suc u + 1..<unat (hss_levels p)] p)"
    have "yields False ?I (bind (or_fail_call LMS_ERR_EXHAUSTED (refresh_level_if_exhausted u p)) ?rest)
      (\<lambda>r. if \<exists>k \<le> Suc u. has_leaf k p
         then \<exists>p'. r = Inr p' \<and> hss_valid p' \<and> hss_progress (8 * Suc u) p p' \<and> has_leaf (Suc u) p' else r = Inl LMS_ERR_EXHAUSTED)"
    proof (cases "\<exists>k \<le> u. has_leaf k p")
      case True
      have rest: "yields False ?I (?rest p1) (\<lambda>r. \<exists>p'. r = Inr p' \<and> hss_valid p' \<and> hss_progress (8 * Suc u) p p' \<and> has_leaf (Suc u) p')"
        if p1: "hss_valid p1" "hss_progress (8 * u) p p1" "has_leaf u p1" for p1
      proof -
        have lv: "hss_levels p1 = hss_levels p" using p1(2) by (simp add: hss_progress_def)
        have room: "generation_value (hss_generation p1 ! i) + 16 < 256 ^ 32" if "i < unat (hss_levels p)" for i
          using Suc.prems(3) [OF that] p1(2) by (simp add: hss_progress_def) (meson le_less_trans add_le_mono1 trans_le_add1 order_trans)
        have inv: "hss_inv u p1" using p1(1) Suc.prems(2) lv by (simp add: hss_valid_def hss_inv_def)
        have one: "yields False ?I (rebuild_level (Suc u) p1) (\<lambda>r. \<exists>p'. r = Inr p' \<and> rebuilt (Suc u) p1 p')"
          by (rule yields_rebuild) (use inv p1 lv Suc.prems(2) room [OF Suc.prems(2)] in simp_all)
        have "yields False ?I (fold_each rebuild_level [Suc u + 1..<unat (hss_levels p2)] p2)
            (\<lambda>r. \<exists>p'. r = Inr p' \<and> hss_valid p' \<and> hss_progress (8 * Suc u) p p' \<and> has_leaf (Suc u) p')" if r: "rebuilt (Suc u) p1 p2" for p2
        proof -
          have lv2: "hss_levels p2 = hss_levels p" using rebuilt_leaf(2) [OF r] lv Suc.prems(2) by simp
          have "generation_value (hss_generation p2 ! i) + 8 < 256 ^ 32" if "i < unat (hss_levels p)" for i
          proof -
            have "generation_value (hss_generation p2 ! i) \<le> generation_value (hss_generation p1 ! i) + 1"
              using r by (simp add: rebuilt_def hss_progress_def)
            then show ?thesis using room [OF that] by linarith
          qed
          then have "yields False ?I (fold_each rebuild_level [Suc (Suc u)..<unat (hss_levels p2)] p2)
            (\<lambda>r. \<exists>p'. r = Inr p' \<and> hss_valid p' \<and> hss_progress 7 p2 p' \<and> has_leaf (Suc u) p')"
            using r lv2 Suc.prems(2) by (intro yields_rebuild_below) (simp_all add: rebuilt_def)
          then show ?thesis
            using p1(2) r progress_trans [of "8 * u" p p1 1 p2] progress_trans [of "8 * u + 1" p p2 7]
            by (auto simp: rebuilt_def add.commute elim!: yields_mono)
        qed
        then show ?thesis by (rule yields_bind_ok [OF one])
      qed
      show ?thesis unfolding ex using True ih rest by (simp add: yields_bind_ok [OF yields_or_fail_call])
    next
      case False
      have "gives False ?I (refresh_level_if_exhausted u p) (Inl LMS_ERR_EXHAUSTED)" 
        using ih unfolding if_not_P [OF False] gives_def .
      then have "gives False ?I (or_fail_call LMS_ERR_EXHAUSTED (refresh_level_if_exhausted u p)) (Inl LMS_ERR_EXHAUSTED)"
        by (rule gives_or_fail_call_err)
      from gives_bind_err [OF this] show ?thesis unfolding ex if_not_P [OF False] gives_def .
    qed
    then show ?thesis using full
      by (subst refresh_level_if_exhausted.simps, intro yields_bind_gives [OF cap]) simp
  qed
next
  case 0
  have valid: "private_key_valid (hss_keys p ! 0)" using 0 by (simp add: hss_valid_def hss_inv_def level_ok_def)
  show ?case using 0 progress_refl
    by (subst refresh_level_if_exhausted.simps, intro yields_bind_gives [OF gives_or_fail [OF gives_capacity [OF valid]]])
      (auto simp: below_capacity [OF valid] has_leaf_def intro!: yields_ret gives_fail [unfolded gives_def])
qed

section \<open>Signing\<close>

text \<open>The length of a signature, and the part in front of the last signature.\<close>

definition hss_len :: "hss_private_key_t \<Rightarrow> nat" where
  "hss_len p = 4 + (\<Sum>i\<leftarrow>[0..<unat (hss_levels p) - 1]. sig_len_of (hss_lms_types p ! i) (hss_lmots_types p ! i) + 56)
     + sig_len_of (hss_lms_types p ! (unat (hss_levels p) - 1)) (hss_lmots_types p ! (unat (hss_levels p) - 1))"

definition hss_certs :: "hss_private_key_t \<Rightarrow> nat \<Rightarrow> nat \<Rightarrow> bytes" where
  "hss_certs p i n = concat (map (\<lambda>k. hss_cert p k @ public_key_bytes (hss_pubs p ! Suc k)) [i..<n])"

lemma sig_len_pos: "param_pair t u \<noteq> None \<Longrightarrow> 0 < sig_len_of t u"
  by (auto simp: sig_len_of_def lms_sig_len_def)

lemma valid_levelD:
  assumes "hss_valid p" and "i < unat (hss_levels p)"
  shows "level_ok p i" "param_pair (hss_lms_types p ! i) (hss_lmots_types p ! i) \<noteq> None" "public_key_valid (hss_pubs p ! i)"
proof -
  show *: "level_ok p i" using assms by (simp add: hss_valid_def hss_inv_def)
  show "param_pair (hss_lms_types p ! i) (hss_lmots_types p ! i) \<noteq> None" "public_key_valid (hss_pubs p ! i)"
    using * public_of_valid by (auto simp: level_ok_def elim!: private_key_validE)
qed

lemma cert_length:
  assumes "hss_valid p" and "Suc i < unat (hss_levels p)"
  shows "length (hss_cert p i) = sig_len_of (hss_lms_types p ! i) (hss_lmots_types p ! i)"
    "hss_cert_len p ! i = sig_len_of (hss_lms_types p ! i) (hss_lmots_types p ! i)"
proof -
  have c: "cert_ok p i" using assms by (simp add: hss_valid_def hss_inv_def)
  then show *: "hss_cert_len p ! i = sig_len_of (hss_lms_types p ! i) (hss_lmots_types p ! i)" by (simp add: cert_ok_def)
  have "i < 7" "hss_shape p" using assms by (auto simp: hss_valid_def hss_inv_def hss_shape_def)
  then show "length (hss_cert p i) = sig_len_of (hss_lms_types p ! i) (hss_lmots_types p ! i)"
    using * sig_len_max [of "hss_lms_types p ! i" "hss_lmots_types p ! i"] by (simp add: hss_cert_def hss_shape_def)
qed

lemma gives_hss_signature_len:
  assumes "hss_valid p"
  shows "gives False (software_state h) (hss_signature_len p) (Inr (hss_len p))"
proof -
  let ?n = "unat (hss_levels p)" and ?l = "\<lambda>i. sig_len_of (hss_lms_types p ! i) (hss_lmots_types p ! i)"
  have n: "0 < ?n" "?n \<le> 8" "hss_levels p \<noteq> 0" "length (hss_cert_len p) = 7" using assms by (auto simp: hss_valid_def hss_inv_def hss_shape_def)
  have certs: "take (?n - 1) (hss_cert_len p) = map ?l [0..<?n - 1]"
    using n cert_length(2) [OF assms] by (intro nth_equalityI) simp_all
  have pos: "0 < ?l i" if "i < ?n" for i using sig_len_pos valid_levelD(2) [OF assms that] by blast
  then have "?l i \<noteq> 0" if "i < ?n - 1" for i using that by (metis less_imp_diff_less less_irrefl less_diff_conv add_lessD1)
  then have nz: "0 \<notin> set (map ?l [0..<?n - 1])" by force
  obtain a b where ab: "param_pair (hss_lms_types p ! (?n - 1)) (hss_lmots_types p ! (?n - 1)) = Some (a, b)"
    using valid_levelD(2) [OF assms, of "?n - 1"] n(1) by auto
  have last: "gives False (software_state h) (lms_signature_len (hss_lms_types p ! (?n - 1)) (hss_lmots_types p ! (?n - 1))) (Inr (?l (?n - 1)))"
    using soft.gives_signature_len [of False h "hss_lms_types p ! (?n - 1)" "hss_lmots_types p ! (?n - 1)"] ab
    by (simp add: sig_len_of_def lms_sig_len_def)
  have "?l (?n - 1) \<noteq> 0" using pos [of "?n - 1"] n(1) by simp
  then have "gives False (software_state h) (ret (if ?l (?n - 1) = 0 then 0
      else 4 + (\<Sum>c\<leftarrow>map ?l [0..<?n - 1]. c + LMS_PUBLIC_KEY_LEN) + ?l (?n - 1))) (Inr (hss_len p))"
    by (simp add: gives_ret hss_len_def o_def LMS_PUBLIC_KEY_LEN_def)
  moreover have "\<not> (hss_levels p = 0 \<or> 0 \<in> set (map ?l [0..<?n - 1]))" using nz n(3) by blast
  ultimately show ?thesis unfolding hss_signature_len_def Let_def certs by (simp only: if_False) (rule gives_bind [OF last])
qed

lemma length_hss_certs:
  assumes "hss_valid p" and "n < unat (hss_levels p)"
  shows "length (hss_certs p i n) = (\<Sum>k\<leftarrow>[i..<n]. sig_len_of (hss_lms_types p ! k) (hss_lmots_types p ! k) + 56)"
proof -
  have "length (hss_cert p k @ public_key_bytes (hss_pubs p ! Suc k)) = sig_len_of (hss_lms_types p ! k) (hss_lmots_types p ! k) + 56"
    if "k < n" for k
    using that assms cert_length(1) [of p k] public_key_fields(1) [OF valid_levelD(3), of p "Suc k"] by simp
  then show ?thesis by (auto simp: hss_certs_def length_concat o_def intro!: arg_cong [where f = sum_list])
qed

text \<open>What \<open>hss_sign\<close> returns: the refreshed key \<open>p'\<close> with one more leaf of the last level used, and the
  signature made of the level count, the certificates and the last signature.\<close>

definition hss_signed :: "hss_private_key_t \<Rightarrow> bytes \<Rightarrow> hss_private_key_t \<Rightarrow> hss_private_key_t \<times> bytes \<times> nat \<Rightarrow> bool" where
  "hss_signed p m p' = (\<lambda>(p'', s, n). let last = unat (hss_levels p) - 1 in
     \<exists>sig key. signed_by (hss_keys p' ! last) m (key, sig, length sig) \<and> p'' = p'\<lparr>hss_keys := (hss_keys p')[last := key]\<rparr>
       \<and> s = lms_store_u32 (hss_levels p - 1) @ hss_certs p' 0 last @ sig \<and> n = hss_len p \<and> length s = n)"

lemma yields_hss_sign:
  fixes h :: nat
  assumes valid: "hss_valid p" and heap: "HSS_PRIVATE_KEY_SIZE \<le> h" and len: "hss_len p \<le> n"
    and fit: "\<And>alg. hash_fits h alg (54 + length m)"
    and room: "\<And>i. i < unat (hss_levels p) \<Longrightarrow> generation_value (hss_generation p ! i) + 64 < 256 ^ 32"
  shows "yields False (software_state h :: 'w lms_lib \<Rightarrow> bool) (hss_sign p m n)
    (\<lambda>r. if \<exists>k < unat (hss_levels p). has_leaf k p
         then \<exists>p' x. r = Inr x \<and> hss_valid p' \<and> hss_progress 64 p p' \<and> has_leaf (unat (hss_levels p) - 1) p' \<and> hss_signed p m p' x
         else r = Inl LMS_ERR_EXHAUSTED)"
proof -
  let ?I = "software_state h :: 'w lms_lib \<Rightarrow> bool"
  define l where "l = unat (hss_levels p) - 1"
  have lev: "0 < unat (hss_levels p)" "unat (hss_levels p) \<le> 8" "hss_levels p \<noteq> 0"
    using valid by (auto simp: hss_valid_def hss_inv_def hss_shape_def)
  have l: "l < unat (hss_levels p)" "Suc l = unat (hss_levels p)" using lev by (simp_all add: l_def)
  have "gives False ?I (hss_signature_len p) (Inr (hss_len p))" by (rule gives_hss_signature_len [OF valid])
  note len_step = this
  have nz: "hss_len p \<noteq> 0" by (simp add: hss_len_def)
  have ex: "(\<exists>k \<le> l. has_leaf k p) \<longleftrightarrow> (\<exists>k < unat (hss_levels p). has_leaf k p)" using l by (auto simp: less_Suc_eq_le [symmetric])
  have refresh: "yields False ?I (refresh_level_if_exhausted l p)
    (\<lambda>r. if \<exists>k < unat (hss_levels p). has_leaf k p
         then \<exists>p'. r = Inr p' \<and> hss_valid p' \<and> hss_progress (8 * l) p p' \<and> has_leaf l p' else r = Inl LMS_ERR_EXHAUSTED)"
    unfolding ex [symmetric]
  proof (rule yields_refresh [OF valid l(1)])
    fix i assume "i < unat (hss_levels p)"
    moreover have "8 * Suc l \<le> 64" using l lev by simp
    ultimately show "generation_value (hss_generation p ! i) + 8 * Suc l < 256 ^ 32"
      using room [of i] by (meson add_left_mono le_less_trans)
  qed
  let ?tail = "\<lambda>priv. let last = unat (hss_levels priv) - 1
        in bind (for_each (\<lambda>i.
               bind (or_fail LMS_ERR_INVALID (lms_public_key_serialize (hss_pubs priv ! (i + 1)) LMS_PUBLIC_KEY_LEN)) (\<lambda>child_pub.
               ret (take (hss_cert_len priv ! i) (hss_cert_sig priv ! i) @ child_pub))) [0..<last]) (\<lambda>certs.
           let head = lms_store_u32 (hss_levels priv - 1) @ concat certs
           in bind (or_fail_call LMS_ERR_EXHAUSTED (lms_sign (hss_keys priv ! last) m (n - length head))) (\<lambda>(key, sig, final_len).
              ret (priv\<lparr>hss_keys := (hss_keys priv)[last := key]\<rparr>, head @ sig, length head + final_len)))"
  have tail: "yields False ?I (?tail p') (\<lambda>r. \<exists>x. r = Inr x \<and> hss_signed p m p' x)"
    if p': "hss_valid p'" "hss_progress (8 * l) p p'" "has_leaf l p'" for p'
  proof -
    have same: "hss_levels p' = hss_levels p" "hss_lms_types p' = hss_lms_types p" "hss_lmots_types p' = hss_lmots_types p"
      using p'(2) by (simp_all add: hss_progress_def)
    let ?head = "lms_store_u32 (hss_levels p - 1) @ hss_certs p' 0 l"
    have "length (hss_certs p' 0 l) = (\<Sum>k\<leftarrow>[0..<l]. sig_len_of (hss_lms_types p' ! k) (hss_lmots_types p' ! k) + 56)"
      using length_hss_certs [OF p'(1), of l 0] l(1) same by simp
    then have head: "length ?head + sig_len_of (hss_lms_types p ! l) (hss_lmots_types p ! l) = hss_len p"
      by (simp add: hss_len_def same l_def)
    have lv: "level_ok p' l" using valid_levelD(1) [OF p'(1), of l] l(1) same by simp
    have sgn: "yields False ?I (lms_sign (hss_keys p' ! l) m (n - length ?head)) (\<lambda>r. \<exists>x. r = Inr x \<and> signed_by (hss_keys p' ! l) m x)"
      using lv p'(3) head len same by (intro yields_lms_sign fit) (auto simp: level_ok_def has_leaf_def)
    have "gives False ?I (for_each (\<lambda>i.
               bind (or_fail LMS_ERR_INVALID (lms_public_key_serialize (hss_pubs p' ! (i + 1)) LMS_PUBLIC_KEY_LEN)) (\<lambda>child_pub.
               ret (take (hss_cert_len p' ! i) (hss_cert_sig p' ! i) @ child_pub))) [0..<l])
        (Inr (map (\<lambda>k. hss_cert p' k @ public_key_bytes (hss_pubs p' ! Suc k)) [0..<l]))"
      by (rule gives_for_each, rule gives_bind [OF gives_or_fail [OF gives_serialize]]) (simp add: gives_ret hss_cert_def)
    moreover have "hss_signed p m p' (p'\<lparr>hss_keys := (hss_keys p')[l := key]\<rparr>, ?head @ sig, length ?head + k)"
      if "signed_by (hss_keys p' ! l) m (key, sig, k)" for key sig k
    proof -
      have "k = length sig" "length sig = sig_len_of (hss_lms_types p ! l) (hss_lmots_types p ! l)"
        using that lv same by (auto simp: signed_by_def level_ok_def)
      then show ?thesis using that head unfolding hss_signed_def l_def [symmetric] Let_def prod.case
        by (intro exI [of _ sig] exI [of _ key]) auto
    qed
    ultimately show ?thesis
      unfolding Let_def same l_def [symmetric]
      by (elim yields_bind_gives) (unfold hss_certs_def [symmetric], rule yields_bind_ok [OF yields_or_fail_call [OF sgn]], auto intro!: yields_ret)
  qed
  have rest: "yields False ?I (bind (or_fail_call LMS_ERR_EXHAUSTED (refresh_level_if_exhausted l p)) ?tail)
    (\<lambda>r. if \<exists>k < unat (hss_levels p). has_leaf k p
         then \<exists>p' x. r = Inr x \<and> hss_valid p' \<and> hss_progress 64 p p' \<and> has_leaf l p' \<and> hss_signed p m p' x
         else r = Inl LMS_ERR_EXHAUSTED)"
  proof (cases "\<exists>k < unat (hss_levels p). has_leaf k p")
    case True
    have "hss_progress 64 p p'" if "hss_progress (8 * l) p p'" for p' using that l lev by (elim progress_mono) linarith
    then have "yields False ?I (?tail p') (\<lambda>r. \<exists>p' x. r = Inr x \<and> hss_valid p' \<and> hss_progress 64 p p' \<and> has_leaf l p' \<and> hss_signed p m p' x)"
      if "hss_valid p' \<and> hss_progress (8 * l) p p' \<and> has_leaf l p'" for p' using that by (intro yields_mono [OF tail]) blast+
    then show ?thesis unfolding if_P [OF True]
      by (intro yields_bind_ok [OF yields_or_fail_call [OF refresh [unfolded if_P [OF True]]]])
  next
    case False
    have "gives False ?I (refresh_level_if_exhausted l p) (Inl LMS_ERR_EXHAUSTED)"
      using refresh unfolding if_not_P [OF False] gives_def .
    then have "gives False ?I (or_fail_call LMS_ERR_EXHAUSTED (refresh_level_if_exhausted l p)) (Inl LMS_ERR_EXHAUSTED)"
      by (rule gives_or_fail_call_err)
    from gives_bind_err [OF this] show ?thesis unfolding if_not_P [OF False] gives_def .
  qed
  have malloc: "\<not> malloc_limit s < HSS_PRIVATE_KEY_SIZE" if "?I s" for s
    using that heap by (auto simp: software_state_def plain_state_def)
  show ?thesis unfolding hss_sign_def l_def [symmetric]
    by (rule yields_guard, use lev in simp, rule yields_bind_gives [OF len_step], rule yields_guard, use nz len in simp,
        rule yields_bind_look, rule yields_guard, erule malloc, rule rest)
qed

section \<open>Verification\<close>

text \<open>The verdict on a chain of certificates and a final signature: \<open>None\<close> is acceptance.\<close>

fun chain_verdict :: "nat \<Rightarrow> lms_public_key_t \<Rightarrow> bytes \<Rightarrow> bytes \<Rightarrow> lms_status_t option" where
  "chain_verdict 0 pub m rest = (if lms_accepts pub m rest then None else Some LMS_ERR_VERIFY)"
| "chain_verdict (Suc n) pub m rest =
     (let len = sig_len_of (pub_lms_type pub) (pub_lmots_type pub); child = segment len 56 rest
      in if length rest < len + 56 then Some LMS_ERR_INVALID
         else if lms_accepts pub child (take len rest) \<and> public_key_valid (parsed_public_key child)
         then chain_verdict n (parsed_public_key child) m (drop (len + 56) rest)
         else Some LMS_ERR_VERIFY)"

definition hss_verdict :: "hss_public_key_t \<Rightarrow> bytes \<Rightarrow> bytes \<Rightarrow> lms_status_t option" where
  "hss_verdict pub m sig =
     (if hpub_levels pub = 0 \<or> length sig < 4 then Some LMS_ERR_INVALID
      else if lms_load_u32 sig + 1 \<noteq> hpub_levels pub \<or> 8 < unat (hpub_levels pub) then Some LMS_ERR_VERIFY
      else chain_verdict (unat (hpub_levels pub) - 1) (hpub_root_pub pub) m (drop 4 sig))"

definition verdict_result :: "lms_status_t option \<Rightarrow> lms_status_t + unit" where
  "verdict_result v = (case v of None \<Rightarrow> Inr () | Some e \<Rightarrow> Inl e)"

lemma gives_parse:
  "gives False (software_state h) (lms_public_key_parse inp)
     (if length inp = 56 \<and> public_key_valid (parsed_public_key inp) then Inr (parsed_public_key inp) else Inl LMS_ERR_INVALID)"
proof (cases "length inp = 56")
  case False
  then show ?thesis by (simp add: lms_public_key_parse_def gives_andthen_err [OF gives_reject] LMS_PUBLIC_KEY_LEN_def)
next
  case True
  let ?t = "lms_load_u32 inp" and ?u = "lms_load_u32 (drop 4 inp)"
  have start: "gives False (software_state h) (reject_if (length inp \<noteq> LMS_PUBLIC_KEY_LEN) LMS_ERR_INVALID) (Inr ())"
    by (rule gives_reject_pass) (simp add: True LMS_PUBLIC_KEY_LEN_def)
  have "public_key_valid (parsed_public_key inp) \<longleftrightarrow> param_pair ?t ?u \<noteq> None"
    using True by (simp add: public_key_valid_def parsed_public_key_def)
  moreover have "gives False (software_state h) (lms_public_key_parse inp)
      (case param_pair ?t ?u of None \<Rightarrow> Inl LMS_ERR_INVALID | Some _ \<Rightarrow> Inr (parsed_public_key inp))"
  proof (cases "param_pair ?t ?u")
    case None
    have "gives False (software_state h) (lms_get_param_pair ?t ?u) (Inl LMS_ERR_INVALID)"
      using soft.gives_param_pair [of False h ?t ?u] None by simp
    then show ?thesis unfolding lms_public_key_parse_def Let_def None option.case
      by (intro gives_andthen [OF start] gives_andthen_err gives_or_fail_err)
  next
    case (Some ab)
    obtain a b where ab: "ab = (a, b)" by (rule prod.exhaust)
    show ?thesis unfolding lms_public_key_parse_def Let_def Some option.case
      by (intro gives_andthen [OF start] gives_andthen [OF gives_or_fail [OF soft.gives_param_pair_ok [OF Some [unfolded ab]]]])
        (simp add: gives_ret parsed_public_key_def lms_lens)
  qed
  ultimately show ?thesis using True by (cases "param_pair ?t ?u") simp_all
qed

lemma gives_soft_verify:
  assumes "public_key_valid pub" and "\<And>alg. hash_fits h alg (54 + length m)"
  shows "gives False (software_state h) (lms_verify pub m sig) (if lms_accepts pub m sig then Inr () else Inl LMS_ERR_VERIFY)"
  using assms by (intro softv.gives_lms_verify) (simp_all add: public_key_valid_def)

lemma op_bind_assoc: "bind (bind m f) g = bind m (\<lambda>x. bind (f x) g)"
  by (rule ext) (auto simp: bind_def split: prod.splits sum.splits)

lemma gives_chain:
  assumes "public_key_valid pub" and fit: "\<And>alg. hash_fits h alg (54 + length m)"
  shows "gives False (software_state h :: 'w lms_lib \<Rightarrow> bool) (bind (verify_certificates n pub rest) (\<lambda>(current, rest). lms_verify current m rest))
    (verdict_result (chain_verdict n pub m rest))"
  using assms(1)
proof (induction n arbitrary: pub rest)
  case 0
  have "gives False (software_state h :: 'w lms_lib \<Rightarrow> bool) (lms_verify pub m rest) (verdict_result (chain_verdict 0 pub m rest))"
    using gives_soft_verify [OF 0 fit, of rest] by (simp add: verdict_result_def split: if_splits)
  then show ?case by (simp only: verify_certificates.simps) (intro gives_bind [OF gives_ret], simp)
next
  case (Suc n)
  let ?I = "software_state h :: 'w lms_lib \<Rightarrow> bool"
  define len where "len = sig_len_of (pub_lms_type pub) (pub_lmots_type pub)"
  let ?child = "segment len 56 rest" and ?k = "\<lambda>(current, rest). lms_verify current m rest"
  obtain ab where ab: "param_pair (pub_lms_type pub) (pub_lmots_type pub) = Some ab" using Suc.prems by (auto simp: public_key_valid_def)
  have pos: "len \<noteq> 0" using sig_len_pos ab by (simp add: len_def)
  have sl: "gives False ?I (lms_signature_len (pub_lms_type pub) (pub_lmots_type pub)) (Inr len)"
    using soft.gives_signature_len [of False h "pub_lms_type pub" "pub_lmots_type pub"] ab
    by (simp add: len_def sig_len_of_def lms_sig_len_def split: prod.splits)
  have run: "bind (verify_certificates (Suc n) pub rest) ?k = bind (lms_signature_len (pub_lms_type pub) (pub_lmots_type pub)) (\<lambda>cert_len.
     andthen (reject_if (cert_len = 0 \<or> cert_len + LMS_PUBLIC_KEY_LEN > length rest) LMS_ERR_INVALID)
     (let child_pub = segment cert_len LMS_PUBLIC_KEY_LEN rest
      in andthen (or_fail LMS_ERR_VERIFY (lms_verify pub child_pub (take cert_len rest)))
         (bind (or_fail LMS_ERR_VERIFY (lms_public_key_parse child_pub)) (\<lambda>next_pub.
          bind (verify_certificates n next_pub (drop (cert_len + LMS_PUBLIC_KEY_LEN) rest)) ?k))))"
    unfolding verify_certificates.simps Let_def andthen_def op_bind_assoc ..
  have 56: "LMS_PUBLIC_KEY_LEN = 56" by (simp add: LMS_PUBLIC_KEY_LEN_def)
  show ?case
  proof (cases "length rest < len + 56")
    case True
    then show ?thesis unfolding run 56
      by (intro gives_bind [OF sl]) (simp add: gives_andthen_err [OF gives_reject] verdict_result_def Let_def len_def [symmetric])
  next
    case False
    then have l: "length ?child = 56" "\<not> (len = 0 \<or> len + 56 > length rest)" using pos by simp_all
    have fit': "hash_fits h alg (54 + length ?child)" for alg using l by (simp add: hash_fits_small)
    note v = gives_soft_verify [OF Suc.prems fit', of "take len rest"] and p = gives_parse [of h ?child]
    have "gives False ?I (andthen (or_fail LMS_ERR_VERIFY (lms_verify pub ?child (take len rest)))
         (bind (or_fail LMS_ERR_VERIFY (lms_public_key_parse ?child)) (\<lambda>next_pub.
          bind (verify_certificates n next_pub (drop (len + 56) rest)) ?k))) (verdict_result (chain_verdict (Suc n) pub m rest))"
    proof (cases "lms_accepts pub ?child (take len rest)")
      case acc: True
      note v' = gives_andthen [OF gives_or_fail [OF v [unfolded if_P [OF acc]]]]
      show ?thesis
      proof (cases "public_key_valid (parsed_public_key ?child)")
        case True
        have "gives False ?I (lms_public_key_parse ?child) (Inr (parsed_public_key ?child))" using p l(1) True by simp
        moreover have "chain_verdict (Suc n) pub m rest = chain_verdict n (parsed_public_key ?child) m (drop (len + 56) rest)"
          using False acc True by (simp add: Let_def len_def [symmetric])
        ultimately show ?thesis using Suc.IH [OF True] by (intro v' gives_bind [OF gives_or_fail]) simp_all
      next
        case no: False
        have "gives False ?I (lms_public_key_parse ?child) (Inl LMS_ERR_INVALID)" using p no by simp
        from v' [OF gives_bind_err [OF gives_or_fail_err [OF this]]] show ?thesis
          using False no by (simp add: Let_def len_def [symmetric] verdict_result_def)
      qed
    next
      case no: False
      show ?thesis using False no gives_andthen_err [OF gives_or_fail_err [OF v [unfolded if_not_P [OF no]]]]
        by (simp add: Let_def len_def [symmetric] verdict_result_def)
    qed
    then show ?thesis unfolding run 56 Let_def
      by (intro gives_bind [OF sl] gives_andthen [OF gives_reject_pass [OF l(2)]])
  qed
qed

lemma gives_hss_verify:
  assumes "public_key_valid (hpub_root_pub pub)" and "\<And>alg. hash_fits h alg (54 + length m)"
  shows "gives False (software_state h :: 'w lms_lib \<Rightarrow> bool) (hss_verify pub m sig) (verdict_result (hss_verdict pub m sig))"
proof -
  let ?l = "lms_load_u32 sig + 1"
  consider "hpub_levels pub = 0" | "hpub_levels pub \<noteq> 0" "length sig < 4"
    | "hpub_levels pub \<noteq> 0" "\<not> length sig < 4" "?l \<noteq> hpub_levels pub \<or> ?l = 0 \<or> unat ?l > HSS_MAX_LEVELS"
    | "hpub_levels pub \<noteq> 0" "\<not> length sig < 4" "\<not> (?l \<noteq> hpub_levels pub \<or> ?l = 0 \<or> unat ?l > HSS_MAX_LEVELS)" by blast
  then show ?thesis
  proof cases
    case 1
    then show ?thesis by (simp add: hss_verify_def hss_verdict_def verdict_result_def gives_andthen_err [OF gives_reject])
  next
    case 2
    show ?thesis unfolding hss_verify_def
      by (rule gives_andthen [OF gives_reject_pass], use 2 in simp)
        (use 2 in \<open>simp add: hss_verdict_def verdict_result_def gives_andthen_err [OF gives_reject]\<close>)
  next
    case 3
    then have "hss_verdict pub m sig = Some LMS_ERR_VERIFY" by (auto simp: hss_verdict_def HSS_MAX_LEVELS_def)
    then show ?thesis unfolding hss_verify_def Let_def
      by (rule_tac gives_andthen [OF gives_reject_pass], use 3 in simp, rule_tac gives_andthen [OF gives_reject_pass], use 3 in simp)
        (use gives_andthen_err [OF gives_reject [OF 3(3)]] in \<open>simp add: verdict_result_def\<close>)
  next
    case 4
    then have "hss_verdict pub m sig = chain_verdict (unat ?l - 1) (hpub_root_pub pub) m (drop 4 sig)"
      by (simp add: hss_verdict_def HSS_MAX_LEVELS_def)
    then show ?thesis unfolding hss_verify_def Let_def
      using gives_andthen [OF gives_reject_pass [OF 4(1)] gives_andthen [OF gives_reject_pass [OF 4(2)]
          gives_andthen [OF gives_reject_pass [OF 4(3)] gives_chain [OF assms, where rest = "drop 4 sig" and n = "unat ?l - 1"]]]]
      by simp
  qed
qed

section \<open>Signatures are accepted\<close>

lemma certs_split: "i < n \<Longrightarrow> hss_certs p i n = hss_cert p i @ public_key_bytes (hss_pubs p ! Suc i) @ hss_certs p (Suc i) n"
  by (simp add: hss_certs_def upt_conv_Cons)

lemma chain_accepts:
  assumes valid: "hss_valid p" and "i \<le> l" and l: "Suc l = unat (hss_levels p)" and sig: "lms_accepts (hss_pubs p ! l) m sig"
  shows "chain_verdict (l - i) (hss_pubs p ! i) m (hss_certs p i l @ sig) = None"
  using assms(2)
proof (induction "l - i" arbitrary: i)
  case 0
  then show ?case using sig by (simp add: hss_certs_def)
next
  case (Suc d)
  then have i: "i < l" "l - i = Suc (l - Suc i)" by simp_all
  have lv: "level_ok p i" "public_key_valid (hss_pubs p ! Suc i)" "cert_ok p i" "Suc i < unat (hss_levels p)"
    using valid_levelD [OF valid] i l valid by (auto simp: hss_valid_def hss_inv_def)
  have t: "pub_lms_type (hss_pubs p ! i) = hss_lms_types p ! i" "pub_lmots_type (hss_pubs p ! i) = hss_lmots_types p ! i"
    using lv(1) by (simp_all add: level_ok_def lms_public_of_def)
  note len = cert_length(1) [OF valid lv(4)] and b = public_key_fields(1) [OF lv(2)]
  have "chain_verdict (l - Suc i) (hss_pubs p ! Suc i) m (hss_certs p (Suc i) l @ sig) = None" using Suc i by (intro Suc.hyps(1)) auto
  then show ?case unfolding i(2) certs_split [OF i(1)]
    using lv(2,3) len [symmetric] b parsed_public_key_bytes [OF lv(2)] by (simp add: t cert_ok_def Let_def)
qed

text \<open>After signing: the key is valid again and has made progress, the last level by a leaf.\<close>

lemma hss_signed_post:
  assumes valid: "hss_valid p'" and prog: "hss_progress n p p'" and leaf: "has_leaf (unat (hss_levels p) - 1) p'"
    and s: "hss_signed p m p' (p'', sig, w)"
  shows "hss_valid p''" and "hss_progress n p p''" and "leaf_no (unat (hss_levels p) - 1) p < leaf_no (unat (hss_levels p) - 1) p''"
    and "hss_verdict \<lparr>hpub_levels = hss_levels p, hpub_root_pub = hss_pubs p ! 0\<rparr> m sig = None"
proof -
  define l where "l = unat (hss_levels p) - 1"
  have same: "hss_levels p' = hss_levels p" "hss_pubs p' ! 0 = hss_pubs p ! 0" using prog by (simp_all add: hss_progress_def)
  have lev: "0 < unat (hss_levels p)" "unat (hss_levels p) \<le> 8" "length (hss_keys p') = 8"
    using valid same by (auto simp: hss_valid_def hss_inv_def hss_shape_def)
  have l: "l < 8" "Suc l = unat (hss_levels p)" "l < unat (hss_levels p')" using lev same by (simp_all add: l_def)
  obtain lsig key where k: "signed_by (hss_keys p' ! l) m (key, lsig, length lsig)" "p'' = p'\<lparr>hss_keys := (hss_keys p')[l := key]\<rparr>"
    "sig = lms_store_u32 (hss_levels p - 1) @ hss_certs p' 0 l @ lsig"
    using s unfolding hss_signed_def l_def [symmetric] Let_def prod.case by blast
  have lv: "level_ok p' l" using valid_levelD(1) [OF valid l(3)] .
  have post: "private_key_valid key" "unat (priv_q key) = Suc (unat (priv_q (hss_keys p' ! l)))"
    using signed_by_valid [OF k(1)] lv leaf by (auto simp: level_ok_def has_leaf_def l_def)
  have key: "key = (hss_keys p' ! l)\<lparr>priv_q := priv_q (hss_keys p' ! l) + 1\<rparr>" using k(1) by (simp add: signed_by_def)
  have keys: "hss_keys p'' ! i = (if i = l then key else hss_keys p' ! i)" for i using k(2) l(1) lev(3) by (simp add: nth_list_update)
  have eq: "hss_levels p'' = hss_levels p'" "hss_lms_types p'' = hss_lms_types p'" "hss_lmots_types p'' = hss_lmots_types p'"
    "hss_pubs p'' = hss_pubs p'" "hss_generation p'' = hss_generation p'" "hss_cert_len p'' = hss_cert_len p'" "hss_cert p'' i = hss_cert p' i"
    "hss_shape p'' = hss_shape p'" for i
    using k(2) by (simp_all add: hss_cert_def hss_shape_def)
  have "level_ok p'' i" if "i < unat (hss_levels p')" for i
    using valid_levelD(1) [OF valid that] lv post(1) key by (cases "i = l") (simp_all add: level_ok_def eq keys)
  moreover have "cert_ok p'' i" if "i < l" for i
    using valid that l(2) same by (simp add: hss_valid_def hss_inv_def cert_ok_def eq keys l_def)
  ultimately show "hss_valid p''" using valid l(2) same by (simp add: hss_valid_def hss_inv_def eq)
  have no: "leaf_no i p'' = leaf_no i p' + of_bool (i = l)" for i using post(2) by (simp add: leaf_no_def keys eq)
  have "leaf_no l p \<le> leaf_no l p'" using prog by (simp add: hss_progress_def)
  then show "leaf_no (unat (hss_levels p) - 1) p < leaf_no (unat (hss_levels p) - 1) p''" unfolding l_def [symmetric] by (simp add: no)
  show "hss_progress n p p''" using prog unfolding hss_progress_def eq no by (auto simp: le_SucI less_SucI)
  have "lms_accepts (hss_pubs p' ! l) m lsig" using k(1) lv by (simp add: signed_by_def level_ok_def)
  from chain_accepts [OF valid _ _ this, of 0] have "chain_verdict l (hss_pubs p ! 0) m (hss_certs p' 0 l @ lsig) = None"
    using l same by simp
  moreover have "hss_levels p \<noteq> 0" using lev by auto
  ultimately show "hss_verdict \<lparr>hpub_levels = hss_levels p, hpub_root_pub = hss_pubs p ! 0\<rparr> m sig = None"
    using k(3) lev l_def by (simp add: hss_verdict_def)
qed

section \<open>Properties\<close>

text \<open>
  C4. \<open>hss_sign\<close> signs as long as any level of the hierarchy has a free leaf, and every signature
  verifies. For a valid key with room in its generations and a large enough buffer and heap: if
  some level has a free leaf, signing succeeds, the signature has the length
  \<open>hss_signature_len\<close> announced and \<open>hss_verify\<close> accepts it under the key of
  \<open>hss_public_key_generate\<close> from before the call; the returned key is valid again, its root is
  the same, no level's leaf number went back, the last level used a new leaf, and a level has
  another certificate only if it used a further leaf for it. If all levels are used up, the
  answer is \<open>LMS_ERR_EXHAUSTED\<close>.
\<close>

theorem hss_sign_complete:
  fixes s s' :: "'w lms_lib"
  assumes valid: "hss_valid p" and heap: "HSS_PRIVATE_KEY_SIZE \<le> h" and len: "fst (hss_signature_len p s) = Inr needed" "needed \<le> n"
    and fit: "\<And>alg. hash_fits h alg (54 + length m)"
    and room: "\<And>i. i < unat (hss_levels p) \<Longrightarrow> generation_value (hss_generation p ! i) + 64 < 256 ^ 32"
    and s: "software_state h s" "software_state h s'"
  shows "if \<exists>k < unat (hss_levels p). has_leaf k p
    then \<exists>p' sig pub. fst (hss_sign p m n s) = Inr (p', sig, needed) \<and> length sig = needed
      \<and> fst (hss_public_key_generate p s) = Inr pub \<and> fst (hss_verify pub m sig s') = Inr ()
      \<and> hss_valid p' \<and> hss_progress 64 p p' \<and> leaf_no (unat (hss_levels p) - 1) p < leaf_no (unat (hss_levels p) - 1) p'
    else fst (hss_sign p m n s) = Inl LMS_ERR_EXHAUSTED"
proof -
  have needed: "needed = hss_len p" using gives_run(1) [OF gives_hss_signature_len [OF valid] s(1)] len(1) by simp
  have run: "if \<exists>k < unat (hss_levels p). has_leaf k p
         then \<exists>p' x. fst (hss_sign p m n s) = Inr x \<and> hss_valid p' \<and> hss_progress 64 p p' \<and> has_leaf (unat (hss_levels p) - 1) p' \<and> hss_signed p m p' x
         else fst (hss_sign p m n s) = Inl LMS_ERR_EXHAUSTED"
    using yields_run(1) [OF yields_hss_sign [OF valid heap _ fit room] s(1)] len(2) needed by blast
  show ?thesis
  proof (cases "\<exists>k < unat (hss_levels p). has_leaf k p")
    case True
    then obtain p' x where x: "fst (hss_sign p m n s) = Inr x" "hss_valid p'" "hss_progress 64 p p'"
      "has_leaf (unat (hss_levels p) - 1) p'" "hss_signed p m p' x" using run by auto
    obtain p'' sig w where t: "x = (p'', sig, w)" by (rule prod_cases3)
    note post = hss_signed_post [OF x(2-4) x(5) [unfolded t]]
    have w: "w = needed" "length sig = needed" using x(5) by (auto simp: hss_signed_def t Let_def needed)
    let ?pub = "\<lparr>hpub_levels = hss_levels p, hpub_root_pub = hss_pubs p ! 0\<rparr>"
    have "0 < unat (hss_levels p)" using valid by (simp add: hss_valid_def hss_inv_def hss_shape_def)
    then have "public_key_valid (hpub_root_pub ?pub)" "hss_levels p \<noteq> 0" using valid_levelD(3) [OF valid] by auto
    then have "fst (hss_public_key_generate p s) = Inr ?pub" "fst (hss_verify ?pub m sig s') = Inr ()"
      using gives_run(1) [OF gives_hss_verify [OF _ fit, of ?pub sig] s(2)] post(4)
      by (simp_all add: hss_public_key_generate_def op_defs verdict_result_def)
    then show ?thesis using True x(1) t w post(1-3) by auto
  next
    case False
    then show ?thesis using run by auto
  qed
qed

section \<open>Initialisation\<close>

text \<open>The parameter lists \<open>hss_private_key_init\<close> takes: known typecodes at every level and one hash
  function throughout.\<close>

definition hss_params_ok :: "nat \<Rightarrow> u32 list \<Rightarrow> u32 list \<Rightarrow> bool" where
  "hss_params_ok n lms_types lmots_types \<longleftrightarrow> 0 < n \<and> n \<le> 8 \<and> (\<exists>alg. \<forall>i < n.
     \<exists>a b. param_pair (lms_types ! i) (lmots_types ! i) = Some (a, b) \<and> lp_hash_alg a = alg)"

lemma gives_same_hash:
  assumes "hss_params_ok n lms_types lmots_types" and "i < n"
  shows "gives False (software_state h) (same_hash_levels lms_types lmots_types i) (Inr ())"
proof -
  obtain a b a0 b0 where p: "param_pair (lms_types ! i) (lmots_types ! i) = Some (a, b)"
      "param_pair (lms_types ! 0) (lmots_types ! 0) = Some (a0, b0)" "lp_hash_alg a = lp_hash_alg a0"
    using assms unfolding hss_params_ok_def by metis
  note q = param_pairD [OF p(1)] and q0 = param_pairD [OF p(2)]
  show ?thesis unfolding same_hash_levels_def
    by (rule gives_bind [OF gives_or_fail [OF soft.gives_lms_param_ok [OF q0(1)]]],
        rule gives_bind [OF gives_or_fail [OF soft.gives_lms_param_ok [OF q(1)]]],
        rule gives_bind [OF gives_or_fail [OF soft.gives_lmots_param_ok [OF q0(2)]]],
        rule gives_bind [OF gives_or_fail [OF soft.gives_lmots_param_ok [OF q(2)]]])
      (use p(3) q(3) q0(3) in \<open>simp add: gives_reject_pass\<close>)
qed

text \<open>While the levels are built: the first \<open>i\<close> levels have fresh keys.\<close>

definition fresh_levels :: "u32 \<Rightarrow> nat \<Rightarrow> hss_private_key_t \<Rightarrow> bool" where
  "fresh_levels levels i p \<longleftrightarrow> hss_levels p = levels \<and> hss_shape p \<and> length (hss_lms_types p) = 8 \<and> length (hss_lmots_types p) = 8
     \<and> hss_generation p = replicate 8 (replicate 32 0) \<and> (\<forall>k < i. level_ok p k \<and> priv_q (hss_keys p ! k) = 0)"

lemma fresh_step:
  assumes p: "fresh_levels levels i p" and i: "i < 8" and pair: "param_pair (lms_types ! i) (lmots_types ! i) \<noteq> None"
  shows "gives False (software_state h) (build_level i (set_level_types lms_types lmots_types i p)) (Inr (built i (set_level_types lms_types lmots_types i p)))"
    and "fresh_levels levels (Suc i) (built i (set_level_types lms_types lmots_types i p))"
proof -
  let ?p = "set_level_types lms_types lmots_types i p"
  have t: "hss_lms_types ?p ! i = lms_types ! i" "hss_lmots_types ?p ! i = lmots_types ! i"
    using p i by (simp_all add: set_level_types_def fresh_levels_def)
  show "gives False (software_state h) (build_level i ?p) (Inr (built i ?p))" by (rule gives_build_level) (simp add: t pair)
  have v: "private_key_valid (level_key ?p i)" by (rule level_key_valid) (simp add: t pair)
  have new: "level_ok (built i ?p) i \<and> priv_q (hss_keys (built i ?p) ! i) = 0"
    using v i p by (simp add: level_ok_def built_def fresh_levels_def hss_shape_def set_level_types_def) (simp add: level_key_def Let_def)
  have old: "level_ok (built i ?p) k \<and> priv_q (hss_keys (built i ?p) ! k) = 0" if "k < i" for k
    using p that i by (simp add: fresh_levels_def level_ok_def built_def set_level_types_def)
  have "level_ok (built i ?p) k \<and> priv_q (hss_keys (built i ?p) ! k) = 0" if "k < Suc i" for k
    using that new old by (cases "k = i") simp_all
  moreover have "hss_shape (built i ?p) = hss_shape p" "hss_levels (built i ?p) = hss_levels p" "hss_generation (built i ?p) = hss_generation p"
    "length (hss_lms_types (built i ?p)) = length (hss_lms_types p)" "length (hss_lmots_types (built i ?p)) = length (hss_lmots_types p)"
    by (simp_all add: built_def set_level_types_def hss_shape_def)
  ultimately show "fresh_levels levels (Suc i) (built i ?p)" using p by (simp add: fresh_levels_def)
qed

lemma fresh_cleared: "0 < unat levels \<Longrightarrow> unat levels \<le> 8 \<Longrightarrow> fresh_levels levels 0 (hss_cleared levels seed)"
  by (simp add: fresh_levels_def hss_cleared_def hss_shape_def)

text \<open>While the certificates are issued: the first \<open>i\<close> are there, the other levels are untouched.\<close>

definition issuing :: "u32 \<Rightarrow> nat \<Rightarrow> hss_private_key_t \<Rightarrow> bool" where
  "issuing levels i p \<longleftrightarrow> hss_levels p = levels \<and> hss_inv i p \<and> hss_generation p = replicate 8 (replicate 32 0)
     \<and> (\<forall>k < unat levels. unat (priv_q (hss_keys p ! k)) = of_bool (k < i))"

lemma issuing_leaf:
  assumes "issuing levels i p" and "i < unat levels"
  shows "has_leaf i p"
proof -
  have "private_key_valid (hss_keys p ! i)" using assms by (simp add: issuing_def hss_inv_def level_ok_def)
  from key_leaves_bounds [OF this] show ?thesis using assms by (simp add: issuing_def has_leaf_def)
qed

lemma issue_step:
  assumes p: "issuing levels i p" and i: "Suc i < unat levels"
  shows "yields False (software_state h :: 'w lms_lib \<Rightarrow> bool) (or_fail_call LMS_ERR_EXHAUSTED (sign_child_certificate i p))
    (\<lambda>r. \<exists>p'. r = Inr p' \<and> issuing levels (Suc i) p')"
proof -
  have pre: "hss_inv i p" "Suc i < unat (hss_levels p)" "level_ok p i" "level_ok p (Suc i)" "has_leaf i p"
    using assms issuing_leaf [OF p] by (auto simp: issuing_def hss_inv_def)
  have "issuing levels (Suc i) (certified i sig p)"
    if "signed_by (hss_keys p ! i) (public_key_bytes (hss_pubs p ! Suc i)) (x, sig, n)" for x sig n
  proof -
    have "hss_shape p" using pre(1) by (simp add: hss_inv_def)
    note new = certified_new(4) [OF this pre(2,3,5) that]
    have "unat (priv_q (hss_keys (certified i sig p) ! k)) = of_bool (k < Suc i)" if "k < unat levels" for k
      using p new that i by (cases "k = i") (auto simp: issuing_def)
    then show ?thesis using certified_inv [OF pre(1,2,5) that] p by (simp add: issuing_def)
  qed
  then show ?thesis by (intro yields_mono [OF yields_or_fail_call [OF yields_sign_child [OF pre(2,3,5,4)]]]) blast
qed

lemma generation_value_zero: "generation_value (replicate n 0) = 0"
proof -
  have "le_value (replicate n 0) = 0" by (induction n) simp_all
  then show ?thesis by (simp add: generation_value_def)
qed

lemma yields_init:
  assumes ok: "hss_params_ok (unat levels) lms_types lmots_types"
  shows "yields False (software_state h :: 'w lms_lib \<Rightarrow> bool) (hss_private_key_init levels lms_types lmots_types master_seed)
    (\<lambda>r. \<exists>p'. r = Inr p' \<and> issuing levels (unat levels - 1) p')"
proof -
  let ?I = "software_state h :: 'w lms_lib \<Rightarrow> bool" and ?n = "unat levels"
  have n: "0 < ?n" "?n \<le> 8" "levels \<noteq> 0" using ok by (auto simp: hss_params_ok_def)
  have pair: "param_pair (lms_types ! i) (lmots_types ! i) \<noteq> None" if "i < ?n" for i using ok that unfolding hss_params_ok_def by force
  have 1: "gives False ?I (for_each (same_hash_levels lms_types lmots_types) [1..<?n]) (Inr (map (\<lambda>_. ()) [1..<?n]))"
    by (rule gives_for_each) (rule gives_same_hash [OF ok], simp)
  have 2: "yields False ?I (fold_each (\<lambda>i priv. or_fail_call LMS_ERR_INVALID (build_level i (set_level_types lms_types lmots_types i priv)))
      [0..<?n] (hss_cleared levels master_seed)) (\<lambda>r. \<exists>p. r = Inr p \<and> fresh_levels levels ?n p)"
  proof (rule yields_fold_upt)
    show "fresh_levels levels 0 (hss_cleared levels master_seed)" by (rule fresh_cleared [OF n(1,2)])
    fix i p assume i: "i < ?n" and p: "fresh_levels levels i p"
    have "i < 8" using i n by simp
    note st = fresh_step [OF p this pair [OF i]]
    show "yields False ?I (or_fail_call LMS_ERR_INVALID (build_level i (set_level_types lms_types lmots_types i p)))
        (\<lambda>r. \<exists>p'. r = Inr p' \<and> fresh_levels levels (Suc i) p')"
      by (rule yields_gives [OF gives_or_fail_call [OF st(1)]]) (use st(2) in blast)
  qed simp
  have 3: "yields False ?I (fold_each (\<lambda>i priv. or_fail_call LMS_ERR_EXHAUSTED (sign_child_certificate i priv)) [0..<?n - 1] p)
      (\<lambda>r. \<exists>p'. r = Inr p' \<and> issuing levels (?n - 1) p')" if "fresh_levels levels ?n p" for p
  proof (rule yields_fold_upt)
    show "issuing levels 0 p" using that by (simp add: fresh_levels_def issuing_def hss_inv_def)
    fix i p' assume "i < ?n - 1" "issuing levels i p'"
    then show "yields False ?I (or_fail_call LMS_ERR_EXHAUSTED (sign_child_certificate i p')) (\<lambda>r. \<exists>p''. r = Inr p'' \<and> issuing levels (Suc i) p'')"
      by (intro issue_step) simp_all
  qed simp
  show ?thesis
    unfolding hss_private_key_init_def
    by (rule yields_guard, use n in \<open>simp add: HSS_MAX_LEVELS_def\<close>, unfold andthen_def, rule yields_bind_gives [OF 1],
        rule yields_bind_ok [OF 2]) (rule 3)
qed

lemma issuing_done:
  assumes "issuing levels (unat levels - 1) p"
  shows "hss_valid p \<and> hss_levels p = levels \<and> hss_generation p = replicate 8 (replicate 32 0)
    \<and> (\<forall>i < unat levels. leaf_no i p = of_bool (Suc i < unat levels)) \<and> has_leaf (unat levels - 1) p"
proof -
  have n: "0 < unat levels" "unat levels \<le> 8" using assms by (auto simp: issuing_def hss_inv_def hss_shape_def)
  have "leaf_no i p = of_bool (Suc i < unat levels)" if "i < unat levels" for i
    using assms that n by (simp add: issuing_def leaf_no_def generation_value_zero less_diff_conv)
  moreover have "has_leaf (unat levels - 1) p" using issuing_leaf [OF assms] n by simp
  ultimately show ?thesis using assms by (simp add: issuing_def hss_valid_def)
qed


section \<open>Witnesses\<close>

text \<open>Two levels of height 5 in a library with a heap for one key.\<close>

definition hss_test_lib :: "unit lms_lib" where
  "hss_test_lib = hash_test_lib\<lparr>malloc_limit := HSS_PRIVATE_KEY_SIZE\<rparr>"

lemma hss_test_state: "software_state HSS_PRIVATE_KEY_SIZE hss_test_lib"
  by (simp add: software_state_def plain_state_def statics_ok_def haraka_ok_def hss_test_lib_def hash_test_lib_def)

lemma hss_test_params: "hss_params_ok 2 [LMS_SHA256_N32_H5, LMS_SHA256_N32_H5] [LMOTS_SHA256_N32_W8, LMOTS_SHA256_N32_W8]"
proof -
  have p: "param_pair LMS_SHA256_N32_H5 LMOTS_SHA256_N32_W8 = Some (test_lms_param, test_ots_param)"
    using test_priv_facts(3) by (simp add: test_priv_def)
  have "\<exists>a b. param_pair ([LMS_SHA256_N32_H5, LMS_SHA256_N32_H5] ! i) ([LMOTS_SHA256_N32_W8, LMOTS_SHA256_N32_W8] ! i) = Some (a, b)
      \<and> lp_hash_alg a = lp_hash_alg test_lms_param" if "i < 2" for i :: nat
    using that p by (cases i) auto
  then show ?thesis unfolding hss_params_ok_def by auto
qed


text \<open>The key of the other witnesses, found by the initialisation lemmas.\<close>

lemma hss_test_key:
  "\<exists>p. hss_valid p \<and> hss_levels p = 2 \<and> hss_generation p = replicate 8 (replicate 32 0) \<and> has_leaf 1 p"
proof -
  have "yields False (software_state HSS_PRIVATE_KEY_SIZE :: unit lms_lib \<Rightarrow> bool)
      (hss_private_key_init 2 [LMS_SHA256_N32_H5, LMS_SHA256_N32_H5] [LMOTS_SHA256_N32_W8, LMOTS_SHA256_N32_W8] (replicate 32 0))
      (\<lambda>r. \<exists>p'. r = Inr p' \<and> issuing 2 (unat (2 :: u32) - 1) p')"
    by (rule yields_init) (simp add: hss_test_params)
  from yields_run(1) [OF this hss_test_state] obtain p where "issuing 2 (unat (2 :: u32) - 1) p" by auto
  from issuing_done [OF this] show ?thesis by auto
qed

text \<open>Witness of C4: the two-level key signs a message.\<close>

theorem hss_sign_complete_witness:
  "\<exists>p p' sig pub n. hss_valid p \<and> fst (hss_sign p [1, 2, 3] n hss_test_lib) = Inr (p', sig, n)
     \<and> fst (hss_public_key_generate p hss_test_lib) = Inr pub \<and> fst (hss_verify pub [1, 2, 3] sig hss_test_lib) = Inr ()
     \<and> leaf_no 1 p < leaf_no 1 p'"
proof -
  obtain p where p: "hss_valid p" "hss_levels p = 2" "hss_generation p = replicate 8 (replicate 32 0)" "has_leaf 1 p"
    using hss_test_key by blast
  have len: "fst (hss_signature_len p hss_test_lib) = Inr (hss_len p)"
    by (rule gives_run(1) [OF gives_hss_signature_len [OF p(1)] hss_test_state])
  have fit: "hash_fits HSS_PRIVATE_KEY_SIZE alg (54 + length [1, 2, 3 :: u8])" for alg by (simp add: hash_fits_small)
  have room: "generation_value (hss_generation p ! i) + 64 < 256 ^ 32" if "i < unat (hss_levels p)" for i
    using that p by (simp add: generation_value_zero)
  have leaf: "\<exists>k < unat (hss_levels p). has_leaf k p" using p by (intro exI [of _ 1]) simp
  show ?thesis
    using hss_sign_complete [OF p(1) order_refl len order_refl fit room hss_test_state hss_test_state] p leaf
    unfolding if_P [OF leaf] by auto
qed

section \<open>A signing session\<close>

text \<open>A client that signs a list of messages and keeps the returned key; the outcome is the key after
  each released signature.\<close>

fun hss_session :: "nat \<Rightarrow> hss_private_key_t \<Rightarrow> bytes list \<Rightarrow> 'w lms_lib \<Rightarrow> hss_private_key_t list" where
  "hss_session n p [] s = []"
| "hss_session n p (m # ms) s =
     (case hss_sign p m n s of
        (Inl _, s') \<Rightarrow> hss_session n p ms s'
      | (Inr (p', sig, written), s') \<Rightarrow> p' # hss_session n p' ms s')"

text \<open>From one key to a later one: the last level has used leaves, no level has gone back, and a level
  with another certificate has used leaves.\<close>

definition used_further :: "nat \<Rightarrow> hss_private_key_t \<Rightarrow> hss_private_key_t \<Rightarrow> bool" where
  "used_further l x y \<longleftrightarrow> leaf_no l x < leaf_no l y
     \<and> (\<forall>i. leaf_no i x \<le> leaf_no i y \<and> (hss_cert y i = hss_cert x i \<or> leaf_no i x < leaf_no i y))"

lemma used_further_trans: "used_further l x y \<Longrightarrow> used_further l y z \<Longrightarrow> used_further l x z"
proof -
  assume a: "used_further l x y" "used_further l y z"
  have "leaf_no i x \<le> leaf_no i z \<and> (hss_cert z i = hss_cert x i \<or> leaf_no i x < leaf_no i z)" for i
  proof -
    have "leaf_no i x \<le> leaf_no i y" "hss_cert y i = hss_cert x i \<or> leaf_no i x < leaf_no i y"
      "leaf_no i y \<le> leaf_no i z" "hss_cert z i = hss_cert y i \<or> leaf_no i y < leaf_no i z"
      using a unfolding used_further_def by blast+
    then show ?thesis by (elim disjE) simp_all
  qed
  moreover have "leaf_no l x < leaf_no l z"
    using a unfolding used_further_def by (blast intro: less_trans)
  ultimately show ?thesis unfolding used_further_def by blast
qed

lemma hss_sign_step:
  fixes s :: "'w lms_lib"
  assumes valid: "hss_valid p" and heap: "HSS_PRIVATE_KEY_SIZE \<le> h" and len: "hss_len p \<le> n"
    and fit: "\<And>alg. hash_fits h alg (54 + length m)"
    and room: "\<And>i. i < unat (hss_levels p) \<Longrightarrow> generation_value (hss_generation p ! i) + 64 < 256 ^ 32"
    and s: "software_state h s" and run: "hss_sign p m n s = (Inr (p', sig, w), s')"
  shows "hss_valid p' \<and> hss_progress 64 p p' \<and> used_further (unat (hss_levels p) - 1) p p'"
proof -
  note y = yields_run(1) [OF yields_hss_sign [OF valid heap len fit room] s, unfolded run fst_conv]
  then obtain p1 where x: "hss_valid p1" "hss_progress 64 p p1" "has_leaf (unat (hss_levels p) - 1) p1" "hss_signed p m p1 (p', sig, w)"
    by (auto split: if_splits)
  note post = hss_signed_post [OF x]
  then show ?thesis by (auto simp: used_further_def hss_progress_def)
qed

lemma hss_len_progress: "hss_progress k p p' \<Longrightarrow> hss_len p' = hss_len p"
  by (simp add: hss_progress_def hss_len_def)



section \<open>Public keys and verification\<close>



text \<open>
  Serialised HSS public keys: the parser accepts exactly the 60-byte encodings of keys with 1 to 8
  levels and a valid root key, and returns the key that was written.
\<close>

theorem hss_public_key_roundtrip:
  assumes "statics_ok s" and "60 \<le> out_len"
  shows "fst (hss_public_key_parse inp s) = Inr pub \<longleftrightarrow>
      hpub_levels pub \<noteq> 0 \<and> unat (hpub_levels pub) \<le> 8 \<and> public_key_valid (hpub_root_pub pub)
      \<and> fst (hss_public_key_serialize pub out_len s) = Inr inp"
proof -
  have "56 \<le> out_len - 4" using assms(2) by simp
  then have ser: "fst (hss_public_key_serialize pub out_len s) = Inr (lms_store_u32 (hpub_levels pub) @ public_key_bytes (hpub_root_pub pub))"
    using assms(2) by (simp add: hss_public_key_serialize_def lms_public_key_serialize_def public_key_bytes_def op_defs HSS_PUBLIC_KEY_LEN_def lms_lens)
  have parse: "fst (hss_public_key_parse inp s) =
      (if length inp = 60 \<and> lms_load_u32 inp \<noteq> 0 \<and> unat (lms_load_u32 inp) \<le> 8 \<and> public_key_valid (parsed_public_key (drop 4 inp))
       then Inr \<lparr>hpub_levels = lms_load_u32 inp, hpub_root_pub = parsed_public_key (drop 4 inp)\<rparr> else Inl LMS_ERR_INVALID)"
    using public_key_parse_result [OF assms(1), of "drop 4 inp"]
    by (auto simp: hss_public_key_parse_def op_defs Let_def HSS_PUBLIC_KEY_LEN_def HSS_MAX_LEVELS_def lms_lens split: prod.splits sum.splits if_splits)
  have restored: "public_key_bytes (parsed_public_key (drop 4 inp)) = drop 4 inp" "lms_store_u32 (lms_load_u32 inp) = take 4 inp" if "length inp = 60"
    using that public_key_bytes_parse [of "drop 4 inp"] store_load_prefix [of inp] by (simp_all add: parsed_public_key_def)
  show ?thesis
  proof
    assume "fst (hss_public_key_parse inp s) = Inr pub"
    then show "hpub_levels pub \<noteq> 0 \<and> unat (hpub_levels pub) \<le> 8 \<and> public_key_valid (hpub_root_pub pub)
        \<and> fst (hss_public_key_serialize pub out_len s) = Inr inp"
      using restored unfolding parse ser by (auto split: if_splits)
  next
    assume a: "hpub_levels pub \<noteq> 0 \<and> unat (hpub_levels pub) \<le> 8 \<and> public_key_valid (hpub_root_pub pub)
        \<and> fst (hss_public_key_serialize pub out_len s) = Inr inp"
    then have inp: "inp = lms_store_u32 (hpub_levels pub) @ public_key_bytes (hpub_root_pub pub)" using ser by simp
    show "fst (hss_public_key_parse inp s) = Inr pub"
      using a parsed_public_key_bytes [of "hpub_root_pub pub"] public_key_fields(1) [of "hpub_root_pub pub"] unfolding parse unfolding inp by (simp del: One_nat_def)
  qed
qed

text \<open>An instance: a two-level key written and read back.\<close>

theorem hss_public_key_roundtrip_witness:
  "\<exists>inp. fst (hss_public_key_serialize \<lparr>hpub_levels = 2, hpub_root_pub = test_pub\<rparr> 60 hss_test_lib) = Inr inp
     \<and> fst (hss_public_key_parse inp hss_test_lib) = Inr \<lparr>hpub_levels = 2, hpub_root_pub = test_pub\<rparr>"
proof -
  let ?pub = "\<lparr>hpub_levels = 2, hpub_root_pub = test_pub\<rparr>"
  have s: "statics_ok hss_test_lib" using hss_test_state by (simp add: software_state_def plain_state_def)
  have v: "public_key_valid test_pub" using test_priv_facts(3) by (simp add: public_key_valid_def test_pub_def test_priv_def)
  obtain inp where inp: "fst (hss_public_key_serialize ?pub 60 hss_test_lib) = Inr inp"
    by (simp add: hss_public_key_serialize_def lms_public_key_serialize_def op_defs HSS_PUBLIC_KEY_LEN_def lms_lens)
  then show ?thesis using hss_public_key_roundtrip [OF s order_refl, of inp ?pub] v by simp
qed

end
