(* ===== verification/Lms_Subtree.thy ===== *)
theory Lms_Subtree
  imports Lms_Sign
begin

text \<open>
  \<open>src/lms_subtree.c\<close>: the tree cache. The Merkle tree of height \<open>h\<close> is cut into sublevels of
  subtrees of height \<open>j\<close>; a configurator picks \<open>j\<close> for a memory budget, each sublevel keeps one
  subtree around the current leaf, and authentication paths are read off the cached nodes.

  An operation on the cache runs on three things: the static state of the library, the context
  \<open>lms_tree_ctx_t\<close>, and the state of the injected allocator. All three keep what was done to them
  when the operation fails. A pointer to an allocated buffer is the address the allocator
  returned with the contents; buffers of nodes are lists of slots of \<open>n\<close> bytes, since all accesses
  are at \<open>nodes + i * n\<close>. Heights, levels and leaf numbers are natural numbers (at most \<open>2 ^ 26\<close> for
  every parameter set); the arithmetic of the configurator keeps its machine words.
\<close>

section \<open>Types\<close>

definition LMS_SUBTREE_MIN_J :: u32 where "LMS_SUBTREE_MIN_J = 2"

datatype lms_tree_fit_t = LMS_TREE_FIT_NONE | LMS_TREE_FIT_OVERBUDGET | LMS_TREE_FIT_WITHIN_BUDGET

record lms_tree_config_t =
  cfg_lms_type :: u32
  cfg_height :: u32
  cfg_n :: u32
  cfg_subtree_size :: u32
  cfg_sublevels :: u32
  cfg_est_memory :: u64
  cfg_fit :: lms_tree_fit_t

type_synonym buffer = "nat \<times> bytes list"

record lms_subtree_t =
  sub_height :: nat
  sub_level :: nat
  sub_levels_below :: nat
  sub_tree_height :: nat
  sub_left_leaf :: nat
  sub_current_index :: nat
  sub_nodes :: "buffer option"
  sub_stack :: "buffer option"

record lms_sublevel_t =
  sl_active :: lms_subtree_t
  sl_upcoming :: lms_subtree_t
  sl_has_upcoming :: bool

text \<open>\<open>sizeof(lms_sublevel_t)\<close> on the RV32 target: two subtrees of 40 bytes and a flag, aligned to 8.\<close>

definition LMS_SUBLEVEL_SIZE :: nat where "LMS_SUBLEVEL_SIZE = 88"

type_synonym 'w ots_pub_fn = "lms_private_key_t \<Rightarrow> u32 \<Rightarrow> ('w, bytes) lop"
type_synonym 'm tree_alloc_fn = "nat \<Rightarrow> 'm \<Rightarrow> nat option \<times> 'm"
type_synonym 'm tree_free_fn = "nat \<Rightarrow> 'm \<Rightarrow> 'm"

record ('w, 'm) lms_tree_ctx_t =
  ctx_lms_type :: u32
  ctx_height :: nat
  ctx_n :: nat
  ctx_subtree_size :: nat
  ctx_sublevels :: nat
  ctx_top_subtree_size :: nat
  ctx_hash_alg :: lms_hash_alg_t
  ctx_I :: bytes
  ctx_levels :: "(nat \<times> lms_sublevel_t list) option"
  ctx_ots_pub :: "'w ots_pub_fn option"
  ctx_leaf_fn :: "'w ots_pub_fn option"
  ctx_alloc :: "'m tree_alloc_fn"
  ctx_free :: "'m tree_free_fn"

record ('w, 'm) tree_state =
  t_lib :: "'w lms_lib"
  t_ctx :: "('w, 'm) lms_tree_ctx_t"
  t_mem :: 'm

type_synonym ('w, 'm, 'a) top = "(lms_status_t, ('w, 'm) tree_state, 'a) op"
type_synonym ('w, 'a) sop = "(lms_status_t, 'w lms_lib \<times> lms_subtree_t, 'a) op"

section \<open>Configurator\<close>

definition subtree_nodes_bytes :: "u32 \<Rightarrow> u32 \<Rightarrow> u64" where
  "subtree_nodes_bytes sub_h n = push_bit (unat sub_h) 2 * ucast n"

definition lms_tree_updates_generated :: "u32 \<Rightarrow> u32 \<Rightarrow> u64" where
  "lms_tree_updates_generated height subtree =
     (if subtree = 0 then 0
      else if height \<le> subtree then push_bit (unat height) 1
      else let num_sublevels = (height + subtree - 1) div subtree
           in push_bit (unat ((num_sublevels - 1) * subtree)) 1)"

definition lms_tree_updates_required :: "u32 \<Rightarrow> u32 \<Rightarrow> u64" where
  "lms_tree_updates_required height subtree =
     (if subtree = 0 then 0
      else let num_sublevels = (height + subtree - 1) div subtree
           in ucast num_sublevels + 1)"

text \<open>The result and \<open>*sublevels_out\<close>.\<close>

definition lms_tree_estimate_memory :: "u32 \<Rightarrow> u32 \<Rightarrow> u32 \<Rightarrow> u64 \<times> u32" where
  "lms_tree_estimate_memory height subtree_size n =
     (if subtree_size = 0 \<or> n = 0 then (0, 0)
      else let sublevels = (height + subtree_size - 1) div subtree_size;
               sublevels = if sublevels = 0 then 1 else sublevels;
               top_subtree_size = height - (sublevels - 1) * subtree_size
           in (fold (\<lambda>s memory_used.
                 let sub_h = if word_of_nat s + 1 < sublevels then subtree_size else top_subtree_size;
                     nodes_bytes = subtree_nodes_bytes sub_h n;
                     stack_bytes = ucast sub_h * ucast n;
                     memory_used = memory_used + (nodes_bytes + stack_bytes)
                 in if word_of_nat s + 1 < sublevels then memory_used + (nodes_bytes + stack_bytes) else memory_used)
               [0..<unat sublevels] 0, sublevels))"

text \<open>The state of the selection loop.\<close>

record tree_search =
  found_overbudget :: bool
  found_within :: bool
  best_mem :: u64
  best_levels :: u32
  best_j :: u32

definition consider_size :: "u32 \<Rightarrow> u32 \<Rightarrow> u64 \<Rightarrow> u32 \<Rightarrow> tree_search \<Rightarrow> tree_search" where
  "consider_size height n memory_target j st =
     (let (mem, sub_levels) = lms_tree_estimate_memory height j n
      in if mem > memory_target
         then if (found_overbudget st \<or> found_within st) \<and> mem > best_mem st then st
              else st\<lparr>found_overbudget := True, best_j := j, best_mem := mem, best_levels := sub_levels\<rparr>
         else if found_within st \<and> (sub_levels > best_levels st \<or> sub_levels = best_levels st \<and> mem > best_mem st) then st
              else st\<lparr>found_within := True, best_j := j, best_mem := mem, best_levels := sub_levels\<rparr>)"

definition lms_tree_configure :: "u32 \<Rightarrow> u64 \<Rightarrow> ('w, lms_tree_config_t) lop" where
  "lms_tree_configure lms_type memory_target =
     bind (or_fail LMS_ERR_INVALID (lms_get_lms_param lms_type)) (\<lambda>param.
     let height = word_of_nat (lp_height param); n = word_of_nat (lp_n param)
     in andthen (reject_if (height = 0 \<or> n = 0 \<or> unat height > LMS_MAX_HEIGHT) LMS_ERR_INVALID)
        (let st = fold (consider_size height n memory_target) (map word_of_nat [unat LMS_SUBTREE_MIN_J..<unat height + 1])
               \<lparr>found_overbudget = False, found_within = False, best_mem = 0, best_levels = 0, best_j = 0\<rparr>
         in andthen (reject_if (\<not> found_overbudget st \<and> \<not> found_within st) LMS_ERR_INVALID)
            (ret \<lparr>cfg_lms_type = lms_type, cfg_height = height, cfg_n = n, cfg_subtree_size = best_j st,
                  cfg_sublevels = best_levels st, cfg_est_memory = best_mem st,
                  cfg_fit = (if found_within st then LMS_TREE_FIT_WITHIN_BUDGET else LMS_TREE_FIT_OVERBUDGET)\<rparr>)))"

section \<open>Allocation\<close>

text \<open>The allocator calls of the module. \<open>allocate\<close> answers with an address or with \<open>NULL\<close>.\<close>

definition allocate :: "nat \<Rightarrow> ('w, 'm, nat option) top" where
  "allocate len = (\<lambda>s. case ctx_alloc (t_ctx s) len (t_mem s) of (a, m) \<Rightarrow> (Inr a, s\<lparr>t_mem := m\<rparr>))"

definition release :: "nat \<Rightarrow> ('w, 'm, unit) top" where
  "release a = modify (\<lambda>s. s\<lparr>t_mem := ctx_free (t_ctx s) a (t_mem s)\<rparr>)"

definition update_ctx :: "(('w, 'm) lms_tree_ctx_t \<Rightarrow> ('w, 'm) lms_tree_ctx_t) \<Rightarrow> ('w, 'm, unit) top" where
  "update_ctx f = modify (\<lambda>s. s\<lparr>t_ctx := f (t_ctx s)\<rparr>)"

text \<open>The subtrees of the context by sublevel and role.\<close>

datatype role = Active | Upcoming

definition levels_of :: "('w, 'm) lms_tree_ctx_t \<Rightarrow> lms_sublevel_t list" where
  "levels_of ctx = (case ctx_levels ctx of None \<Rightarrow> [] | Some (_, levels) \<Rightarrow> levels)"

fun sub_of :: "role \<Rightarrow> lms_sublevel_t \<Rightarrow> lms_subtree_t" where
  "sub_of Active sl = sl_active sl"
| "sub_of Upcoming sl = sl_upcoming sl"

fun put_sub :: "role \<Rightarrow> lms_subtree_t \<Rightarrow> lms_sublevel_t \<Rightarrow> lms_sublevel_t" where
  "put_sub Active sub sl = sl\<lparr>sl_active := sub\<rparr>"
| "put_sub Upcoming sub sl = sl\<lparr>sl_upcoming := sub\<rparr>"

definition set_level :: "nat \<Rightarrow> lms_sublevel_t \<Rightarrow> ('w, 'm) lms_tree_ctx_t \<Rightarrow> ('w, 'm) lms_tree_ctx_t" where
  "set_level s sl ctx = ctx\<lparr>ctx_levels := map_option (\<lambda>(a, levels). (a, levels[s := sl])) (ctx_levels ctx)\<rparr>"

definition get_sub :: "nat \<Rightarrow> role \<Rightarrow> ('w, 'm) lms_tree_ctx_t \<Rightarrow> lms_subtree_t" where
  "get_sub s w ctx = sub_of w (levels_of ctx ! s)"

definition set_sub :: "nat \<Rightarrow> role \<Rightarrow> lms_subtree_t \<Rightarrow> ('w, 'm) lms_tree_ctx_t \<Rightarrow> ('w, 'm) lms_tree_ctx_t" where
  "set_sub s w sub ctx = set_level s (put_sub w sub (levels_of ctx ! s)) ctx"

text \<open>Library calls, and calls on one subtree, made from the context.\<close>

definition on_lib :: "('w, 'a) lop \<Rightarrow> ('w, 'm, 'a) top" where
  "on_lib f = (\<lambda>s. case f (t_lib s) of (r, l) \<Rightarrow> (r, s\<lparr>t_lib := l\<rparr>))"

definition sub_lib :: "('w, 'a) lop \<Rightarrow> ('w, 'a) sop" where
  "sub_lib f = (\<lambda>(l, sub). case f l of (r, l') \<Rightarrow> (r, (l', sub)))"

definition on_sub :: "nat \<Rightarrow> role \<Rightarrow> ('w, 'a) sop \<Rightarrow> ('w, 'm, 'a) top" where
  "on_sub i w f = (\<lambda>s. case f (t_lib s, get_sub i w (t_ctx s)) of
     (r, (l, sub)) \<Rightarrow> (r, s\<lparr>t_lib := l, t_ctx := set_sub i w sub (t_ctx s)\<rparr>))"

text \<open>\<open>free_fn\<close> is never \<open>NULL\<close> in an initialised context.\<close>

definition subtree_free_buffers :: "nat \<Rightarrow> role \<Rightarrow> ('w, 'm, unit) top" where
  "subtree_free_buffers i w =
     bind (look (\<lambda>s. get_sub i w (t_ctx s))) (\<lambda>sub.
     andthen (case sub_nodes sub of None \<Rightarrow> ret ()
              | Some (a, _) \<Rightarrow> andthen (release a) (update_ctx (set_sub i w (sub\<lparr>sub_nodes := None\<rparr>))))
             (case sub_stack sub of None \<Rightarrow> ret ()
              | Some (a, _) \<Rightarrow> andthen (release a) (update_ctx (set_sub i w (sub\<lparr>sub_nodes := None, sub_stack := None\<rparr>)))))"

text \<open>\<open>want_stack\<close> is 1 in both calls. The byte counts are \<open>size_t\<close>.\<close>

definition subtree_init_buffers :: "nat \<Rightarrow> role \<Rightarrow> nat \<Rightarrow> nat \<Rightarrow> nat \<Rightarrow> nat \<Rightarrow> nat \<Rightarrow> nat \<Rightarrow> ('w, 'm, unit) top" where
  "subtree_init_buffers i w sub_h level levels_below tree_height left_leaf n =
     (let sub = \<lparr>sub_height = sub_h, sub_level = level, sub_levels_below = levels_below, sub_tree_height = tree_height,
                 sub_left_leaf = left_leaf, sub_current_index = 0, sub_nodes = None, sub_stack = None\<rparr>;
          slots = 2 ^ Suc sub_h
      in andthen (update_ctx (set_sub i w sub))
         (bind (allocate (slots * n)) (\<lambda>nodes. case nodes of
            None \<Rightarrow> fail LMS_ERR_INVALID
          | Some a \<Rightarrow>
              let sub = sub\<lparr>sub_nodes := Some (a, replicate slots (replicate n 0))\<rparr>
              in andthen (update_ctx (set_sub i w sub))
                 (if sub_h > 0
                  then bind (allocate (sub_h * n)) (\<lambda>stack. case stack of
                         None \<Rightarrow> andthen (subtree_free_buffers i w) (fail LMS_ERR_INVALID)
                       | Some b \<Rightarrow> update_ctx (set_sub i w (sub\<lparr>sub_stack := Some (b, replicate sub_h (replicate n 0))\<rparr>)))
                  else ret ()))))"

definition lms_tree_ctx_free :: "('w, 'm, unit) top" where
  "lms_tree_ctx_free =
     andthen
       (bind (look (\<lambda>s. ctx_levels (t_ctx s))) (\<lambda>levels. case levels of
          None \<Rightarrow> ret ()
        | Some (a, _) \<Rightarrow>
            bind (look (\<lambda>s. ctx_sublevels (t_ctx s))) (\<lambda>sublevels.
            andthen (for_each (\<lambda>i.
                andthen (subtree_free_buffers i Active)
                (bind (look (\<lambda>s. sl_has_upcoming (levels_of (t_ctx s) ! i))) (\<lambda>has.
                 if has then subtree_free_buffers i Upcoming else ret ()))) [0..<sublevels])
              (andthen (release a) (update_ctx (\<lambda>c. c\<lparr>ctx_levels := None\<rparr>))))))
       (update_ctx (\<lambda>c. c\<lparr>ctx_sublevels := 0\<rparr>))"

text \<open>A cleared sublevel, after the \<open>memset\<close> of the array.\<close>

definition cleared_subtree :: lms_subtree_t where
  "cleared_subtree = \<lparr>sub_height = 0, sub_level = 0, sub_levels_below = 0, sub_tree_height = 0, sub_left_leaf = 0,
     sub_current_index = 0, sub_nodes = None, sub_stack = None\<rparr>"

definition init_sublevel :: "nat \<Rightarrow> nat \<Rightarrow> nat \<Rightarrow> nat \<Rightarrow> nat \<Rightarrow> nat \<Rightarrow> ('w, 'm, unit) top" where
  "init_sublevel sublevels j top_h height n s =
     (let sub_h = if s + 1 < sublevels then j else top_h;
          root_level = s * j + sub_h;
          levels_below = s * j;
          has_upcoming = s + 1 < sublevels
      in andthen (subtree_init_buffers s Active sub_h root_level levels_below height 0 n)
         (andthen (update_ctx (\<lambda>c. set_level s ((levels_of c ! s)\<lparr>sl_has_upcoming := has_upcoming\<rparr>) c))
         (if has_upcoming then subtree_init_buffers s Upcoming sub_h root_level levels_below height (2 ^ sub_h) n else ret ())))"

text \<open>\<open>lms_tree_ctx_init\<close>; when an allocation fails all buffers are released again.\<close>

definition lms_tree_ctx_init :: "lms_tree_config_t \<Rightarrow> bytes \<Rightarrow> 'w ots_pub_fn option \<Rightarrow> 'm tree_alloc_fn \<Rightarrow> 'm tree_free_fn \<Rightarrow>
    ('w, 'm, unit) top" where
  "lms_tree_ctx_init config I kq_src alloc free_fn =
     andthen (reject_if (cfg_sublevels config = 0 \<or> cfg_subtree_size config < LMS_SUBTREE_MIN_J \<or> cfg_n config = 0
         \<or> cfg_height config = 0 \<or> unat (cfg_height config) > LMS_MAX_HEIGHT) LMS_ERR_INVALID)
     (let sublevels = unat (cfg_sublevels config);
          j = unat (cfg_subtree_size config);
          n = unat (cfg_n config);
          height = unat (cfg_height config);
          top_h = unat (cfg_height config - (cfg_sublevels config - 1) * cfg_subtree_size config)
      in bind (or_fail LMS_ERR_INVALID (on_lib (lms_get_lms_param (cfg_lms_type config)))) (\<lambda>param.
         andthen (update_ctx (\<lambda>_. \<lparr>ctx_lms_type = cfg_lms_type config, ctx_height = height, ctx_n = n, ctx_subtree_size = j,
             ctx_sublevels = sublevels, ctx_top_subtree_size = top_h, ctx_hash_alg = lp_hash_alg param, ctx_I = I, ctx_levels = None,
             ctx_ots_pub = kq_src, ctx_leaf_fn = None, ctx_alloc = alloc, ctx_free = free_fn\<rparr>))
         (bind (allocate (sublevels * LMS_SUBLEVEL_SIZE)) (\<lambda>levels. case levels of
            None \<Rightarrow> fail LMS_ERR_INVALID
          | Some a \<Rightarrow>
              andthen (update_ctx (\<lambda>c. c\<lparr>ctx_levels := Some (a, replicate sublevels
                  \<lparr>sl_active = cleared_subtree, sl_upcoming = cleared_subtree, sl_has_upcoming = False\<rparr>)\<rparr>))
              (bind (attempt (for_each (init_sublevel sublevels j top_h height n) [0..<sublevels])) (\<lambda>r. case r of
                 Inr _ \<Rightarrow> ret ()
               | Inl _ \<Rightarrow> andthen lms_tree_ctx_free (fail LMS_ERR_INVALID)))))))"

definition lms_tree_ctx_allocated_bytes :: "('w, 'm) lms_tree_ctx_t \<Rightarrow> nat" where
  "lms_tree_ctx_allocated_bytes ctx =
     (case ctx_levels ctx of None \<Rightarrow> 0
      | Some (_, levels) \<Rightarrow> ctx_sublevels ctx * LMS_SUBLEVEL_SIZE +
          (\<Sum>sl\<leftarrow>take (ctx_sublevels ctx) levels.
             let sub_h = sub_height (sl_active sl);
                 nodes_bytes = 2 ^ Suc sub_h * ctx_n ctx
             in nodes_bytes + (if sub_stack (sl_active sl) \<noteq> None then sub_h * ctx_n ctx else 0)
                + (if sl_has_upcoming sl
                   then nodes_bytes + (if sub_stack (sl_upcoming sl) \<noteq> None then sub_h * ctx_n ctx else 0) else 0)))"

definition lms_subtree_set_leaf_fn :: "'w ots_pub_fn option \<Rightarrow> ('w, 'm, unit) top" where
  "lms_subtree_set_leaf_fn fn = update_ctx (\<lambda>c. c\<lparr>ctx_leaf_fn := fn\<rparr>)"


section \<open>Building and lookup\<close>

definition default_ots_pub :: "'w ots_pub_fn" where
  "default_ots_pub priv q = lmots_public_from_private priv q"

definition ots_pub_of :: "('w, 'm) lms_tree_ctx_t \<Rightarrow> 'w ots_pub_fn" where
  "ots_pub_of ctx = (case ctx_ots_pub ctx of Some f \<Rightarrow> f | None \<Rightarrow> default_ots_pub)"

text \<open>The search for the depth of a local index.\<close>

function local_depth :: "nat \<Rightarrow> nat \<Rightarrow> nat" where
  "local_depth d loc = (if 2 ^ (d + 1) \<le> loc then local_depth (d + 1) loc else d)"
  by pat_completeness auto
termination
proof (relation "measure (\<lambda>(d, loc). loc - 2 ^ d)")
  fix d loc :: nat assume "2 ^ (d + 1) \<le> loc"
  moreover have "0 < (2 :: nat) ^ d" by simp
  ultimately have "loc - 2 ^ (d + 1) < loc - 2 ^ d" unfolding Suc_eq_plus1 [symmetric] power_Suc by linarith
  then show "((d + 1, loc), d, loc) \<in> measure (\<lambda>(d, loc). loc - 2 ^ d)" by simp
qed simp

declare local_depth.simps [simp del]

definition subtree_local_to_global :: "nat \<Rightarrow> nat \<Rightarrow> nat \<Rightarrow> nat \<Rightarrow> nat \<Rightarrow> u32" where
  "subtree_local_to_global h sub_h root_level left_leaf loc =
     (let k0 = drop_bit sub_h left_leaf;
          d = local_depth 0 loc;
          k = loc - 2 ^ d;
          r = root_level - d
      in push_bit (h - r) 1 + (word_of_nat (push_bit d k0) + word_of_nat k))"

text \<open>The contents of a buffer, and a slot of it overwritten.\<close>

definition slots :: "buffer option \<Rightarrow> bytes list" where
  "slots b = (case b of None \<Rightarrow> [] | Some (_, xs) \<Rightarrow> xs)"

definition put_slot :: "nat \<Rightarrow> bytes \<Rightarrow> buffer option \<Rightarrow> buffer option" where
  "put_slot i x b = map_option (\<lambda>(a, xs). (a, xs[i := x])) b"

definition put_node :: "nat \<Rightarrow> bytes \<Rightarrow> lms_subtree_t \<Rightarrow> lms_subtree_t" where
  "put_node i x sub = sub\<lparr>sub_nodes := put_slot i x (sub_nodes sub)\<rparr>"

definition put_stack :: "nat \<Rightarrow> bytes \<Rightarrow> lms_subtree_t \<Rightarrow> lms_subtree_t" where
  "put_stack i x sub = sub\<lparr>sub_stack := put_slot i x (sub_stack sub)\<rparr>"

definition update_sub :: "(lms_subtree_t \<Rightarrow> lms_subtree_t) \<Rightarrow> ('w, unit) sop" where
  "update_sub f = modify (\<lambda>(l, sub). (l, f sub))"

definition subtree_build_internal :: "('w, 'm) lms_tree_ctx_t \<Rightarrow> ('w, unit) sop" where
  "subtree_build_internal ctx =
     bind (look (\<lambda>s. sub_height (snd s))) (\<lambda>sub_h.
     andthen (for_each (\<lambda>loc.
         bind (look snd) (\<lambda>sub.
         let node_num = subtree_local_to_global (ctx_height ctx) (sub_height sub) (sub_level sub) (sub_left_leaf sub) loc
         in bind (or_fail LMS_ERR_INVALID (sub_lib (lms_internal_node (ctx_I ctx) (ctx_hash_alg ctx) node_num
                    (slots (sub_nodes sub) ! (loc * 2)) (slots (sub_nodes sub) ! (loc * 2 + 1))))) (\<lambda>v.
            update_sub (put_node loc v)))) (rev [1..<2 ^ sub_h]))
       (ret ()))"

text \<open>\<open>lms_tree_build_active\<close> is for contexts of one sublevel.\<close>

definition lms_tree_build_active :: "lms_private_key_t \<Rightarrow> ('w, 'm, unit) top" where
  "lms_tree_build_active priv =
     bind (look t_ctx) (\<lambda>ctx.
     andthen (reject_if (ctx_levels ctx = None) LMS_ERR_INVALID)
     (andthen (reject_if (priv_lms_type priv \<noteq> ctx_lms_type ctx) LMS_ERR_INVALID)
     (andthen (reject_if (ctx_sublevels ctx \<noteq> 1) LMS_ERR_INVALID)
     (let active = get_sub 0 Active ctx; sub_h = sub_height active
      in andthen (for_each (\<lambda>i.
             let loc = 2 ^ sub_h + i;
                 node_num = subtree_local_to_global (ctx_height ctx) sub_h (sub_level active) (sub_left_leaf active) loc;
                 q = word_of_nat (sub_left_leaf active + i)
             in bind (or_fail LMS_ERR_INVALID (on_lib (ots_pub_of ctx priv q))) (\<lambda>ots_pub_buf.
                bind (or_fail LMS_ERR_INVALID (on_lib (lms_hash_parts
                  (ctx_I ctx @ lms_store_u32 node_num @ lms_store_u16 D_LEAF) ots_pub_buf [] [] (ctx_hash_alg ctx)))) (\<lambda>leaf.
                on_sub 0 Active (update_sub (put_node loc leaf))))) [0..<2 ^ sub_h])
          (or_fail LMS_ERR_INVALID (on_sub 0 Active (subtree_build_internal ctx)))))))"

definition lms_tree_root :: "('w, 'm) lms_tree_ctx_t \<Rightarrow> lms_status_t + bytes" where
  "lms_tree_root ctx =
     (if ctx_levels ctx = None \<or> ctx_sublevels ctx = 0 then Inl LMS_ERR_INVALID
      else Inr (slots (sub_nodes (get_sub (ctx_sublevels ctx - 1) Active ctx)) ! 1))"

text \<open>The siblings a subtree contributes, and the loop over the sublevels.\<close>

fun level_siblings :: "nat \<Rightarrow> bytes list \<Rightarrow> nat \<Rightarrow> bytes list" where
  "level_siblings 0 nodes loc = []"
| "level_siblings (Suc d) nodes loc = nodes ! (loc XOR 1) # level_siblings d nodes (loc div 2)"

fun join_levels :: "lms_sublevel_t list \<Rightarrow> nat \<Rightarrow> bytes list" where
  "join_levels [] leaf_pos = []"
| "join_levels (sl # levels) leaf_pos =
     (let active = sl_active sl; sub_h = sub_height active;
          loc = 2 ^ sub_h + (leaf_pos AND (2 ^ sub_h - 1))
      in level_siblings sub_h (slots (sub_nodes active)) loc @ join_levels levels (drop_bit sub_h leaf_pos))"

definition lms_tree_auth_path :: "('w, 'm) lms_tree_ctx_t \<Rightarrow> u32 \<Rightarrow> lms_status_t + bytes" where
  "lms_tree_auth_path ctx q =
     (if ctx_levels ctx = None \<or> ctx_sublevels ctx = 0 then Inl LMS_ERR_INVALID
      else if unat q \<ge> 2 ^ ctx_height ctx then Inl LMS_ERR_INVALID
      else Inr (concat (join_levels (take (ctx_sublevels ctx) (levels_of ctx)) (unat q))))"

text \<open>
  The merge loop of \<open>lms_tree_add_next_node\<close>. It ends: an odd \<open>leaf_seq\<close> halves.
\<close>

function merge_up :: "bytes \<Rightarrow> lms_hash_alg_t \<Rightarrow> nat \<Rightarrow> nat \<Rightarrow> bytes \<Rightarrow> ('w, unit) sop" where
  "merge_up I hash_alg i leaf_seq cur =
     bind (look snd) (\<lambda>sub.
     let cur_local = 2 ^ (sub_height sub - i) + leaf_seq
     in if cur_local = 1 then ret ()
        else if even leaf_seq then update_sub (put_stack i cur)
        else let parent_local = cur_local div 2;
                 node_num = subtree_local_to_global (sub_tree_height sub) (sub_height sub) (sub_level sub) (sub_left_leaf sub) parent_local
             in bind (or_fail LMS_ERR_INVALID (sub_lib (lms_internal_node I hash_alg node_num (slots (sub_stack sub) ! i) cur))) (\<lambda>v.
                andthen (update_sub (put_node parent_local v)) (merge_up I hash_alg (i + 1) (leaf_seq div 2) v)))"
  by pat_completeness auto
termination
  by (relation "measure (\<lambda>(I, hash_alg, i, leaf_seq, cur). leaf_seq)") (auto elim: oddE)

declare merge_up.simps [simp del]

text \<open>The result is whether the subtree is complete (1 in the code).\<close>

definition lms_tree_add_next_node :: "bytes \<Rightarrow> bytes \<Rightarrow> lms_hash_alg_t \<Rightarrow> nat \<Rightarrow> ('w, bool) sop" where
  "lms_tree_add_next_node leaf_value I hash_alg n =
     bind (look snd) (\<lambda>sub.
     let sub_h = sub_height sub; ci = sub_current_index sub
     in andthen (reject_if (n = 0 \<or> n > LMS_N) LMS_ERR_INVALID)
        (andthen (reject_if (sub_h = 0 \<or> sub_h > LMS_MAX_HEIGHT) LMS_ERR_INVALID)
        (andthen (reject_if (ci \<ge> 2 ^ sub_h) LMS_ERR_INVALID)
        (andthen (reject_if (sub_nodes sub = None \<or> sub_stack sub = None) LMS_ERR_INVALID)
        (andthen (update_sub (put_node (2 ^ sub_h + ci) leaf_value))
        (andthen (merge_up I hash_alg 0 ci leaf_value)
        (andthen (update_sub (\<lambda>s. s\<lparr>sub_current_index := ci + 1\<rparr>))
          (ret (ci + 1 \<ge> 2 ^ sub_h)))))))))"

definition subtree_compute_leaf :: "lms_private_key_t \<Rightarrow> 'w ots_pub_fn \<Rightarrow> u32 \<Rightarrow> ('w, 'm, bytes) top" where
  "subtree_compute_leaf priv kq_src q =
     bind (look t_ctx) (\<lambda>ctx.
     let node_num = push_bit (ctx_height ctx) 1 + q
     in case ctx_leaf_fn ctx of
          Some f \<Rightarrow> on_lib (f priv q)
        | None \<Rightarrow>
            bind (or_fail LMS_ERR_INVALID (on_lib (kq_src priv q))) (\<lambda>ots_pub_buf.
            on_lib (lms_hash_parts (ctx_I ctx @ lms_store_u32 node_num @ lms_store_u16 D_LEAF) ots_pub_buf [] [] (ctx_hash_alg ctx))))"

definition subtree_push_leaf :: "lms_private_key_t \<Rightarrow> 'w ots_pub_fn \<Rightarrow> nat \<Rightarrow> role \<Rightarrow> u32 \<Rightarrow> ('w, 'm, bool) top" where
  "subtree_push_leaf priv kq_src s w q =
     bind (or_fail LMS_ERR_INVALID (subtree_compute_leaf priv kq_src q)) (\<lambda>leaf.
     bind (look t_ctx) (\<lambda>ctx.
     on_sub s w (lms_tree_add_next_node leaf (ctx_I ctx) (ctx_hash_alg ctx) (ctx_n ctx))))"

definition subtree_reset_to :: "nat \<Rightarrow> lms_subtree_t \<Rightarrow> lms_subtree_t" where
  "subtree_reset_to left_leaf sub = sub\<lparr>sub_left_leaf := left_leaf, sub_current_index := 0\<rparr>"

definition subtree_build_bottom :: "lms_private_key_t \<Rightarrow> 'w ots_pub_fn \<Rightarrow> nat \<Rightarrow> role \<Rightarrow> nat \<Rightarrow> ('w, 'm, unit) top" where
  "subtree_build_bottom priv kq_src s w left_leaf =
     bind (look (\<lambda>st. sub_height (get_sub s w (t_ctx st)))) (\<lambda>height.
     andthen (on_sub s w (update_sub (subtree_reset_to left_leaf)))
     (bind (fold_each (\<lambda>i _. or_fail LMS_ERR_INVALID (subtree_push_leaf priv kq_src s w (word_of_nat (left_leaf + i)))) [0..<2 ^ height] False) (\<lambda>done.
      reject_if (\<not> done) LMS_ERR_INVALID)))"

definition subtree_build_upper :: "nat \<Rightarrow> role \<Rightarrow> nat \<Rightarrow> bytes list \<Rightarrow> ('w, 'm, unit) top" where
  "subtree_build_upper s w left_leaf lower_roots =
     bind (look (\<lambda>st. sub_height (get_sub s w (t_ctx st)))) (\<lambda>height.
     bind (look t_ctx) (\<lambda>ctx.
     andthen (on_sub s w (update_sub (subtree_reset_to left_leaf)))
     (bind (fold_each (\<lambda>i _. or_fail LMS_ERR_INVALID (on_sub s w
              (lms_tree_add_next_node (lower_roots ! i) (ctx_I ctx) (ctx_hash_alg ctx) (ctx_n ctx)))) [0..<2 ^ height] False) (\<lambda>done.
      reject_if (\<not> done) LMS_ERR_INVALID))))"

text \<open>The subtree of sublevel \<open>s\<close> from leaf \<open>leaf_lo\<close> on. The roots of the subtrees below are
  computed one by one in the \<open>upcoming\<close> subtree of the sublevel below and collected in a buffer of
  their own, which is released on every path.\<close>

primrec subtree_build_at :: "lms_private_key_t \<Rightarrow> 'w ots_pub_fn \<Rightarrow> nat \<Rightarrow> role \<Rightarrow> nat \<Rightarrow> ('w, 'm, unit) top" where
  "subtree_build_at priv kq_src 0 = (\<lambda>w leaf_lo.
     bind (look t_ctx) (\<lambda>ctx.
     andthen (on_sub 0 w (update_sub (\<lambda>sub. sub\<lparr>sub_level := sub_height sub, sub_levels_below := 0, sub_tree_height := ctx_height ctx\<rparr>)))
       (subtree_build_bottom priv kq_src 0 w leaf_lo)))"
| "subtree_build_at priv kq_src (Suc s) = (\<lambda>w leaf_lo.
     bind (look t_ctx) (\<lambda>ctx.
     let j = ctx_subtree_size ctx;
         height = sub_height (get_sub (Suc s) w ctx);
         lower_root_level = s * j + sub_height (get_sub s Upcoming ctx);
         lower_span = 2 ^ lower_root_level
     in andthen (on_sub (Suc s) w (update_sub (\<lambda>sub. sub\<lparr>sub_level := Suc s * j + sub_height sub, sub_levels_below := Suc s * j,
              sub_tree_height := ctx_height ctx\<rparr>)))
        (bind (allocate (2 ^ height * ctx_n ctx)) (\<lambda>my_roots. case my_roots of
           None \<Rightarrow> fail LMS_ERR_INVALID
         | Some a \<Rightarrow>
             bind (attempt (bind (for_each (\<lambda>k.
                 andthen (or_fail LMS_ERR_INVALID (subtree_build_at priv kq_src s Upcoming (leaf_lo + k * lower_span)))
                   (look (\<lambda>st. slots (sub_nodes (get_sub s Upcoming (t_ctx st))) ! 1))) [0..<2 ^ height])
               (subtree_build_upper (Suc s) w (drop_bit (Suc s * j) leaf_lo)))) (\<lambda>rc.
             andthen (release a) (case rc of Inl e \<Rightarrow> fail e | Inr _ \<Rightarrow> ret ()))))))"

text \<open>The inner loop of \<open>lms_tree_keygen_root\<close>: a finished root is a leaf of the next sublevel.\<close>

fun carry_root :: "nat list \<Rightarrow> bytes \<Rightarrow> ('w, 'm, unit) top" where
  "carry_root [] leaf = ret ()"
| "carry_root (s # rest) leaf =
     bind (look t_ctx) (\<lambda>ctx.
     bind (or_fail LMS_ERR_INVALID (on_sub s Active (lms_tree_add_next_node leaf (ctx_I ctx) (ctx_hash_alg ctx) (ctx_n ctx)))) (\<lambda>udone.
     if \<not> udone then ret ()
     else bind (look (\<lambda>st. slots (sub_nodes (get_sub s Active (t_ctx st))) ! 1)) (\<lambda>leaf.
          andthen (on_sub s Active (update_sub (\<lambda>up. subtree_reset_to (sub_left_leaf up + 2 ^ sub_height up) up)))
            (carry_root rest leaf))))"

definition keygen_push :: "lms_private_key_t \<Rightarrow> 'w ots_pub_fn \<Rightarrow> nat \<Rightarrow> ('w, 'm, unit) top" where
  "keygen_push priv kq_src q =
     bind (or_fail LMS_ERR_INVALID (subtree_push_leaf priv kq_src 0 Active (word_of_nat q))) (\<lambda>done.
     if \<not> done then ret ()
     else bind (look (\<lambda>st. slots (sub_nodes (get_sub 0 Active (t_ctx st))) ! 1)) (\<lambda>leaf.
          andthen (on_sub 0 Active (update_sub (\<lambda>bot. subtree_reset_to (sub_left_leaf bot + 2 ^ sub_height bot) bot)))
          (bind (look (\<lambda>st. ctx_sublevels (t_ctx st))) (\<lambda>sublevels.
           carry_root [1..<sublevels] leaf))))"

definition lms_tree_keygen_root :: "lms_private_key_t \<Rightarrow> ('w, 'm, bytes) top" where
  "lms_tree_keygen_root priv =
     bind (look t_ctx) (\<lambda>ctx.
     andthen (reject_if (ctx_levels ctx = None) LMS_ERR_INVALID)
     (andthen (reject_if (priv_lms_type priv \<noteq> ctx_lms_type ctx) LMS_ERR_INVALID)
     (andthen (for_each (\<lambda>s.
          andthen (on_sub s Active (update_sub (subtree_reset_to 0)))
            (on_sub s Upcoming (update_sub (\<lambda>sub. sub\<lparr>sub_current_index := 0\<rparr>)))) [0..<ctx_sublevels ctx])
     (andthen (for_each (keygen_push priv (ots_pub_of ctx)) [0..<2 ^ ctx_height ctx])
       (look (\<lambda>st. slots (sub_nodes (get_sub (ctx_sublevels ctx - 1) Active (t_ctx st))) ! 1))))))"

definition lms_tree_sign_init :: "lms_private_key_t \<Rightarrow> ('w, 'm, unit) top" where
  "lms_tree_sign_init priv =
     bind (look t_ctx) (\<lambda>ctx.
     andthen (reject_if (ctx_levels ctx = None) LMS_ERR_INVALID)
     (andthen (reject_if (priv_lms_type priv \<noteq> ctx_lms_type ctx) LMS_ERR_INVALID)
     (andthen (for_each (\<lambda>s. or_fail LMS_ERR_INVALID (subtree_build_at priv (ots_pub_of ctx) s Active 0)) [0..<ctx_sublevels ctx])
       (ret ()))))"

definition lms_tree_sign_auth_path :: "('w, 'm) lms_tree_ctx_t \<Rightarrow> u32 \<Rightarrow> lms_status_t + bytes" where
  "lms_tree_sign_auth_path ctx q = (if ctx_levels ctx = None then Inl LMS_ERR_INVALID else lms_tree_auth_path ctx q)"

definition subtree_leaf_lo :: "lms_subtree_t \<Rightarrow> nat" where
  "subtree_leaf_lo sub = push_bit (sub_level sub) (drop_bit (sub_height sub) (sub_left_leaf sub))"

definition subtree_leaf_span :: "lms_subtree_t \<Rightarrow> nat" where
  "subtree_leaf_span sub = 2 ^ sub_level sub"

text \<open>The difference \<open>q - lo\<close> is taken in 64 bits.\<close>

definition advance_level :: "lms_private_key_t \<Rightarrow> 'w ots_pub_fn \<Rightarrow> u32 \<Rightarrow> nat \<Rightarrow> ('w, 'm, unit) top" where
  "advance_level priv kq_src q s =
     bind (look (\<lambda>st. get_sub s Active (t_ctx st))) (\<lambda>active.
     let lo = subtree_leaf_lo active; span = subtree_leaf_span active
     in if (unat q + (2 ^ 64 - lo mod 2 ^ 64)) mod 2 ^ 64 < span then ret ()
        else or_fail LMS_ERR_INVALID (subtree_build_at priv kq_src s Active (unat q div span * span)))"

definition lms_tree_sign_advance :: "lms_private_key_t \<Rightarrow> u32 \<Rightarrow> ('w, 'm, unit) top" where
  "lms_tree_sign_advance priv q =
     bind (look t_ctx) (\<lambda>ctx.
     andthen (reject_if (ctx_levels ctx = None) LMS_ERR_INVALID)
     (andthen (reject_if (priv_lms_type priv \<noteq> ctx_lms_type ctx) LMS_ERR_INVALID)
     (andthen (reject_if (unat q \<ge> 2 ^ ctx_height ctx) LMS_ERR_INVALID)
     (andthen (for_each (advance_level priv (ots_pub_of ctx) q) [0..<ctx_sublevels ctx - 1])
       (ret ())))))"

definition lms_subtree_auth_path_backend :: "lms_private_key_t \<Rightarrow> u32 \<Rightarrow> ('w, 'm, bytes) top" where
  "lms_subtree_auth_path_backend priv q =
     andthen (or_fail LMS_ERR_INVALID (lms_tree_sign_advance priv q))
     (bind (look t_ctx) (\<lambda>ctx. case lms_tree_sign_auth_path ctx q of Inl e \<Rightarrow> fail e | Inr path \<Rightarrow> ret path))"

end
