(* ===== verification/Lms_Mmio.thy ===== *)
theory Lms_Mmio
  imports Lm_Ots
begin

text \<open>
  \<open>src/lms_mmio.c\<close>, the driver of the hash accelerator: probing, byte windows, task RAM,
  command sequences with their capability gates and bounded polling, and the callbacks it
  registers with the LM-OTS layer.

  The device behind the bus is not part of this code: the two bus callbacks \<open>read32\<close> and
  \<open>write32\<close> are fields of the client, functions on an arbitrary device state \<open>'h\<close> (a read may
  change the device too). All results below hold for every device.

  The driver looks parameters up in the table \<open>lmots_params\<close> and falls back to the digest
  \<open>lms_digest\<close> and the chain \<open>ots_chain\<close>, the values of \<open>lms_get_lmots_param\<close>, \<open>lms_hash\<close> and
  \<open>lmots_chain_compute\<close> in \<open>Lms_Params\<close>, \<open>Hash_Api\<close> and \<open>Lm_Ots\<close>; the parameter cache and the
  chain statistics these calls touch on the way belong to the library state, not to the
  client. The \<open>LMS_MMIO_SOC_PROFILE\<close> cycle stamps are left out, and so are the optional
  \<open>cycles\<close> outputs of the callers: every operation returns them.
\<close>

section \<open>Registers, commands and capabilities\<close>

abbreviation (input) CAP_SHA256 :: u32 where "CAP_SHA256 \<equiv> 1"
abbreviation (input) CAP_HASH_ONCE :: u32 where "CAP_HASH_ONCE \<equiv> 2"
abbreviation (input) CAP_CHAIN :: u32 where "CAP_CHAIN \<equiv> 4"
abbreviation (input) CAP_DERIVE_CHAIN :: u32 where "CAP_DERIVE_CHAIN \<equiv> 8"
abbreviation (input) CAP_INSECURE_TEST_MODE :: u32 where "CAP_INSECURE_TEST_MODE \<equiv> 16"
abbreviation (input) CAP_LMOTS_KEYGEN :: u32 where "CAP_LMOTS_KEYGEN \<equiv> 32"
abbreviation (input) CAP_LMOTS_SIGN :: u32 where "CAP_LMOTS_SIGN \<equiv> 64"
abbreviation (input) CAP_LMOTS_VERIFY :: u32 where "CAP_LMOTS_VERIFY \<equiv> 128"
abbreviation (input) CAP_SIM_MC :: u32 where "CAP_SIM_MC \<equiv> 256"
abbreviation (input) CAP_WRAP :: u32 where "CAP_WRAP \<equiv> 512"
abbreviation (input) CAP_HMAC_KSTATE :: u32 where "CAP_HMAC_KSTATE \<equiv> 1024"
abbreviation (input) CAP_LMOTS_KEYGEN_LEAF :: u32 where "CAP_LMOTS_KEYGEN_LEAF \<equiv> 2048"
abbreviation (input) CAP_SHAKE256 :: u32 where "CAP_SHAKE256 \<equiv> 4096"
abbreviation (input) CAP_D_INTR_CHAIN :: u32 where "CAP_D_INTR_CHAIN \<equiv> 8192"
abbreviation (input) CAP_MSG_Q_COEF :: u32 where "CAP_MSG_Q_COEF \<equiv> 16384"
abbreviation (input) CAP_STATE_COMMIT :: u32 where "CAP_STATE_COMMIT \<equiv> 32768"
abbreviation (input) REG_VERSION :: u32 where "REG_VERSION \<equiv> 0x000"
abbreviation (input) REG_CAPABILITY :: u32 where "REG_CAPABILITY \<equiv> 0x004"
abbreviation (input) REG_COMMAND :: u32 where "REG_COMMAND \<equiv> 0x008"
abbreviation (input) REG_CONTROL :: u32 where "REG_CONTROL \<equiv> 0x00c"
abbreviation (input) REG_STATUS :: u32 where "REG_STATUS \<equiv> 0x010"
abbreviation (input) REG_ERROR :: u32 where "REG_ERROR \<equiv> 0x014"
abbreviation (input) REG_INPUT_LENGTH :: u32 where "REG_INPUT_LENGTH \<equiv> 0x018"
abbreviation (input) REG_OUTPUT_LENGTH :: u32 where "REG_OUTPUT_LENGTH \<equiv> 0x01c"
abbreviation (input) REG_CYCLE_COUNT :: u32 where "REG_CYCLE_COUNT \<equiv> 0x020"
abbreviation (input) REG_ARG_Q :: u32 where "REG_ARG_Q \<equiv> 0x024"
abbreviation (input) REG_ARG_I :: u32 where "REG_ARG_I \<equiv> 0x028"
abbreviation (input) REG_ARG_START :: u32 where "REG_ARG_START \<equiv> 0x02c"
abbreviation (input) REG_ARG_STEPS :: u32 where "REG_ARG_STEPS \<equiv> 0x030"
abbreviation (input) REG_ARG_KEY :: u32 where "REG_ARG_KEY \<equiv> 0x034"
abbreviation (input) REG_TASK_ADDR :: u32 where "REG_TASK_ADDR \<equiv> 0x038"
abbreviation (input) REG_TASK_DATA :: u32 where "REG_TASK_DATA \<equiv> 0x03c"
abbreviation (input) REG_IDENTIFIER :: u32 where "REG_IDENTIFIER \<equiv> 0x040"
abbreviation (input) REG_SIM_MC :: u32 where "REG_SIM_MC \<equiv> 0x060"
abbreviation (input) REG_ARG_LEAF_NODE :: u32 where "REG_ARG_LEAF_NODE \<equiv> 0x050"
abbreviation (input) REG_ARG_W :: u32 where "REG_ARG_W \<equiv> 0x054"
abbreviation (input) REG_SEED :: u32 where "REG_SEED \<equiv> 0x080"
abbreviation (input) REG_WRAPPED :: u32 where "REG_WRAPPED \<equiv> 0x0a0"
abbreviation (input) REG_KWRAP :: u32 where "REG_KWRAP \<equiv> 0x0e0"
abbreviation (input) REG_INPUT :: u32 where "REG_INPUT \<equiv> 0x100"
abbreviation (input) REG_OUTPUT :: u32 where "REG_OUTPUT \<equiv> 0x200"
abbreviation (input) CMD_HASH_ONCE :: u32 where "CMD_HASH_ONCE \<equiv> 1"
abbreviation (input) CMD_CHAIN :: u32 where "CMD_CHAIN \<equiv> 2"
abbreviation (input) CMD_SEED_LOAD :: u32 where "CMD_SEED_LOAD \<equiv> 3"
abbreviation (input) CMD_DERIVE_CHAIN :: u32 where "CMD_DERIVE_CHAIN \<equiv> 4"
abbreviation (input) CMD_DERIVE_RANDOMIZER :: u32 where "CMD_DERIVE_RANDOMIZER \<equiv> 5"
abbreviation (input) CMD_LMOTS_KEYGEN :: u32 where "CMD_LMOTS_KEYGEN \<equiv> 6"
abbreviation (input) CMD_LMOTS_SIGN :: u32 where "CMD_LMOTS_SIGN \<equiv> 7"
abbreviation (input) CMD_LMOTS_VERIFY :: u32 where "CMD_LMOTS_VERIFY \<equiv> 8"
abbreviation (input) CMD_LMOTS_KEYGEN_LEAF :: u32 where "CMD_LMOTS_KEYGEN_LEAF \<equiv> 14"
abbreviation (input) CMD_LMOTS_VERIFY_LEAF :: u32 where "CMD_LMOTS_VERIFY_LEAF \<equiv> 15"
abbreviation (input) CMD_MC_STEP :: u32 where "CMD_MC_STEP \<equiv> 16"
abbreviation (input) CMD_MC_LOAD :: u32 where "CMD_MC_LOAD \<equiv> 17"
abbreviation (input) CMD_WRAP_SEED :: u32 where "CMD_WRAP_SEED \<equiv> 18"
abbreviation (input) CMD_UNWRAP_SEED :: u32 where "CMD_UNWRAP_SEED \<equiv> 19"
abbreviation (input) CMD_HMAC_KSTATE :: u32 where "CMD_HMAC_KSTATE \<equiv> 20"
abbreviation (input) CMD_STATE_COMMIT :: u32 where "CMD_STATE_COMMIT \<equiv> 21"
abbreviation (input) CMD_HASH_ONCE_RAM :: u32 where "CMD_HASH_ONCE_RAM \<equiv> 25"
abbreviation (input) CMD_MSG_Q_COEF :: u32 where "CMD_MSG_Q_COEF \<equiv> 26"
abbreviation (input) CMD_SEED_WRITE_SAFE :: u32 where "CMD_SEED_WRITE_SAFE \<equiv> 28"

section \<open>The client\<close>

text \<open>The error values of \<open>lms_mmio_status_t\<close>. \<open>LMS_MMIO_NULL_DEREF\<close> is not a C value: it
  marks an access through the \<open>NULL\<close> descriptor of an unprobed client.\<close>

datatype lms_mmio_status_t =
    LMS_MMIO_ERR_INVALID
  | LMS_MMIO_ERR_PROTOCOL
  | LMS_MMIO_ERR_HARDWARE
  | LMS_MMIO_ERR_TIMEOUT
  | LMS_MMIO_NULL_DEREF

record lms_mmio_hash_desc_t =
  desc_hash_alg :: lms_hash_alg_t
  desc_version :: u32
  desc_probe_cap :: u32
  desc_max_input_bytes :: nat

definition LMS_MMIO_HASH_DESC_SHA256 :: lms_mmio_hash_desc_t where
  "LMS_MMIO_HASH_DESC_SHA256 = \<lparr>desc_hash_alg = LMS_HASH_SHA256, desc_version = 7,
     desc_probe_cap = CAP_SHA256, desc_max_input_bytes = 128\<rparr>"

definition LMS_MMIO_HASH_DESC_SHAKE256 :: lms_mmio_hash_desc_t where
  "LMS_MMIO_HASH_DESC_SHAKE256 = \<lparr>desc_hash_alg = LMS_HASH_SHAKE256, desc_version = 1,
     desc_probe_cap = CAP_SHAKE256, desc_max_input_bytes = 136\<rparr>"

text \<open>
  \<open>hw\<close> is the device behind \<open>bus.context\<close>. \<open>buf_aligned\<close> says, per window, whether the caller's
  buffer happens to be 4-byte aligned, which selects a fast path in the byte loops.
\<close>

record 'h lms_mmio_client_t =
  bus_read32 :: "u32 \<Rightarrow> 'h \<Rightarrow> u32 \<times> 'h"
  bus_write32 :: "u32 \<Rightarrow> u32 \<Rightarrow> 'h \<Rightarrow> 'h"
  buf_aligned :: "u32 \<Rightarrow> bool"
  timeout_polls :: u32
  capabilities :: u32
  last_hw_error :: u32
  fallback_count :: u32
  hardware_chain_count :: u64
  hardware_chain_cycles :: u64
  hardware_derive_count :: u64
  hardware_derive_cycles :: u64
  hardware_keygen_count :: u64
  hardware_keygen_cycles :: u64
  hardware_sign_count :: u64
  hardware_sign_cycles :: u64
  hardware_verify_count :: u64
  hardware_verify_cycles :: u64
  hardware_hash_once_count :: u64
  hardware_hash_once_cycles :: u64
  key_handle :: u32
  allow_fallback :: bool
  probed :: bool
  coef_ready :: bool
  hash_desc :: "lms_mmio_hash_desc_t option"
  randomizer_c_slot :: "bytes option"
  trng_fill_c :: "('h \<Rightarrow> bytes option \<times> 'h) option"
  hw :: 'h

type_synonym ('h, 'a) mop = "(lms_mmio_status_t, 'h lms_mmio_client_t, 'a) op"

definition rd32 :: "u32 \<Rightarrow> ('h, u32) mop" where
  "rd32 offset = (\<lambda>s. case bus_read32 s offset (hw s) of (v, h) \<Rightarrow> (Inr v, s\<lparr>hw := h\<rparr>))"

definition wr32 :: "u32 \<Rightarrow> u32 \<Rightarrow> ('h, unit) mop" where
  "wr32 offset val = modify (\<lambda>s. s\<lparr>hw := bus_write32 s offset val (hw s)\<rparr>)"

text \<open>A row of register writes.\<close>

fun wr32s :: "(u32 \<times> u32) list \<Rightarrow> ('h, unit) mop" where
  "wr32s [] = ret ()"
| "wr32s ((offset, val) # ws) = andthen (wr32 offset val) (wr32s ws)"

definition lms_mmio_client_init :: "(u32 \<Rightarrow> 'h \<Rightarrow> u32 \<times> 'h) \<Rightarrow> (u32 \<Rightarrow> u32 \<Rightarrow> 'h \<Rightarrow> 'h) \<Rightarrow> (u32 \<Rightarrow> bool) \<Rightarrow> 'h \<Rightarrow>
    u32 \<Rightarrow> bool \<Rightarrow> lms_mmio_status_t + 'h lms_mmio_client_t" where
  "lms_mmio_client_init read32 write32 aligned h timeout fallback =
     (if timeout = 0 then Inl LMS_MMIO_ERR_INVALID
      else Inr \<lparr>bus_read32 = read32, bus_write32 = write32, buf_aligned = aligned, timeout_polls = timeout,
        capabilities = 0, last_hw_error = 0, fallback_count = 0, hardware_chain_count = 0, hardware_chain_cycles = 0,
        hardware_derive_count = 0, hardware_derive_cycles = 0, hardware_keygen_count = 0, hardware_keygen_cycles = 0,
        hardware_sign_count = 0, hardware_sign_cycles = 0, hardware_verify_count = 0, hardware_verify_cycles = 0,
        hardware_hash_once_count = 0, hardware_hash_once_cycles = 0, key_handle = 0, allow_fallback = fallback,
        probed = False, coef_ready = False, hash_desc = None, randomizer_c_slot = None, trng_fill_c = None, hw = h\<rparr>)"

definition probe_desc :: "u32 \<Rightarrow> u32 \<Rightarrow> lms_mmio_hash_desc_t option" where
  "probe_desc version caps =
     (if caps AND desc_probe_cap LMS_MMIO_HASH_DESC_SHAKE256 \<noteq> 0 \<and> version = desc_version LMS_MMIO_HASH_DESC_SHAKE256
      then Some LMS_MMIO_HASH_DESC_SHAKE256
      else if caps AND desc_probe_cap LMS_MMIO_HASH_DESC_SHA256 \<noteq> 0 \<and> version \<ge> 1
        \<and> version \<le> desc_version LMS_MMIO_HASH_DESC_SHA256
      then Some LMS_MMIO_HASH_DESC_SHA256 else None)"

definition lms_mmio_probe :: "('h, unit) mop" where
  "lms_mmio_probe =
     bind (rd32 REG_VERSION) (\<lambda>version.
     bind (rd32 REG_CAPABILITY) (\<lambda>caps.
     andthen (modify (\<lambda>s. s\<lparr>probed := False, capabilities := caps, hash_desc := probe_desc version caps\<rparr>))
     (if probe_desc version caps = None then fail LMS_MMIO_ERR_PROTOCOL
      else modify (\<lambda>s. s\<lparr>probed := True\<rparr>))))"

section \<open>Coefficient packing\<close>

text \<open>Validates the parameter set for the hardware chain engine.\<close>

definition lmots_param_hw :: "u32 \<Rightarrow> ('h, lmots_param_t) mop" where
  "lmots_param_hw lmots_type =
     (case lmots_params lmots_type of
        None \<Rightarrow> fail LMS_MMIO_ERR_INVALID
      | Some param \<Rightarrow>
          andthen (reject_if (op_w param \<noteq> 1 \<and> op_w param \<noteq> 2 \<and> op_w param \<noteq> 4 \<and> op_w param \<noteq> 8) LMS_MMIO_ERR_INVALID)
            (ret param))"

text \<open>The loop of \<open>pack_coefficients_words\<close> over the remaining coefficients, with word index and
  bit offset; \<open>words\<close> has 32 entries.\<close>

fun pack_loop :: "nat \<Rightarrow> nat list \<Rightarrow> u32 list \<Rightarrow> nat \<Rightarrow> nat \<Rightarrow> u32 list" where
  "pack_loop w [] words w_idx w_shift = words"
| "pack_loop w (c # cs) words w_idx w_shift =
     (let msk = (if w = 8 then 0xff else push_bit w 1 - 1);
          words = words[w_idx := words ! w_idx OR push_bit w_shift (word_of_nat c AND msk)];
          w_shift = w_shift + w
      in if w_shift \<ge> 32 then pack_loop w cs words (w_idx + 1) (w_shift - 32)
         else pack_loop w cs words w_idx w_shift)"

definition pack_coefficients_words :: "nat list \<Rightarrow> nat \<Rightarrow> nat \<Rightarrow> u32 list \<times> nat" where
  "pack_coefficients_words coefficients p w =
     (let per = 32 div w
      in (pack_loop w (take p coefficients) (replicate 32 0) 0 0, (p + per - 1) div per))"

text \<open>The unpacking loop of \<open>lms_mmio_msg_q_coef\<close>.\<close>

definition unpack_coefficients :: "u32 list \<Rightarrow> nat \<Rightarrow> nat \<Rightarrow> nat list" where
  "unpack_coefficients packed p w =
     map (\<lambda>i. let bit = i * w; word = bit div 32; shift = bit mod 32;
                  msk = (if w = 8 then 0xff else push_bit w 1 - 1)
              in unat (ucast (drop_bit shift (packed ! word) AND msk) :: u8)) [0..<p]"

section \<open>Byte windows and task RAM\<close>

text \<open>A word read through a \<open>uint32_t\<close> pointer (little-endian target), and the lane loops of the
  slow paths, which pad the last word with zeros and drop its surplus bytes.\<close>

definition load_le32 :: "bytes \<Rightarrow> u32" where
  "load_le32 b = ucast (b ! 0) OR push_bit 8 (ucast (b ! 1)) OR push_bit 16 (ucast (b ! 2)) OR push_bit 24 (ucast (b ! 3))"

definition store_le32 :: "u32 \<Rightarrow> bytes" where
  "store_le32 v = [ucast v, ucast (drop_bit 8 v), ucast (drop_bit 16 v), ucast (drop_bit 24 v)]"

definition pack_lanes :: "bytes \<Rightarrow> nat \<Rightarrow> u32" where
  "pack_lanes bs offset =
     fold (\<lambda>lane word. if offset + lane < length bs then word OR push_bit (8 * lane) (ucast (bs ! (offset + lane))) else word)
       [0..<4] 0"

definition unpack_lanes :: "u32 \<Rightarrow> nat \<Rightarrow> bytes" where
  "unpack_lanes word count = map (\<lambda>lane. ucast (drop_bit (8 * lane) word)) [0..<min 4 count]"

definition word_offsets :: "nat \<Rightarrow> nat list" where
  "word_offsets len = map (\<lambda>k. 4 * k) [0..<(len + 3) div 4]"

text \<open>The words the loops move, on the aligned fast path and on the slow path.\<close>

definition buffer_word :: "bool \<Rightarrow> bytes \<Rightarrow> nat \<Rightarrow> u32" where
  "buffer_word aligned bs offset =
     (if length bs mod 4 = 0 \<and> aligned then load_le32 (drop offset bs) else pack_lanes bs offset)"

definition word_bytes :: "bool \<Rightarrow> nat \<Rightarrow> nat \<Rightarrow> u32 \<Rightarrow> bytes" where
  "word_bytes aligned len offset word =
     (if len mod 4 = 0 \<and> aligned then store_le32 word else unpack_lanes word (len - offset))"

definition write_bytes :: "u32 \<Rightarrow> bytes \<Rightarrow> ('h, unit) mop" where
  "write_bytes base bs =
     bind (look buf_aligned) (\<lambda>al.
     wr32s (map (\<lambda>offset. (base + word_of_nat offset, buffer_word (al base) bs offset)) (word_offsets (length bs))))"

definition read_bytes :: "u32 \<Rightarrow> nat \<Rightarrow> ('h, bytes) mop" where
  "read_bytes base len =
     bind (look buf_aligned) (\<lambda>al.
     bind (for_each (\<lambda>offset.
             bind (rd32 (base + word_of_nat offset)) (\<lambda>word. ret (word_bytes (al base) len offset word)))
           (word_offsets len)) (\<lambda>words.
     ret (concat words)))"

definition write_task_bytes :: "u32 \<Rightarrow> bytes \<Rightarrow> ('h, unit) mop" where
  "write_task_bytes word_base bs =
     bind (look buf_aligned) (\<lambda>al.
     if word_base \<ge> 32
     then andthen (wr32 REG_TASK_ADDR word_base)
            (wr32s (map (\<lambda>offset. (REG_TASK_DATA, buffer_word (al word_base) bs offset)) (word_offsets (length bs))))
     else wr32s (concat (map (\<lambda>offset.
            [(REG_TASK_ADDR, word_base + word_of_nat (offset div 4)),
             (REG_TASK_DATA, buffer_word (al word_base) bs offset)]) (word_offsets (length bs)))))"

definition read_task_bytes :: "u32 \<Rightarrow> nat \<Rightarrow> ('h, bytes) mop" where
  "read_task_bytes word_base len =
     bind (look buf_aligned) (\<lambda>al.
     andthen (wr32 REG_TASK_ADDR word_base)
     (bind (for_each (\<lambda>offset.
              bind (rd32 REG_TASK_DATA) (\<lambda>word. ret (word_bytes (al word_base) len offset word)))
            (word_offsets len)) (\<lambda>words.
      ret (concat words))))"

section \<open>Command protocol\<close>

definition ensure_probe :: "('h, unit) mop" where
  "ensure_probe = bind (look probed) (\<lambda>p. if p then ret () else lms_mmio_probe)"

text \<open>Polling: \<open>STATUS\<close> bit 0 is busy, bit 1 done, bit 2 error. \<open>output_len\<close> is \<open>None\<close> when the
  caller passes no output buffer.\<close>

fun poll_result :: "nat \<Rightarrow> nat option \<Rightarrow> ('h, bytes \<times> u32) mop" where
  "poll_result 0 output_len = fail LMS_MMIO_ERR_TIMEOUT"
| "poll_result (Suc polls) output_len =
     bind (rd32 REG_STATUS) (\<lambda>status.
     if status AND 1 \<noteq> 0 then poll_result polls output_len
     else if status AND 4 \<noteq> 0 then
       bind (rd32 REG_ERROR) (\<lambda>e.
       andthen (modify (\<lambda>s. s\<lparr>last_hw_error := e\<rparr>)) (fail LMS_MMIO_ERR_HARDWARE))
     else if status AND 2 \<noteq> 0 then
       bind (case output_len of Some len \<Rightarrow> read_bytes REG_OUTPUT len | None \<Rightarrow> ret []) (\<lambda>output.
       bind (rd32 REG_CYCLE_COUNT) (\<lambda>cycles.
       andthen (modify (\<lambda>s. s\<lparr>last_hw_error := 0\<rparr>)) (ret (output, cycles))))
     else poll_result polls output_len)"

definition wait_for_result_n :: "nat option \<Rightarrow> ('h, bytes \<times> u32) mop" where
  "wait_for_result_n output_len = bind (look timeout_polls) (\<lambda>n. poll_result (unat n) output_len)"

definition wait_for_result :: "bool \<Rightarrow> ('h, bytes \<times> u32) mop" where
  "wait_for_result with_output = wait_for_result_n (if with_output then Some LMS_N else None)"

definition prepare_command :: "u32 \<Rightarrow> ('h, unit) mop" where
  "prepare_command required_capability =
     andthen ensure_probe
     (bind (look capabilities) (\<lambda>caps.
     andthen (reject_if (caps AND required_capability \<noteq> required_capability) LMS_MMIO_ERR_PROTOCOL)
     (andthen (modify (\<lambda>s. s\<lparr>last_hw_error := 0\<rparr>))
     (andthen (wr32 REG_CONTROL 2)
     (bind (rd32 REG_STATUS) (\<lambda>status. reject_if (status \<noteq> 0) LMS_MMIO_ERR_HARDWARE))))))"

definition start_command :: "('h, unit) mop" where
  "start_command = wr32 REG_CONTROL 1"

text \<open>\<open>client->hash_desc->hash_alg\<close>.\<close>

definition desc_alg :: "('h, lms_hash_alg_t) mop" where
  "desc_alg = bind (look hash_desc) (\<lambda>d. case d of None \<Rightarrow> fail LMS_MMIO_NULL_DEREF | Some d \<Rightarrow> ret (desc_hash_alg d))"

text \<open>The common end of \<open>hash_once\<close>, \<open>hash_once_ram\<close> and \<open>chain\<close>: on an error status compute in
  software if the client allows it.\<close>

definition or_fallback :: "('h, 'a) mop \<Rightarrow> (lms_hash_alg_t \<Rightarrow> 'a) \<Rightarrow> ('h, 'a) mop" where
  "or_fallback m software =
     bind (attempt m) (\<lambda>r. case r of
         Inr x \<Rightarrow> ret x
       | Inl status \<Rightarrow> bind (look allow_fallback) (\<lambda>f.
           if f then bind desc_alg (\<lambda>alg.
             andthen (modify (\<lambda>s. s\<lparr>fallback_count := fallback_count s + 1\<rparr>)) (ret (software alg)))
           else fail status))"

section \<open>Hash and chain commands\<close>

definition count_hash_once :: "u32 \<Rightarrow> ('h, unit) mop" where
  "count_hash_once cycles = modify (\<lambda>s. s\<lparr>hardware_hash_once_count := hardware_hash_once_count s + 1,
     hardware_hash_once_cycles := hardware_hash_once_cycles s + ucast cycles\<rparr>)"

definition count_chain :: "u32 \<Rightarrow> ('h, unit) mop" where
  "count_chain cycles = modify (\<lambda>s. s\<lparr>hardware_chain_count := hardware_chain_count s + 1,
     hardware_chain_cycles := hardware_chain_cycles s + ucast cycles\<rparr>)"

definition count_derive :: "u32 \<Rightarrow> ('h, unit) mop" where
  "count_derive cycles = modify (\<lambda>s. s\<lparr>hardware_derive_count := hardware_derive_count s + 1,
     hardware_derive_cycles := hardware_derive_cycles s + ucast cycles\<rparr>)"

definition count_keygen :: "u32 \<Rightarrow> ('h, unit) mop" where
  "count_keygen cycles = modify (\<lambda>s. s\<lparr>hardware_keygen_count := hardware_keygen_count s + 1,
     hardware_keygen_cycles := hardware_keygen_cycles s + ucast cycles\<rparr>)"

definition count_sign :: "u32 \<Rightarrow> ('h, unit) mop" where
  "count_sign cycles = modify (\<lambda>s. s\<lparr>hardware_sign_count := hardware_sign_count s + 1,
     hardware_sign_cycles := hardware_sign_cycles s + ucast cycles\<rparr>)"

definition count_verify :: "u32 \<Rightarrow> ('h, unit) mop" where
  "count_verify cycles = modify (\<lambda>s. s\<lparr>hardware_verify_count := hardware_verify_count s + 1,
     hardware_verify_cycles := hardware_verify_cycles s + ucast cycles\<rparr>)"

definition lms_mmio_hash_once :: "bytes \<Rightarrow> ('h, bytes \<times> u32) mop" where
  "lms_mmio_hash_once input =
     or_fallback
       (andthen (prepare_command CAP_HASH_ONCE)
       (bind (look hash_desc) (\<lambda>d. case d of None \<Rightarrow> fail LMS_MMIO_NULL_DEREF | Some desc \<Rightarrow>
        andthen (reject_if (length input > desc_max_input_bytes desc) LMS_MMIO_ERR_INVALID)
        (andthen (wr32s [(REG_COMMAND, CMD_HASH_ONCE), (REG_INPUT_LENGTH, word_of_nat (length input)), (REG_OUTPUT_LENGTH, 32)])
        (andthen (write_bytes REG_INPUT input)
        (andthen start_command
        (bind (wait_for_result True) (\<lambda>(output, cycles).
         andthen (count_hash_once cycles) (ret (output, cycles)))))))))) 
       (\<lambda>alg. (lms_digest alg input, 0))"

definition lms_mmio_hash_once_ram :: "bytes \<Rightarrow> ('h, bytes \<times> u32) mop" where
  "lms_mmio_hash_once_ram input =
     or_fallback
       (andthen (prepare_command CAP_HASH_ONCE)
       (andthen (reject_if (length input > 2048) LMS_MMIO_ERR_INVALID)
       (andthen (wr32s [(REG_COMMAND, CMD_HASH_ONCE_RAM), (REG_INPUT_LENGTH, word_of_nat (length input)), (REG_OUTPUT_LENGTH, 32)])
       (andthen (write_task_bytes 32 input)
       (andthen start_command
       (bind (wait_for_result True) (\<lambda>(output, cycles).
        andthen (count_hash_once cycles) (ret (output, cycles)))))))))
       (\<lambda>alg. (lms_digest alg input, 0))"

text \<open>\<open>message\<close> is \<open>None\<close> when it is already in task RAM (then \<open>message_len\<close> exceeds 74);
  \<open>read_Q\<close> and \<open>read_coefs\<close> say which outputs the caller wants. The header carries \<open>q\<close>
  little-endian.\<close>

definition mqc_base :: "lmots_param_t \<Rightarrow> nat \<Rightarrow> u32" where
  "mqc_base param L = (if L > 128 then 568 else if op_w param = 1 then 568 else word_of_nat (32 + op_p param * 8))"

definition lms_mmio_msg_q_coef :: "bytes \<Rightarrow> u32 \<Rightarrow> bytes \<Rightarrow> bytes option \<Rightarrow> nat \<Rightarrow> u32 \<Rightarrow> bool \<Rightarrow> bool \<Rightarrow>
    ('h, bytes \<times> nat list \<times> u32) mop" where
  "lms_mmio_msg_q_coef I q C message message_len lmots_type read_Q read_coefs =
     andthen (reject_if (message = None \<and> message_len \<noteq> 0 \<and> message_len \<le> 74) LMS_MMIO_ERR_INVALID)
     (bind (lmots_param_hw lmots_type) (\<lambda>param.
      let L = unat (54 + word_of_nat message_len :: u32)
      in andthen (reject_if (L > 2048) LMS_MMIO_ERR_INVALID)
      (andthen (prepare_command CAP_MSG_Q_COEF)
      (andthen (wr32s [(REG_ARG_W, word_of_nat (op_w param)), (REG_COMMAND, CMD_MSG_Q_COEF), (REG_INPUT_LENGTH, word_of_nat L),
                       (REG_OUTPUT_LENGTH, 32), (REG_ARG_KEY, 0), (REG_ARG_Q, q)])
      (andthen (write_bytes REG_IDENTIFIER I)
      (andthen (write_task_bytes (mqc_base param L) (I @ store_le32 q @ [0x81, 0x81] @ C))
      (andthen (case message of Some m \<Rightarrow> write_task_bytes (mqc_base param L + 14) m | None \<Rightarrow> ret ())
      (andthen start_command
      (bind (wait_for_result read_Q) (\<lambda>(Q, cycles).
       bind (if read_coefs
             then let nwords = min 32 ((op_p param * op_w param + 31) div 32)
                  in bind (for_each (\<lambda>i. andthen (wr32 REG_TASK_ADDR (word_of_nat i)) (rd32 REG_TASK_DATA)) [0..<nwords])
                       (\<lambda>packed. ret (unpack_coefficients packed (op_p param) (op_w param)))
             else ret []) (\<lambda>coefficients.
       andthen (count_hash_once cycles) (ret (Q, coefficients, cycles)))))))))))))"

definition chain_args_ok :: "nat \<Rightarrow> nat \<Rightarrow> nat \<Rightarrow> bool" where
  "chain_args_ok i start steps \<longleftrightarrow> \<not> (i > 0xFFFF \<or> start > 0xFF \<or> steps > 0xFF \<or> start + steps > 0xFF)"

definition lms_mmio_chain :: "bytes \<Rightarrow> u32 \<Rightarrow> nat \<Rightarrow> nat \<Rightarrow> nat \<Rightarrow> bytes \<Rightarrow> ('h, bytes \<times> u32) mop" where
  "lms_mmio_chain I q i start steps val =
     andthen (reject_if (\<not> chain_args_ok i start steps) LMS_MMIO_ERR_INVALID)
     (or_fallback
       (andthen (prepare_command CAP_CHAIN)
       (andthen (wr32s [(REG_COMMAND, CMD_CHAIN), (REG_OUTPUT_LENGTH, 32), (REG_ARG_Q, q), (REG_ARG_I, word_of_nat i),
                        (REG_ARG_START, word_of_nat start), (REG_ARG_STEPS, word_of_nat steps)])
       (andthen (write_bytes REG_IDENTIFIER I)
       (andthen (write_bytes REG_INPUT val)
       (andthen start_command
       (bind (wait_for_result True) (\<lambda>(output, cycles).
        andthen (count_chain cycles) (ret (output, cycles)))))))))
       (\<lambda>alg. (ots_chain alg I q i start steps val, 0)))"

section \<open>Security-domain commands\<close>

definition lms_mmio_seed_load_test :: "u32 \<Rightarrow> bytes \<Rightarrow> ('h, unit) mop" where
  "lms_mmio_seed_load_test key seed =
     andthen (reject_if (key \<noteq> 0) LMS_MMIO_ERR_INVALID)
     (andthen (prepare_command (CAP_DERIVE_CHAIN OR CAP_INSECURE_TEST_MODE))
     (andthen (wr32s [(REG_COMMAND, CMD_SEED_LOAD), (REG_ARG_KEY, key)])
     (andthen (write_bytes REG_SEED seed)
     (andthen start_command
     (andthen (wait_for_result True) (ret ()))))))"

definition lms_mmio_seed_load_safe :: "bytes \<Rightarrow> ('h, unit) mop" where
  "lms_mmio_seed_load_safe seed =
     andthen (prepare_command CAP_WRAP)
     (andthen (wr32 REG_COMMAND CMD_SEED_WRITE_SAFE)
     (andthen (write_bytes REG_SEED seed)
     (andthen start_command
     (andthen (wait_for_result True) (ret ())))))"

definition lms_mmio_mc_read :: "('h, u32) mop" where
  "lms_mmio_mc_read =
     andthen ensure_probe
     (bind (look capabilities) (\<lambda>caps.
     andthen (reject_if (caps AND CAP_SIM_MC = 0) LMS_MMIO_ERR_PROTOCOL) (rd32 REG_SIM_MC)))"

definition lms_mmio_mc_step :: "('h, u32) mop" where
  "lms_mmio_mc_step =
     andthen (prepare_command CAP_SIM_MC)
     (andthen (wr32 REG_COMMAND CMD_MC_STEP)
     (andthen start_command
     (bind (wait_for_result True) (\<lambda>(output, cycles). ret (load_le32 output)))))"

definition lms_mmio_state_commit :: "u16 \<Rightarrow> u32 \<Rightarrow> u8 \<Rightarrow> ('h, u32 \<times> bytes) mop" where
  "lms_mmio_state_commit new_state ctr aad =
     andthen (prepare_command (CAP_SIM_MC OR CAP_HMAC_KSTATE))
     (andthen (wr32s [(REG_ARG_I, ucast new_state), (REG_ARG_Q, ctr), (REG_ARG_KEY, ucast aad),
                      (REG_COMMAND, CMD_STATE_COMMIT)])
     (andthen start_command
     (bind (wait_for_result_n (Some 20)) (\<lambda>(output, cycles).
      ret (load_le32 output, segment 4 16 output)))))"

definition lms_mmio_mc_load :: "u32 \<Rightarrow> ('h, unit) mop" where
  "lms_mmio_mc_load val =
     andthen (prepare_command CAP_SIM_MC)
     (andthen (wr32s [(REG_COMMAND, CMD_MC_LOAD), (REG_ARG_Q, val)])
     (andthen start_command
     (andthen (wait_for_result True) (ret ()))))"

definition KEY_KWRAP :: u32 where "KEY_KWRAP = 1"
definition KEY_KSTATE :: u32 where "KEY_KSTATE = 2"
definition LMS_MMIO_WRAPPED_LEN :: nat where "LMS_MMIO_WRAPPED_LEN = 48"

definition lms_mmio_key_slot_load_test :: "u32 \<Rightarrow> bytes \<Rightarrow> ('h, unit) mop" where
  "lms_mmio_key_slot_load_test key_slot key =
     andthen (reject_if (key_slot \<noteq> KEY_KWRAP \<and> key_slot \<noteq> KEY_KSTATE) LMS_MMIO_ERR_INVALID)
     (andthen (prepare_command (CAP_WRAP OR CAP_INSECURE_TEST_MODE))
     (andthen (wr32s [(REG_COMMAND, CMD_SEED_LOAD), (REG_ARG_KEY, key_slot)])
     (andthen (write_bytes REG_KWRAP key)
     (andthen start_command
     (andthen (wait_for_result True) (ret ()))))))"

definition lms_mmio_wrap_seed :: "('h, bytes) mop" where
  "lms_mmio_wrap_seed =
     andthen (prepare_command CAP_WRAP)
     (andthen (wr32 REG_COMMAND CMD_WRAP_SEED)
     (andthen start_command
     (andthen (wait_for_result True) (read_bytes REG_WRAPPED LMS_MMIO_WRAPPED_LEN))))"

definition lms_mmio_unwrap_seed :: "bytes \<Rightarrow> ('h, unit) mop" where
  "lms_mmio_unwrap_seed wrapped =
     andthen (prepare_command CAP_WRAP)
     (andthen (write_bytes REG_WRAPPED wrapped)
     (andthen (wr32 REG_COMMAND CMD_UNWRAP_SEED)
     (andthen start_command
     (andthen (wait_for_result True) (ret ())))))"

definition lms_mmio_hmac_kstate :: "bytes \<Rightarrow> ('h, bytes) mop" where
  "lms_mmio_hmac_kstate input =
     andthen (reject_if (length input > 119) LMS_MMIO_ERR_INVALID)
     (andthen (prepare_command CAP_HMAC_KSTATE)
     (andthen (wr32s [(REG_COMMAND, CMD_HMAC_KSTATE), (REG_INPUT_LENGTH, word_of_nat (length input)), (REG_OUTPUT_LENGTH, 32)])
     (andthen (write_bytes REG_INPUT input)
     (andthen start_command
     (bind (wait_for_result True) (\<lambda>(output, cycles). ret output))))))"

section \<open>Derivation and batch commands\<close>

definition lms_mmio_derive_chain :: "u32 \<Rightarrow> bytes \<Rightarrow> u32 \<Rightarrow> nat \<Rightarrow> nat \<Rightarrow> nat \<Rightarrow> ('h, bytes \<times> u32) mop" where
  "lms_mmio_derive_chain key I q i start steps =
     andthen (reject_if (key \<noteq> 0 \<or> \<not> chain_args_ok i start steps) LMS_MMIO_ERR_INVALID)
     (andthen (prepare_command CAP_DERIVE_CHAIN)
     (andthen (wr32s [(REG_COMMAND, CMD_DERIVE_CHAIN), (REG_OUTPUT_LENGTH, 32), (REG_ARG_KEY, key), (REG_ARG_Q, q),
                      (REG_ARG_I, word_of_nat i), (REG_ARG_START, word_of_nat start), (REG_ARG_STEPS, word_of_nat steps)])
     (andthen (write_bytes REG_IDENTIFIER I)
     (andthen start_command
     (bind (wait_for_result True) (\<lambda>(output, cycles).
      andthen (count_derive cycles) (ret (output, cycles))))))))"

definition lms_mmio_derive_randomizer :: "u32 \<Rightarrow> bytes \<Rightarrow> u32 \<Rightarrow> ('h, bytes \<times> u32) mop" where
  "lms_mmio_derive_randomizer key I q =
     andthen (reject_if (key \<noteq> 0) LMS_MMIO_ERR_INVALID)
     (andthen (prepare_command CAP_DERIVE_CHAIN)
     (andthen (wr32s [(REG_COMMAND, CMD_DERIVE_RANDOMIZER), (REG_OUTPUT_LENGTH, 32), (REG_ARG_KEY, key), (REG_ARG_Q, q)])
     (andthen (write_bytes REG_IDENTIFIER I)
     (andthen start_command
     (bind (wait_for_result True) (\<lambda>(output, cycles).
      andthen (count_derive cycles) (ret (output, cycles))))))))"

definition lms_mmio_lmots_keygen :: "u32 \<Rightarrow> bytes \<Rightarrow> u32 \<Rightarrow> u32 \<Rightarrow> ('h, bytes \<times> u32) mop" where
  "lms_mmio_lmots_keygen key I q lmots_type =
     andthen (reject_if (key \<noteq> 0) LMS_MMIO_ERR_INVALID)
     (bind (lmots_param_hw lmots_type) (\<lambda>param.
     andthen (prepare_command CAP_LMOTS_KEYGEN)
     (andthen (wr32s [(REG_ARG_W, word_of_nat (op_w param)), (REG_COMMAND, CMD_LMOTS_KEYGEN), (REG_OUTPUT_LENGTH, 32),
                      (REG_ARG_KEY, key), (REG_ARG_Q, q)])
     (andthen (write_bytes REG_IDENTIFIER I)
     (andthen start_command
     (bind (wait_for_result True) (\<lambda>(output, cycles).
      andthen (count_keygen cycles) (ret (output, cycles)))))))))"

definition lms_mmio_lmots_keygen_leaf :: "u32 \<Rightarrow> bytes \<Rightarrow> u32 \<Rightarrow> u32 \<Rightarrow> u32 \<Rightarrow> ('h, bytes \<times> u32) mop" where
  "lms_mmio_lmots_keygen_leaf key I q node_num lmots_type =
     andthen (reject_if (key \<noteq> 0) LMS_MMIO_ERR_INVALID)
     (bind (lmots_param_hw lmots_type) (\<lambda>param.
     andthen (prepare_command CAP_LMOTS_KEYGEN_LEAF)
     (andthen (wr32s [(REG_ARG_W, word_of_nat (op_w param)), (REG_COMMAND, CMD_LMOTS_KEYGEN_LEAF), (REG_OUTPUT_LENGTH, 32),
                      (REG_ARG_KEY, key), (REG_ARG_Q, q), (REG_ARG_LEAF_NODE, node_num)])
     (andthen (write_bytes REG_IDENTIFIER I)
     (andthen start_command
     (bind (wait_for_result True) (\<lambda>(output, cycles).
      andthen (count_keygen cycles) (ret (output, cycles)))))))))"

text \<open>The coefficients go to task RAM word 0 as packed words, unless they are already in the
  device (\<open>None\<close>).\<close>

definition write_coefficients :: "lmots_param_t \<Rightarrow> nat list option \<Rightarrow> ('h, unit) mop" where
  "write_coefficients param coefficients =
     (case coefficients of
        None \<Rightarrow> ret ()
      | Some cs \<Rightarrow> (case pack_coefficients_words cs (op_p param) (op_w param) of (packed, nwords) \<Rightarrow>
          write_task_bytes 0 (concat (map store_le32 (take nwords packed)))))"

definition lms_mmio_lmots_sign_taskram :: "u32 \<Rightarrow> bytes \<Rightarrow> u32 \<Rightarrow> u32 \<Rightarrow> nat list option \<Rightarrow> ('h, u32) mop" where
  "lms_mmio_lmots_sign_taskram key I q lmots_type coefficients =
     andthen (reject_if (key \<noteq> 0) LMS_MMIO_ERR_INVALID)
     (bind (lmots_param_hw lmots_type) (\<lambda>param.
     andthen (prepare_command CAP_LMOTS_SIGN)
     (andthen (wr32 REG_ARG_W (word_of_nat (op_w param)))
     (andthen (write_coefficients param coefficients)
     (andthen (wr32s [(REG_COMMAND, CMD_LMOTS_SIGN), (REG_OUTPUT_LENGTH, word_of_nat (op_p param * op_n param)),
                      (REG_ARG_KEY, key), (REG_ARG_Q, q)])
     (andthen (write_bytes REG_IDENTIFIER I)
     (andthen start_command
     (bind (wait_for_result False) (\<lambda>(_, cycles).
      andthen (count_sign cycles) (ret cycles))))))))))"

definition lms_mmio_lmots_sign :: "u32 \<Rightarrow> bytes \<Rightarrow> u32 \<Rightarrow> u32 \<Rightarrow> nat list option \<Rightarrow> ('h, bytes \<times> u32) mop" where
  "lms_mmio_lmots_sign key I q lmots_type coefficients =
     andthen (reject_if (key \<noteq> 0) LMS_MMIO_ERR_INVALID)
     (bind (lmots_param_hw lmots_type) (\<lambda>param.
     andthen (prepare_command CAP_LMOTS_SIGN)
     (andthen (wr32 REG_ARG_W (word_of_nat (op_w param)))
     (andthen (write_coefficients param coefficients)
     (andthen (wr32s [(REG_COMMAND, CMD_LMOTS_SIGN), (REG_OUTPUT_LENGTH, word_of_nat (op_p param * op_n param)),
                      (REG_ARG_KEY, key), (REG_ARG_Q, q)])
     (andthen (write_bytes REG_IDENTIFIER I)
     (andthen start_command
     (bind (wait_for_result False) (\<lambda>(_, cycles).
      bind (read_task_bytes 32 (op_p param * op_n param)) (\<lambda>outputs.
      andthen (count_sign cycles) (ret (outputs, cycles))))))))))))"

text \<open>The four verify commands share this sequence: with the chain values from the caller or
  already in task RAM (\<open>None\<close>), ending in the public key or (with a node number) in the leaf.\<close>

definition verify_command :: "bytes \<Rightarrow> u32 \<Rightarrow> u32 option \<Rightarrow> u32 \<Rightarrow> nat list option \<Rightarrow> bytes option \<Rightarrow> ('h, bytes \<times> u32) mop" where
  "verify_command I q node_num lmots_type coefficients inputs =
     bind (lmots_param_hw lmots_type) (\<lambda>param.
     andthen (prepare_command CAP_LMOTS_VERIFY)
     (andthen (wr32 REG_ARG_W (word_of_nat (op_w param)))
     (andthen (write_coefficients param coefficients)
     (andthen (case inputs of None \<Rightarrow> ret () | Some y \<Rightarrow> write_task_bytes 32 (take (op_p param * op_n param) y))
     (andthen (wr32s ([(REG_COMMAND, case node_num of None \<Rightarrow> CMD_LMOTS_VERIFY | Some _ \<Rightarrow> CMD_LMOTS_VERIFY_LEAF),
                       (REG_OUTPUT_LENGTH, 32), (REG_ARG_Q, q)]
                      @ (case node_num of None \<Rightarrow> [] | Some n \<Rightarrow> [(REG_ARG_LEAF_NODE, n)])))
     (andthen (write_bytes REG_IDENTIFIER I)
     (andthen start_command
     (bind (wait_for_result True) (\<lambda>(output, cycles).
      andthen (count_verify cycles) (ret (output, cycles)))))))))))"

definition lms_mmio_lmots_verify :: "bytes \<Rightarrow> u32 \<Rightarrow> u32 \<Rightarrow> nat list option \<Rightarrow> bytes \<Rightarrow> ('h, bytes \<times> u32) mop" where
  "lms_mmio_lmots_verify I q lmots_type coefficients inputs = verify_command I q None lmots_type coefficients (Some inputs)"

definition lms_mmio_lmots_verify_taskram :: "bytes \<Rightarrow> u32 \<Rightarrow> u32 \<Rightarrow> nat list option \<Rightarrow> ('h, bytes \<times> u32) mop" where
  "lms_mmio_lmots_verify_taskram I q lmots_type coefficients = verify_command I q None lmots_type coefficients None"

definition lms_mmio_lmots_verify_leaf :: "bytes \<Rightarrow> u32 \<Rightarrow> u32 \<Rightarrow> u32 \<Rightarrow> nat list option \<Rightarrow> bytes \<Rightarrow> ('h, bytes \<times> u32) mop" where
  "lms_mmio_lmots_verify_leaf I q node_num lmots_type coefficients inputs =
     verify_command I q (Some node_num) lmots_type coefficients (Some inputs)"

definition lms_mmio_lmots_verify_leaf_taskram :: "bytes \<Rightarrow> u32 \<Rightarrow> u32 \<Rightarrow> u32 \<Rightarrow> nat list option \<Rightarrow> ('h, bytes \<times> u32) mop" where
  "lms_mmio_lmots_verify_leaf_taskram I q node_num lmots_type coefficients =
     verify_command I q (Some node_num) lmots_type coefficients None"

section \<open>Callbacks for the LM-OTS layer\<close>

text \<open>The callbacks are registered by the enable functions below, after a successful probe, so
  that the descriptor they compare with is there.\<close>

definition same_hash :: "lms_hash_alg_t \<Rightarrow> ('h lms_mmio_client_t, unit) callback" where
  "same_hash hash_alg = bind (or_fail LMS_ERR_INVALID desc_alg) (\<lambda>alg. reject_if (hash_alg \<noteq> alg) LMS_ERR_INVALID)"

text \<open>\<open>coef_ready\<close> is consumed: the coefficients the device kept are used once.\<close>

definition take_coef_ready :: "nat list \<Rightarrow> ('h lms_mmio_client_t, nat list option) callback" where
  "take_coef_ready coefficients =
     bind (look coef_ready) (\<lambda>r.
     if r then andthen (modify (\<lambda>s. s\<lparr>coef_ready := False\<rparr>)) (ret None) else ret (Some coefficients))"

definition lmots_mmio_sign :: "'h lms_mmio_client_t lmots_sign_backend_fn" where
  "lmots_mmio_sign I hash_alg q lmots_type coefficients =
     andthen (same_hash hash_alg)
     (bind (take_coef_ready coefficients) (\<lambda>cs.
      bind (look key_handle) (\<lambda>key.
      bind (or_fail LMS_ERR_INVALID (lms_mmio_lmots_sign key I q lmots_type cs)) (\<lambda>(outputs, _). ret outputs))))"

definition lmots_mmio_verify :: "'h lms_mmio_client_t lmots_verify_backend_fn" where
  "lmots_mmio_verify I hash_alg q lmots_type coefficients inputs =
     andthen (same_hash hash_alg)
     (bind (take_coef_ready coefficients) (\<lambda>cs.
      bind (or_fail LMS_ERR_INVALID (lms_mmio_lmots_verify I q lmots_type cs inputs)) (\<lambda>(output, _). ret output)))"

definition lmots_mmio_keygen :: "'h lms_mmio_client_t lmots_keygen_backend_fn" where
  "lmots_mmio_keygen I hash_alg q lmots_type =
     andthen (same_hash hash_alg)
     (bind (look key_handle) (\<lambda>key.
      bind (or_fail LMS_ERR_INVALID (lms_mmio_lmots_keygen key I q lmots_type)) (\<lambda>(output, _). ret output)))"

definition lmots_mmio_get_randomizer_c :: "bytes \<Rightarrow> u32 \<Rightarrow> ('h lms_mmio_client_t, bytes) callback" where
  "lmots_mmio_get_randomizer_c I q =
     bind (look randomizer_c_slot) (\<lambda>slot. case slot of
         Some C \<Rightarrow> ret C
       | None \<Rightarrow> bind (look trng_fill_c) (\<lambda>trng. case trng of
           Some f \<Rightarrow> (\<lambda>s. case f (hw s) of
               (Some C, h) \<Rightarrow> (Inr C, s\<lparr>hw := h\<rparr>)
             | (None, h) \<Rightarrow> (Inl LMS_ERR_INVALID, s\<lparr>hw := h\<rparr>))
         | None \<Rightarrow> bind (or_fail LMS_ERR_INVALID (lms_mmio_derive_randomizer 0 I q)) (\<lambda>(output, _). ret output)))"

definition lmots_mmio_randomizer :: "'h lms_mmio_client_t lmots_randomizer_backend_fn" where
  "lmots_mmio_randomizer I hash_alg q = andthen (same_hash hash_alg) (lmots_mmio_get_randomizer_c I q)"

definition lmots_mmio_chain :: "'h lms_mmio_client_t lmots_chain_backend_fn" where
  "lmots_mmio_chain I hash_alg q i start steps val =
     andthen (same_hash hash_alg)
     (bind (or_fail LMS_ERR_INVALID (lms_mmio_chain I q i start steps val)) (\<lambda>(output, _). ret output))"

definition lmots_mmio_sign_derive :: "'h lms_mmio_client_t lmots_derive_chain_backend_fn" where
  "lmots_mmio_sign_derive I hash_alg q i start steps =
     andthen (same_hash hash_alg)
     (bind (or_fail LMS_ERR_INVALID (lms_mmio_derive_chain 0 I q i start steps)) (\<lambda>(output, _). ret output))"

definition lmots_mmio_sign_randomizer :: "'h lms_mmio_client_t lmots_randomizer_backend_fn" where
  "lmots_mmio_sign_randomizer I hash_alg q = andthen (same_hash hash_alg) (lmots_mmio_get_randomizer_c I q)"

section \<open>Registering the callbacks\<close>

text \<open>The enable functions work on the client, which is the world of the library, and on the
  library's backend table.\<close>

type_synonym ('h, 'a) eop = "(lms_mmio_status_t, 'h lms_mmio_client_t lms_lib, 'a) op"

definition on_client :: "('h, 'a) mop \<Rightarrow> ('h, 'a) eop" where
  "on_client m = (\<lambda>s. case m (world s) of (r, c) \<Rightarrow> (r, s\<lparr>world := c\<rparr>))"

definition register :: "('h lms_mmio_client_t, unit) lop \<Rightarrow> ('h, unit) eop" where
  "register m = (\<lambda>s. case m s of (_, s') \<Rightarrow> (Inr (), s'))"

definition do_if :: "bool \<Rightarrow> ('e, 's, unit) op \<Rightarrow> ('e, 's, unit) op" where
  "do_if b m = (if b then m else ret ())"

definition lms_mmio_lmots_keygen_enable :: "u32 \<Rightarrow> ('h, unit) eop" where
  "lms_mmio_lmots_keygen_enable key =
     bind (on_client (look allow_fallback)) (\<lambda>fallback.
     andthen (reject_if (fallback \<or> key \<noteq> 0) LMS_MMIO_ERR_INVALID)
     (andthen (on_client ensure_probe)
     (bind (on_client (look capabilities)) (\<lambda>caps.
     andthen (reject_if (caps AND CAP_LMOTS_KEYGEN = 0) LMS_MMIO_ERR_PROTOCOL)
     (andthen (on_client (modify (\<lambda>c. c\<lparr>key_handle := key\<rparr>)))
     (register (lmots_keygen_backend_set (Some lmots_mmio_keygen))))))))"

definition lms_mmio_lmots_sign_enable :: "u32 \<Rightarrow> ('h, unit) eop" where
  "lms_mmio_lmots_sign_enable key =
     bind (on_client (look allow_fallback)) (\<lambda>fallback.
     andthen (reject_if (fallback \<or> key \<noteq> 0) LMS_MMIO_ERR_INVALID)
     (andthen (on_client ensure_probe)
     (bind (on_client (look capabilities)) (\<lambda>caps.
     andthen (reject_if (caps AND (CAP_DERIVE_CHAIN OR CAP_LMOTS_SIGN) \<noteq> CAP_DERIVE_CHAIN OR CAP_LMOTS_SIGN) LMS_MMIO_ERR_PROTOCOL)
     (andthen (on_client (modify (\<lambda>c. c\<lparr>key_handle := key\<rparr>)))
     (andthen (register (lmots_sign_backend_set (Some lmots_mmio_sign)))
     (register (lmots_sign_randomizer_backend_set (Some lmots_mmio_randomizer)))))))))"

definition lms_mmio_lmots_keygen_enable_insecure :: "('h, unit) eop" where
  "lms_mmio_lmots_keygen_enable_insecure =
     bind (on_client (look allow_fallback)) (\<lambda>fallback.
     andthen (reject_if fallback LMS_MMIO_ERR_INVALID)
     (andthen (on_client ensure_probe)
     (bind (on_client (look capabilities)) (\<lambda>caps.
     andthen (reject_if (caps AND CAP_CHAIN = 0) LMS_MMIO_ERR_PROTOCOL)
     (andthen (register (lmots_keygen_chain_backend_set (Some lmots_mmio_chain)))
     (andthen (do_if (caps AND CAP_DERIVE_CHAIN \<noteq> 0) (register (lmots_keygen_derive_backend_set (Some lmots_mmio_sign_derive))))
     (do_if (caps AND CAP_LMOTS_KEYGEN \<noteq> 0) (register (lmots_keygen_backend_set (Some lmots_mmio_keygen))))))))))"

definition lms_mmio_lmots_keygen_disable :: "('h, unit) eop" where
  "lms_mmio_lmots_keygen_disable =
     andthen (register (lmots_keygen_chain_backend_set None))
     (andthen (register (lmots_keygen_derive_backend_set None))
     (register (lmots_keygen_backend_set None)))"

definition lms_mmio_lmots_verify_enable :: "('h, unit) eop" where
  "lms_mmio_lmots_verify_enable =
     bind (on_client (look allow_fallback)) (\<lambda>fallback.
     andthen (reject_if fallback LMS_MMIO_ERR_INVALID)
     (andthen (on_client ensure_probe)
     (bind (on_client (look capabilities)) (\<lambda>caps.
     andthen (reject_if (caps AND (CAP_CHAIN OR CAP_LMOTS_VERIFY) = 0) LMS_MMIO_ERR_PROTOCOL)
     (if caps AND CAP_LMOTS_VERIFY \<noteq> 0
      then register (lmots_verify_backend_set (Some lmots_mmio_verify))
      else register (lmots_verify_chain_backend_set (Some lmots_mmio_chain)))))))"

definition lms_mmio_lmots_verify_disable :: "('h, unit) eop" where
  "lms_mmio_lmots_verify_disable =
     andthen (register (lmots_verify_chain_backend_set None)) (register (lmots_verify_backend_set None))"

definition lms_mmio_lmots_sign_enable_insecure :: "('h, unit) eop" where
  "lms_mmio_lmots_sign_enable_insecure =
     bind (on_client (look allow_fallback)) (\<lambda>fallback.
     andthen (reject_if fallback LMS_MMIO_ERR_INVALID)
     (andthen (on_client ensure_probe)
     (bind (on_client (look capabilities)) (\<lambda>caps.
     andthen (reject_if (caps AND CAP_CHAIN = 0) LMS_MMIO_ERR_PROTOCOL)
     (andthen (register (lmots_sign_chain_backend_set (Some lmots_mmio_chain)))
     (andthen (do_if (caps AND CAP_DERIVE_CHAIN \<noteq> 0)
        (andthen (register (lmots_sign_derive_backend_set (Some lmots_mmio_sign_derive)))
           (register (lmots_sign_randomizer_backend_set (Some lmots_mmio_sign_randomizer)))))
     (do_if (caps AND CAP_LMOTS_SIGN \<noteq> 0) (register (lmots_sign_backend_set (Some lmots_mmio_sign))))))))))"

definition lms_mmio_lmots_sign_disable :: "('h, unit) eop" where
  "lms_mmio_lmots_sign_disable =
     andthen (register (lmots_sign_chain_backend_set None))
     (andthen (register (lmots_sign_derive_backend_set None))
     (andthen (register (lmots_sign_randomizer_backend_set None))
     (register (lmots_sign_backend_set None))))"

section \<open>Packing and unpacking coefficients\<close>

text \<open>Bit \<open>b\<close> of word \<open>j\<close> is bit \<open>32 * j + b\<close> of the task RAM; coefficient \<open>k\<close> of the remaining
  ones starts \<open>w * k\<close> bits after the write position.\<close>

definition coef_bit :: "nat \<Rightarrow> nat list \<Rightarrow> nat \<Rightarrow> bool" where
  "coef_bit w cs t \<longleftrightarrow> t < w * length cs \<and> bit (cs ! (t div w)) (t mod w)"

lemma coef_bit_Cons:
  assumes "0 < w"
  shows "coef_bit w (c # cs) t \<longleftrightarrow> t < w \<and> bit c t \<or> w \<le> t \<and> coef_bit w cs (t - w)"
proof (cases "t < w")
  case True
  then show ?thesis by (simp add: coef_bit_def)
next
  case False
  then have "t div w = Suc ((t - w) div w)" "t mod w = (t - w) mod w"
    using assms by (simp_all add: le_div_geq le_mod_geq)
  then show ?thesis using False by (auto simp: coef_bit_def)
qed

lemma bit_masked_coef:
  assumes "w \<le> 8"
  shows "bit ((word_of_nat c :: u32) AND (if w = 8 then 0xff else push_bit w 1 - 1)) n \<longleftrightarrow> n < w \<and> bit c n"
proof -
  have "(if w = 8 then 0xff else push_bit w 1 - 1 :: u32) = mask w"
    by (simp add: mask_eq_exp_minus_1 push_bit_of_1)
  then show ?thesis using assms by (auto simp: bit_simps)
qed

lemma word_position:
  assumes "w_shift < 32" and "32 * w_idx + w_shift \<le> 32 * j + b" and "b < 32"
    and "32 * j + b < 32 * w_idx + w_shift + w" and "w_shift + w \<le> 32"
  shows "j = (w_idx :: nat)"
  using assms by linarith

lemma bit_pack_loop:
  assumes "w \<le> 8" "0 < w" "w dvd 32" "w dvd w_shift" "w_shift < 32" "length words = 32"
    and "32 * w_idx + w_shift + w * length cs \<le> 1024" and "j < 32" and "b < 32"
  shows "length (pack_loop w cs words w_idx w_shift) = 32 \<and>
    (bit (pack_loop w cs words w_idx w_shift ! j) b \<longleftrightarrow>
      bit (words ! j) b \<or> 32 * w_idx + w_shift \<le> 32 * j + b \<and> coef_bit w cs (32 * j + b - (32 * w_idx + w_shift)))"
  using assms
proof (induction cs arbitrary: words w_idx w_shift)
  case Nil
  then show ?case by (simp add: coef_bit_def)
next
  case (Cons c cs)
  define msk where "msk = (if w = 8 then 0xff else push_bit w 1 - 1 :: u32)"
  define v where "v = word_of_nat c AND msk"
  define ws where "ws = words[w_idx := words ! w_idx OR push_bit w_shift v]"
  have v: "bit v n \<longleftrightarrow> n < w \<and> bit c n" for n
    unfolding v_def msk_def by (rule bit_masked_coef [OF Cons.prems(1)])
  have room: "w_shift + w \<le> 32"
  proof -
    from Cons.prems(4) obtain a where a: "w_shift = w * a" by (rule dvdE)
    from Cons.prems(3) obtain e where e: "32 = w * e" by (rule dvdE)
    have "w * a < w * e" using Cons.prems(5) unfolding a [symmetric] e [symmetric] .
    then have "w * Suc a \<le> w * e" by (intro mult_le_mono2) simp
    then show ?thesis unfolding a e by simp
  qed
  have idx: "w_idx < 32" using Cons.prems(2,7) by simp
  have here: "bit (ws ! j) b \<longleftrightarrow> bit (words ! j) b \<or>
      32 * w_idx + w_shift \<le> 32 * j + b \<and> 32 * j + b < 32 * w_idx + w_shift + w \<and> bit c (32 * j + b - (32 * w_idx + w_shift))"
  proof (cases "j = w_idx")
    case True
    then show ?thesis using Cons.prems(5,6,9) idx unfolding ws_def by (auto simp: bit_or_iff bit_push_bit_iff v)
  next
    case False
    then show ?thesis using word_position [OF Cons.prems(5) _ Cons.prems(9) _ room, of w_idx j]
      unfolding ws_def by (auto simp: nth_list_update)
  qed
  have tail: "coef_bit w (c # cs) (32 * j + b - p) \<longleftrightarrow>
      32 * j + b < p + w \<and> bit c (32 * j + b - p) \<or> p + w \<le> 32 * j + b \<and> coef_bit w cs (32 * j + b - (p + w))"
    if "p \<le> 32 * j + b" for p
    using that Cons.prems(2) by (auto simp: coef_bit_Cons)
  have next_shift: "w dvd w_shift + w" using Cons.prems(4) by simp
  define pos where "pos = 32 * w_idx + w_shift"
  have both: "(bit (ws ! j) b \<or> pos + w \<le> 32 * j + b \<and> coef_bit w cs (32 * j + b - (pos + w))) \<longleftrightarrow>
      bit (words ! j) b \<or> pos \<le> 32 * j + b \<and> coef_bit w (c # cs) (32 * j + b - pos)"
    using here tail [of pos] unfolding pos_def [symmetric] by linarith
  show ?case
  proof (cases "w_shift + w \<ge> 32")
    case True
    then have s32: "w_shift + w = 32" using room by simp
    have step: "pack_loop w (c # cs) words w_idx w_shift = pack_loop w cs ws (w_idx + 1) 0"
      using s32 by (simp only: pack_loop.simps Let_def msk_def [symmetric] v_def [symmetric] ws_def [symmetric]) simp
    have "length (pack_loop w cs ws (w_idx + 1) 0) = 32 \<and>
        (bit (pack_loop w cs ws (w_idx + 1) 0 ! j) b \<longleftrightarrow>
        bit (ws ! j) b \<or> 32 * (w_idx + 1) + 0 \<le> 32 * j + b \<and> coef_bit w cs (32 * j + b - (32 * (w_idx + 1) + 0)))"
      by (rule Cons.IH) (use Cons.prems s32 in \<open>simp_all add: ws_def\<close>)
    moreover have "32 * (w_idx + 1) + 0 = pos + w" using s32 by (simp add: pos_def)
    ultimately show ?thesis unfolding step pos_def [symmetric] both [symmetric] by simp
  next
    case False
    then have step: "pack_loop w (c # cs) words w_idx w_shift = pack_loop w cs ws w_idx (w_shift + w)"
      by (simp only: pack_loop.simps Let_def msk_def [symmetric] v_def [symmetric] ws_def [symmetric]) simp
    have "length (pack_loop w cs ws w_idx (w_shift + w)) = 32 \<and>
        (bit (pack_loop w cs ws w_idx (w_shift + w) ! j) b \<longleftrightarrow>
        bit (ws ! j) b \<or> 32 * w_idx + (w_shift + w) \<le> 32 * j + b \<and> coef_bit w cs (32 * j + b - (32 * w_idx + (w_shift + w))))"
      by (rule Cons.IH) (use Cons.prems False next_shift in \<open>simp_all add: ws_def\<close>)
    moreover have "32 * w_idx + (w_shift + w) = pos + w" by (simp add: pos_def)
    ultimately show ?thesis unfolding step pos_def [symmetric] both [symmetric] by simp
  qed
qed

lemma winternitz_width:
  assumes "lmots_params t = Some b"
  shows "op_w b \<in> {1, 2, 4, 8}" and "op_w b * op_p b \<le> 288" and "0 < op_w b"
  using assms by (auto simp: lmots_params_def lmots_type_switch_def dest!: if_SomeD)

lemma bit_packed:
  assumes "w \<in> {1, 2, 4, 8}" and "w * length cs \<le> 1024" and "j < 32" and "b < 32"
  shows "bit (pack_loop w cs (replicate 32 0) 0 0 ! j) b \<longleftrightarrow> coef_bit w cs (32 * j + b)"
    and "length (pack_loop w cs (replicate 32 0) 0 0) = 32"
  using bit_pack_loop [of w 0 "replicate 32 0" 0 cs j b] assms by auto

lemma unpack_digit:
  assumes w: "w \<in> {1, 2, 4, 8}" and cs: "w * length cs \<le> 1024" and i: "i < length cs" and c: "cs ! i < 2 ^ w"
  shows "unat (ucast (drop_bit (i * w mod 32) (pack_loop w cs (replicate 32 0) 0 0 ! (i * w div 32))
      AND (if w = 8 then 0xff else push_bit w 1 - 1)) :: u8) = cs ! i" (is "unat ?u = _")
proof -
  have w8: "w \<le> 8" and w0: "0 < w" and dvd: "w dvd 32" using w by auto
  define sh j where "sh = i * w mod 32" and "j = i * w div 32"
  have pos: "32 * j + sh = i * w" by (simp add: sh_def j_def)
  have "i * w + w \<le> w * length cs" using i mult_le_mono2 [of "Suc i" "length cs" w] by (simp add: algebra_simps)
  then have j: "j < 32" using cs w0 pos by linarith
  have room: "sh + w \<le> 32"
  proof -
    have "w dvd sh" using dvd unfolding sh_def by (simp add: dvd_mod)
    moreover have "sh < 32" by (simp add: sh_def)
    ultimately show ?thesis using w by (auto elim!: dvdE)
  qed
  have m: "(if w = 8 then 0xff else push_bit w 1 - 1 :: u32) = mask w"
    by (simp add: mask_eq_exp_minus_1 push_bit_of_1)
  have "bit ?u r \<longleftrightarrow> bit (word_of_nat (cs ! i) :: u8) r" if "r < 8" for r
  proof (cases "r < w")
    case True
    have "bit ?u r \<longleftrightarrow> bit (pack_loop w cs (replicate 32 0) 0 0 ! j) (sh + r)"
      unfolding m using True that room by (simp add: bit_simps flip: sh_def j_def)
    also have "\<dots> \<longleftrightarrow> coef_bit w cs (i * w + r)"
      using bit_packed(1) [OF w cs j, of "sh + r"] True room pos by (simp add: add.assoc [symmetric])
    also have "\<dots> \<longleftrightarrow> bit (cs ! i) r"
      using True \<open>i * w + w \<le> w * length cs\<close> w0 by (simp add: coef_bit_def div_mult_self3 mod_mult_self3)
    finally show ?thesis using that by (simp add: bit_simps)
  next
    case False
    have "\<not> bit (cs ! i) r" using c False
      by (metis bit_nat_iff div_less drop_bit_eq_div bit_iff_odd even_zero less_le_trans not_less power_increasing one_le_numeral)
    then show ?thesis unfolding m using False that by (simp add: bit_simps)
  qed
  then have "?u = word_of_nat (cs ! i)" by (intro bit_word_eqI) simp
  moreover have "cs ! i < 2 ^ 8" using c power_increasing [OF w8, of "2 :: nat"] by simp
  ultimately show ?thesis by (simp add: unat_of_nat)
qed



section \<open>Polling\<close>

text \<open>The state of the client after \<open>n\<close> reads of \<open>STATUS\<close>, and the value read at poll \<open>n\<close>.\<close>

definition after_polls :: "nat \<Rightarrow> 'h lms_mmio_client_t \<Rightarrow> 'h lms_mmio_client_t" where
  "after_polls n s = ((\<lambda>s. snd (rd32 REG_STATUS s)) ^^ n) s"

definition status_at :: "nat \<Rightarrow> 'h lms_mmio_client_t \<Rightarrow> u32" where
  "status_at n s = fst (bus_read32 s REG_STATUS (hw (after_polls n s)))"

text \<open>A poll that ends the loop: not busy, and error or done.\<close>

definition poll_ends :: "u32 \<Rightarrow> bool" where
  "poll_ends status \<longleftrightarrow> status AND 1 = 0 \<and> (status AND 4 \<noteq> 0 \<or> status AND 2 \<noteq> 0)"

lemma rd32_run: "rd32 off s = (Inr (fst (bus_read32 s off (hw s))), s\<lparr>hw := snd (bus_read32 s off (hw s))\<rparr>)"
  by (simp add: rd32_def split: prod.split)

lemma after_polls_Suc: "after_polls (Suc n) s = after_polls n (snd (rd32 REG_STATUS s))"
  by (simp add: after_polls_def funpow_Suc_right del: funpow.simps)

lemma status_at_Suc: "status_at (Suc n) s = status_at n (snd (rd32 REG_STATUS s))"
  by (simp add: status_at_def after_polls_Suc rd32_run)

lemma status_at_0: "status_at 0 s = fst (bus_read32 s REG_STATUS (hw s))"
  by (simp add: status_at_def after_polls_def)

lemma poll_result_skip:
  "\<not> poll_ends (status_at 0 s) \<Longrightarrow> poll_result (Suc polls) out s = poll_result polls out (snd (rd32 REG_STATUS s))"
  by (auto simp: bind_def rd32_run status_at_0 poll_ends_def)

lemma read_bytes_total: "\<exists>out s'. read_bytes base len s = (Inr out, s')"
proof -
  define f where "f = (\<lambda>offset. bind (rd32 (base + word_of_nat offset)) (\<lambda>word.
      ret (word_bytes (buf_aligned s base) len offset word) :: ('a, bytes) mop))"
  obtain xs t where "for_each f (word_offsets len) s = (Inr xs, t)"
    using for_each_total [of f "word_offsets len" s] by (cases "for_each f (word_offsets len) s") (auto simp: f_def op_defs rd32_run)
  moreover have "read_bytes base len s = bind (for_each f (word_offsets len)) (\<lambda>words. ret (concat words)) s"
    by (simp only: read_bytes_def bind_look f_def)
  ultimately show ?thesis by (simp add: op_defs)
qed

lemma poll_result_ends:
  fixes s :: "'h lms_mmio_client_t"
  defines "status \<equiv> fst (bus_read32 s REG_STATUS (hw s))" and "s' \<equiv> snd (rd32 REG_STATUS s)"
  assumes "poll_ends status"
  shows "if status AND 4 \<noteq> 0
    then poll_result (Suc polls) (Some len) s = (Inl LMS_MMIO_ERR_HARDWARE,
           s'\<lparr>hw := snd (bus_read32 s' REG_ERROR (hw s')), last_hw_error := fst (bus_read32 s' REG_ERROR (hw s'))\<rparr>)
    else \<exists>output cycles. fst (poll_result (Suc polls) (Some len) s) = Inr (output, cycles)
           \<and> last_hw_error (snd (poll_result (Suc polls) (Some len) s)) = 0"
proof -
  obtain out t where out: "read_bytes REG_OUTPUT len s' = (Inr out, t)" using read_bytes_total by blast
  have "rd32 REG_STATUS s = (Inr status, s')" by (simp add: rd32_run status_def s'_def)
  then show ?thesis using assms(3) out by (auto simp: poll_ends_def op_defs rd32_run)
qed

lemma poll_result_until:
  assumes "\<forall>i < n. \<not> poll_ends (status_at i s)" and "n \<le> polls"
  shows "poll_result polls out s = poll_result (polls - n) out (after_polls n s)"
  using assms
proof (induction n arbitrary: polls s)
  case 0
  then show ?case by (simp add: after_polls_def)
next
  case (Suc n)
  then obtain k where k: "polls = Suc k" by (cases polls) auto
  have "\<not> poll_ends (status_at i (snd (rd32 REG_STATUS s)))" if "i < n" for i
    using Suc.prems(1) that status_at_Suc [of i s] by (metis Suc_less_eq)
  then show ?case
    using Suc.IH [of "snd (rd32 REG_STATUS s)" k] Suc.prems poll_result_skip [of s k out]
    by (simp add: k after_polls_Suc)
qed

text \<open>
  C25. Waiting for the device ends, and ends with what the device said. For every device: if
  some poll within \<open>timeout_polls\<close> finds it not busy and done or in error, the first such poll
  decides the result, the error code being kept in \<open>last_hw_error\<close>; otherwise the driver gives
  up with \<open>LMS_MMIO_ERR_TIMEOUT\<close> after exactly \<open>timeout_polls\<close> reads. \<open>LMS_MMIO_OK\<close> is never
  returned while the busy or the error bit is set.
\<close>

theorem wait_for_result_outcome:
  fixes s :: "'h lms_mmio_client_t"
  defines "n \<equiv> unat (timeout_polls s)"
  shows "if \<exists>i < n. poll_ends (status_at i s)
    then (let i = (LEAST i. poll_ends (status_at i s)); s' = after_polls (Suc i) s in
      if status_at i s AND 4 \<noteq> 0
      then wait_for_result True s = (Inl LMS_MMIO_ERR_HARDWARE,
             s'\<lparr>hw := snd (bus_read32 s' REG_ERROR (hw s')), last_hw_error := fst (bus_read32 s' REG_ERROR (hw s'))\<rparr>)
      else \<exists>output cycles. fst (wait_for_result True s) = Inr (output, cycles) \<and> last_hw_error (snd (wait_for_result True s)) = 0)
    else wait_for_result True s = (Inl LMS_MMIO_ERR_TIMEOUT, after_polls n s)"
proof -
  have run: "wait_for_result True s = poll_result n (Some 32) s"
    by (simp add: wait_for_result_def wait_for_result_n_def LMS_N_def n_def op_defs)
  show ?thesis
  proof (cases "\<exists>i < n. poll_ends (status_at i s)")
    case False
    then show ?thesis using poll_result_until [of n s n "Some 32"] by (simp add: run op_defs)
  next
    case True
    define i where "i = (LEAST i. poll_ends (status_at i s))"
    obtain k where k: "k < n" "poll_ends (status_at k s)" using True by blast
    have ends: "poll_ends (status_at i s)" unfolding i_def using k(2) by (rule LeastI)
    have i: "i < n" using Least_le [of "\<lambda>i. poll_ends (status_at i s)", OF k(2)] k(1) by (simp add: i_def)
    have "\<forall>j < i. \<not> poll_ends (status_at j s)" unfolding i_def using not_less_Least by blast
    then have "wait_for_result True s = poll_result (n - i) (Some 32) (after_polls i s)"
      unfolding run using i by (intro poll_result_until) simp_all
    moreover obtain m where "n - i = Suc m" using i by (cases "n - i") auto
    moreover have "after_polls (Suc i) s = snd (rd32 REG_STATUS (after_polls i s))" by (simp add: after_polls_def)
    moreover have "status_at i s = fst (bus_read32 (after_polls i s) REG_STATUS (hw (after_polls i s)))"
    proof -
      have "bus_read32 (after_polls i s) = bus_read32 s" unfolding after_polls_def by (induction i) (simp_all add: rd32_run)
      then show ?thesis by (simp add: status_at_def)
    qed
    ultimately show ?thesis
      using True ends poll_result_ends [of "after_polls i s" m 32] unfolding i_def [symmetric] by (auto simp: Let_def)
  qed
qed

section \<open>Byte transfers\<close>

lemma upt_0_4: "[0..<4] = [0, 1, 2, 3 :: nat]"
  by (simp add: upt_rec)

lemma pack_lanes_whole:
  assumes "offset + 4 \<le> length bs"
  shows "pack_lanes bs offset = load_le32 (drop offset bs)"
  using assms by (simp add: pack_lanes_def load_le32_def upt_0_4 add.commute or.assoc)

lemma unpack_lanes_whole: "4 \<le> count \<Longrightarrow> unpack_lanes word count = store_le32 word"
  by (simp add: unpack_lanes_def store_le32_def upt_0_4 min_def)

lemma word_offsets_whole:
  assumes "offset \<in> set (word_offsets len)" and "len mod 4 = 0"
  shows "offset + 4 \<le> len"
proof -
  obtain n where n: "len = 4 * n" using assms(2) by (auto elim!: dvdE simp: mod_eq_0_iff_dvd)
  have "(4 * n + 3) div 4 = n" by simp
  then show ?thesis using assms(1) by (auto simp: word_offsets_def n)
qed

lemma buffer_word_slow: "offset \<in> set (word_offsets (length bs)) \<Longrightarrow> buffer_word al bs offset = pack_lanes bs offset"
  using word_offsets_whole [of offset "length bs"] by (auto simp: buffer_word_def pack_lanes_whole)

lemma word_bytes_slow: "offset \<in> set (word_offsets len) \<Longrightarrow> word_bytes al len offset word = unpack_lanes word (len - offset)"
  using word_offsets_whole [of offset len] by (auto simp: word_bytes_def unpack_lanes_whole)

text \<open>An operation that does not depend on the alignment of its buffers.\<close>

definition ignores_alignment :: "('h, 'a) mop \<Rightarrow> bool" where
  "ignores_alignment m \<longleftrightarrow> (\<forall>s f. m (s\<lparr>buf_aligned := f\<rparr>) = map_prod id (\<lambda>s. s\<lparr>buf_aligned := f\<rparr>) (m s))"

lemma ignores_ret: "ignores_alignment (ret x)"
  by (simp add: ignores_alignment_def op_defs)

lemma ignores_rd32: "ignores_alignment (rd32 off)"
  by (simp add: ignores_alignment_def rd32_run)

lemma ignores_wr32: "ignores_alignment (wr32 off v)"
  by (simp add: ignores_alignment_def wr32_def op_defs)

lemma ignores_bind:
  assumes m: "ignores_alignment m" and f: "\<And>x. ignores_alignment (f x)"
  shows "ignores_alignment (bind m f)"
  unfolding ignores_alignment_def
proof (intro allI)
  fix s g
  obtain r t where ms: "m s = (r, t)" by force
  then have mg: "m (s\<lparr>buf_aligned := g\<rparr>) = (r, t\<lparr>buf_aligned := g\<rparr>)" using m by (simp add: ignores_alignment_def)
  show "bind m f (s\<lparr>buf_aligned := g\<rparr>) = map_prod id (\<lambda>s. s\<lparr>buf_aligned := g\<rparr>) (bind m f s)"
    using f by (cases r) (simp_all add: bind_def ms mg ignores_alignment_def)
qed

lemma ignores_for_each: "(\<And>i. ignores_alignment (f i)) \<Longrightarrow> ignores_alignment (for_each f is)"
  by (induction "is") (simp_all add: ignores_ret ignores_bind)

lemma ignores_wr32s: "ignores_alignment (wr32s ws)"
  by (induction ws rule: wr32s.induct) (simp_all add: andthen_def ignores_ret ignores_bind ignores_wr32)

lemma ignores_look_alignment:
  assumes "\<And>al al'. f al = f al'" and "ignores_alignment (f al)"
  shows "ignores_alignment (bind (look buf_aligned) f)"
proof -
  have "bind (look buf_aligned) f x = f al x" for x
    using assms(1) [of "buf_aligned x" al] by (simp only: bind_look)
  then have "bind (look buf_aligned) f = f al" by (rule ext)
  then show ?thesis using assms(2) by simp
qed

text \<open>
  The fast paths are only faster. Whether the caller's buffer is 4-byte aligned, so that the
  driver moves whole words, or not, so that it packs and unpacks byte lanes, makes no difference
  to what \<open>write_bytes\<close>, \<open>read_bytes\<close>, \<open>write_task_bytes\<close> and \<open>read_task_bytes\<close> return, nor to the
  sequence of bus accesses and the device state they leave, for every length and device.
\<close>

theorem transfers_ignore_alignment:
  "ignores_alignment (write_bytes base bs) \<and> ignores_alignment (read_bytes base len)
   \<and> ignores_alignment (write_task_bytes word_base bs) \<and> ignores_alignment (read_task_bytes word_base len)"
proof (intro conjI)
  show "ignores_alignment (write_bytes base bs)" unfolding write_bytes_def
    by (rule ignores_look_alignment, rule arg_cong [where f = wr32s])
       (simp_all add: buffer_word_slow cong: map_cong, rule ignores_wr32s)
  show "ignores_alignment (read_bytes base len)" unfolding read_bytes_def
    by (rule ignores_look_alignment, rule arg_cong2 [where f = bind, OF for_each_cong])
       (simp_all add: word_bytes_slow ignores_bind ignores_for_each ignores_rd32 ignores_ret)
  show "ignores_alignment (write_task_bytes word_base bs)" unfolding write_task_bytes_def
    by (rule ignores_look_alignment)
       (simp_all add: buffer_word_slow andthen_def ignores_bind ignores_wr32 ignores_wr32s cong: map_cong)
  show "ignores_alignment (read_task_bytes word_base len)" unfolding read_task_bytes_def andthen_def
    by (rule ignores_look_alignment, rule arg_cong2 [where f = bind, OF refl], rule ext, rule arg_cong2 [where f = bind, OF for_each_cong])
       (simp_all add: word_bytes_slow ignores_bind ignores_for_each ignores_rd32 ignores_wr32 ignores_ret)
qed

section \<open>Capability gates\<close>

lemma prepare_gate:
  assumes "probed s" and "capabilities s AND cap \<noteq> cap"
  shows "prepare_command cap s = (Inl LMS_MMIO_ERR_PROTOCOL, s)"
  using assms by (simp add: prepare_command_def ensure_probe_def op_defs)

lemma gated:
  assumes "probed s" and "capabilities s AND cap \<noteq> cap"
  shows "andthen (prepare_command cap) k s = (Inl LMS_MMIO_ERR_PROTOCOL, s)"
  using prepare_gate [OF assms] by (simp add: andthen_def bind_def)

lemma gated_behind:
  assumes "g s = (Inl e, s) \<or> g s = (Inr x, s) \<and> isl (fst (k x s)) \<and> snd (k x s) = s"
  shows "isl (fst (bind g k s)) \<and> snd (bind g k s) = s"
  using assms by (auto simp: bind_def)

text \<open>\<open>refused m s\<close>: the operation fails and leaves client and device as they were.\<close>

definition refused :: "('e, 's, 'a) op \<Rightarrow> 's \<Rightarrow> bool" where
  "refused m s \<longleftrightarrow> isl (fst (m s)) \<and> snd (m s) = s"

lemma refused_gate: "probed s \<Longrightarrow> capabilities s AND cap \<noteq> cap \<Longrightarrow> refused (andthen (prepare_command cap) k) s"
  by (simp add: refused_def gated)

lemma refused_guard: "refused k s \<Longrightarrow> refused (andthen (reject_if b e) k) s"
  by (simp add: refused_def op_defs)

lemma refused_param: "(\<And>p. refused (k p) s) \<Longrightarrow> refused (bind (lmots_param_hw t) k) s"
  by (simp add: refused_def lmots_param_hw_def op_defs split: option.split)

lemma refused_fallback: "\<not> allow_fallback s \<Longrightarrow> refused m s \<Longrightarrow> refused (or_fallback m f) s"
  by (cases "m s") (auto simp: refused_def or_fallback_def op_defs split: sum.splits)

lemmas refusals = refused_gate refused_guard refused_param refused_fallback


text \<open>A client that has probed a SHA-256 device with the given capability word; the device
  ignores writes and answers every read with 0.\<close>

definition test_client :: "u32 \<Rightarrow> bool \<Rightarrow> unit lms_mmio_client_t" where
  "test_client caps fallback =
     \<lparr>bus_read32 = (\<lambda>_ h. (0, h)), bus_write32 = (\<lambda>_ _ h. h), buf_aligned = (\<lambda>_. True), timeout_polls = 4,
      capabilities = caps, last_hw_error = 0, fallback_count = 0, hardware_chain_count = 0, hardware_chain_cycles = 0,
      hardware_derive_count = 0, hardware_derive_cycles = 0, hardware_keygen_count = 0, hardware_keygen_cycles = 0,
      hardware_sign_count = 0, hardware_sign_cycles = 0, hardware_verify_count = 0, hardware_verify_cycles = 0,
      hardware_hash_once_count = 0, hardware_hash_once_cycles = 0, key_handle = 0, allow_fallback = fallback,
      probed = True, coef_ready = False, hash_desc = Some LMS_MMIO_HASH_DESC_SHA256, randomizer_c_slot = None,
      trng_fill_c = None, hw = ()\<rparr>"


section \<open>Registering callbacks\<close>

text \<open>A probed client has a descriptor.\<close>

definition client_ok :: "'h lms_mmio_client_t \<Rightarrow> bool" where
  "client_ok c \<longleftrightarrow> (probed c \<longrightarrow> hash_desc c \<noteq> None)"

lemma ensure_probe_run:
  assumes "client_ok c" and "ensure_probe c = (r, c')"
  shows "client_ok c'" and "allow_fallback c' = allow_fallback c" and "r = Inr () \<Longrightarrow> probed c' \<and> hash_desc c' \<noteq> None"
  using assms
  by (auto simp: ensure_probe_def lms_mmio_probe_def client_ok_def op_defs rd32_run split: if_splits)

lemma verify_enable_run:
  assumes "ensure_probe (world s) = (r, c)"
  shows "lms_mmio_lmots_verify_enable s =
    (if allow_fallback (world s) then (Inl LMS_MMIO_ERR_INVALID, s)
     else case r of
       Inl e \<Rightarrow> (Inl e, s\<lparr>world := c\<rparr>)
     | Inr _ \<Rightarrow>
         if capabilities c AND (CAP_CHAIN OR CAP_LMOTS_VERIFY) = 0 then (Inl LMS_MMIO_ERR_PROTOCOL, s\<lparr>world := c\<rparr>)
         else if capabilities c AND CAP_LMOTS_VERIFY \<noteq> 0 then (Inr (), s\<lparr>world := c, verify_backend := Some lmots_mmio_verify\<rparr>)
         else (Inr (), s\<lparr>world := c, verify_chain_backend := Some lmots_mmio_chain\<rparr>))"
  unfolding lms_mmio_lmots_verify_enable_def
  by (simp add: on_client_def register_def lmots_verify_backend_set_def lmots_verify_chain_backend_set_def op_defs assms
      split: sum.split)

text \<open>
  Accelerators are registered only when they can serve. \<open>lms_mmio_lmots_keygen_enable\<close>,
  \<open>lms_mmio_lmots_sign_enable\<close> and \<open>lms_mmio_lmots_verify_enable\<close> succeed only on a client without
  software fallback whose device answered the probe and announces the capabilities, and then
  install their callbacks with a valid hash descriptor; when they fail, no callback of the
  library has changed.
\<close>

theorem enable_registers:
  assumes "client_ok (world s)"
    and k: "lms_mmio_lmots_keygen_enable key s = (rk, sk)" and g: "lms_mmio_lmots_sign_enable key s = (rg, sg)"
    and v: "lms_mmio_lmots_verify_enable s = (rv, sv)"
  defines "ready \<equiv> \<lambda>c. \<not> allow_fallback c \<and> probed c \<and> hash_desc c \<noteq> None"
  shows "(rk = Inr () \<longrightarrow> ready (world sk) \<and> key = 0 \<and> capabilities (world sk) AND CAP_LMOTS_KEYGEN \<noteq> 0
      \<and> keygen_backend sk = Some lmots_mmio_keygen)
    \<and> (rg = Inr () \<longrightarrow> ready (world sg) \<and> key = 0
      \<and> capabilities (world sg) AND (CAP_DERIVE_CHAIN OR CAP_LMOTS_SIGN) = CAP_DERIVE_CHAIN OR CAP_LMOTS_SIGN
      \<and> sign_backend sg = Some lmots_mmio_sign \<and> sign_randomizer_backend sg = Some lmots_mmio_randomizer)
    \<and> (rv = Inr () \<longrightarrow> ready (world sv)
      \<and> (if capabilities (world sv) AND CAP_LMOTS_VERIFY \<noteq> 0 then verify_backend sv = Some lmots_mmio_verify
         else capabilities (world sv) AND CAP_CHAIN \<noteq> 0 \<and> verify_chain_backend sv = Some lmots_mmio_chain))
    \<and> (isl rk \<longrightarrow> sk = s\<lparr>world := world sk\<rparr>) \<and> (isl rg \<longrightarrow> sg = s\<lparr>world := world sg\<rparr>) \<and> (isl rv \<longrightarrow> sv = s\<lparr>world := world sv\<rparr>)"
proof -
  obtain r c where p: "ensure_probe (world s) = (r, c)" by force
  note probe = ensure_probe_run [OF assms(1) p]
  note defs = op_defs on_client_def register_def lmots_keygen_backend_set_def lmots_sign_backend_set_def
    lmots_sign_randomizer_backend_set_def lmots_verify_backend_set_def lmots_verify_chain_backend_set_def ready_def
  have "(rk = Inr () \<longrightarrow> ready (world sk) \<and> key = 0 \<and> capabilities (world sk) AND CAP_LMOTS_KEYGEN \<noteq> 0
      \<and> keygen_backend sk = Some lmots_mmio_keygen) \<and> (isl rk \<longrightarrow> sk = s\<lparr>world := world sk\<rparr>)"
    using k probe(2,3) p by (cases r) (auto simp: lms_mmio_lmots_keygen_enable_def defs split: if_splits)
  moreover have "(rg = Inr () \<longrightarrow> ready (world sg) \<and> key = 0
      \<and> capabilities (world sg) AND (CAP_DERIVE_CHAIN OR CAP_LMOTS_SIGN) = CAP_DERIVE_CHAIN OR CAP_LMOTS_SIGN
      \<and> sign_backend sg = Some lmots_mmio_sign \<and> sign_randomizer_backend sg = Some lmots_mmio_randomizer)
      \<and> (isl rg \<longrightarrow> sg = s\<lparr>world := world sg\<rparr>)"
    using g probe(2,3) p by (cases r) (auto simp: lms_mmio_lmots_sign_enable_def defs split: if_splits)
  moreover have "(rv = Inr () \<longrightarrow> ready (world sv) \<and> \<not> (capabilities (world sv) AND (CAP_CHAIN OR CAP_LMOTS_VERIFY) = 0)
      \<and> (if capabilities (world sv) AND CAP_LMOTS_VERIFY \<noteq> 0 then verify_backend sv = Some lmots_mmio_verify
         else verify_chain_backend sv = Some lmots_mmio_chain)) \<and> (isl rv \<longrightarrow> sv = s\<lparr>world := world sv\<rparr>)"
  proof (cases "allow_fallback (world s)")
    case True
    then have "sv = s" "isl rv" using v verify_enable_run [OF p] by auto
    then show ?thesis by auto
  next
    case F: False
    show ?thesis
    proof (cases r)
      case (Inl e)
      then have "sv = s\<lparr>world := c\<rparr>" "isl rv" using v verify_enable_run [OF p] F by auto
      then show ?thesis by auto
    next
      case (Inr u)
      then have c: "ready c" using probe(2,3) F by (auto simp: ready_def)
      note run = verify_enable_run [OF p, unfolded v Inr sum.case if_not_P [OF F]]
      show ?thesis
        by (cases "capabilities c AND (CAP_CHAIN OR CAP_LMOTS_VERIFY) = 0"; cases "capabilities c AND CAP_LMOTS_VERIFY = 0")
          (use run c in simp_all)
    qed
  qed
  moreover have "\<not> (x AND (CAP_CHAIN OR CAP_LMOTS_VERIFY) = 0) \<Longrightarrow> x AND CAP_LMOTS_VERIFY = 0 \<Longrightarrow> x AND CAP_CHAIN \<noteq> 0" for x
    using bit.conj_disj_distrib [of x CAP_CHAIN CAP_LMOTS_VERIFY] by simp
  ultimately show ?thesis by presburger
qed

text \<open>A library with no accelerators registered yet, and a client as its world.\<close>

definition mmio_test_lib :: "u32 \<Rightarrow> unit lms_mmio_client_t lms_lib" where
  "mmio_test_lib caps = \<lparr>s_lms_cache = None, s_lmots_cache = None, haraka_initialized = False,
     tweaked512_rc64 = [], malloc_limit = 0, stack_tail = [0, 0], chain_stats = \<lparr>st_calls = 0, st_steps = 0\<rparr>,
     keygen_chain_backend = None, verify_chain_backend = None, sign_chain_backend = None, keygen_derive_backend = None,
     keygen_backend = None, sign_backend = None, verify_backend = None, verify_leaf_backend = None,
     sign_derive_backend = None, sign_randomizer_backend = None, intr_backend = None, message_hash_backend = None,
     coef_backend = None, auth_path_backend = None, verify_authpath_backend = None, world = test_client caps False\<rparr>"

text \<open>An instance: a device with chain and verify but no keygen and sign commands.\<close>

theorem enable_registers_witness:
  "keygen_backend (snd (lms_mmio_lmots_keygen_enable 0 (mmio_test_lib 0x84))) = None
   \<and> sign_backend (snd (lms_mmio_lmots_sign_enable 0 (mmio_test_lib 0x84))) = None
   \<and> verify_backend (snd (lms_mmio_lmots_verify_enable (mmio_test_lib 0x84))) = Some lmots_mmio_verify"
proof -
  let ?s = "mmio_test_lib 0x84"
  have p: "ensure_probe (world ?s) = (Inr (), world ?s)"
    by (simp add: ensure_probe_def bind_look ret_def mmio_test_lib_def test_client_def)
  have caps: "capabilities (world ?s) = 0x84" "allow_fallback (world ?s) = False" "client_ok (world ?s)"
    by (simp_all add: mmio_test_lib_def test_client_def client_ok_def)
  obtain rk sk rg sg rv sv where runs: "lms_mmio_lmots_keygen_enable 0 ?s = (rk, sk)"
    "lms_mmio_lmots_sign_enable 0 ?s = (rg, sg)" "lms_mmio_lmots_verify_enable ?s = (rv, sv)" by (metis surj_pair)
  have "isl rk" "isl rg" "rv = Inr ()" "capabilities (world sv) = 0x84"
    using runs p caps verify_enable_run [OF p]
    by (auto simp: lms_mmio_lmots_keygen_enable_def lms_mmio_lmots_sign_enable_def on_client_def op_defs)
  then have sk: "sk = ?s\<lparr>world := world sk\<rparr>" and sg: "sg = ?s\<lparr>world := world sg\<rparr>"
    and sv: "verify_backend sv = Some lmots_mmio_verify"
    using enable_registers [OF caps(3) runs] by simp_all
  have "keygen_backend sk = keygen_backend ?s" "sign_backend sg = sign_backend ?s"
    using arg_cong [OF sk, of keygen_backend] arg_cong [OF sg, of sign_backend] by simp_all
  then show ?thesis unfolding runs snd_conv using sv by (simp add: mmio_test_lib_def)
qed

section \<open>An access through a missing descriptor\<close>



end
