(* ===== verification/Firmware_Cache.thy ===== *)
theory Firmware_Cache
  imports Lms_Subtree Lms_Api Lms_Mmio
begin

text \<open>
  The tree caches of the firmware, \<open>fw/lms_soc_smoke.c\<close>: a static arena with an allocator that can take back
  only the last block, and \<open>tree_cache_ensure\<close>, which binds the cache to a key by its fingerprint. There are
  two builds: the cooperative one, with hardware callbacks and a second cache for the secure commands
  in the same arena, and the software one.

  A registered authentication-path backend is \<open>lms_subtree_auth_path_backend\<close> on the context; since it runs
  library code, the model keeps the registration as a flag of the firmware. The contents of a
  buffer belong to the context that allocated it, and addresses are offsets in the arena: two contexts on
  one arena do not overwrite each other here, but they show the same addresses.
\<close>

section \<open>The arena\<close>

record tree_pool =
  arena_used :: u32
  pool_last_ptr :: "nat option"
  pool_last_size :: u32

text \<open>\<open>sizeof(s_tree_arena)\<close>: three sublevels and 16 KiB.\<close>

definition TREE_ARENA_SIZE :: u32 where "TREE_ARENA_SIZE = 16648"
definition TREE_MEMORY_TARGET :: u64 where "TREE_MEMORY_TARGET = 12288"

definition tree_pool_alloc :: "tree_pool tree_alloc_fn" where
  "tree_pool_alloc len p =
     (let aligned = (word_of_nat len + 3) AND NOT 3
      in if arena_used p + aligned > TREE_ARENA_SIZE then (None, p)
         else (Some (unat (arena_used p)),
               p\<lparr>arena_used := arena_used p + aligned, pool_last_ptr := Some (unat (arena_used p)), pool_last_size := aligned\<rparr>))"

definition tree_pool_free :: "tree_pool tree_free_fn" where
  "tree_pool_free ptr p =
     (if pool_last_ptr p = Some ptr
      then p\<lparr>arena_used := arena_used p - pool_last_size p, pool_last_ptr := None, pool_last_size := 0\<rparr>
      else p)"

definition tree_pool_reset :: "tree_pool \<Rightarrow> tree_pool" where
  "tree_pool_reset p = p\<lparr>arena_used := 0, pool_last_ptr := None, pool_last_size := 0\<rparr>"

text \<open>The software build has the same three functions on its own arena.\<close>

definition sw_pool_alloc :: "tree_pool tree_alloc_fn" where "sw_pool_alloc = tree_pool_alloc"
definition sw_pool_free :: "tree_pool tree_free_fn" where "sw_pool_free = tree_pool_free"
definition sw_pool_reset :: "tree_pool \<Rightarrow> tree_pool" where "sw_pool_reset = tree_pool_reset"

section \<open>Fingerprints\<close>

definition tree_fingerprint :: "lms_private_key_t \<Rightarrow> bytes" where
  "tree_fingerprint priv = priv_I priv @ priv_seed priv @ lms_store_u32 (priv_lms_type priv) @ lms_store_u32 (priv_lmots_type priv)"

definition sec_tree_fingerprint :: "lms_private_key_t \<Rightarrow> bytes" where
  "sec_tree_fingerprint priv = priv_I priv @ lms_store_u32 (priv_lms_type priv) @ lms_store_u32 (priv_lmots_type priv)"

text \<open>The check of a configuration against the arena.\<close>

definition fits_arena :: "lms_tree_config_t \<Rightarrow> bool" where
  "fits_arena cfg \<longleftrightarrow> cfg_subtree_size cfg = 5
     \<and> \<not> cfg_est_memory cfg + ucast (cfg_sublevels cfg) * word_of_nat LMS_SUBLEVEL_SIZE > ucast TREE_ARENA_SIZE"

section \<open>The software build\<close>

record 'w sw_fw =
  sw_lib :: "'w lms_lib"
  s_sw_tree_ctx :: "('w, tree_pool) lms_tree_ctx_t"
  s_sw_pool :: tree_pool
  s_sw_tree_fingerprint :: bytes
  s_sw_tree_valid :: bool
  sw_path_backend :: bool

type_synonym ('w, 'a) sw_op = "(lms_status_t, 'w sw_fw, 'a) op"

definition on_sw_tree :: "('w, tree_pool, 'a) top \<Rightarrow> ('w, 'a) sw_op" where
  "on_sw_tree f = (\<lambda>s. case f \<lparr>t_lib = sw_lib s, t_ctx = s_sw_tree_ctx s, t_mem = s_sw_pool s\<rparr> of
     (r, st) \<Rightarrow> (r, s\<lparr>sw_lib := t_lib st, s_sw_tree_ctx := t_ctx st, s_sw_pool := t_mem st\<rparr>))"

definition on_sw_lib :: "('w, 'a) lop \<Rightarrow> ('w, 'a) sw_op" where
  "on_sw_lib f = (\<lambda>s. case f (sw_lib s) of (r, l) \<Rightarrow> (r, s\<lparr>sw_lib := l\<rparr>))"

definition sw_set_backend :: "bool \<Rightarrow> ('w, unit) sw_op" where
  "sw_set_backend b = andthen (on_sw_lib (lms_auth_path_backend_set None)) (modify (\<lambda>s. s\<lparr>sw_path_backend := b\<rparr>))"

text \<open>\<open>tree_cache_ensure\<close> of the software build, \<open>True\<close> for 1, and its last part, which builds the tree in the empty arena.\<close>

definition sw_tree_build :: "lms_private_key_t \<Rightarrow> lms_tree_config_t \<Rightarrow> ('w, bool) sw_op" where
  "sw_tree_build priv cfg =
     andthen (modify (\<lambda>s. s\<lparr>s_sw_pool := sw_pool_reset (s_sw_pool s)\<rparr>))
     (bind (attempt (on_sw_tree (lms_tree_ctx_init cfg (priv_I priv) None sw_pool_alloc sw_pool_free))) (\<lambda>r. case r of
        Inl _ \<Rightarrow> ret False
      | Inr _ \<Rightarrow>
          bind (attempt (on_sw_tree (lms_tree_sign_init priv))) (\<lambda>r. case r of
            Inl _ \<Rightarrow> andthen (on_sw_tree lms_tree_ctx_free) (andthen (modify (\<lambda>s. s\<lparr>s_sw_tree_valid := False\<rparr>)) (ret False))
          | Inr _ \<Rightarrow> andthen (modify (\<lambda>s. s\<lparr>s_sw_tree_fingerprint := tree_fingerprint priv, s_sw_tree_valid := True\<rparr>))
              (andthen (sw_set_backend True) (ret True)))))"

definition sw_tree_cache_ensure :: "lms_private_key_t \<Rightarrow> ('w, bool) sw_op" where
  "sw_tree_cache_ensure priv =
     bind (look (\<lambda>s. s_sw_tree_valid s \<and> s_sw_tree_fingerprint s = tree_fingerprint priv)) (\<lambda>hit.
     if hit then ret True
     else andthen (sw_set_backend False)
       (andthen (on_sw_tree lms_tree_ctx_free)
       (andthen (modify (\<lambda>s. s\<lparr>s_sw_tree_valid := False\<rparr>))
       (bind (attempt (on_sw_lib (lms_tree_configure (priv_lms_type priv) TREE_MEMORY_TARGET))) (\<lambda>r. case r of
          Inl _ \<Rightarrow> ret False
        | Inr cfg \<Rightarrow>
            if \<not> fits_arena cfg then ret False else sw_tree_build priv cfg)))))"

text \<open>What a signature takes from the cache: \<open>sign_from_uart\<close> ignores the result of \<open>tree_cache_ensure\<close>, and
  \<open>lms_do_sign\<close> asks the registered backend or recomputes the siblings.\<close>

definition sw_sign_path :: "lms_private_key_t \<Rightarrow> ('w, bytes) sw_op" where
  "sw_sign_path priv =
     andthen (sw_tree_cache_ensure priv)
     (bind (look sw_path_backend) (\<lambda>b.
      if b then or_fail LMS_ERR_INVALID (on_sw_tree (lms_subtree_auth_path_backend priv (priv_q priv)))
      else bind (or_fail LMS_ERR_INVALID (on_sw_lib (lms_get_lms_param (priv_lms_type priv)))) (\<lambda>param.
           on_sw_lib (lms_default_path (lp_height param) priv (push_bit (lp_height param) 1 + priv_q priv)))))"

text \<open>The public key of \<open>keygen_from_uart\<close>: the root comes from the top subtree of the cache when there is one.\<close>

definition sw_keygen :: "lms_private_key_t \<Rightarrow> ('w, lms_public_key_t) sw_op" where
  "sw_keygen priv =
     bind (sw_tree_cache_ensure priv) (\<lambda>ok.
     if ok then bind (look (\<lambda>s. slots (sub_nodes (get_sub (ctx_sublevels (s_sw_tree_ctx s) - 1) Active (s_sw_tree_ctx s))) ! 1)) (\<lambda>root.
          ret \<lparr>pub_lms_type = priv_lms_type priv, pub_lmots_type = priv_lmots_type priv, pub_I = priv_I priv, pub_root = root\<rparr>)
     else on_sw_lib (lms_public_key_generate priv))"

section \<open>The cooperative build\<close>

text \<open>The leaf and node callbacks of the hardware. The client \<open>verify_client\<close> is the world of the library.\<close>

definition lmots_hw_supported :: "u32 \<Rightarrow> ('w, bool) lop" where
  "lmots_hw_supported lmots_type =
     bind (attempt (lms_get_lmots_param lmots_type)) (\<lambda>r. case r of
       Inl _ \<Rightarrow> ret False
     | Inr param \<Rightarrow> ret (op_w param = 1 \<or> op_w param = 2 \<or> op_w param = 4 \<or> op_w param = 8))"

definition mmio_ok :: "('h, 'a \<times> u32) mop \<Rightarrow> ('h lms_mmio_client_t, 'a) callback" where
  "mmio_ok m = (\<lambda>c. case m c of (Inl _, c') \<Rightarrow> (Inl LMS_ERR_INVALID, c') | (Inr (x, _), c') \<Rightarrow> (Inr x, c'))"

definition hw_keygen_leaf :: "'h lms_mmio_client_t ots_pub_fn" where
  "hw_keygen_leaf priv q =
     bind (or_fail LMS_ERR_INVALID (lms_get_lms_param (priv_lms_type priv))) (\<lambda>lparam.
     let node_num = push_bit (lp_height lparam) 1 + q
     in on_world (mmio_ok (lms_mmio_lmots_keygen_leaf 0 (priv_I priv) q node_num (priv_lmots_type priv))))"

definition hw_intr_backend :: "'h lms_mmio_client_t lms_intr_backend_fn" where
  "hw_intr_backend I hash_alg node_num left right =
     mmio_ok (lms_mmio_hash_once (I @ lms_store_u32 node_num @ lms_store_u16 D_INTR @ left @ right))"

record 'h hw_fw =
  hw_lib :: "'h lms_mmio_client_t lms_lib"
  s_tree_pool :: tree_pool
  s_tree_ctx :: "('h lms_mmio_client_t, tree_pool) lms_tree_ctx_t"
  s_tree_key_fingerprint :: bytes
  s_tree_cache_valid :: bool
  hw_path_backend :: bool
  s_sec_tree_ctx :: "('h lms_mmio_client_t, tree_pool) lms_tree_ctx_t"
  s_sec_tree_fingerprint :: bytes
  s_sec_tree_valid :: bool

type_synonym ('h, 'a) hw_op = "(lms_status_t, 'h hw_fw, 'a) op"

definition on_hw_lib :: "('h lms_mmio_client_t, 'a) lop \<Rightarrow> ('h, 'a) hw_op" where
  "on_hw_lib f = (\<lambda>s. case f (hw_lib s) of (r, l) \<Rightarrow> (r, s\<lparr>hw_lib := l\<rparr>))"

definition on_tree :: "('h lms_mmio_client_t, tree_pool, 'a) top \<Rightarrow> ('h, 'a) hw_op" where
  "on_tree f = (\<lambda>s. case f \<lparr>t_lib = hw_lib s, t_ctx = s_tree_ctx s, t_mem = s_tree_pool s\<rparr> of
     (r, st) \<Rightarrow> (r, s\<lparr>hw_lib := t_lib st, s_tree_ctx := t_ctx st, s_tree_pool := t_mem st\<rparr>))"

definition on_sec_tree :: "('h lms_mmio_client_t, tree_pool, 'a) top \<Rightarrow> ('h, 'a) hw_op" where
  "on_sec_tree f = (\<lambda>s. case f \<lparr>t_lib = hw_lib s, t_ctx = s_sec_tree_ctx s, t_mem = s_tree_pool s\<rparr> of
     (r, st) \<Rightarrow> (r, s\<lparr>hw_lib := t_lib st, s_sec_tree_ctx := t_ctx st, s_tree_pool := t_mem st\<rparr>))"

definition hw_set_backend :: "bool \<Rightarrow> ('h, unit) hw_op" where
  "hw_set_backend b = andthen (on_hw_lib (lms_auth_path_backend_set None)) (modify (\<lambda>s. s\<lparr>hw_path_backend := b\<rparr>))"

definition tree_cache_invalidate :: "('h, unit) hw_op" where
  "tree_cache_invalidate = andthen (hw_set_backend False) (andthen (on_tree lms_tree_ctx_free) (modify (\<lambda>s. s\<lparr>s_tree_cache_valid := False\<rparr>)))"

definition tree_cache_hit :: "lms_private_key_t \<Rightarrow> 'h hw_fw \<Rightarrow> bool" where
  "tree_cache_hit priv s \<longleftrightarrow> s_tree_cache_valid s \<and> s_tree_key_fingerprint s = tree_fingerprint priv"

definition tree_cache_ensure :: "lms_private_key_t \<Rightarrow> ('h, bool) hw_op" where
  "tree_cache_ensure priv =
     bind (look (\<lambda>s. s_tree_cache_valid s \<and> s_tree_key_fingerprint s = tree_fingerprint priv)) (\<lambda>hit.
     if hit then ret True
     else andthen tree_cache_invalidate
       (bind (attempt (on_hw_lib (lms_tree_configure (priv_lms_type priv) TREE_MEMORY_TARGET))) (\<lambda>r. case r of
          Inl _ \<Rightarrow> ret False
        | Inr cfg \<Rightarrow>
            if \<not> fits_arena cfg then ret False
            else andthen (modify (\<lambda>s. s\<lparr>s_tree_pool := tree_pool_reset (s_tree_pool s)\<rparr>))
              (bind (attempt (on_tree (lms_tree_ctx_init cfg (priv_I priv) None tree_pool_alloc tree_pool_free))) (\<lambda>r. case r of
                 Inl _ \<Rightarrow> ret False
               | Inr _ \<Rightarrow>
                   bind (on_hw_lib (lmots_hw_supported (priv_lmots_type priv))) (\<lambda>supported.
                   andthen (if supported then on_tree (lms_subtree_set_leaf_fn (Some hw_keygen_leaf)) else ret ())
                   (andthen (on_hw_lib (lms_intr_backend_set (Some hw_intr_backend)))
                   (bind (attempt (on_tree (lms_tree_sign_init priv))) (\<lambda>r. case r of
                     Inl _ \<Rightarrow> andthen tree_cache_invalidate (ret False)
                   | Inr _ \<Rightarrow> andthen (modify (\<lambda>s. s\<lparr>s_tree_key_fingerprint := tree_fingerprint priv, s_tree_cache_valid := True\<rparr>))
                       (andthen (hw_set_backend True) (ret True)))))))))))"

definition sec_tree_cache_invalidate :: "('h, unit) hw_op" where
  "sec_tree_cache_invalidate = andthen (on_sec_tree lms_tree_ctx_free) (modify (\<lambda>s. s\<lparr>s_sec_tree_valid := False\<rparr>))"

definition sec_tree_cache_ensure :: "lms_private_key_t \<Rightarrow> ('h, bool) hw_op" where
  "sec_tree_cache_ensure priv =
     bind (look (\<lambda>s. s_sec_tree_valid s \<and> s_sec_tree_fingerprint s = sec_tree_fingerprint priv)) (\<lambda>hit.
     if hit then ret True
     else andthen sec_tree_cache_invalidate
       (bind (attempt (on_hw_lib (lms_tree_configure (priv_lms_type priv) TREE_MEMORY_TARGET))) (\<lambda>r. case r of
          Inl _ \<Rightarrow> ret False
        | Inr cfg \<Rightarrow>
            if \<not> fits_arena cfg then ret False
            else andthen (modify (\<lambda>s. s\<lparr>s_tree_pool := tree_pool_reset (s_tree_pool s)\<rparr>))
              (bind (attempt (on_sec_tree (lms_tree_ctx_init cfg (priv_I priv) None tree_pool_alloc tree_pool_free))) (\<lambda>r. case r of
                 Inl _ \<Rightarrow> ret False
               | Inr _ \<Rightarrow>
                   bind (on_hw_lib (lmots_hw_supported (priv_lmots_type priv))) (\<lambda>supported.
                   if \<not> supported then andthen sec_tree_cache_invalidate (ret False)
                   else andthen (on_sec_tree (lms_subtree_set_leaf_fn (Some hw_keygen_leaf)))
                   (andthen (on_hw_lib (lms_intr_backend_set (Some hw_intr_backend)))
                   (bind (attempt (on_sec_tree (lms_tree_sign_init priv))) (\<lambda>r. case r of
                     Inl _ \<Rightarrow> andthen sec_tree_cache_invalidate (ret False)
                   | Inr _ \<Rightarrow> andthen (modify (\<lambda>s. s\<lparr>s_sec_tree_fingerprint := sec_tree_fingerprint priv, s_sec_tree_valid := True\<rparr>))
                       (ret True))))))))))"

end
