(* ===== verification/Op_Triples.thy ===== *)
theory Op_Triples
  imports Prelude
begin

text \<open>
  Triples for operations whose state changes shape as they go, which the invariants of \<open>yields\<close> do
  not follow: \<open>runs fl P m Q\<close> says that started in a state of \<open>P\<close>, \<open>m\<close> returns a value and a state
  of \<open>Q\<close>, or, where \<open>fl\<close> allows the environment to fail, an error.
\<close>

definition runs :: "bool \<Rightarrow> ('s \<Rightarrow> bool) \<Rightarrow> ('e, 's, 'a) op \<Rightarrow> ('a \<Rightarrow> 's \<Rightarrow> bool) \<Rightarrow> bool" where
  "runs fl P m Q \<longleftrightarrow> (\<forall>s. P s \<longrightarrow> (case m s of (Inl _, _) \<Rightarrow> fl | (Inr x, s') \<Rightarrow> Q x s'))"

lemma runsI: "(\<And>s. P s \<Longrightarrow> case m s of (Inl _, _) \<Rightarrow> fl | (Inr x, s') \<Rightarrow> Q x s') \<Longrightarrow> runs fl P m Q"
  by (simp add: runs_def)

lemma runs_success:
  assumes "runs fl P m Q" and "\<not> fl" and "P s"
  obtains x s' where "m s = (Inr x, s')" "Q x s'"
proof (cases "m s")
  case (Pair r s')
  then show thesis using assms that by (cases r) (fastforce simp: runs_def)+
qed

lemma runs_result: "runs fl P m Q \<Longrightarrow> P s \<Longrightarrow> m s = (Inr x, s') \<Longrightarrow> Q x s'"
  by (fastforce simp: runs_def)

lemma runs_pre: "runs fl P m Q \<Longrightarrow> (\<And>s. P' s \<Longrightarrow> P s) \<Longrightarrow> runs fl P' m Q"
  by (simp add: runs_def)

lemma runs_post: "runs fl P m Q \<Longrightarrow> (\<And>x s. Q x s \<Longrightarrow> Q' x s) \<Longrightarrow> runs fl P m Q'"
  by (fastforce simp: runs_def split: prod.splits sum.splits)

lemma runs_conseq: "runs fl P m Q \<Longrightarrow> (\<And>s. P' s \<Longrightarrow> P s) \<Longrightarrow> (\<And>x s. Q x s \<Longrightarrow> Q' x s) \<Longrightarrow> runs fl P' m Q'"
  by (blast intro: runs_pre runs_post)

lemma runs_gen: "(\<And>s. P s \<Longrightarrow> runs fl (\<lambda>t. t = s) m Q) \<Longrightarrow> runs fl P m Q"
  by (simp add: runs_def)

lemma runs_fact: "(A \<Longrightarrow> runs fl P m Q) \<Longrightarrow> runs fl (\<lambda>s. A \<and> P s) m Q"
  by (simp add: runs_def)

lemma runs_ex:
  assumes "\<And>x. runs fl (P x) m Q"
  shows "runs fl (\<lambda>s. \<exists>x. P x s) m Q"
proof (rule runsI, elim exE)
  fix s x assume "P x s"
  then show "case m s of (Inl _, _) \<Rightarrow> fl | (Inr y, s') \<Rightarrow> Q y s'" using assms [of x] by (simp add: runs_def)
qed

lemma runs_ret: "(\<And>s. P s \<Longrightarrow> Q x s) \<Longrightarrow> runs fl P (ret x) Q"
  by (simp add: runs_def op_defs)

lemma runs_look: "(\<And>s. P s \<Longrightarrow> Q (g s) s) \<Longrightarrow> runs fl P (look g) Q"
  by (simp add: runs_def op_defs)

lemma runs_modify: "(\<And>s. P s \<Longrightarrow> Q () (g s)) \<Longrightarrow> runs fl P (modify g) Q"
  by (simp add: runs_def op_defs)

lemma runs_reject: "(\<And>s. P s \<Longrightarrow> \<not> b) \<Longrightarrow> (\<And>s. P s \<Longrightarrow> Q () s) \<Longrightarrow> runs fl P (reject_if b e) Q"
  by (auto simp: runs_def op_defs)

lemma runs_fail: "fl \<Longrightarrow> runs fl P (fail e) Q"
  by (simp add: runs_def op_defs)

lemma runs_bind:
  assumes "runs fl P m R" and "\<And>x. runs fl (R x) (f x) Q"
  shows "runs fl P (bind m f) Q"
proof (rule runsI)
  fix s assume s: "P s"
  obtain r s' where m: "m s = (r, s')" by force
  show "case bind m f s of (Inl _, _) \<Rightarrow> fl | (Inr x, s') \<Rightarrow> Q x s'"
  proof (cases r)
    case (Inl e)
    then show ?thesis using assms(1) s m by (auto simp: runs_def bind_def)
  next
    case (Inr x)
    then have "R x s'" using assms(1) s m by (fastforce simp: runs_def)
    then show ?thesis using assms(2) [of x] m Inr by (simp add: runs_def bind_def)
  qed
qed

lemma runs_bind_look: "(\<And>s. P s \<Longrightarrow> runs fl (\<lambda>t. t = s) (f (g s)) Q) \<Longrightarrow> runs fl P (bind (look g) f) Q"
  by (simp add: runs_def op_defs)

lemma runs_andthen: "runs fl P m (\<lambda>_. R) \<Longrightarrow> runs fl R k Q \<Longrightarrow> runs fl P (andthen m k) Q"
  unfolding andthen_def by (rule runs_bind)

lemma runs_guard: "(\<And>s. P s \<Longrightarrow> \<not> b) \<Longrightarrow> runs fl P k Q \<Longrightarrow> runs fl P (andthen (reject_if b e) k) Q"
  by (rule runs_andthen [OF runs_reject])

lemma runs_or_fail: "runs fl P m Q \<Longrightarrow> runs fl P (or_fail e m) Q"
  by (fastforce simp: runs_def or_fail_def split: prod.splits sum.splits)

lemma runs_for_each:
  assumes "\<And>i. m \<le> i \<Longrightarrow> i < n \<Longrightarrow> runs fl (P i) (f i) (\<lambda>x s. x = g i \<and> P (Suc i) s)" and "m \<le> n"
  shows "runs fl (P m) (for_each f [m..<n]) (\<lambda>xs s. xs = map g [m..<n] \<and> P n s)"
  using assms
proof (induction "n - m" arbitrary: m)
  case 0
  then show ?case by (simp add: runs_ret)
next
  case (Suc d)
  then have lt: "m < n" by simp
  have rest: "runs fl (P (Suc m)) (for_each f [Suc m..<n]) (\<lambda>xs s. xs = map g [Suc m..<n] \<and> P n s)"
    using Suc.hyps(2) Suc.prems by (intro Suc.hyps(1)) simp_all
  show ?case unfolding upt_conv_Cons [OF lt] for_each.simps
    by (rule runs_bind [OF Suc.prems(1)], use lt in simp_all, rule runs_fact, rule runs_bind [OF rest])
      (rule runs_ret, simp)
qed

lemma runs_for_each_unit:
  assumes "\<And>i. m \<le> i \<Longrightarrow> i < n \<Longrightarrow> runs fl (P i) (f i) (\<lambda>_. P (Suc i))" and "m \<le> n"
  shows "runs fl (P m) (for_each f [m..<n]) (\<lambda>_. P n)"
  using assms
proof (induction "n - m" arbitrary: m)
  case 0
  then show ?case by (simp add: runs_ret)
next
  case (Suc d)
  then have lt: "m < n" by simp
  have rest: "runs fl (P (Suc m)) (for_each f [Suc m..<n]) (\<lambda>_. P n)"
    using Suc.hyps(2) Suc.prems by (intro Suc.hyps(1)) simp_all
  show ?case unfolding upt_conv_Cons [OF lt] for_each.simps
    by (rule runs_bind [OF Suc.prems(1)], use lt in simp_all, rule runs_bind [OF rest]) (rule runs_ret)
qed

lemma runs_fold_each:
  assumes "\<And>i a. m \<le> i \<Longrightarrow> i < n \<Longrightarrow> runs fl (P i a) (f i a) (P (Suc i))" and "m \<le> n"
  shows "runs fl (P m a) (fold_each f [m..<n] a) (P n)"
  using assms
proof (induction "n - m" arbitrary: m a)
  case 0
  then show ?case by (simp add: runs_ret)
next
  case (Suc d)
  then have lt: "m < n" by simp
  have rest: "runs fl (P (Suc m) a') (fold_each f [Suc m..<n] a') (P n)" for a'
    using Suc.hyps(2) Suc.prems by (intro Suc.hyps(1)) simp_all
  show ?case unfolding upt_conv_Cons [OF lt] fold_each.simps
    by (rule runs_bind [OF Suc.prems(1)], use lt in simp_all, rule rest)
qed

text \<open>A handler that runs only on failure, and a cleanup that runs on success and on failure.\<close>

lemma runs_unless_failed:
  assumes "runs fl P m (\<lambda>_. Q)"
  shows "runs fl P (bind (attempt m) (\<lambda>r. case r of Inr _ \<Rightarrow> ret () | Inl _ \<Rightarrow> andthen k (fail e))) (\<lambda>_. Q)"
proof (rule runsI)
  fix s assume s: "P s"
  obtain r s' where m: "m s = (r, s')" by force
  then have "case r of Inl _ \<Rightarrow> fl | Inr _ \<Rightarrow> Q s'" using assms s by (auto simp: runs_def split: sum.splits)
  then show "case bind (attempt m) (\<lambda>r. case r of Inr _ \<Rightarrow> ret () | Inl _ \<Rightarrow> andthen k (fail e)) s of
      (Inl _, _) \<Rightarrow> fl | (Inr x, s') \<Rightarrow> Q s'"
    by (cases r; cases "k s'") (auto simp: m op_defs split: sum.splits)
qed

lemma runs_finally:
  assumes "runs fl P m R" and "\<And>x. runs fl (R x) k (\<lambda>_. Q)"
  shows "runs fl P (bind (attempt m) (\<lambda>rc. andthen k (case rc of Inl e \<Rightarrow> fail e | Inr _ \<Rightarrow> ret ()))) (\<lambda>_. Q)"
proof (rule runsI)
  fix s assume s: "P s"
  obtain r s' where m: "m s = (r, s')" by force
  show "case bind (attempt m) (\<lambda>rc. andthen k (case rc of Inl e \<Rightarrow> fail e | Inr _ \<Rightarrow> ret ())) s of
      (Inl _, _) \<Rightarrow> fl | (Inr x, s') \<Rightarrow> Q s'"
  proof (cases r)
    case (Inl e)
    then have "fl" using assms(1) s m by (auto simp: runs_def)
    then show ?thesis using Inl m by (auto simp: op_defs split: prod.splits sum.splits)
  next
    case (Inr x)
    then have x: "R x s'" using assms(1) s m by (fastforce simp: runs_def)
    obtain r2 s2 where k: "k s' = (r2, s2)" by force
    show ?thesis using assms(2) [of x] x m k Inr by (cases r2) (fastforce simp: runs_def op_defs)+
  qed
qed

lemma runs_attempt:
  assumes "runs False P m Q"
  shows "runs fl P (attempt m) (\<lambda>r s. \<exists>x. r = Inr x \<and> Q x s)"
proof (rule runsI)
  fix s assume s: "P s"
  obtain x s' where "m s = (Inr x, s')" "Q x s'" by (rule runs_success [OF assms _ s]) simp
  then show "case attempt m s of (Inl _, _) \<Rightarrow> fl | (Inr r, s) \<Rightarrow> \<exists>x. r = Inr x \<and> Q x s" by (simp add: attempt_def)
qed

text \<open>Triples that also say where a failing operation leaves the state.\<close>

definition ends :: "('s \<Rightarrow> bool) \<Rightarrow> ('e, 's, 'a) op \<Rightarrow> ('a \<Rightarrow> 's \<Rightarrow> bool) \<Rightarrow> ('s \<Rightarrow> bool) \<Rightarrow> bool" where
  "ends P m Q E \<longleftrightarrow> (\<forall>s. P s \<longrightarrow> (case m s of (Inl _, s') \<Rightarrow> E s' | (Inr x, s') \<Rightarrow> Q x s'))"

abbreviation keeps :: "('s \<Rightarrow> bool) \<Rightarrow> ('e, 's, 'a) op \<Rightarrow> ('s \<Rightarrow> bool) \<Rightarrow> bool" where
  "keeps P m E \<equiv> ends P m (\<lambda>_. P) E"

named_theorems keeps_intros

lemma ends_bind:
  assumes "ends P m R E" and "\<And>x. ends (R x) (f x) Q E"
  shows "ends P (bind m f) Q E"
  unfolding ends_def
proof (intro allI impI)
  fix s assume "P s"
  then show "case bind m f s of (Inl _, s') \<Rightarrow> E s' | (Inr x, s') \<Rightarrow> Q x s'"
    using assms by (cases "m s"; cases "fst (m s)") (fastforce simp: ends_def bind_def)+
qed

lemma ends_andthen: "ends P m (\<lambda>_. R) E \<Longrightarrow> ends R k Q E \<Longrightarrow> ends P (andthen m k) Q E"
  unfolding andthen_def by (rule ends_bind)

lemma ends_conseq:
  "ends P m Q E \<Longrightarrow> (\<And>s. P' s \<Longrightarrow> P s) \<Longrightarrow> (\<And>x s. Q x s \<Longrightarrow> Q' x s) \<Longrightarrow> (\<And>s. E s \<Longrightarrow> E' s) \<Longrightarrow> ends P' m Q' E'"
  by (fastforce simp: ends_def split: prod.splits sum.splits)

lemma ends_snd: "ends P m (\<lambda>_. Q) Q \<Longrightarrow> P s \<Longrightarrow> Q (snd (m s))"
  by (cases "m s"; cases "fst (m s)") (fastforce simp: ends_def)+

lemma ends_ret: "(\<And>s. P s \<Longrightarrow> Q x s) \<Longrightarrow> ends P (ret x) Q E"
  by (simp add: ends_def op_defs)

lemma ends_modify: "(\<And>s. P s \<Longrightarrow> Q () (h s)) \<Longrightarrow> ends P (modify h) Q E"
  by (simp add: ends_def op_defs)

lemma ends_attempt: "ends P m Q E \<Longrightarrow> ends P (attempt m) (\<lambda>r s. case r of Inl _ \<Rightarrow> E s | Inr x \<Rightarrow> Q x s) E'"
  by (fastforce simp: ends_def attempt_def split: prod.splits sum.splits)

lemma keepsI: "(\<And>s. P s \<Longrightarrow> P (snd (m s))) \<Longrightarrow> (\<And>s. P s \<Longrightarrow> E s) \<Longrightarrow> keeps P m E"
  by (fastforce simp: ends_def split: prod.splits sum.splits)

lemma keeps_basic [keeps_intros]:
  "keeps P (ret x) E" "keeps P (look g) E" "(\<And>s. P s \<Longrightarrow> P (h s)) \<Longrightarrow> keeps P (modify h) E"
  "(\<And>s. P s \<Longrightarrow> E s) \<Longrightarrow> keeps P (fail e) E" "(\<And>s. P s \<Longrightarrow> E s) \<Longrightarrow> keeps P (reject_if b e) E"
  by (simp_all add: ends_def op_defs)

lemma keeps_bind [keeps_intros]: "keeps P m E \<Longrightarrow> (\<And>x. keeps P (f x) E) \<Longrightarrow> keeps P (bind m f) E"
  by (rule ends_bind)

lemma keeps_andthen [keeps_intros]: "keeps P m E \<Longrightarrow> keeps P k E \<Longrightarrow> keeps P (andthen m k) E"
  by (rule ends_andthen)

lemma keeps_attempt [keeps_intros]: "keeps P m P \<Longrightarrow> keeps P (attempt m) E"
  by (fastforce simp: ends_def attempt_def split: prod.splits sum.splits)

lemma keeps_or_fail [keeps_intros]: "keeps P m E \<Longrightarrow> keeps P (or_fail e m) E"
  by (fastforce simp: ends_def or_fail_def split: prod.splits sum.splits)

lemma keeps_for_each [keeps_intros]: "(\<And>i. keeps P (f i) E) \<Longrightarrow> keeps P (for_each f is) E"
  by (induction "is") (simp_all add: keeps_intros)

lemma keeps_fold_each [keeps_intros]: "(\<And>i a. keeps P (f i a) E) \<Longrightarrow> keeps P (fold_each f is a) E"
  by (induction "is" arbitrary: a) (simp_all add: keeps_intros)

end
