(* ===== verification/Subtree_Build.thy ===== *)
theory Subtree_Build
  imports Lms_Subtree Op_Triples
begin

text \<open>
  Building subtrees is right: the streaming construction \<open>lms_tree_add_next_node\<close> keeps every
  completed node and the stack of left siblings, so a finished subtree holds the nodes of the
  Merkle tree below its root.
\<close>

section \<open>Indices\<close>

text \<open>The node of the whole tree that the local index \<open>loc\<close> of a subtree with root \<open>g\<close> stands for.\<close>

definition glob :: "nat \<Rightarrow> nat \<Rightarrow> nat" where
  "glob g loc = g * 2 ^ local_depth 0 loc + (loc - 2 ^ local_depth 0 loc)"

lemma local_depth_rep: "k < 2 ^ d \<Longrightarrow> c \<le> d \<Longrightarrow> local_depth c (2 ^ d + k) = d"
proof (induction "d - c" arbitrary: c)
  case 0
  then show ?case by (simp add: local_depth.simps)
next
  case (Suc x)
  then have "(2 :: nat) ^ (c + 1) \<le> 2 ^ d" by (intro power_increasing) simp_all
  then have "2 ^ (c + 1) \<le> 2 ^ d + k" by (rule trans_le_add1)
  then show ?case using Suc by (subst local_depth.simps) simp
qed

lemma glob_rep: "k < 2 ^ d \<Longrightarrow> glob g (2 ^ d + k) = g * 2 ^ d + k"
  by (simp add: glob_def local_depth_rep)

lemma loc_rep:
  assumes "0 < (loc :: nat)"
  obtains d k where "loc = 2 ^ d + k" "k < 2 ^ d"
proof -
  obtain d where "2 ^ d \<le> loc" "loc < 2 ^ (d + 1)" using ex_power_ivl1 [of 2 loc] assms by auto
  then show thesis using that [of d "loc - 2 ^ d"] by simp
qed

lemma glob_1 [simp]: "glob g 1 = g" "glob g (Suc 0) = g"
  using glob_rep [of 0 0 g] by simp_all

lemma glob_double:
  assumes "0 < loc"
  shows "glob g (2 * loc) = 2 * glob g loc" and "glob g (2 * loc + 1) = 2 * glob g loc + 1"
proof -
  obtain d k where loc: "loc = 2 ^ d + k" "k < 2 ^ d" using assms by (rule loc_rep)
  have "2 * loc = 2 ^ Suc d + 2 * k" "2 * loc + 1 = 2 ^ Suc d + (2 * k + 1)" using loc by simp_all
  then show "glob g (2 * loc) = 2 * glob g loc" and "glob g (2 * loc + 1) = 2 * glob g loc + 1"
    using loc(2) glob_rep [of "2 * k" "Suc d" g] glob_rep [of "2 * k + 1" "Suc d" g] by (simp_all add: loc(1) glob_rep)
qed

lemma local_to_global:
  assumes "0 < loc" and "loc < 2 ^ Suc sub_h" and "sub_h \<le> root_level" and "root_level \<le> h"
  shows "subtree_local_to_global h sub_h root_level left_leaf loc =
    word_of_nat (glob (2 ^ (h - root_level) + left_leaf div 2 ^ sub_h) loc)"
proof -
  obtain d k where loc: "loc = 2 ^ d + k" "k < 2 ^ d" using assms(1) by (rule loc_rep)
  have "(2 :: nat) ^ d < 2 ^ Suc sub_h" using loc assms(2) by linarith
  then have "d \<le> sub_h" using power_strict_increasing_iff [of "2 :: nat" d "Suc sub_h"] by simp
  then have e: "h - (root_level - d) = h - root_level + d" using assms(3,4) by simp
  have d: "local_depth 0 loc = d" using loc by (simp add: local_depth_rep)
  have "subtree_local_to_global h sub_h root_level left_leaf loc =
      word_of_nat (2 ^ (h - root_level + d)) + (word_of_nat (left_leaf div 2 ^ sub_h * 2 ^ d) + word_of_nat k)"
    unfolding subtree_local_to_global_def Let_def d e by (simp add: loc(1) push_bit_of_1 push_bit_eq_mult drop_bit_eq_div)
  also have "\<dots> = word_of_nat (glob (2 ^ (h - root_level) + left_leaf div 2 ^ sub_h) loc)"
    unfolding loc(1) glob_rep [OF loc(2)] of_nat_add [symmetric] power_add by (simp only: add_mult_distrib add.assoc)
  finally show ?thesis .
qed

section \<open>Partly built subtrees\<close>

text \<open>A subtree of the tree of height \<open>h\<close> with root \<open>g\<close>, and its two buffers.\<close>

definition sub_geom :: "nat \<Rightarrow> nat \<Rightarrow> lms_subtree_t \<Rightarrow> bool" where
  "sub_geom h g sub \<longleftrightarrow> sub_tree_height sub = h \<and> 0 < sub_height sub \<and> sub_height sub \<le> sub_level sub \<and> sub_level sub \<le> h
     \<and> g = 2 ^ (h - sub_level sub) + sub_left_leaf sub div 2 ^ sub_height sub
     \<and> sub_left_leaf sub div 2 ^ sub_height sub < 2 ^ (h - sub_level sub)"

definition sub_bufs :: "lms_subtree_t \<Rightarrow> bool" where
  "sub_bufs sub \<longleftrightarrow> sub_nodes sub \<noteq> None \<and> length (slots (sub_nodes sub)) = 2 ^ Suc (sub_height sub)
     \<and> sub_stack sub \<noteq> None \<and> length (slots (sub_stack sub)) = sub_height sub"

text \<open>What building leaves alone: geometry and addresses.\<close>

definition sub_frame :: "lms_subtree_t \<Rightarrow> nat list \<times> nat option \<times> nat option" where
  "sub_frame sub = ([sub_height sub, sub_level sub, sub_levels_below sub, sub_tree_height sub, sub_left_leaf sub],
     map_option fst (sub_nodes sub), map_option fst (sub_stack sub))"

text \<open>After \<open>ci\<close> leaves: the nodes all of whose leaves have come, and for every 1 in \<open>ci\<close> the left
  sibling that waits at that height.\<close>

definition done_nodes :: "(nat \<Rightarrow> bytes) \<Rightarrow> nat \<Rightarrow> nat \<Rightarrow> lms_subtree_t \<Rightarrow> bool" where
  "done_nodes V g ci sub \<longleftrightarrow> (\<forall>i \<le> sub_height sub. \<forall>k. Suc k * 2 ^ i \<le> ci \<longrightarrow>
     slots (sub_nodes sub) ! (2 ^ (sub_height sub - i) + k) = V (glob g (2 ^ (sub_height sub - i) + k)))"

definition open_stack :: "(nat \<Rightarrow> bytes) \<Rightarrow> nat \<Rightarrow> nat \<Rightarrow> lms_subtree_t \<Rightarrow> bool" where
  "open_stack V g ci sub \<longleftrightarrow> (\<forall>i < sub_height sub. odd (ci div 2 ^ i) \<longrightarrow>
     slots (sub_stack sub) ! i = V (glob g (2 ^ (sub_height sub - i) + (ci div 2 ^ i - 1))))"

text \<open>While leaf \<open>ci\<close> is merged: its ancestors up to height \<open>i\<close> are in place.\<close>

definition chain_done :: "(nat \<Rightarrow> bytes) \<Rightarrow> nat \<Rightarrow> nat \<Rightarrow> nat \<Rightarrow> lms_subtree_t \<Rightarrow> bool" where
  "chain_done V g ci i sub \<longleftrightarrow> (\<forall>i' \<le> i.
     slots (sub_nodes sub) ! (2 ^ (sub_height sub - i') + ci div 2 ^ i') = V (glob g (2 ^ (sub_height sub - i') + ci div 2 ^ i')))"

lemma slots_put [simp]: "slots (put_slot i x b) = (slots b)[i := x]"
  by (cases b) (auto simp: slots_def put_slot_def)

lemma put_slot_None [simp]: "put_slot i x b = None \<longleftrightarrow> b = None"
  by (simp add: put_slot_def)

lemma fst_put_slot [simp]: "map_option fst (put_slot i x b) = map_option fst b"
  by (cases b) (auto simp: put_slot_def)

lemma put_fields [simp]:
  "sub_height (put_node i x sub) = sub_height sub" "sub_height (put_stack i x sub) = sub_height sub"
  "sub_nodes (put_node i x sub) = put_slot i x (sub_nodes sub)" "sub_stack (put_node i x sub) = sub_stack sub"
  "sub_nodes (put_stack i x sub) = sub_nodes sub" "sub_stack (put_stack i x sub) = put_slot i x (sub_stack sub)"
  "sub_current_index (put_node i x sub) = sub_current_index sub" "sub_current_index (put_stack i x sub) = sub_current_index sub"
  "sub_frame (put_node i x sub) = sub_frame sub" "sub_frame (put_stack i x sub) = sub_frame sub"
  "sub_bufs (put_node i x sub) = sub_bufs sub" "sub_bufs (put_stack i x sub) = sub_bufs sub"
  "sub_geom h g (put_node i x sub) = sub_geom h g sub" "sub_geom h g (put_stack i x sub) = sub_geom h g sub"
  by (simp_all add: put_node_def put_stack_def sub_frame_def sub_bufs_def sub_geom_def)

lemma index_fields [simp]:
  "sub_frame (sub\<lparr>sub_current_index := c\<rparr>) = sub_frame sub" "sub_bufs (sub\<lparr>sub_current_index := c\<rparr>) = sub_bufs sub"
  "sub_geom h g (sub\<lparr>sub_current_index := c\<rparr>) = sub_geom h g sub"
  "done_nodes V g ci (sub\<lparr>sub_current_index := c\<rparr>) = done_nodes V g ci sub"
  "open_stack V g ci (sub\<lparr>sub_current_index := c\<rparr>) = open_stack V g ci sub"
  by (simp_all add: sub_frame_def sub_bufs_def sub_geom_def done_nodes_def open_stack_def)

lemma node_in_range: "i \<le> sh \<Longrightarrow> k < 2 ^ (sh - i) \<Longrightarrow> 2 ^ (sh - i) + k < (2 :: nat) ^ Suc sh"
proof -
  assume "i \<le> sh" "k < 2 ^ (sh - i)"
  moreover have "(2 :: nat) ^ (sh - i) \<le> 2 ^ sh" by (intro power_increasing) simp_all
  ultimately show ?thesis unfolding power_Suc by linarith
qed

lemma nth_upd: "xs[i := x] ! j = (if i = j \<and> j < length xs then x else xs ! j)"
  by (cases "i = j") (auto simp: nth_list_update nth_list_update_neq list_update_beyond linorder_not_less)

lemma ancestor_in_range: "i \<le> sh \<Longrightarrow> ci < 2 ^ sh \<Longrightarrow> ci div 2 ^ i < (2 :: nat) ^ (sh - i)"
  by (rule less_mult_imp_div_less) (simp add: power_add [symmetric])

text \<open>Writing the right value to a node never hurts.\<close>

lemma put_node_keeps:
  "done_nodes V g ci sub \<Longrightarrow> done_nodes V g ci (put_node loc (V (glob g loc)) sub)"
  "open_stack V g ci (put_node loc v sub) = open_stack V g ci sub"
  "chain_done V g ci i sub \<Longrightarrow> chain_done V g ci i (put_node loc (V (glob g loc)) sub)"
  by (auto simp: done_nodes_def open_stack_def chain_done_def nth_upd)

lemma chain_done_Suc:
  assumes "chain_done V g ci i sub" and "sub_bufs sub" and "Suc i \<le> sub_height sub" and "ci < 2 ^ sub_height sub"
    and loc: "loc = 2 ^ (sub_height sub - Suc i) + ci div 2 ^ Suc i"
  shows "chain_done V g ci (Suc i) (put_node loc (V (glob g loc)) sub)"
proof -
  have "ci div 2 ^ Suc i < 2 ^ (sub_height sub - Suc i)"
    using assms(3,4) by (rule ancestor_in_range)
  then have "loc < length (slots (sub_nodes sub))"
    using node_in_range [OF assms(3)] assms(2) by (simp add: sub_bufs_def loc)
  then show ?thesis using assms(1) by (auto simp: chain_done_def le_Suc_eq nth_upd loc)
qed

lemma done_nodes_Suc:
  assumes "done_nodes V g ci sub" and "chain_done V g ci i sub" and ci: "Suc ci = Suc (ci div 2 ^ i) * 2 ^ i"
    and stop: "i = sub_height sub \<or> even (ci div 2 ^ i)"
  shows "done_nodes V g (Suc ci) sub"
  unfolding done_nodes_def
proof (intro allI impI)
  fix i' k assume i': "i' \<le> sub_height sub" and k: "Suc k * 2 ^ i' \<le> Suc ci"
  show "slots (sub_nodes sub) ! (2 ^ (sub_height sub - i') + k) = V (glob g (2 ^ (sub_height sub - i') + k))"
  proof (cases "Suc k * 2 ^ i' \<le> ci")
    case True
    then show ?thesis using assms(1) i' by (simp add: done_nodes_def)
  next
    case False
    then have eq: "Suc ci = Suc k * 2 ^ i'" using k by simp
    then have "Suc ci = 2 ^ i' + 2 ^ i' * k" "0 < (2 :: nat) ^ i'" by (simp_all add: mult.commute)
    then have "2 ^ i' * k \<le> ci" "ci < 2 ^ i' * Suc k" unfolding mult_Suc_right by linarith+
    then have kd: "ci div 2 ^ i' = k" by (rule div_nat_eqI)
    have "i' \<le> i"
    proof (rule ccontr)
      assume "\<not> i' \<le> i"
      then have "2 ^ Suc i dvd (2 :: nat) ^ i'" by (intro le_imp_power_dvd) simp
      then have "2 ^ Suc i dvd Suc (ci div 2 ^ i) * 2 ^ i" unfolding ci [symmetric] eq by (rule dvd_mult)
      then have "2 ^ i * 2 dvd 2 ^ i * Suc (ci div 2 ^ i)" by (simp only: power_Suc mult.commute)
      then have "even (Suc (ci div 2 ^ i))" by (simp only: nat_mult_dvd_cancel1 [OF zero_less_power [OF zero_less_numeral]])
      then show False using stop \<open>\<not> i' \<le> i\<close> i' by simp
    qed
    then show ?thesis using assms(2) kd by (auto simp: chain_done_def)
  qed
qed

lemma open_stack_Suc:
  assumes "open_stack V g ci sub" and "sub_bufs sub" and ci: "Suc ci = Suc (ci div 2 ^ i) * 2 ^ i"
    and i: "i < sub_height sub" and ev: "even (ci div 2 ^ i)"
  shows "open_stack V g (Suc ci) (put_stack i (V (glob g (2 ^ (sub_height sub - i) + ci div 2 ^ i))) sub)"
  unfolding open_stack_def
proof (intro allI impI)
  let ?sub = "put_stack i (V (glob g (2 ^ (sub_height sub - i) + ci div 2 ^ i))) sub"
  fix i' assume i': "i' < sub_height ?sub" and od: "odd (Suc ci div 2 ^ i')"
  have len: "length (slots (sub_stack sub)) = sub_height sub" using assms(2) by (simp add: sub_bufs_def)
  consider "i' < i" | "i' = i" | "i < i'" by linarith
  then show "slots (sub_stack ?sub) ! i' = V (glob g (2 ^ (sub_height ?sub - i') + (Suc ci div 2 ^ i' - 1)))"
  proof cases
    case 1
    then have "Suc ci = Suc (ci div 2 ^ i) * 2 ^ (i - i') * 2 ^ i'" unfolding mult.assoc power_add [symmetric] using ci by simp
    then have "Suc ci div 2 ^ i' = Suc (ci div 2 ^ i) * 2 ^ (i - i')" by (metis nonzero_mult_div_cancel_right power_not_zero zero_neq_numeral)
    then show ?thesis using od 1 by simp
  next
    case 2
    have "Suc ci div 2 ^ i = Suc (ci div 2 ^ i)" using ci by (metis nonzero_mult_div_cancel_right power_not_zero zero_neq_numeral)
    then show ?thesis using 2 i len by simp
  next
    case 3
    then have e: "i' = Suc i + (i' - Suc i)" by simp
    have "Suc ci div 2 ^ i = Suc (ci div 2 ^ i)" using ci by (metis nonzero_mult_div_cancel_right power_not_zero zero_neq_numeral)
    then have "Suc ci div 2 ^ i div 2 = ci div 2 ^ i div 2" using ev by simp
    then have "Suc ci div 2 ^ Suc i = ci div 2 ^ Suc i" by (metis div_mult2_eq power_Suc2)
    then have d: "Suc ci div 2 ^ i' = ci div 2 ^ i'" by (subst (1 2) e) (simp only: power_add div_mult2_eq)
    then show ?thesis using assms(1) od 3 i' by (simp add: open_stack_def)
  qed
qed

lemma open_stack_full: "Suc ci = 2 ^ sub_height sub \<Longrightarrow> open_stack V g (Suc ci) sub"
proof (unfold open_stack_def, intro allI impI)
  fix i assume "Suc ci = 2 ^ sub_height sub" "i < sub_height sub" "odd (Suc ci div 2 ^ i)"
  then have False by (simp add: power_diff [symmetric])
  then show "slots (sub_stack sub) ! i = V (glob g (2 ^ (sub_height sub - i) + (Suc ci div 2 ^ i - 1)))" ..
qed


text \<open>A complete subtree: all its nodes are nodes of the tree.\<close>

lemma done_nodes_complete:
  assumes "done_nodes V g (2 ^ sub_height sub) sub" and "0 < loc" and "loc < 2 ^ Suc (sub_height sub)"
  shows "slots (sub_nodes sub) ! loc = V (glob g loc)"
proof -
  let ?sh = "sub_height sub"
  obtain d k where loc: "loc = 2 ^ d + k" "k < 2 ^ d" using assms(2) by (rule loc_rep)
  have "(2 :: nat) ^ d < 2 ^ Suc ?sh" using loc assms(3) by linarith
  then have d: "d \<le> ?sh" using power_strict_increasing_iff [of "2 :: nat" d "Suc ?sh"] by simp
  have "Suc k * 2 ^ (?sh - d) \<le> 2 ^ d * 2 ^ (?sh - d)" using loc(2) by (intro mult_le_mono1) simp
  also have "\<dots> = 2 ^ ?sh" using d by (simp add: power_add [symmetric])
  finally have "slots (sub_nodes sub) ! (2 ^ (?sh - (?sh - d)) + k) = V (glob g (2 ^ (?sh - (?sh - d)) + k))"
    using assms(1) unfolding done_nodes_def by (metis diff_le_self)
  then show ?thesis using d loc(1) by simp
qed

section \<open>Merging a leaf\<close>

locale subtree_build = tree_library +
  fixes V :: "nat \<Rightarrow> bytes" and J :: bytes and alg :: lms_hash_alg_t and h :: nat
  assumes J16: "length J = 16" and V32: "length (V n) = 32" and h25: "h \<le> 25"
    and V_node: "0 < n \<Longrightarrow> n < 2 ^ h \<Longrightarrow> V n = lms_intr_hash alg J (word_of_nat n) (V (2 * n)) (V (2 * n + 1))"
begin

definition merging :: "nat \<Rightarrow> nat \<Rightarrow> nat \<Rightarrow> (nat list \<times> nat option \<times> nat option) \<Rightarrow> nat \<Rightarrow> 'a lms_lib \<times> lms_subtree_t \<Rightarrow> bool" where
  "merging g sh ci F c = (\<lambda>(l, sub). I l \<and> sub_frame sub = F \<and> sub_current_index sub = c \<and> sub_height sub = sh \<and> sub_geom h g sub
     \<and> sub_bufs sub \<and> done_nodes V g ci sub \<and> open_stack V g ci sub)"

lemma runs_sub_lib:
  assumes "gives fl I m (Inr x)"
  shows "runs fl (\<lambda>(l, sub). I l \<and> R sub) (sub_lib m) (\<lambda>y s. y = x \<and> (case s of (l, sub) \<Rightarrow> I l \<and> R sub))"
  using assms by (fastforce simp: runs_def gives_def yields_def sub_lib_def split: prod.splits sum.splits)

lemma runs_update_sub:
  assumes "\<And>l sub. P (l, sub) \<Longrightarrow> Q () (l, f sub)"
  shows "runs fl P (update_sub f) Q"
  unfolding update_sub_def by (rule runs_modify) (use assms in auto)

text \<open>A node of a subtree is an inner node of the tree.\<close>

lemma glob_inner:
  assumes "sub_geom h g sub" and "0 < loc" and "loc < 2 ^ sub_height sub"
  shows "0 < glob g loc" and "glob g loc < 2 ^ h"
proof -
  obtain d k where loc: "loc = 2 ^ d + k" "k < 2 ^ d" using assms(2) by (rule loc_rep)
  have "(2 :: nat) ^ d < 2 ^ sub_height sub" using loc assms(3) by linarith
  then have "d < sub_height sub" by (simp only: power_strict_increasing_iff)
  then have d: "Suc (h - sub_level sub) + d \<le> h" using assms(1) by (auto simp: sub_geom_def)
  have g: "0 < g" "Suc g \<le> 2 ^ Suc (h - sub_level sub)" using assms(1) by (auto simp: sub_geom_def)
  have "g * 2 ^ d + k < Suc g * 2 ^ d" using loc(2) by simp
  also have "\<dots> \<le> 2 ^ Suc (h - sub_level sub) * 2 ^ d" using g(2) by (rule mult_le_mono1)
  also have "\<dots> = 2 ^ (Suc (h - sub_level sub) + d)" by (simp only: power_add)
  also have "\<dots> \<le> 2 ^ h" using d by (rule power_increasing) simp
  finally show "glob g loc < 2 ^ h" using loc by (simp only: glob_rep)
  show "0 < glob g loc" using g(1) loc by (simp add: glob_rep)
qed

lemma gives_parent:
  assumes "sub_geom h g sub" and "0 < loc" and "loc < 2 ^ sub_height sub"
    and n: "n = subtree_local_to_global (sub_tree_height sub) (sub_height sub) (sub_level sub) (sub_left_leaf sub) loc"
  shows "gives fl I (lms_internal_node J alg n (V (glob g (2 * loc))) (V (glob g (2 * loc + 1)))) (Inr (V (glob g loc)))"
proof -
  have "n = word_of_nat (glob g loc)" unfolding n using assms(1-3)
    by (subst local_to_global) (auto simp: sub_geom_def)
  then show ?thesis
    using gives_internal_node [OF J16 V32 V32, of alg n] V_node [OF glob_inner [OF assms(1-3)]] glob_double [OF assms(2)] by simp
qed

lemma merging_full:
  assumes "merging g sh ci F c (l, sub)" and "chain_done V g ci sh sub" and "Suc ci = 2 ^ sh"
  shows "merging g sh (Suc ci) F c (l, sub)"
proof -
  have "ci div 2 ^ sh = 0" using assms(3) by (intro div_less) simp
  then show ?thesis using assms done_nodes_Suc [of V g ci sub sh] open_stack_full [of ci sub V g] by (auto simp: merging_def)
qed

lemma merging_stored:
  assumes "merging g sh ci F c (l, sub)" and "chain_done V g ci i sub" and "Suc ci = Suc (ci div 2 ^ i) * 2 ^ i"
    and "i < sh" and "even (ci div 2 ^ i)"
  shows "merging g sh (Suc ci) F c (l, put_stack i (V (glob g (2 ^ (sh - i) + ci div 2 ^ i))) sub)"
  using assms done_nodes_Suc [of V g ci sub i] open_stack_Suc [of V g ci sub i] by (auto simp: merging_def done_nodes_def)

lemma merging_parent:
  assumes "merging g sh ci F c (l, sub)" and "chain_done V g ci i sub" and "Suc i \<le> sh" and "ci < 2 ^ sh"
    and "loc = 2 ^ (sh - Suc i) + ci div 2 ^ Suc i"
  shows "merging g sh ci F c (l, put_node loc (V (glob g loc)) sub) \<and> chain_done V g ci (Suc i) (put_node loc (V (glob g loc)) sub)"
  using assms put_node_keeps(1) [of V g ci sub] put_node_keeps(2) [of V g ci loc _ sub] chain_done_Suc [of V g ci i sub loc] by (auto simp: merging_def)

lemma runs_merge_up:
  assumes "i \<le> sh" and "ci < 2 ^ sh" and "Suc ci = Suc (ci div 2 ^ i) * 2 ^ i"
    and "cur = V (glob g (2 ^ (sh - i) + ci div 2 ^ i))"
  shows "runs fl (\<lambda>(l, sub). merging g sh ci F c (l, sub) \<and> chain_done V g ci i sub) (merge_up J alg i (ci div 2 ^ i) cur)
    (\<lambda>_. merging g sh (Suc ci) F c)"
  using assms
proof (induction "sh - i" arbitrary: i cur)
  case 0
  then have i: "i = sh" and one: "2 ^ (sh - i) + ci div 2 ^ i = 1" by simp_all
  have full: "Suc ci = 2 ^ sh" using 0 i by simp
  show ?case
  proof (subst merge_up.simps, rule runs_bind_look, clarify)
    fix l sub assume m: "merging g sh ci F c (l, sub)" "chain_done V g ci i sub"
    then have sh: "sub_height sub = sh" by (simp add: merging_def)
    show "runs fl (\<lambda>t. t = (l, sub)) (let cur_local = 2 ^ (sub_height (snd (l, sub)) - i) + ci div 2 ^ i
         in if cur_local = 1 then ret () else k cur_local) (\<lambda>_. merging g sh (Suc ci) F c)" for k
      unfolding Let_def snd_conv sh one if_P [OF refl] by (rule runs_ret) (use merging_full m i full in simp)
  qed
next
  case (Suc r)
  let ?e = "ci div 2 ^ i"
  have i: "i < sh" "Suc i \<le> sh" "r = sh - Suc i" using Suc.hyps(2) by simp_all
  have pow: "(2 :: nat) ^ (sh - i) = 2 * 2 ^ (sh - Suc i)" using i(1) by (simp add: Suc_diff_Suc [symmetric])
  have "0 < (2 :: nat) ^ (sh - Suc i)" by simp
  then have no: "2 ^ (sh - i) + ?e \<noteq> 1" unfolding pow by linarith
  show ?case
  proof (cases "even ?e")
    case True
    show ?thesis
    proof (subst merge_up.simps, rule runs_bind_look, clarify)
      fix l sub assume m: "merging g sh ci F c (l, sub)" "chain_done V g ci i sub"
      then have sh: "sub_height sub = sh" by (simp add: merging_def)
      show "runs fl (\<lambda>t. t = (l, sub)) (let cur_local = 2 ^ (sub_height (snd (l, sub)) - i) + ?e
         in if cur_local = 1 then ret () else if even ?e then update_sub (put_stack i cur) else k cur_local) (\<lambda>_. merging g sh (Suc ci) F c)" for k
        unfolding Let_def snd_conv sh if_not_P [OF no] if_P [OF True]
        by (rule runs_update_sub) (use merging_stored [OF m Suc.prems(3) i(1) True] Suc.prems(4) in simp)
    qed
  next
    case False
    let ?p = "2 ^ (sh - Suc i) + ci div 2 ^ Suc i"
    have half: "?e div 2 = ci div 2 ^ Suc i" by (metis div_mult2_eq power_Suc2)
    then have e: "?e = 2 * (ci div 2 ^ Suc i) + 1" using False by (metis odd_two_times_div_two_succ)
    have p2: "2 * ?p = 2 ^ (sh - i) + (?e - 1)" "2 * ?p + 1 = 2 ^ (sh - i) + ?e" "(2 ^ (sh - i) + ?e) div 2 = ?p"
      unfolding pow half [symmetric] by (subst e, simp)+
    have "2 * 2 ^ (sh - Suc i) \<le> (2 :: nat) ^ sh" unfolding pow [symmetric] by (intro power_increasing) simp_all
    then have p: "0 < ?p" "?p < 2 ^ sh" using ancestor_in_range [OF i(2) Suc.prems(2)] by (simp_all del: power_Suc)
    have "Suc ci = Suc (ci div 2 ^ Suc i) * 2 ^ Suc i" using Suc.prems(3) unfolding e by simp
    note ih = Suc.hyps(1) [OF i(3) i(2) Suc.prems(2) this refl]
    show ?thesis
    proof (subst merge_up.simps, rule runs_bind_look, clarify)
      fix l sub assume m: "merging g sh ci F c (l, sub)" and ch: "chain_done V g ci i sub"
      then have f: "sub_geom h g sub" "sub_height sub = sh" "slots (sub_stack sub) ! i = V (glob g (2 * ?p))"
        "I l" "sub_bufs sub" "open_stack V g ci sub"
        unfolding p2(1) using i(1) False by (auto simp: merging_def open_stack_def)
      have step: "I l' \<Longrightarrow> merging g sh ci F c (l', put_node ?p (V (glob g ?p)) sub)
          \<and> chain_done V g ci (Suc i) (put_node ?p (V (glob g ?p)) sub)" for l'
        using m merging_parent [OF _ ch i(2) Suc.prems(2) refl, of F c l'] by (simp add: merging_def)
      have cur: "cur = V (glob g (2 * ?p + 1))" using Suc.prems(4) p2(2) by simp
      show "runs fl (\<lambda>t. t = (l, sub)) (let cur_local = 2 ^ (sub_height (snd (l, sub)) - i) + ?e
         in if cur_local = 1 then ret () else if even ?e then update_sub (put_stack i cur)
            else let parent_local = cur_local div 2;
                 node_num = subtree_local_to_global (sub_tree_height (snd (l, sub))) (sub_height (snd (l, sub))) (sub_level (snd (l, sub)))
                   (sub_left_leaf (snd (l, sub))) parent_local
             in bind (or_fail LMS_ERR_INVALID (sub_lib (lms_internal_node J alg node_num (slots (sub_stack (snd (l, sub))) ! i) cur))) (\<lambda>v.
                andthen (update_sub (put_node parent_local v)) (merge_up J alg (i + 1) (?e div 2) v))) (\<lambda>_. merging g sh (Suc ci) F c)"
        unfolding Let_def snd_conv f(2,3) p2(3) if_not_P [OF False] half cur Suc_eq_plus1 [of i, symmetric]
      proof (subst if_not_P)
        show "2 ^ (sh - i) + ?e \<noteq> 1" by (rule no)
        show "runs fl (\<lambda>t. t = (l, sub)) (bind (or_fail LMS_ERR_INVALID (sub_lib (lms_internal_node J alg
              (subtree_local_to_global (sub_tree_height sub) sh (sub_level sub) (sub_left_leaf sub) ?p) (V (glob g (2 * ?p))) (V (glob g (2 * ?p + 1))))))
            (\<lambda>v. andthen (update_sub (put_node ?p v)) (merge_up J alg (Suc i) (ci div 2 ^ Suc i) v))) (\<lambda>_. merging g sh (Suc ci) F c)"
          by (rule runs_bind [OF runs_or_fail [OF runs_pre [OF runs_sub_lib [OF gives_parent [OF f(1) p(1)], where R = "\<lambda>x. x = sub"]]]],
              use p(2) f(2) in simp, simp only: f(2), use f(4) in simp)
            (rule runs_fact, erule ssubst, rule runs_andthen [OF runs_update_sub ih], use step in auto)
      qed
    qed
  qed
qed


text \<open>One more leaf.\<close>

lemma runs_add_next_node:
  assumes "ci < 2 ^ sh" and "sh \<le> 25" and "leaf = V (glob g (2 ^ sh + ci))"
  shows "runs fl (merging g sh ci F ci) (lms_tree_add_next_node leaf J alg 32)
    (\<lambda>done s. (done \<longleftrightarrow> Suc ci = 2 ^ sh) \<and> merging g sh (Suc ci) F (Suc ci) s)"
  unfolding lms_tree_add_next_node_def
proof (rule runs_bind_look, unfold split_paired_all)
  fix l sub assume m: "merging g sh ci F ci (l, sub)"
  then have f: "sub_height sub = sh" "sub_current_index sub = ci" "0 < sh" "sub_nodes sub \<noteq> None" "sub_stack sub \<noteq> None"
      "length (slots (sub_nodes sub)) = 2 ^ Suc sh"
    by (auto simp: merging_def sub_geom_def sub_bufs_def)
  have start: "merging g sh ci F ci (l, put_node (2 ^ sh + ci) leaf sub) \<and> chain_done V g ci 0 (put_node (2 ^ sh + ci) leaf sub)"
    using m f assms put_node_keeps(1) [of V g ci sub "2 ^ sh + ci"]
    by (auto simp: merging_def chain_done_def put_node_keeps(2) nth_upd)
  have up: "runs fl (\<lambda>(l, sub). merging g sh ci F ci (l, sub) \<and> chain_done V g ci 0 sub) (merge_up J alg 0 ci leaf) (\<lambda>_. merging g sh (Suc ci) F ci)"
    using runs_merge_up [of 0 sh ci leaf g F ci] assms by simp
  have count: "runs fl (merging g sh (Suc ci) F ci) (update_sub (\<lambda>s. s\<lparr>sub_current_index := ci + 1\<rparr>)) (\<lambda>_. merging g sh (Suc ci) F (Suc ci))"
    by (rule runs_update_sub) (simp add: merging_def)
  show "runs fl (\<lambda>t. t = (l, sub)) (let sub_h = sub_height (snd (l, sub)); ci = sub_current_index (snd (l, sub))
     in andthen (reject_if ((32 :: nat) = 0 \<or> 32 > LMS_N) LMS_ERR_INVALID)
        (andthen (reject_if (sub_h = 0 \<or> sub_h > LMS_MAX_HEIGHT) LMS_ERR_INVALID)
        (andthen (reject_if (ci \<ge> 2 ^ sub_h) LMS_ERR_INVALID)
        (andthen (reject_if (sub_nodes (snd (l, sub)) = None \<or> sub_stack (snd (l, sub)) = None) LMS_ERR_INVALID)
        (andthen (update_sub (put_node (2 ^ sub_h + ci) leaf))
        (andthen (merge_up J alg 0 ci leaf)
        (andthen (update_sub (\<lambda>s. s\<lparr>sub_current_index := ci + 1\<rparr>))
          (ret (ci + 1 \<ge> 2 ^ sub_h)))))))))
    (\<lambda>done s. (done \<longleftrightarrow> Suc ci = 2 ^ sh) \<and> merging g sh (Suc ci) F (Suc ci) s)"
    unfolding Let_def snd_conv f(1,2)
    by (rule runs_guard, simp add: LMS_N_def, rule runs_guard, use f(3) assms(2) in \<open>simp add: LMS_MAX_HEIGHT_def\<close>,
        rule runs_guard, use assms(1) in simp, rule runs_guard, use f(4,5) in simp,
        rule runs_andthen [OF runs_update_sub runs_andthen [OF up runs_andthen [OF count runs_ret]]])
      (use start assms(1) in auto)
qed


end
end
