(* ===== verification/Subtree_Config.thy ===== *)
theory Subtree_Config
  imports Lms_Subtree
begin

text \<open>
  The configurator of the tree cache: what a size of subtrees costs, and that the selection loop
  picks the best one.
\<close>

section \<open>The cost of a size\<close>

definition sublevel_count :: "nat \<Rightarrow> nat \<Rightarrow> nat" where
  "sublevel_count h j = (h + j - 1) div j"

definition level_height :: "nat \<Rightarrow> nat \<Rightarrow> nat \<Rightarrow> nat \<Rightarrow> nat" where
  "level_height h j L s = (if Suc s < L then j else h - (L - 1) * j)"

text \<open>The nodes and the stack of a subtree.\<close>

definition subtree_bytes :: "nat \<Rightarrow> nat \<Rightarrow> nat" where
  "subtree_bytes n d = (2 ^ Suc d + d) * n"

definition tree_bytes :: "nat \<Rightarrow> nat \<Rightarrow> nat \<Rightarrow> nat" where
  "tree_bytes h j n = (let L = sublevel_count h j
     in \<Sum>s < L. (if Suc s < L then 2 else 1) * subtree_bytes n (level_height h j L s))"

lemma sublevel_count_bounds:
  assumes "0 < j" and "j \<le> h"
  shows "0 < sublevel_count h j" "(sublevel_count h j - 1) * j < h" "sublevel_count h j \<le> h" "h \<le> sublevel_count h j * j"
    "h - (sublevel_count h j - 1) * j \<le> j"
proof -
  let ?L = "sublevel_count h j" and ?m = "(h + j - 1) mod j"
  have e: "?L * j + ?m = h + j - 1" by (simp add: sublevel_count_def)
  have m: "?m < j" using assms(1) by simp
  show pos: "0 < ?L" using assms by (simp add: sublevel_count_def div_greater_zero_iff)
  have s: "?L * j = (?L - 1) * j + j" using pos by (simp add: diff_mult_distrib)
  show lt: "(?L - 1) * j < h" using e m s assms by linarith
  show "h \<le> ?L * j" using e m by linarith
  then show "h - (?L - 1) * j \<le> j" using s by linarith
  have "?L - 1 \<le> (?L - 1) * j" using assms(1) by simp
  then show "?L \<le> h" using lt pos by linarith
qed

lemma tree_bytes_closed:
  assumes "0 < j" and "j \<le> h"
  shows "tree_bytes h j n = 2 * (sublevel_count h j - 1) * subtree_bytes n j + subtree_bytes n (h - (sublevel_count h j - 1) * j)"
proof -
  let ?L = "sublevel_count h j"
  obtain k where k: "?L = Suc k" using sublevel_count_bounds(1) [OF assms] gr0_implies_Suc by blast
  have "(\<Sum>s < k. (if Suc s < Suc k then 2 else 1) * subtree_bytes n (level_height h j (Suc k) s)) = (\<Sum>s < k. 2 * subtree_bytes n j)"
    by (rule sum.cong) (simp_all add: level_height_def)
  then show ?thesis unfolding tree_bytes_def Let_def k by (simp add: level_height_def)
qed

text \<open>In machine words nothing wraps.\<close>

lemma unat_u32_small: "n < 2 ^ 32 \<Longrightarrow> unat (word_of_nat n :: u32) = n"
  by (rule unat_of_nat_u32)

lemma estimate_levels:
  assumes "0 < j" "j \<le> h" "h \<le> 25"
  shows "(word_of_nat h + word_of_nat j - 1) div word_of_nat j = (word_of_nat (sublevel_count h j) :: u32)"
proof -
  have "(word_of_nat h + word_of_nat j - 1 :: u32) = word_of_nat (h + j - 1)" using assms by (simp add: of_nat_diff)
  moreover have "unat (word_of_nat (h + j - 1) :: u32) = h + j - 1" by (rule unat_u32_small, use assms in simp)
  moreover have "unat (word_of_nat j :: u32) = j" by (rule unat_u32_small, use assms in simp)
  ultimately have "unat ((word_of_nat h + word_of_nat j - 1) div word_of_nat j :: u32) = sublevel_count h j"
    by (simp only: unat_div sublevel_count_def)
  then show ?thesis by (metis of_nat_unat ucast_id)
qed

text \<open>One step of the accumulation.\<close>

lemma level_bytes:
  assumes "d \<le> 25"
  shows "subtree_nodes_bytes (word_of_nat d) 32 + ucast (word_of_nat d :: u32) * ucast (32 :: u32) = (word_of_nat (subtree_bytes 32 d) :: u64)"
proof -
  have d: "unat (word_of_nat d :: u32) = d" using assms by (intro unat_u32_small) simp
  have "(ucast (word_of_nat d :: u32) :: u64) = word_of_nat d" using assms by (simp add: unsigned_of_nat take_bit_nat_eq_self)
  moreover have "push_bit d (2 :: u64) = word_of_nat (2 ^ Suc d)" by (simp add: push_bit_eq_mult)
  moreover have "ucast (32 :: u32) = (word_of_nat 32 :: u64)" by simp
  ultimately show ?thesis unfolding subtree_nodes_bytes_def d subtree_bytes_def
    by (simp only: of_nat_add of_nat_mult distrib_right)
qed

lemma top_height_word:
  assumes "0 < j" "j \<le> h" "h \<le> 25"
  shows "word_of_nat h - (word_of_nat (sublevel_count h j) - 1) * word_of_nat j = (word_of_nat (h - (sublevel_count h j - 1) * j) :: u32)"
  using sublevel_count_bounds [OF assms(1,2)] by (simp add: of_nat_diff)

lemma estimate_memory_exact:
  assumes "0 < j" "j \<le> h" "h \<le> 25"
  shows "lms_tree_estimate_memory (word_of_nat h) (word_of_nat j) 32 = (word_of_nat (tree_bytes h j 32), word_of_nat (sublevel_count h j))"
proof -
  let ?L = "sublevel_count h j"
  note b = sublevel_count_bounds [OF assms(1,2)]
  have L: "unat (word_of_nat ?L :: u32) = ?L" "unat (word_of_nat j :: u32) = j" using b(3) assms by (auto intro: unat_u32_small)
  then have nz: "word_of_nat ?L \<noteq> (0 :: u32)" "word_of_nat j \<noteq> (0 :: u32)" using b(1) assms(1) by (auto simp: unat_eq_zero [symmetric] simp del: unat_eq_0)
  let ?f = "\<lambda>s memory_used :: u64. let sub_h = if word_of_nat s + 1 < (word_of_nat ?L :: u32) then word_of_nat j else word_of_nat (h - (?L - 1) * j);
                     nodes_bytes = subtree_nodes_bytes sub_h 32;
                     stack_bytes = ucast sub_h * ucast (32 :: u32);
                     memory_used = memory_used + (nodes_bytes + stack_bytes)
                 in if word_of_nat s + 1 < (word_of_nat ?L :: u32) then memory_used + (nodes_bytes + stack_bytes) else memory_used"
  have step: "?f s m = m + word_of_nat ((if Suc s < ?L then 2 else 1) * subtree_bytes 32 (level_height h j ?L s))" if "s < ?L" for s m
  proof -
    have "unat (word_of_nat s + 1 :: u32) = Suc s" using that b(3) assms(3) unat_u32_small [of "Suc s"] by (simp add: add.commute)
    then have c: "word_of_nat s + 1 < (word_of_nat ?L :: u32) \<longleftrightarrow> Suc s < ?L" using L by (simp add: word_less_nat_alt)
    have "level_height h j ?L s \<le> 25" using assms b(5) by (simp add: level_height_def)
    note lb = level_bytes [OF this]
    show ?thesis
    proof (cases "Suc s < ?L")
      case True
      then show ?thesis using lb unfolding c Let_def by (simp only: level_height_def if_True) (simp only: of_nat_mult of_nat_numeral mult_2 of_nat_add add.assoc)
    next
      case False
      then show ?thesis using lb unfolding c Let_def by (simp only: level_height_def if_False) simp
    qed
  qed
  have "k \<le> ?L \<Longrightarrow> fold ?f [0..<k] 0 = word_of_nat (\<Sum>s < k. (if Suc s < ?L then 2 else 1) * subtree_bytes 32 (level_height h j ?L s))" for k
  proof (induction k)
    case (Suc k)
    then show ?case using step [of k] by (simp only: upt_Suc fold_append) simp
  qed simp
  then have "fold ?f [0..<?L] 0 = word_of_nat (tree_bytes h j 32)" by (simp add: tree_bytes_def Let_def)
  moreover have "(if (word_of_nat ?L :: u32) = 0 then 1 else word_of_nat ?L) = (word_of_nat ?L :: u32)" using nz(1) by simp
  ultimately show ?thesis
    using nz(2) unfolding lms_tree_estimate_memory_def estimate_levels [OF assms] Let_def
    by (simp only: top_height_word [OF assms] L(1)) simp
qed

lemma tree_bytes_bound:
  assumes "0 < j" "j \<le> h" "h \<le> 25"
  shows "tree_bytes h j 32 < 2 ^ 64"
proof -
  let ?L = "sublevel_count h j"
  note b = sublevel_count_bounds [OF assms(1,2)]
  have "(if Suc s < ?L then 2 else 1) * subtree_bytes 32 (level_height h j ?L s) \<le> 2 * ((2 ^ 26 + 25) * 32)" for s
  proof -
    have d: "level_height h j ?L s \<le> 25" using assms b(5) by (simp add: level_height_def)
    then have "(2 :: nat) ^ Suc (level_height h j ?L s) \<le> 2 ^ 26" by (intro power_increasing) simp_all
    then have "subtree_bytes 32 (level_height h j ?L s) \<le> (2 ^ 26 + 25) * 32" unfolding subtree_bytes_def using d by (intro mult_le_mono1 add_mono)
    then show ?thesis by simp
  qed
  then have "tree_bytes h j 32 \<le> (\<Sum>s < ?L. 2 * ((2 ^ 26 + 25) * 32))" unfolding tree_bytes_def Let_def by (intro sum_mono) blast
  also have "\<dots> \<le> 25 * (2 * ((2 ^ 26 + 25) * 32))" using b(3) assms(3) by simp
  also have "\<dots> < 2 ^ 64" by simp
  finally show ?thesis .
qed


section \<open>The selection\<close>

text \<open>Some size of \<open>J\<close> is within the budget, and the best of these is one of fewest sublevels, then of
  least memory; without one, a size of least memory.\<close>

definition best_within :: "u32 \<Rightarrow> u32 \<Rightarrow> u64 \<Rightarrow> u32 set \<Rightarrow> u32 \<Rightarrow> bool" where
  "best_within height n target J j \<longleftrightarrow> j \<in> J \<and> fst (lms_tree_estimate_memory height j n) \<le> target
     \<and> (\<forall>i \<in> J. fst (lms_tree_estimate_memory height i n) \<le> target \<longrightarrow>
         snd (lms_tree_estimate_memory height j n) < snd (lms_tree_estimate_memory height i n)
         \<or> snd (lms_tree_estimate_memory height j n) = snd (lms_tree_estimate_memory height i n)
           \<and> fst (lms_tree_estimate_memory height j n) \<le> fst (lms_tree_estimate_memory height i n))"

definition least_overbudget :: "u32 \<Rightarrow> u32 \<Rightarrow> u64 \<Rightarrow> u32 set \<Rightarrow> u32 \<Rightarrow> bool" where
  "least_overbudget height n target J j \<longleftrightarrow> j \<in> J
     \<and> (\<forall>i \<in> J. target < fst (lms_tree_estimate_memory height i n)
         \<and> fst (lms_tree_estimate_memory height j n) \<le> fst (lms_tree_estimate_memory height i n))"

definition search_inv :: "u32 \<Rightarrow> u32 \<Rightarrow> u64 \<Rightarrow> u32 set \<Rightarrow> tree_search \<Rightarrow> bool" where
  "search_inv height n target J st \<longleftrightarrow>
     (J = {} \<longrightarrow> \<not> found_overbudget st \<and> \<not> found_within st)
     \<and> (J \<noteq> {} \<longrightarrow> (found_overbudget st \<or> found_within st)
         \<and> (best_mem st, best_levels st) = lms_tree_estimate_memory height (best_j st) n
         \<and> (if found_within st then best_within height n target J (best_j st) else least_overbudget height n target J (best_j st)))"

lemma search_inv_step:
  assumes "search_inv height n target J st"
  shows "search_inv height n target (insert j J) (consider_size height n target j st)"
proof -
  obtain mem lev where e: "lms_tree_estimate_memory height j n = (mem, lev)" by force
  obtain bm bl where b: "lms_tree_estimate_memory height (best_j st) n = (bm, bl)" by force
  show ?thesis
  proof (cases "J = {}")
    case True
    then show ?thesis using assms e
      by (auto simp: search_inv_def consider_size_def best_within_def least_overbudget_def)
  next
    case False
    then have inv: "found_overbudget st \<or> found_within st" "best_mem st = bm" "best_levels st = bl"
      "if found_within st then best_within height n target J (best_j st) else least_overbudget height n target J (best_j st)"
      using assms b by (simp_all add: search_inv_def)
    show ?thesis
    proof (cases "found_within st")
      case True
      then have best: "best_within height n target J (best_j st)" using inv(4) by simp
      show ?thesis
      proof (cases "target < mem \<or> bl < lev \<or> bl = lev \<and> bm < mem")
        case skip: True
        have bm: "bm \<le> target" using best b by (simp add: best_within_def)
        then have "consider_size height n target j st = st" using skip True inv(2,3) e by (auto simp: consider_size_def)
        moreover have "best_within height n target (insert j J) (best_j st)" using best skip e b by (auto simp: best_within_def)
        ultimately show ?thesis using True inv(2,3) b by (simp add: search_inv_def)
      next
        case take: False
        then have "best_within height n target (insert j J) j" using best e b by (auto simp: best_within_def)
        then show ?thesis using take True inv(2,3) e by (auto simp: search_inv_def consider_size_def)
      qed
    next
      case not_within: False
      then have least: "least_overbudget height n target J (best_j st)" and over: "found_overbudget st" using inv(1,4) by simp_all
      consider (fits) "mem \<le> target" | (skip) "target < mem" "bm < mem" | (take) "target < mem" "mem \<le> bm" by fastforce
      then show ?thesis
      proof cases
        case fits
        then have "best_within height n target (insert j J) j" using least e by (auto simp: best_within_def least_overbudget_def)
        then show ?thesis using fits not_within e by (auto simp: search_inv_def consider_size_def)
      next
        case skip
        then have "least_overbudget height n target (insert j J) (best_j st)" using least e b by (auto simp: least_overbudget_def)
        then show ?thesis using skip not_within over inv(2,3) e b by (auto simp: search_inv_def consider_size_def)
      next
        case take
        then have "least_overbudget height n target (insert j J) j" using least e b by (auto simp: least_overbudget_def)
        then show ?thesis using take not_within inv(2) e by (auto simp: search_inv_def consider_size_def)
      qed
    qed
  qed
qed

lemma search_inv_fold:
  "search_inv height n target J st \<Longrightarrow> search_inv height n target (J \<union> set js) (fold (consider_size height n target) js st)"
proof (induction js arbitrary: J st)
  case (Cons j js)
  show ?case using Cons.IH [OF search_inv_step [OF Cons.prems, of j]] by simp
qed simp


definition search_from :: "u32 \<Rightarrow> u32 \<Rightarrow> u64 \<Rightarrow> tree_search" where
  "search_from height n target = fold (consider_size height n target) (map word_of_nat [unat LMS_SUBTREE_MIN_J..<unat height + 1])
     \<lparr>found_overbudget = False, found_within = False, best_mem = 0, best_levels = 0, best_j = 0\<rparr>"

definition chosen_config :: "u32 \<Rightarrow> nat \<Rightarrow> u64 \<Rightarrow> lms_tree_config_t" where
  "chosen_config type h target = (let st = search_from (word_of_nat h) 32 target in
     \<lparr>cfg_lms_type = type, cfg_height = word_of_nat h, cfg_n = 32, cfg_subtree_size = best_j st, cfg_sublevels = best_levels st,
      cfg_est_memory = best_mem st, cfg_fit = (if found_within st then LMS_TREE_FIT_WITHIN_BUDGET else LMS_TREE_FIT_OVERBUDGET)\<rparr>)"

text \<open>The choice in terms of the bytes and sublevels of the sizes from 2 to \<open>h\<close>.\<close>

definition tree_choice :: "nat \<Rightarrow> nat \<Rightarrow> nat \<Rightarrow> lms_tree_fit_t \<Rightarrow> bool" where
  "tree_choice h target j fit \<longleftrightarrow> 2 \<le> j \<and> j \<le> h \<and>
     (if \<exists>i \<in> {2..h}. tree_bytes h i 32 \<le> target
      then fit = LMS_TREE_FIT_WITHIN_BUDGET \<and> tree_bytes h j 32 \<le> target
        \<and> (\<forall>i \<in> {2..h}. tree_bytes h i 32 \<le> target \<longrightarrow> sublevel_count h j < sublevel_count h i
            \<or> sublevel_count h j = sublevel_count h i \<and> tree_bytes h j 32 \<le> tree_bytes h i 32)
      else fit = LMS_TREE_FIT_OVERBUDGET \<and> (\<forall>i \<in> {2..h}. tree_bytes h j 32 \<le> tree_bytes h i 32))"

lemma estimate_nat:
  assumes "2 \<le> j" "j \<le> h" "h \<le> 25"
  shows "unat (fst (lms_tree_estimate_memory (word_of_nat h) (word_of_nat j) 32)) = tree_bytes h j 32"
    and "unat (snd (lms_tree_estimate_memory (word_of_nat h) (word_of_nat j) 32)) = sublevel_count h j"
proof -
  have a: "0 < j" "j \<le> h" "h \<le> 25" using assms by simp_all
  show "unat (fst (lms_tree_estimate_memory (word_of_nat h) (word_of_nat j) 32)) = tree_bytes h j 32"
    unfolding estimate_memory_exact [OF a] fst_conv using tree_bytes_bound [OF a] by (simp add: unsigned_of_nat take_bit_nat_eq_self)
  show "unat (snd (lms_tree_estimate_memory (word_of_nat h) (word_of_nat j) 32)) = sublevel_count h j"
    unfolding estimate_memory_exact [OF a] snd_conv using sublevel_count_bounds(3) [OF a(1,2)] a(3) by (intro unat_u32_small) simp
qed

lemma search_result:
  assumes h: "2 \<le> h" "h \<le> 25"
  shows "search_inv (word_of_nat h) 32 target (word_of_nat ` {2..h}) (search_from (word_of_nat h) 32 target)"
proof -
  have "unat (word_of_nat h :: u32) = h" using h by (intro unat_u32_small) simp
  then have js: "set (map word_of_nat [unat LMS_SUBTREE_MIN_J..<unat (word_of_nat h :: u32) + 1]) = (word_of_nat ` {2..h} :: u32 set)"
    unfolding set_map set_upt LMS_SUBTREE_MIN_J_def by (intro arg_cong2 [where f = image]) auto
  have "search_inv (word_of_nat h) 32 target {} \<lparr>found_overbudget = False, found_within = False, best_mem = 0, best_levels = 0, best_j = 0\<rparr>"
    by (simp add: search_inv_def)
  from search_inv_fold [OF this, of "map word_of_nat [unat LMS_SUBTREE_MIN_J..<unat (word_of_nat h :: u32) + 1]"]
  show ?thesis unfolding search_from_def js by simp
qed

lemma best_within_nat:
  assumes "h \<le> 25" and "2 \<le> j" "j \<le> h" and "best_within (word_of_nat h) 32 target (word_of_nat ` {2..h}) (word_of_nat j)"
  shows "tree_choice h (unat target) j LMS_TREE_FIT_WITHIN_BUDGET"
proof -
  note est = estimate_nat [OF _ _ assms(1)]
  have j: "tree_bytes h j 32 \<le> unat target" using assms(4) est [OF assms(2,3)] by (simp add: best_within_def word_le_nat_alt)
  have "sublevel_count h j < sublevel_count h i \<or> sublevel_count h j = sublevel_count h i \<and> tree_bytes h j 32 \<le> tree_bytes h i 32"
    if i: "i \<in> {2..h}" "tree_bytes h i 32 \<le> unat target" for i
  proof -
    let ?e = "\<lambda>i. lms_tree_estimate_memory (word_of_nat h) (word_of_nat i) 32"
    have "fst (?e i) \<le> target \<longrightarrow> snd (?e j) < snd (?e i) \<or> snd (?e j) = snd (?e i) \<and> fst (?e j) \<le> fst (?e i)"
      using assms(4) i(1) unfolding best_within_def by blast
    then show ?thesis using i est [OF assms(2,3)] est [of i] by (simp add: word_le_nat_alt word_less_nat_alt word_unat_eq_iff)
  qed
  then show ?thesis using assms(2,3) j by (auto simp: tree_choice_def)
qed

lemma least_overbudget_nat:
  assumes "h \<le> 25" and "2 \<le> j" "j \<le> h" and "least_overbudget (word_of_nat h) 32 target (word_of_nat ` {2..h}) (word_of_nat j)"
  shows "tree_choice h (unat target) j LMS_TREE_FIT_OVERBUDGET"
proof -
  have "unat target < tree_bytes h i 32 \<and> tree_bytes h j 32 \<le> tree_bytes h i 32" if i: "i \<in> {2..h}" for i
  proof -
    let ?e = "\<lambda>i. lms_tree_estimate_memory (word_of_nat h) (word_of_nat i) 32"
    have "target < fst (?e i) \<and> fst (?e j) \<le> fst (?e i)" using assms(4) i unfolding least_overbudget_def by blast
    then show ?thesis using i estimate_nat(1) [OF assms(2,3,1)] estimate_nat(1) [of i h] assms(1)
      by (simp add: word_le_nat_alt word_less_nat_alt)
  qed
  then show ?thesis using assms(2,3) by (fastforce simp: tree_choice_def)
qed

lemma chosen_config_ok:
  fixes type :: u32 and target :: u64
  assumes h: "2 \<le> h" "h \<le> 25"
  defines "cfg \<equiv> chosen_config type h target"
  shows "tree_choice h (unat target) (unat (cfg_subtree_size cfg)) (cfg_fit cfg)"
    and "unat (cfg_sublevels cfg) = sublevel_count h (unat (cfg_subtree_size cfg))"
    and "unat (cfg_est_memory cfg) = tree_bytes h (unat (cfg_subtree_size cfg)) 32"
    and "cfg_lms_type cfg = type" "unat (cfg_height cfg) = h" "unat (cfg_n cfg) = 32"
proof -
  define st where "st = search_from (word_of_nat h) 32 target"
  have J: "word_of_nat ` {2..h} \<noteq> ({} :: u32 set)" using h by simp
  have inv: "search_inv (word_of_nat h) 32 target (word_of_nat ` {2..h}) st" unfolding st_def by (rule search_result [OF h])
  then have e: "(best_mem st, best_levels st) = lms_tree_estimate_memory (word_of_nat h) (best_j st) 32"
    and best: "if found_within st then best_within (word_of_nat h) 32 target (word_of_nat ` {2..h}) (best_j st)
      else least_overbudget (word_of_nat h) 32 target (word_of_nat ` {2..h}) (best_j st)"
    using J by (simp_all add: search_inv_def)
  then have "best_j st \<in> word_of_nat ` {2..h}" by (auto simp: best_within_def least_overbudget_def split: if_splits)
  then obtain j where j: "best_j st = word_of_nat j" "2 \<le> j" "j \<le> h" by auto
  have uj: "unat (best_j st) = j" using j h by (auto intro!: unat_u32_small)
  note est = estimate_nat [OF _ _ h(2)]
  have cfg: "cfg_subtree_size cfg = best_j st" "cfg_sublevels cfg = best_levels st" "cfg_est_memory cfg = best_mem st"
    "cfg_fit cfg = (if found_within st then LMS_TREE_FIT_WITHIN_BUDGET else LMS_TREE_FIT_OVERBUDGET)"
    by (simp_all add: cfg_def chosen_config_def Let_def st_def)
  show "unat (cfg_sublevels cfg) = sublevel_count h (unat (cfg_subtree_size cfg))" "unat (cfg_est_memory cfg) = tree_bytes h (unat (cfg_subtree_size cfg)) 32"
    unfolding cfg uj est [OF j(2,3), symmetric] using e by (simp_all flip: j(1)) (metis snd_conv, metis fst_conv)
  show "tree_choice h (unat target) (unat (cfg_subtree_size cfg)) (cfg_fit cfg)"
    unfolding cfg uj using best best_within_nat [OF h(2) j(2,3)] least_overbudget_nat [OF h(2) j(2,3)] unfolding j(1) by (simp split: if_splits)
  show "cfg_lms_type cfg = type" "unat (cfg_height cfg) = h" "unat (cfg_n cfg) = 32"
    using h by (simp_all add: cfg_def chosen_config_def Let_def unat_u32_small)
qed

context library_state begin

lemma gives_tree_configure:
  "gives fl I (lms_tree_configure t target)
    (case lms_params t of None \<Rightarrow> Inl LMS_ERR_INVALID | Some p \<Rightarrow> Inr (chosen_config t (lp_height p) target))"
proof (cases "lms_params t")
  case None
  then show ?thesis using gives_get_lms_param [of fl t] unfolding lms_tree_configure_def
    by (simp add: gives_bind_err [OF gives_or_fail_err])
next
  case (Some p)
  have b: "lp_height p \<le> 25" "5 \<le> lp_height p" "lp_n p = 32" using lms_param_cases [OF Some] by auto
  have u: "unat (word_of_nat (lp_height p) :: u32) = lp_height p" using b by (intro unat_u32_small) simp
  have J: "word_of_nat ` {2..lp_height p} \<noteq> ({} :: u32 set)" using b by simp
  have g1: "\<not> (word_of_nat (lp_height p) = (0 :: u32) \<or> word_of_nat (lp_n p) = (0 :: u32) \<or> LMS_MAX_HEIGHT < unat (word_of_nat (lp_height p) :: u32))"
    using u b by (auto simp: LMS_MAX_HEIGHT_def)
  have g2: "\<not> (\<not> found_overbudget st \<and> \<not> found_within st)" if "st = search_from (word_of_nat (lp_height p)) 32 target" for st
    using search_result [of "lp_height p" target] b J that by (auto simp: search_inv_def)
  have "gives fl I (ret (chosen_config t (lp_height p) target)) (Inr (chosen_config t (lp_height p) target))" by (rule gives_ret)
  then show ?thesis unfolding lms_tree_configure_def Some option.case Let_def
    by (intro gives_bind [OF gives_or_fail [OF gives_lms_param_ok [OF Some]]] gives_andthen [OF gives_reject_pass] g1)
      (use g2 b(3) in \<open>simp_all add: search_from_def chosen_config_def Let_def\<close>)
qed

end


subsection \<open>A choice by computation\<close>

definition clear_choice :: "nat \<Rightarrow> nat \<Rightarrow> nat \<Rightarrow> bool" where
  "clear_choice h target k \<longleftrightarrow> tree_bytes h k 32 \<le> target \<and> list_all (\<lambda>i. i = k \<or> target < tree_bytes h i 32
     \<or> sublevel_count h k < sublevel_count h i \<or> sublevel_count h k = sublevel_count h i \<and> tree_bytes h k 32 < tree_bytes h i 32) [2..<Suc h]"

lemma tree_choice_clear:
  assumes t: "tree_choice h target j fit" and k: "2 \<le> k" "k \<le> h" "clear_choice h target k"
  shows "j = k" and "fit = LMS_TREE_FIT_WITHIN_BUDGET"
proof -
  have fits: "tree_bytes h k 32 \<le> target" using k by (simp add: clear_choice_def)
  then have "\<exists>i \<in> {2..h}. tree_bytes h i 32 \<le> target" using k by auto
  then have j: "2 \<le> j" "j \<le> h" "tree_bytes h j 32 \<le> target" "fit = LMS_TREE_FIT_WITHIN_BUDGET"
    "sublevel_count h j < sublevel_count h k \<or> sublevel_count h j = sublevel_count h k \<and> tree_bytes h j 32 \<le> tree_bytes h k 32"
    using t k fits by (auto simp: tree_choice_def)
  have "j = k \<or> target < tree_bytes h j 32 \<or> sublevel_count h k < sublevel_count h j
      \<or> sublevel_count h k = sublevel_count h j \<and> tree_bytes h k 32 < tree_bytes h j 32"
    using k(3) j(1,2) by (simp add: clear_choice_def list_all_iff del: upt_Suc)
  then show "j = k" using j by linarith
  show "fit = LMS_TREE_FIT_WITHIN_BUDGET" by (rule j(4))
qed

lemma tree_bytes_eval:
  "2 \<le> i \<Longrightarrow> i \<le> h \<Longrightarrow> tree_bytes h i 32 =
     (let L = (h + i - 1) div i; t = h - (L - 1) * i in 2 * (L - 1) * ((2 * 2 ^ i + i) * 32) + (2 * 2 ^ t + t) * 32)"
  by (simp add: tree_bytes_closed subtree_bytes_def sublevel_count_def Let_def)

lemma firmware_choices:
  "clear_choice 5 12288 5" "clear_choice 10 12288 5" "clear_choice 15 12288 5" "clear_choice 20 12288 4" "clear_choice 25 12288 3"
  by (simp_all add: clear_choice_def upt_rec tree_bytes_eval Let_def sublevel_count_def)

section \<open>Properties\<close>

text \<open>
  C28. \<open>lms_tree_configure\<close> fails exactly for an unknown typecode. For a known one it chooses among all
  subtree sizes from 2 to the height: when some size fits the budget, the choice fits and no fitting
  size has fewer sublevels, nor as many with less memory; otherwise it takes a size of least memory.
  \<open>sublevels\<close> is the number of sublevels of that size and \<open>est_memory\<close> the exact number of bytes of
  nodes and stacks: the 64-bit arithmetic does not wrap.
\<close>

theorem lms_tree_configure_optimal:
  assumes s: "plain_state hp s"
  shows "case lms_params t of
      None \<Rightarrow> fst (lms_tree_configure t target s) = Inl LMS_ERR_INVALID
    | Some p \<Rightarrow> \<exists>cfg. fst (lms_tree_configure t target s) = Inr cfg
        \<and> cfg_lms_type cfg = t \<and> unat (cfg_height cfg) = lp_height p \<and> unat (cfg_n cfg) = 32
        \<and> tree_choice (lp_height p) (unat target) (unat (cfg_subtree_size cfg)) (cfg_fit cfg)
        \<and> unat (cfg_sublevels cfg) = sublevel_count (lp_height p) (unat (cfg_subtree_size cfg))
        \<and> unat (cfg_est_memory cfg) = tree_bytes (lp_height p) (unat (cfg_subtree_size cfg)) 32"
proof -
  have run: "fst (lms_tree_configure t target s) =
      (case lms_params t of None \<Rightarrow> Inl LMS_ERR_INVALID | Some p \<Rightarrow> Inr (chosen_config t (lp_height p) target))"
    by (rule gives_run(1) [OF plain.gives_tree_configure s])
  show ?thesis
  proof (cases "lms_params t")
    case None
    then show ?thesis using run by simp
  next
    case (Some p)
    have h: "2 \<le> lp_height p" "lp_height p \<le> 25" using lms_param_cases(3) [OF Some] by auto
    show ?thesis using run chosen_config_ok [OF h, where type = t and target = target] by (simp add: Some)
  qed
qed

text \<open>Witness: the configuration of the firmware for height 15 and 12 KiB has subtrees of height 5,
  three sublevels and 11040 bytes; for height 20 the budget forces subtrees of height 4.\<close>

theorem lms_tree_configure_optimal_witness:
  "(\<exists>cfg. fst (lms_tree_configure LMS_SHA256_N32_H15 12288 hash_test_lib) = Inr cfg \<and> unat (cfg_subtree_size cfg) = 5
      \<and> unat (cfg_sublevels cfg) = 3 \<and> unat (cfg_est_memory cfg) = 11040 \<and> cfg_fit cfg = LMS_TREE_FIT_WITHIN_BUDGET)
   \<and> (\<exists>cfg. fst (lms_tree_configure LMS_SHA256_N32_H20 12288 hash_test_lib) = Inr cfg \<and> unat (cfg_subtree_size cfg) = 4)
   \<and> fst (lms_tree_configure 0 12288 hash_test_lib) = Inl LMS_ERR_INVALID"
proof -
  have p: "\<exists>a. lms_params LMS_SHA256_N32_H15 = Some a \<and> lp_height a = 15" "\<exists>a. lms_params LMS_SHA256_N32_H20 = Some a \<and> lp_height a = 20" "lms_params 0 = None"
    by (simp_all add: lms_params_def lms_type_switch_def)
  note opt = lms_tree_configure_optimal [OF test_lib_plain, where target = 12288]
  show ?thesis
    using opt [of LMS_SHA256_N32_H15] opt [of LMS_SHA256_N32_H20] opt [of 0] p
      tree_choice_clear [OF _ _ _ firmware_choices(3)] tree_choice_clear [OF _ _ _ firmware_choices(4)]
    by (fastforce simp: sublevel_count_def tree_bytes_eval)
qed

end
