(* ===== verification/Subtree_Cache.thy ===== *)
theory Subtree_Cache
  imports Subtree_Build Subtree_Config
begin

text \<open>
  The tree cache as a whole. With a context of the shape \<open>lms_tree_ctx_init\<close> lays out, a leaf source
  that delivers the leaves of the tree, and an allocator that grants the buffers for the roots,
  the cache computes the root of the tree and the authentication path of every leaf.
\<close>

section \<open>Sublevels\<close>

definition level_top :: "nat \<Rightarrow> nat \<Rightarrow> nat \<Rightarrow> nat \<Rightarrow> nat" where
  "level_top h j L s = s * j + level_height h j L s"

text \<open>The number of the root of the \<open>p\<close>-th subtree of a sublevel.\<close>

definition level_root :: "nat \<Rightarrow> nat \<Rightarrow> nat \<Rightarrow> nat \<Rightarrow> nat \<Rightarrow> nat" where
  "level_root h j L s p = 2 ^ (h - level_top h j L s) + p"

definition sub_shape :: "nat \<Rightarrow> nat \<Rightarrow> nat \<Rightarrow> nat \<Rightarrow> lms_subtree_t \<Rightarrow> bool" where
  "sub_shape h j L s sub \<longleftrightarrow> sub_height sub = level_height h j L s \<and> sub_level sub = level_top h j L s
     \<and> sub_tree_height sub = h \<and> sub_bufs sub"

definition ctx_shape :: "nat \<Rightarrow> nat \<Rightarrow> nat \<Rightarrow> ('w, 'm) lms_tree_ctx_t \<Rightarrow> bool" where
  "ctx_shape h j L c \<longleftrightarrow> ctx_height c = h \<and> ctx_n c = 32 \<and> ctx_subtree_size c = j \<and> ctx_sublevels c = L
     \<and> ctx_levels c \<noteq> None \<and> length (levels_of c) = L
     \<and> (\<forall>s < L. sub_shape h j L s (get_sub s Active c) \<and> (Suc s < L \<longrightarrow> sub_shape h j L s (get_sub s Upcoming c)))"

text \<open>The context of one key: what no operation changes.\<close>

definition ctx_serves :: "lms_private_key_t \<Rightarrow> lms_hash_alg_t \<Rightarrow> 'w ots_pub_fn option \<Rightarrow> 'w ots_pub_fn option \<Rightarrow>
    'm tree_alloc_fn \<Rightarrow> 'm tree_free_fn \<Rightarrow> ('w, 'm) lms_tree_ctx_t \<Rightarrow> bool" where
  "ctx_serves priv alg src lf al fr c \<longleftrightarrow> ctx_lms_type c = priv_lms_type priv \<and> ctx_hash_alg c = alg \<and> ctx_I c = priv_I priv
     \<and> ctx_ots_pub c = src \<and> ctx_leaf_fn c = lf \<and> ctx_alloc c = al \<and> ctx_free c = fr"

text \<open>What building a subtree does to the allocator; \<open>None\<close> when it refuses a buffer.\<close>

fun repeat_mem :: "('m \<Rightarrow> 'm option) \<Rightarrow> nat \<Rightarrow> 'm \<Rightarrow> 'm option" where
  "repeat_mem f 0 m = Some m"
| "repeat_mem f (Suc n) m = Option.bind (repeat_mem f n m) f"

primrec build_mem :: "nat \<Rightarrow> nat \<Rightarrow> nat \<Rightarrow> 'm tree_alloc_fn \<Rightarrow> 'm tree_free_fn \<Rightarrow> nat \<Rightarrow> 'm \<Rightarrow> 'm option" where
  "build_mem h j L al fr 0 = Some"
| "build_mem h j L al fr (Suc s) = (\<lambda>m. case al (2 ^ level_height h j L (Suc s) * 32) m of
     (None, _) \<Rightarrow> None
   | (Some a, m1) \<Rightarrow> map_option (fr a) (repeat_mem (build_mem h j L al fr s) (2 ^ level_height h j L (Suc s)) m1))"

lemma repeat_mem_None: "repeat_mem f k m = None \<Longrightarrow> k \<le> n \<Longrightarrow> repeat_mem f n m = None"
  by (induction n) (auto simp: le_Suc_eq)

subsection \<open>Reading and writing subtrees of the context\<close>

lemma levels_of_set_level [simp]: "levels_of (set_level s sl c) = (levels_of c)[s := sl]"
  by (cases "ctx_levels c") (auto simp: levels_of_def set_level_def)

lemma set_level_fields [simp]:
  "ctx_lms_type (set_level s sl c) = ctx_lms_type c" "ctx_height (set_level s sl c) = ctx_height c" "ctx_n (set_level s sl c) = ctx_n c"
  "ctx_subtree_size (set_level s sl c) = ctx_subtree_size c" "ctx_sublevels (set_level s sl c) = ctx_sublevels c"
  "ctx_hash_alg (set_level s sl c) = ctx_hash_alg c" "ctx_I (set_level s sl c) = ctx_I c" "ctx_ots_pub (set_level s sl c) = ctx_ots_pub c"
  "ctx_leaf_fn (set_level s sl c) = ctx_leaf_fn c" "ctx_alloc (set_level s sl c) = ctx_alloc c" "ctx_free (set_level s sl c) = ctx_free c"
  "ctx_levels (set_level s sl c) = None \<longleftrightarrow> ctx_levels c = None"
  "ctx_top_subtree_size (set_level s sl c) = ctx_top_subtree_size c"
  by (simp_all add: set_level_def)

lemma set_sub_fields [simp]:
  "ctx_lms_type (set_sub s w sub c) = ctx_lms_type c" "ctx_height (set_sub s w sub c) = ctx_height c" "ctx_n (set_sub s w sub c) = ctx_n c"
  "ctx_subtree_size (set_sub s w sub c) = ctx_subtree_size c" "ctx_sublevels (set_sub s w sub c) = ctx_sublevels c"
  "ctx_hash_alg (set_sub s w sub c) = ctx_hash_alg c" "ctx_I (set_sub s w sub c) = ctx_I c" "ctx_ots_pub (set_sub s w sub c) = ctx_ots_pub c"
  "ctx_leaf_fn (set_sub s w sub c) = ctx_leaf_fn c" "ctx_alloc (set_sub s w sub c) = ctx_alloc c" "ctx_free (set_sub s w sub c) = ctx_free c"
  "ctx_levels (set_sub s w sub c) = None \<longleftrightarrow> ctx_levels c = None" "length (levels_of (set_sub s w sub c)) = length (levels_of c)"
  by (simp_all add: set_sub_def)

lemma sub_of_put_sub [simp]: "sub_of w (put_sub w' sub sl) = (if w = w' then sub else sub_of w sl)"
  by (cases w; cases w') auto

lemma get_set_sub:
  "s < length (levels_of c) \<Longrightarrow> get_sub s' w' (set_sub s w sub c) = (if s' = s \<and> w' = w then sub else get_sub s' w' c)"
  by (auto simp: get_sub_def set_sub_def nth_list_update)

lemma ctx_shape_set_sub:
  "ctx_shape h j L c \<Longrightarrow> s < L \<Longrightarrow> sub_shape h j L s sub \<Longrightarrow> ctx_shape h j L (set_sub s w sub c)"
  unfolding ctx_shape_def by (auto simp: get_set_sub simp del: not_None_eq)

lemma ctx_serves_set_sub [simp]: "ctx_serves priv alg src lf al fr (set_sub s w sub c) = ctx_serves priv alg src lf al fr c"
  by (simp add: ctx_serves_def)

section \<open>Building in a context\<close>

locale cached_tree = tree_library I heap fl W seed coef_hw
  for I :: "'w lms_lib \<Rightarrow> bool" and heap fl and W :: "'w \<Rightarrow> bool" and seed coef_hw +
  fixes priv :: lms_private_key_t and a :: lms_param_t and b :: lmots_param_t and j L :: nat
    and src lf :: "'w ots_pub_fn option" and al :: "'m tree_alloc_fn" and fr :: "'m tree_free_fn"
  assumes key: "param_pair (priv_lms_type priv) (priv_lmots_type priv) = Some (a, b)"
    and I16: "length (priv_I priv) = 16" and own_seed: "priv_seed priv = seed"
    and sizes: "0 < j" "0 < L" "(L - 1) * j < lp_height a"
    and kq: "src = Some f \<Longrightarrow> unat q < 2 ^ lp_height a \<Longrightarrow>
      gives fl I (f priv q) (Inr (ots_pub (op_hash_alg b) b (priv_I priv) (priv_seed priv) q))"
    and leaf: "lf = Some f \<Longrightarrow> unat q < 2 ^ lp_height a \<Longrightarrow>
      gives fl I (f priv q) (Inr (lms_node a b (priv_I priv) (priv_seed priv) (2 ^ lp_height a + unat q)))"
begin

abbreviation h :: nat where "h \<equiv> lp_height a"
abbreviation V :: "nat \<Rightarrow> bytes" where "V \<equiv> lms_node a b (priv_I priv) (priv_seed priv)"
abbreviation ht :: "nat \<Rightarrow> nat" where "ht \<equiv> level_height h j L"
abbreviation lv :: "nat \<Rightarrow> nat" where "lv \<equiv> level_top h j L"
abbreviation rt :: "nat \<Rightarrow> nat \<Rightarrow> nat" where "rt \<equiv> level_root h j L"

lemma h25: "h \<le> 25"
  by (rule lp_height_bounds(1) [OF param_pairD(1) [OF key]])

lemma alg_a: "lp_hash_alg a = op_hash_alg b"
  by (rule param_pairD(3) [OF key])

end

sublocale cached_tree \<subseteq> sb: subtree_build I heap fl W seed coef_hw "lms_node a b (priv_I priv) (priv_seed priv)" "priv_I priv"
    "op_hash_alg b" "lp_height a"
proof
  show "length (priv_I priv) = 16" by (rule I16)
  show "length (lms_node a b (priv_I priv) (priv_seed priv) n) = 32" for n by simp
  show "lp_height a \<le> 25" by (rule h25)
  show "lms_node a b (priv_I priv) (priv_seed priv) n = lms_intr_hash (op_hash_alg b) (priv_I priv) (word_of_nat n)
      (lms_node a b (priv_I priv) (priv_seed priv) (2 * n)) (lms_node a b (priv_I priv) (priv_seed priv) (2 * n + 1))"
    if "0 < n" "n < 2 ^ lp_height a" for n
    unfolding lms_node_def by (subst merkle_node [OF that]) (simp add: lms_intr_at_def)
qed

context cached_tree begin

lemma ht_bounds:
  assumes "s < L"
  shows "0 < ht s" and "lv s \<le> h" and "ht s \<le> lv s" and "Suc s < L \<Longrightarrow> lv (Suc s) = lv s + ht (Suc s)"
    and "Suc s < L \<Longrightarrow> lv s = Suc s * j" and "s = L - 1 \<Longrightarrow> lv s = h"
proof -
  show top: "s = L - 1 \<Longrightarrow> lv s = h" using sizes by (auto simp: level_top_def level_height_def)
  have low: "lv s < h" if "Suc s < L"
  proof -
    have "Suc s * j \<le> (L - 1) * j" using that by (intro mult_le_mono1) simp
    then show ?thesis using sizes that by (simp add: level_top_def level_height_def add.commute)
  qed
  show "lv s \<le> h"
  proof (cases "Suc s < L")
    case True
    then show ?thesis using low by simp
  next
    case False
    then have "s = L - 1" using assms by simp
    then show ?thesis using top by simp
  qed
  show "0 < ht s" "ht s \<le> lv s" using sizes by (simp_all add: level_height_def level_top_def)
  show "Suc s < L \<Longrightarrow> lv (Suc s) = lv s + ht (Suc s)" "Suc s < L \<Longrightarrow> lv s = Suc s * j" by (simp_all add: level_top_def level_height_def)
qed

lemma lv_mono:
  assumes "s \<le> s'" and "s' < L"
  shows "lv s \<le> lv s'"
proof (cases "s = s'")
  case False
  then have "lv s = Suc s * j" using assms ht_bounds(5) [of s] by simp
  also have "\<dots> \<le> s' * j" using False assms(1) by (intro mult_le_mono1) simp
  also have "\<dots> \<le> lv s'" by (simp add: level_top_def)
  finally show ?thesis .
qed simp

text \<open>The \<open>p\<close>-th subtree of sublevel \<open>s\<close> with \<open>ci\<close> leaves.\<close>

definition psub :: "nat \<Rightarrow> nat \<Rightarrow> nat \<Rightarrow> lms_subtree_t \<Rightarrow> bool" where
  "psub s p ci sub \<longleftrightarrow> sub_shape h j L s sub \<and> sub_left_leaf sub = p * 2 ^ ht s \<and> sub_current_index sub = ci
     \<and> done_nodes V (rt s p) ci sub \<and> open_stack V (rt s p) ci sub"

lemma psub_geom: "s < L \<Longrightarrow> p < 2 ^ (h - lv s) \<Longrightarrow> psub s p ci sub \<Longrightarrow> sub_geom h (rt s p) sub"
  using ht_bounds [of s] by (simp add: psub_def sub_shape_def sub_geom_def level_root_def)

lemma psub_merging:
  assumes "s < L" and "p < 2 ^ (h - lv s)"
  shows "I l \<and> psub s p ci sub \<Longrightarrow> sb.merging (rt s p) (ht s) ci (sub_frame sub) ci (l, sub)"
    and "psub s p ci sub \<Longrightarrow> sb.merging (rt s p) (ht s) ci' (sub_frame sub) ci' (l, sub') \<Longrightarrow> I l \<and> psub s p ci' sub'"
  using assms psub_geom [of s p ci sub]
  by (auto simp: sb.merging_def psub_def sub_shape_def sub_frame_def sub_geom_def)

lemma runs_psub_add:
  assumes s: "s < L" "p < 2 ^ (h - lv s)" "ci < 2 ^ ht s" and leaf: "v = V (glob (rt s p) (2 ^ ht s + ci))"
  shows "runs fl (\<lambda>(l, sub). I l \<and> psub s p ci sub) (lms_tree_add_next_node v (priv_I priv) (op_hash_alg b) 32)
    (\<lambda>done (l, sub). I l \<and> (done \<longleftrightarrow> Suc ci = 2 ^ ht s) \<and> psub s p (Suc ci) sub)"
proof (rule runs_gen, unfold split_paired_all split)
  fix l sub assume ls: "I l \<and> psub s p ci sub"
  have "ht s \<le> 25" using ht_bounds(2,3) [OF s(1)] h25 by linarith
  then show "runs fl (\<lambda>t. t = (l, sub)) (lms_tree_add_next_node v (priv_I priv) (op_hash_alg b) 32)
      (\<lambda>done (l, sub). I l \<and> (done \<longleftrightarrow> Suc ci = 2 ^ ht s) \<and> psub s p (Suc ci) sub)"
    by (rule runs_conseq [OF sb.runs_add_next_node [OF s(3) _ leaf, where F = "sub_frame sub"]])
      (use psub_merging(1) [OF s(1,2) ls] psub_merging(2) [OF s(1,2) conjunct2 [OF ls]] in auto)
qed

end


context cached_tree begin

text \<open>The state of the cache: all active subtrees outside \<open>X\<close> are those of \<open>C\<close>.\<close>

definition ctx_ok :: "('w, 'm) lms_tree_ctx_t \<Rightarrow> bool" where
  "ctx_ok c \<longleftrightarrow> ctx_shape h j L c \<and> ctx_serves priv (op_hash_alg b) src lf al fr c"

definition tinv :: "nat set \<Rightarrow> ('w, 'm) lms_tree_ctx_t \<Rightarrow> 'm \<Rightarrow> ('w, 'm) tree_state \<Rightarrow> bool" where
  "tinv X C m st \<longleftrightarrow> I (t_lib st) \<and> t_mem st = m \<and> ctx_ok (t_ctx st)
     \<and> (\<forall>s < L. s \<notin> X \<longrightarrow> get_sub s Active (t_ctx st) = get_sub s Active C)"

definition writable :: "nat set \<Rightarrow> nat \<Rightarrow> role \<Rightarrow> bool" where
  "writable X s w \<longleftrightarrow> s < L \<and> (if w = Active then s \<in> X else Suc s < L)"

lemma ctx_okD:
  assumes "ctx_ok c"
  shows "ctx_height c = h" "ctx_n c = 32" "ctx_subtree_size c = j" "ctx_sublevels c = L" "ctx_levels c \<noteq> None"
    "length (levels_of c) = L" "ctx_lms_type c = priv_lms_type priv" "ctx_hash_alg c = op_hash_alg b" "ctx_I c = priv_I priv"
    "ctx_ots_pub c = src" "ctx_leaf_fn c = lf" "ctx_alloc c = al" "ctx_free c = fr"
    "writable X s w \<Longrightarrow> sub_shape h j L s (get_sub s w c)" "s < L \<Longrightarrow> sub_shape h j L s (get_sub s Active c)"
  using assms by (cases w; auto simp: ctx_ok_def ctx_shape_def ctx_serves_def writable_def)+

lemma tinvD: "tinv X C m st \<Longrightarrow> ctx_ok (t_ctx st)" "tinv X C m st \<Longrightarrow> I (t_lib st)" "tinv X C m st \<Longrightarrow> t_mem st = m"
  by (simp_all add: tinv_def)

lemma tinv_set_sub:
  assumes "tinv X C m st" and "writable X s w" and "sub_shape h j L s sub" and "I l"
  shows "tinv X C m (st\<lparr>t_lib := l, t_ctx := set_sub s w sub (t_ctx st)\<rparr>)"
  using assms ctx_okD(6) [OF tinvD(1) [OF assms(1)]] by (auto simp: tinv_def ctx_ok_def writable_def ctx_shape_set_sub get_set_sub)

lemma runs_on_sub:
  assumes "writable X s w" and f: "runs fl (\<lambda>(l, sub). I l \<and> P sub) f (\<lambda>x (l, sub). I l \<and> Q x sub)"
    and "\<And>x sub. Q x sub \<Longrightarrow> sub_shape h j L s sub"
  shows "runs fl (\<lambda>st. tinv X C m st \<and> P (get_sub s w (t_ctx st))) (on_sub s w f)
    (\<lambda>x st. tinv X C m st \<and> Q x (get_sub s w (t_ctx st)))"
proof (rule runsI)
  fix st assume st: "tinv X C m st \<and> P (get_sub s w (t_ctx st))"
  obtain r l sub where r: "f (t_lib st, get_sub s w (t_ctx st)) = (r, l, sub)" by (metis prod.collapse)
  have p: "I (t_lib st) \<and> P (get_sub s w (t_ctx st))" using st by (simp add: tinv_def)
  have len: "s < length (levels_of (t_ctx st))" using assms(1) ctx_okD(6) [OF tinvD(1) [OF conjunct1 [OF st]]] by (simp add: writable_def)
  show "case on_sub s w f st of (Inl _, _) \<Rightarrow> fl | (Inr x, st) \<Rightarrow> tinv X C m st \<and> Q x (get_sub s w (t_ctx st))"
  proof (cases r)
    case (Inl e)
    then show ?thesis using f p r by (fastforce simp: runs_def on_sub_def)
  next
    case (Inr x)
    then have iq: "I l \<and> Q x sub" using runs_result [OF f, of "(t_lib st, get_sub s w (t_ctx st))"] p r by fastforce
    then show ?thesis
      using tinv_set_sub [OF conjunct1 [OF st] assms(1) assms(3) [OF conjunct2 [OF iq]] conjunct1 [OF iq]] r Inr len by (simp add: on_sub_def get_set_sub)
  qed
qed

lemma runs_on_lib:
  assumes "gives fl I f (Inr x)"
  shows "runs fl (\<lambda>st. tinv X C m st \<and> R (t_ctx st)) (on_lib f) (\<lambda>y st. y = x \<and> tinv X C m st \<and> R (t_ctx st))"
  using assms by (fastforce simp: runs_def gives_def yields_def on_lib_def tinv_def split: prod.splits sum.splits)

lemma runs_on_sub_update:
  assumes "writable X s w" and "\<And>sub. P sub \<Longrightarrow> Q (f sub)" and "\<And>sub. Q sub \<Longrightarrow> sub_shape h j L s sub"
  shows "runs fl (\<lambda>st. tinv X C m st \<and> P (get_sub s w (t_ctx st))) (on_sub s w (update_sub f))
    (\<lambda>_ st. tinv X C m st \<and> Q (get_sub s w (t_ctx st)))"
  using assms(2,3) by (intro runs_on_sub [OF assms(1)] sb.runs_update_sub) auto

text \<open>The leaves.\<close>

lemma ots_pub_of_ok:
  assumes "ctx_ok c" and "unat q < 2 ^ h"
  shows "gives fl I (ots_pub_of c priv q) (Inr (ots_pub (op_hash_alg b) b (priv_I priv) (priv_seed priv) q))"
  using kq [OF _ assms(2)] gives_public_from_private [OF key I16 own_seed, of q] ctx_okD(10) [OF assms(1)]
  by (cases src) (auto simp: ots_pub_of_def default_ots_pub_def)

lemma leaf_value:
  assumes "unat (q :: u32) < 2 ^ h"
  shows "V (2 ^ h + unat q) = lms_leaf_hash (op_hash_alg b) (priv_I priv) (push_bit h 1 + q)
    (ots_pub (op_hash_alg b) b (priv_I priv) (priv_seed priv) q)"
  by (simp add: lms_node_def merkle_leaf lms_leaf_at_def push_bit_of_1)

lemma runs_compute_leaf:
  assumes q: "unat q < 2 ^ h" and "ctx_ok c0"
  shows "runs fl (\<lambda>st. tinv X C m st \<and> R (t_ctx st)) (or_fail LMS_ERR_INVALID (subtree_compute_leaf priv (ots_pub_of c0) q))
    (\<lambda>v st. v = V (2 ^ h + unat q) \<and> tinv X C m st \<and> R (t_ctx st))"
  unfolding subtree_compute_leaf_def
proof (rule runs_or_fail, rule runs_bind_look)
  fix st assume st: "tinv X C m st \<and> R (t_ctx st)"
  note c = ctx_okD [OF tinvD(1) [OF conjunct1 [OF st]]]
  show "runs fl (\<lambda>t. t = st) (let node_num = push_bit (ctx_height (t_ctx st)) 1 + q
     in case ctx_leaf_fn (t_ctx st) of
          Some f \<Rightarrow> on_lib (f priv q)
        | None \<Rightarrow> bind (or_fail LMS_ERR_INVALID (on_lib (ots_pub_of c0 priv q))) (\<lambda>ots_pub_buf.
            on_lib (lms_hash_parts (ctx_I (t_ctx st) @ lms_store_u32 node_num @ lms_store_u16 D_LEAF) ots_pub_buf [] [] (ctx_hash_alg (t_ctx st)))))
     (\<lambda>v st. v = V (2 ^ h + unat q) \<and> tinv X C m st \<and> R (t_ctx st))"
  proof (cases lf)
    case (Some f)
    show ?thesis unfolding Let_def c(11)
      by (subst Some, unfold option.case, rule runs_pre [OF runs_on_lib [OF leaf [OF Some q], where R = R]]) (use st in simp)
  next
    case None
    have hash: "gives fl I (lms_hash_parts (priv_I priv @ lms_store_u32 (push_bit h 1 + q) @ lms_store_u16 D_LEAF)
        (ots_pub (op_hash_alg b) b (priv_I priv) (priv_seed priv) q) [] [] (op_hash_alg b)) (Inr (V (2 ^ h + unat q)))"
      unfolding leaf_value [OF q] by (rule gives_leaf_hash [OF I16]) simp
    show ?thesis unfolding Let_def c(1,8,9,11)
      by (subst None, unfold option.case, rule runs_bind [OF runs_or_fail [OF runs_pre [OF runs_on_lib [OF ots_pub_of_ok [OF assms(2) q], where R = R and X = X and C = C and m = m]]]],
          use st in simp, rule runs_fact, erule ssubst, rule runs_on_lib [OF hash])
  qed
qed


subsection \<open>Subtrees\<close>

lemma leaf_index:
  assumes "s < L" and "k < 2 ^ ht s"
  shows "glob (rt s p) (2 ^ ht s + k) = 2 ^ (h - s * j) + (p * 2 ^ ht s + k)"
proof -
  have "h - lv s + ht s = h - s * j" using ht_bounds(2) [OF assms(1)] by (simp add: level_top_def)
  then show ?thesis using assms(2) by (simp add: glob_rep level_root_def add_mult_distrib power_add [symmetric])
qed

lemma segment_bound:
  assumes "s < L" and "(p :: nat) < 2 ^ (h - lv s)" and "k < 2 ^ ht s"
  shows "p * 2 ^ ht s + k < 2 ^ (h - s * j)"
proof -
  have e: "h - lv s + ht s = h - s * j" using ht_bounds(2) [OF assms(1)] by (simp add: level_top_def)
  have "p * 2 ^ ht s + k < Suc p * 2 ^ ht s" using assms(3) by simp
  also have "\<dots> \<le> 2 ^ (h - lv s) * 2 ^ ht s" using assms(2) by (intro mult_le_mono1) simp
  also have "\<dots> = 2 ^ (h - s * j)" by (simp only: power_add [symmetric] e)
  finally show ?thesis .
qed

lemma psub_shape: "psub s p ci sub \<Longrightarrow> sub_shape h j L s sub"
  by (simp add: psub_def)

lemma psub_reset:
  assumes "sub_shape h j L s sub"
  shows "psub s p 0 (subtree_reset_to (p * 2 ^ ht s) sub)"
  using assms by (simp add: psub_def sub_shape_def subtree_reset_to_def sub_bufs_def done_nodes_def open_stack_def)

lemma runs_add_at:
  assumes "writable X s w" and "p < 2 ^ (h - lv s)" and "ci < 2 ^ ht s" and "v = V (2 ^ (h - s * j) + (p * 2 ^ ht s + ci))"
    and c: "ctx_I c = priv_I priv" "ctx_hash_alg c = op_hash_alg b" "ctx_n c = 32"
  shows "runs fl (\<lambda>st. tinv X C m st \<and> psub s p ci (get_sub s w (t_ctx st)))
    (on_sub s w (lms_tree_add_next_node v (ctx_I c) (ctx_hash_alg c) (ctx_n c)))
    (\<lambda>done st. tinv X C m st \<and> (done \<longleftrightarrow> Suc ci = 2 ^ ht s) \<and> psub s p (Suc ci) (get_sub s w (t_ctx st)))"
proof -
  have s: "s < L" using assms(1) by (simp add: writable_def)
  show ?thesis unfolding c
    by (rule runs_on_sub [OF assms(1) runs_psub_add [OF s assms(2,3)]]) (use assms(4) leaf_index [OF s assms(3)] psub_shape in auto)
qed

lemma runs_push_leaf:
  assumes w: "writable X 0 w" and p: "p < 2 ^ (h - lv 0)" and ci: "ci < 2 ^ ht 0" and c0: "ctx_ok c0"
  shows "runs fl (\<lambda>st. tinv X C m st \<and> psub 0 p ci (get_sub 0 w (t_ctx st)))
    (or_fail LMS_ERR_INVALID (subtree_push_leaf priv (ots_pub_of c0) 0 w (word_of_nat (p * 2 ^ ht 0 + ci))))
    (\<lambda>done st. tinv X C m st \<and> (done \<longleftrightarrow> Suc ci = 2 ^ ht 0) \<and> psub 0 p (Suc ci) (get_sub 0 w (t_ctx st)))"
proof -
  have "(2 :: nat) ^ h \<le> 2 ^ 25" using h25 by (rule power_increasing) simp
  moreover have lt: "p * 2 ^ ht 0 + ci < 2 ^ h" using segment_bound [OF sizes(2) p ci] by simp
  ultimately have u: "unat (word_of_nat (p * 2 ^ ht 0 + ci) :: u32) = p * 2 ^ ht 0 + ci" by (intro unat_of_nat_u32) simp
  then have lt': "unat (word_of_nat (p * 2 ^ ht 0 + ci) :: u32) < 2 ^ h" using lt by simp
  note comp = runs_compute_leaf [OF lt' c0, where R = "\<lambda>c. psub 0 p ci (get_sub 0 w c)", unfolded u]
  show ?thesis unfolding subtree_push_leaf_def
  proof (rule runs_or_fail, rule runs_bind [OF comp], rule runs_fact, rule runs_bind_look)
    fix v st assume v: "v = V (2 ^ h + (p * 2 ^ ht 0 + ci))" and st: "tinv X C m st \<and> psub 0 p ci (get_sub 0 w (t_ctx st))"
    note c = ctx_okD [OF tinvD(1) [OF conjunct1 [OF st]]]
    show "runs fl (\<lambda>t. t = st) (on_sub 0 w (lms_tree_add_next_node v (ctx_I (t_ctx st)) (ctx_hash_alg (t_ctx st)) (ctx_n (t_ctx st))))
        (\<lambda>done st. tinv X C m st \<and> (done \<longleftrightarrow> Suc ci = 2 ^ ht 0) \<and> psub 0 p (Suc ci) (get_sub 0 w (t_ctx st)))"
      by (rule runs_pre [OF runs_add_at [OF w p ci _ c(9,8,2)]]) (use v st in simp_all)
  qed
qed

text \<open>The loop that fills a subtree, for either source of leaves.\<close>

lemma runs_fill:
  assumes w: "writable X s w"
    and step: "\<And>i. i < 2 ^ ht s \<Longrightarrow> runs fl (\<lambda>st. tinv X C m st \<and> psub s p i (get_sub s w (t_ctx st))) (f i)
      (\<lambda>done st. tinv X C m st \<and> (done \<longleftrightarrow> Suc i = 2 ^ ht s) \<and> psub s p (Suc i) (get_sub s w (t_ctx st)))"
  shows "runs fl (tinv X C m)
    (andthen (on_sub s w (update_sub (subtree_reset_to (p * 2 ^ ht s))))
     (bind (fold_each (\<lambda>i _. f i) [0..<2 ^ ht s] False) (\<lambda>done. reject_if (\<not> done) LMS_ERR_INVALID)))
    (\<lambda>_ st. tinv X C m st \<and> psub s p (2 ^ ht s) (get_sub s w (t_ctx st)))"
proof -
  let ?P = "\<lambda>i done st. tinv X C m st \<and> (0 < i \<longrightarrow> (done \<longleftrightarrow> i = 2 ^ ht s)) \<and> psub s p i (get_sub s w (t_ctx st))"
  have reset: "runs fl (tinv X C m) (on_sub s w (update_sub (subtree_reset_to (p * 2 ^ ht s))))
      (\<lambda>_ st. tinv X C m st \<and> psub s p 0 (get_sub s w (t_ctx st)))"
    by (rule runs_pre [OF runs_on_sub_update [OF w, where P = "sub_shape h j L s"]])
      (auto simp: psub_reset psub_shape tinvD(1) intro: ctx_okD(14) [OF _ w])
  have loop: "runs fl (?P 0 False) (fold_each (\<lambda>i _. f i) [0..<2 ^ ht s] False) (?P (2 ^ ht s))"
    by (rule runs_fold_each [where P = ?P]) (rule runs_conseq [OF step], auto)
  show ?thesis by (rule runs_andthen [OF reset], rule runs_bind [OF runs_pre [OF loop]]) (auto intro!: runs_reject)
qed

lemma runs_build_bottom:
  assumes w: "writable X 0 w" and p: "p < 2 ^ (h - lv 0)" and c0: "ctx_ok c0"
  shows "runs fl (tinv X C m) (subtree_build_bottom priv (ots_pub_of c0) 0 w (p * 2 ^ ht 0))
    (\<lambda>_ st. tinv X C m st \<and> psub 0 p (2 ^ ht 0) (get_sub 0 w (t_ctx st)))"
  unfolding subtree_build_bottom_def
proof (rule runs_bind_look)
  fix st assume st: "tinv X C m st"
  have hh: "sub_height (get_sub 0 w (t_ctx st)) = ht 0" using ctx_okD(14) [OF tinvD(1) [OF st] w] by (simp add: sub_shape_def)
  show "runs fl (\<lambda>t. t = st) (andthen (on_sub 0 w (update_sub (subtree_reset_to (p * 2 ^ ht 0))))
     (bind (fold_each (\<lambda>i _. or_fail LMS_ERR_INVALID (subtree_push_leaf priv (ots_pub_of c0) 0 w (word_of_nat (p * 2 ^ ht 0 + i))))
        [0..<2 ^ sub_height (get_sub 0 w (t_ctx st))] False) (\<lambda>done. reject_if (\<not> done) LMS_ERR_INVALID)))
     (\<lambda>_ st. tinv X C m st \<and> psub 0 p (2 ^ ht 0) (get_sub 0 w (t_ctx st)))"
    unfolding hh by (rule runs_pre [OF runs_fill [OF w runs_push_leaf [OF w p _ c0]]]) (use st in simp_all)
qed

lemma runs_build_upper:
  assumes w: "writable X s w" and p: "p < 2 ^ (h - lv s)"
    and roots: "\<And>k. k < 2 ^ ht s \<Longrightarrow> roots ! k = V (2 ^ (h - s * j) + (p * 2 ^ ht s + k))"
  shows "runs fl (tinv X C m) (subtree_build_upper s w (p * 2 ^ ht s) roots)
    (\<lambda>_ st. tinv X C m st \<and> psub s p (2 ^ ht s) (get_sub s w (t_ctx st)))"
  unfolding subtree_build_upper_def
proof (rule runs_bind_look, rule runs_bind_look, clarify)
  fix st assume st: "tinv X C m st"
  note c = ctx_okD [OF tinvD(1) [OF st]]
  have hh: "sub_height (get_sub s w (t_ctx st)) = ht s" using c(14) [OF w] by (simp add: sub_shape_def)
  show "runs fl (\<lambda>t. t = st) (andthen (on_sub s w (update_sub (subtree_reset_to (p * 2 ^ ht s))))
     (bind (fold_each (\<lambda>i _. or_fail LMS_ERR_INVALID (on_sub s w
        (lms_tree_add_next_node (roots ! i) (ctx_I (t_ctx st)) (ctx_hash_alg (t_ctx st)) (ctx_n (t_ctx st)))))
        [0..<2 ^ sub_height (get_sub s w (t_ctx st))] False) (\<lambda>done. reject_if (\<not> done) LMS_ERR_INVALID)))
     (\<lambda>_ st. tinv X C m st \<and> psub s p (2 ^ ht s) (get_sub s w (t_ctx st)))"
    unfolding hh by (rule runs_pre [OF runs_fill [OF w runs_or_fail [OF runs_add_at [OF w p _ roots c(9,8,2)]]]]) (use st in simp_all)
qed

text \<open>A complete subtree.\<close>

lemma psub_complete:
  assumes "s < L" and "(p :: nat) < 2 ^ (h - lv s)" and "psub s p (2 ^ ht s) sub" and "0 < loc" and "loc < 2 ^ Suc (ht s)"
  shows "slots (sub_nodes sub) ! loc = V (glob (rt s p) loc)"
  using assms done_nodes_complete [of V "rt s p" sub loc] by (simp add: psub_def sub_shape_def)

end

context cached_tree begin

lemma runs_allocate:
  "runs fl (tinv X C m) (allocate n) (\<lambda>r st. r = fst (al n m) \<and> tinv X C (snd (al n m)) st)"
  by (rule runsI) (use ctx_okD(12) [OF tinvD(1)] in \<open>auto simp: allocate_def tinv_def split: prod.splits\<close>)

lemma runs_release: "runs fl (tinv X C m) (release x) (\<lambda>_. tinv X C (fr x m))"
  unfolding release_def by (rule runs_modify) (use ctx_okD(13) [OF tinvD(1)] in \<open>auto simp: tinv_def\<close>)

lemma runs_place:
  assumes "writable X s w" and "\<And>sub. sub_shape h j L s sub \<Longrightarrow> sub_shape h j L s (u sub)"
  shows "runs fl (tinv X C m) (on_sub s w (update_sub u)) (\<lambda>_. tinv X C m)"
proof -
  have "tinv X C m st \<Longrightarrow> sub_shape h j L s (get_sub s w (t_ctx st))" for st using ctx_okD(14) [OF tinvD(1) assms(1)] .
  then show ?thesis
    by (intro runs_conseq [OF runs_on_sub_update [OF assms(1), where P = "sub_shape h j L s" and Q = "sub_shape h j L s"]])
      (use assms(2) in auto)
qed

lemma segment_start:
  fixes p k :: nat
  assumes "Suc s < L"
  shows "p * 2 ^ lv (Suc s) + k * 2 ^ lv s = (p * 2 ^ ht (Suc s) + k) * 2 ^ lv s"
    and "drop_bit (Suc s * j) (p * 2 ^ lv (Suc s)) = p * 2 ^ ht (Suc s)"
proof -
  have l: "lv (Suc s) = lv s + ht (Suc s)" "lv s = Suc s * j" using ht_bounds(4,5) assms Suc_lessD by blast+
  show "p * 2 ^ lv (Suc s) + k * 2 ^ lv s = (p * 2 ^ ht (Suc s) + k) * 2 ^ lv s" unfolding l(1) by (simp add: power_add algebra_simps)
  have "p * 2 ^ lv (Suc s) = p * 2 ^ ht (Suc s) * 2 ^ (Suc s * j)" unfolding l by (simp only: power_add mult_ac)
  then show "drop_bit (Suc s * j) (p * 2 ^ lv (Suc s)) = p * 2 ^ ht (Suc s)"
    by (simp only: drop_bit_eq_div nonzero_mult_div_cancel_right power_not_zero) simp
qed

lemma lower_bound:
  fixes p k :: nat
  assumes "Suc s < L" and "p < 2 ^ (h - lv (Suc s))" and "k < 2 ^ ht (Suc s)"
  shows "p * 2 ^ ht (Suc s) + k < 2 ^ (h - lv s)"
  using segment_bound [OF assms] ht_bounds(5) [of s] assms(1) by simp

text \<open>The loop over the subtrees below.\<close>

lemma runs_lower_roots:
  assumes s: "Suc s < L" and p: "p < 2 ^ (h - lv (Suc s))" and c0: "ctx_ok c0"
    and mem: "repeat_mem (build_mem h j L al fr s) (2 ^ ht (Suc s)) m = None \<Longrightarrow> fl"
    and rec: "\<And>w p m. writable X s w \<Longrightarrow> p < 2 ^ (h - lv s) \<Longrightarrow> (build_mem h j L al fr s m = None \<Longrightarrow> fl) \<Longrightarrow>
      runs fl (tinv X C m) (subtree_build_at priv (ots_pub_of c0) s w (p * 2 ^ lv s))
        (\<lambda>_ st. \<exists>m'. build_mem h j L al fr s m = Some m' \<and> tinv X C m' st \<and> psub s p (2 ^ ht s) (get_sub s w (t_ctx st)))"
  shows "runs fl (tinv X C m) (for_each (\<lambda>k.
       andthen (or_fail LMS_ERR_INVALID (subtree_build_at priv (ots_pub_of c0) s Upcoming (p * 2 ^ lv (Suc s) + k * 2 ^ lv s)))
         (look (\<lambda>st. slots (sub_nodes (get_sub s Upcoming (t_ctx st))) ! 1))) [0..<2 ^ ht (Suc s)])
    (\<lambda>roots st. roots = map (\<lambda>k. V (rt s (p * 2 ^ ht (Suc s) + k))) [0..<2 ^ ht (Suc s)]
       \<and> (\<exists>m'. repeat_mem (build_mem h j L al fr s) (2 ^ ht (Suc s)) m = Some m' \<and> tinv X C m' st))"
proof -
  let ?B = "build_mem h j L al fr s" and ?n = "2 ^ ht (Suc s) :: nat"
  let ?P = "\<lambda>k st. \<exists>m'. repeat_mem ?B k m = Some m' \<and> tinv X C m' st"
  have w: "writable X s Upcoming" using s by (simp add: writable_def)
  have step: "runs fl (?P k) (andthen (or_fail LMS_ERR_INVALID (subtree_build_at priv (ots_pub_of c0) s Upcoming (p * 2 ^ lv (Suc s) + k * 2 ^ lv s)))
         (look (\<lambda>st. slots (sub_nodes (get_sub s Upcoming (t_ctx st))) ! 1))) (\<lambda>v st. v = V (rt s (p * 2 ^ ht (Suc s) + k)) \<and> ?P (Suc k) st)"
    if k: "k < ?n" for k
  proof (intro runs_ex runs_fact)
    fix m' assume m': "repeat_mem ?B k m = Some m'"
    have pk: "p * 2 ^ ht (Suc s) + k < 2 ^ (h - lv s)" by (rule lower_bound [OF s p k])
    have "?B m' = None \<Longrightarrow> fl" using mem repeat_mem_None [of ?B "Suc k" m ?n] k m' by simp
    note r = rec [OF w pk this, folded segment_start(1) [OF s]]
    have one: "1 < (2 :: nat) ^ Suc (ht s)" by (rule one_less_power) simp_all
    have root: "slots (sub_nodes sub) ! 1 = V (rt s (p * 2 ^ ht (Suc s) + k))"
      if "psub s (p * 2 ^ ht (Suc s) + k) (2 ^ ht s) sub" for sub
      using psub_complete [OF _ pk that zero_less_one one] s by simp
    show "runs fl (tinv X C m') (andthen (or_fail LMS_ERR_INVALID (subtree_build_at priv (ots_pub_of c0) s Upcoming (p * 2 ^ lv (Suc s) + k * 2 ^ lv s)))
         (look (\<lambda>st. slots (sub_nodes (get_sub s Upcoming (t_ctx st))) ! 1))) (\<lambda>v st. v = V (rt s (p * 2 ^ ht (Suc s) + k)) \<and> ?P (Suc k) st)"
      by (rule runs_andthen [OF runs_or_fail [OF r] runs_look]) (use root m' in auto)
  qed
  have "runs fl (?P 0) (for_each (\<lambda>k.
       andthen (or_fail LMS_ERR_INVALID (subtree_build_at priv (ots_pub_of c0) s Upcoming (p * 2 ^ lv (Suc s) + k * 2 ^ lv s)))
         (look (\<lambda>st. slots (sub_nodes (get_sub s Upcoming (t_ctx st))) ! 1))) [0..<?n])
      (\<lambda>roots st. roots = map (\<lambda>k. V (rt s (p * 2 ^ ht (Suc s) + k))) [0..<?n] \<and> ?P ?n st)"
    by (rule runs_for_each) (rule step, simp_all)
  then show ?thesis by simp
qed

lemma runs_build_at:
  assumes "writable X s w" and "p < 2 ^ (h - lv s)" and c0: "ctx_ok c0" and "build_mem h j L al fr s m = None \<Longrightarrow> fl"
  shows "runs fl (tinv X C m) (subtree_build_at priv (ots_pub_of c0) s w (p * 2 ^ lv s))
    (\<lambda>_ st. \<exists>m'. build_mem h j L al fr s m = Some m' \<and> tinv X C m' st \<and> psub s p (2 ^ ht s) (get_sub s w (t_ctx st)))"
  using assms(1,2,4)
proof (induction s arbitrary: w p m)
  case 0
  have l0: "lv 0 = ht 0" by (simp add: level_top_def)
  show ?case unfolding subtree_build_at.simps
  proof (rule runs_bind_look)
    fix st assume st: "tinv X C m st"
    note c = ctx_okD [OF tinvD(1) [OF st]]
    have "runs fl (\<lambda>t. t = st) (on_sub 0 w (update_sub (\<lambda>sub. sub\<lparr>sub_level := sub_height sub, sub_levels_below := 0,
        sub_tree_height := ctx_height (t_ctx st)\<rparr>))) (\<lambda>_. tinv X C m)"
      by (rule runs_pre [OF runs_place [OF 0(1)]]) (use st c(1) in \<open>auto simp: sub_shape_def sub_bufs_def l0\<close>)
    then show "runs fl (\<lambda>t. t = st) (andthen (on_sub 0 w (update_sub (\<lambda>sub. sub\<lparr>sub_level := sub_height sub, sub_levels_below := 0,
        sub_tree_height := ctx_height (t_ctx st)\<rparr>))) (subtree_build_bottom priv (ots_pub_of c0) 0 w (p * 2 ^ lv 0)))
      (\<lambda>_ st. \<exists>m'. build_mem h j L al fr 0 m = Some m' \<and> tinv X C m' st \<and> psub 0 p (2 ^ ht 0) (get_sub 0 w (t_ctx st)))"
      using runs_post [OF runs_build_bottom [OF 0(1,2) c0]] unfolding l0 by (intro runs_andthen) simp_all
  qed
next
  case (Suc s)
  then have s: "Suc s < L" by (simp add: writable_def)
  let ?n = "2 ^ ht (Suc s) :: nat" and ?B = "build_mem h j L al fr s"
  have l: "lv s = Suc s * j" using ht_bounds(5) s by simp
  show ?case unfolding subtree_build_at.simps
  proof (rule runs_bind_look)
    fix st assume st: "tinv X C m st"
    note c = ctx_okD [OF tinvD(1) [OF st]]
    have "writable X s Upcoming" using s by (simp add: writable_def)
    then have low: "s * j + sub_height (get_sub s Upcoming (t_ctx st)) = lv s" using c(14) by (simp add: sub_shape_def level_top_def)
    have hh: "sub_height (get_sub (Suc s) w (t_ctx st)) = ht (Suc s)" using c(14) [OF Suc.prems(1)] by (simp add: sub_shape_def)
    have place: "runs fl (\<lambda>t. t = st) (on_sub (Suc s) w (update_sub (\<lambda>sub. sub\<lparr>sub_level := Suc s * j + sub_height sub,
        sub_levels_below := Suc s * j, sub_tree_height := h\<rparr>))) (\<lambda>_. tinv X C m)"
      by (rule runs_pre [OF runs_place [OF Suc.prems(1)]]) (use st in \<open>auto simp: sub_shape_def sub_bufs_def level_top_def\<close>)
    have rest: "runs fl (tinv X C m1) (bind (attempt (bind (for_each (\<lambda>k.
                 andthen (or_fail LMS_ERR_INVALID (subtree_build_at priv (ots_pub_of c0) s Upcoming (p * 2 ^ lv (Suc s) + k * 2 ^ lv s)))
                   (look (\<lambda>st. slots (sub_nodes (get_sub s Upcoming (t_ctx st))) ! 1))) [0..<?n])
               (subtree_build_upper (Suc s) w (drop_bit (Suc s * j) (p * 2 ^ lv (Suc s)))))) (\<lambda>rc.
             andthen (release x) (case rc of Inl e \<Rightarrow> fail e | Inr _ \<Rightarrow> ret ())))
       (\<lambda>_ st. \<exists>m'. build_mem h j L al fr (Suc s) m = Some m' \<and> tinv X C m' st \<and> psub (Suc s) p ?n (get_sub (Suc s) w (t_ctx st)))"
      if x: "al (?n * 32) m = (Some x, m1)" for x m1
    proof -
      have "repeat_mem ?B ?n m1 = None \<Longrightarrow> fl" using Suc.prems(3) x by simp
      note roots = runs_lower_roots [OF s Suc.prems(2) c0 this, OF _ Suc.IH]
      have up: "runs fl (tinv X C m2) (subtree_build_upper (Suc s) w (p * 2 ^ ht (Suc s)) (map (\<lambda>k. V (rt s (p * 2 ^ ht (Suc s) + k))) [0..<?n]))
          (\<lambda>_ st. tinv X C m2 st \<and> psub (Suc s) p ?n (get_sub (Suc s) w (t_ctx st)))" for m2
        by (rule runs_build_upper [OF Suc.prems(1,2)]) (simp add: level_root_def l)
      let ?R = "\<lambda>_ st. \<exists>m2. repeat_mem ?B ?n m1 = Some m2 \<and> tinv X C m2 st \<and> psub (Suc s) p ?n (get_sub (Suc s) w (t_ctx st))"
      have "runs fl (\<lambda>st. \<exists>m2. repeat_mem ?B ?n m1 = Some m2 \<and> tinv X C m2 st)
          (subtree_build_upper (Suc s) w (p * 2 ^ ht (Suc s)) (map (\<lambda>k. V (rt s (p * 2 ^ ht (Suc s) + k))) [0..<?n])) ?R"
        by (intro runs_ex runs_fact) (rule runs_post [OF up], blast)
      then have body: "runs fl (tinv X C m1) (bind (for_each (\<lambda>k.
                 andthen (or_fail LMS_ERR_INVALID (subtree_build_at priv (ots_pub_of c0) s Upcoming (p * 2 ^ lv (Suc s) + k * 2 ^ lv s)))
                   (look (\<lambda>st. slots (sub_nodes (get_sub s Upcoming (t_ctx st))) ! 1))) [0..<?n])
               (subtree_build_upper (Suc s) w (drop_bit (Suc s * j) (p * 2 ^ lv (Suc s))))) ?R"
        unfolding segment_start(2) [OF s] by (intro runs_bind [OF roots] runs_fact) simp_all
      have rel: "runs fl (?R y) (release x) (\<lambda>_ st. \<exists>m'. build_mem h j L al fr (Suc s) m = Some m' \<and> tinv X C m' st
          \<and> psub (Suc s) p ?n (get_sub (Suc s) w (t_ctx st)))" for y :: unit
        by (rule runsI) (use x ctx_okD(13) [OF tinvD(1)] in \<open>auto simp: release_def op_defs tinv_def\<close>)
      show ?thesis by (rule runs_finally [OF body rel])
    qed
    show "runs fl (\<lambda>t. t = st) (let j = ctx_subtree_size (t_ctx st);
         height = sub_height (get_sub (Suc s) w (t_ctx st));
         lower_root_level = s * j + sub_height (get_sub s Upcoming (t_ctx st));
         lower_span = 2 ^ lower_root_level
     in andthen (on_sub (Suc s) w (update_sub (\<lambda>sub. sub\<lparr>sub_level := Suc s * j + sub_height sub, sub_levels_below := Suc s * j,
              sub_tree_height := ctx_height (t_ctx st)\<rparr>)))
        (bind (allocate (2 ^ height * ctx_n (t_ctx st))) (\<lambda>my_roots. case my_roots of
           None \<Rightarrow> fail LMS_ERR_INVALID
         | Some a \<Rightarrow>
             bind (attempt (bind (for_each (\<lambda>k.
                 andthen (or_fail LMS_ERR_INVALID (subtree_build_at priv (ots_pub_of c0) s Upcoming (p * 2 ^ lv (Suc s) + k * lower_span)))
                   (look (\<lambda>st. slots (sub_nodes (get_sub s Upcoming (t_ctx st))) ! 1))) [0..<2 ^ height])
               (subtree_build_upper (Suc s) w (drop_bit (Suc s * j) (p * 2 ^ lv (Suc s)))))) (\<lambda>rc.
             andthen (release a) (case rc of Inl e \<Rightarrow> fail e | Inr _ \<Rightarrow> ret ())))))
       (\<lambda>_ st. \<exists>m'. build_mem h j L al fr (Suc s) m = Some m' \<and> tinv X C m' st \<and> psub (Suc s) p ?n (get_sub (Suc s) w (t_ctx st)))"
      unfolding Let_def c(1,2,3) low hh
    proof (rule runs_andthen [OF place], rule runs_bind [OF runs_allocate], rule runs_fact)
      fix r assume r: "r = fst (al (?n * 32) m)"
      show "runs fl (tinv X C (snd (al (?n * 32) m))) (case r of None \<Rightarrow> fail LMS_ERR_INVALID
         | Some a \<Rightarrow> bind (attempt (bind (for_each (\<lambda>k.
                 andthen (or_fail LMS_ERR_INVALID (subtree_build_at priv (ots_pub_of c0) s Upcoming (p * 2 ^ lv (Suc s) + k * 2 ^ lv s)))
                   (look (\<lambda>st. slots (sub_nodes (get_sub s Upcoming (t_ctx st))) ! 1))) [0..<?n])
               (subtree_build_upper (Suc s) w (drop_bit (Suc s * j) (p * 2 ^ lv (Suc s)))))) (\<lambda>rc.
             andthen (release a) (case rc of Inl e \<Rightarrow> fail e | Inr _ \<Rightarrow> ret ())))
        (\<lambda>_ st. \<exists>m'. build_mem h j L al fr (Suc s) m = Some m' \<and> tinv X C m' st \<and> psub (Suc s) p ?n (get_sub (Suc s) w (t_ctx st)))"
        using r rest Suc.prems(3) by (cases "al (?n * 32) m"; cases r) (auto intro: runs_fail)
    qed
  qed
qed

end

section \<open>Lookup\<close>

lemma xor_one_sibling: "(n :: nat) XOR 1 = sibling n"
  by (cases "even n") (simp_all add: xor_Suc_0_eq sibling_def)

lemma glob_half: "2 \<le> loc \<Longrightarrow> glob g (loc div 2) = glob g loc div 2"
  using glob_double [of "loc div 2" g] by (cases "even loc") (auto elim!: evenE oddE)

lemma glob_sibling: "2 \<le> loc \<Longrightarrow> glob g (sibling loc) = sibling (glob g loc)"
  using glob_double [of "loc div 2" g] by (cases "even loc") (auto simp: sibling_def elim!: evenE oddE)

lemma level_siblings_eq:
  assumes nodes: "\<And>loc. 0 < loc \<Longrightarrow> loc < 2 ^ Suc sh \<Longrightarrow> nodes ! loc = V (glob g loc)"
    and "2 ^ d \<le> loc" and "loc < 2 ^ Suc sh"
  shows "level_siblings d nodes loc = map (\<lambda>i. V (sibling (glob g loc div 2 ^ i))) [0..<d]"
  using assms(2,3)
proof (induction d arbitrary: loc)
  case (Suc d)
  have two: "2 \<le> loc" using Suc.prems(1) one_le_power [of "2 :: nat" d] by (simp only: power_Suc) linarith
  have sib: "0 < sibling loc" "sibling loc < 2 ^ Suc sh" using two Suc.prems(2) by (auto simp: sibling_def elim!: evenE)
  have "level_siblings d nodes (loc div 2) = map (\<lambda>i. V (sibling (glob g loc div 2 ^ Suc i))) [0..<d]"
    using Suc.IH [of "loc div 2"] Suc.prems by (simp add: glob_half [OF two] div_mult2_eq)
  then show ?case
    by (simp add: nodes [OF sib] xor_one_sibling [simplified] glob_sibling [OF two] map_upt_Suc del: upt_Suc)
qed simp

context cached_tree begin

text \<open>The cache holds the subtrees around leaf \<open>q\<close>.\<close>

definition cached :: "nat \<Rightarrow> ('w, 'm) lms_tree_ctx_t \<Rightarrow> bool" where
  "cached q c \<longleftrightarrow> (\<forall>s < L. psub s (q div 2 ^ lv s) (2 ^ ht s) (get_sub s Active c))"

lemma level_path:
  assumes sub: "psub s (q div 2 ^ lv s) (2 ^ ht s) (get_sub s Active c)" and q: "q < 2 ^ h" and s: "s < L"
  shows "level_siblings (sub_height (get_sub s Active c)) (slots (sub_nodes (get_sub s Active c)))
      (2 ^ ht s + (q div 2 ^ (s * j) AND (2 ^ ht s - 1)))
    = map (\<lambda>i. V (sibling ((2 ^ h + q) div 2 ^ i))) [s * j..<lv s]"
proof -
  let ?p = "q div 2 ^ lv s" and ?k = "q div 2 ^ (s * j) mod 2 ^ ht s"
  note b = ht_bounds [OF s]
  have lt: "?p < 2 ^ (h - lv s)" using q b(2) by (intro less_mult_imp_div_less) (simp add: power_add [symmetric])
  have lvs: "lv s = s * j + ht s" by (simp add: level_top_def)
  have pk: "?p * 2 ^ ht s + ?k = q div 2 ^ (s * j)" unfolding lvs power_add div_mult2_eq by (rule div_mult_mod_eq)
  have "2 ^ h = 2 ^ (h - s * j) * (2 :: nat) ^ (s * j)" using b(2) lvs by (simp add: power_add [symmetric])
  then have node: "glob (rt s ?p) (2 ^ ht s + ?k) = (2 ^ h + q) div 2 ^ (s * j)"
    using leaf_index [OF s, of ?k ?p] pk by simp
  have mask: "x AND (2 ^ ht s - 1) = x mod 2 ^ ht s" for x :: nat
    by (simp add: take_bit_eq_mod [symmetric] take_bit_eq_mask mask_eq_exp_minus_1)
  have "sub_height (get_sub s Active c) = ht s" using sub by (simp add: psub_def sub_shape_def)
  then have "level_siblings (sub_height (get_sub s Active c)) (slots (sub_nodes (get_sub s Active c))) (2 ^ ht s + ?k)
      = map (\<lambda>i. V (sibling ((2 ^ h + q) div 2 ^ (s * j) div 2 ^ i))) [0..<ht s]"
    unfolding node [symmetric]
    by (subst level_siblings_eq [where sh = "ht s" and V = V and g = "rt s ?p"])
      (use psub_complete [OF s lt sub] in auto)
  also have "\<dots> = map (\<lambda>i. V (sibling ((2 ^ h + q) div 2 ^ i))) [s * j..<lv s]"
    by (rule nth_equalityI) (simp_all add: lvs div_mult2_eq power_add)
  finally show ?thesis unfolding mask .
qed

lemma join_levels_path:
  assumes c: "ctx_ok c" and q: "q < 2 ^ h"
  shows "s \<le> L \<Longrightarrow> (\<And>s'. s \<le> s' \<Longrightarrow> s' < L \<Longrightarrow> psub s' (q div 2 ^ lv s') (2 ^ ht s') (get_sub s' Active c)) \<Longrightarrow> join_levels (drop s (levels_of c)) (q div 2 ^ (s * j)) =
    map (\<lambda>i. V (sibling ((2 ^ h + q) div 2 ^ i))) [if s < L then s * j else h..<h]"
proof (induction "L - s" arbitrary: s)
  case 0
  then show ?case using ctx_okD(6) [OF c] by simp
next
  case (Suc n)
  then have s: "s < L" "s < length (levels_of c)" using ctx_okD(6) [OF c] by simp_all
  note b = ht_bounds [OF s(1)]
  have sl: "sl_active (levels_of c ! s) = get_sub s Active c" by (simp add: get_sub_def)
  have hh: "sub_height (get_sub s Active c) = ht s" using ctx_okD(15) [OF c s(1)] by (simp add: sub_shape_def)
  have lvs: "lv s = s * j + ht s" by (simp add: level_top_def)
  have split: "[s * j..<h] = [s * j..<lv s] @ [lv s..<h]" using b(2) upt_add_eq_append [of "s * j" "lv s" "h - lv s"] lvs by simp
  have next': "(if Suc s < L then Suc s * j else h) = lv s"
  proof (cases "Suc s < L")
    case False
    then have "s = L - 1" using s(1) by simp
    then show ?thesis using b(6) False by simp
  qed (use b(5) in simp)
  have rest: "join_levels (drop (Suc s) (levels_of c)) (drop_bit (ht s) (q div 2 ^ (s * j))) = map (\<lambda>i. V (sibling ((2 ^ h + q) div 2 ^ i))) [lv s..<h]"
  proof (cases "Suc s < L")
    case True
    then have "drop_bit (ht s) (q div 2 ^ (s * j)) = q div 2 ^ (Suc s * j)"
      using b(5) lvs by (simp add: drop_bit_eq_div div_mult2_eq [symmetric] power_add [symmetric] add.commute)
    then show ?thesis using Suc.hyps(1) [of "Suc s"] Suc.hyps(2) Suc.prems(2) next' True by simp
  next
    case False
    then show ?thesis using Suc.hyps(1) [of "Suc s"] Suc.hyps(2) Suc.prems(2) next' s ctx_okD(6) [OF c] by simp
  qed
  show ?case unfolding Cons_nth_drop_Suc [OF s(2), symmetric] join_levels.simps Let_def sl
    using level_path [OF Suc.prems(2) [OF order_refl s(1)] q s(1)] rest s(1) by (simp add: hh split)
qed

lemma auth_path_ok:
  assumes c: "ctx_ok c" "cached (unat q) c" and q: "unat q < 2 ^ h"
  shows "lms_tree_auth_path c q = Inr (concat (lms_path a b (priv_I priv) (priv_seed priv) (unat q)))"
proof -
  note d = ctx_okD [OF c(1)]
  have "join_levels (levels_of c) (unat q) = lms_path a b (priv_I priv) (priv_seed priv) (unat q)"
    using join_levels_path [OF c(1) q, of 0] c(2) sizes by (simp add: cached_def lms_path_def auth_path_def lms_node_def)
  then show ?thesis using d(1,4,5,6) sizes(2) q by (simp add: lms_tree_auth_path_def)
qed

end

context cached_tree begin

section \<open>Signing from the cache\<close>

definition actives :: "('w, 'm) lms_tree_ctx_t \<Rightarrow> bool" where
  "actives c \<longleftrightarrow> (\<forall>s < L. \<exists>p < 2 ^ (h - lv s). psub s p (2 ^ ht s) (get_sub s Active c))"

text \<open>Allocator states in which the rebuilds below the top are granted, again and again.\<close>

definition mem_closed :: "('m \<Rightarrow> bool) \<Rightarrow> bool" where
  "mem_closed M \<longleftrightarrow> (\<forall>m s. M m \<longrightarrow> Suc s < L \<longrightarrow> (case build_mem h j L al fr s m of None \<Rightarrow> fl | Some m' \<Rightarrow> M m'))"

definition cinv :: "'m \<Rightarrow> ('w, 'm) tree_state \<Rightarrow> bool" where
  "cinv m st \<longleftrightarrow> I (t_lib st) \<and> t_mem st = m \<and> ctx_ok (t_ctx st)"

definition cache_inv :: "('m \<Rightarrow> bool) \<Rightarrow> ('w, 'm) tree_state \<Rightarrow> bool" where
  "cache_inv M st \<longleftrightarrow> I (t_lib st) \<and> M (t_mem st) \<and> ctx_ok (t_ctx st) \<and> actives (t_ctx st)"

text \<open>Rebuilding one active subtree.\<close>

lemma runs_level:
  assumes st0: "cinv m st0" and s: "s < L" and p: "p < 2 ^ (h - lv s)" and c0: "ctx_ok c0"
    and mem: "build_mem h j L al fr s m = None \<Longrightarrow> fl"
  shows "runs fl (\<lambda>st. st = st0) (subtree_build_at priv (ots_pub_of c0) s Active (p * 2 ^ lv s))
    (\<lambda>_ st. \<exists>m'. build_mem h j L al fr s m = Some m' \<and> cinv m' st \<and> psub s p (2 ^ ht s) (get_sub s Active (t_ctx st))
       \<and> (\<forall>s' < L. s' \<noteq> s \<longrightarrow> get_sub s' Active (t_ctx st) = get_sub s' Active (t_ctx st0)))"
proof -
  have w: "writable {s} s Active" using s by (simp add: writable_def)
  show ?thesis
    by (rule runs_conseq [OF runs_build_at [OF w p c0 mem, where C = "t_ctx st0"]])
      (use st0 in \<open>auto simp: tinv_def cinv_def\<close>)
qed

fun init_mem :: "nat \<Rightarrow> 'm \<Rightarrow> 'm option" where
  "init_mem 0 m = Some m"
| "init_mem (Suc s) m = Option.bind (init_mem s m) (build_mem h j L al fr s)"

lemma init_mem_None: "init_mem k m = None \<Longrightarrow> k \<le> n \<Longrightarrow> init_mem n m = None"
  by (induction n) (auto simp: le_Suc_eq)

lemma runs_sign_init:
  assumes mem: "init_mem L m = None \<Longrightarrow> fl"
  shows "runs fl (cinv m) (lms_tree_sign_init priv) (\<lambda>_ st. \<exists>m'. init_mem L m = Some m' \<and> cinv m' st \<and> cached 0 (t_ctx st))"
  unfolding lms_tree_sign_init_def
proof (rule runs_bind_look)
  fix st0 assume st0: "cinv m st0"
  then have c0: "ctx_ok (t_ctx st0)" by (simp add: cinv_def)
  note c = ctx_okD [OF c0]
  let ?P = "\<lambda>i st. \<exists>m'. init_mem i m = Some m' \<and> cinv m' st \<and> (\<forall>s < i. psub s 0 (2 ^ ht s) (get_sub s Active (t_ctx st)))"
  have step: "runs fl (?P i) (or_fail LMS_ERR_INVALID (subtree_build_at priv (ots_pub_of (t_ctx st0)) i Active 0)) (\<lambda>_. ?P (Suc i))" if i: "i < L" for i
  proof (rule runs_or_fail, rule runs_gen, elim exE conjE)
    fix st m' assume st: "init_mem i m = Some m'" "cinv m' st" "\<forall>s < i. psub s 0 (2 ^ ht s) (get_sub s Active (t_ctx st))"
    have "build_mem h j L al fr i m' = None \<Longrightarrow> fl" using mem init_mem_None [of "Suc i" m L] st(1) i by simp
    note r = runs_level [OF st(2) i _ c0 this, of 0, simplified]
    show "runs fl (\<lambda>t. t = st) (subtree_build_at priv (ots_pub_of (t_ctx st0)) i Active 0) (\<lambda>_. ?P (Suc i))"
      by (rule runs_post [OF r]) (use st i in \<open>auto simp: less_Suc_eq\<close>)
  qed
  have loop: "runs fl (?P 0) (for_each (\<lambda>s. or_fail LMS_ERR_INVALID (subtree_build_at priv (ots_pub_of (t_ctx st0)) s Active 0)) [0..<L]) (\<lambda>_. ?P L)"
    by (rule runs_for_each_unit [where P = ?P]) (rule step, simp_all)
  show "runs fl (\<lambda>t. t = st0) (andthen (reject_if (ctx_levels (t_ctx st0) = None) LMS_ERR_INVALID)
     (andthen (reject_if (priv_lms_type priv \<noteq> ctx_lms_type (t_ctx st0)) LMS_ERR_INVALID)
     (andthen (for_each (\<lambda>s. or_fail LMS_ERR_INVALID (subtree_build_at priv (ots_pub_of (t_ctx st0)) s Active 0)) [0..<ctx_sublevels (t_ctx st0)])
       (ret ())))) (\<lambda>_ st. \<exists>m'. init_mem L m = Some m' \<and> cinv m' st \<and> cached 0 (t_ctx st))"
    unfolding c(4)
    by (rule runs_guard, use c(5) in simp, rule runs_guard, use c(7) in simp, rule runs_andthen [OF runs_pre [OF loop]], use st0 in simp,
        rule runs_ret) (auto simp: cached_def)
qed

lemma cached_actives: "cached q c \<Longrightarrow> q < 2 ^ h \<Longrightarrow> actives c"
  unfolding cached_def actives_def
proof (intro allI impI)
  fix s assume a: "\<forall>s < L. psub s (q div 2 ^ lv s) (2 ^ ht s) (get_sub s Active c)" "q < 2 ^ h" "s < L"
  then have "q div 2 ^ lv s < 2 ^ (h - lv s)" using ht_bounds(2) [OF a(3)] by (intro less_mult_imp_div_less) (simp add: power_add [symmetric])
  then show "\<exists>p < 2 ^ (h - lv s). psub s p (2 ^ ht s) (get_sub s Active c)" using a by blast
qed

text \<open>The test whether \<open>q\<close> is in the segment, in 64 bits.\<close>

lemma hit_test:
  assumes q: "q < 2 ^ 25" and x: "x < (2 :: nat) ^ 25" and v: "v \<le> 25" and p: "x = p * 2 ^ v"
  shows "(q + (2 ^ 64 - x mod 2 ^ 64)) mod 2 ^ 64 < 2 ^ v \<longleftrightarrow> q div 2 ^ v = p"
proof -
  have big: "(2 :: nat) ^ 25 + 2 ^ 25 \<le> 2 ^ 64" by simp
  then have m: "x mod 2 ^ 64 = x" using x by (intro mod_less) linarith
  have "(2 :: nat) ^ v \<le> 2 ^ 25" using v by (rule power_increasing) simp
  show ?thesis
  proof (cases "x \<le> q")
    case True
    then have "q + (2 ^ 64 - x) = (q - x) + 2 ^ 64" using x big by linarith
    then have "(q + (2 ^ 64 - x)) mod 2 ^ 64 = (q - x) mod 2 ^ 64" by (simp only: mod_add_self2)
    also have "\<dots> = q - x" using q big by (intro mod_less) linarith
    finally have e: "(q + (2 ^ 64 - x)) mod 2 ^ 64 = q - x" .
    have "q div 2 ^ v = p \<longleftrightarrow> q < 2 ^ v + x"
    proof
      assume "q div 2 ^ v = p"
      then show "q < 2 ^ v + x" using dividend_less_times_div [of "2 ^ v" q] p by (simp add: mult.commute)
    next
      assume "q < 2 ^ v + x"
      then show "q div 2 ^ v = p" using True p by (intro div_nat_eqI) (simp_all add: mult.commute)
    qed
    then show ?thesis unfolding m e less_diff_conv2 [OF True] by (rule sym)
  next
    case False
    have "q + (2 ^ 64 - x) < 2 ^ 64" using False x big by linarith
    then have "(q + (2 ^ 64 - x)) mod 2 ^ 64 = q + (2 ^ 64 - x)" by (rule mod_less)
    moreover have "2 ^ v \<le> q + (2 ^ 64 - x)" using \<open>2 ^ v \<le> 2 ^ 25\<close> x big by linarith
    moreover have "q div 2 ^ v < p" using False p by (simp add: less_mult_imp_div_less)
    ultimately show ?thesis unfolding m by linarith
  qed
qed

lemma psub_segment: "psub s p ci sub \<Longrightarrow> subtree_leaf_lo sub = p * 2 ^ lv s \<and> subtree_leaf_span sub = 2 ^ lv s"
  by (simp add: psub_def sub_shape_def subtree_leaf_lo_def subtree_leaf_span_def push_bit_eq_mult drop_bit_eq_div)

lemma segment_hit:
  assumes sub: "subtree_leaf_lo (get_sub s Active c) = p * 2 ^ lv s" "subtree_leaf_span (get_sub s Active c) = 2 ^ lv s"
    and q: "unat (q :: u32) < 2 ^ h" and s: "s < L" and p: "p < 2 ^ (h - lv s)"
  shows "(unat q + (2 ^ 64 - subtree_leaf_lo (get_sub s Active c) mod 2 ^ 64)) mod 2 ^ 64 < subtree_leaf_span (get_sub s Active c)
    \<longleftrightarrow> unat q div 2 ^ lv s = p"
proof -
  have hp: "(2 :: nat) ^ h \<le> 2 ^ 25" using h25 by (rule power_increasing) simp
  have "p * 2 ^ lv s < 2 ^ (h - lv s) * 2 ^ lv s" using p by simp
  also have "\<dots> = 2 ^ h" using ht_bounds(2) [OF s] by (simp add: power_add [symmetric])
  finally have "p * 2 ^ lv s < 2 ^ 25" using hp by linarith
  then show ?thesis unfolding sub using q hp ht_bounds(2) [OF s] h25 by (intro hit_test [OF _ _ _ refl]) linarith+
qed

lemma runs_advance_level:
  assumes q: "unat q < 2 ^ h" and s: "Suc s < L" and c0: "ctx_ok c0" and M: "mem_closed M"
  shows "runs fl (\<lambda>st. cache_inv M st \<and> (\<forall>s' < s. psub s' (unat q div 2 ^ lv s') (2 ^ ht s') (get_sub s' Active (t_ctx st))))
    (advance_level priv (ots_pub_of c0) q s)
    (\<lambda>_ st. cache_inv M st \<and> (\<forall>s' < Suc s. psub s' (unat q div 2 ^ lv s') (2 ^ ht s') (get_sub s' Active (t_ctx st))))"
  unfolding advance_level_def
proof (rule runs_bind_look, elim conjE)
  fix st assume st: "cache_inv M st" and lower: "\<forall>s' < s. psub s' (unat q div 2 ^ lv s') (2 ^ ht s') (get_sub s' Active (t_ctx st))"
  have sL: "s < L" using s by simp
  let ?new = "unat q div 2 ^ lv s"
  obtain p where p: "p < 2 ^ (h - lv s)" "psub s p (2 ^ ht s) (get_sub s Active (t_ctx st))"
    using st sL by (auto simp: cache_inv_def actives_def)
  then have lo: "subtree_leaf_lo (get_sub s Active (t_ctx st)) = p * 2 ^ lv s" "subtree_leaf_span (get_sub s Active (t_ctx st)) = 2 ^ lv s"
    using psub_segment by blast+
  note hit = segment_hit [OF lo q sL p(1), unfolded lo]
  show "runs fl (\<lambda>t. t = st) (let lo = subtree_leaf_lo (get_sub s Active (t_ctx st)); span = subtree_leaf_span (get_sub s Active (t_ctx st))
     in if (unat q + (2 ^ 64 - lo mod 2 ^ 64)) mod 2 ^ 64 < span then ret ()
        else or_fail LMS_ERR_INVALID (subtree_build_at priv (ots_pub_of c0) s Active (unat q div span * span)))
    (\<lambda>_ st. cache_inv M st \<and> (\<forall>s' < Suc s. psub s' (unat q div 2 ^ lv s') (2 ^ ht s') (get_sub s' Active (t_ctx st))))"
  proof (cases "?new = p")
    case True
    then show ?thesis unfolding Let_def lo hit if_P [OF True] by (intro runs_ret) (use st lower p in \<open>auto simp: less_Suc_eq\<close>)
  next
    case False
    have new: "?new < 2 ^ (h - lv s)" using q ht_bounds(2) [OF sL] by (intro less_mult_imp_div_less) (simp add: power_add [symmetric])
    have "cinv (t_mem st) st" "ctx_ok (t_ctx st)" using st by (simp_all add: cache_inv_def cinv_def)
    moreover have mem: "case build_mem h j L al fr s (t_mem st) of None \<Rightarrow> fl | Some m' \<Rightarrow> M m'"
      using M st s by (simp add: mem_closed_def cache_inv_def)
    ultimately have r: "runs fl (\<lambda>t. t = st) (subtree_build_at priv (ots_pub_of c0) s Active (?new * 2 ^ lv s))
      (\<lambda>_ st'. \<exists>m'. build_mem h j L al fr s (t_mem st) = Some m' \<and> cinv m' st' \<and> psub s ?new (2 ^ ht s) (get_sub s Active (t_ctx st'))
         \<and> (\<forall>s' < L. s' \<noteq> s \<longrightarrow> get_sub s' Active (t_ctx st') = get_sub s' Active (t_ctx st)))"
      by (intro runs_level [OF _ sL new c0]) auto
    show ?thesis unfolding Let_def lo hit if_not_P [OF False]
    proof (rule runs_or_fail, rule runs_post [OF r], elim exE conjE)
      fix st' m' assume st': "build_mem h j L al fr s (t_mem st) = Some m'" "cinv m' st'" "psub s ?new (2 ^ ht s) (get_sub s Active (t_ctx st'))"
        and same: "\<forall>s' < L. s' \<noteq> s \<longrightarrow> get_sub s' Active (t_ctx st') = get_sub s' Active (t_ctx st)"
      have "actives (t_ctx st')" unfolding actives_def
      proof (intro allI impI)
        fix s' assume "s' < L"
        then show "\<exists>p < 2 ^ (h - lv s'). psub s' p (2 ^ ht s') (get_sub s' Active (t_ctx st'))"
          using st st'(3) new same by (cases "s' = s") (auto simp: cache_inv_def actives_def)
      qed
      then show "cache_inv M st' \<and> (\<forall>s' < Suc s. psub s' (unat q div 2 ^ lv s') (2 ^ ht s') (get_sub s' Active (t_ctx st')))"
        using st' same lower mem s by (auto simp: cache_inv_def cinv_def less_Suc_eq)
    qed
  qed
qed

lemma runs_sign_advance:
  assumes q: "unat q < 2 ^ h" and M: "mem_closed M"
  shows "runs fl (cache_inv M) (lms_tree_sign_advance priv q) (\<lambda>_ st. cache_inv M st \<and> cached (unat q) (t_ctx st))"
  unfolding lms_tree_sign_advance_def
proof (rule runs_bind_look)
  fix st0 assume st0: "cache_inv M st0"
  then have c0: "ctx_ok (t_ctx st0)" by (simp add: cache_inv_def)
  note c = ctx_okD [OF c0]
  let ?P = "\<lambda>s st. cache_inv M st \<and> (\<forall>s' < s. psub s' (unat q div 2 ^ lv s') (2 ^ ht s') (get_sub s' Active (t_ctx st)))"
  have loop: "runs fl (?P 0) (for_each (advance_level priv (ots_pub_of (t_ctx st0)) q) [0..<L - 1]) (\<lambda>_. ?P (L - 1))"
    by (rule runs_for_each_unit [where P = ?P]) (rule runs_advance_level [OF q _ c0 M], simp_all)
  have fin: "cached (unat q) (t_ctx st)" if "?P (L - 1) st" for st
    unfolding cached_def
  proof (intro allI impI)
    fix s assume s: "s < L"
    show "psub s (unat q div 2 ^ lv s) (2 ^ ht s) (get_sub s Active (t_ctx st))"
    proof (cases "s < L - 1")
      case False
      then have t: "s = L - 1" using s by simp
      obtain p where p: "p < 2 ^ (h - lv s)" "psub s p (2 ^ ht s) (get_sub s Active (t_ctx st))"
        using \<open>?P (L - 1) st\<close> s by (auto simp: cache_inv_def actives_def)
      moreover have "lv s = h" using ht_bounds(6) [OF s t] .
      ultimately show ?thesis using q by simp
    qed (use that in simp)
  qed
  show "runs fl (\<lambda>t. t = st0) (andthen (reject_if (ctx_levels (t_ctx st0) = None) LMS_ERR_INVALID)
     (andthen (reject_if (priv_lms_type priv \<noteq> ctx_lms_type (t_ctx st0)) LMS_ERR_INVALID)
     (andthen (reject_if (2 ^ ctx_height (t_ctx st0) \<le> unat q) LMS_ERR_INVALID)
     (andthen (for_each (advance_level priv (ots_pub_of (t_ctx st0)) q) [0..<ctx_sublevels (t_ctx st0) - 1])
       (ret ()))))) (\<lambda>_ st. cache_inv M st \<and> cached (unat q) (t_ctx st))"
    unfolding c(1,4)
    by (rule runs_guard, use c(5) in simp, rule runs_guard, use c(7) in simp, rule runs_guard, use q in simp,
        rule runs_andthen [OF runs_pre [OF loop]], use st0 in simp, rule runs_ret) (use fin in blast)
qed

lemma runs_auth_path_backend:
  assumes q: "unat q < 2 ^ h" and M: "mem_closed M"
  shows "runs fl (cache_inv M) (lms_subtree_auth_path_backend priv q)
    (\<lambda>path st. path = concat (lms_path a b (priv_I priv) (priv_seed priv) (unat q)) \<and> cache_inv M st)"
  unfolding lms_subtree_auth_path_backend_def
proof (rule runs_andthen [OF runs_or_fail [OF runs_sign_advance [OF q M]]], rule runs_bind_look, elim conjE)
  fix st assume st: "cache_inv M st" "cached (unat q) (t_ctx st)"
  then have c: "ctx_ok (t_ctx st)" by (simp add: cache_inv_def)
  have "lms_tree_sign_auth_path (t_ctx st) q = Inr (concat (lms_path a b (priv_I priv) (priv_seed priv) (unat q)))"
    using auth_path_ok [OF c st(2) q] ctx_okD(5) [OF c] by (simp add: lms_tree_sign_auth_path_def)
  then show "runs fl (\<lambda>t. t = st) (case lms_tree_sign_auth_path (t_ctx st) q of Inl e \<Rightarrow> fail e | Inr path \<Rightarrow> ret path)
      (\<lambda>path st. path = concat (lms_path a b (priv_I priv) (priv_seed priv) (unat q)) \<and> cache_inv M st)"
    using st by (auto intro: runs_ret)
qed

end

section \<open>The root by streaming\<close>

lemma Suc_div_step: "2 ^ k dvd Suc q \<Longrightarrow> Suc q div 2 ^ k = Suc (q div 2 ^ k)"
  and Suc_div_keep: "\<not> 2 ^ k dvd Suc q \<Longrightarrow> k \<le> k' \<Longrightarrow> Suc q div 2 ^ k' = q div 2 ^ k'"
  using le_imp_power_dvd [of k k' "2 :: nat"] dvd_trans by (auto simp: div_Suc mod_eq_0_iff_dvd)

context cached_tree begin

text \<open>Sublevel \<open>s\<close> after the first \<open>n\<close> leaves of the tree.\<close>

definition streamed :: "nat \<Rightarrow> nat \<Rightarrow> ('w, 'm) lms_tree_ctx_t \<Rightarrow> bool" where
  "streamed n s c \<longleftrightarrow> psub s (n div 2 ^ lv s) (n div 2 ^ (s * j) mod 2 ^ ht s) (get_sub s Active c)"

definition top_node :: "('w, 'm) lms_tree_ctx_t \<Rightarrow> bytes" where
  "top_node c = slots (sub_nodes (get_sub (L - 1) Active c)) ! 1"

definition stream_inv :: "'m \<Rightarrow> nat \<Rightarrow> ('w, 'm) tree_state \<Rightarrow> bool" where
  "stream_inv m n st \<longleftrightarrow> cinv m st \<and> (\<forall>s < L. streamed n s (t_ctx st)) \<and> (n = 2 ^ h \<longrightarrow> top_node (t_ctx st) = V 1)"

text \<open>While leaf \<open>q\<close> is carried up, the sublevels below \<open>s\<close> have it.\<close>

definition carrying :: "'m \<Rightarrow> nat \<Rightarrow> nat \<Rightarrow> ('w, 'm) tree_state \<Rightarrow> bool" where
  "carrying m q s st \<longleftrightarrow> cinv m st \<and> (\<forall>s' < L. streamed (if s' < s then Suc q else q) s' (t_ctx st))
     \<and> (s = L \<longrightarrow> top_node (t_ctx st) = V 1)"

lemma level_sum: "(n :: nat) div 2 ^ lv s * 2 ^ ht s + n div 2 ^ (s * j) mod 2 ^ ht s = n div 2 ^ (s * j)"
  unfolding level_top_def power_add div_mult2_eq by (rule div_mult_mod_eq)

lemma full_iff:
  assumes "2 ^ (s * j) dvd Suc q"
  shows "Suc (q div 2 ^ (s * j) mod 2 ^ ht s) = 2 ^ ht s \<longleftrightarrow> 2 ^ lv s dvd Suc q"
proof -
  let ?x = "q div 2 ^ (s * j)"
  have "Suc q = Suc ?x * 2 ^ (s * j)" using Suc_div_step [OF assms] assms by (metis dvd_div_mult_self)
  then have "2 ^ lv s dvd Suc q \<longleftrightarrow> 2 ^ ht s dvd Suc ?x"
    unfolding level_top_def power_add by (metis dvd_times_right_cancel_iff mult.commute power_not_zero zero_neq_numeral)
  also have "\<dots> \<longleftrightarrow> Suc (?x mod 2 ^ ht s) = 2 ^ ht s" by (simp add: dvd_eq_mod_eq_0 mod_Suc)
  finally show ?thesis by simp
qed

lemma streamed_add:
  assumes "2 ^ (s * j) dvd Suc q" and "\<not> 2 ^ lv s dvd Suc q"
    and "psub s (q div 2 ^ lv s) (Suc (q div 2 ^ (s * j) mod 2 ^ ht s)) (get_sub s Active c)"
  shows "streamed (Suc q) s c"
proof -
  have "Suc (q div 2 ^ (s * j) mod 2 ^ ht s) \<noteq> 2 ^ ht s" using full_iff [OF assms(1)] assms(2) by blast
  then have "Suc (q div 2 ^ (s * j)) mod 2 ^ ht s = Suc (q div 2 ^ (s * j) mod 2 ^ ht s)" by (simp add: mod_Suc)
  then show ?thesis using assms(3) Suc_div_keep [OF assms(2) order_refl] Suc_div_step [OF assms(1)] by (simp add: streamed_def)
qed

lemma streamed_full:
  assumes "2 ^ (s * j) dvd Suc q" and "2 ^ lv s dvd Suc q" and "psub s (Suc (q div 2 ^ lv s)) 0 (get_sub s Active c)"
  shows "streamed (Suc q) s c"
proof -
  have "Suc (q div 2 ^ (s * j) mod 2 ^ ht s) = 2 ^ ht s" using full_iff [OF assms(1)] assms(2) by blast
  then have "Suc (q div 2 ^ (s * j)) mod 2 ^ ht s = 0" by (simp add: mod_Suc)
  then show ?thesis using assms(3) Suc_div_step [OF assms(2)] Suc_div_step [OF assms(1)] by (simp add: streamed_def)
qed

lemma streamed_keep:
  assumes "\<not> 2 ^ lv s dvd Suc q" and "s < s'" and "s' < L"
  shows "streamed (Suc q) s' c = streamed q s' c"
proof -
  have l: "lv s = Suc s * j" using ht_bounds(5) assms(2,3) by simp
  also have "\<dots> \<le> s' * j" using assms(2) by (intro mult_le_mono1) simp
  finally have "lv s \<le> s' * j" "lv s \<le> lv s'" by (simp_all add: level_top_def)
  then show ?thesis using Suc_div_keep [OF assms(1)] by (simp add: streamed_def)
qed

text \<open>Adding the leaf that arrives at sublevel \<open>s\<close>, and closing the subtree when it is full.\<close>

lemma carrying_add:
  assumes q: "q < 2 ^ h" and s: "s < L" and d: "2 ^ (s * j) dvd Suc q"
    and st0: "carrying m q s st0" and c: "ctx_I c = priv_I priv" "ctx_hash_alg c = op_hash_alg b" "ctx_n c = 32"
  shows "runs fl (\<lambda>t. t = st0) (on_sub s Active (lms_tree_add_next_node (V (2 ^ (h - s * j) + q div 2 ^ (s * j))) (ctx_I c) (ctx_hash_alg c) (ctx_n c)))
    (\<lambda>done st. (done \<longleftrightarrow> 2 ^ lv s dvd Suc q) \<and> tinv {s} (t_ctx st0) m st
       \<and> psub s (q div 2 ^ lv s) (Suc (q div 2 ^ (s * j) mod 2 ^ ht s)) (get_sub s Active (t_ctx st)))"
proof -
  have w: "writable {s} s Active" using s by (simp add: writable_def)
  have p: "q div 2 ^ lv s < 2 ^ (h - lv s)" using q ht_bounds(2) [OF s] by (intro less_mult_imp_div_less) (simp add: power_add [symmetric])
  have ci: "q div 2 ^ (s * j) mod 2 ^ ht s < 2 ^ ht s" by simp
  have "psub s (q div 2 ^ lv s) (q div 2 ^ (s * j) mod 2 ^ ht s) (get_sub s Active (t_ctx st0))" "tinv {s} (t_ctx st0) m st0"
    using st0 s by (auto simp: carrying_def streamed_def tinv_def cinv_def)
  then show ?thesis
    by (intro runs_conseq [OF runs_add_at [OF w p ci _ c, where C = "t_ctx st0"]]) (auto simp: level_sum full_iff [OF d])
qed

lemma carrying_stop:
  assumes st0: "carrying m q s st0" and s: "s < L" and d: "2 ^ (s * j) dvd Suc q" "\<not> 2 ^ lv s dvd Suc q"
    and st: "tinv {s} (t_ctx st0) m st" "psub s (q div 2 ^ lv s) (Suc (q div 2 ^ (s * j) mod 2 ^ ht s)) (get_sub s Active (t_ctx st))"
  shows "stream_inv m (Suc q) st"
proof -
  have "streamed (Suc q) s' (t_ctx st)" if s': "s' < L" for s'
  proof -
    consider "s' < s" | "s' = s" | "s < s'" by linarith
    then show ?thesis
    proof cases
      case 1
      then show ?thesis using st0 st(1) s' by (auto simp: carrying_def streamed_def tinv_def)
    next
      case 2
      then show ?thesis using streamed_add [OF d st(2)] by simp
    next
      case 3
      then show ?thesis unfolding streamed_keep [OF d(2) 3 s'] using st0 st(1) s' by (auto simp: carrying_def streamed_def tinv_def)
    qed
  qed
  moreover have "Suc q \<noteq> 2 ^ h" using d(2) le_imp_power_dvd [OF ht_bounds(2) [OF s], of "2 :: nat"] by metis
  ultimately show ?thesis using st(1) by (simp add: stream_inv_def cinv_def tinv_def)
qed

lemma carrying_next:
  assumes st0: "carrying m q s st0" and q: "q < 2 ^ h" and s: "s < L" and d: "2 ^ (s * j) dvd Suc q" "2 ^ lv s dvd Suc q"
    and st: "tinv {s} (t_ctx st0) m st" "psub s (Suc (q div 2 ^ lv s)) 0 (get_sub s Active (t_ctx st))"
    and root: "slots (sub_nodes (get_sub s Active (t_ctx st))) ! 1 = V (2 ^ (h - lv s) + q div 2 ^ lv s)"
  shows "carrying m q (Suc s) st"
proof -
  have "streamed (if s' < Suc s then Suc q else q) s' (t_ctx st)" if s': "s' < L" for s'
  proof (cases "s' = s")
    case True
    then show ?thesis using streamed_full [OF d st(2)] by simp
  next
    case False
    then show ?thesis using st0 st(1) s' by (auto simp: carrying_def streamed_def tinv_def less_Suc_eq)
  qed
  moreover have "top_node (t_ctx st) = V 1" if "Suc s = L"
  proof -
    have "s = L - 1" using that by simp
    then show ?thesis using root ht_bounds(6) [OF s] q by (simp add: top_node_def)
  qed
  ultimately show ?thesis using st(1) by (simp add: carrying_def cinv_def tinv_def)
qed

end

context cached_tree begin

lemma runs_close:
  assumes st0: "carrying m q s st0" and q: "q < 2 ^ h" and s: "s < L" and d: "2 ^ (s * j) dvd Suc q" "2 ^ lv s dvd Suc q"
    and k: "runs fl (carrying m q (Suc s)) (k (V (2 ^ (h - lv s) + q div 2 ^ lv s))) Q"
  shows "runs fl (\<lambda>st. tinv {s} (t_ctx st0) m st \<and> psub s (q div 2 ^ lv s) (Suc (q div 2 ^ (s * j) mod 2 ^ ht s)) (get_sub s Active (t_ctx st)))
    (bind (look (\<lambda>st. slots (sub_nodes (get_sub s Active (t_ctx st))) ! 1)) (\<lambda>leaf.
       andthen (on_sub s Active (update_sub (\<lambda>up. subtree_reset_to (sub_left_leaf up + 2 ^ sub_height up) up))) (k leaf))) Q"
proof (rule runs_bind_look, elim conjE)
  let ?p = "q div 2 ^ lv s" and ?v = "V (2 ^ (h - lv s) + q div 2 ^ lv s)"
  let ?f = "\<lambda>up. subtree_reset_to (sub_left_leaf up + 2 ^ sub_height up) up"
  fix st assume st: "tinv {s} (t_ctx st0) m st"
    and "psub s ?p (Suc (q div 2 ^ (s * j) mod 2 ^ ht s)) (get_sub s Active (t_ctx st))"
  then have sub: "psub s ?p (2 ^ ht s) (get_sub s Active (t_ctx st))" using full_iff [OF d(1)] d(2) by simp
  have p: "?p < 2 ^ (h - lv s)" using q ht_bounds(2) [OF s] by (intro less_mult_imp_div_less) (simp add: power_add [symmetric])
  have one: "1 < (2 :: nat) ^ Suc (ht s)" by (rule one_less_power) simp_all
  have root: "slots (sub_nodes sub) ! 1 = ?v" if "psub s ?p (2 ^ ht s) sub" for sub
    using psub_complete [OF s p that zero_less_one one] by (simp add: level_root_def)
  have reset: "psub s (Suc ?p) 0 (?f sub) \<and> slots (sub_nodes (?f sub)) ! 1 = ?v" if "psub s ?p (2 ^ ht s) sub" for sub
  proof -
    have "sub_left_leaf sub + 2 ^ sub_height sub = Suc ?p * 2 ^ ht s" using that by (simp add: psub_def sub_shape_def)
    then show ?thesis using psub_reset [OF psub_shape [OF that], of "Suc ?p"] root [OF that] by (simp add: subtree_reset_to_def)
  qed
  have w: "writable {s} s Active" using s by (simp add: writable_def)
  have "runs fl (\<lambda>t. t = st) (on_sub s Active (update_sub ?f)) (\<lambda>_. carrying m q (Suc s))"
    by (rule runs_conseq [OF runs_on_sub_update [OF w, where P = "psub s ?p (2 ^ ht s)" and C = "t_ctx st0" and m = m
          and Q = "\<lambda>sub. psub s (Suc ?p) 0 sub \<and> slots (sub_nodes sub) ! 1 = ?v"]])
      (use reset st sub carrying_next [OF st0 q s d] psub_shape in auto)
  then show "runs fl (\<lambda>t. t = st) (andthen (on_sub s Active (update_sub ?f)) (k (slots (sub_nodes (get_sub s Active (t_ctx st))) ! 1))) Q"
    unfolding root [OF sub] using k by (rule runs_andthen)
qed

lemma runs_carry_end:
  assumes "s \<le> L" and "\<not> s < L"
  shows "runs fl (carrying m q s) (carry_root [s..<L] v) (\<lambda>_. stream_inv m (Suc q))"
proof -
  have e: "s = L" "[s..<L] = []" using assms by simp_all
  show ?thesis unfolding e(2) carry_root.simps by (rule runs_ret) (simp add: carrying_def stream_inv_def e(1))
qed

lemma runs_carry_root:
  assumes q: "q < 2 ^ h" and "s \<le> L" and "s < L \<Longrightarrow> 2 ^ (s * j) dvd Suc q"
  shows "runs fl (carrying m q s) (carry_root [s..<L] (V (2 ^ (h - s * j) + q div 2 ^ (s * j)))) (\<lambda>_. stream_inv m (Suc q))"
  using assms(2,3)
proof (induction "L - s" arbitrary: s)
  case 0
  then show ?case by (intro runs_carry_end) simp_all
next
  case (Suc n)
  then have s: "s < L" and d: "2 ^ (s * j) dvd Suc q" by simp_all
  show ?case unfolding upt_conv_Cons [OF s] carry_root.simps
  proof (rule runs_bind_look)
    fix st0 assume st0: "carrying m q s st0"
    then have c: "ctx_I (t_ctx st0) = priv_I priv" "ctx_hash_alg (t_ctx st0) = op_hash_alg b" "ctx_n (t_ctx st0) = 32"
      using ctx_okD(9,8,2) by (auto simp: carrying_def cinv_def)
    show "runs fl (\<lambda>t. t = st0) (bind (or_fail LMS_ERR_INVALID (on_sub s Active (lms_tree_add_next_node
          (V (2 ^ (h - s * j) + q div 2 ^ (s * j))) (ctx_I (t_ctx st0)) (ctx_hash_alg (t_ctx st0)) (ctx_n (t_ctx st0))))) (\<lambda>udone.
       if \<not> udone then ret ()
       else bind (look (\<lambda>st. slots (sub_nodes (get_sub s Active (t_ctx st))) ! 1)) (\<lambda>leaf.
          andthen (on_sub s Active (update_sub (\<lambda>up. subtree_reset_to (sub_left_leaf up + 2 ^ sub_height up) up)))
            (carry_root [Suc s..<L] leaf)))) (\<lambda>_. stream_inv m (Suc q))"
    proof (rule runs_bind [OF runs_or_fail [OF carrying_add [OF q s d st0 c]]], rule runs_fact, split if_split, intro conjI impI)
      fix udone assume "udone \<longleftrightarrow> 2 ^ lv s dvd Suc q"
      show "runs fl (\<lambda>st. tinv {s} (t_ctx st0) m st \<and> psub s (q div 2 ^ lv s) (Suc (q div 2 ^ (s * j) mod 2 ^ ht s)) (get_sub s Active (t_ctx st)))
          (ret ()) (\<lambda>_. stream_inv m (Suc q))" if "\<not> udone"
        using that carrying_stop [OF st0 s d] \<open>udone \<longleftrightarrow> 2 ^ lv s dvd Suc q\<close> by (intro runs_ret) blast
      show "runs fl (\<lambda>st. tinv {s} (t_ctx st0) m st \<and> psub s (q div 2 ^ lv s) (Suc (q div 2 ^ (s * j) mod 2 ^ ht s)) (get_sub s Active (t_ctx st)))
          (bind (look (\<lambda>st. slots (sub_nodes (get_sub s Active (t_ctx st))) ! 1)) (\<lambda>leaf.
          andthen (on_sub s Active (update_sub (\<lambda>up. subtree_reset_to (sub_left_leaf up + 2 ^ sub_height up) up)))
            (carry_root [Suc s..<L] leaf))) (\<lambda>_. stream_inv m (Suc q))" if "\<not> \<not> udone"
      proof (rule runs_close [OF st0 q s d])
        show full: "2 ^ lv s dvd Suc q" using that \<open>udone \<longleftrightarrow> 2 ^ lv s dvd Suc q\<close> by simp
        show "runs fl (carrying m q (Suc s)) (carry_root [Suc s..<L] (V (2 ^ (h - lv s) + q div 2 ^ lv s))) (\<lambda>_. stream_inv m (Suc q))"
        proof (cases "Suc s < L")
          case True
          then show ?thesis using Suc.hyps(1) [of "Suc s"] Suc.hyps(2) full ht_bounds(5) [OF s] by simp
        next
          case False
          then show ?thesis using s by (intro runs_carry_end) simp_all
        qed
      qed
    qed
  qed
qed

lemma runs_keygen_push:
  assumes q: "q < 2 ^ h" and c0: "ctx_ok c0"
  shows "runs fl (stream_inv m q) (keygen_push priv (ots_pub_of c0) q) (\<lambda>_. stream_inv m (Suc q))"
proof (rule runs_gen)
  fix st0 assume "stream_inv m q st0"
  then have st0: "carrying m q 0 st0" and ctx: "ctx_ok (t_ctx st0)" using sizes(2) by (auto simp: stream_inv_def carrying_def cinv_def)
  have w: "writable {0} 0 Active" using sizes(2) by (simp add: writable_def)
  have l0: "lv 0 = ht 0" by (simp add: level_top_def)
  have p: "q div 2 ^ lv 0 < 2 ^ (h - lv 0)" using q ht_bounds(2) [OF sizes(2)] by (intro less_mult_imp_div_less) (simp add: power_add [symmetric])
  have ci: "q mod 2 ^ ht 0 < 2 ^ ht 0" by simp
  have full: "Suc (q mod 2 ^ ht 0) = 2 ^ ht 0 \<longleftrightarrow> 2 ^ lv 0 dvd Suc q" using full_iff [of 0 q] by simp
  have start: "psub 0 (q div 2 ^ lv 0) (q mod 2 ^ ht 0) (get_sub 0 Active (t_ctx st0))" "tinv {0} (t_ctx st0) m st0"
    using st0 sizes(2) by (auto simp: carrying_def streamed_def tinv_def cinv_def)
  have "q div 2 ^ lv 0 * 2 ^ ht 0 + q mod 2 ^ ht 0 = q" unfolding l0 by (rule div_mult_mod_eq)
  note add = runs_push_leaf [OF w p ci c0, where C = "t_ctx st0" and m = m, unfolded this]
  have push: "runs fl (\<lambda>t. t = st0) (or_fail LMS_ERR_INVALID (subtree_push_leaf priv (ots_pub_of c0) 0 Active (word_of_nat q)))
      (\<lambda>done st. (done \<longleftrightarrow> 2 ^ lv 0 dvd Suc q) \<and> tinv {0} (t_ctx st0) m st
        \<and> psub 0 (q div 2 ^ lv 0) (Suc (q div 2 ^ (0 * j) mod 2 ^ ht 0)) (get_sub 0 Active (t_ctx st)))"
    by (rule runs_conseq [OF add]) (use start full in auto)
  show "runs fl (\<lambda>t. t = st0) (keygen_push priv (ots_pub_of c0) q) (\<lambda>_. stream_inv m (Suc q))"
    unfolding keygen_push_def
  proof (rule runs_bind [OF push], rule runs_fact, split if_split, intro conjI impI)
    fix fin :: bool assume fin: "fin \<longleftrightarrow> 2 ^ lv 0 dvd Suc q"
    let ?R = "\<lambda>st. tinv {0} (t_ctx st0) m st \<and> psub 0 (q div 2 ^ lv 0) (Suc (q div 2 ^ (0 * j) mod 2 ^ ht 0)) (get_sub 0 Active (t_ctx st))"
    show "runs fl ?R (ret ()) (\<lambda>_. stream_inv m (Suc q))" if "\<not> fin"
      using that carrying_stop [OF st0 sizes(2)] fin by (intro runs_ret) auto
    show "runs fl ?R (bind (look (\<lambda>st. slots (sub_nodes (get_sub 0 Active (t_ctx st))) ! 1)) (\<lambda>leaf.
          andthen (on_sub 0 Active (update_sub (\<lambda>bot. subtree_reset_to (sub_left_leaf bot + 2 ^ sub_height bot) bot)))
          (bind (look (\<lambda>st. ctx_sublevels (t_ctx st))) (\<lambda>sublevels. carry_root [1..<sublevels] leaf)))) (\<lambda>_. stream_inv m (Suc q))" if "\<not> \<not> fin"
    proof (rule runs_close [OF st0 q sizes(2)])
      show d: "2 ^ lv 0 dvd Suc q" "2 ^ (0 * j) dvd Suc q" using that fin by simp_all
      have carry: "runs fl (carrying m q 1) (carry_root [1..<L] (V (2 ^ (h - lv 0) + q div 2 ^ lv 0))) (\<lambda>_. stream_inv m (Suc q))"
      proof (cases "1 < L")
        case True
        then show ?thesis using runs_carry_root [OF q, of 1 m] d ht_bounds(5) [of 0] by simp
      next
        case False
        then show ?thesis using sizes(2) by (intro runs_carry_end) simp_all
      qed
      show "runs fl (carrying m q (Suc 0)) (bind (look (\<lambda>st. ctx_sublevels (t_ctx st))) (\<lambda>sublevels. carry_root [1..<sublevels] (V (2 ^ (h - lv 0) + q div 2 ^ lv 0))))
          (\<lambda>_. stream_inv m (Suc q))"
      proof (rule runs_bind_look)
        fix st assume st: "carrying m q (Suc 0) st"
        then have "ctx_sublevels (t_ctx st) = L" using ctx_okD(4) by (auto simp: carrying_def cinv_def)
        then show "runs fl (\<lambda>t. t = st) (carry_root [1..<ctx_sublevels (t_ctx st)] (V (2 ^ (h - lv 0) + q div 2 ^ lv 0))) (\<lambda>_. stream_inv m (Suc q))"
          using runs_pre [OF carry, of "\<lambda>t. t = st"] st by simp
      qed
    qed
  qed
qed

end

context cached_tree begin

text \<open>The top sublevel has no second subtree, but the code resets its counter all the same.\<close>

lemma runs_upcoming_index:
  assumes s: "s < L"
  shows "runs fl (tinv X C m) (on_sub s Upcoming (update_sub (\<lambda>sub. sub\<lparr>sub_current_index := 0\<rparr>))) (\<lambda>_. tinv X C m)"
proof (rule runsI)
  fix st assume st: "tinv X C m st"
  let ?sub = "(get_sub s Upcoming (t_ctx st))\<lparr>sub_current_index := 0\<rparr>"
  have c: "ctx_ok (t_ctx st)" by (rule tinvD(1) [OF st])
  have "ctx_shape h j L (set_sub s Upcoming ?sub (t_ctx st))"
    using c s ctx_okD(6) [OF c] by (auto simp: ctx_ok_def ctx_shape_def get_set_sub sub_shape_def simp del: not_None_eq)
  then have "tinv X C m (st\<lparr>t_ctx := set_sub s Upcoming ?sub (t_ctx st)\<rparr>)"
    using st s ctx_okD(6) [OF c] by (auto simp: tinv_def ctx_ok_def get_set_sub)
  then show "case on_sub s Upcoming (update_sub (\<lambda>sub. sub\<lparr>sub_current_index := 0\<rparr>)) st of (Inl _, _) \<Rightarrow> fl | (Inr _, st) \<Rightarrow> tinv X C m st"
    by (simp add: on_sub_def update_sub_def op_defs)
qed

lemma runs_reset_level:
  assumes s: "s < L"
  shows "runs fl (\<lambda>st. cinv m st \<and> (\<forall>s' < s. psub s' 0 0 (get_sub s' Active (t_ctx st))))
    (andthen (on_sub s Active (update_sub (subtree_reset_to 0))) (on_sub s Upcoming (update_sub (\<lambda>sub. sub\<lparr>sub_current_index := 0\<rparr>))))
    (\<lambda>_ st. cinv m st \<and> (\<forall>s' < Suc s. psub s' 0 0 (get_sub s' Active (t_ctx st))))"
proof (rule runs_gen, elim conjE)
  fix st0 assume st0: "cinv m st0" and lower: "\<forall>s' < s. psub s' 0 0 (get_sub s' Active (t_ctx st0))"
  then have t0: "tinv {s} (t_ctx st0) m st0" and c: "ctx_ok (t_ctx st0)" by (simp_all add: tinv_def cinv_def)
  have w: "writable {s} s Active" using s by (simp add: writable_def)
  have r: "sub_shape h j L s sub \<Longrightarrow> psub s 0 0 (subtree_reset_to 0 sub)" for sub using psub_reset [of s sub 0] by simp
  have first: "runs fl (\<lambda>t. t = st0) (on_sub s Active (update_sub (subtree_reset_to 0)))
      (\<lambda>_ st. tinv {s} (t_ctx st0) m st \<and> psub s 0 0 (get_sub s Active (t_ctx st)))"
    by (rule runs_pre [OF runs_on_sub_update [OF w, where P = "sub_shape h j L s"]])
      (use r t0 ctx_okD(15) [OF c s] psub_shape in auto)
  have second: "runs fl (\<lambda>st. tinv {s} (t_ctx st0) m st \<and> psub s 0 0 (get_sub s Active (t_ctx st)))
      (on_sub s Upcoming (update_sub (\<lambda>sub. sub\<lparr>sub_current_index := 0\<rparr>)))
      (\<lambda>_ st. tinv {s} (t_ctx st0) m st \<and> psub s 0 0 (get_sub s Active (t_ctx st)))"
  proof (rule runs_gen, elim conjE)
    fix st assume st: "tinv {s} (t_ctx st0) m st" "psub s 0 0 (get_sub s Active (t_ctx st))"
    then have "tinv {} (t_ctx st) m st" by (simp add: tinv_def)
    then show "runs fl (\<lambda>t. t = st) (on_sub s Upcoming (update_sub (\<lambda>sub. sub\<lparr>sub_current_index := 0\<rparr>)))
        (\<lambda>_ st. tinv {s} (t_ctx st0) m st \<and> psub s 0 0 (get_sub s Active (t_ctx st)))"
      by (intro runs_conseq [OF runs_upcoming_index [OF s, where X = "{}" and C = "t_ctx st" and m = m]])
        (use st s in \<open>auto simp: tinv_def\<close>)
  qed
  show "runs fl (\<lambda>t. t = st0) (andthen (on_sub s Active (update_sub (subtree_reset_to 0)))
      (on_sub s Upcoming (update_sub (\<lambda>sub. sub\<lparr>sub_current_index := 0\<rparr>))))
    (\<lambda>_ st. cinv m st \<and> (\<forall>s' < Suc s. psub s' 0 0 (get_sub s' Active (t_ctx st))))"
    by (rule runs_andthen [OF first runs_post [OF second]]) (use lower s in \<open>auto simp: tinv_def cinv_def less_Suc_eq\<close>)
qed

lemma runs_keygen_root:
  "runs fl (cinv m) (lms_tree_keygen_root priv) (\<lambda>root st. root = V 1 \<and> stream_inv m (2 ^ h) st)"
  unfolding lms_tree_keygen_root_def
proof (rule runs_bind_look)
  fix st0 assume st0: "cinv m st0"
  then have c0: "ctx_ok (t_ctx st0)" by (simp add: cinv_def)
  note c = ctx_okD [OF c0]
  let ?P = "\<lambda>i st. cinv m st \<and> (\<forall>s' < i. psub s' 0 0 (get_sub s' Active (t_ctx st)))"
  have reset: "runs fl (?P 0) (for_each (\<lambda>s. andthen (on_sub s Active (update_sub (subtree_reset_to 0)))
      (on_sub s Upcoming (update_sub (\<lambda>sub. sub\<lparr>sub_current_index := 0\<rparr>)))) [0..<L]) (\<lambda>_. ?P L)"
    by (rule runs_for_each_unit [where P = ?P]) (rule runs_reset_level, simp_all)
  have start: "?P L st \<Longrightarrow> stream_inv m 0 st" for st by (simp add: stream_inv_def streamed_def)
  have loop: "runs fl (stream_inv m 0) (for_each (keygen_push priv (ots_pub_of (t_ctx st0))) [0..<2 ^ h]) (\<lambda>_. stream_inv m (2 ^ h))"
    by (rule runs_for_each_unit [where P = "stream_inv m"]) (rule runs_keygen_push [OF _ c0], simp_all)
  show "runs fl (\<lambda>t. t = st0) (andthen (reject_if (ctx_levels (t_ctx st0) = None) LMS_ERR_INVALID)
     (andthen (reject_if (priv_lms_type priv \<noteq> ctx_lms_type (t_ctx st0)) LMS_ERR_INVALID)
     (andthen (for_each (\<lambda>s. andthen (on_sub s Active (update_sub (subtree_reset_to 0)))
            (on_sub s Upcoming (update_sub (\<lambda>sub. sub\<lparr>sub_current_index := 0\<rparr>)))) [0..<ctx_sublevels (t_ctx st0)])
     (andthen (for_each (keygen_push priv (ots_pub_of (t_ctx st0))) [0..<2 ^ ctx_height (t_ctx st0)])
       (look (\<lambda>st. slots (sub_nodes (get_sub (ctx_sublevels (t_ctx st0) - 1) Active (t_ctx st))) ! 1))))))
     (\<lambda>root st. root = V 1 \<and> stream_inv m (2 ^ h) st)"
    unfolding c(1,4)
    by (rule runs_guard, use c(5) in simp, rule runs_guard, use c(7) in simp, rule runs_andthen [OF runs_pre [OF reset]], use st0 in simp,
        rule runs_andthen [OF runs_pre [OF loop start]], assumption, rule runs_look) (auto simp: stream_inv_def top_node_def)
qed

lemma actives_root:
  assumes "actives c"
  shows "slots (sub_nodes (get_sub (L - 1) Active c)) ! 1 = V 1"
proof -
  have s: "L - 1 < L" using sizes(2) by simp
  have top: "lv (L - 1) = h" by (rule ht_bounds(6) [OF s refl])
  obtain p where p: "p < 2 ^ (h - lv (L - 1))" "psub (L - 1) p (2 ^ ht (L - 1)) (get_sub (L - 1) Active c)"
    using assms s by (auto simp: actives_def)
  have one: "1 < (2 :: nat) ^ Suc (ht (L - 1))" by (rule one_less_power) simp_all
  show ?thesis using psub_complete [OF s p zero_less_one one] p(1) by (simp add: level_root_def top [simplified])
qed

end

end
