(* ===== verification/Subtree_Context.thy ===== *)
theory Subtree_Context
  imports Subtree_Cache Lms_Api
begin

text \<open>
  The life of a context: what \<open>lms_tree_ctx_init\<close> lays out and asks of the allocator, and the
  operations of the cache one after the other.
\<close>

section \<open>Laying out a context\<close>

fun alloc_seq :: "'m tree_alloc_fn \<Rightarrow> nat list \<Rightarrow> 'm \<Rightarrow> 'm option" where
  "alloc_seq al [] m = Some m"
| "alloc_seq al (n # ns) m = (case al n m of (None, _) \<Rightarrow> None | (Some _, m') \<Rightarrow> alloc_seq al ns m')"

lemma alloc_seq_append: "alloc_seq al (xs @ ys) m = Option.bind (alloc_seq al xs m) (alloc_seq al ys)"
  by (induction xs arbitrary: m) (auto split: prod.splits option.splits)

definition fresh_sub :: "nat \<Rightarrow> nat \<Rightarrow> nat \<Rightarrow> nat \<Rightarrow> nat \<Rightarrow> nat \<Rightarrow> nat \<Rightarrow> nat \<Rightarrow> lms_subtree_t" where
  "fresh_sub sub_h level levels_below tree_height left_leaf n x y =
     \<lparr>sub_height = sub_h, sub_level = level, sub_levels_below = levels_below, sub_tree_height = tree_height, sub_left_leaf = left_leaf,
      sub_current_index = 0, sub_nodes = Some (x, replicate (2 ^ Suc sub_h) (replicate n 0)), sub_stack = Some (y, replicate sub_h (replicate n 0))\<rparr>"

lemma set_set_sub [simp]: "i < length (levels_of c) \<Longrightarrow> set_sub i w x (set_sub i w y c) = set_sub i w x c"
  by (cases w; cases "ctx_levels c") (auto simp: set_sub_def set_level_def levels_of_def)

lemma runs_init_buffers:
  fixes c :: "('w, 'm) lms_tree_ctx_t" and P :: "'w lms_lib \<Rightarrow> bool"
  assumes c: "ctx_alloc c = al" "i < length (levels_of c)" and h: "0 < sub_h" and mem: "alloc_seq al [2 ^ Suc sub_h * n, sub_h * n] m = None \<Longrightarrow> fl"
  shows "runs fl (\<lambda>st. P (t_lib st) \<and> t_mem st = m \<and> t_ctx st = c) (subtree_init_buffers i w sub_h level below th left n)
    (\<lambda>_ st. P (t_lib st) \<and> alloc_seq al [2 ^ Suc sub_h * n, sub_h * n] m = Some (t_mem st)
       \<and> (\<exists>x y. t_ctx st = set_sub i w (fresh_sub sub_h level below th left n x y) c))"
proof (rule runsI)
  fix st :: "('w, 'm) tree_state" assume st: "P (t_lib st) \<and> t_mem st = m \<and> t_ctx st = c"
  obtain r m1 where al1: "al (2 ^ Suc sub_h * n) m = (r, m1)" by force
  obtain r2 m2 where al2: "al (sub_h * n) m1 = (r2, m2)" by force
  have get: "get_sub i w (set_sub i w s c) = s" for s using c(2) by (simp add: get_set_sub)
  show "case subtree_init_buffers i w sub_h level below th left n st of (Inl _, _) \<Rightarrow> fl
    | (Inr _, st) \<Rightarrow> P (t_lib st) \<and> alloc_seq al [2 ^ Suc sub_h * n, sub_h * n] m = Some (t_mem st)
       \<and> (\<exists>x y. t_ctx st = set_sub i w (fresh_sub sub_h level below th left n x y) c)"
  proof (cases r)
    case None
    then show ?thesis using mem al1 st c
      by (simp add: subtree_init_buffers_def Let_def op_defs update_ctx_def allocate_def)
  next
    case (Some x)
    show ?thesis
    proof (cases r2)
      case None
      then show ?thesis using mem al1 al2 Some st c h get
        by (simp add: subtree_init_buffers_def Let_def op_defs update_ctx_def allocate_def subtree_free_buffers_def release_def)
    next
      case (Some y)
      then show ?thesis using al1 al2 \<open>r = Some x\<close> st c h
        by (auto simp: subtree_init_buffers_def Let_def op_defs update_ctx_def allocate_def fresh_sub_def)
    qed
  qed
qed

text \<open>The buffers of a sublevel, in the order they are asked for.\<close>

definition level_sizes :: "nat \<Rightarrow> nat \<Rightarrow> nat \<Rightarrow> nat \<Rightarrow> nat list" where
  "level_sizes h j L s = (let x = [2 ^ Suc (level_height h j L s) * 32, level_height h j L s * 32] in if Suc s < L then x @ x else x)"

definition ctx_sizes :: "nat \<Rightarrow> nat \<Rightarrow> nat \<Rightarrow> nat \<Rightarrow> nat list" where
  "ctx_sizes h j L k = L * LMS_SUBLEVEL_SIZE # concat (map (level_sizes h j L) [0..<k])"

text \<open>A context whose first \<open>k\<close> sublevels are laid out.\<close>

definition laid_out :: "nat \<Rightarrow> nat \<Rightarrow> nat \<Rightarrow> nat \<Rightarrow> ('w, 'm) lms_tree_ctx_t \<Rightarrow> bool" where
  "laid_out h j L k c \<longleftrightarrow> ctx_height c = h \<and> ctx_n c = 32 \<and> ctx_subtree_size c = j \<and> ctx_sublevels c = L
     \<and> ctx_levels c \<noteq> None \<and> length (levels_of c) = L
     \<and> (\<forall>s < k. sub_shape h j L s (get_sub s Active c) \<and> (Suc s < L \<longrightarrow> sub_shape h j L s (get_sub s Upcoming c))
         \<and> (sl_has_upcoming (levels_of c ! s) \<longleftrightarrow> Suc s < L))"

lemma laid_out_shape: "laid_out h j L L c \<Longrightarrow> ctx_shape h j L c"
  by (simp add: laid_out_def ctx_shape_def)

lemma slots_Some [simp]: "slots (Some (x, xs)) = xs"
  by (simp add: slots_def)

lemma fresh_shape: "sub_shape h j L s (fresh_sub (level_height h j L s) (level_top h j L s) below h left 32 x y)"
  by (simp add: sub_shape_def fresh_sub_def sub_bufs_def)

lemma has_upcoming_set_sub [simp]:
  "s < length (levels_of c) \<Longrightarrow> sl_has_upcoming (levels_of (set_sub s w sub c) ! s') = sl_has_upcoming (levels_of c ! s')"
  by (cases w; cases "s' = s") (auto simp: set_sub_def)

lemma get_sub_flag [simp]:
  "s < length (levels_of c) \<Longrightarrow> get_sub s' w (set_level s ((levels_of c ! s)\<lparr>sl_has_upcoming := x\<rparr>) c) = get_sub s' w c"
  by (cases w; cases "s' = s") (auto simp: get_sub_def)

text \<open>The answer to a query.\<close>

definition path_answer :: "lms_param_t \<Rightarrow> lmots_param_t \<Rightarrow> lms_private_key_t \<Rightarrow> u32 \<Rightarrow> lms_status_t + bytes" where
  "path_answer a b priv q = (if unat q < 2 ^ lp_height a then Inr (concat (lms_path a b (priv_I priv) (priv_seed priv) (unat q)))
     else Inl LMS_ERR_INVALID)"

text \<open>A configuration for a key and its sublevels.\<close>

definition configured_for :: "lms_private_key_t \<Rightarrow> nat \<Rightarrow> nat \<Rightarrow> nat \<Rightarrow> lms_tree_config_t \<Rightarrow> bool" where
  "configured_for priv h j L cfg \<longleftrightarrow> cfg_lms_type cfg = priv_lms_type priv \<and> unat (cfg_height cfg) = h \<and> unat (cfg_n cfg) = 32
     \<and> unat (cfg_subtree_size cfg) = j \<and> unat (cfg_sublevels cfg) = L \<and> LMS_SUBTREE_MIN_J \<le> cfg_subtree_size cfg"

context cached_tree begin

text \<open>The fields \<open>lms_tree_ctx_init\<close> sets.\<close>

abbreviation ctx_new :: "('w, 'm) lms_tree_ctx_t \<Rightarrow> bool" where
  "ctx_new \<equiv> ctx_serves priv (op_hash_alg b) src None al fr"

lemma runs_init_sublevel:
  assumes s: "s < L" and mem: "alloc_seq al (level_sizes h j L s) m = None \<Longrightarrow> fl"
  shows "runs fl (\<lambda>st. I (t_lib st) \<and> t_mem st = m \<and> laid_out h j L s (t_ctx st) \<and> ctx_new (t_ctx st))
    (init_sublevel L j (h - (L - 1) * j) h 32 s)
    (\<lambda>_ st. I (t_lib st) \<and> alloc_seq al (level_sizes h j L s) m = Some (t_mem st) \<and> laid_out h j L (Suc s) (t_ctx st) \<and> ctx_new (t_ctx st))"
proof (rule runs_gen, elim conjE)
  fix st0 :: "('w, 'm) tree_state" assume st0: "I (t_lib st0)" "t_mem st0 = m" "laid_out h j L s (t_ctx st0)" "ctx_new (t_ctx st0)"
  let ?h = "ht s" and ?c = "t_ctx st0" and ?x = "[2 ^ Suc (ht s) * 32, ht s * 32]"
  have c: "ctx_alloc ?c = al" "s < length (levels_of ?c)" using st0 s by (simp_all add: laid_out_def ctx_serves_def)
  have hh: "(if Suc s < L then j else h - (L - 1) * j) = ?h" by (simp add: level_height_def)
  have lvs: "s * j + ?h = lv s" by (simp add: level_top_def)
  have mem1: "alloc_seq al ?x m = None \<Longrightarrow> fl"
    using mem by (cases "Suc s < L") (simp_all add: level_sizes_def Let_def alloc_seq_append del: alloc_seq.simps append_Cons)
  have act: "runs fl (\<lambda>t. t = st0) (subtree_init_buffers s Active ?h (lv s) (s * j) h 0 32)
      (\<lambda>_ st. I (t_lib st) \<and> alloc_seq al ?x m = Some (t_mem st)
         \<and> (\<exists>x y. t_ctx st = set_sub s Active (fresh_sub ?h (lv s) (s * j) h 0 32 x y) ?c))"
    by (rule runs_pre [OF runs_init_buffers [OF c ht_bounds(1) [OF s] mem1]]) (use st0 in simp_all)
  define flagged where "flagged x y = (let c' = set_sub s Active (fresh_sub ?h (lv s) (s * j) h 0 32 x y) ?c
     in set_level s ((levels_of c' ! s)\<lparr>sl_has_upcoming := Suc s < L\<rparr>) c')" for x y
  have flag: "runs fl (\<lambda>st. I (t_lib st) \<and> alloc_seq al ?x m = Some (t_mem st)
         \<and> (\<exists>x y. t_ctx st = set_sub s Active (fresh_sub ?h (lv s) (s * j) h 0 32 x y) ?c))
      (update_ctx (\<lambda>c. set_level s ((levels_of c ! s)\<lparr>sl_has_upcoming := Suc s < L\<rparr>) c))
      (\<lambda>_ st. \<exists>x y. I (t_lib st) \<and> alloc_seq al ?x m = Some (t_mem st) \<and> t_ctx st = flagged x y)"
    unfolding update_ctx_def by (rule runs_modify, elim exE conjE, intro exI conjI) (simp_all add: flagged_def Let_def)
  have f: "ctx_alloc (flagged x y) = al" "s < length (levels_of (flagged x y))" for x y using c by (simp_all add: flagged_def Let_def)
  have shape1: "laid_out h j L s (flagged x y) \<and> ctx_new (flagged x y) \<and> sub_shape h j L s (get_sub s Active (flagged x y))
      \<and> (sl_has_upcoming (levels_of (flagged x y) ! s) \<longleftrightarrow> Suc s < L)" for x y
    using st0(3,4) c(2) fresh_shape [of h j L s "s * j" 0 x y]
    by (auto simp: flagged_def Let_def laid_out_def ctx_serves_def get_set_sub simp del: not_None_eq)
  show "runs fl (\<lambda>t. t = st0) (init_sublevel L j (h - (L - 1) * j) h 32 s)
    (\<lambda>_ st. I (t_lib st) \<and> alloc_seq al (level_sizes h j L s) m = Some (t_mem st) \<and> laid_out h j L (Suc s) (t_ctx st) \<and> ctx_new (t_ctx st))"
    unfolding init_sublevel_def Let_def Suc_eq_plus1 [symmetric] hh lvs
  proof (rule runs_andthen [OF act runs_andthen [OF flag]], intro runs_ex, rule runs_gen, elim conjE)
    fix x y and st :: "('w, 'm) tree_state" assume st: "I (t_lib st)" "alloc_seq al ?x m = Some (t_mem st)" "t_ctx st = flagged x y"
    show "runs fl (\<lambda>t. t = st) (if Suc s < L then subtree_init_buffers s Upcoming ?h (lv s) (s * j) h (2 ^ ?h) 32 else ret ())
      (\<lambda>_ st. I (t_lib st) \<and> alloc_seq al (level_sizes h j L s) m = Some (t_mem st) \<and> laid_out h j L (Suc s) (t_ctx st) \<and> ctx_new (t_ctx st))"
    proof (cases "Suc s < L")
      case True
      have sz: "alloc_seq al (level_sizes h j L s) m = alloc_seq al ?x (t_mem st)"
        using True st(2) by (simp add: level_sizes_def Let_def alloc_seq_append del: alloc_seq.simps append_Cons)
      have "laid_out h j L (Suc s) (set_sub s Upcoming (fresh_sub ?h (lv s) (s * j) h (2 ^ ?h) 32 u v) (flagged x y))
          \<and> ctx_new (set_sub s Upcoming (fresh_sub ?h (lv s) (s * j) h (2 ^ ?h) 32 u v) (flagged x y))" for u v
        using shape1 [of x y] f(2) [of x y] fresh_shape [of h j L s "s * j" "2 ^ ?h" u v]
        by (auto simp: laid_out_def less_Suc_eq get_set_sub simp del: not_None_eq)
      then show ?thesis unfolding if_P [OF True] sz
        by (intro runs_conseq [OF runs_init_buffers [OF f ht_bounds(1) [OF s], where m = "t_mem st" and P = I]]) (use st mem sz in auto)
    next
      case False
      have "alloc_seq al (level_sizes h j L s) m = alloc_seq al ?x m" using False by (simp add: level_sizes_def Let_def)
      moreover have "laid_out h j L (Suc s) (flagged x y)" using shape1 [of x y] False by (auto simp: laid_out_def less_Suc_eq)
      ultimately show ?thesis unfolding if_not_P [OF False] using st shape1 [of x y] by (intro runs_ret) simp
    qed
  qed
qed

lemma runs_lib:
  assumes "gives fl I f (Inr x)"
  shows "runs fl (\<lambda>st. I (t_lib st) \<and> R (t_ctx st) (t_mem st)) (on_lib f) (\<lambda>y st. y = x \<and> I (t_lib st) \<and> R (t_ctx st) (t_mem st))"
  using assms by (fastforce simp: runs_def gives_def yields_def on_lib_def split: prod.splits sum.splits)

lemma configured_top:
  assumes "configured_for priv h j L cfg"
  shows "unat (cfg_height cfg - (cfg_sublevels cfg - 1) * cfg_subtree_size cfg) = h - (L - 1) * j"
proof -
  have e: "unat (cfg_height cfg) = h" "unat (cfg_subtree_size cfg) = j" "unat (cfg_sublevels cfg) = L"
    using assms by (simp_all add: configured_for_def)
  have one: "unat (cfg_sublevels cfg - 1) = L - 1" using e(3) sizes(2) by (subst unat_sub) (simp_all add: word_le_nat_alt)
  have "(L - 1) * j < 2 ^ 32" using sizes(3) h25 by simp
  then have "unat ((cfg_sublevels cfg - 1) * cfg_subtree_size cfg) = (L - 1) * j"
    using one e(2) by (simp add: unat_word_ariths(2))
  then show ?thesis using e(1) sizes(3) by (subst unat_sub) (simp_all add: word_le_nat_alt)
qed

lemma runs_init_sublevels:
  assumes "alloc_seq al (concat (map (level_sizes h j L) [0..<L])) m = None \<Longrightarrow> fl"
  shows "runs fl (\<lambda>st. I (t_lib st) \<and> t_mem st = m \<and> laid_out h j L 0 (t_ctx st) \<and> ctx_new (t_ctx st))
    (for_each (init_sublevel L j (h - (L - 1) * j) h 32) [0..<L])
    (\<lambda>_ st. I (t_lib st) \<and> alloc_seq al (concat (map (level_sizes h j L) [0..<L])) m = Some (t_mem st)
       \<and> laid_out h j L L (t_ctx st) \<and> ctx_new (t_ctx st))"
proof -
  let ?A = "\<lambda>k. alloc_seq al (concat (map (level_sizes h j L) [0..<k])) m"
  let ?P = "\<lambda>k st. I (t_lib st) \<and> ?A k = Some (t_mem st) \<and> laid_out h j L k (t_ctx st) \<and> ctx_new (t_ctx st)"
  have later: "?A k = None \<Longrightarrow> k \<le> n \<Longrightarrow> ?A n = None" for k n
    by (induction n) (auto simp: le_Suc_eq alloc_seq_append)
  have step: "runs fl (?P s) (init_sublevel L j (h - (L - 1) * j) h 32 s) (\<lambda>_. ?P (Suc s))" if s: "s < L" for s
  proof (cases "?A s")
    case None
    then show ?thesis by (simp add: runs_def)
  next
    case (Some m1)
    have next': "?A (Suc s) = alloc_seq al (level_sizes h j L s) m1" by (simp add: alloc_seq_append Some)
    then have "alloc_seq al (level_sizes h j L s) m1 = None \<Longrightarrow> fl" using assms later [of "Suc s" L] s by simp
    then show ?thesis unfolding next' by (rule runs_pre [OF runs_init_sublevel [OF s]]) (simp_all add: Some)
  qed
  have "runs fl (?P 0) (for_each (init_sublevel L j (h - (L - 1) * j) h 32) [0..<L]) (\<lambda>_. ?P L)"
    by (rule runs_for_each_unit [where P = ?P]) (rule step, simp_all)
  then show ?thesis by (rule runs_pre) simp
qed

lemma runs_ctx_init:
  assumes cfg: "configured_for priv h j L cfg" and mem: "alloc_seq al (ctx_sizes h j L L) m = None \<Longrightarrow> fl"
  shows "runs fl (\<lambda>st. I (t_lib st) \<and> t_mem st = m) (lms_tree_ctx_init cfg (priv_I priv) src al fr)
    (\<lambda>_ st. I (t_lib st) \<and> alloc_seq al (ctx_sizes h j L L) m = Some (t_mem st) \<and> laid_out h j L L (t_ctx st) \<and> ctx_new (t_ctx st))"
proof -
  note c = cfg [unfolded configured_for_def]
  have pos: "0 < h" "h \<le> 25" using sizes(3) h25 by simp_all
  have g: "\<not> (cfg_sublevels cfg = 0 \<or> cfg_subtree_size cfg < LMS_SUBTREE_MIN_J \<or> cfg_n cfg = 0
         \<or> cfg_height cfg = 0 \<or> LMS_MAX_HEIGHT < h)"
    using c sizes(2) pos by (auto simp: LMS_MAX_HEIGHT_def)
  obtain r m1 where r: "al (L * LMS_SUBLEVEL_SIZE) m = (r, m1)" by force
  have p: "gives fl I (lms_get_lms_param (priv_lms_type priv)) (Inr a)" by (rule gives_lms_param_ok [OF param_pairD(1) [OF key]])
  have e: "unat (cfg_sublevels cfg) = L" "unat (cfg_subtree_size cfg) = j" "unat (cfg_n cfg) = 32" "unat (cfg_height cfg) = h"
    "cfg_lms_type cfg = priv_lms_type priv" using c by simp_all
  let ?c0 = "\<lparr>ctx_lms_type = priv_lms_type priv, ctx_height = h, ctx_n = 32, ctx_subtree_size = j,
             ctx_sublevels = L, ctx_top_subtree_size = h - (L - 1) * j, ctx_hash_alg = lp_hash_alg a, ctx_I = priv_I priv, ctx_levels = None,
             ctx_ots_pub = src, ctx_leaf_fn = None, ctx_alloc = al, ctx_free = fr\<rparr>"
  let ?sl = "replicate L \<lparr>sl_active = cleared_subtree, sl_upcoming = cleared_subtree, sl_has_upcoming = False\<rparr>"
  have start: "runs fl (\<lambda>st. I (t_lib st) \<and> t_mem st = m) (on_lib (lms_get_lms_param (priv_lms_type priv)))
      (\<lambda>y st. y = a \<and> I (t_lib st) \<and> t_mem st = m)"
    by (rule runs_lib [OF p, where R = "\<lambda>_ m'. m' = m"])
  have set: "runs fl (\<lambda>st. I (t_lib st) \<and> t_mem st = m) (update_ctx (\<lambda>_. ?c0)) (\<lambda>_ st. I (t_lib st) \<and> t_mem st = m \<and> t_ctx st = ?c0)"
    unfolding update_ctx_def by (rule runs_modify) simp
  have all: "runs fl (\<lambda>st. I (t_lib st) \<and> t_mem st = m \<and> t_ctx st = ?c0) (allocate (L * LMS_SUBLEVEL_SIZE))
      (\<lambda>y st. y = r \<and> I (t_lib st) \<and> t_mem st = m1 \<and> t_ctx st = ?c0)"
    by (rule runsI) (auto simp: allocate_def r)
  show ?thesis unfolding lms_tree_ctx_init_def e Let_def configured_top [OF cfg]
  proof (rule runs_guard, rule g, rule runs_bind [OF runs_or_fail [OF start]], rule runs_fact, erule ssubst,
      rule runs_andthen [OF set], rule runs_bind [OF all], rule runs_fact, erule ssubst)
    show "runs fl (\<lambda>st. I (t_lib st) \<and> t_mem st = m1 \<and> t_ctx st = ?c0) (case r of None \<Rightarrow> fail LMS_ERR_INVALID
          | Some x \<Rightarrow> andthen (update_ctx (\<lambda>c. c\<lparr>ctx_levels := Some (x, ?sl)\<rparr>))
              (bind (attempt (for_each (init_sublevel L j (h - (L - 1) * j) h 32) [0..<L])) (\<lambda>r. case r of
                 Inr _ \<Rightarrow> ret () | Inl _ \<Rightarrow> andthen lms_tree_ctx_free (fail LMS_ERR_INVALID))))
      (\<lambda>_ st. I (t_lib st) \<and> alloc_seq al (ctx_sizes h j L L) m = Some (t_mem st) \<and> laid_out h j L L (t_ctx st) \<and> ctx_new (t_ctx st))"
    proof (cases r)
      case None
      then show ?thesis using mem r by (auto intro: runs_fail simp: ctx_sizes_def)
    next
      case (Some x)
      have sz: "alloc_seq al (ctx_sizes h j L L) m = alloc_seq al (concat (map (level_sizes h j L) [0..<L])) m1"
        by (simp add: ctx_sizes_def r Some)
      have new: "runs fl (\<lambda>st. I (t_lib st) \<and> t_mem st = m1 \<and> t_ctx st = ?c0) (update_ctx (\<lambda>c. c\<lparr>ctx_levels := Some (x, ?sl)\<rparr>))
          (\<lambda>_ st. I (t_lib st) \<and> t_mem st = m1 \<and> laid_out h j L 0 (t_ctx st) \<and> ctx_new (t_ctx st))"
        unfolding update_ctx_def by (rule runs_modify) (auto simp: laid_out_def ctx_serves_def levels_of_def alg_a)
      have "alloc_seq al (concat (map (level_sizes h j L) [0..<L])) m1 = None \<Longrightarrow> fl" using mem sz by simp
      note rest = runs_unless_failed [OF runs_init_sublevels [OF this]]
      show ?thesis unfolding sz Some option.case by (rule runs_andthen [OF new rest])
    qed
  qed
qed

lemma runs_set_leaf_fn:
  "runs fl (\<lambda>st. I (t_lib st) \<and> t_mem st = m \<and> laid_out h j L L (t_ctx st) \<and> ctx_new (t_ctx st)) (lms_subtree_set_leaf_fn lf) (\<lambda>_. cinv m)"
  unfolding lms_subtree_set_leaf_fn_def update_ctx_def
  by (rule runs_modify) (auto simp: cinv_def ctx_ok_def laid_out_def ctx_shape_def ctx_serves_def levels_of_def get_sub_def)

end
context cached_tree begin

text \<open>A query beyond the last leaf is refused and leaves the cache as it is.\<close>

lemma backend_refuses:
  assumes "cache_inv M st" and "\<not> unat q < 2 ^ h"
  shows "lms_subtree_auth_path_backend priv q st = (Inl LMS_ERR_INVALID, st)"
  using assms ctx_okD(1,5,7) [of "t_ctx st"]
  by (auto simp: lms_subtree_auth_path_backend_def lms_tree_sign_advance_def op_defs cache_inv_def)

lemma runs_answer:
  assumes "\<not> fl" and M: "mem_closed M"
  shows "runs fl (cache_inv M) (attempt (lms_subtree_auth_path_backend priv q)) (\<lambda>r st. r = path_answer a b priv q \<and> cache_inv M st)"
proof (rule runsI)
  fix st assume st: "cache_inv M st"
  show "case attempt (lms_subtree_auth_path_backend priv q) st of (Inl _, _) \<Rightarrow> fl | (Inr r, st) \<Rightarrow> r = path_answer a b priv q \<and> cache_inv M st"
  proof (cases "unat q < 2 ^ h")
    case True
    obtain path st' where "lms_subtree_auth_path_backend priv q st = (Inr path, st')"
      "path = concat (lms_path a b (priv_I priv) (priv_seed priv) (unat q)) \<and> cache_inv M st'"
      by (rule runs_success [OF runs_auth_path_backend [OF True M] assms(1) st])
    then show ?thesis using True by (simp add: attempt_def path_answer_def)
  next
    case False
    then show ?thesis using backend_refuses [OF st False] st by (simp add: attempt_def path_answer_def)
  qed
qed

lemma runs_answers:
  assumes "\<not> fl" and M: "mem_closed M"
  shows "runs fl (cache_inv M) (for_each (\<lambda>q. attempt (lms_subtree_auth_path_backend priv q)) qs)
    (\<lambda>rs st. rs = map (path_answer a b priv) qs \<and> cache_inv M st)"
proof (induction qs)
  case Nil
  then show ?case by (simp add: runs_ret)
next
  case (Cons q qs)
  show ?case unfolding for_each.simps
    by (rule runs_bind [OF runs_answer [OF assms]], rule runs_fact, rule runs_bind [OF Cons.IH], rule runs_fact, rule runs_ret) simp
qed

text \<open>An allocator that refuses nothing.\<close>

lemma build_mem_granted: "(\<And>n m. fst (al n m) \<noteq> None) \<Longrightarrow> build_mem h j L al fr s m \<noteq> None"
proof (induction s arbitrary: m)
  case (Suc s)
  obtain x m1 where x: "al (2 ^ level_height h j L (Suc s) * 32) m = (Some x, m1)"
    using Suc.prems [of "2 ^ level_height h j L (Suc s) * 32" m] by (metis fst_conv not_None_eq prod.collapse)
  have "repeat_mem (build_mem h j L al fr s) k m' \<noteq> None" for k m'
    by (induction k) (use Suc.IH [OF Suc.prems] in \<open>auto simp: Option.bind_eq_None_conv\<close>)
  then show ?case by (simp add: x)
qed simp

lemma init_mem_granted: "(\<And>n m. fst (al n m) \<noteq> None) \<Longrightarrow> init_mem k m \<noteq> None"
  by (induction k) (auto simp: build_mem_granted Option.bind_eq_None_conv)

lemma mem_closed_granted: "(\<And>n m. fst (al n m) \<noteq> None) \<Longrightarrow> mem_closed (\<lambda>_. True)"
  using build_mem_granted by (auto simp: mem_closed_def option.case_eq_if simp del: not_None_eq)

lemma alloc_seq_granted: "(\<And>n m. fst (al n m) \<noteq> None) \<Longrightarrow> alloc_seq al ns m \<noteq> None"
proof (induction ns arbitrary: m)
  case (Cons n ns)
  then show ?case by (cases "al n m") (auto split: option.splits, metis fst_conv)
qed simp

text \<open>A context from its initialisation on.\<close>

lemma runs_new:
  assumes cfg: "configured_for priv h j L cfg" and lf: "lf = None" and mem: "alloc_seq al (ctx_sizes h j L L) m = None \<Longrightarrow> fl"
  shows "runs fl (\<lambda>st. I (t_lib st) \<and> t_mem st = m) (lms_tree_ctx_init cfg (priv_I priv) src al fr)
    (\<lambda>_ st. \<exists>m1. alloc_seq al (ctx_sizes h j L L) m = Some m1 \<and> cinv m1 st)"
proof -
  have ok: "laid_out h j L L c \<Longrightarrow> ctx_new c \<Longrightarrow> ctx_ok c" for c unfolding ctx_ok_def by (subst lf) (blast intro: laid_out_shape)
  show ?thesis by (rule runs_post [OF runs_ctx_init [OF cfg mem]]) (auto simp: cinv_def ok)
qed

lemma runs_ready:
  assumes cfg: "configured_for priv h j L cfg" and lf: "lf = None"
    and mem: "Option.bind (alloc_seq al (ctx_sizes h j L L) m) (init_mem L) = None \<Longrightarrow> fl"
  shows "runs fl (\<lambda>st. I (t_lib st) \<and> t_mem st = m)
    (andthen (lms_tree_ctx_init cfg (priv_I priv) src al fr) (lms_tree_sign_init priv))
    (\<lambda>_ st. \<exists>m'. Option.bind (alloc_seq al (ctx_sizes h j L L) m) (init_mem L) = Some m' \<and> cinv m' st \<and> cached 0 (t_ctx st))"
proof (rule runs_andthen [OF runs_new [OF cfg lf]])
  show "alloc_seq al (ctx_sizes h j L L) m = None \<Longrightarrow> fl" using mem by simp
  show "runs fl (\<lambda>st. \<exists>m1. alloc_seq al (ctx_sizes h j L L) m = Some m1 \<and> cinv m1 st) (lms_tree_sign_init priv)
      (\<lambda>_ st. \<exists>m'. Option.bind (alloc_seq al (ctx_sizes h j L L) m) (init_mem L) = Some m' \<and> cinv m' st \<and> cached 0 (t_ctx st))"
    by (intro runs_ex runs_fact, rule runs_post [OF runs_sign_init]) (use mem in auto)
qed

lemma ready_inv: "cinv m st \<Longrightarrow> cached 0 (t_ctx st) \<Longrightarrow> M m \<Longrightarrow> cache_inv M st"
  using cached_actives [of 0] by (simp add: cinv_def cache_inv_def)

lemma runs_root_life:
  assumes cfg: "configured_for priv h j L cfg" and lf: "lf = None" and mem: "alloc_seq al (ctx_sizes h j L L) m = None \<Longrightarrow> fl"
  shows "runs fl (\<lambda>st. I (t_lib st) \<and> t_mem st = m)
    (andthen (lms_tree_ctx_init cfg (priv_I priv) src al fr) (lms_tree_keygen_root priv)) (\<lambda>root _. root = V 1)"
  by (rule runs_andthen [OF runs_new [OF cfg lf mem]], assumption, intro runs_ex runs_fact, rule runs_post [OF runs_keygen_root]) simp

end

section \<open>The contexts of all keys\<close>

text \<open>The parameters of a context, and the ones it is made for. The parameters of the locale are those of an
  admissible setup; any other is replaced by one sublevel of a key of height 5.\<close>

record 'w lib_contract =
  lc_inv :: "'w lms_lib \<Rightarrow> bool"
  lc_heap :: nat
  lc_fails :: bool
  lc_world :: "'w \<Rightarrow> bool"
  lc_seed :: bytes
  lc_coef :: bool

record ('w, 'm) cache_setup =
  su_lib :: "'w lib_contract"
  su_priv :: lms_private_key_t
  su_lms :: lms_param_t
  su_ots :: lmots_param_t
  su_size :: nat
  su_levels :: nat
  su_src :: "'w ots_pub_fn option"
  su_leaf :: "'w ots_pub_fn option"
  su_alloc :: "'m tree_alloc_fn"
  su_free :: "'m tree_free_fn"

definition tree_contract :: "'w lib_contract \<Rightarrow> bool" where
  "tree_contract c \<longleftrightarrow> tree_library (lc_inv c) (lc_heap c) (lc_fails c) (lc_world c) (lc_seed c) (lc_coef c)"

text \<open>The source of public keys and the source of leaves deliver what they should.\<close>

definition source_ok :: "'w lib_contract \<Rightarrow> lms_private_key_t \<Rightarrow> lms_param_t \<Rightarrow> lmots_param_t \<Rightarrow> 'w ots_pub_fn option \<Rightarrow> bool" where
  "source_ok c priv a b kq \<longleftrightarrow> (\<forall>f q. kq = Some f \<longrightarrow> unat q < 2 ^ lp_height a \<longrightarrow>
     gives (lc_fails c) (lc_inv c) (f priv q) (Inr (ots_pub (op_hash_alg b) b (priv_I priv) (priv_seed priv) q)))"

definition leaf_ok :: "'w lib_contract \<Rightarrow> lms_private_key_t \<Rightarrow> lms_param_t \<Rightarrow> lmots_param_t \<Rightarrow> 'w ots_pub_fn option \<Rightarrow> bool" where
  "leaf_ok c priv a b lf \<longleftrightarrow> (\<forall>f q. lf = Some f \<longrightarrow> unat q < 2 ^ lp_height a \<longrightarrow>
     gives (lc_fails c) (lc_inv c) (f priv q) (Inr (lms_node a b (priv_I priv) (priv_seed priv) (2 ^ lp_height a + unat q))))"

definition setup_ok :: "('w, 'm) cache_setup \<Rightarrow> bool" where
  "setup_ok x \<longleftrightarrow> tree_contract (su_lib x)
     \<and> param_pair (priv_lms_type (su_priv x)) (priv_lmots_type (su_priv x)) = Some (su_lms x, su_ots x)
     \<and> length (priv_I (su_priv x)) = 16 \<and> priv_seed (su_priv x) = lc_seed (su_lib x)
     \<and> 0 < su_size x \<and> 0 < su_levels x \<and> (su_levels x - 1) * su_size x < lp_height (su_lms x)
     \<and> source_ok (su_lib x) (su_priv x) (su_lms x) (su_ots x) (su_src x) \<and> leaf_ok (su_lib x) (su_priv x) (su_lms x) (su_ots x) (su_leaf x)"

definition env_contract :: "'w lms_env \<Rightarrow> 'w lib_contract" where
  "env_contract E = \<lparr>lc_inv = tree_conforming E, lc_heap = env_heap E, lc_fails = env_fails E, lc_world = env_world E,
     lc_seed = env_seed E, lc_coef = env_coef E\<rparr>"

lemma env_contract_sel [simp]:
  "lc_inv (env_contract E) = tree_conforming E" "lc_fails (env_contract E) = env_fails E" "lc_seed (env_contract E) = env_seed E"
  by (simp_all add: env_contract_def)

lemma env_contract_ok: "tree_contract (env_contract E)"
  using tree.tree_library_axioms [of E] by (simp add: tree_contract_def env_contract_def)

definition default_env :: "'w lms_env" where
  "default_env = \<lparr>env_fails = False, env_world = (\<lambda>_. True), env_seed = priv_seed test_priv, env_heap = 0, env_coef = False, env_serves = (\<lambda>_. True)\<rparr>"

lemma test_I16: "length (priv_I test_priv) = 16"
  by (simp add: test_priv_def)

definition admissible :: "('w, 'm) cache_setup \<Rightarrow> ('w, 'm) cache_setup" where
  "admissible x = (if setup_ok x then x
     else x\<lparr>su_lib := env_contract default_env, su_priv := test_priv, su_lms := test_lms_param, su_ots := test_ots_param,
            su_size := 5, su_levels := 1, su_src := None, su_leaf := None\<rparr>)"

lemma admissible_ok: "setup_ok (admissible x)"
proof (cases "setup_ok x")
  case True
  then show ?thesis by (simp add: admissible_def)
next
  case False
  then have "admissible x = x\<lparr>su_lib := env_contract default_env, su_priv := test_priv, su_lms := test_lms_param, su_ots := test_ots_param,
      su_size := 5, su_levels := 1, su_src := None, su_leaf := None\<rparr>" by (simp add: admissible_def)
  then show ?thesis using test_priv_facts(3) test_I16 env_contract_ok [of default_env]
    by (simp add: setup_ok_def source_ok_def leaf_ok_def test_lms_param_def default_env_def)
qed

interpretation cache: cached_tree "lc_inv (su_lib (admissible x))" "lc_heap (su_lib (admissible x))" "lc_fails (su_lib (admissible x))"
    "lc_world (su_lib (admissible x))" "lc_seed (su_lib (admissible x))" "lc_coef (su_lib (admissible x))" "su_priv (admissible x)"
    "su_lms (admissible x)" "su_ots (admissible x)" "su_size (admissible x)" "su_levels (admissible x)" "su_src (admissible x)"
    "su_leaf (admissible x)" "su_alloc (admissible x)" "su_free (admissible x)" for x :: "('w, 'm) cache_setup"
  using admissible_ok [of x] unfolding setup_ok_def tree_contract_def cached_tree_def cached_tree_axioms_def source_ok_def leaf_ok_def
  by blast

section \<open>Properties\<close>

text \<open>The setup that a key and a budget give.\<close>

definition chosen_setup :: "'w lib_contract \<Rightarrow> lms_private_key_t \<Rightarrow> lms_param_t \<Rightarrow> lmots_param_t \<Rightarrow> u64 \<Rightarrow> 'w ots_pub_fn option \<Rightarrow>
    'm tree_alloc_fn \<Rightarrow> 'm tree_free_fn \<Rightarrow> ('w, 'm) cache_setup" where
  "chosen_setup c priv a b target kq al fr = (let cfg = chosen_config (priv_lms_type priv) (lp_height a) target in
     \<lparr>su_lib = c, su_priv = priv, su_lms = a, su_ots = b, su_size = unat (cfg_subtree_size cfg), su_levels = unat (cfg_sublevels cfg),
      su_src = kq, su_leaf = None, su_alloc = al, su_free = fr\<rparr>)"

lemma chosen_setup_sel [simp]:
  "su_lib (chosen_setup c priv a b target kq al fr) = c" "su_priv (chosen_setup c priv a b target kq al fr) = priv"
  "su_lms (chosen_setup c priv a b target kq al fr) = a" "su_ots (chosen_setup c priv a b target kq al fr) = b"
  "su_src (chosen_setup c priv a b target kq al fr) = kq" "su_leaf (chosen_setup c priv a b target kq al fr) = None"
  "su_alloc (chosen_setup c priv a b target kq al fr) = al" "su_free (chosen_setup c priv a b target kq al fr) = fr"
  by (simp_all add: chosen_setup_def Let_def)

lemmas chosen_sel = chosen_setup_sel env_contract_sel

lemma chosen_setup_ok:
  fixes target :: u64 and al :: "'m tree_alloc_fn" and fr :: "'m tree_free_fn"
  assumes key: "param_pair (priv_lms_type priv) (priv_lmots_type priv) = Some (a, b)"
    and I: "length (priv_I priv) = 16" and c: "tree_contract c" "lc_seed c = priv_seed priv" and kq: "source_ok c priv a b kq"
  defines "x \<equiv> chosen_setup c priv a b target kq al fr"
  shows "admissible x = x" and "configured_for priv (lp_height a) (su_size x) (su_levels x) (chosen_config (priv_lms_type priv) (lp_height a) target)"
    and "sublevel_count (lp_height a) (su_size x) = su_levels x" and "2 \<le> su_size x" "su_size x \<le> lp_height a"
proof -
  let ?cfg = "chosen_config (priv_lms_type priv) (lp_height a) target"
  have h: "2 \<le> lp_height a" "lp_height a \<le> 25" using lms_param_cases(3) [OF param_pairD(1) [OF key]] by auto
  note cc = chosen_config_ok [OF h, where type = "priv_lms_type priv" and target = target]
  have j: "2 \<le> unat (cfg_subtree_size ?cfg)" "unat (cfg_subtree_size ?cfg) \<le> lp_height a" using cc(1) by (simp_all add: tree_choice_def)
  have e: "su_size x = unat (cfg_subtree_size ?cfg)" "su_levels x = unat (cfg_sublevels ?cfg)"
    by (simp_all add: x_def chosen_setup_def Let_def)
  show "sublevel_count (lp_height a) (su_size x) = su_levels x" "2 \<le> su_size x" "su_size x \<le> lp_height a" using e cc(2) j by simp_all
  have b: "0 < unat (cfg_sublevels ?cfg)" "(unat (cfg_sublevels ?cfg) - 1) * unat (cfg_subtree_size ?cfg) < lp_height a"
    using sublevel_count_bounds(1,2) [OF _ j(2)] j(1) cc(2) by simp_all
  have "setup_ok x" using key I c kq b j by (simp add: setup_ok_def leaf_ok_def e) (simp add: x_def)
  then show "admissible x = x" by (simp add: admissible_def)
  have "LMS_SUBTREE_MIN_J \<le> cfg_subtree_size ?cfg" using j(1) by (simp add: LMS_SUBTREE_MIN_J_def word_le_nat_alt)
  then show "configured_for priv (lp_height a) (su_size x) (su_levels x) ?cfg" using cc(4,5,6) by (simp add: configured_for_def e)
qed

lemma conforming_configure:
  assumes key: "param_pair (priv_lms_type priv) (priv_lmots_type priv) = Some (a, b)" and s: "tree_conforming E (t_lib st)"
  obtains st' where "on_lib (lms_tree_configure (priv_lms_type priv) target) st = (Inr (chosen_config (priv_lms_type priv) (lp_height a) target), st')"
    "tree_conforming E (t_lib st')" "t_mem st' = t_mem st"
proof -
  have g: "gives False (tree_conforming E) (lms_tree_configure (priv_lms_type priv) target) (Inr (chosen_config (priv_lms_type priv) (lp_height a) target))"
    using tree.gives_tree_configure [of False E "priv_lms_type priv" target] param_pairD(1) [OF key] by simp
  obtain r l where l: "lms_tree_configure (priv_lms_type priv) target (t_lib st) = (r, l)" by force
  have "r = Inr (chosen_config (priv_lms_type priv) (lp_height a) target)" "tree_conforming E l"
    using gives_run [OF g s] l by simp_all
  then show thesis using that [of "st\<lparr>t_lib := l\<rparr>"] l by (simp add: on_lib_def)
qed

text \<open>
  C9. The tree cache implements the authentication paths of RFC 8554. For every key, every memory budget
  and an allocator that grants its requests: the context that \<open>lms_tree_configure\<close>, \<open>lms_tree_ctx_init\<close> and
  \<open>lms_tree_sign_init\<close> set up answers every sequence of queries to \<open>lms_subtree_auth_path_backend\<close>, in
  any order and with repetitions, each with the path of the queried leaf, whether that leaf is in
  the cached subtrees or not; a number that is no leaf is refused and disturbs nothing. The public
  keys of the leaves may come from a source of the caller, which must deliver the right ones.
\<close>

theorem lms_subtree_backend_serves:
  fixes st :: "('w, 'm) tree_state"
  assumes key: "param_pair (priv_lms_type priv) (priv_lmots_type priv) = Some (a, b)"
    and I: "length (priv_I priv) = 16" and seed: "env_seed E = priv_seed priv"
    and s: "tree_conforming E (t_lib st)" "\<not> env_fails E" and al: "\<And>n m. fst (al n m) \<noteq> None"
    and kq: "\<And>f q. kq_src = Some f \<Longrightarrow> unat q < 2 ^ lp_height a \<Longrightarrow>
      gives False (tree_conforming E) (f priv q) (Inr (ots_pub (op_hash_alg b) b (priv_I priv) (priv_seed priv) q))"
  shows "fst (bind (on_lib (lms_tree_configure (priv_lms_type priv) target)) (\<lambda>cfg.
      andthen (andthen (lms_tree_ctx_init cfg (priv_I priv) kq_src al fr) (lms_tree_sign_init priv))
        (for_each (\<lambda>q. attempt (lms_subtree_auth_path_backend priv q)) qs)) st)
    = Inr (map (path_answer a b priv) qs)"
proof -
  let ?x = "chosen_setup (env_contract E) priv a b target kq_src al fr" and ?cfg = "chosen_config (priv_lms_type priv) (lp_height a) target"
  have adm: "admissible ?x = ?x" and cfg: "configured_for priv (lp_height a) (su_size ?x) (su_levels ?x) ?cfg"
    using kq s(2) by (auto intro!: chosen_setup_ok(1,2) [OF key I env_contract_ok] simp: seed source_ok_def)
  note granted = cache.mem_closed_granted [of ?x, unfolded adm chosen_sel, OF al] cache.init_mem_granted [of ?x, unfolded adm chosen_sel, OF al]
    cache.alloc_seq_granted [of ?x, unfolded adm chosen_sel, OF al]
  obtain st1 where st1: "on_lib (lms_tree_configure (priv_lms_type priv) target) st = (Inr ?cfg, st1)" "tree_conforming E (t_lib st1)"
    by (rule conforming_configure [OF key s(1)])
  have mem: "Option.bind (alloc_seq al (ctx_sizes (lp_height a) (su_size ?x) (su_levels ?x) (su_levels ?x)) (t_mem st1))
      (cached_tree.init_mem a (su_size ?x) (su_levels ?x) al fr (su_levels ?x)) = None \<Longrightarrow> env_fails E"
    using granted(2,3) by (auto simp: Option.bind_eq_None_conv)
  have life: "runs (env_fails E) (\<lambda>st. tree_conforming E (t_lib st) \<and> t_mem st = t_mem st1)
      (andthen (andthen (lms_tree_ctx_init ?cfg (priv_I priv) kq_src al fr) (lms_tree_sign_init priv))
        (for_each (\<lambda>q. attempt (lms_subtree_auth_path_backend priv q)) qs)) (\<lambda>rs st. rs = map (path_answer a b priv) qs)"
    by (rule runs_andthen [OF runs_post [OF cache.runs_ready [of ?x, unfolded adm chosen_sel, OF cfg refl mem]]
          runs_post [OF cache.runs_answers [of ?x, unfolded adm chosen_sel, OF s(2) granted(1)]]])
      (auto intro: cache.ready_inv [of ?x, unfolded adm chosen_sel])
  obtain rs st2 where "andthen (andthen (lms_tree_ctx_init ?cfg (priv_I priv) kq_src al fr) (lms_tree_sign_init priv))
        (for_each (\<lambda>q. attempt (lms_subtree_auth_path_backend priv q)) qs) st1 = (Inr rs, st2)" "rs = map (path_answer a b priv) qs"
    by (rule runs_success [OF life s(2)]) (use st1(2) in auto)
  then show ?thesis using st1(1) by (simp add: bind_def)
qed

text \<open>A context that is not initialised, and an allocator that counts the bytes it has given out.\<close>

definition bump_alloc :: "nat tree_alloc_fn" where
  "bump_alloc n m = (Some m, m + n)"

definition no_free :: "nat tree_free_fn" where
  "no_free x m = m"

definition blank_state :: "'w lms_lib \<Rightarrow> ('w, nat) tree_state" where
  "blank_state s = \<lparr>t_lib = s, t_ctx = \<lparr>ctx_lms_type = 0, ctx_height = 0, ctx_n = 0, ctx_subtree_size = 0, ctx_sublevels = 0,
     ctx_top_subtree_size = 0, ctx_hash_alg = LMS_HASH_SHA256, ctx_I = [], ctx_levels = None, ctx_ots_pub = None, ctx_leaf_fn = None,
     ctx_alloc = bump_alloc, ctx_free = no_free\<rparr>, t_mem = 0\<rparr>"

lemma bump_grants: "fst (bump_alloc n m) \<noteq> None"
  by (simp add: bump_alloc_def)

lemma blank_conforming: "tree_conforming test_env (t_lib (blank_state hash_test_lib))"
  by (simp add: blank_state_def test_lib_tree_conforming)

lemma test_source:
  "Some default_ots_pub = Some f \<Longrightarrow> unat q < 2 ^ lp_height test_lms_param \<Longrightarrow> gives False (tree_conforming test_env) (f test_priv q)
     (Inr (ots_pub (op_hash_alg test_ots_param) test_ots_param (priv_I test_priv) (priv_seed test_priv) q))"
  using tree.gives_public_from_private [of test_priv test_lms_param test_ots_param test_env q] test_priv_facts test_I16
  by (auto simp: default_ots_pub_def)

text \<open>Witness of C9: 2000 bytes give the test key of height 5 two sublevels, with subtrees of height 3 below; the queries
  leave the first subtree and come back, and one asks for a leaf that does not exist.\<close>

theorem lms_subtree_backend_serves_witness:
  "fst (bind (on_lib (lms_tree_configure (priv_lms_type test_priv) 2000)) (\<lambda>cfg.
      andthen (andthen (lms_tree_ctx_init cfg (priv_I test_priv) (Some default_ots_pub) bump_alloc no_free) (lms_tree_sign_init test_priv))
        (for_each (\<lambda>q. attempt (lms_subtree_auth_path_backend test_priv q)) [0, 31, 32, 1])) (blank_state hash_test_lib))
    = Inr [Inr (concat (lms_path test_lms_param test_ots_param (priv_I test_priv) (priv_seed test_priv) 0)),
           Inr (concat (lms_path test_lms_param test_ots_param (priv_I test_priv) (priv_seed test_priv) 31)),
           Inl LMS_ERR_INVALID,
           Inr (concat (lms_path test_lms_param test_ots_param (priv_I test_priv) (priv_seed test_priv) 1))]"
proof -
  have "lp_height test_lms_param = 5" by (simp add: test_lms_param_def)
  then have e: "map (path_answer test_lms_param test_ots_param test_priv) [0, 31, 32, 1] =
      [Inr (concat (lms_path test_lms_param test_ots_param (priv_I test_priv) (priv_seed test_priv) 0)),
       Inr (concat (lms_path test_lms_param test_ots_param (priv_I test_priv) (priv_seed test_priv) 31)), Inl LMS_ERR_INVALID,
       Inr (concat (lms_path test_lms_param test_ots_param (priv_I test_priv) (priv_seed test_priv) 1))]"
    by (simp add: path_answer_def)
  show ?thesis unfolding e [symmetric]
    by (rule lms_subtree_backend_serves [where al = bump_alloc and kq_src = "Some default_ots_pub", OF test_priv_facts(3) test_I16 test_priv_facts(4) blank_conforming test_priv_facts(5) bump_grants]) (rule test_source)
qed

text \<open>
  C27. \<open>lms_tree_keygen_root\<close> computes the root of the public key. It keeps one subtree per sublevel and
  streams the leaves through them, from the bottom to the top; for every key and every budget the
  result is the root that \<open>lms_public_key_generate\<close> finds by recursion over the whole tree.
\<close>

theorem lms_tree_keygen_root_correct:
  fixes st :: "('w, 'm) tree_state"
  assumes key: "param_pair (priv_lms_type priv) (priv_lmots_type priv) = Some (a, b)"
    and I: "length (priv_I priv) = 16" and seed: "env_seed E = priv_seed priv"
    and s: "tree_conforming E (t_lib st)" "tree_conforming E s" "\<not> env_fails E" and al: "\<And>n m. fst (al n m) \<noteq> None"
    and kq: "\<And>f q. kq_src = Some f \<Longrightarrow> unat q < 2 ^ lp_height a \<Longrightarrow>
      gives False (tree_conforming E) (f priv q) (Inr (ots_pub (op_hash_alg b) b (priv_I priv) (priv_seed priv) q))"
  shows "\<exists>pub. fst (lms_public_key_generate priv s) = Inr pub
    \<and> fst (bind (on_lib (lms_tree_configure (priv_lms_type priv) target)) (\<lambda>cfg.
        andthen (lms_tree_ctx_init cfg (priv_I priv) kq_src al fr) (lms_tree_keygen_root priv)) st) = Inr (pub_root pub)"
proof -
  let ?x = "chosen_setup (env_contract E) priv a b target kq_src al fr" and ?cfg = "chosen_config (priv_lms_type priv) (lp_height a) target"
  have adm: "admissible ?x = ?x" and cfg: "configured_for priv (lp_height a) (su_size ?x) (su_levels ?x) ?cfg"
    using kq s(3) by (auto intro!: chosen_setup_ok(1,2) [OF key I env_contract_ok] simp: seed source_ok_def)
  obtain st1 where st1: "on_lib (lms_tree_configure (priv_lms_type priv) target) st = (Inr ?cfg, st1)" "tree_conforming E (t_lib st1)"
    by (rule conforming_configure [OF key s(1)])
  have mem: "alloc_seq al (ctx_sizes (lp_height a) (su_size ?x) (su_levels ?x) (su_levels ?x)) (t_mem st1) = None \<Longrightarrow> env_fails E"
    using cache.alloc_seq_granted [of ?x, unfolded adm chosen_sel, OF al] by blast
  obtain root st2 where "andthen (lms_tree_ctx_init ?cfg (priv_I priv) kq_src al fr) (lms_tree_keygen_root priv) st1 = (Inr root, st2)"
    "root = lms_node a b (priv_I priv) (priv_seed priv) 1"
    by (rule runs_success [OF cache.runs_root_life [of ?x, unfolded adm chosen_sel, OF cfg refl mem] s(3)]) (use st1(2) in auto)
  moreover have "gives False (tree_conforming E) (lms_public_key_generate priv) (Inr \<lparr>pub_lms_type = priv_lms_type priv,
      pub_lmots_type = priv_lmots_type priv, pub_I = priv_I priv, pub_root = lms_node a b (priv_I priv) (priv_seed priv) 1\<rparr>)"
    using tree.gives_public_key_generate [OF key I seed [symmetric]] s(3) by simp
  note gives_run(1) [OF this s(2)]
  ultimately show ?thesis using st1(1) by (simp add: bind_def)
qed

text \<open>Witness of C27.\<close>

theorem lms_tree_keygen_root_correct_witness:
  "\<exists>pub. fst (lms_public_key_generate test_priv hash_test_lib) = Inr pub
    \<and> fst (bind (on_lib (lms_tree_configure (priv_lms_type test_priv) 2000)) (\<lambda>cfg.
        andthen (lms_tree_ctx_init cfg (priv_I test_priv) (Some default_ots_pub) bump_alloc no_free) (lms_tree_keygen_root test_priv))
        (blank_state hash_test_lib)) = Inr (pub_root pub)"
  by (rule lms_tree_keygen_root_correct [where al = bump_alloc and kq_src = "Some default_ots_pub", OF test_priv_facts(3) test_I16 test_priv_facts(4) blank_conforming test_lib_tree_conforming
        test_priv_facts(5) bump_grants]) (rule test_source)

subsection \<open>The bytes of a context\<close>

lemma sum_list_levels:
  "length ls = L \<Longrightarrow> (\<Sum>x\<leftarrow>ls. f x) = (\<Sum>s < L. f (ls ! s))"
  by (simp add: sum_list_sum_nth lessThan_atLeast0)

lemma laid_out_bytes:
  assumes c: "laid_out h j L L c"
  shows "lms_tree_ctx_allocated_bytes c = L * LMS_SUBLEVEL_SIZE + (\<Sum>s < L. (if Suc s < L then 2 else 1) * subtree_bytes 32 (level_height h j L s))"
proof -
  obtain x ls where ls: "ctx_levels c = Some (x, ls)" using c by (auto simp: laid_out_def)
  then have lo: "levels_of c = ls" "length ls = L" "ctx_sublevels c = L" "ctx_n c = 32" using c by (simp_all add: levels_of_def laid_out_def)
  let ?f = "\<lambda>sl. let sub_h = sub_height (sl_active sl); nodes_bytes = 2 ^ Suc sub_h * 32
             in nodes_bytes + (if sub_stack (sl_active sl) \<noteq> None then sub_h * 32 else 0)
                + (if sl_has_upcoming sl then nodes_bytes + (if sub_stack (sl_upcoming sl) \<noteq> None then sub_h * 32 else 0) else 0)"
  have "?f (ls ! s) = (if Suc s < L then 2 else 1) * subtree_bytes 32 (level_height h j L s)" if s: "s < L" for s
  proof -
    have sh: "sub_shape h j L s (sl_active (ls ! s))" "Suc s < L \<Longrightarrow> sub_shape h j L s (sl_upcoming (ls ! s))" "sl_has_upcoming (ls ! s) \<longleftrightarrow> Suc s < L"
      using c s lo by (auto simp: laid_out_def get_sub_def)
    then have "sub_height (sl_active (ls ! s)) = level_height h j L s" "sub_stack (sl_active (ls ! s)) \<noteq> None"
      "Suc s < L \<Longrightarrow> sub_stack (sl_upcoming (ls ! s)) \<noteq> None" by (auto simp: sub_shape_def sub_bufs_def)
    then show ?thesis using sh(3) by (simp add: subtree_bytes_def Let_def algebra_simps)
  qed
  then have "(\<Sum>sl\<leftarrow>ls. ?f sl) = (\<Sum>s < L. (if Suc s < L then 2 else 1) * subtree_bytes 32 (level_height h j L s))"
    unfolding sum_list_levels [OF lo(2)] by (intro sum.cong) simp_all
  then show ?thesis unfolding lms_tree_ctx_allocated_bytes_def ls option.case prod.case lo(3,4) using lo(2) by simp
qed

lemma ctx_sizes_bytes:
  "sum_list (ctx_sizes h j L L) = L * LMS_SUBLEVEL_SIZE + (\<Sum>s < L. (if Suc s < L then 2 else 1) * subtree_bytes 32 (level_height h j L s))"
proof -
  have "sum_list (concat (map (level_sizes h j L) [0..<k])) = (\<Sum>s < k. (if Suc s < L then 2 else 1) * subtree_bytes 32 (level_height h j L s))" for k
    by (induction k) (auto simp: level_sizes_def subtree_bytes_def Let_def algebra_simps)
  then show ?thesis by (simp add: ctx_sizes_def)
qed

text \<open>
  C29. A context is well formed from the start and costs what the configurator said. With the configuration
  chosen for the key, \<open>lms_tree_ctx_init\<close> succeeds whenever the allocator grants its requests, which add up to
  \<open>est_memory\<close> and the array of sublevels; it makes no other request. Every sublevel then has subtrees of
  the height, level and buffer sizes of its place in the tree, a second one in all but the top, and
  \<open>lms_tree_ctx_allocated_bytes\<close> reports exactly the bytes requested.
\<close>

theorem lms_tree_ctx_init_layout:
  fixes st :: "('w, 'm) tree_state" and priv :: lms_private_key_t
  assumes key: "param_pair (priv_lms_type priv) (priv_lmots_type priv) = Some (a, b)"
    and I: "length (priv_I priv) = 16" and seed: "env_seed E = priv_seed priv"
    and s: "tree_conforming E (t_lib st)" "tree_conforming E s" "\<not> env_fails E"
    and cfg: "fst (lms_tree_configure (priv_lms_type priv) target s) = Inr cfg"
    and mem: "alloc_seq al (ctx_sizes (lp_height a) (unat (cfg_subtree_size cfg)) (unat (cfg_sublevels cfg)) (unat (cfg_sublevels cfg))) (t_mem st) = Some m'"
  shows "\<exists>st'. lms_tree_ctx_init cfg (priv_I priv) None al fr st = (Inr (), st') \<and> t_mem st' = m'
    \<and> ctx_shape (lp_height a) (unat (cfg_subtree_size cfg)) (unat (cfg_sublevels cfg)) (t_ctx st')
    \<and> lms_tree_ctx_allocated_bytes (t_ctx st') = unat (cfg_est_memory cfg) + unat (cfg_sublevels cfg) * LMS_SUBLEVEL_SIZE
    \<and> lms_tree_ctx_allocated_bytes (t_ctx st') =
        sum_list (ctx_sizes (lp_height a) (unat (cfg_subtree_size cfg)) (unat (cfg_sublevels cfg)) (unat (cfg_sublevels cfg)))"
proof -
  let ?x = "chosen_setup (env_contract E) priv a b target None al fr" and ?h = "lp_height a" and ?j = "unat (cfg_subtree_size cfg)" and ?L = "unat (cfg_sublevels cfg)"
  have c: "cfg = chosen_config (priv_lms_type priv) ?h target"
    using gives_run(1) [OF tree.gives_tree_configure s(2), of "priv_lms_type priv" target] cfg param_pairD(1) [OF key] by simp
  have e: "su_size ?x = ?j" "su_levels ?x = ?L" by (simp_all add: chosen_setup_def Let_def c)
  have adm: "admissible ?x = ?x" and cf: "configured_for priv ?h ?j ?L cfg" and count: "sublevel_count ?h ?j = ?L" "2 \<le> ?j" "?j \<le> ?h"
    using chosen_setup_ok [OF key I env_contract_ok, of E None target al fr] seed unfolding e c by (auto simp: source_ok_def)
  have h: "2 \<le> ?h" "?h \<le> 25" using lms_param_cases(3) [OF param_pairD(1) [OF key]] by auto
  have est: "unat (cfg_est_memory cfg) = (\<Sum>s < ?L. (if Suc s < ?L then 2 else 1) * subtree_bytes 32 (level_height ?h ?j ?L s))"
    using chosen_config_ok(3) [OF h, where type = "priv_lms_type priv" and target = target] count(1) unfolding c by (simp add: tree_bytes_def Let_def)
  obtain u st' where "lms_tree_ctx_init cfg (priv_I priv) None al fr st = (Inr u, st')" "t_mem st' = m'" "laid_out ?h ?j ?L ?L (t_ctx st')"
    by (rule runs_success [OF cache.runs_ctx_init [of ?x, unfolded adm chosen_sel e, OF cf] s(3)]) (use s(1) mem in auto)
  then show ?thesis using laid_out_bytes [of ?h ?j ?L] laid_out_shape est ctx_sizes_bytes by auto
qed

lemma alloc_seq_bump: "alloc_seq bump_alloc ns m = Some (m + sum_list ns)"
  by (induction ns arbitrary: m) (simp_all add: bump_alloc_def)

lemma test_choice:
  obtains cfg where "fst (lms_tree_configure (priv_lms_type test_priv) 2000 hash_test_lib) = Inr cfg" "unat (cfg_subtree_size cfg) = 3"
    "unat (cfg_sublevels cfg) = 2" "unat (cfg_est_memory cfg) = 1536"
proof -
  let ?cfg = "chosen_config (priv_lms_type test_priv) 5 2000"
  have "clear_choice 5 2000 3" by (simp add: clear_choice_def upt_rec tree_bytes_eval Let_def sublevel_count_def)
  then have "unat (cfg_subtree_size ?cfg) = 3"
    using tree_choice_clear(1) [OF chosen_config_ok(1) [of 5 2000 "priv_lms_type test_priv"], of 3] by simp
  then have "unat (cfg_sublevels ?cfg) = 2" "unat (cfg_est_memory ?cfg) = 1536"
    using chosen_config_ok(2,3) [of 5, where type = "priv_lms_type test_priv" and target = 2000]
    by (simp_all add: tree_bytes_eval Let_def sublevel_count_def)
  moreover have "fst (lms_tree_configure (priv_lms_type test_priv) 2000 hash_test_lib) = Inr ?cfg"
    using gives_run(1) [OF plain.gives_tree_configure test_lib_plain] param_pairD(1) [OF test_priv_facts(3)] by (simp add: test_lms_param_def)
  ultimately show thesis using that \<open>unat (cfg_subtree_size ?cfg) = 3\<close> by blast
qed

text \<open>Witness of C29: two sublevels in 1536 bytes of buffers.\<close>

theorem lms_tree_ctx_init_layout_witness:
  "\<exists>cfg st'. fst (lms_tree_configure (priv_lms_type test_priv) 2000 hash_test_lib) = Inr cfg
    \<and> lms_tree_ctx_init cfg (priv_I test_priv) None bump_alloc no_free (blank_state hash_test_lib) = (Inr (), st')
    \<and> ctx_shape 5 3 2 (t_ctx st') \<and> lms_tree_ctx_allocated_bytes (t_ctx st') = 1712 \<and> t_mem st' = 1712"
proof -
  obtain cfg where cfg: "fst (lms_tree_configure (priv_lms_type test_priv) 2000 hash_test_lib) = Inr cfg" "unat (cfg_subtree_size cfg) = 3"
    "unat (cfg_sublevels cfg) = 2" "unat (cfg_est_memory cfg) = 1536" by (rule test_choice)
  have "t_mem (blank_state hash_test_lib) = 0" by (simp add: blank_state_def)
  then show ?thesis
    using lms_tree_ctx_init_layout [OF test_priv_facts(3) test_I16 test_priv_facts(4) blank_conforming test_lib_tree_conforming test_priv_facts(5)
        cfg(1) alloc_seq_bump, of no_free] cfg
    by (auto simp: LMS_SUBLEVEL_SIZE_def test_lms_param_def)
qed
end
