(* ===== verification/Tree_Cache.thy ===== *)
theory Tree_Cache
  imports Firmware_Cache Subtree_Context Software_Library
begin

text \<open>
  The tree cache of the software firmware. The arena is large enough for every tree the cache accepts; the
  valid cache holds the tree of every key with its fingerprint, which key generation and signing rely on.
\<close>

section \<open>The arena is large enough\<close>

definition pool_at :: "nat \<Rightarrow> nat option \<Rightarrow> u32 \<Rightarrow> tree_pool" where
  "pool_at u l z = \<lparr>arena_used = word_of_nat u, pool_last_ptr = l, pool_last_size = z\<rparr>"

text \<open>The sizes the cache asks for with subtrees of height 5.\<close>

definition cache_request :: "nat \<Rightarrow> bool" where
  "cache_request n \<longleftrightarrow> n \<in> {88, 176, 264, 160, 1024, 2048}"

lemma aligned_request: "cache_request n \<Longrightarrow> (word_of_nat n + 3) AND NOT 3 = (word_of_nat n :: u32)"
  by (auto simp: cache_request_def)

lemma pool_alloc_at:
  assumes "cache_request n" and "u + n \<le> 16648"
  shows "tree_pool_alloc n (pool_at u l z) = (Some u, pool_at (u + n) (Some u) (word_of_nat n))"
proof -
  have u: "unat (word_of_nat u :: u32) = u" using assms(2) by (intro unat_of_nat_u32) simp
  have "unat (word_of_nat u + word_of_nat n :: u32) = u + n" using assms(2) unat_of_nat_u32 [of "u + n"] by simp
  then have "\<not> TREE_ARENA_SIZE < word_of_nat u + word_of_nat n" using assms(2) by (simp add: word_less_nat_alt TREE_ARENA_SIZE_def)
  then show ?thesis unfolding tree_pool_alloc_def aligned_request [OF assms(1)] Let_def by (simp add: pool_at_def u)
qed

lemma pool_free_last: "tree_pool_free u (pool_at (u + n) (Some u) (word_of_nat n)) = pool_at u None 0"
  by (simp add: tree_pool_free_def pool_at_def)

lemma pool_free_other: "tree_pool_free x (pool_at u None z) = pool_at u None z"
  by (simp add: tree_pool_free_def pool_at_def)

text \<open>Trees of one, two and three sublevels of height 5.\<close>

lemma level_height_5: "s < L \<Longrightarrow> level_height (5 * L) 5 L s = 5"
  by (cases L) (auto simp: level_height_def)

lemma pool_layout:
  "alloc_seq tree_pool_alloc (ctx_sizes 5 5 1 1) (pool_at 0 None 0) = Some (pool_at 2296 (Some 2136) 160)"
  "alloc_seq tree_pool_alloc (ctx_sizes 10 5 2 2) (pool_at 0 None 0) = Some (pool_at 6800 (Some 6640) 160)"
  "alloc_seq tree_pool_alloc (ctx_sizes 15 5 3 3) (pool_at 0 None 0) = Some (pool_at 11304 (Some 11144) 160)"
  by (simp_all add: ctx_sizes_def level_sizes_def level_height_def LMS_SUBLEVEL_SIZE_def Let_def numeral_3_eq_3 upt_rec pool_alloc_at cache_request_def)

lemma repeat_mem_fix: "f m = Some m \<Longrightarrow> repeat_mem f n m = Some m"
  by (induction n) simp_all

lemma repeat_mem_settle: "f m = Some m' \<Longrightarrow> f m' = Some m' \<Longrightarrow> 0 < n \<Longrightarrow> repeat_mem f n m = Some m'"
proof (induction n)
  case (Suc n)
  then show ?case by (cases n) simp_all
qed simp

lemma build_mem_1:
  assumes "1 < L" and "u + 1024 \<le> 16648"
  shows "build_mem (5 * L) 5 L tree_pool_alloc tree_pool_free 1 (pool_at u l z) = Some (pool_at u None 0)"
proof -
  have "repeat_mem Some 32 m = Some m" for m :: tree_pool by (rule repeat_mem_fix) simp
  moreover have "level_height (5 * L) 5 L 1 = 5" using assms(1) by (intro level_height_5) simp
  ultimately show ?thesis using assms(2) pool_free_last [of u 1024] by (simp add: pool_alloc_at cache_request_def)
qed

lemma build_mem_2:
  assumes "2 < L" and "u + 2048 \<le> 16648"
  shows "build_mem (5 * L) 5 L tree_pool_alloc tree_pool_free (Suc 1) (pool_at u l z) = Some (pool_at (u + 1024) None 0)"
proof -
  let ?B = "build_mem (5 * L) 5 L tree_pool_alloc tree_pool_free 1"
  have "?B (pool_at (u + 1024) l z) = Some (pool_at (u + 1024) None 0)" for l z using assms by (intro build_mem_1) simp_all
  then have "repeat_mem ?B 32 (pool_at (u + 1024) (Some u) 1024) = Some (pool_at (u + 1024) None 0)" by (intro repeat_mem_settle) simp_all
  moreover have "level_height (5 * L) 5 L (Suc 1) = 5" using assms(1) by (intro level_height_5) simp
  ultimately show ?thesis unfolding build_mem.simps(2) using assms(2) by (simp add: pool_alloc_at cache_request_def pool_free_other)
qed

section \<open>One cache, any key\<close>

definition soft_contract :: "nat \<Rightarrow> bytes \<Rightarrow> 'w lib_contract" where
  "soft_contract H seed = \<lparr>lc_inv = software_state H, lc_heap = H, lc_fails = False, lc_world = (\<lambda>_. True), lc_seed = seed, lc_coef = False\<rparr>"

lemma soft_contract_sel [simp]:
  "lc_inv (soft_contract H seed) = software_state H" "lc_fails (soft_contract H seed) = False" "lc_seed (soft_contract H seed) = seed"
  by (simp_all add: soft_contract_def)

lemma soft_contract_ok: "tree_contract (soft_contract H seed)"
  using soft.tree_library_axioms [of H seed] by (simp add: tree_contract_def soft_contract_def)

definition sw_setup :: "nat \<Rightarrow> lms_private_key_t \<Rightarrow> lms_param_t \<Rightarrow> lmots_param_t \<Rightarrow> ('w, tree_pool) cache_setup" where
  "sw_setup H priv a b = chosen_setup (soft_contract H (priv_seed priv)) priv a b TREE_MEMORY_TARGET None tree_pool_alloc tree_pool_free"

lemma sw_setup_sel [simp]:
  "su_lib (sw_setup H priv a b) = soft_contract H (priv_seed priv)" "su_priv (sw_setup H priv a b) = priv" "su_lms (sw_setup H priv a b) = a"
  "su_ots (sw_setup H priv a b) = b" "su_src (sw_setup H priv a b) = None" "su_leaf (sw_setup H priv a b) = None"
  "su_alloc (sw_setup H priv a b) = tree_pool_alloc" "su_free (sw_setup H priv a b) = tree_pool_free"
  by (simp_all add: sw_setup_def)

text \<open>The keys the cache takes: those of height 5, 10 and 15.\<close>

definition cacheable :: "lms_private_key_t \<Rightarrow> lms_param_t \<Rightarrow> lmots_param_t \<Rightarrow> bool" where
  "cacheable priv a b \<longleftrightarrow> param_pair (priv_lms_type priv) (priv_lmots_type priv) = Some (a, b) \<and> length (priv_I priv) = 16
     \<and> length (priv_seed priv) = 32 \<and> lp_height a \<le> 15"

lemma target_nat: "unat TREE_MEMORY_TARGET = 12288"
  by (simp add: TREE_MEMORY_TARGET_def)

lemma firmware_size:
  fixes type :: u32
  assumes "h \<in> {5, 10, 15, 20, 25}"
  shows "unat (cfg_subtree_size (chosen_config type h TREE_MEMORY_TARGET)) = (if h \<le> 15 then 5 else if h = 20 then 4 else 3)"
proof -
  have "2 \<le> h" "h \<le> 25" using assms by auto
  from chosen_config_ok(1) [OF this, of TREE_MEMORY_TARGET type, unfolded target_nat]
  show ?thesis using assms
    by (auto dest: tree_choice_clear(1) [OF _ _ _ firmware_choices(1), simplified] tree_choice_clear(1) [OF _ _ _ firmware_choices(2), simplified]
        tree_choice_clear(1) [OF _ _ _ firmware_choices(3), simplified] tree_choice_clear(1) [OF _ _ _ firmware_choices(4), simplified]
        tree_choice_clear(1) [OF _ _ _ firmware_choices(5), simplified])
qed

lemma cacheableE:
  assumes "cacheable priv a b"
  obtains L where "lp_height a = 5 * L" "L \<in> {1, 2, 3}"
proof -
  have "lp_height a \<in> {5, 10, 15}" using assms lms_param_cases(3) [of "priv_lms_type priv" a] by (auto simp: cacheable_def dest: param_pairD(1))
  then show thesis using that [of "lp_height a div 5"] by auto
qed

lemma sw_setup_ok:
  fixes H :: nat
  assumes c: "cacheable priv a b"
  defines "x \<equiv> sw_setup H priv a b"
  shows "admissible x = x" and "su_size x = 5" "su_levels x = lp_height a div 5"
    and "configured_for priv (lp_height a) 5 (lp_height a div 5) (chosen_config (priv_lms_type priv) (lp_height a) TREE_MEMORY_TARGET)"
proof -
  have key: "param_pair (priv_lms_type priv) (priv_lmots_type priv) = Some (a, b)" "length (priv_I priv) = 16" using c by (simp_all add: cacheable_def)
  note ok = chosen_setup_ok [OF key soft_contract_ok, of H _ None TREE_MEMORY_TARGET tree_pool_alloc tree_pool_free, simplified, OF refl,
      folded sw_setup_def, unfolded source_ok_def, simplified]
  show "admissible x = x" unfolding x_def by (rule ok(1))
  have "lp_height a \<in> {5, 10, 15, 20, 25}" "lp_height a \<le> 15" using c lms_param_cases(3) [OF param_pairD(1) [OF key(1)]] by (auto simp: cacheable_def)
  then show size: "su_size x = 5" using firmware_size [of "lp_height a" "priv_lms_type priv"] by (simp add: x_def sw_setup_def chosen_setup_def Let_def)
  obtain L where L: "lp_height a = 5 * L" "L \<in> {1, 2, 3}" using c by (rule cacheableE)
  have "sublevel_count (lp_height a) (su_size x) = su_levels x" unfolding x_def by (rule ok(3))
  then show levels: "su_levels x = lp_height a div 5" using size L by (auto simp: sublevel_count_def)
  have "configured_for priv (lp_height a) (su_size x) (su_levels x) (chosen_config (priv_lms_type priv) (lp_height a) TREE_MEMORY_TARGET)"
    unfolding x_def by (rule ok(2))
  then show "configured_for priv (lp_height a) 5 (lp_height a div 5) (chosen_config (priv_lms_type priv) (lp_height a) TREE_MEMORY_TARGET)"
    using size levels by simp
qed

text \<open>Allocator states from which every rebuild is granted.\<close>

definition roomy :: "tree_pool \<Rightarrow> bool" where
  "roomy m \<longleftrightarrow> (\<exists>u l z. m = pool_at u l z \<and> u \<le> 12328)"

lemma roomy_pool_at: "u \<le> 12328 \<Longrightarrow> roomy (pool_at u l z)"
  by (auto simp: roomy_def)

definition holds_tree :: "nat \<Rightarrow> lms_private_key_t \<Rightarrow> lms_param_t \<Rightarrow> lmots_param_t \<Rightarrow> ('w, tree_pool) tree_state \<Rightarrow> bool" where
  "holds_tree H priv a b st \<longleftrightarrow>
     cached_tree.cache_inv (software_state H) priv a b 5 (lp_height a div 5) None None tree_pool_alloc tree_pool_free roomy st"

definition new_tree :: "nat \<Rightarrow> lms_private_key_t \<Rightarrow> lms_param_t \<Rightarrow> lmots_param_t \<Rightarrow> ('w, tree_pool) tree_state \<Rightarrow> bool" where
  "new_tree H priv a b st \<longleftrightarrow> (\<exists>m m2. cached_tree.cinv (software_state H) priv a b 5 (lp_height a div 5) None None tree_pool_alloc tree_pool_free m st
     \<and> cached_tree.init_mem a 5 (lp_height a div 5) tree_pool_alloc tree_pool_free (lp_height a div 5) m = Some m2 \<and> roomy m2)"

lemma pool_stays_roomy:
  assumes "cacheable priv a b"
  shows "cached_tree.mem_closed False a 5 (lp_height a div 5) tree_pool_alloc tree_pool_free roomy"
proof -
  let ?x = "sw_setup 0 priv a b :: (unit, tree_pool) cache_setup"
  obtain L where L: "lp_height a = 5 * L" "L \<in> {1, 2, 3}" using assms by (rule cacheableE)
  note d = cache.mem_closed_def [of ?x, unfolded sw_setup_ok [OF assms] sw_setup_sel soft_contract_sel]
  have "roomy m \<Longrightarrow> Suc s < L \<Longrightarrow> \<exists>m'. build_mem (5 * L) 5 L tree_pool_alloc tree_pool_free s m = Some m' \<and> roomy m'" for m s
  proof -
    assume "roomy m" and s: "Suc s < L"
    then obtain u l z where m: "m = pool_at u l z" "u \<le> 12328" by (auto simp: roomy_def)
    have "s = 0 \<or> s = 1" using s L(2) by auto
    then show ?thesis
    proof
      assume "s = 1"
      then show ?thesis using m s build_mem_1 [of L u l z] roomy_pool_at [OF m(2)] by (simp del: build_mem.simps)
    qed (use \<open>roomy m\<close> in simp)
  qed
  then show ?thesis unfolding d using L(1) by fastforce
qed

lemma pool_init:
  assumes "cacheable priv a b"
  shows "\<exists>m1 m2. alloc_seq tree_pool_alloc (ctx_sizes (lp_height a) 5 (lp_height a div 5) (lp_height a div 5)) (pool_at 0 None 0) = Some m1
    \<and> cached_tree.init_mem a 5 (lp_height a div 5) tree_pool_alloc tree_pool_free (lp_height a div 5) m1 = Some m2 \<and> roomy m2"
proof -
  let ?x = "sw_setup 0 priv a b :: (unit, tree_pool) cache_setup"
  obtain L where L: "lp_height a = 5 * L" "L \<in> {1, 2, 3}" using assms by (rule cacheableE)
  have e: "lp_height a div 5 = L" using L(1) by simp
  note i = cache.init_mem.simps [of ?x, unfolded sw_setup_ok [OF assms] sw_setup_sel e, unfolded L(1)]
  consider "L = 1" | "L = 2" | "L = 3" using L(2) by auto
  then have "\<exists>m1 m2. alloc_seq tree_pool_alloc (ctx_sizes (5 * L) 5 L L) (pool_at 0 None 0) = Some m1
    \<and> cached_tree.init_mem a 5 L tree_pool_alloc tree_pool_free L m1 = Some m2 \<and> roomy m2"
  proof cases
    case 1
    then show ?thesis using pool_layout(1) roomy_pool_at [of 2296] i by simp
  next
    case 2
    then show ?thesis using pool_layout(2) roomy_pool_at [of 6800] build_mem_1 [of 2 6800] i by (simp add: numeral_2_eq_2 del: build_mem.simps(2))
  next
    case 3
    then show ?thesis using pool_layout(3) roomy_pool_at [of 12328] build_mem_1 [of 3 11304] build_mem_2 [of 3 11304] i by (simp add: numeral_3_eq_3 del: build_mem.simps(2))
  qed
  then show ?thesis unfolding e unfolding L(1) .
qed

subsection \<open>The cache of the software build\<close>

definition sw_tree :: "'w sw_fw \<Rightarrow> ('w, tree_pool) tree_state" where
  "sw_tree s = \<lparr>t_lib = sw_lib s, t_ctx = s_sw_tree_ctx s, t_mem = s_sw_pool s\<rparr>"

lemma sw_tree_sel [simp]: "t_lib (sw_tree s) = sw_lib s" "t_ctx (sw_tree s) = s_sw_tree_ctx s" "t_mem (sw_tree s) = s_sw_pool s"
  by (simp_all add: sw_tree_def)

text \<open>A valid cache is registered and holds the tree of every key with its fingerprint.\<close>

definition sw_inv :: "nat \<Rightarrow> 'w sw_fw \<Rightarrow> bool" where
  "sw_inv H s \<longleftrightarrow> software_state H (sw_lib s) \<and> (sw_path_backend s \<longleftrightarrow> s_sw_tree_valid s)
     \<and> (s_sw_tree_valid s \<longrightarrow> (\<forall>priv a b. param_pair (priv_lms_type priv) (priv_lmots_type priv) = Some (a, b) \<longrightarrow> length (priv_I priv) = 16 \<longrightarrow>
         length (priv_seed priv) = 32 \<longrightarrow> s_sw_tree_fingerprint s = tree_fingerprint priv \<longrightarrow> cacheable priv a b \<and> holds_tree H priv a b (sw_tree s)))"

lemma fingerprint_inj:
  assumes "tree_fingerprint p = tree_fingerprint p'" and "length (priv_I p) = 16" "length (priv_I p') = 16"
    and "length (priv_seed p) = 32" "length (priv_seed p') = 32"
  shows "priv_I p' = priv_I p" "priv_seed p' = priv_seed p" "priv_lms_type p' = priv_lms_type p" "priv_lmots_type p' = priv_lmots_type p"
  using assms by (simp_all add: tree_fingerprint_def store_u32_inj)

lemma same_key_tree:
  assumes "cacheable p a b" "cacheable p' a b" and "priv_I p' = priv_I p" "priv_seed p' = priv_seed p" "priv_lms_type p' = priv_lms_type p"
  shows "holds_tree H p' a b st = holds_tree H p a b (st :: ('w, tree_pool) tree_state)"
proof -
  let ?x = "sw_setup H p a b :: ('w, tree_pool) cache_setup" and ?y = "sw_setup H p' a b :: ('w, tree_pool) cache_setup"
  note X = sw_setup_ok(1-3) [OF assms(1), of H] sw_setup_sel soft_contract_sel and Y = sw_setup_ok(1-3) [OF assms(2), of H] sw_setup_sel soft_contract_sel
  note dx = cache.cache_inv_def [of ?x, unfolded X] cache.actives_def [of ?x, unfolded X] cache.psub_def [of ?x, unfolded X] cache.ctx_ok_def [of ?x, unfolded X]
  note dy = cache.cache_inv_def [of ?y, unfolded Y] cache.actives_def [of ?y, unfolded Y] cache.psub_def [of ?y, unfolded Y] cache.ctx_ok_def [of ?y, unfolded Y]
  show ?thesis unfolding holds_tree_def dx dy ctx_serves_def assms(3-5) by (rule refl)
qed

lemma runs_free_buffers: "runs fl (\<lambda>st. t_lib st = l) (subtree_free_buffers i w) (\<lambda>_ st. t_lib st = l)"
  by (rule runsI) (auto simp: subtree_free_buffers_def op_defs release_def update_ctx_def split: option.splits)

lemma runs_ctx_free: "runs fl (\<lambda>st :: ('w, 'm) tree_state. t_lib st = l) lms_tree_ctx_free (\<lambda>_ st. t_lib st = l)"
proof -
  have step: "runs fl (\<lambda>st. t_lib st = l) (andthen (subtree_free_buffers i Active)
      (bind (look (\<lambda>s. sl_has_upcoming (levels_of (t_ctx s) ! i))) (\<lambda>has. if has then subtree_free_buffers i Upcoming else ret ())))
    (\<lambda>_ st. t_lib st = l)" for i
    by (rule runs_andthen [OF runs_free_buffers], rule runs_bind_look) (auto intro: runs_ret runs_pre [OF runs_free_buffers])
  have mods: "runs fl (\<lambda>st. t_lib st = l) (update_ctx f) (\<lambda>_ st. t_lib st = l)" "runs fl (\<lambda>st. t_lib st = l) (release x) (\<lambda>_ st. t_lib st = l)" for f x
    by (auto simp: update_ctx_def release_def intro: runs_modify)
  have loop: "runs fl (\<lambda>st. t_lib st = l) (for_each (\<lambda>i. andthen (subtree_free_buffers i Active)
      (bind (look (\<lambda>s. sl_has_upcoming (levels_of (t_ctx s) ! i))) (\<lambda>has. if has then subtree_free_buffers i Upcoming else ret ()))) [0..<n]) (\<lambda>_ st. t_lib st = l)" for n
    by (rule runs_for_each_unit [where P = "\<lambda>_ st. t_lib st = l"]) (rule step, simp)
  show ?thesis unfolding lms_tree_ctx_free_def
  proof (rule runs_andthen [OF _ mods(1)], rule runs_bind_look)
    fix st :: "('w, 'm) tree_state" assume st: "t_lib st = l"
    show "runs fl (\<lambda>t. t = st) (case ctx_levels (t_ctx st) of None \<Rightarrow> ret ()
        | Some (a, _) \<Rightarrow> bind (look (\<lambda>s. ctx_sublevels (t_ctx s))) (\<lambda>sublevels.
            andthen (for_each (\<lambda>i. andthen (subtree_free_buffers i Active)
                (bind (look (\<lambda>s. sl_has_upcoming (levels_of (t_ctx s) ! i))) (\<lambda>has.
                 if has then subtree_free_buffers i Upcoming else ret ()))) [0..<sublevels])
              (andthen (release a) (update_ctx (\<lambda>c. c\<lparr>ctx_levels := None\<rparr>))))) (\<lambda>_ st. t_lib st = l)"
    proof (cases "ctx_levels (t_ctx st)")
      case None
      then show ?thesis using st by (auto intro: runs_ret)
    next
      case (Some al)
      obtain a ls where a: "al = (a, ls)" by force
      show ?thesis unfolding Some a option.case prod.case
        by (rule runs_bind_look, rule runs_andthen [OF runs_pre [OF loop] runs_andthen [OF mods(2) mods(1)]]) (use st in auto)
    qed
  qed
qed

text \<open>The flags of the cache, which its operations on the tree leave alone.\<close>

definition sw_flags :: "'w sw_fw \<Rightarrow> bytes \<times> bool \<times> bool" where
  "sw_flags s = (s_sw_tree_fingerprint s, s_sw_tree_valid s, sw_path_backend s)"

lemma runs_on_sw_tree:
  assumes "runs fl P f Q"
  shows "runs fl (\<lambda>s. P (sw_tree s) \<and> sw_flags s = r) (on_sw_tree f) (\<lambda>x s. Q x (sw_tree s) \<and> sw_flags s = r)"
proof (rule runsI)
  fix s assume s: "P (sw_tree s) \<and> sw_flags s = r"
  obtain y st where f: "f (sw_tree s) = (y, st)" by force
  have y: "case y of Inl _ \<Rightarrow> fl | Inr x \<Rightarrow> Q x st" using assms s f by (auto simp: runs_def split: sum.splits)
  have put: "sw_tree (s\<lparr>sw_lib := t_lib st, s_sw_tree_ctx := t_ctx st, s_sw_pool := t_mem st\<rparr>) = st" by (cases st) (simp add: sw_tree_def)
  show "case on_sw_tree f s of (Inl _, _) \<Rightarrow> fl | (Inr x, s) \<Rightarrow> Q x (sw_tree s) \<and> sw_flags s = r"
    using s f y unfolding on_sw_tree_def sw_tree_def [of s, symmetric] by (cases y) (simp_all add: put sw_flags_def)
qed

lemma runs_on_sw_lib:
  assumes "gives fl (software_state H) f (Inr x)"
  shows "runs fl (\<lambda>s. software_state H (sw_lib s) \<and> sw_flags s = r) (on_sw_lib f) (\<lambda>y s. y = x \<and> software_state H (sw_lib s) \<and> sw_flags s = r)"
  using assms by (fastforce simp: runs_def gives_def yields_def on_sw_lib_def sw_flags_def split: prod.splits sum.splits)

lemma runs_sw_set_backend:
  "runs fl (\<lambda>s. software_state H (sw_lib s) \<and> P (s\<lparr>sw_lib := (sw_lib s)\<lparr>auth_path_backend := None\<rparr>, sw_path_backend := b\<rparr>)) (sw_set_backend b)
     (\<lambda>_ s. software_state H (sw_lib s) \<and> P s)"
  by (rule runsI) (auto simp: sw_set_backend_def on_sw_lib_def lms_auth_path_backend_set_def op_defs software_state_def plain_state_def statics_ok_def haraka_ok_def)

text \<open>The cache taken down.\<close>

definition sw_off :: "nat \<Rightarrow> 'w sw_fw \<Rightarrow> bool" where
  "sw_off H s \<longleftrightarrow> software_state H (sw_lib s) \<and> \<not> s_sw_tree_valid s \<and> \<not> sw_path_backend s"

lemma sw_off_inv: "sw_off H s \<Longrightarrow> sw_inv H s"
  by (simp add: sw_off_def sw_inv_def)

lemma runs_sw_off:
  "runs fl (\<lambda>s :: 'w sw_fw. software_state H (sw_lib s)) (andthen (sw_set_backend False) (andthen (on_sw_tree lms_tree_ctx_free)
     (andthen (modify (\<lambda>s. s\<lparr>s_sw_tree_valid := False\<rparr>)) k))) Q"
  if k: "runs fl (sw_off H) k Q"
proof -
  have unset: "runs fl (\<lambda>s :: 'w sw_fw. software_state H (sw_lib s)) (sw_set_backend False) (\<lambda>_ s. software_state H (sw_lib s) \<and> \<not> sw_path_backend s)"
    by (rule runs_pre [OF runs_sw_set_backend]) simp
  have free: "runs fl (\<lambda>s :: 'w sw_fw. software_state H (sw_lib s) \<and> \<not> sw_path_backend s) (on_sw_tree lms_tree_ctx_free)
      (\<lambda>_ s. software_state H (sw_lib s) \<and> \<not> sw_path_backend s)"
  proof (rule runs_gen)
    fix s :: "'w sw_fw" assume s: "software_state H (sw_lib s) \<and> \<not> sw_path_backend s"
    show "runs fl (\<lambda>t. t = s) (on_sw_tree lms_tree_ctx_free) (\<lambda>_ s. software_state H (sw_lib s) \<and> \<not> sw_path_backend s)"
      by (rule runs_conseq [OF runs_on_sw_tree [OF runs_ctx_free [of fl "sw_lib s"], of "sw_flags s"]]) (use s in \<open>auto simp: sw_flags_def\<close>)
  qed
  show ?thesis by (rule runs_andthen [OF unset runs_andthen [OF free runs_andthen [OF runs_modify k]]]) (simp add: sw_off_def)
qed

lemma sw_off_flags: "sw_off H s \<longleftrightarrow> (\<exists>fp. software_state H (sw_lib s) \<and> sw_flags s = (fp, False, False))"
  by (auto simp: sw_off_def sw_flags_def)

lemma runs_sw_configure:
  assumes "lms_params (priv_lms_type priv) = Some a"
  shows "runs fl (sw_off H) (attempt (on_sw_lib (lms_tree_configure (priv_lms_type priv) TREE_MEMORY_TARGET)))
    (\<lambda>r s. r = Inr (chosen_config (priv_lms_type priv) (lp_height a) TREE_MEMORY_TARGET) \<and> sw_off H s)"
proof -
  have g: "gives False (software_state H) (lms_tree_configure (priv_lms_type priv) TREE_MEMORY_TARGET)
      (Inr (chosen_config (priv_lms_type priv) (lp_height a) TREE_MEMORY_TARGET))"
    using library_state.gives_tree_configure [OF soft.library_state_axioms, of False H "priv_lms_type priv" TREE_MEMORY_TARGET] assms by simp
  show ?thesis unfolding sw_off_flags
    by (rule runs_ex) (rule runs_post [OF runs_attempt [OF runs_on_sw_lib [OF g]]], auto)
qed

lemma fits_arena_iff:
  assumes "lms_params type = Some a"
  shows "fits_arena (chosen_config type (lp_height a) TREE_MEMORY_TARGET) \<longleftrightarrow> lp_height a \<le> 15"
proof -
  let ?c = "chosen_config type (lp_height a) TREE_MEMORY_TARGET"
  have h: "lp_height a \<in> {5, 10, 15, 20, 25}" by (rule lms_param_cases(3) [OF assms])
  then have b: "2 \<le> lp_height a" "lp_height a \<le> 25" by auto
  note c = chosen_config_ok [OF b, where type = type and target = TREE_MEMORY_TARGET]
  note size = firmware_size [OF h, of type]
  show ?thesis
  proof (cases "lp_height a \<le> 15")
    case True
    then have j: "unat (cfg_subtree_size ?c) = 5" using size by simp
    then have "unat (cfg_est_memory ?c) \<le> 11040" "unat (cfg_sublevels ?c) \<le> 3"
      using c(2,3) h True by (auto simp: sublevel_count_def tree_bytes_eval Let_def)
    then have "unat (cfg_est_memory ?c + ucast (cfg_sublevels ?c) * word_of_nat LMS_SUBLEVEL_SIZE) \<le> 11304"
      by (simp add: unat_word_ariths unsigned_ucast_eq LMS_SUBLEVEL_SIZE_def take_bit_nat_eq_self)
    then have "\<not> ucast TREE_ARENA_SIZE < cfg_est_memory ?c + ucast (cfg_sublevels ?c) * word_of_nat LMS_SUBLEVEL_SIZE"
      by (simp add: word_less_nat_alt TREE_ARENA_SIZE_def)
    moreover have "cfg_subtree_size ?c = 5" using j by (simp add: word_unat_eq_iff)
    ultimately show ?thesis using True by (simp add: fits_arena_def)
  next
    case False
    then have "cfg_subtree_size ?c \<noteq> 5" using size by (auto split: if_splits)
    then show ?thesis using False by (simp add: fits_arena_def)
  qed
qed


text \<open>Building the tree of a cacheable key in the empty arena.\<close>

lemma runs_sw_init:
  assumes c: "cacheable priv a b"
  shows "runs False (\<lambda>st :: ('w, tree_pool) tree_state. software_state H (t_lib st) \<and> t_mem st = pool_at 0 None 0)
      (lms_tree_ctx_init (chosen_config (priv_lms_type priv) (lp_height a) TREE_MEMORY_TARGET) (priv_I priv) None tree_pool_alloc tree_pool_free)
      (\<lambda>_. new_tree H priv a b)"
    and "runs False (new_tree H priv a b) (lms_tree_sign_init priv) (\<lambda>_. holds_tree H priv a b :: ('w, tree_pool) tree_state \<Rightarrow> bool)"
proof -
  let ?x = "sw_setup H priv a b :: ('w, tree_pool) cache_setup"
  note X = sw_setup_ok(1-3) [OF c, of H] sw_setup_sel soft_contract_sel
  obtain m1 m2 where m: "alloc_seq tree_pool_alloc (ctx_sizes (lp_height a) 5 (lp_height a div 5) (lp_height a div 5)) (pool_at 0 None 0) = Some m1"
    "cached_tree.init_mem a 5 (lp_height a div 5) tree_pool_alloc tree_pool_free (lp_height a div 5) m1 = Some m2" "roomy m2"
    using pool_init [OF c] by blast
  show "runs False (\<lambda>st :: ('w, tree_pool) tree_state. software_state H (t_lib st) \<and> t_mem st = pool_at 0 None 0)
      (lms_tree_ctx_init (chosen_config (priv_lms_type priv) (lp_height a) TREE_MEMORY_TARGET) (priv_I priv) None tree_pool_alloc tree_pool_free)
      (\<lambda>_. new_tree H priv a b)"
    by (rule runs_post [OF cache.runs_new [of ?x, unfolded X, OF sw_setup_ok(4) [OF c] refl]]) (use m in \<open>auto simp: new_tree_def\<close>)
  show "runs False (new_tree H priv a b) (lms_tree_sign_init priv) (\<lambda>_. holds_tree H priv a b :: ('w, tree_pool) tree_state \<Rightarrow> bool)"
  proof (rule runs_gen)
    fix st :: "('w, tree_pool) tree_state" assume "new_tree H priv a b st"
    then obtain m m2 where st: "cached_tree.cinv (software_state H) priv a b 5 (lp_height a div 5) None None tree_pool_alloc tree_pool_free m st"
      "cached_tree.init_mem a 5 (lp_height a div 5) tree_pool_alloc tree_pool_free (lp_height a div 5) m = Some m2" "roomy m2"
      by (auto simp: new_tree_def)
    show "runs False (\<lambda>t. t = st) (lms_tree_sign_init priv) (\<lambda>_. holds_tree H priv a b)"
      by (rule runs_conseq [OF cache.runs_sign_init [of ?x, unfolded X, where m = m]])
        (use st in \<open>auto simp: holds_tree_def intro: cache.ready_inv [of ?x, unfolded X]\<close>)
  qed
qed

lemma runs_sw_tree:
  fixes f :: "('w, tree_pool, 'a) top"
  assumes f: "runs fl P f Q"
  shows "runs fl (\<lambda>s. P (sw_tree s)) (on_sw_tree f) (\<lambda>x s. Q x (sw_tree s))"
proof (rule runs_gen)
  fix s :: "'w sw_fw" assume s: "P (sw_tree s)"
  show "runs fl (\<lambda>t. t = s) (on_sw_tree f) (\<lambda>x s. Q x (sw_tree s))"
    by (rule runs_conseq [OF runs_on_sw_tree [OF f, of "sw_flags s"]]) (use s in auto)
qed

lemma software_no_path: "software_state H l \<Longrightarrow> l\<lparr>auth_path_backend := None\<rparr> = l"
  by (cases l) (simp add: software_state_def)

lemma holds_tree_def':
  fixes st :: "('w, tree_pool) tree_state"
  assumes c: "cacheable priv a b"
  shows "holds_tree H priv a b st \<longleftrightarrow> software_state H (t_lib st) \<and> roomy (t_mem st)
     \<and> cached_tree.ctx_ok priv a b 5 (lp_height a div 5) None None tree_pool_alloc tree_pool_free (t_ctx st)
     \<and> cached_tree.actives priv a b 5 (lp_height a div 5) (t_ctx st)"
  unfolding holds_tree_def
    cache.cache_inv_def [of "sw_setup H priv a b :: ('w, tree_pool) cache_setup", unfolded sw_setup_ok(1-3) [OF c, of H] sw_setup_sel soft_contract_sel]
  by (rule refl)

lemma holds_tree_lib: "cacheable priv a b \<Longrightarrow> holds_tree H priv a b st \<Longrightarrow> software_state H (t_lib st)"
  by (simp add: holds_tree_def')

lemma sw_inv_bound:
  assumes c: "cacheable priv a b" and h: "holds_tree H priv a b (sw_tree s)"
    and s: "s_sw_tree_valid s" "sw_path_backend s" "s_sw_tree_fingerprint s = tree_fingerprint priv"
  shows "sw_inv H s"
proof -
  have "cacheable p a' b' \<and> holds_tree H p a' b' (sw_tree s)"
    if p: "param_pair (priv_lms_type p) (priv_lmots_type p) = Some (a', b')" "length (priv_I p) = 16" "length (priv_seed p) = 32"
      "tree_fingerprint priv = tree_fingerprint p" for p a' b'
  proof -
    have cc: "length (priv_I priv) = 16" "length (priv_seed priv) = 32" using c by (simp_all add: cacheable_def)
    note same = fingerprint_inj [OF p(4) cc(1) p(2) cc(2) p(3)]
    have ab: "a' = a" "b' = b" using p(1) c same(3,4) by (simp_all add: cacheable_def)
    have cp: "cacheable p a b" using c p(2,3) same(3,4) by (simp add: cacheable_def)
    show ?thesis unfolding ab using cp same_key_tree [OF c cp same(1-3), of H "sw_tree s"] h by simp
  qed
  then show ?thesis using s holds_tree_lib [OF c h] by (simp add: sw_inv_def)
qed

text \<open>\<open>tree_cache_ensure\<close> binds the cache to the key, or takes it down when the key is too tall.\<close>

lemma runs_sw_build:
  assumes c: "cacheable priv a b"
  shows "runs False (sw_off H :: 'w sw_fw \<Rightarrow> bool) (sw_tree_build priv (chosen_config (priv_lms_type priv) (lp_height a) TREE_MEMORY_TARGET))
    (\<lambda>ok s. ok \<and> sw_inv H s \<and> s_sw_tree_valid s \<and> s_sw_tree_fingerprint s = tree_fingerprint priv)" (is "runs False _ _ ?Q")
proof -
  have reset: "runs False (sw_off H :: 'w sw_fw \<Rightarrow> bool) (modify (\<lambda>s. s\<lparr>s_sw_pool := sw_pool_reset (s_sw_pool s)\<rparr>))
      (\<lambda>_ s. software_state H (t_lib (sw_tree s)) \<and> t_mem (sw_tree s) = pool_at 0 None 0)"
    by (rule runs_modify) (simp add: sw_off_def sw_pool_reset_def tree_pool_reset_def pool_at_def)
  note init = runs_attempt [OF runs_sw_tree [OF runs_sw_init(1) [OF c]], folded sw_pool_alloc_def sw_pool_free_def]
    and sign = runs_attempt [OF runs_sw_tree [OF runs_sw_init(2) [OF c]]]
  have bind': "runs False (\<lambda>s :: 'w sw_fw. holds_tree H priv a b (sw_tree s))
      (andthen (modify (\<lambda>s. s\<lparr>s_sw_tree_fingerprint := tree_fingerprint priv, s_sw_tree_valid := True\<rparr>)) (andthen (sw_set_backend True) (ret True))) ?Q"
  proof (rule runsI)
    fix s :: "'w sw_fw" assume h: "holds_tree H priv a b (sw_tree s)"
    let ?s = "s\<lparr>s_sw_tree_fingerprint := tree_fingerprint priv, s_sw_tree_valid := True, sw_path_backend := True\<rparr>"
    have l: "(sw_lib s)\<lparr>auth_path_backend := None\<rparr> = sw_lib s" using software_no_path [OF holds_tree_lib [OF c h]] by simp
    have "sw_inv H ?s" using h by (intro sw_inv_bound [OF c]) (simp_all add: sw_tree_def)
    then show "case andthen (modify (\<lambda>s. s\<lparr>s_sw_tree_fingerprint := tree_fingerprint priv, s_sw_tree_valid := True\<rparr>)) (andthen (sw_set_backend True) (ret True)) s of
        (Inl _, _) \<Rightarrow> False | (Inr ok, s) \<Rightarrow> ?Q ok s"
      by (simp add: op_defs sw_set_backend_def on_sw_lib_def lms_auth_path_backend_set_def l)
  qed
  show ?thesis unfolding sw_tree_build_def
    by (rule runs_andthen [OF reset], rule runs_bind [OF init], rule runs_ex, rule runs_fact, erule ssubst, unfold sum.case,
        rule runs_bind [OF sign], rule runs_ex, rule runs_fact, erule ssubst, unfold sum.case, rule bind')
qed

lemma runs_sw_ensure:
  assumes p: "param_pair (priv_lms_type priv) (priv_lmots_type priv) = Some (a, b)" "length (priv_I priv) = 16" "length (priv_seed priv) = 32"
  shows "runs False (sw_inv H :: 'w sw_fw \<Rightarrow> bool) (sw_tree_cache_ensure priv)
    (\<lambda>ok s. (ok \<longleftrightarrow> lp_height a \<le> 15) \<and> sw_inv H s \<and> s_sw_tree_valid s = ok \<and> (ok \<longrightarrow> s_sw_tree_fingerprint s = tree_fingerprint priv))"
    (is "runs False _ _ ?Q")
proof -
  let ?c = "chosen_config (priv_lms_type priv) (lp_height a) TREE_MEMORY_TARGET"
  note a = param_pairD(1) [OF p(1)]
  have build: "runs False (sw_off H :: 'w sw_fw \<Rightarrow> bool) (if \<not> fits_arena ?c then ret False else sw_tree_build priv ?c) ?Q"
  proof (cases "lp_height a \<le> 15")
    case True
    then have c: "cacheable priv a b" using p by (simp add: cacheable_def)
    show ?thesis using fits_arena_iff [OF a] True by (simp, intro runs_post [OF runs_sw_build [OF c]]) simp
  next
    case False
    then show ?thesis using fits_arena_iff [OF a] by (auto intro!: runs_ret simp: sw_off_inv sw_off_def)
  qed
  show ?thesis unfolding sw_tree_cache_ensure_def
  proof (rule runs_bind_look)
    fix s :: "'w sw_fw" assume s: "sw_inv H s"
    show "runs False (\<lambda>t. t = s) (if s_sw_tree_valid s \<and> s_sw_tree_fingerprint s = tree_fingerprint priv then ret True
      else andthen (sw_set_backend False) (andthen (on_sw_tree lms_tree_ctx_free) (andthen (modify (\<lambda>s. s\<lparr>s_sw_tree_valid := False\<rparr>))
        (bind (attempt (on_sw_lib (lms_tree_configure (priv_lms_type priv) TREE_MEMORY_TARGET))) (\<lambda>r. case r of
          Inl _ \<Rightarrow> ret False | Inr cfg \<Rightarrow> if \<not> fits_arena cfg then ret False else sw_tree_build priv cfg))))) ?Q"
      (is "runs False _ (if ?hit then _ else _) ?Q")
    proof (cases ?hit)
      case True
      then have "cacheable priv a b" using s p by (auto simp: sw_inv_def)
      then show ?thesis using True s by (auto simp: cacheable_def intro!: runs_ret)
    next
      case False
      show ?thesis unfolding if_not_P [OF False]
        by (rule runs_pre [OF runs_sw_off [of False H]], rule runs_bind [OF runs_sw_configure [OF a]], rule runs_fact, erule ssubst, unfold sum.case, rule build)
          (use s in \<open>simp add: sw_inv_def\<close>)
    qed
  qed
qed

text \<open>A signature's path and a key's root, from the cache or without it.\<close>

definition key_path :: "lms_private_key_t \<Rightarrow> bytes" where
  "key_path priv = (case param_pair (priv_lms_type priv) (priv_lmots_type priv) of None \<Rightarrow> []
     | Some (a, b) \<Rightarrow> concat (lms_path a b (priv_I priv) (priv_seed priv) (unat (priv_q priv))))"

lemma sw_inv_holds:
  assumes "private_key_valid priv" and "sw_inv H s" "s_sw_tree_valid s" "s_sw_tree_fingerprint s = tree_fingerprint priv"
  obtains a b where "param_pair (priv_lms_type priv) (priv_lmots_type priv) = Some (a, b)" "cacheable priv a b" "holds_tree H priv a b (sw_tree s)"
  using assms by (elim private_key_validE) (auto simp: sw_inv_def)

lemma runs_cached_path:
  assumes c: "cacheable priv a b" and q: "unat (priv_q priv) < 2 ^ lp_height a"
  shows "runs False (\<lambda>s :: 'w sw_fw. holds_tree H priv a b (sw_tree s) \<and> sw_flags s = (tree_fingerprint priv, True, True))
    (or_fail LMS_ERR_INVALID (on_sw_tree (lms_subtree_auth_path_backend priv (priv_q priv)))) (\<lambda>path s. path = key_path priv \<and> sw_inv H s)"
proof -
  let ?x = "sw_setup H priv a b :: ('w, tree_pool) cache_setup"
  note X = sw_setup_ok(1-3) [OF c, of H] sw_setup_sel soft_contract_sel
  have "runs False (holds_tree H priv a b) (lms_subtree_auth_path_backend priv (priv_q priv))
      (\<lambda>path st. path = key_path priv \<and> holds_tree H priv a b (st :: ('w, tree_pool) tree_state))"
    unfolding holds_tree_def
    using cache.runs_auth_path_backend [of "priv_q priv" ?x roomy, unfolded X, OF q pool_stays_roomy [OF c]] c
    by (simp add: key_path_def cacheable_def)
  from runs_or_fail [OF runs_on_sw_tree [OF this]] show ?thesis
    by (rule runs_post) (auto simp: sw_flags_def intro: sw_inv_bound [OF c])
qed

lemma runs_uncached_path:
  assumes v: "private_key_valid priv" and q: "unat (priv_q priv) < key_leaves priv"
  shows "runs False (sw_off H :: 'w sw_fw \<Rightarrow> bool) (bind (or_fail LMS_ERR_INVALID (on_sw_lib (lms_get_lms_param (priv_lms_type priv)))) (\<lambda>param.
     on_sw_lib (lms_default_path (lp_height param) priv (push_bit (lp_height param) 1 + priv_q priv)))) (\<lambda>path s. path = key_path priv \<and> sw_off H s)"
  using v
proof (rule private_key_validE)
  fix a b assume k: "param_pair (priv_lms_type priv) (priv_lmots_type priv) = Some (a, b)" "lms_params (priv_lms_type priv) = Some a"
    "length (priv_I priv) = 16" "key_leaves priv = 2 ^ lp_height a"
  let ?n = "push_bit (lp_height a) 1 + priv_q priv"
  note h = lp_height_bounds(1) [OF k(2)]
  have "(2 :: nat) ^ lp_height a \<le> 2 ^ 25" using h by (rule power_increasing) simp
  then have n: "unat ?n = 2 ^ lp_height a + unat (priv_q priv)"
    using q k(4) by (simp only: unat_plus_if' unat_leaf_base [OF h]) simp
  have param: "gives False (software_state H) (lms_get_lms_param (priv_lms_type priv)) (Inr a)"
    using soft.gives_get_lms_param [of False H "priv_lms_type priv"] k(2) by simp
  have path: "gives False (software_state H) (lms_default_path (lp_height a) priv ?n) (Inr (key_path priv))"
  proof -
    have bounds: "2 ^ lp_height a \<le> unat ?n" "unat ?n < 2 ^ Suc (lp_height a)" unfolding n using q k(4) by simp_all
    show ?thesis using soft.gives_default_path [OF k(1,3) refl bounds, where h = H] unfolding n by (simp add: key_path_def lms_path_def k(1))
  qed
  show ?thesis unfolding sw_off_flags
    by (rule runs_ex, rule runs_bind [OF runs_or_fail [OF runs_on_sw_lib [OF param]]], rule runs_fact, erule ssubst)
      (rule runs_post [OF runs_on_sw_lib [OF path]], auto)
qed

lemma runs_sw_path:
  assumes v: "private_key_valid priv" and q: "unat (priv_q priv) < key_leaves priv"
  shows "runs False (sw_inv H :: 'w sw_fw \<Rightarrow> bool) (sw_sign_path priv) (\<lambda>path s. path = key_path priv \<and> sw_inv H s)"
  using v
proof (rule private_key_validE)
  fix a b assume k: "param_pair (priv_lms_type priv) (priv_lmots_type priv) = Some (a, b)" "length (priv_I priv) = 16" "length (priv_seed priv) = 32"
    "key_leaves priv = 2 ^ lp_height a"
  show ?thesis unfolding sw_sign_path_def
  proof (unfold andthen_def, rule runs_bind [OF runs_sw_ensure [OF k(1-3)]], rule runs_bind_look, elim conjE)
    fix ok and s :: "'w sw_fw"
    assume s: "ok \<longleftrightarrow> lp_height a \<le> 15" "sw_inv H s" "s_sw_tree_valid s = ok" "ok \<longrightarrow> s_sw_tree_fingerprint s = tree_fingerprint priv"
    show "runs False (\<lambda>t. t = s) (if sw_path_backend s then or_fail LMS_ERR_INVALID (on_sw_tree (lms_subtree_auth_path_backend priv (priv_q priv)))
      else bind (or_fail LMS_ERR_INVALID (on_sw_lib (lms_get_lms_param (priv_lms_type priv)))) (\<lambda>param.
           on_sw_lib (lms_default_path (lp_height param) priv (push_bit (lp_height param) 1 + priv_q priv)))) (\<lambda>path s. path = key_path priv \<and> sw_inv H s)"
    proof (cases ok)
      case True
      then have "cacheable priv a b" "holds_tree H priv a b (sw_tree s)" "sw_flags s = (tree_fingerprint priv, True, True)"
        using s k by (auto simp: sw_inv_def sw_flags_def)
      then show ?thesis using q k(4) by (auto simp: sw_flags_def intro!: runs_pre [OF runs_cached_path])
    next
      case False
      then have "sw_off H s" using s by (simp add: sw_inv_def sw_off_def)
      then have "\<not> sw_path_backend s" "sw_off H s" by (simp_all add: sw_off_def)
      then show ?thesis unfolding if_not_P [OF \<open>\<not> sw_path_backend s\<close>] by (intro runs_conseq [OF runs_uncached_path [OF v q]]) (auto intro: sw_off_inv)
    qed
  qed
qed

lemma runs_sw_keygen:
  assumes v: "private_key_valid priv"
  shows "runs False (sw_inv H :: 'w sw_fw \<Rightarrow> bool) (sw_keygen priv) (\<lambda>pub s. pub = lms_public_of priv \<and> sw_inv H s)"
  using v
proof (rule private_key_validE)
  fix a b assume k: "param_pair (priv_lms_type priv) (priv_lmots_type priv) = Some (a, b)" "length (priv_I priv) = 16" "length (priv_seed priv) = 32"
  note e = runs_sw_ensure [OF k]
  show ?thesis unfolding sw_keygen_def
  proof (rule runs_bind [OF e])
    fix ok
    let ?R = "\<lambda>s :: 'w sw_fw. (ok \<longleftrightarrow> lp_height a \<le> 15) \<and> sw_inv H s \<and> s_sw_tree_valid s = ok \<and> (ok \<longrightarrow> s_sw_tree_fingerprint s = tree_fingerprint priv)"
    have cached: "slots (sub_nodes (get_sub (ctx_sublevels (s_sw_tree_ctx s) - 1) Active (s_sw_tree_ctx s))) ! 1 = lms_node a b (priv_I priv) (priv_seed priv) 1"
      if ok and s: "?R s" for s
    proof -
      have c: "cacheable priv a b" and h: "holds_tree H priv a b (sw_tree s)" using s k \<open>ok\<close> by (auto simp: sw_inv_def)
      let ?x = "sw_setup H priv a b :: ('w, tree_pool) cache_setup"
      note X = sw_setup_ok(1-3) [OF c, of H] sw_setup_sel soft_contract_sel
      have ctx: "cached_tree.ctx_ok priv a b 5 (lp_height a div 5) None None tree_pool_alloc tree_pool_free (s_sw_tree_ctx s)"
        "cached_tree.actives priv a b 5 (lp_height a div 5) (s_sw_tree_ctx s)" using h c by (simp_all add: holds_tree_def')
      have "ctx_sublevels (s_sw_tree_ctx s) = lp_height a div 5" using ctx(1) by (simp add: cache.ctx_ok_def [of ?x, unfolded X] ctx_serves_def ctx_shape_def)
      then show ?thesis using cache.actives_root [of ?x, unfolded X, OF ctx(2)] by simp
    qed
    have fresh: "runs False ?R (on_sw_lib (lms_public_key_generate priv)) (\<lambda>pub s. pub = lms_public_of priv \<and> sw_inv H s)" if "\<not> ok"
    proof (rule runs_gen)
      fix s :: "'w sw_fw" assume "?R s"
      then have s: "software_state H (sw_lib s)" "sw_flags s = (s_sw_tree_fingerprint s, False, False)" using that by (auto simp: sw_inv_def sw_flags_def)
      show "runs False (\<lambda>t. t = s) (on_sw_lib (lms_public_key_generate priv)) (\<lambda>pub s. pub = lms_public_of priv \<and> sw_inv H s)"
        by (rule runs_conseq [OF runs_on_sw_lib [OF gives_public_of [OF v], of H "sw_flags s"]]) (use s in \<open>auto simp: sw_off_flags intro: sw_off_inv\<close>)
    qed
    show "runs False ?R (if ok then bind (look (\<lambda>s. slots (sub_nodes (get_sub (ctx_sublevels (s_sw_tree_ctx s) - 1) Active (s_sw_tree_ctx s))) ! 1)) (\<lambda>root.
          ret \<lparr>pub_lms_type = priv_lms_type priv, pub_lmots_type = priv_lmots_type priv, pub_I = priv_I priv, pub_root = root\<rparr>)
     else on_sw_lib (lms_public_key_generate priv)) (\<lambda>pub s. pub = lms_public_of priv \<and> sw_inv H s)"
    proof (cases ok)
      case True
      then show ?thesis using cached k(1) by (auto intro!: runs_bind_look runs_ret simp: lms_public_of_def)
    next
      case False
      then show ?thesis using fresh by simp
    qed
  qed
qed

text \<open>What the firmware is asked for: public keys, and the paths of signatures.\<close>

datatype sw_request = Keygen_Request lms_private_key_t | Sign_Request lms_private_key_t

primrec sw_serve :: "sw_request \<Rightarrow> ('w, lms_public_key_t + bytes) sw_op" where
  "sw_serve (Keygen_Request priv) = bind (sw_keygen priv) (\<lambda>pub. ret (Inl pub))"
| "sw_serve (Sign_Request priv) = bind (sw_sign_path priv) (\<lambda>path. ret (Inr path))"

primrec request_valid :: "sw_request \<Rightarrow> bool" where
  "request_valid (Keygen_Request priv) = private_key_valid priv"
| "request_valid (Sign_Request priv) = (private_key_valid priv \<and> unat (priv_q priv) < key_leaves priv)"

primrec request_answer :: "sw_request \<Rightarrow> lms_public_key_t + bytes" where
  "request_answer (Keygen_Request priv) = Inl (lms_public_of priv)"
| "request_answer (Sign_Request priv) = Inr (key_path priv)"

lemma runs_sw_serve:
  "request_valid r \<Longrightarrow> runs False (sw_inv H) (sw_serve r) (\<lambda>x s. x = request_answer r \<and> sw_inv H s)"
  by (cases r) (auto intro: runs_bind [OF runs_sw_keygen] runs_bind [OF runs_sw_path] runs_ret)

lemma runs_sw_requests:
  assumes "\<forall>r \<in> set rs. request_valid r"
  shows "runs False (sw_inv H) (for_each sw_serve rs) (\<lambda>xs s. xs = map request_answer rs \<and> sw_inv H s)"
  using assms
proof (induction rs)
  case Nil
  then show ?case by (simp add: runs_ret)
next
  case (Cons r rs)
  then show ?case unfolding for_each.simps
    by (intro runs_bind [OF runs_sw_serve runs_fact] runs_bind [OF Cons.IH runs_fact] runs_ret) auto
qed

text \<open>C10. However keys are interleaved, the tree cache of the firmware is transparent. From boot, where no tree is bound, any
  sequence of key-generation and signing requests for valid keys, of any height and parameter set, is answered in full: key generation with
  the public key of the key, signing with the RFC 8554 authentication path of its leaf. The fingerprint decides between a cached tree
  and a new one, the arena is never exhausted, and a key too tall for it takes the uncached route.\<close>

theorem firmware_tree_cache_transparent:
  assumes "software_state H (sw_lib s)" and "\<not> s_sw_tree_valid s" and "\<not> sw_path_backend s" and "\<forall>r \<in> set rs. request_valid r"
  shows "fst (for_each sw_serve rs s) = Inr (map request_answer rs)"
proof -
  have "sw_inv H s" using assms(1-3) by (simp add: sw_inv_def)
  then obtain s' where "for_each sw_serve rs s = (Inr (map request_answer rs), s')"
    using runs_success [OF runs_sw_requests [OF assms(4)]] by blast
  then show ?thesis by simp
qed

text \<open>The static data at boot, two keys of height 5 that share a seed, and one of height 20.\<close>

definition no_ctx :: "('w, tree_pool) lms_tree_ctx_t" where
  "no_ctx = \<lparr>ctx_lms_type = 0, ctx_height = 0, ctx_n = 0, ctx_subtree_size = 0, ctx_sublevels = 0, ctx_top_subtree_size = 0,
     ctx_hash_alg = LMS_HASH_SHA256, ctx_I = replicate 16 0, ctx_levels = None, ctx_ots_pub = None, ctx_leaf_fn = None,
     ctx_alloc = (\<lambda>_ m. (None, m)), ctx_free = (\<lambda>_ m. m)\<rparr>"

definition boot_sw :: "'w lms_lib \<Rightarrow> 'w sw_fw" where
  "boot_sw l = \<lparr>sw_lib = l, s_sw_tree_ctx = no_ctx, s_sw_pool = pool_at 0 None 0, s_sw_tree_fingerprint = replicate 56 0,
     s_sw_tree_valid = False, sw_path_backend = False\<rparr>"

definition other_priv :: lms_private_key_t where
  "other_priv = test_priv\<lparr>priv_I := replicate 16 8, priv_q := 31\<rparr>"

definition tall_priv :: lms_private_key_t where
  "tall_priv = test_priv\<lparr>priv_lms_type := LMS_SHA256_N32_H20, priv_q := 70000\<rparr>"

lemma test_keys_valid:
  "private_key_valid test_priv" "key_leaves test_priv = 32" "private_key_valid other_priv" "key_leaves other_priv = 32"
  "private_key_valid tall_priv" "key_leaves tall_priv = 1048576"
  by (simp_all add: private_key_valid_def key_leaves_def other_priv_def tall_priv_def test_priv_def param_pair_def lms_params_def lmots_params_def
      lms_type_switch_def lmots_type_switch_def LMS_N_def)

lemma software_test_lib: "software_state 0 hash_test_lib"
  using test_lib_plain by (simp add: software_state_def hash_test_lib_def)

text \<open>Witness of C10: two keys in turn, then one that is not cached, then the first again.\<close>

theorem firmware_tree_cache_transparent_witness:
  "fst (for_each sw_serve [Keygen_Request test_priv, Sign_Request other_priv, Sign_Request tall_priv, Sign_Request test_priv] (boot_sw hash_test_lib))
   = Inr [Inl (lms_public_of test_priv), Inr (key_path other_priv), Inr (key_path tall_priv), Inr (key_path test_priv)]"
proof -
  have q: "unat (priv_q test_priv) < 32" "unat (priv_q other_priv) < 32" "unat (priv_q tall_priv) < 1048576"
    by (simp_all add: test_priv_def other_priv_def tall_priv_def)
  show ?thesis
    using firmware_tree_cache_transparent [of 0 "boot_sw hash_test_lib"
        "[Keygen_Request test_priv, Sign_Request other_priv, Sign_Request tall_priv, Sign_Request test_priv]"]
      software_test_lib test_keys_valid q by (simp add: boot_sw_def)
qed

end
