(* ===== verification/Shared_Arena.thy ===== *)
theory Shared_Arena
  imports Tree_Cache
begin

text \<open>
  The two tree caches of the cooperative firmware, for plain and for secure commands, in one arena.
\<close>

text \<open>Where the array of sublevels of a context is.\<close>

definition arena_base :: "('w, 'm) lms_tree_ctx_t \<Rightarrow> nat option" where
  "arena_base c = map_option fst (ctx_levels c)"

definition base_in :: "nat option set \<Rightarrow> ('w, 'm) lms_tree_ctx_t \<Rightarrow> bool" where
  "base_in B c \<longleftrightarrow> arena_base c \<in> B"

lemma base_in_update [simp]:
  "base_in B (set_level i sl c) = base_in B c" "base_in B (set_sub i w sub c) = base_in B c" "base_in B (c\<lparr>ctx_levels := None\<rparr>) \<longleftrightarrow> None \<in> B"
  "base_in B (c\<lparr>ctx_sublevels := k\<rparr>) = base_in B c" "base_in B (c\<lparr>ctx_leaf_fn := fn\<rparr>) = base_in B c"
  by (cases "ctx_levels c"; simp add: base_in_def arena_base_def set_level_def set_sub_def split_beta)+

lemma keeps_tree_parts [keeps_intros]:
  "keeps (\<lambda>st. base_in B (t_ctx st)) (on_lib f) (\<lambda>st. base_in B (t_ctx st))"
  "keeps (\<lambda>st. base_in B (t_ctx st)) (on_sub i w g) (\<lambda>st. base_in B (t_ctx st))"
  "keeps (\<lambda>st. base_in B (t_ctx st)) (allocate n) E" "keeps (\<lambda>st. base_in B (t_ctx st)) (release a) E"
  "(\<And>c. base_in B c \<Longrightarrow> base_in B (h c)) \<Longrightarrow> keeps (\<lambda>st. base_in B (t_ctx st)) (update_ctx h) E"
  by (auto simp: ends_def on_lib_def on_sub_def allocate_def release_def update_ctx_def op_defs split: prod.splits sum.splits)

lemma keeps_build_at [keeps_intros]: "keeps (\<lambda>st. base_in B (t_ctx st)) (subtree_build_at priv src s w lo) (\<lambda>st. base_in B (t_ctx st))"
proof (induction s arbitrary: w lo)
  case 0
  show ?case by (auto simp: subtree_build_bottom_def subtree_push_leaf_def subtree_compute_leaf_def Let_def split: option.split intro!: keeps_intros)
next
  case (Suc s)
  then show ?case by (auto simp: subtree_build_upper_def Let_def split: option.split sum.split intro!: keeps_intros)
qed

lemma keeps_sign_init [keeps_intros]: "keeps (\<lambda>st. base_in B (t_ctx st)) (lms_tree_sign_init priv) (\<lambda>st. base_in B (t_ctx st))"
  unfolding lms_tree_sign_init_def by (intro keeps_intros)

lemma keeps_free_buffers [keeps_intros]: "keeps (\<lambda>st. base_in B (t_ctx st)) (subtree_free_buffers i w) E"
  by (auto simp: subtree_free_buffers_def split: option.split intro!: keeps_intros)

lemma keeps_ctx_free [keeps_intros]: "None \<in> B \<Longrightarrow> keeps (\<lambda>st. base_in B (t_ctx st)) lms_tree_ctx_free E"
  by (auto simp: lms_tree_ctx_free_def split: option.split intro!: keeps_intros)

lemma keeps_init_sublevel [keeps_intros]:
  "keeps (\<lambda>st. base_in B (t_ctx st)) (init_sublevel L j top_h h n s) (\<lambda>st. base_in B (t_ctx st))"
  by (auto simp: init_sublevel_def subtree_init_buffers_def Let_def split: option.split intro!: keeps_intros)

lemma keeps_leaf_fn [keeps_intros]: "keeps (\<lambda>st. base_in B (t_ctx st)) (lms_subtree_set_leaf_fn fn) E"
  unfolding lms_subtree_set_leaf_fn_def by (intro keeps_intros) simp

text \<open>In the empty arena the sublevels go to its start, if they are allocated at all.\<close>

abbreviation free_or_start :: "('w, 'm) tree_state \<Rightarrow> bool" where
  "free_or_start st \<equiv> base_in {None, Some 0} (t_ctx st)"

lemma ends_sublevels:
  "ends (\<lambda>st. base_in {Some 0} (t_ctx st)) (bind (attempt (for_each (init_sublevel sublevels j top_h height n) [0..<sublevels])) (\<lambda>r. case r of
       Inr _ \<Rightarrow> ret () | Inl _ \<Rightarrow> andthen lms_tree_ctx_free (fail LMS_ERR_INVALID)))
     (\<lambda>_ st. base_in {Some 0} (t_ctx st)) free_or_start"
proof (rule ends_bind [OF keeps_attempt], goal_cases each after)
  case each
  show ?case by (intro keeps_intros)
next
  case (after r)
  have "ends (\<lambda>st. base_in {Some 0} (t_ctx st)) (andthen lms_tree_ctx_free (fail LMS_ERR_INVALID)) (\<lambda>_ st. base_in {Some 0} (t_ctx st)) free_or_start"
    by (rule ends_andthen [OF ends_conseq [OF keeps_ctx_free [where B = "{None, Some 0}" and E = free_or_start]], where R = free_or_start])
      (auto simp: base_in_def ends_def op_defs)
  then show ?case by (auto split: sum.split intro: ends_ret)
qed

lemma ends_ctx_init:
  "ends (\<lambda>st. free_or_start st \<and> t_mem st = pool_at 0 None 0) (lms_tree_ctx_init cfg I src tree_pool_alloc tree_pool_free)
     (\<lambda>_ st. base_in {Some 0} (t_ctx st)) free_or_start"
  unfolding lms_tree_ctx_init_def Let_def
proof (rule ends_andthen [where R = "\<lambda>st. free_or_start st \<and> t_mem st = pool_at 0 None 0"], goal_cases guard rest)
  case guard
  show ?case by (simp add: ends_def op_defs)
next
  case rest
  have param: "ends (\<lambda>st. free_or_start st \<and> t_mem st = pool_at 0 None 0) (or_fail e (on_lib f)) (\<lambda>_ st. t_mem st = pool_at 0 None 0) free_or_start" for e f
    by (auto simp: ends_def or_fail_def on_lib_def split: prod.split sum.split)
  let ?new = "\<lambda>st. t_mem st = pool_at 0 None 0 \<and> free_or_start st \<and> ctx_alloc (t_ctx st) = tree_pool_alloc"
  have alloc: "ends ?new (allocate k) (\<lambda>x st. free_or_start st \<and> x \<in> {None, Some 0}) free_or_start" for k
    by (auto simp: ends_def allocate_def tree_pool_alloc_def pool_at_def Let_def)
  show ?case
  proof (rule ends_bind [OF param], rule ends_andthen [where R = ?new, OF _ ends_bind [OF alloc]], goal_cases make fill)
    case make
    show ?case by (simp add: ends_def update_ctx_def op_defs base_in_def arena_base_def)
  next
    case (fill a x)
    have put: "ends (\<lambda>st. free_or_start st \<and> Some b \<in> {None, Some 0}) (update_ctx (\<lambda>c. c\<lparr>ctx_levels := Some (b, ls)\<rparr>))
        (\<lambda>_ st. base_in {Some 0} (t_ctx st)) free_or_start" for b ls
      by (auto simp: ends_def update_ctx_def op_defs base_in_def arena_base_def)
    show ?case
    proof (cases x)
      case None
      then show ?thesis by (simp add: ends_def op_defs)
    next
      case (Some b)
      show ?thesis unfolding Some option.case by (rule ends_andthen [OF put ends_sublevels])
    qed
  qed
qed

text \<open>The part of the state that belongs to one cache, and the states in which the other one is bound, \<open>v\<close> the values its
  valid flag can have and \<open>B\<close> the places its sublevels can be.\<close>

definition plain_side :: "'h hw_fw \<Rightarrow> ('h lms_mmio_client_t, tree_pool) lms_tree_ctx_t \<times> bytes \<times> bool \<times> bool" where
  "plain_side s = (s_tree_ctx s, s_tree_key_fingerprint s, s_tree_cache_valid s, hw_path_backend s)"

definition secure_side :: "'h hw_fw \<Rightarrow> ('h lms_mmio_client_t, tree_pool) lms_tree_ctx_t \<times> bytes \<times> bool" where
  "secure_side s = (s_sec_tree_ctx s, s_sec_tree_fingerprint s, s_sec_tree_valid s)"

definition sec_st :: "bool set \<Rightarrow> nat option set \<Rightarrow> _ \<Rightarrow> 'h hw_fw \<Rightarrow> bool" where
  "sec_st v B r s \<longleftrightarrow> plain_side s = r \<and> base_in B (s_sec_tree_ctx s) \<and> s_sec_tree_valid s \<in> v"

definition plain_st :: "bool set \<Rightarrow> nat option set \<Rightarrow> _ \<Rightarrow> 'h hw_fw \<Rightarrow> bool" where
  "plain_st v B r s \<longleftrightarrow> secure_side s = r \<and> base_in B (s_tree_ctx s) \<and> s_tree_cache_valid s \<in> v"

text \<open>A valid cache has its sublevels at the start of the arena.\<close>

definition bound_at_start :: "bool \<Rightarrow> ('w, 'm) lms_tree_ctx_t \<Rightarrow> bool" where
  "bound_at_start v c \<longleftrightarrow> base_in (if v then {Some 0} else {None, Some 0}) c"

lemma sec_st_simps [simp]:
  "sec_st v B r (s\<lparr>s_tree_pool := p\<rparr>) = sec_st v B r s" "sec_st v B r (s\<lparr>s_sec_tree_fingerprint := f\<rparr>) = sec_st v B r s" "sec_st v B r (s\<lparr>hw_lib := l\<rparr>) = sec_st v B r s"
  by (simp_all add: sec_st_def plain_side_def secure_side_def)

lemma sec_st_lib [keeps_intros]: "(\<And>s. sec_st v B r s \<Longrightarrow> E s) \<Longrightarrow> keeps (sec_st v B r) (on_hw_lib f) E"
  by (rule keepsI) (simp_all add: on_hw_lib_def split: prod.split)

lemma ends_on_sec_tree:
  fixes f :: "('h lms_mmio_client_t, tree_pool, 'a) top"
  assumes f: "ends (\<lambda>st. base_in B (t_ctx st) \<and> P (t_mem st)) f (\<lambda>_ st. base_in B1 (t_ctx st)) (\<lambda>st. base_in B2 (t_ctx st))"
  shows "ends (\<lambda>s. sec_st v B r s \<and> P (s_tree_pool s)) (on_sec_tree f) (\<lambda>_. sec_st v B1 r) (sec_st v B2 r)"
  unfolding ends_def
proof (intro allI impI)
  fix s :: "'h hw_fw" assume s: "sec_st v B r s \<and> P (s_tree_pool s)"
  let ?st = "\<lparr>t_lib = hw_lib s, t_ctx = s_sec_tree_ctx s, t_mem = s_tree_pool s\<rparr>"
  obtain y st where y: "f ?st = (y, st)" by force
  have "case y of Inl _ \<Rightarrow> base_in B2 (t_ctx st) | Inr _ \<Rightarrow> base_in B1 (t_ctx st)"
    using f [unfolded ends_def, rule_format, of ?st] s y by (auto simp: sec_st_def split: sum.splits)
  then show "case on_sec_tree f s of (Inl _, s') \<Rightarrow> sec_st v B2 r s' | (Inr _, s') \<Rightarrow> sec_st v B1 r s'"
    using s by (cases y) (simp_all add: on_sec_tree_def y sec_st_def plain_side_def)
qed

lemmas keeps_on_sec_tree = ends_on_sec_tree [where P = "\<lambda>_. True", simplified]

lemma plain_st_simps [simp]:
  "plain_st v B r (s\<lparr>s_tree_pool := p\<rparr>) = plain_st v B r s" "plain_st v B r (s\<lparr>s_tree_key_fingerprint := f\<rparr>) = plain_st v B r s" "plain_st v B r (s\<lparr>hw_lib := l\<rparr>) = plain_st v B r s"
  by (simp_all add: plain_st_def plain_side_def secure_side_def)

lemma plain_st_lib [keeps_intros]: "(\<And>s. plain_st v B r s \<Longrightarrow> E s) \<Longrightarrow> keeps (plain_st v B r) (on_hw_lib f) E"
  by (rule keepsI) (simp_all add: on_hw_lib_def split: prod.split)

lemma ends_on_tree:
  fixes f :: "('h lms_mmio_client_t, tree_pool, 'a) top"
  assumes f: "ends (\<lambda>st. base_in B (t_ctx st) \<and> P (t_mem st)) f (\<lambda>_ st. base_in B1 (t_ctx st)) (\<lambda>st. base_in B2 (t_ctx st))"
  shows "ends (\<lambda>s. plain_st v B r s \<and> P (s_tree_pool s)) (on_tree f) (\<lambda>_. plain_st v B1 r) (plain_st v B2 r)"
  unfolding ends_def
proof (intro allI impI)
  fix s :: "'h hw_fw" assume s: "plain_st v B r s \<and> P (s_tree_pool s)"
  let ?st = "\<lparr>t_lib = hw_lib s, t_ctx = s_tree_ctx s, t_mem = s_tree_pool s\<rparr>"
  obtain y st where y: "f ?st = (y, st)" by force
  have "case y of Inl _ \<Rightarrow> base_in B2 (t_ctx st) | Inr _ \<Rightarrow> base_in B1 (t_ctx st)"
    using f [unfolded ends_def, rule_format, of ?st] s y by (auto simp: plain_st_def split: sum.splits)
  then show "case on_tree f s of (Inl _, s') \<Rightarrow> plain_st v B2 r s' | (Inr _, s') \<Rightarrow> plain_st v B1 r s'"
    using s by (cases y) (simp_all add: on_tree_def y plain_st_def secure_side_def)
qed

lemmas keeps_on_tree = ends_on_tree [where P = "\<lambda>_. True", simplified]

lemma pool_reset: "tree_pool_reset p = pool_at 0 None 0"
  by (simp add: tree_pool_reset_def pool_at_def)

definition sec_ok :: "_ \<Rightarrow> 'h hw_fw \<Rightarrow> bool" where
  "sec_ok r s \<longleftrightarrow> plain_side s = r \<and> bound_at_start (s_sec_tree_valid s) (s_sec_tree_ctx s)"

definition plain_ok :: "_ \<Rightarrow> 'h hw_fw \<Rightarrow> bool" where
  "plain_ok r s \<longleftrightarrow> secure_side s = r \<and> bound_at_start (s_tree_cache_valid s) (s_tree_ctx s)"

lemma ok_cases:
  "sec_ok r s \<Longrightarrow> sec_st UNIV {None, Some 0} r s" "sec_st {False} {None, Some 0} r s \<Longrightarrow> sec_ok r s" "sec_st {False} {Some 0} r s \<Longrightarrow> sec_ok r s"
  "sec_st {False} {Some 0} r s \<Longrightarrow> sec_ok r (s\<lparr>s_sec_tree_fingerprint := f, s_sec_tree_valid := True\<rparr>)"
  "plain_ok q s \<Longrightarrow> plain_st UNIV {None, Some 0} q s" "plain_st {False} {None, Some 0} q s \<Longrightarrow> plain_ok q s" "plain_st {False} {Some 0} q s \<Longrightarrow> plain_ok q s"
  "plain_st {False} {Some 0} q s \<Longrightarrow> plain_ok q (s\<lparr>s_tree_key_fingerprint := f, s_tree_cache_valid := True, hw_path_backend := b\<rparr>)"
  by (auto simp: sec_ok_def plain_ok_def sec_st_def plain_st_def bound_at_start_def base_in_def plain_side_def secure_side_def split: if_splits)

lemma ends_sec_invalidate:
  assumes "B \<subseteq> {None, Some 0}"
  shows "ends (sec_st v B r) sec_tree_cache_invalidate (\<lambda>_. sec_st {False} {None, Some 0} r) E"
proof -
  have free: "ends (sec_st v B r) (on_sec_tree lms_tree_ctx_free) (\<lambda>_. sec_st v {None, Some 0} r) E"
    by (rule ends_conseq [OF keeps_on_sec_tree [OF keeps_ctx_free [where B = "{None, Some 0}" and E = "\<lambda>st. base_in {} (t_ctx st)"]]])
      (use assms in \<open>auto simp: sec_st_def base_in_def\<close>)
  show ?thesis unfolding sec_tree_cache_invalidate_def by (rule ends_andthen [OF free ends_modify]) (simp add: sec_st_def plain_side_def)
qed

lemma ends_plain_backend: "ends (plain_st v B r) (hw_set_backend b) (\<lambda>_ s. plain_st v B r s \<and> hw_path_backend s = b) E"
  by (auto simp: ends_def hw_set_backend_def on_hw_lib_def lms_auth_path_backend_set_def op_defs plain_st_def secure_side_def)

lemma ends_plain_invalidate:
  assumes "B \<subseteq> {None, Some 0}"
  shows "ends (plain_st v B r) tree_cache_invalidate (\<lambda>_. plain_st {False} {None, Some 0} r) E"
proof -
  have free: "ends (\<lambda>s. plain_st v B r s \<and> hw_path_backend s = False) (on_tree lms_tree_ctx_free) (\<lambda>_. plain_st v {None, Some 0} r) E"
    by (rule ends_conseq [OF keeps_on_tree [OF keeps_ctx_free [where B = "{None, Some 0}" and E = "\<lambda>st. base_in {} (t_ctx st)"]]])
      (use assms in \<open>auto simp: plain_st_def base_in_def\<close>)
  show ?thesis unfolding tree_cache_invalidate_def
    by (rule ends_andthen [OF ends_plain_backend ends_andthen [OF free ends_modify]]) (simp add: plain_st_def secure_side_def)
qed

text \<open>The arena is emptied and the context laid out in it.\<close>

lemma ends_sec_init:
  assumes "\<And>x. ends (sec_st {False} {Some 0} r) (k (Inr x)) (\<lambda>_. Q) Q" "\<And>x. ends (sec_st {False} {None, Some 0} r) (k (Inl x)) (\<lambda>_. Q) Q"
  shows "ends (sec_st {False} {None, Some 0} r) (andthen (modify (\<lambda>s. s\<lparr>s_tree_pool := tree_pool_reset (s_tree_pool s)\<rparr>))
    (bind (attempt (on_sec_tree (lms_tree_ctx_init cfg I src tree_pool_alloc tree_pool_free))) k)) (\<lambda>_. Q) Q"
proof -
  have "ends (\<lambda>s. case x of Inl _ \<Rightarrow> sec_st {False} {None, Some 0} r s | Inr _ \<Rightarrow> sec_st {False} {Some 0} r s) (k x) (\<lambda>_. Q) Q" for x
    using assms by (cases x) simp_all
  then have init: "ends (\<lambda>s. sec_st {False} {None, Some 0} r s \<and> s_tree_pool s = pool_at 0 None 0)
      (bind (attempt (on_sec_tree (lms_tree_ctx_init cfg I src tree_pool_alloc tree_pool_free))) k) (\<lambda>_. Q) Q"
    by (intro ends_bind [OF ends_attempt [OF ends_on_sec_tree [OF ends_ctx_init]]]) simp
  show ?thesis by (rule ends_andthen [OF ends_modify init]) (simp add: pool_reset)
qed

lemma ends_plain_init:
  assumes "\<And>x. ends (plain_st {False} {Some 0} r) (k (Inr x)) (\<lambda>_. Q) Q" "\<And>x. ends (plain_st {False} {None, Some 0} r) (k (Inl x)) (\<lambda>_. Q) Q"
  shows "ends (plain_st {False} {None, Some 0} r) (andthen (modify (\<lambda>s. s\<lparr>s_tree_pool := tree_pool_reset (s_tree_pool s)\<rparr>))
    (bind (attempt (on_tree (lms_tree_ctx_init cfg I src tree_pool_alloc tree_pool_free))) k)) (\<lambda>_. Q) Q"
proof -
  have "ends (\<lambda>s. case x of Inl _ \<Rightarrow> plain_st {False} {None, Some 0} r s | Inr _ \<Rightarrow> plain_st {False} {Some 0} r s) (k x) (\<lambda>_. Q) Q" for x
    using assms by (cases x) simp_all
  then have init: "ends (\<lambda>s. plain_st {False} {None, Some 0} r s \<and> s_tree_pool s = pool_at 0 None 0)
      (bind (attempt (on_tree (lms_tree_ctx_init cfg I src tree_pool_alloc tree_pool_free))) k) (\<lambda>_. Q) Q"
    by (intro ends_bind [OF ends_attempt [OF ends_on_tree [OF ends_ctx_init]]]) simp
  show ?thesis by (rule ends_andthen [OF ends_modify init]) (simp add: pool_reset)
qed

lemma ends_done: "(\<And>s. P s \<Longrightarrow> Q s) \<Longrightarrow> ends P (ret x) (\<lambda>_. Q) E"
  by (rule ends_ret)

lemma ends_sec_ensure: "ends (sec_ok r) (sec_tree_cache_ensure priv :: ('h, bool) hw_op) (\<lambda>_. sec_ok r) (sec_ok r)"
proof -
  let ?K = "sec_st {False} {None, Some 0} r" and ?K1 = "sec_st {False} {Some 0} r"
  have off: "ends ?K1 (andthen sec_tree_cache_invalidate (ret False)) (\<lambda>_. sec_ok r) (sec_ok r)"
    by (rule ends_andthen [OF ends_sec_invalidate ends_done]) (simp_all add: ok_cases)
  have tree: "keeps ?K1 (on_sec_tree f) (sec_ok r)"
    if "keeps (\<lambda>st. base_in {Some 0} (t_ctx st)) f (\<lambda>st. base_in {Some 0} (t_ctx st))" for f :: "('h lms_mmio_client_t, tree_pool, 'a) top"
    by (rule ends_conseq [OF keeps_on_sec_tree [OF that]]) (auto intro: ok_cases)
  have last: "ends ?K1 (bind (attempt (on_sec_tree (lms_tree_sign_init priv))) (\<lambda>r. case r of
       Inl _ \<Rightarrow> andthen sec_tree_cache_invalidate (ret False)
     | Inr _ \<Rightarrow> andthen (modify (\<lambda>s. s\<lparr>s_sec_tree_fingerprint := sec_tree_fingerprint priv, s_sec_tree_valid := True\<rparr>)) (ret True))) (\<lambda>_. sec_ok r) (sec_ok r)"
    by (rule ends_bind [OF keeps_attempt [OF keeps_on_sec_tree [OF keeps_sign_init]]])
      (auto split: sum.split intro!: off ends_andthen [OF ends_modify ends_done [where P = "sec_ok r"]] ok_cases(4))
  show ?thesis unfolding sec_tree_cache_ensure_def
  proof (rule ends_bind [OF keeps_basic(2)], goal_cases hit)
    case (hit x)
    have miss: "ends (sec_ok r) (andthen sec_tree_cache_invalidate k) (\<lambda>_. sec_ok r) (sec_ok r)" if "ends ?K k (\<lambda>_. sec_ok r) (sec_ok r)"
      for k :: "('h, bool) hw_op"
      by (rule ends_andthen [OF ends_conseq [OF ends_sec_invalidate [where v = UNIV, OF subset_refl]] that]) (simp_all add: ok_cases(1))
    show ?case
    proof (cases x)
      case True
      then show ?thesis by (simp add: ends_done)
    next
      case False
      then show ?thesis
        by (auto simp: ok_cases(2,3) split: sum.split intro!: miss ends_bind [OF keeps_attempt [OF sec_st_lib]] ends_done ends_sec_init ends_bind [OF sec_st_lib]
            off last ends_andthen [OF tree [OF keeps_leaf_fn]] ends_andthen [OF sec_st_lib])
    qed
  qed
qed

lemma ends_plain_ensure: "ends (plain_ok r) (tree_cache_ensure priv :: ('h, bool) hw_op) (\<lambda>_. plain_ok r) (plain_ok r)"
proof -
  let ?K = "plain_st {False} {None, Some 0} r" and ?K1 = "plain_st {False} {Some 0} r"
  have off: "ends ?K1 (andthen tree_cache_invalidate (ret False)) (\<lambda>_. plain_ok r) (plain_ok r)"
    by (rule ends_andthen [OF ends_plain_invalidate ends_done]) (simp_all add: ok_cases)
  have tree: "keeps ?K1 (on_tree f) (plain_ok r)"
    if "keeps (\<lambda>st. base_in {Some 0} (t_ctx st)) f (\<lambda>st. base_in {Some 0} (t_ctx st))" for f :: "('h lms_mmio_client_t, tree_pool, 'a) top"
    by (rule ends_conseq [OF keeps_on_tree [OF that]]) (auto intro: ok_cases)
  have leaf: "keeps ?K1 (if b then on_tree (lms_subtree_set_leaf_fn fn) else ret ()) (plain_ok r)" for b fn
    using tree [OF keeps_leaf_fn] by (simp add: keeps_basic)
  have bind: "ends ?K1 (andthen (modify (\<lambda>s. s\<lparr>s_tree_key_fingerprint := tree_fingerprint priv, s_tree_cache_valid := True\<rparr>))
      (andthen (hw_set_backend True) (ret True))) (\<lambda>_. plain_ok r) (plain_ok r)"
    by (auto simp: ends_def hw_set_backend_def on_hw_lib_def lms_auth_path_backend_set_def op_defs plain_st_def plain_ok_def secure_side_def bound_at_start_def)
  have last: "ends ?K1 (bind (attempt (on_tree (lms_tree_sign_init priv))) (\<lambda>r. case r of
       Inl _ \<Rightarrow> andthen tree_cache_invalidate (ret False)
     | Inr _ \<Rightarrow> andthen (modify (\<lambda>s. s\<lparr>s_tree_key_fingerprint := tree_fingerprint priv, s_tree_cache_valid := True\<rparr>))
         (andthen (hw_set_backend True) (ret True)))) (\<lambda>_. plain_ok r) (plain_ok r)"
    by (rule ends_bind [OF keeps_attempt [OF keeps_on_tree [OF keeps_sign_init]]]) (auto split: sum.split intro!: off bind)
  show ?thesis unfolding tree_cache_ensure_def
  proof (rule ends_bind [OF keeps_basic(2)], goal_cases hit)
    case (hit x)
    have miss: "ends (plain_ok r) (andthen tree_cache_invalidate k) (\<lambda>_. plain_ok r) (plain_ok r)" if "ends ?K k (\<lambda>_. plain_ok r) (plain_ok r)"
      for k :: "('h, bool) hw_op"
      by (rule ends_andthen [OF ends_conseq [OF ends_plain_invalidate [where v = UNIV, OF subset_refl]] that]) (simp_all add: ok_cases(5))
    show ?case
    proof (cases x)
      case True
      then show ?thesis by (simp add: ends_done)
    next
      case False
      then show ?thesis
        by (auto simp: ok_cases(6,7) split: sum.split intro!: miss ends_bind [OF keeps_attempt [OF plain_st_lib]] ends_done ends_plain_init
            ends_bind [OF plain_st_lib] last ends_andthen [OF leaf] ends_andthen [OF plain_st_lib])
    qed
  qed
qed


text \<open>The cooperative firmware at boot.\<close>

definition boot_hw :: "'h lms_mmio_client_t lms_lib \<Rightarrow> 'h hw_fw" where
  "boot_hw l = \<lparr>hw_lib = l, s_tree_pool = pool_at 0 None 0, s_tree_ctx = no_ctx, s_tree_key_fingerprint = replicate 56 0, s_tree_cache_valid = False,
     hw_path_backend = False, s_sec_tree_ctx = no_ctx, s_sec_tree_fingerprint = replicate 24 0, s_sec_tree_valid = False\<rparr>"


end
