(* ===== verification/Subtree_Faults.thy ===== *)
theory Subtree_Faults
  imports Subtree_Context
begin

text \<open>
  The tree cache when the environment fails: what a rebuild that does not complete leaves behind.
\<close>

section \<open>A rebuild that gives up\<close>

lemma for_each_still:
  "(\<And>x. x \<in> set xs \<Longrightarrow> f x s = (Inr (), s)) \<Longrightarrow> fst (for_each f xs s) \<in> range Inr \<and> snd (for_each f xs s) = s"
  by (induction xs) (auto simp: op_defs split: prod.splits sum.splits)

text \<open>The siblings on the path of leaf \<open>q\<close> above level \<open>d\<close>, with those below taken around leaf \<open>q mod 2 ^ d\<close>.\<close>

definition mixed_path :: "lms_param_t \<Rightarrow> lmots_param_t \<Rightarrow> lms_private_key_t \<Rightarrow> nat \<Rightarrow> nat \<Rightarrow> bytes list" where
  "mixed_path a b priv d q = (let V = lms_node a b (priv_I priv) (priv_seed priv); h = lp_height a in
     map (\<lambda>i. V (sibling ((2 ^ h + q mod 2 ^ d) div 2 ^ i))) [0..<d] @ map (\<lambda>i. V (sibling ((2 ^ h + q) div 2 ^ i))) [d..<h])"

context cached_tree begin

text \<open>The active subtree of the bottom after a rebuild for \<open>q\<close> that gave up before its first leaf.\<close>

definition abandoned :: "nat \<Rightarrow> ('w, 'm) lms_tree_ctx_t \<Rightarrow> ('w, 'm) lms_tree_ctx_t" where
  "abandoned q c = set_sub 0 Active ((get_sub 0 Active c)\<lparr>sub_level := ht 0, sub_levels_below := 0, sub_tree_height := h,
     sub_left_leaf := q div 2 ^ lv 0 * 2 ^ lv 0, sub_current_index := 0\<rparr>) c"

lemma rebuild_fails:
  assumes c: "ctx_ok (t_ctx st)" and lf: "ctx_leaf_fn (t_ctx st) = None"
    and f: "ots_pub_of (t_ctx st) priv (word_of_nat (q div 2 ^ lv 0 * 2 ^ lv 0)) (t_lib st) = (Inl e, l)"
  shows "subtree_build_at priv (ots_pub_of (t_ctx st)) 0 Active (q div 2 ^ lv 0 * 2 ^ lv 0) st =
    (Inl LMS_ERR_INVALID, st\<lparr>t_lib := l, t_ctx := abandoned q (t_ctx st)\<rparr>)"
proof -
  have 0: "0 < length (levels_of (t_ctx st))" "0 < L" using ctx_okD(6) [OF c] sizes(2) by simp_all
  have ht: "sub_height (get_sub 0 Active (t_ctx st)) = ht 0" using ctx_okD(15) [OF c sizes(2)] by (simp add: sub_shape_def)
  have up: "[0..<2 ^ ht 0] = 0 # [1..<2 ^ ht 0]" by (simp add: upt_conv_Cons)
  show ?thesis
    using f lf 0(1) ctx_okD(1) [OF c]
    by (simp add: subtree_build_bottom_def op_defs on_sub_def update_sub_def subtree_reset_to_def get_set_sub ht up
        subtree_push_leaf_def subtree_compute_leaf_def on_lib_def or_fail_def abandoned_def)
qed

lemma backend_fails:
  assumes c: "ctx_ok (t_ctx st)" "cached 0 (t_ctx st)" and lf: "ctx_leaf_fn (t_ctx st) = None" and L: "1 < L"
    and q: "2 ^ lv 0 \<le> unat q" "unat q < 2 ^ h"
    and f: "ots_pub_of (t_ctx st) priv (word_of_nat (unat q div 2 ^ lv 0 * 2 ^ lv 0)) (t_lib st) = (Inl e, l)"
  shows "lms_subtree_auth_path_backend priv q st = (Inl LMS_ERR_INVALID, st\<lparr>t_lib := l, t_ctx := abandoned (unat q) (t_ctx st)\<rparr>)"
proof -
  have "psub 0 0 (2 ^ ht 0) (get_sub 0 Active (t_ctx st))" using c(2) sizes(2) by (simp add: cached_def)
  from psub_segment [OF this] have seg: "subtree_leaf_lo (get_sub 0 Active (t_ctx st)) = 0 * 2 ^ lv 0"
    "subtree_leaf_span (get_sub 0 Active (t_ctx st)) = 2 ^ lv 0" by simp_all
  have miss: "unat q div 2 ^ lv 0 \<noteq> 0" using q(1) by (simp add: div_greater_zero_iff)
  note hit = segment_hit [OF seg q(2) sizes(2), simplified]
  have "advance_level priv (ots_pub_of (t_ctx st)) q 0 st = (Inl LMS_ERR_INVALID, st\<lparr>t_lib := l, t_ctx := abandoned (unat q) (t_ctx st)\<rparr>)"
    unfolding advance_level_def using rebuild_fails [OF c(1) lf f] miss hit seg(2) by (simp add: op_defs or_fail_def Let_def del: subtree_build_at.simps)
  moreover have "[0..<L - 1] = 0 # [1..<L - 1]" using L by (simp add: upt_conv_Cons)
  ultimately have "for_each (advance_level priv (ots_pub_of (t_ctx st)) q) [0..<L - 1] st = (Inl LMS_ERR_INVALID, st\<lparr>t_lib := l, t_ctx := abandoned (unat q) (t_ctx st)\<rparr>)"
    by (simp add: bind_def)
  then show ?thesis
    using ctx_okD(1,4,5,7) [OF c(1)] q(2)
    by (auto simp: lms_subtree_auth_path_backend_def lms_tree_sign_advance_def op_defs or_fail_def)
qed

text \<open>The next call takes the abandoned subtree for the one around \<open>q\<close>.\<close>

lemma abandoned_hit:
  assumes c: "ctx_ok c" "cached 0 c" and q: "unat (q :: u32) < 2 ^ h" "unat q < 2 ^ lv 1" and s: "s < L - 1"
  shows "(unat q + (2 ^ 64 - subtree_leaf_lo (get_sub s Active (abandoned (unat q) c)) mod 2 ^ 64)) mod 2 ^ 64
    < subtree_leaf_span (get_sub s Active (abandoned (unat q) c))"
proof (cases "s = 0")
  case True
  have l0: "lv 0 = ht 0" by (simp add: level_top_def)
  have sh: "sub_shape h j L 0 (get_sub 0 Active c)" using ctx_okD(15) [OF c(1) sizes(2)] .
  have "unat q div 2 ^ lv 0 < 2 ^ (h - lv 0)" using q(1) ht_bounds(2) [OF sizes(2)] by (intro less_mult_imp_div_less) (simp add: power_add [symmetric])
  moreover have "subtree_leaf_lo (get_sub 0 Active (abandoned (unat q) c)) = unat q div 2 ^ lv 0 * 2 ^ lv 0"
    "subtree_leaf_span (get_sub 0 Active (abandoned (unat q) c)) = 2 ^ lv 0"
    using sh ctx_okD(6) [OF c(1)] sizes(2)
    by (simp_all add: abandoned_def get_set_sub subtree_leaf_lo_def subtree_leaf_span_def push_bit_eq_mult drop_bit_eq_div sub_shape_def l0)
  ultimately show ?thesis using segment_hit [OF _ _ q(1) sizes(2)] True by blast
next
  case False
  then have s': "s < L" "1 \<le> s" using s by simp_all
  have same: "get_sub s Active (abandoned (unat q) c) = get_sub s Active c" using False ctx_okD(6) [OF c(1)] sizes(2) by (simp add: abandoned_def get_set_sub)
  have "psub s 0 (2 ^ ht s) (get_sub s Active c)" using c(2) s'(1) by (simp add: cached_def)
  from psub_segment [OF this] have seg: "subtree_leaf_lo (get_sub s Active c) = 0 * 2 ^ lv s" "subtree_leaf_span (get_sub s Active c) = 2 ^ lv s" by simp_all
  have "lv 1 \<le> lv s" by (rule lv_mono [OF s'(2,1)])
  then have "(2 :: nat) ^ lv 1 \<le> 2 ^ lv s" by (rule power_increasing) simp
  then have "unat q div 2 ^ lv s = 0" using q(2) by (intro div_less) linarith
  then show ?thesis unfolding same using segment_hit [OF seg q(1) s'(1)] by simp
qed

lemma abandoned_path:
  assumes c: "ctx_ok c" "cached 0 c" and L: "1 < L" and q: "unat (q :: u32) < 2 ^ h" "unat q < 2 ^ lv 1"
  shows "lms_tree_sign_auth_path (abandoned (unat q) c) q = Inr (concat (mixed_path a b priv (lv 0) (unat q)))"
proof -
  let ?c = "abandoned (unat q) c" and ?q = "unat q" and ?r = "unat q mod 2 ^ lv 0"
  have l0: "lv 0 = ht 0" by (simp add: level_top_def)
  have len: "length (levels_of c) = L" using ctx_okD(6) [OF c(1)] .
  have sub: "psub s 0 (2 ^ ht s) (get_sub s Active c)" if "s < L" for s using c(2) that by (simp add: cached_def)
  have r: "?r < 2 ^ h" "?r div 2 ^ lv 0 = 0" using q(1) by (simp_all add: order.strict_trans1 [OF mod_less_eq_dividend])
  have bottom: "level_siblings (sub_height (get_sub 0 Active c)) (slots (sub_nodes (get_sub 0 Active c))) (2 ^ ht 0 + (?q AND (2 ^ ht 0 - 1)))
      = map (\<lambda>i. V (sibling ((2 ^ h + ?r) div 2 ^ i))) [0..<lv 0]"
  proof -
    have "(x :: nat) AND (2 ^ ht 0 - 1) = x mod 2 ^ ht 0" for x
      by (simp add: take_bit_eq_mod [symmetric] take_bit_eq_mask mask_eq_exp_minus_1)
    then have "?q AND (2 ^ ht 0 - 1) = ?r div 2 ^ (0 * j) AND (2 ^ ht 0 - 1)" by (simp add: l0)
    then show ?thesis using level_path [of 0 ?r c, OF _ r(1) sizes(2)] sub [OF sizes(2)] r(2) by (simp only: mult_0)
  qed
  have up: "?q div 2 ^ lv s = 0" if "1 \<le> s" "s < L" for s
    by (rule div_less) (rule less_le_trans [OF q(2) power_increasing [OF lv_mono [OF that]]], simp)
  have lv0: "lv 0 = 1 * j" using ht_bounds(5) [OF sizes(2)] L by simp
  have rest: "join_levels (drop 1 (levels_of c)) (drop_bit (ht 0) ?q) = map (\<lambda>i. V (sibling ((2 ^ h + ?q) div 2 ^ i))) [lv 0..<h]"
    using join_levels_path [OF c(1) q(1), of 1] sub up L lv0 l0 by (simp add: drop_bit_eq_div)
  have levels: "levels_of ?c = put_sub Active (get_sub 0 Active ?c) (levels_of c ! 0) # drop 1 (levels_of c)"
    using len sizes(2) by (cases "levels_of c") (simp_all add: abandoned_def set_sub_def get_sub_def)
  have "get_sub 0 Active ?c = (get_sub 0 Active c)\<lparr>sub_level := ht 0, sub_levels_below := 0, sub_tree_height := h,
     sub_left_leaf := ?q div 2 ^ lv 0 * 2 ^ lv 0, sub_current_index := 0\<rparr>" using len sizes(2) by (simp add: abandoned_def get_set_sub)
  moreover have "sub_height (get_sub 0 Active c) = ht 0" using ctx_okD(15) [OF c(1) sizes(2)] by (simp add: sub_shape_def)
  ultimately have "join_levels (levels_of ?c) ?q = mixed_path a b priv (lv 0) ?q"
    unfolding levels join_levels.simps Let_def mixed_path_def using bottom rest by simp
  moreover have "ctx_levels ?c \<noteq> None" "ctx_sublevels ?c = L" "ctx_height ?c = h" "length (levels_of ?c) = L"
    using ctx_okD(1,4,5) [OF c(1)] len by (auto simp: abandoned_def)
  ultimately show ?thesis using q(1) L by (simp add: lms_tree_sign_auth_path_def lms_tree_auth_path_def)
qed

lemma backend_stale:
  assumes c: "ctx_ok c" "cached 0 c" and L: "1 < L" and q: "unat q < 2 ^ h" "unat q < 2 ^ lv 1" and st: "t_ctx st = abandoned (unat q) c"
  shows "lms_subtree_auth_path_backend priv q st = (Inr (concat (mixed_path a b priv (lv 0) (unat q))), st)"
proof -
  have "advance_level priv (ots_pub_of (t_ctx st)) q s st = (Inr (), st)" if "s \<in> set [0..<L - 1]" for s
    using abandoned_hit [OF c q, of s] that st by (simp add: advance_level_def op_defs Let_def)
  from for_each_still [of "[0..<L - 1]" "advance_level priv (ots_pub_of (t_ctx st)) q" st, OF this]
  obtain us where "for_each (advance_level priv (ots_pub_of (t_ctx st)) q) [0..<L - 1] st = (Inr us, st)" by (metis imageE prod.collapse)
  then show ?thesis
    using abandoned_path [OF c L q] ctx_okD(1,4,5,7) [OF c(1)] q(1) st
    by (auto simp: lms_subtree_auth_path_backend_def lms_tree_sign_advance_def op_defs or_fail_def abandoned_def)
qed

end

section \<open>Properties\<close>


text \<open>A source of leaf public keys that is down while the flag of the world is set.\<close>

definition flaky_source :: "bool ots_pub_fn" where
  "flaky_source priv q s = (if world s then (Inl LMS_ERR_INVALID, s) else lmots_public_from_private priv q s)"

definition flaky_lib :: "bool \<Rightarrow> bool lms_lib" where
  "flaky_lib down = \<lparr>s_lms_cache = None, s_lmots_cache = None, haraka_initialized = False,
     tweaked512_rc64 = [], malloc_limit = 0, stack_tail = [0, 0], chain_stats = \<lparr>st_calls = 0, st_steps = 0\<rparr>,
     keygen_chain_backend = None, verify_chain_backend = None, sign_chain_backend = None,
     keygen_derive_backend = None, keygen_backend = None, sign_backend = None,
     verify_backend = None, verify_leaf_backend = None, sign_derive_backend = None,
     sign_randomizer_backend = None, intr_backend = None, message_hash_backend = None,
     coef_backend = None, auth_path_backend = None, verify_authpath_backend = None, world = down\<rparr>"

definition flaky_env :: "bool \<Rightarrow> bool lms_env" where
  "flaky_env fl = \<lparr>env_fails = fl, env_world = (\<lambda>down. fl \<or> \<not> down), env_seed = priv_seed test_priv, env_heap = 0, env_coef = False,
     env_serves = (\<lambda>_. True)\<rparr>"

lemma flaky_conforming: "tree_conforming (flaky_env fl) (flaky_lib False)"
  by (simp add: tree_conforming_def ots_conforming_def ots_backends_conform_def plain_state_def statics_ok_def haraka_ok_def flaky_lib_def flaky_env_def)

lemma flaky_gives:
  "gives fl (tree_conforming (flaky_env fl)) (flaky_source test_priv q)
     (Inr (ots_pub (op_hash_alg test_ots_param) test_ots_param (priv_I test_priv) (priv_seed test_priv) q))"
proof -
  have g: "gives fl (tree_conforming (flaky_env fl)) (lmots_public_from_private test_priv q)
      (Inr (ots_pub (op_hash_alg test_ots_param) test_ots_param (priv_I test_priv) (priv_seed test_priv) q))"
    using tree.gives_public_from_private [OF test_priv_facts(3) test_I16, of "flaky_env fl" q] by (simp add: flaky_env_def)
  have "world s \<Longrightarrow> tree_conforming (flaky_env fl) s \<Longrightarrow> fl" for s
    by (auto simp: tree_conforming_def ots_conforming_def flaky_env_def)
  then show ?thesis using g by (auto simp: gives_def yields_def flaky_source_def)
qed


end
