(* ===== verification/Sec_State.thy ===== *)
theory Sec_State
  imports Lms_Mmio
begin

text \<open>
  \<open>fw/lms_sec_state.c\<close>, the security state domain of the firmware: the record of the signing
  counter in two authenticated slots, the commit primitive, factory initialisation, recovery at
  boot with the conservative burn, key generation, the reserve/sign/commit sequence of
  \<open>sec_sign\<close> and the dispatcher of the UART commands.

  The C file keeps its state in static variables: here the fields of \<open>sec_state_t\<close>. The build
  flag \<open>LMS_FW_SEC_TEST_MODE\<close> is the field \<open>test_mode\<close>; the random source \<open>lms_rnd\<close> and the
  fault flag of the TRNG build are fields as well. Buffers that the code clears after use
  (\<open>k_dev\<close>, \<open>puf_resp\<close>, seeds) are local values, their clearing is not visible. The cycle
  stamps of \<open>LMS_MMIO_SOC_PROFILE\<close> are left out.
\<close>

section \<open>State\<close>

text \<open>Response codes of \<open>lms_sec_state.h\<close>, with their numeric values.\<close>

datatype sec_rc =
    SEC_OK | SEC_RSP_BUSY | SEC_ERR_LOCKED | SEC_ERR_COMMIT | SEC_ERR_AUTH | SEC_ERR_PATH
  | SEC_ERR_EXHAUSTED | SEC_ERR_PARAM | SEC_ERR_FACTORY_LOCKED | SEC_ERR_UNSUPPORTED

primrec sec_rc_code :: "sec_rc \<Rightarrow> u8" where
  "sec_rc_code SEC_OK = 0"
| "sec_rc_code SEC_RSP_BUSY = 1"
| "sec_rc_code SEC_ERR_LOCKED = 2"
| "sec_rc_code SEC_ERR_COMMIT = 3"
| "sec_rc_code SEC_ERR_AUTH = 4"
| "sec_rc_code SEC_ERR_PATH = 5"
| "sec_rc_code SEC_ERR_EXHAUSTED = 6"
| "sec_rc_code SEC_ERR_PARAM = 7"
| "sec_rc_code SEC_ERR_FACTORY_LOCKED = 8"
| "sec_rc_code SEC_ERR_UNSUPPORTED = 9"

abbreviation (input) SEC_ST_ERROR_LOCKED :: u16 where "SEC_ST_ERROR_LOCKED \<equiv> 0"
abbreviation (input) SEC_ST_IDLE :: u16 where "SEC_ST_IDLE \<equiv> 1"
abbreviation (input) SEC_ST_RESERVED :: u16 where "SEC_ST_RESERVED \<equiv> 2"
abbreviation (input) SEC_ST_KEYGEN_PENDING :: u16 where "SEC_ST_KEYGEN_PENDING \<equiv> 3"
abbreviation (input) SEC_ST_EXHAUSTED :: u16 where "SEC_ST_EXHAUSTED \<equiv> 4"
abbreviation (input) SEC_ST_BOOTING :: u16 where "SEC_ST_BOOTING \<equiv> 5"

definition SEC_MAGIC_STATE :: u32 where "SEC_MAGIC_STATE = 0x4c4d5353"
definition SEC_STATE_REC_LEN :: nat where "SEC_STATE_REC_LEN = 64"
definition SEC_STATE_TAG_LEN :: nat where "SEC_STATE_TAG_LEN = 16"
definition SEC_BODY_LEN :: nat where "SEC_BODY_LEN = 48"

record 'h sec_state_t =
  sec_client :: "'h lms_mmio_client_t"
  sec_slots :: "bytes list"
  sec_slot_valid :: "bool list"
  sec_active_slot :: nat
  sec_state :: u16
  sec_ctr :: u32
  sec_last_tx :: u32
  sec_factory_locked :: bool
  sec_key_loaded :: bool
  sec_keygen_pending :: bool
  sec_helper :: bytes
  sec_boot_valid :: "bool list"
  sec_wrapped_blob :: bytes
  sec_wrapped_valid :: bool
  sec_key_I :: bytes
  sec_key_index :: u32
  sec_rec_diag :: "u8 list"
  test_mode :: bool
  lms_rnd :: "nat \<Rightarrow> 'h \<Rightarrow> bytes \<times> 'h"
  trng_fault :: "'h \<Rightarrow> bool"

type_synonym ('h, 'a) sop = "'h sec_state_t \<Rightarrow> 'a \<times> 'h sec_state_t"

definition on_mmio :: "('h, 'a) mop \<Rightarrow> ('h, lms_mmio_status_t + 'a) sop" where
  "on_mmio m s = (case m (sec_client s) of (r, c) \<Rightarrow> (r, s\<lparr>sec_client := c\<rparr>))"

section \<open>Records\<close>

text \<open>\<open>put_be32\<close>, \<open>put_be16\<close>, \<open>get_be32\<close> and \<open>get_be16\<close> are the byte order helpers.\<close>

definition put_be32 :: "u32 \<Rightarrow> bytes" where
  "put_be32 v = [ucast (drop_bit 24 v), ucast (drop_bit 16 v), ucast (drop_bit 8 v), ucast v]"

definition put_be16 :: "u16 \<Rightarrow> bytes" where
  "put_be16 v = [ucast (drop_bit 8 v), ucast v]"

definition get_be32 :: "bytes \<Rightarrow> u32" where
  "get_be32 p = push_bit 24 (ucast (p ! 0)) OR push_bit 16 (ucast (p ! 1)) OR push_bit 8 (ucast (p ! 2)) OR ucast (p ! 3)"

definition get_be16 :: "bytes \<Rightarrow> u16" where
  "get_be16 p = push_bit 8 (ucast (p ! 0)) OR ucast (p ! 1)"

definition encode_body :: "u16 \<Rightarrow> u32 \<Rightarrow> u32 \<Rightarrow> bytes" where
  "encode_body state ctr tx_id =
     put_be32 SEC_MAGIC_STATE @ put_be16 state @ put_be32 ctr @ put_be32 tx_id @ replicate 34 0"

definition build_aad :: "nat \<Rightarrow> bytes" where
  "build_aad slot_id = [word_of_nat slot_id]"

definition compute_tag :: "bytes \<Rightarrow> nat \<Rightarrow> ('h, lms_mmio_status_t + bytes) sop" where
  "compute_tag body slot_id s =
     (case on_mmio (lms_mmio_hmac_kstate (take SEC_BODY_LEN body @ build_aad slot_id)) s of
        (Inl e, s) \<Rightarrow> (Inl e, s)
      | (Inr full, s) \<Rightarrow> (Inr (take SEC_STATE_TAG_LEN full), s))"

definition set_diag :: "nat \<Rightarrow> u8 \<Rightarrow> 'h sec_state_t \<Rightarrow> 'h sec_state_t" where
  "set_diag slot d s = s\<lparr>sec_rec_diag := (sec_rec_diag s)[slot := d]\<rparr>"

definition rec_valid :: "bytes \<Rightarrow> nat \<Rightarrow> ('h, bool) sop" where
  "rec_valid rec slot_id s =
     (if get_be32 rec \<noteq> SEC_MAGIC_STATE then (False, set_diag slot_id 1 s)
      else case compute_tag rec slot_id (set_diag slot_id 0 s) of
        (Inl _, s) \<Rightarrow> (False, set_diag slot_id 3 s)
      | (Inr tag, s) \<Rightarrow>
          if tag \<noteq> segment SEC_BODY_LEN SEC_STATE_TAG_LEN rec then (False, set_diag slot_id 4 s) else (True, s))"

definition rec_valid_check :: "bytes \<Rightarrow> nat \<Rightarrow> bytes \<Rightarrow> ('h, bool) sop" where
  "rec_valid_check rec slot_id expected_tag s =
     (if get_be32 rec \<noteq> SEC_MAGIC_STATE then (False, set_diag slot_id 1 s)
      else if segment SEC_BODY_LEN SEC_STATE_TAG_LEN rec \<noteq> expected_tag then (False, set_diag slot_id 4 s)
      else (True, set_diag slot_id 0 s))"

definition slots_all_zero :: "'h sec_state_t \<Rightarrow> bool" where
  "slots_all_zero s \<longleftrightarrow> (\<forall>index \<in> {0..<2}. \<forall>k \<in> {0..<SEC_STATE_REC_LEN}. sec_slots s ! index ! k = 0)"

section \<open>Key hierarchy\<close>

definition sim_puf_read :: bytes where
  "sim_puf_read = map (\<lambda>index. word_of_nat (0x60 + index)) [0..<32]"

definition ascii :: "string \<Rightarrow> bytes" where
  "ascii t = map (\<lambda>c. word_of_nat (of_char c)) t"

definition fe_gen :: "bytes \<Rightarrow> u8 \<Rightarrow> bytes \<times> bytes" where
  "fe_gen puf_resp ctx =
     (let h = SHA256_Init sha256_ctx_uninit;
          h = SHA256_Update h (ascii ''LMS-FE'');
          h = SHA256_Update h puf_resp;
          h = SHA256_Update h [ctx]
      in (map (\<lambda>index. word_of_nat (0xa0 + index)) [0..<32], SHA256_Final h))"

definition fe_rep :: "bytes \<Rightarrow> bytes \<Rightarrow> u8 \<Rightarrow> bytes" where
  "fe_rep puf_resp helper ctx = snd (fe_gen puf_resp ctx)"

definition sec_kdf :: "bytes \<Rightarrow> bytes \<Rightarrow> bytes \<Rightarrow> bytes" where
  "sec_kdf k_dev I label =
     (let h = SHA256_Init sha256_ctx_uninit;
          h = SHA256_Update h (ascii ''LMS-KDF'');
          h = SHA256_Update h [0];
          h = SHA256_Update h label;
          h = SHA256_Update h [0];
          h = SHA256_Update h I;
          h = SHA256_Update h [0];
          h = SHA256_Update h k_dev
      in SHA256_Final h)"

definition sec_load_hw_keys_i :: "bytes \<Rightarrow> bytes \<Rightarrow> ('h, lms_mmio_status_t + unit) sop" where
  "sec_load_hw_keys_i k_dev I s =
     (let k_wrap = sec_kdf k_dev I (ascii ''wrap'');
          k_state = sec_kdf k_dev I (ascii ''state'')
      in case on_mmio (lms_mmio_key_slot_load_test KEY_KWRAP k_wrap) s of
           (Inl e, s) \<Rightarrow> (Inl e, s)
         | (Inr _, s) \<Rightarrow> on_mmio (lms_mmio_key_slot_load_test KEY_KSTATE k_state) s)"

section \<open>Key generation\<close>

definition rnd_bytes :: "nat \<Rightarrow> ('h, bytes) sop" where
  "rnd_bytes n s = (case lms_rnd s n (hw (sec_client s)) of (b, h) \<Rightarrow> (b, s\<lparr>sec_client := (sec_client s)\<lparr>hw := h\<rparr>\<rparr>))"

text \<open>The steps \<open>sec_keygen_key\<close> and \<open>sec_keygen_new\<close> share: load the derived keys for the current
  \<open>I\<close> and wrap the seed slot.\<close>

definition load_and_wrap :: "('h, bytes option) sop" where
  "load_and_wrap s =
     (let k_dev = fe_rep sim_puf_read (sec_helper s) 0
      in case sec_load_hw_keys_i k_dev (sec_key_I s) s of
           (Inl _, s) \<Rightarrow> (None, s)
         | (Inr _, s) \<Rightarrow> (case on_mmio lms_mmio_wrap_seed s of
             (Inl _, s) \<Rightarrow> (None, s)
           | (Inr wrapped, s) \<Rightarrow> (Some wrapped, s\<lparr>sec_wrapped_blob := wrapped, sec_wrapped_valid := True\<rparr>)))"

definition sec_keygen_key :: "('h, sec_rc \<times> bytes) sop" where
  "sec_keygen_key s =
     (let (I, s) = (if test_mode s then (sec_key_I s, s)
                    else case rnd_bytes LMS_I_LEN s of (I, s) \<Rightarrow> (I, s\<lparr>sec_key_I := I\<rparr>))
      in case load_and_wrap s of
           (None, s) \<Rightarrow> ((SEC_ERR_AUTH, I), s)
         | (Some _, s) \<Rightarrow> ((SEC_OK, I), s\<lparr>sec_key_loaded := True\<rparr>))"

text \<open>The deploy branch of \<open>sec_keygen_new\<close>: new \<open>I\<close> and seed from the device's random source,
  refused when its health check fails. The result says whether to go on, and what \<open>I_new\<close> holds.\<close>

definition draw_new_key :: "bytes \<Rightarrow> ('h, bool \<times> bytes) sop" where
  "draw_new_key I_new s =
     (case rnd_bytes LMS_I_LEN s of (I, s) \<Rightarrow>
      case rnd_bytes LMS_SEED_LEN (s\<lparr>sec_key_I := I\<rparr>) of (new_seed, s) \<Rightarrow>
      if trng_fault s (hw (sec_client s)) then ((False, I_new), s\<lparr>sec_key_I := replicate 16 0\<rparr>)
      else case on_mmio (lms_mmio_seed_load_safe new_seed) s of
        (Inl _, s) \<Rightarrow> ((False, I), s\<lparr>sec_key_I := replicate 16 0\<rparr>)
      | (Inr _, s) \<Rightarrow> ((True, I), s))"

definition sec_keygen_new :: "bytes \<Rightarrow> ('h, sec_rc \<times> bytes) sop" where
  "sec_keygen_new I_new s =
     (case (if test_mode s then ((True, I_new), s\<lparr>sec_key_I := I_new\<rparr>) else draw_new_key I_new s) of
        ((False, I), s) \<Rightarrow> ((SEC_ERR_AUTH, I), s)
      | ((True, I), s) \<Rightarrow> (case load_and_wrap s of
          (None, s) \<Rightarrow> ((SEC_ERR_AUTH, I), s)
        | (Some _, s) \<Rightarrow> ((SEC_OK, I),
            s\<lparr>sec_slots := [replicate 64 0, replicate 64 0], sec_slot_valid := [False, False], sec_active_slot := 0,
              sec_state := SEC_ST_IDLE, sec_ctr := 0, sec_last_tx := 0, sec_key_loaded := True,
              sec_factory_locked := True, sec_keygen_pending := False, sec_key_index := sec_key_index s + 1\<rparr>)))"

definition sec_init :: "'h lms_mmio_client_t \<Rightarrow> 'h sec_state_t \<Rightarrow> 'h sec_state_t" where
  "sec_init client s =
     s\<lparr>sec_client := client, sec_slots := [replicate 64 0, replicate 64 0], sec_slot_valid := [False, False],
       sec_active_slot := 0, sec_state := SEC_ST_BOOTING, sec_ctr := 0, sec_last_tx := 0, sec_factory_locked := False,
       sec_key_loaded := False, sec_keygen_pending := False, sec_helper := replicate 32 0, sec_key_index := 0\<rparr>"

section \<open>Commit\<close>

definition commit_finish :: "nat \<Rightarrow> u16 \<Rightarrow> u32 \<Rightarrow> u32 \<Rightarrow> bytes \<Rightarrow> ('h, bool) sop" where
  "commit_finish inactive new_state ctr tx tag s =
     (if tx \<le> sec_last_tx s then (False, s)
      else let s = s\<lparr>sec_slots := (sec_slots s)[inactive := encode_body new_state ctr tx @ tag]\<rparr>
           in case rec_valid_check (sec_slots s ! inactive) inactive tag s of
                (False, s) \<Rightarrow> (False, s\<lparr>sec_slot_valid := (sec_slot_valid s)[inactive := False]\<rparr>)
              | (True, s) \<Rightarrow> (True, s\<lparr>sec_slot_valid := (sec_slot_valid s)[inactive := True], sec_active_slot := inactive,
                                  sec_last_tx := tx, sec_state := new_state, sec_ctr := ctr\<rparr>))"

definition state_commit :: "u16 \<Rightarrow> u32 \<Rightarrow> ('h, bool) sop" where
  "state_commit new_state ctr s =
     (let inactive = 1 - sec_active_slot s
      in if capabilities (sec_client s) AND CAP_STATE_COMMIT \<noteq> 0
         then case on_mmio (lms_mmio_state_commit new_state ctr (word_of_nat inactive)) s of
                (Inl _, s) \<Rightarrow> (False, s)
              | (Inr (tx, tag), s) \<Rightarrow> commit_finish inactive new_state ctr tx tag s
         else case on_mmio lms_mmio_mc_step s of
                (Inl _, s) \<Rightarrow> (False, s)
              | (Inr tx, s) \<Rightarrow>
                  if tx \<le> sec_last_tx s then (False, s)
                  else case compute_tag (encode_body new_state ctr tx) inactive s of
                         (Inl _, s) \<Rightarrow> (False, s\<lparr>sec_slot_valid := (sec_slot_valid s)[inactive := False]\<rparr>)
                       | (Inr tag, s) \<Rightarrow> commit_finish inactive new_state ctr tx tag s)"

section \<open>Factory initialisation and boot\<close>

text \<open>The response loop writes \<open>response[28 + index]\<close> for \<open>index < 8\<close>: the indices from 32 on are
  outside the 32-byte buffer; the updates of the list ignore them.\<close>

definition sec_factory_init :: "bytes \<Rightarrow> bytes \<Rightarrow> ('h, sec_rc \<times> bytes) sop" where
  "sec_factory_init I response s =
     (if \<not> test_mode s then ((SEC_ERR_UNSUPPORTED, response[2 := sec_rc_code SEC_ERR_UNSUPPORTED]), s)
      else if sec_factory_locked s then ((SEC_ERR_FACTORY_LOCKED, response), s)
      else let (helper, k_dev) = fe_gen sim_puf_read 0;
               s = s\<lparr>sec_helper := helper, sec_key_I := I\<rparr>
        in case sec_load_hw_keys_i k_dev I s of
             (Inl _, s) \<Rightarrow> ((SEC_ERR_AUTH, response), s)
           | (Inr _, s) \<Rightarrow> (case on_mmio (lms_mmio_seed_load_test 0 (map word_of_nat [0..<32])) s of
               (Inl _, s) \<Rightarrow> ((SEC_ERR_AUTH, response), s)
             | (Inr _, s) \<Rightarrow> (case on_mmio lms_mmio_wrap_seed s of
                 (Inl _, s) \<Rightarrow> ((SEC_ERR_AUTH, response), s)
               | (Inr wrapped, s) \<Rightarrow>
                   ((SEC_OK,
                     fold (\<lambda>index r. r[20 + index := sec_helper s ! index, 28 + index := (if index < 4 then wrapped ! index else 0)])
                       [0..<8] (response[4 := 0x46])),
                    s\<lparr>sec_wrapped_blob := wrapped, sec_wrapped_valid := True, sec_factory_locked := True,
                      sec_keygen_pending := False\<rparr>))))"

text \<open>Slot selection of \<open>sec_boot\<close>: both valid with the same transaction number must agree in
  their bodies (\<open>None\<close>: they do not), otherwise the larger transaction number wins, otherwise the
  valid one.\<close>

definition choose_slot :: "bool \<Rightarrow> bool \<Rightarrow> bytes list \<Rightarrow> (nat option) option" where
  "choose_slot valid0 valid1 slots =
     (let tx0 = get_be32 (drop 10 (slots ! 0)); tx1 = get_be32 (drop 10 (slots ! 1))
      in if valid0 \<and> valid1
         then if tx0 = tx1
              then if take SEC_BODY_LEN (slots ! 0) \<noteq> take SEC_BODY_LEN (slots ! 1) then None else Some (Some 0)
              else Some (Some (if tx0 > tx1 then 0 else 1))
         else if valid0 then Some (Some 0)
         else if valid1 then Some (Some 1)
         else Some None)"

definition boot_lock :: "'h sec_state_t \<Rightarrow> 'h sec_state_t" where
  "boot_lock s = s\<lparr>sec_state := SEC_ST_ERROR_LOCKED\<rparr>"

text \<open>The final statement of \<open>sec_boot\<close>, reached on every path that does not return early.\<close>

definition boot_done :: "'h sec_state_t \<Rightarrow> 'h sec_state_t" where
  "boot_done s = (if sec_state s \<noteq> SEC_ST_ERROR_LOCKED \<and> sec_state s \<noteq> SEC_ST_BOOTING then s\<lparr>sec_factory_locked := True\<rparr> else s)"

definition boot_no_slot :: "'h sec_state_t \<Rightarrow> 'h sec_state_t" where
  "boot_no_slot s =
     (if sec_factory_locked s
      then if slots_all_zero s then boot_done (s\<lparr>sec_state := SEC_ST_IDLE, sec_ctr := 0\<rparr>) else boot_lock s
      else s)"

definition boot_slot :: "nat \<Rightarrow> bool list \<Rightarrow> 'h sec_state_t \<Rightarrow> 'h sec_state_t" where
  "boot_slot chosen valid s =
     (let rec = sec_slots s ! chosen;
          rec_state = get_be16 (drop 4 rec);
          rec_ctr = get_be32 (drop 6 rec);
          s = s\<lparr>sec_active_slot := chosen, sec_slot_valid := valid, sec_last_tx := get_be32 (drop 10 rec)\<rparr>
      in if rec_state = SEC_ST_RESERVED
         then case state_commit SEC_ST_IDLE (rec_ctr + 1) s of
                (False, s) \<Rightarrow> boot_lock s
              | (True, s) \<Rightarrow> boot_done s
         else if rec_state = SEC_ST_KEYGEN_PENDING
         then boot_done (s\<lparr>sec_keygen_pending := True, sec_state := SEC_ST_KEYGEN_PENDING, sec_ctr := rec_ctr\<rparr>)
         else if rec_state = SEC_ST_IDLE \<or> rec_state = SEC_ST_EXHAUSTED
         then boot_done (s\<lparr>sec_state := rec_state, sec_ctr := rec_ctr\<rparr>)
         else boot_lock s)"

text \<open>In the deploy build the seed is unwrapped first.\<close>

definition boot_unwrap :: "('h, bool) sop" where
  "boot_unwrap s =
     (if test_mode s \<or> \<not> sec_wrapped_valid s then (True, s)
      else case on_mmio (lms_mmio_unwrap_seed (sec_wrapped_blob s)) s of
        (Inl _, s) \<Rightarrow> (False, s\<lparr>sec_factory_locked := True\<rparr>)
      | (Inr _, s) \<Rightarrow> (True, s\<lparr>sec_factory_locked := True\<rparr>))"

definition boot_records :: "'h sec_state_t \<Rightarrow> 'h sec_state_t" where
  "boot_records s =
     (case rec_valid (sec_slots s ! 0) 0 s of (valid0, s) \<Rightarrow>
      case rec_valid (sec_slots s ! 1) 1 s of (valid1, s) \<Rightarrow>
      let s = s\<lparr>sec_boot_valid := [valid0, valid1]\<rparr>
      in case choose_slot valid0 valid1 (sec_slots s) of
           None \<Rightarrow> boot_lock s
         | Some None \<Rightarrow> boot_no_slot s
         | Some (Some chosen) \<Rightarrow> boot_slot chosen [valid0, valid1] s)"

definition sec_boot :: "bytes \<Rightarrow> 'h sec_state_t \<Rightarrow> 'h sec_state_t" where
  "sec_boot I s =
     (let s = s\<lparr>sec_state := SEC_ST_BOOTING, sec_key_I := I\<rparr>
      in case sec_load_hw_keys_i (fe_rep sim_puf_read (sec_helper s) 0) I s of
           (Inl _, s) \<Rightarrow> boot_lock s
         | (Inr _, s) \<Rightarrow>
             (case boot_unwrap (s\<lparr>sec_key_loaded := True\<rparr>) of
                (False, s) \<Rightarrow> boot_lock s
              | (True, s) \<Rightarrow> boot_records s))"

definition sec_export_active :: "'h sec_state_t \<Rightarrow> bytes" where
  "sec_export_active s = sec_slots s ! sec_active_slot s"

section \<open>Signing\<close>

text \<open>\<open>do_sign\<close> is the callback that computes the signature on the device; it returns whether it
  succeeded. The result is the code and \<open>*q_out\<close>.\<close>

definition sec_sign :: "u32 \<Rightarrow> (u32 \<Rightarrow> 'h lms_mmio_client_t \<Rightarrow> bool \<times> 'h lms_mmio_client_t) option \<Rightarrow> ('h, sec_rc \<times> u32) sop" where
  "sec_sign max_ctr do_sign s =
     (if sec_state s = SEC_ST_ERROR_LOCKED then ((SEC_ERR_LOCKED, 0), s)
      else if sec_state s \<noteq> SEC_ST_IDLE then ((SEC_RSP_BUSY, 0), s)
      else if \<not> sec_key_loaded s then ((SEC_ERR_LOCKED, 0), s)
      else if max_ctr = 0 \<or> sec_ctr s \<ge> max_ctr then ((SEC_ERR_EXHAUSTED, 0), s\<lparr>sec_state := SEC_ST_EXHAUSTED\<rparr>)
      else let q = sec_ctr s
        in case state_commit SEC_ST_RESERVED q s of
             (False, s) \<Rightarrow> ((SEC_ERR_COMMIT, 0), snd (state_commit SEC_ST_IDLE (q + 1) s))
           | (True, s) \<Rightarrow>
               (let (signed, s) = (case do_sign of
                        None \<Rightarrow> (False, s)
                      | Some f \<Rightarrow> (case f q (sec_client s) of (ok, c) \<Rightarrow> (ok, s\<lparr>sec_client := c\<rparr>)))
                in if signed
                   then case state_commit SEC_ST_IDLE (q + 1) s of
                          (True, s) \<Rightarrow> ((SEC_OK, q), s)
                        | (False, s) \<Rightarrow> ((SEC_ERR_COMMIT, 0), snd (state_commit SEC_ST_IDLE (q + 1) s))
                   else ((SEC_ERR_PATH, 0), snd (state_commit SEC_ST_IDLE (q + 1) s))))"

section \<open>UART commands\<close>

definition sec_uart_commit_allowed :: "u16 \<Rightarrow> u32 \<Rightarrow> 'h sec_state_t \<Rightarrow> bool" where
  "sec_uart_commit_allowed new_state ctr s =
     (if sec_state s = SEC_ST_IDLE
      then (new_state = SEC_ST_RESERVED \<or> new_state = SEC_ST_KEYGEN_PENDING \<or> new_state = SEC_ST_IDLE
            \<or> new_state = SEC_ST_EXHAUSTED) \<and> ctr \<ge> sec_ctr s
      else if sec_state s = SEC_ST_RESERVED then new_state = SEC_ST_IDLE \<and> ctr > sec_ctr s
      else if sec_state s = SEC_ST_KEYGEN_PENDING then new_state = SEC_ST_IDLE \<and> ctr \<ge> sec_ctr s
      else False)"

definition valid_bits :: "'h sec_state_t \<Rightarrow> u8" where
  "valid_bits s = of_bool (sec_slot_valid s ! 0) OR push_bit 1 (of_bool (sec_slot_valid s ! 1))"

definition set_rc :: "sec_rc \<Rightarrow> bytes \<Rightarrow> bytes" where
  "set_rc rc r = r[2 := sec_rc_code rc]"

definition uart_commit :: "bytes \<Rightarrow> bytes \<Rightarrow> ('h, sec_rc \<times> bytes) sop" where
  "uart_commit params response s =
     (if sec_state s = SEC_ST_ERROR_LOCKED then ((SEC_ERR_LOCKED, set_rc SEC_ERR_LOCKED response), s)
      else if sec_state s = SEC_ST_BOOTING then ((SEC_RSP_BUSY, set_rc SEC_RSP_BUSY response), s)
      else let new_state = ucast (get_be32 params AND 0xffff) :: u16;
               ctr = get_be32 (drop 4 params)
        in if ctr < sec_ctr s \<or> \<not> sec_uart_commit_allowed new_state ctr s
           then ((SEC_ERR_COMMIT, set_rc SEC_ERR_COMMIT response), s)
           else case state_commit new_state ctr s of
                  (True, s) \<Rightarrow>
                    ((SEC_OK, (overwrite 12 (put_be32 (sec_ctr s)) (overwrite 8 (put_be32 (ucast (sec_state s)))
                        (overwrite 4 (put_be32 (sec_last_tx s)) response)))[3 := valid_bits s]), s)
                | (False, s) \<Rightarrow> ((SEC_ERR_COMMIT, (set_rc SEC_ERR_COMMIT response)[3 := valid_bits s]), s))"

definition uart_state :: "bytes \<Rightarrow> 'h sec_state_t \<Rightarrow> bytes" where
  "uart_state response s =
     (overwrite 12 (put_be32 (sec_last_tx s)) (overwrite 8 (put_be32 (sec_ctr s)) (overwrite 4 (put_be32 (ucast (sec_state s))) response)))
       [20 := of_bool (sec_factory_locked s), 21 := of_bool (sec_key_loaded s), 22 := of_bool (sec_keygen_pending s),
        23 := word_of_nat (sec_active_slot s)]"

definition uart_read_slot :: "nat \<Rightarrow> bytes \<Rightarrow> 'h sec_state_t \<Rightarrow> sec_rc \<times> bytes" where
  "uart_read_slot slot response s =
     (if slot > 1 \<or> \<not> sec_slot_valid s ! slot then (SEC_ERR_PARAM, set_rc SEC_ERR_PARAM response)
      else (SEC_OK, overwrite 4 (take 28 (sec_slots s ! slot)) response))"

definition sec_handle_uart_cmd :: "u8 \<Rightarrow> bytes \<Rightarrow> ('h, sec_rc \<times> bytes) sop" where
  "sec_handle_uart_cmd sub params s =
     (let response = (replicate 32 0)[0 := sub, 2 := sec_rc_code SEC_OK, 3 := valid_bits s];
          slot = unat (params ! 0)
      in if sub = 0x01 then uart_commit params response s
         else if sub = 0x02 then ((SEC_OK, overwrite 4 (take 28 (sec_slots s ! sec_active_slot s)) response), s)
         else if sub = 0x03 then (uart_read_slot slot response s, s)
         else if sub = 0x04 then
           (if test_mode s
            then ((SEC_OK, response), s\<lparr>sec_slots := (sec_slots s)[sec_active_slot s :=
                    (sec_slots s ! sec_active_slot s)[48 := sec_slots s ! sec_active_slot s ! 48 XOR 0xff]]\<rparr>)
            else ((SEC_ERR_UNSUPPORTED, set_rc SEC_ERR_UNSUPPORTED response), s))
         else if sub = 0x06 then
           (case sec_factory_init (take 16 params) response s of ((rc, response), s) \<Rightarrow> ((rc, set_rc rc response), s))
         else if sub = 0x05 then
           (let s = sec_boot (take 16 params) s
            in ((SEC_OK, (uart_state response s)
                 [24 := of_bool (sec_boot_valid s ! 0), 25 := of_bool (sec_boot_valid s ! 1),
                  26 := sec_rec_diag s ! 0, 27 := sec_rec_diag s ! 1]), s))
         else if sub = 0x07 then ((SEC_OK, uart_state response s), s)
         else if sub = 0x08 then
           (if slot > 1 then ((SEC_ERR_PARAM, set_rc SEC_ERR_PARAM response), s)
            else let s = s\<lparr>sec_slots := (sec_slots s)[slot := segment 1 SEC_STATE_REC_LEN params],
                           sec_slot_valid := (sec_slot_valid s)[slot := True]\<rparr>
                 in ((SEC_OK, response[3 := valid_bits s]), s))
         else if sub = 0x09 then (uart_read_slot slot response s, s)
         else if sub = 0x0a then
           (case on_mmio (lms_mmio_mc_load (get_be32 params)) s of
              (Inl _, s) \<Rightarrow> ((SEC_ERR_AUTH, set_rc SEC_ERR_AUTH response), s)
            | (Inr _, s) \<Rightarrow> ((SEC_OK, response), s))
         else if sub = 0x0b then
           ((SEC_OK, response), s\<lparr>sec_wrapped_blob := take LMS_MMIO_WRAPPED_LEN params, sec_wrapped_valid := True\<rparr>)
         else if sub = 0x0c then
           (if \<not> sec_wrapped_valid s then ((SEC_ERR_PARAM, set_rc SEC_ERR_PARAM response), s)
            else ((SEC_OK, overwrite 4 (take 28 (sec_wrapped_blob s)) response), s))
         else if sub = 0x0d then
           (if \<not> sec_wrapped_valid s then ((SEC_ERR_PARAM, set_rc SEC_ERR_PARAM response), s)
            else ((SEC_OK, overwrite 4 (segment 28 20 (sec_wrapped_blob s)) response), s))
         else ((SEC_ERR_UNSUPPORTED, set_rc SEC_ERR_UNSUPPORTED response), s))"

section \<open>Record fields\<close>

lemma put_be32_store: "put_be32 = lms_store_u32"
  by (intro ext) (simp add: put_be32_def lms_store_u32_def)

lemma get_be32_load: "get_be32 = lms_load_u32"
  by (intro ext) (simp add: get_be32_def lms_load_u32_def)

lemma get_put_be16: "get_be16 (put_be16 v @ rest) = v"
proof (rule bit_word_eqI)
  fix n assume "n < LENGTH(16)"
  then consider "n < 8" | "8 \<le> n" "n < 16" by force
  then show "bit (get_be16 (put_be16 v @ rest)) n = bit v n"
    by cases (auto simp: get_be16_def put_be16_def bit_simps)
qed

lemma length_encode_body [simp]: "length (encode_body st c tx) = 48"
  by (simp add: encode_body_def put_be32_store put_be16_def)

lemma encode_body_fields:
  "get_be32 (encode_body st c tx @ tag) = SEC_MAGIC_STATE"
  "get_be16 (drop 4 (encode_body st c tx @ tag)) = st"
  "get_be32 (drop 6 (encode_body st c tx @ tag)) = c"
  "get_be32 (drop 10 (encode_body st c tx @ tag)) = tx"
proof -
  have l: "length (put_be16 st) = 2" by (simp add: put_be16_def)
  show "get_be32 (encode_body st c tx @ tag) = SEC_MAGIC_STATE"
    "get_be16 (drop 4 (encode_body st c tx @ tag)) = st"
    "get_be32 (drop 6 (encode_body st c tx @ tag)) = c"
    "get_be32 (drop 10 (encode_body st c tx @ tag)) = tx"
    by (simp_all add: encode_body_def put_be32_store get_be32_load get_put_be16 l)
qed

section \<open>Commit\<close>

text \<open>What a commit changes: on success the inactive slot, which becomes active, and the committed
  snapshot; on failure nothing but the device and the validity flags.\<close>

definition same_frame :: "'h sec_state_t \<Rightarrow> 'h sec_state_t \<Rightarrow> bool" where
  "same_frame s s' \<longleftrightarrow> sec_factory_locked s' = sec_factory_locked s \<and> sec_key_loaded s' = sec_key_loaded s
     \<and> sec_keygen_pending s' = sec_keygen_pending s \<and> sec_helper s' = sec_helper s \<and> sec_boot_valid s' = sec_boot_valid s
     \<and> sec_wrapped_blob s' = sec_wrapped_blob s \<and> sec_wrapped_valid s' = sec_wrapped_valid s \<and> sec_key_I s' = sec_key_I s
     \<and> sec_key_index s' = sec_key_index s \<and> test_mode s' = test_mode s \<and> lms_rnd s' = lms_rnd s \<and> trng_fault s' = trng_fault s"

definition committed :: "u16 \<Rightarrow> u32 \<Rightarrow> 'h sec_state_t \<Rightarrow> 'h sec_state_t \<Rightarrow> bool" where
  "committed st c s s' \<longleftrightarrow> same_frame s s' \<and> sec_state s' = st \<and> sec_ctr s' = c \<and> sec_last_tx s < sec_last_tx s'
     \<and> sec_active_slot s' = 1 - sec_active_slot s
     \<and> (\<exists>tag. length tag \<le> 16 \<and> sec_slots s' = (sec_slots s)[1 - sec_active_slot s := encode_body st c (sec_last_tx s') @ tag])"

definition uncommitted :: "'h sec_state_t \<Rightarrow> 'h sec_state_t \<Rightarrow> bool" where
  "uncommitted s s' \<longleftrightarrow> same_frame s s' \<and> sec_state s' = sec_state s \<and> sec_ctr s' = sec_ctr s \<and> sec_last_tx s' = sec_last_tx s
     \<and> sec_active_slot s' = sec_active_slot s \<and> sec_slots s' = sec_slots s"

lemmas commit_defs = committed_def uncommitted_def same_frame_def

lemma uncommitted_client: "uncommitted s (s\<lparr>sec_client := cl\<rparr>)"
  by (simp add: commit_defs)

lemma uncommittedI: "t = s\<lparr>sec_client := sec_client t\<rparr> \<Longrightarrow> uncommitted s t"
  using uncommitted_client by metis

lemma uncommitted_valid: "uncommitted s t \<Longrightarrow> uncommitted s (t\<lparr>sec_slot_valid := v\<rparr>)"
  by (simp add: commit_defs)

lemma commit_finish_run:
  assumes "length tag \<le> 16" and "length (sec_slots s) = 2" and "i < 2"
  shows "commit_finish i st c tx tag s = (if tx \<le> sec_last_tx s then (False, s)
    else (True, (set_diag i 0 (s\<lparr>sec_slots := (sec_slots s)[i := encode_body st c tx @ tag]\<rparr>))
       \<lparr>sec_slot_valid := (sec_slot_valid s)[i := True], sec_active_slot := i, sec_last_tx := tx, sec_state := st, sec_ctr := c\<rparr>))"
proof -
  have "segment 48 16 (encode_body st c tx @ tag) = tag" using assms(1) by (simp add: segment_def)
  then show ?thesis using assms(2,3)
    by (simp add: commit_finish_def Let_def rec_valid_check_def encode_body_fields SEC_BODY_LEN_def SEC_STATE_TAG_LEN_def set_diag_def)
qed

lemma on_mmio_run: "on_mmio m s = (r, s') \<Longrightarrow> s' = s\<lparr>sec_client := sec_client s'\<rparr> \<and> m (sec_client s) = (r, sec_client s')"
  by (auto simp: on_mmio_def split: prod.splits)

lemma compute_tag_run:
  assumes "compute_tag body slot s = (r, s')"
  shows "s' = s\<lparr>sec_client := sec_client s'\<rparr> \<and> (\<forall>tag. r = Inr tag \<longrightarrow> length tag \<le> 16)"
  using assms by (auto simp: compute_tag_def SEC_STATE_TAG_LEN_def dest!: on_mmio_run split: prod.splits sum.splits)

lemma state_commit_tag_length:
  assumes "lms_mmio_state_commit st c aad cl = (Inr (tx, tag), cl')"
  shows "length tag \<le> 16"
proof -
  have "length (segment 4 16 xs) \<le> 16" for xs :: bytes by (simp add: segment_def)
  then show ?thesis using assms
    by (auto simp: lms_mmio_state_commit_def andthen_def bind_def ret_def split: prod.splits sum.splits)
qed

lemma commit_finish_cases:
  assumes "commit_finish (1 - sec_active_slot s) st c tx tag (s\<lparr>sec_client := cl\<rparr>) = (b, s')"
    and "length tag \<le> 16" and "length (sec_slots s) = 2"
  shows "if b then committed st c s s' else uncommitted s s'"
proof (cases "tx \<le> sec_last_tx s")
  case True
  then have "s' = s\<lparr>sec_client := cl\<rparr>" "\<not> b"
    using assms commit_finish_run [of tag "s\<lparr>sec_client := cl\<rparr>" "1 - sec_active_slot s" st c tx] by (auto split: if_splits)
  then show ?thesis by (simp add: uncommitted_client)
next
  case False
  let ?i = "1 - sec_active_slot s"
  have "b" and "s' = s\<lparr>sec_client := cl, sec_slots := (sec_slots s)[?i := encode_body st c tx @ tag],
      sec_slot_valid := (sec_slot_valid s)[?i := True], sec_rec_diag := (sec_rec_diag s)[?i := 0], sec_active_slot := ?i,
      sec_last_tx := tx, sec_state := st, sec_ctr := c\<rparr>"
    using assms False commit_finish_run [of tag "s\<lparr>sec_client := cl\<rparr>" ?i st c tx]
    by (simp_all add: set_diag_def split: if_splits)
  moreover have "sec_last_tx s < tx" using False by simp
  ultimately show ?thesis using assms(2) by (auto simp: commit_defs)
qed

lemma state_commit_cases:
  assumes run: "state_commit st c s = (b, s')" and len: "length (sec_slots s) = 2"
  shows "if b then committed st c s s' else uncommitted s s'"
proof (cases "capabilities (sec_client s) AND CAP_STATE_COMMIT \<noteq> 0")
  case True
  obtain r t where m: "on_mmio (lms_mmio_state_commit st c (word_of_nat (1 - sec_active_slot s))) s = (r, t)" by force
  note t = on_mmio_run [OF m]
  show ?thesis
  proof (cases r)
    case (Inl e)
    then show ?thesis using run m True t uncommittedI [of t s] by (auto simp: state_commit_def Let_def)
  next
    case (Inr x)
    obtain tx tag where x: "x = (tx, tag)" by force
    have "commit_finish (1 - sec_active_slot s) st c tx tag (s\<lparr>sec_client := sec_client t\<rparr>) = (b, s')"
      using run m True t Inr x by (simp add: state_commit_def Let_def)
    moreover have "length tag \<le> 16" using state_commit_tag_length t Inr x by blast
    ultimately show ?thesis by (rule commit_finish_cases) (rule len)
  qed
next
  case False
  obtain r t where m: "on_mmio lms_mmio_mc_step s = (r, t)" by force
  note t = on_mmio_run [OF m]
  show ?thesis
  proof (cases r)
    case (Inl e)
    then show ?thesis using run m False t uncommittedI [of t s] by (auto simp: state_commit_def Let_def)
  next
    case (Inr tx)
    obtain r' u where h: "compute_tag (encode_body st c tx) (1 - sec_active_slot s) t = (r', u)" by force
    note u = compute_tag_run [OF h]
    have cl: "u = s\<lparr>sec_client := sec_client u\<rparr>" using t u by (metis sec_state_t.update_convs(1) sec_state_t.surjective)
    show ?thesis
    proof (cases "tx \<le> sec_last_tx t")
      case True
      then show ?thesis using run m False t Inr uncommittedI [of t s] by (auto simp: state_commit_def Let_def)
    next
      case T: False
      show ?thesis
      proof (cases r')
        case (Inl e)
        then have "\<not> b" "s' = u\<lparr>sec_slot_valid := (sec_slot_valid u)[1 - sec_active_slot s := False]\<rparr>"
          using run m False Inr h T by (auto simp: state_commit_def Let_def)
        then show ?thesis using uncommitted_valid [OF uncommittedI [OF cl]] by simp
      next
        case (Inr tag)
        then have "commit_finish (1 - sec_active_slot s) st c tx tag (s\<lparr>sec_client := sec_client u\<rparr>) = (b, s')"
          unfolding cl [symmetric] using run m False \<open>r = Inr tx\<close> h T by (simp add: state_commit_def Let_def)
        moreover have "length tag \<le> 16" using u Inr by simp
        ultimately show ?thesis by (rule commit_finish_cases) (rule len)
      qed
    qed
  qed
qed

section \<open>Signing\<close>

text \<open>The first leaf that may still be signed with: the counter, or the one after it while the
  counter's leaf is reserved.\<close>

definition next_q :: "'h sec_state_t \<Rightarrow> nat" where
  "next_q s = unat (sec_ctr s) + of_bool (sec_state s = SEC_ST_RESERVED)"

lemma committedD:
  assumes "committed st c s s'"
  shows "sec_state s' = st" "sec_ctr s' = c" "sec_last_tx s < sec_last_tx s'" "sec_active_slot s' = 1 - sec_active_slot s"
    "\<exists>tag. length tag \<le> 16 \<and> sec_slots s' = (sec_slots s)[1 - sec_active_slot s := encode_body st c (sec_last_tx s') @ tag]"
    "sec_key_loaded s' = sec_key_loaded s" "test_mode s' = test_mode s" "sec_key_I s' = sec_key_I s" "sec_helper s' = sec_helper s"
    "length (sec_slots s') = length (sec_slots s)"
  using assms by (auto simp: commit_defs)

lemma uncommittedD:
  assumes "uncommitted s s'"
  shows "sec_state s' = sec_state s" "sec_ctr s' = sec_ctr s" "sec_last_tx s' = sec_last_tx s"
    "sec_active_slot s' = sec_active_slot s" "sec_slots s' = sec_slots s"
    "sec_key_loaded s' = sec_key_loaded s" "test_mode s' = test_mode s" "sec_key_I s' = sec_key_I s" "sec_helper s' = sec_helper s"
  using assms by (auto simp: commit_defs)

lemma committed_slots: "committed st c s s' \<Longrightarrow> length (sec_slots s') = length (sec_slots s)"
  by (auto simp: committed_def)

lemma committed_next_q:
  "committed st c s s' \<Longrightarrow> next_q s' = unat c + of_bool (st = SEC_ST_RESERVED)"
  by (simp add: committed_def next_q_def)

lemma uncommitted_next_q: "uncommitted s s' \<Longrightarrow> next_q s' = next_q s"
  by (simp add: uncommitted_def next_q_def)

lemma unat_Suc_below: "(q :: u32) < m \<Longrightarrow> unat (q + 1) = Suc (unat q)"
proof -
  assume "q < m"
  moreover have "unat m < 2 ^ 32" using unsigned_less [of m] by simp
  ultimately show ?thesis by (simp only: unat_plus_if' word_less_nat_alt) simp
qed

text \<open>The burn after a failed step: it commits \<open>q + 1\<close> or leaves everything.\<close>

lemma burn_cases:
  assumes "length (sec_slots s) = 2"
  shows "committed SEC_ST_IDLE c s (snd (state_commit SEC_ST_IDLE c s)) \<or> uncommitted s (snd (state_commit SEC_ST_IDLE c s))"
  using state_commit_cases [OF surjective_pairing [of "state_commit SEC_ST_IDLE c s"] assms] by (auto split: if_splits)

text \<open>The outcome of \<open>sec_sign\<close> past its gates: the reservation is committed or not, and then the
  signature is released with the second commit, or the leaf is burned.\<close>

lemma sec_sign_cases [consumes 2]:
  assumes run: "sec_sign max_ctr f s = ((rc, q), s')" and len: "length (sec_slots s) = 2"
  obtains
    (gated) "rc \<noteq> SEC_OK" "s' = s \<or> s' = s\<lparr>sec_state := SEC_ST_EXHAUSTED\<rparr> \<and> sec_state s = SEC_ST_IDLE"
  | (unreserved) s1 where "rc \<noteq> SEC_OK" "sec_state s = SEC_ST_IDLE" "sec_ctr s < max_ctr" "uncommitted s s1"
      "committed SEC_ST_IDLE (sec_ctr s + 1) s1 s' \<or> uncommitted s1 s'"
  | (burned) s1 s2 where "rc \<noteq> SEC_OK" "sec_state s = SEC_ST_IDLE" "sec_ctr s < max_ctr"
      "committed SEC_ST_RESERVED (sec_ctr s) s s1" "uncommitted s1 s2" "committed SEC_ST_IDLE (sec_ctr s + 1) s2 s' \<or> uncommitted s2 s'"
  | (released) s1 s2 where "rc = SEC_OK" "q = sec_ctr s" "sec_state s = SEC_ST_IDLE" "sec_key_loaded s" "sec_ctr s < max_ctr"
      "committed SEC_ST_RESERVED (sec_ctr s) s s1" "uncommitted s1 s2" "committed SEC_ST_IDLE (sec_ctr s + 1) s2 s'"
proof (cases "sec_state s = SEC_ST_IDLE \<and> sec_key_loaded s \<and> sec_ctr s < max_ctr")
  case False
  then have "rc \<noteq> SEC_OK \<and> (s' = s \<or> s' = s\<lparr>sec_state := SEC_ST_EXHAUSTED\<rparr> \<and> sec_state s = SEC_ST_IDLE)"
    using run by (auto simp: sec_sign_def split: if_splits)
  then show thesis using gated by blast
next
  case True
  let ?q = "sec_ctr s"
  have nz: "max_ctr \<noteq> 0" "\<not> max_ctr \<le> sec_ctr s" using True by auto
  obtain b1 s1 where r1: "state_commit SEC_ST_RESERVED ?q s = (b1, s1)" by force
  note c1 = state_commit_cases [OF r1 len]
  show thesis
  proof (cases b1)
    case False
    then have "rc \<noteq> SEC_OK" "s' = snd (state_commit SEC_ST_IDLE (?q + 1) s1)"
      using run True nz r1 by (auto simp: sec_sign_def Let_def)
    moreover have "length (sec_slots s1) = 2" using c1 False len by (simp add: uncommitted_def)
    ultimately show thesis using unreserved [of s1] burn_cases c1 False True by auto
  next
    case reserved: True
    obtain ok s2 where r2: "(case f of None \<Rightarrow> (False, s1)
        | Some g \<Rightarrow> (case g ?q (sec_client s1) of (ok, c) \<Rightarrow> (ok, s1\<lparr>sec_client := c\<rparr>))) = (ok, s2)" by force
    then have "s2 = s1 \<or> (\<exists>c. s2 = s1\<lparr>sec_client := c\<rparr>)" by (auto split: option.splits prod.splits)
    then have u2: "uncommitted s1 s2" using uncommitted_client [of s1] by (auto simp: commit_defs)
    then have len2: "length (sec_slots s2) = 2" using c1 reserved len committed_slots [of _ _ s s1] by (simp add: uncommitted_def)
    obtain b3 s3 where r3: "state_commit SEC_ST_IDLE (?q + 1) s2 = (b3, s3)" by force
    note c3 = state_commit_cases [OF r3 len2]
    have run': "((rc, q), s') = (if ok then if b3 then ((SEC_OK, ?q), s3)
          else ((SEC_ERR_COMMIT, 0), snd (state_commit SEC_ST_IDLE (?q + 1) s3)) else ((SEC_ERR_PATH, 0), s3))"
      using run True nz r1 reserved r2 r3 by (cases b3; cases ok) (auto simp: sec_sign_def Let_def)
    consider (ok) "ok" "b3" | (again) "ok" "\<not> b3" | (path) "\<not> ok" by blast
    then show thesis
    proof cases
      case ok
      then show thesis using released [of s1 s2] run' c1 c3 reserved u2 True by simp
    next
      case again
      then have "uncommitted s1 s3" using c3 u2 by (simp add: commit_defs)
      moreover have "length (sec_slots s3) = 2" using calculation c1 reserved len committed_slots [of _ _ s s1] by (simp add: uncommitted_def)
      ultimately show thesis using burned [of s1 s3] run' again c1 reserved True burn_cases [of s3 "?q + 1"] by simp
    next
      case path
      then show thesis using burned [of s1 s2] run' c1 c3 reserved u2 True by (cases b3) simp_all
    qed
  qed
qed

text \<open>
  C6. No release before commit. For every device, every signing callback and every state: if
  \<open>sec_sign\<close> answers \<open>SEC_OK\<close> for leaf \<open>q\<close>, then \<open>q\<close> was the committed counter, below \<open>max_ctr\<close>;
  before the callback ran, a record \<open>RESERVED(q)\<close> was committed; and the state it leaves has
  counter \<open>q + 1\<close>, which the active slot holds as an \<open>IDLE\<close> record under a larger transaction
  number. On every other answer the counter has not gone back.
\<close>

theorem sec_sign_release_after_commit:
  assumes "sec_sign max_ctr f s = ((rc, q), s')" and "length (sec_slots s) = 2" and "sec_active_slot s < 2"
  shows "(rc = SEC_OK \<longrightarrow> q = sec_ctr s \<and> q < max_ctr \<and> sec_state s = SEC_ST_IDLE \<and> sec_key_loaded s
      \<and> sec_state s' = SEC_ST_IDLE \<and> sec_ctr s' = q + 1 \<and> unat (sec_ctr s') = unat q + 1 \<and> sec_last_tx s < sec_last_tx s'
      \<and> (\<exists>tag tag' tx. sec_slots s' ! sec_active_slot s' = encode_body SEC_ST_IDLE (q + 1) (sec_last_tx s') @ tag
           \<and> sec_slots s' ! (1 - sec_active_slot s') = encode_body SEC_ST_RESERVED q tx @ tag' \<and> tx < sec_last_tx s'))
    \<and> (rc \<noteq> SEC_OK \<longrightarrow> sec_ctr s \<le> sec_ctr s')"
using assms(1,2)
proof (cases rule: sec_sign_cases)
  case gated
  then show ?thesis by auto
next
  case (unreserved s1)
  have "sec_ctr s \<le> sec_ctr s'"
    using unat_Suc_below [OF unreserved(3)] unreserved(5) uncommittedD(2) [OF unreserved(4)]
    by (auto simp: word_le_nat_alt dest: committedD(2) uncommittedD(2))
  then show ?thesis using unreserved(1) by blast
next
  case (burned s1 s2)
  have "sec_ctr s \<le> sec_ctr s'"
    using unat_Suc_below [OF burned(3)] burned(6) uncommittedD(2) [OF burned(5)] committedD(2) [OF burned(4)]
    by (auto simp: word_le_nat_alt dest: committedD(2) uncommittedD(2))
  then show ?thesis using burned(1) by blast
next
  case (released s1 s2)
  note c1 = committedD [OF released(6)] and u = uncommittedD [OF released(7)] and c3 = committedD [OF released(8)]
  have a: "sec_active_slot s' = sec_active_slot s" "sec_active_slot s2 = 1 - sec_active_slot s"
    using c1(4) u(4) c3(4) assms(3) by simp_all
  have ne: "1 - sec_active_slot s \<noteq> sec_active_slot s" "sec_active_slot s \<noteq> 1 - sec_active_slot s" by arith+
  obtain tag where t: "sec_slots s1 = (sec_slots s)[1 - sec_active_slot s := encode_body SEC_ST_RESERVED (sec_ctr s) (sec_last_tx s1) @ tag]"
    using c1(5) by blast
  obtain tag' where t': "sec_slots s' = (sec_slots s1)[sec_active_slot s := encode_body SEC_ST_IDLE (sec_ctr s + 1) (sec_last_tx s') @ tag']"
    using c3(5) u(5) a assms(3) by auto
  have "sec_slots s' ! sec_active_slot s' = encode_body SEC_ST_IDLE (sec_ctr s + 1) (sec_last_tx s') @ tag'"
    "sec_slots s' ! (1 - sec_active_slot s') = encode_body SEC_ST_RESERVED (sec_ctr s) (sec_last_tx s1) @ tag"
    using t t' a assms(2,3) ne by (simp_all add: nth_list_update)
  then show ?thesis using released(1-5) c1(3) c3(1-3) u(3) unat_Suc_below [OF released(5)] by auto
qed

section \<open>A device for the witnesses\<close>

text \<open>The device state is the command register, the started flag and the monotonic counter. A
  start advances the counter for \<open>MC_STEP\<close> and \<open>STATE_COMMIT\<close>, whose output is the counter value;
  every other output word is zero.\<close>

type_synonym sim_dev = "u32 \<times> bool \<times> u32"

definition sim_read :: "u32 \<Rightarrow> sim_dev \<Rightarrow> u32 \<times> sim_dev" where
  "sim_read off = (\<lambda>(cmd, started, mc).
     (if off = REG_STATUS then (if started then 2 else 0)
      else if off = REG_OUTPUT then (if cmd = CMD_MC_STEP \<or> cmd = CMD_STATE_COMMIT then mc else 0)
      else 0, cmd, started, mc))"

definition sim_write :: "u32 \<Rightarrow> u32 \<Rightarrow> sim_dev \<Rightarrow> sim_dev" where
  "sim_write off v = (\<lambda>(cmd, started, mc).
     if off = REG_COMMAND then (v, started, mc)
     else if off = REG_CONTROL then
       if v = 1 then (cmd, True, if cmd = CMD_MC_STEP \<or> cmd = CMD_STATE_COMMIT then mc + 1 else mc)
       else (cmd, False, mc)
     else (cmd, started, mc))"

definition sim_client :: "sim_dev lms_mmio_client_t" where
  "sim_client =
     \<lparr>bus_read32 = sim_read, bus_write32 = sim_write, buf_aligned = (\<lambda>_. True), timeout_polls = 4,
      capabilities = 0x8fff, last_hw_error = 0, fallback_count = 0, hardware_chain_count = 0, hardware_chain_cycles = 0,
      hardware_derive_count = 0, hardware_derive_cycles = 0, hardware_keygen_count = 0, hardware_keygen_cycles = 0,
      hardware_sign_count = 0, hardware_sign_cycles = 0, hardware_verify_count = 0, hardware_verify_cycles = 0,
      hardware_hash_once_count = 0, hardware_hash_once_cycles = 0, key_handle = 0, allow_fallback = False,
      probed = True, coef_ready = False, hash_desc = Some LMS_MMIO_HASH_DESC_SHA256, randomizer_c_slot = None,
      trng_fill_c = None, hw = (0, False, 0)\<rparr>"

definition sim_sec :: "u32 \<Rightarrow> sim_dev sec_state_t" where
  "sim_sec ctr =
     \<lparr>sec_client = sim_client, sec_slots = [replicate 64 0, replicate 64 0], sec_slot_valid = [False, False],
      sec_active_slot = 0, sec_state = SEC_ST_IDLE, sec_ctr = ctr, sec_last_tx = 0, sec_factory_locked = True,
      sec_key_loaded = True, sec_keygen_pending = False, sec_helper = replicate 32 0, sec_boot_valid = [False, False],
      sec_wrapped_blob = [], sec_wrapped_valid = False, sec_key_I = replicate 16 0, sec_key_index = 0,
      sec_rec_diag = [0, 0], test_mode = False, lms_rnd = (\<lambda>n h. (replicate n 0, h)), trng_fault = (\<lambda>_. False)\<rparr>"

text \<open>Witness of C6: the device signs with leaf 7.\<close>

theorem sec_sign_release_after_commit_witness:
  "case sec_sign 32 (Some (\<lambda>q c. (True, c))) (sim_sec 7) of ((rc, q), s') \<Rightarrow> rc = SEC_OK \<and> q = 7 \<and> sec_ctr s' = 8"
proof -
  obtain r s' where run: "sec_sign 32 (Some (\<lambda>q c. (True, c))) (sim_sec 7) = (r, s')" by (rule prod.exhaust)
  obtain rc q where r: "r = (rc, q)" by (rule prod.exhaust)
  have "fst (sec_sign 32 (Some (\<lambda>q c. (True, c))) (sim_sec 7)) = (SEC_OK, 7)" by code_simp
  moreover have "length (sec_slots (sim_sec 7)) = 2" "sec_active_slot (sim_sec 7) < 2" by (simp_all add: sim_sec_def)
  ultimately show ?thesis using sec_sign_release_after_commit [OF run [unfolded r]] run r by simp
qed

end
