(* ===== verification/Sec_Session.thy ===== *)
theory Sec_Session
  imports Sec_State
begin

text \<open>
  The security state domain between two boots: which commands touch state, counter and slots, and
  that \<open>sec_sign\<close> and every command but \<open>BOOT\<close> only move the first free leaf forward.
\<close>

section \<open>Sessions between two boots\<close>

lemma burned_next_q:
  "committed SEC_ST_IDLE c s s' \<or> uncommitted s s' \<Longrightarrow>
    (next_q s' = unat c \<or> next_q s' = next_q s) \<and> length (sec_slots s') = length (sec_slots s)"
  by (auto simp: committed_next_q uncommitted_next_q dest: committedD(10) uncommittedD(5))

lemma sec_sign_step:
  assumes "sec_sign max_ctr f s = ((rc, q), s')" and "length (sec_slots s) = 2"
  shows "length (sec_slots s') = 2" and "next_q s \<le> next_q s'" and "rc = SEC_OK \<Longrightarrow> next_q s \<le> unat q \<and> unat q < next_q s'"
proof -
  have "length (sec_slots s') = 2 \<and> next_q s \<le> next_q s' \<and> (rc = SEC_OK \<longrightarrow> next_q s \<le> unat q \<and> unat q < next_q s')"
    using assms
  proof (cases rule: sec_sign_cases)
    case gated
    then show ?thesis using assms(2) by (auto simp: next_q_def)
  next
    case (unreserved s1)
    show ?thesis
      using unat_Suc_below [OF unreserved(3)] unreserved(1,2) burned_next_q [OF unreserved(5)]
        uncommitted_next_q [OF unreserved(4)] uncommittedD(5) [OF unreserved(4)] assms(2) by (auto simp: next_q_def)
  next
    case (burned s1 s2)
    show ?thesis
      using unat_Suc_below [OF burned(3)] burned(1,2) burned_next_q [OF burned(6)] uncommitted_next_q [OF burned(5)]
        committed_next_q [OF burned(4)] uncommittedD(5) [OF burned(5)] committedD(10) [OF burned(4)] assms(2)
      by (auto simp: next_q_def)
  next
    case (released s1 s2)
    then show ?thesis
      using unat_Suc_below [OF released(5)] committed_next_q [OF released(8)] uncommittedD(5) [OF released(7)]
        committedD(10) [OF released(6)] committedD(10) [OF released(8)] assms(2) by (simp add: next_q_def)
  qed
  then show "length (sec_slots s') = 2" "next_q s \<le> next_q s'" "rc = SEC_OK \<Longrightarrow> next_q s \<le> unat q \<and> unat q < next_q s'"
    by blast+
qed

lemma uart_commit_step:
  assumes "uart_commit params response s = (r, s')" and "length (sec_slots s) = 2"
  shows "length (sec_slots s') = 2 \<and> next_q s \<le> next_q s'"
proof (cases "s' = s")
  case True
  then show ?thesis using assms(2) by simp
next
  case False
  define st c where "st = (ucast (get_be32 params AND 0xffff) :: u16)" and "c = get_be32 (drop 4 params)"
  obtain b t where sc: "state_commit st c s = (b, t)" by force
  have allowed: "sec_uart_commit_allowed st c s" "s' = t"
    using assms(1) False sc by (auto simp: uart_commit_def Let_def st_def [symmetric] c_def [symmetric] split: if_splits bool.splits)
  have "b \<Longrightarrow> next_q s \<le> unat c + of_bool (st = SEC_ST_RESERVED)"
    using allowed(1) by (auto simp: sec_uart_commit_allowed_def next_q_def word_le_nat_alt word_less_nat_alt split: if_splits)
  then show ?thesis using state_commit_cases [OF sc assms(2)] assms(2) allowed(2)
    by (cases b) (auto simp: committed_next_q uncommitted_next_q dest: committedD(10) uncommittedD(5))
qed

lemma on_mmio_uncommitted: "uncommitted s (snd (on_mmio m s))"
  by (cases "on_mmio m s") (metis on_mmio_run snd_conv uncommittedI)

text \<open>Operations that leave state, counter and slots alone; the keys and the wrapped seed may change.\<close>

definition untouched :: "'h sec_state_t \<Rightarrow> 'h sec_state_t \<Rightarrow> bool" where
  "untouched s s' \<longleftrightarrow> sec_state s' = sec_state s \<and> sec_ctr s' = sec_ctr s \<and> sec_last_tx s' = sec_last_tx s
     \<and> sec_active_slot s' = sec_active_slot s \<and> sec_slots s' = sec_slots s \<and> test_mode s' = test_mode s"

lemma untouched_refl: "untouched s s"
  by (simp add: untouched_def)

lemma untouched_trans: "untouched s t \<Longrightarrow> untouched t u \<Longrightarrow> untouched s u"
  by (simp add: untouched_def)

lemma untouched_on_mmio: "on_mmio m s = (r, s') \<Longrightarrow> untouched s s'"
  by (auto simp: on_mmio_def untouched_def split: prod.splits)

lemma untouched_load_hw_keys: "sec_load_hw_keys_i k I s = (r, s') \<Longrightarrow> untouched s s'"
  by (auto simp: sec_load_hw_keys_i_def Let_def split: prod.splits sum.splits dest!: untouched_on_mmio intro: untouched_trans)

lemma untouched_factory_init: 
  assumes "sec_factory_init I response s = (r, s')"
  shows "untouched s s'"
proof (cases "test_mode s \<and> \<not> sec_factory_locked s")
  case False
  then show ?thesis using assms by (auto simp: sec_factory_init_def untouched_refl split: if_splits)
next
  case True
  obtain helper k where g: "fe_gen sim_puf_read 0 = (helper, k)" by force
  let ?s = "s\<lparr>sec_helper := helper, sec_key_I := I\<rparr>"
  obtain r1 s1 where 1: "sec_load_hw_keys_i k I ?s = (r1, s1)" by force
  obtain r2 s2 where 2: "on_mmio (lms_mmio_seed_load_test 0 (map word_of_nat [0..<32])) s1 = (r2, s2)" by force
  obtain r3 s3 where 3: "on_mmio lms_mmio_wrap_seed s2 = (r3, s3)" by force
  have "untouched s s1" using untouched_load_hw_keys [OF 1] by (simp add: untouched_def)
  moreover have "untouched s s2" using calculation untouched_on_mmio [OF 2] by (rule untouched_trans)
  moreover have "untouched s s3" using calculation(2) untouched_on_mmio [OF 3] by (rule untouched_trans)
  moreover have "s' = s1 \<or> s' = s2 \<or> s' = s3 \<or> (\<exists>w. s' = s3\<lparr>sec_wrapped_blob := w, sec_wrapped_valid := True, sec_factory_locked := True,
      sec_keygen_pending := False\<rparr>)"
    using assms True g 1 2 3 by (auto simp: sec_factory_init_def Let_def split: sum.splits)
  ultimately show ?thesis by (auto simp: untouched_def)
qed

lemma untouched_next_q: "untouched s s' \<Longrightarrow> next_q s' = next_q s \<and> sec_slots s' = sec_slots s"
  by (simp add: untouched_def next_q_def)

text \<open>Every command other than \<open>COMMIT\<close>, \<open>INJECT_TAG\<close>, \<open>BOOT\<close> and \<open>NVM_LOAD\<close> leaves the state alone.\<close>

lemma uart_untouched:
  assumes "sec_handle_uart_cmd sub params s = (r, s')" and "sub \<notin> {1, 4, 5, 8}"
  shows "untouched s s'"
proof -
  have factory: "sub = 6 \<Longrightarrow> untouched s s'"
    using assms(1) untouched_factory_init by (auto simp: sec_handle_uart_cmd_def Let_def split: prod.splits)
  have mc: "sub = 10 \<Longrightarrow> untouched s s'"
    using assms(1) untouched_on_mmio by (auto simp: sec_handle_uart_cmd_def Let_def split: prod.splits sum.splits)
  have wrap: "sub = 11 \<Longrightarrow> untouched s s'"
    using assms(1) by (auto simp: sec_handle_uart_cmd_def Let_def untouched_def)
  have "sub \<notin> {6, 10, 11} \<Longrightarrow> s' = s"
    using assms by (auto simp: sec_handle_uart_cmd_def Let_def split: if_splits)
  then show ?thesis using factory mc wrap untouched_refl by blast
qed

lemma uart_step:
  assumes run: "sec_handle_uart_cmd sub params s = (r, s')" and "sub \<noteq> 5" and len: "length (sec_slots s) = 2"
  shows "length (sec_slots s') = 2 \<and> next_q s \<le> next_q s'"
proof -
  consider "sub = 1" | "sub = 4 \<or> sub = 8" | "sub \<notin> {1, 4, 5, 8}" using assms(2) by auto
  then show ?thesis
  proof cases
    case 1
    then show ?thesis using uart_commit_step [OF _ len] run by (auto simp: sec_handle_uart_cmd_def Let_def)
  next
    case 2
    then show ?thesis using run len by (auto simp: sec_handle_uart_cmd_def Let_def next_q_def split: if_splits)
  next
    case 3
    then show ?thesis using untouched_next_q [OF uart_untouched [OF run]] len by simp
  qed
qed

text \<open>A session: any interleaving of \<open>sec_sign\<close> calls and UART commands other than \<open>BOOT\<close>, with the
  list of released leaves.\<close>

inductive sec_session :: "'h sec_state_t \<Rightarrow> u32 list \<Rightarrow> 'h sec_state_t \<Rightarrow> bool" where
  start: "sec_session s [] s"
| release: "sec_session s qs t \<Longrightarrow> sec_sign max_ctr f t = ((SEC_OK, q), u) \<Longrightarrow> sec_session s (qs @ [q]) u"
| refuse: "sec_session s qs t \<Longrightarrow> sec_sign max_ctr f t = ((rc, q), u) \<Longrightarrow> rc \<noteq> SEC_OK \<Longrightarrow> sec_session s qs u"
| uart: "sec_session s qs t \<Longrightarrow> sec_handle_uart_cmd sub params t = (r, u) \<Longrightarrow> sub \<noteq> 5 \<Longrightarrow> sec_session s qs u"

lemma session_bounds:
  assumes "sec_session s qs t" and "length (sec_slots s) = 2"
  shows "length (sec_slots t) = 2 \<and> next_q s \<le> next_q t \<and> sorted_wrt (<) (map unat qs)
    \<and> (\<forall>q \<in> set qs. next_q s \<le> unat q \<and> unat q < next_q t)"
  using assms
proof (induction rule: sec_session.induct)
  case (start s)
  then show ?case by simp
next
  case (release s qs t max_ctr f q u)
  note step = sec_sign_step [OF release(2)]
  have "length (sec_slots t) = 2" using release by blast
  with release step show ?case by (fastforce simp: sorted_wrt_append)
next
  case (refuse s qs t max_ctr f rc q u)
  note step = sec_sign_step(1,2) [OF refuse(2)]
  have "length (sec_slots t) = 2" using refuse by blast
  with refuse step show ?case by fastforce
next
  case (uart s qs t sub params r u)
  have "length (sec_slots t) = 2" using uart by blast
  from uart_step [OF uart(2,3) this] uart show ?case by fastforce
qed

text \<open>
  C12. Between two boots no leaf is released twice, whatever the device does. In any sequence of
  \<open>sec_sign\<close> calls (with any counter limits and callbacks) and UART commands other than \<open>BOOT\<close>,
  on a device that may fail, time out or return garbage at every access, the released leaves
  are strictly increasing; all of them lie at or above the first free leaf at the start and
  below the first free leaf at the end.
\<close>

theorem sec_session_no_reuse:
  assumes "sec_session s qs t" and "length (sec_slots s) = 2"
  shows "sorted_wrt (<) qs \<and> distinct qs \<and> (\<forall>q \<in> set qs. next_q s \<le> unat q \<and> unat q < next_q t)"
proof -
  have "sorted_wrt (<) (map unat qs)" using session_bounds [OF assms] by blast
  then have "sorted_wrt (\<lambda>x y. unat x < unat y) qs" by (simp add: sorted_wrt_map)
  then have "sorted_wrt (<) qs" by (rule sorted_wrt_mono_rel [rotated]) (simp add: word_less_nat_alt)
  moreover from this have "distinct qs" by (induction qs) auto
  ultimately show ?thesis using session_bounds [OF assms] by blast
qed

text \<open>Witness of C12: two signatures in a row.\<close>

theorem sec_session_no_reuse_witness:
  "\<exists>t. sec_session (sim_sec 7) [7, 8] t \<and> sorted_wrt (<) [7, 8 :: u32] \<and> 8 < next_q t"
proof -
  let ?f = "Some (\<lambda>q c. (True, c)) :: (u32 \<Rightarrow> sim_dev lms_mmio_client_t \<Rightarrow> bool \<times> sim_dev lms_mmio_client_t) option"
  obtain r1 s1 where 1: "sec_sign 32 ?f (sim_sec 7) = (r1, s1)" by (rule prod.exhaust)
  obtain r2 s2 where 2: "sec_sign 32 ?f s1 = (r2, s2)" by (rule prod.exhaust)
  have "fst (sec_sign 32 ?f (sim_sec 7)) = (SEC_OK, 7)" by code_simp
  moreover have "fst (sec_sign 32 ?f (snd (sec_sign 32 ?f (sim_sec 7)))) = (SEC_OK, 8)" by code_simp
  ultimately have r: "r1 = (SEC_OK, 7)" "r2 = (SEC_OK, 8)" using 1 2 by simp_all
  have "sec_session (sim_sec 7) ([] @ [7]) s1" using 1 unfolding r by (rule sec_session.release [OF sec_session.start])
  then have run: "sec_session (sim_sec 7) (([] @ [7]) @ [8]) s2" using 2 unfolding r by (rule sec_session.release)
  have "length (sec_slots (sim_sec 7)) = 2" by (simp add: sim_sec_def)
  from sec_session_no_reuse [OF run this] run show ?thesis by auto
qed

end
