(* ===== verification/Sec_Power.thy ===== *)
theory Sec_Power
  imports Sec_Session
begin

text \<open>
  The security state domain across power cycles: the invariant of the two stored records, its
  preservation by \<open>sec_boot\<close>, \<open>sec_sign\<close> and the UART commands, the life of a key with
  interrupted and lost signatures, torn writes and reboots, and the one counter value at which
  recovery wraps around.
\<close>

section \<open>Safe states\<close>

text \<open>The first free leaf a stored record stands for. A record is safe for the bound \<open>b\<close> (no leaf
  below \<open>b\<close> may be used again) if its magic number is destroyed, or if it stands for a free leaf
  at or above \<open>b\<close> and burning it does not wrap.\<close>

definition rec_next :: "bytes \<Rightarrow> nat" where
  "rec_next rec = unat (get_be32 (drop 6 rec)) + of_bool (get_be16 (drop 4 rec) = SEC_ST_RESERVED)"

definition rec_safe :: "nat \<Rightarrow> bytes \<Rightarrow> bool" where
  "rec_safe b rec \<longleftrightarrow> length rec \<le> 64 \<and> (get_be32 rec \<noteq> SEC_MAGIC_STATE \<or> b \<le> rec_next rec \<and> rec_next rec < 2 ^ 32)"

definition slots_safe :: "nat \<Rightarrow> bytes list \<Rightarrow> bool" where
  "slots_safe b slots \<longleftrightarrow> length slots = 2 \<and> (\<forall>rec \<in> set slots. rec_safe b rec)
     \<and> (b = 0 \<or> (\<exists>rec \<in> set slots. get_be32 rec = SEC_MAGIC_STATE))"

text \<open>The invariant: the slots are safe, one of them has a record unless nothing was released, and
  the running state can sign only at or above the bound.\<close>

definition sec_safe :: "nat \<Rightarrow> 'h sec_state_t \<Rightarrow> bool" where
  "sec_safe b s \<longleftrightarrow> slots_safe b (sec_slots s) \<and> (sec_state s \<in> {SEC_ST_ERROR_LOCKED, SEC_ST_BOOTING} \<or> b \<le> next_q s)"

lemma rec_next_encode: "rec_next (encode_body st c tx @ tag) = unat c + of_bool (st = SEC_ST_RESERVED)"
  by (simp only: rec_next_def encode_body_fields)

lemma rec_safe_encode:
  "length tag \<le> 16 \<Longrightarrow> b \<le> unat c + of_bool (st = SEC_ST_RESERVED) \<Longrightarrow> unat c + of_bool (st = SEC_ST_RESERVED) < 2 ^ 32 \<Longrightarrow>
   rec_safe b (encode_body st c tx @ tag)"
  by (simp add: rec_safe_def rec_next_encode)

lemma slots_safe_two:
  "slots_safe b slots \<longleftrightarrow> (\<exists>x y. slots = [x, y] \<and> rec_safe b x \<and> rec_safe b y
     \<and> (b = 0 \<or> get_be32 x = SEC_MAGIC_STATE \<or> get_be32 y = SEC_MAGIC_STATE))"
proof -
  have "length slots = 2 \<longleftrightarrow> (\<exists>x y. slots = [x, y])" by (auto simp: numeral_2_eq_2 length_Suc_conv)
  then show ?thesis by (auto simp: slots_safe_def)
qed

lemma slots_safe_length: "slots_safe b slots \<Longrightarrow> length slots = 2"
  by (simp add: slots_safe_def)

lemma slots_safe_nth: "slots_safe b slots \<Longrightarrow> i < 2 \<Longrightarrow> rec_safe b (slots ! i)"
  by (simp add: slots_safe_def)

lemma slots_safe_update:
  assumes "slots_safe b slots" and "rec_safe b' rec" and "get_be32 rec = SEC_MAGIC_STATE" and "b' \<le> b" and "i < 2"
  shows "slots_safe b' (slots[i := rec])"
proof -
  have "rec_safe b' x" if "rec_safe b x" for x using that assms(4) by (auto simp: rec_safe_def)
  moreover have "i = 0 \<or> i = 1" using assms(5) by auto
  ultimately show ?thesis using assms(1-3) by (auto simp: slots_safe_two)
qed

lemma sec_safe_slots: "sec_safe b s \<Longrightarrow> slots_safe b (sec_slots s)"
  by (simp add: sec_safe_def)

lemma sec_safe_length: "sec_safe b s \<Longrightarrow> length (sec_slots s) = 2"
  by (rule slots_safe_length [OF sec_safe_slots])

lemma committed_safe:
  assumes c: "committed st c s s'" and safe: "slots_safe b (sec_slots s)"
    and n: "b \<le> unat c + of_bool (st = SEC_ST_RESERVED)" "unat c + of_bool (st = SEC_ST_RESERVED) < 2 ^ 32"
  shows "sec_safe b s'"
proof -
  obtain tag where t: "length tag \<le> 16"
      "sec_slots s' = (sec_slots s)[1 - sec_active_slot s := encode_body st c (sec_last_tx s') @ tag]"
    using committedD(5) [OF c] by blast
  have "slots_safe b (sec_slots s')"
    unfolding t(2) using safe rec_safe_encode [OF t(1) n] by (rule slots_safe_update) (simp_all add: encode_body_fields)
  then show ?thesis using n committed_next_q [OF c] by (simp add: sec_safe_def)
qed

lemma uncommitted_safe: "uncommitted s s' \<Longrightarrow> sec_safe b s \<Longrightarrow> sec_safe b s'"
  by (simp add: sec_safe_def uncommittedD uncommitted_next_q)

lemma untouched_safe: "untouched s s' \<Longrightarrow> sec_safe b s \<Longrightarrow> sec_safe b s'"
  by (simp add: sec_safe_def untouched_def next_q_def)

section \<open>Boot\<close>

lemma boot_lock_safe: "slots_safe b (sec_slots s) \<Longrightarrow> sec_safe b (boot_lock s)"
  by (simp add: boot_lock_def sec_safe_def)

lemma boot_done_safe: "sec_safe b s \<Longrightarrow> sec_safe b (boot_done s)"
  by (rule untouched_safe) (simp_all add: boot_done_def untouched_def)

lemma boot_no_slot_safe:
  assumes "sec_safe b s"
  shows "sec_safe b (boot_no_slot s)"
proof (cases "slots_all_zero s")
  case True
  have "get_be32 (sec_slots s ! i) \<noteq> SEC_MAGIC_STATE" if "i < 2" for i
  proof -
    have "sec_slots s ! i ! k = 0" if "k < 4" for k using True that \<open>i < 2\<close> by (simp add: slots_all_zero_def SEC_STATE_REC_LEN_def)
    then show ?thesis by (simp add: get_be32_def SEC_MAGIC_STATE_def)
  qed
  from this [of 0] this [of 1] have "b = 0" using assms by (auto simp: sec_safe_def slots_safe_two)
  then show ?thesis using assms True by (simp add: boot_no_slot_def boot_done_def sec_safe_def)
next
  case False
  then show ?thesis using assms boot_lock_safe [OF sec_safe_slots [OF assms]] by (simp add: boot_no_slot_def)
qed

lemma boot_slot_safe:
  assumes safe: "slots_safe b (sec_slots s)" and chosen: "chosen < 2" "get_be32 (sec_slots s ! chosen) = SEC_MAGIC_STATE"
  shows "sec_safe b (boot_slot chosen valid s)"
proof -
  define rec where "rec = sec_slots s ! chosen"
  define st c where "st = get_be16 (drop 4 rec)" and "c = get_be32 (drop 6 rec)"
  define t where "t = s\<lparr>sec_active_slot := chosen, sec_slot_valid := valid, sec_last_tx := get_be32 (drop 10 rec)\<rparr>"
  have n: "b \<le> unat c + of_bool (st = SEC_ST_RESERVED)" "unat c + of_bool (st = SEC_ST_RESERVED) < 2 ^ 32"
    using slots_safe_nth [OF safe chosen(1)] chosen(2) by (simp_all add: rec_safe_def rec_next_def st_def c_def rec_def)
  have t: "slots_safe b (sec_slots t)" using safe by (simp add: t_def)
  have run: "boot_slot chosen valid s =
      (if st = SEC_ST_RESERVED then case state_commit SEC_ST_IDLE (c + 1) t of (False, u) \<Rightarrow> boot_lock u | (True, u) \<Rightarrow> boot_done u
       else if st = SEC_ST_KEYGEN_PENDING then boot_done (t\<lparr>sec_keygen_pending := True, sec_state := SEC_ST_KEYGEN_PENDING, sec_ctr := c\<rparr>)
       else if st = SEC_ST_IDLE \<or> st = SEC_ST_EXHAUSTED then boot_done (t\<lparr>sec_state := st, sec_ctr := c\<rparr>) else boot_lock t)"
    by (simp add: boot_slot_def Let_def rec_def [symmetric] st_def [symmetric] c_def [symmetric] t_def [symmetric])
  show ?thesis
  proof (cases "st = SEC_ST_RESERVED")
    case True
    then have "unat (c + 1) = unat c + 1" using n(2) by (simp add: unat_plus_if')
    with n True have n': "b \<le> unat (c + 1) + of_bool (SEC_ST_IDLE = SEC_ST_RESERVED)"
        "unat (c + 1) + of_bool (SEC_ST_IDLE = SEC_ST_RESERVED) < 2 ^ 32" by simp_all
    obtain ok u where sc: "state_commit SEC_ST_IDLE (c + 1) t = (ok, u)" by (rule prod.exhaust)
    note cs = state_commit_cases [OF sc slots_safe_length [OF t]]
    show ?thesis
    proof (cases ok)
      case ok: True
      with cs have "sec_safe b u" using committed_safe [OF _ t n'] by simp
      then show ?thesis using run True sc ok boot_done_safe by simp
    next
      case False
      with cs have "sec_slots u = sec_slots t" using uncommittedD(5) by simp
      then show ?thesis using run True sc False t boot_lock_safe [of b u] by simp
    qed
  next
    case False
    have "sec_safe b (t\<lparr>sec_keygen_pending := True, sec_state := SEC_ST_KEYGEN_PENDING, sec_ctr := c\<rparr>)"
      "sec_safe b (t\<lparr>sec_state := st, sec_ctr := c\<rparr>)" using t n False by (simp_all add: sec_safe_def next_q_def)
    from this [THEN boot_done_safe] show ?thesis
      unfolding run if_not_P [OF False] using boot_lock_safe [OF t] by (simp only: if_split simp_thms)
  qed
qed

lemma untouched_rec_valid:
  assumes "rec_valid rec i s = (v, s')"
  shows "untouched s s' \<and> (v \<longrightarrow> get_be32 rec = SEC_MAGIC_STATE)"
proof (cases "get_be32 rec = SEC_MAGIC_STATE")
  case True
  obtain r t where h: "compute_tag rec i (set_diag i 0 s) = (r, t)" by (rule prod.exhaust)
  have "untouched s t"
    using h by (auto simp: compute_tag_def set_diag_def untouched_def dest!: untouched_on_mmio split: prod.splits sum.splits)
  then show ?thesis using assms True h by (auto simp: rec_valid_def untouched_def set_diag_def split: sum.splits if_splits)
next
  case False
  then show ?thesis using assms by (auto simp: rec_valid_def untouched_def set_diag_def)
qed

lemma untouched_boot_unwrap: "boot_unwrap s = (v, s') \<Longrightarrow> untouched s s'"
  by (auto simp: boot_unwrap_def untouched_def dest!: untouched_on_mmio split: if_splits prod.splits sum.splits)

lemma choose_slot_valid:
  "choose_slot v0 v1 slots = Some (Some i) \<Longrightarrow> i = 0 \<and> v0 \<or> i = 1 \<and> v1"
  by (auto simp: choose_slot_def Let_def split: if_splits)

lemma boot_records_safe:
  assumes safe: "sec_safe b s"
  shows "sec_safe b (boot_records s)"
proof -
  obtain v0 s0 where 0: "rec_valid (sec_slots s ! 0) 0 s = (v0, s0)" by (rule prod.exhaust)
  obtain v1 s1 where 1: "rec_valid (sec_slots s0 ! 1) 1 s0 = (v1, s1)" by (rule prod.exhaust)
  note u0 = untouched_rec_valid [OF 0] and u1 = untouched_rec_valid [OF 1]
  have s1: "sec_safe b s1" using u0 u1 safe untouched_safe by blast
  have eq: "sec_slots s = sec_slots s1" "sec_slots s0 = sec_slots s1" using u0 u1 by (simp_all add: untouched_def)
  let ?t = "s1\<lparr>sec_boot_valid := [v0, v1]\<rparr>"
  have t: "sec_safe b ?t" using s1 by (simp add: sec_safe_def next_q_def)
  have run: "boot_records s = (case choose_slot v0 v1 (sec_slots s1) of None \<Rightarrow> boot_lock ?t | Some None \<Rightarrow> boot_no_slot ?t
       | Some (Some chosen) \<Rightarrow> boot_slot chosen [v0, v1] ?t)"
    using 0 1 by (simp add: boot_records_def Let_def)
  have "sec_safe b (boot_slot i [v0, v1] ?t)" if "choose_slot v0 v1 (sec_slots s1) = Some (Some i)" for i
    by (rule boot_slot_safe) (use choose_slot_valid [OF that] s1 u0 u1 eq in \<open>auto simp: sec_safe_def\<close>)
  moreover note t [THEN sec_safe_slots, THEN boot_lock_safe] boot_no_slot_safe [OF t]
  ultimately show ?thesis unfolding run by (simp only: split: option.split) blast
qed

lemma sec_boot_safe:
  assumes safe: "slots_safe b (sec_slots s)"
  shows "sec_safe b (sec_boot I s)"
proof -
  define s0 where "s0 = s\<lparr>sec_state := SEC_ST_BOOTING, sec_key_I := I\<rparr>"
  obtain r1 s1 where 1: "sec_load_hw_keys_i (fe_rep sim_puf_read (sec_helper s0) 0) I s0 = (r1, s1)" by (rule prod.exhaust)
  obtain r2 s2 where 2: "boot_unwrap (s1\<lparr>sec_key_loaded := True\<rparr>) = (r2, s2)" by (rule prod.exhaust)
  have "sec_safe b s0" using safe by (simp add: s0_def sec_safe_def)
  with untouched_load_hw_keys [OF 1] have s1: "sec_safe b s1" by (rule untouched_safe)
  then have "sec_safe b (s1\<lparr>sec_key_loaded := True\<rparr>)" by (simp add: sec_safe_def next_q_def)
  with untouched_boot_unwrap [OF 2] have s2: "sec_safe b s2" by (rule untouched_safe)
  have run: "sec_boot I s = (case r1 of Inl _ \<Rightarrow> boot_lock s1 | Inr _ \<Rightarrow> if \<not> r2 then boot_lock s2 else boot_records s2)"
    using 1 2 by (simp add: sec_boot_def Let_def s0_def [symmetric] split: sum.splits bool.splits)
  note s1 [THEN sec_safe_slots, THEN boot_lock_safe] s2 [THEN sec_safe_slots, THEN boot_lock_safe] boot_records_safe [OF s2]
  then show ?thesis unfolding run by (simp only: split: sum.split if_split) blast
qed

section \<open>Signing and commands\<close>

lemma burn_safe:
  assumes "committed SEC_ST_IDLE (q + 1) s s' \<or> uncommitted s s'" and "sec_safe b s" and "b \<le> Suc (unat q)" and "q < m"
  shows "sec_safe b s'"
  using assms(1)
proof
  assume c: "committed SEC_ST_IDLE (q + 1) s s'"
  have "unat (q + 1) < 2 ^ 32" using unsigned_less [of "q + 1"] by simp
  then show ?thesis
    by (intro committed_safe [OF c sec_safe_slots [OF assms(2)]]) (use assms(3) unat_Suc_below [OF assms(4)] in simp_all)
qed (use assms(2) uncommitted_safe in blast)

lemma reserve_safe:
  assumes "committed SEC_ST_RESERVED q s s'" and "sec_safe b s" and "b \<le> unat q" and "q < m"
  shows "sec_safe b s'"
proof -
  have "unat (q + 1) < 2 ^ 32" using unsigned_less [of "q + 1"] by simp
  then show ?thesis
    by (intro committed_safe [OF assms(1) sec_safe_slots [OF assms(2)]]) (use assms(3) unat_Suc_below [OF assms(4)] in simp_all)
qed

text \<open>Releasing leaf \<open>q\<close> leaves \<open>RESERVED(q)\<close> in one slot and \<open>IDLE(q + 1)\<close> in the other.\<close>

lemma release_safe:
  assumes c: "committed SEC_ST_RESERVED q s s1" "uncommitted s1 s2" "committed SEC_ST_IDLE (q + 1) s2 s'"
    and safe: "slots_safe b (sec_slots s)" and q: "q < m"
  shows "sec_safe (Suc (unat q)) s'"
proof -
  note d1 = committedD [OF c(1)] and d2 = uncommittedD [OF c(2)] and d3 = committedD [OF c(3)]
  obtain tag where t: "length tag \<le> 16"
      "sec_slots s1 = (sec_slots s)[1 - sec_active_slot s := encode_body SEC_ST_RESERVED q (sec_last_tx s1) @ tag]"
    using d1(5) by blast
  obtain tag' where t': "length tag' \<le> 16"
      "sec_slots s' = (sec_slots s2)[1 - sec_active_slot s2 := encode_body SEC_ST_IDLE (q + 1) (sec_last_tx s') @ tag']"
    using d3(5) by blast
  have b: "unat (q + 1) = Suc (unat q)" by (rule unat_Suc_below [OF q])
  have "unat (q + 1) < 2 ^ 32" using unsigned_less [of "q + 1"] by simp
  then have l: "Suc (unat q) < 2 ^ 32" using b by simp
  have r: "rec_safe (Suc (unat q)) (encode_body SEC_ST_RESERVED q (sec_last_tx s1) @ tag)"
    by (rule rec_safe_encode [OF t(1)]) (use l in simp_all)
  have r': "rec_safe (Suc (unat q)) (encode_body SEC_ST_IDLE (q + 1) (sec_last_tx s') @ tag')"
    by (rule rec_safe_encode [OF t'(1)]) (use l b in simp_all)
  obtain x y where xy: "sec_slots s = [x, y]" using safe by (auto simp: slots_safe_two)
  have "slots_safe (Suc (unat q)) (sec_slots s')"
    using r r' xy by (cases "sec_active_slot s") (simp_all add: t(2) t'(2) d2(4,5) d1(4) slots_safe_two encode_body_fields)
  then show ?thesis using b d3(1,2) by (simp add: sec_safe_def next_q_def)
qed

lemma sec_sign_safe:
  assumes run: "sec_sign max_ctr f s = ((rc, q), s')" and safe: "sec_safe b s"
  shows "sec_safe b s' \<and> (rc = SEC_OK \<longrightarrow> b \<le> unat q \<and> sec_safe (Suc (unat q)) s')"
  using run sec_safe_length [OF safe]
proof (cases rule: sec_sign_cases)
  case gated
  then show ?thesis using safe by (auto simp: sec_safe_def next_q_def)
next
  case (unreserved s1)
  have "b \<le> unat (sec_ctr s)" using safe unreserved(2) by (simp add: sec_safe_def next_q_def)
  then show ?thesis using burn_safe [OF unreserved(5) uncommitted_safe [OF unreserved(4) safe] _ unreserved(3)] unreserved(1) by simp
next
  case (burned s1 s2)
  have b: "b \<le> unat (sec_ctr s)" using safe burned(2) by (simp add: sec_safe_def next_q_def)
  show ?thesis
    using burn_safe [OF burned(6) uncommitted_safe [OF burned(5) reserve_safe [OF burned(4) safe b burned(3)]] _ burned(3)]
      burned(1) b by simp
next
  case (released s1 s2)
  have b: "b \<le> unat (sec_ctr s)" using safe released(3) by (simp add: sec_safe_def next_q_def)
  have "sec_safe b s'"
    using burn_safe [OF disjI1 [OF released(8)] uncommitted_safe [OF released(7) reserve_safe [OF released(6) safe b released(5)]] _ released(5)]
      b by simp
  then show ?thesis using release_safe [OF released(6,7,8) sec_safe_slots [OF safe] released(5)] b released(2) by simp
qed

lemma uart_commit_safe:
  assumes run: "uart_commit params response s = (r, s')" and safe: "sec_safe b s"
    and c: "get_be32 (drop 4 params) \<noteq> 0xffffffff"
  shows "sec_safe b s'"
proof (cases "s' = s")
  case True
  then show ?thesis using safe by simp
next
  case False
  define st c where "st = (ucast (get_be32 params AND 0xffff) :: u16)" and "c = get_be32 (drop 4 params)"
  obtain ok t where sc: "state_commit st c s = (ok, t)" by (rule prod.exhaust)
  have allowed: "sec_uart_commit_allowed st c s" "s' = t" "sec_state s \<notin> {SEC_ST_ERROR_LOCKED, SEC_ST_BOOTING}"
    using run False sc by (auto simp: uart_commit_def Let_def st_def [symmetric] c_def [symmetric] split: if_splits bool.splits)
  have le: "b \<le> unat c + of_bool (st = SEC_ST_RESERVED)"
    using allowed(1,3) safe by (auto simp: sec_safe_def sec_uart_commit_allowed_def next_q_def word_le_nat_alt word_less_nat_alt split: if_splits)
  have "unat c \<noteq> unat (0xffffffff :: u32)" using assms(3) by (simp only: c_def word_unat_eq_iff [symmetric] not_False_eq_True)
  then have lt: "unat c + of_bool (st = SEC_ST_RESERVED) < 2 ^ 32" using unsigned_less [of c] by auto
  show ?thesis
    using state_commit_cases [OF sc sec_safe_length [OF safe]] committed_safe [OF _ sec_safe_slots [OF safe] le lt]
      uncommitted_safe [OF _ safe] allowed(2) by (cases ok) simp_all
qed

lemma inject_tag_safe:
  assumes "rec_safe b rec"
  shows "rec_safe b (rec[48 := x]) \<and> get_be32 (rec[48 := x]) = get_be32 rec"
proof -
  have "drop n (rec[48 := x]) ! k = drop n rec ! k" if "n + k < 48" for n k
    using that by (cases "n \<le> length rec") (simp_all add: drop_update_swap)
  from this [of 0] this [of 4] this [of 6] assms show ?thesis by (simp add: rec_safe_def rec_next_def get_be32_def get_be16_def)
qed

lemma uart_safe:
  assumes run: "sec_handle_uart_cmd sub params s = (r, s')" and safe: "sec_safe b s"
    and "sub \<noteq> 8" and "sub = 1 \<Longrightarrow> get_be32 (drop 4 params) \<noteq> 0xffffffff"
  shows "sec_safe b s'"
proof -
  consider "sub = 1" | "sub = 4" | "sub = 5" | "sub \<notin> {1, 4, 5, 8}" using assms(3) by auto
  then show ?thesis
  proof cases
    case 1
    with run obtain response where "uart_commit params response s = (r, s')" by (auto simp: sec_handle_uart_cmd_def Let_def)
    then show ?thesis by (rule uart_commit_safe) (use safe assms(4) 1 in auto)
  next
    case 2
    obtain x y where xy: "sec_slots s = [x, y]" using sec_safe_slots [OF safe] by (auto simp: slots_safe_two)
    have "slots_safe b ([x, y][sec_active_slot s := ([x, y] ! sec_active_slot s)[48 := v]])" for v
      using sec_safe_slots [OF safe] inject_tag_safe [of b _ v] unfolding xy
      by (cases "sec_active_slot s"; cases "sec_active_slot s - 1") (auto simp: slots_safe_two)
    then show ?thesis using run 2 safe xy by (auto simp: sec_handle_uart_cmd_def Let_def sec_safe_def next_q_def split: if_splits)
  next
    case 3
    then have "s' = sec_boot (take 16 params) s" using run by (simp add: sec_handle_uart_cmd_def Let_def)
    then show ?thesis using sec_boot_safe [OF sec_safe_slots [OF safe]] by simp
  next
    case 4
    then show ?thesis using untouched_safe [OF uart_untouched [OF run]] safe by blast
  qed
qed


section \<open>The life of a key\<close>

text \<open>What the host does after a power cycle: the firmware initialises its state (whatever the RAM
  \<open>z\<close> held) and the host stores the two records back with \<open>NVM_LOAD\<close>.\<close>

definition nvm_load :: "nat \<Rightarrow> bytes \<Rightarrow> 'h sec_state_t \<Rightarrow> 'h sec_state_t" where
  "nvm_load slot rec s = snd (sec_handle_uart_cmd 8 (word_of_nat slot # rec) s)"

definition power_cycle :: "'h lms_mmio_client_t \<Rightarrow> 'h sec_state_t \<Rightarrow> 'h sec_state_t \<Rightarrow> 'h sec_state_t" where
  "power_cycle client z s = nvm_load 1 (sec_slots s ! 1) (nvm_load 0 (sec_slots s ! 0) (sec_init client z))"

text \<open>The life of one key, with the list of the released leaves. It starts at \<open>sec_init\<close> or with a
  successful \<open>sec_keygen_new\<close>. Each signature may be delivered or lost; power may be cut at any
  time, in particular after the reservation; a torn write may destroy one of the slots; the
  device may change arbitrarily. The UART commands are free, except that \<open>NVM_LOAD\<close> is used
  for the restore only and that \<open>COMMIT\<close> does not set the counter to its last value.\<close>

inductive sec_life :: "u32 list \<Rightarrow> 'h sec_state_t \<Rightarrow> bool" where
  init: "sec_life [] (sec_init client z)"
| new_key: "sec_keygen_new I z = ((SEC_OK, J), u) \<Longrightarrow> sec_life [] u"
| release: "sec_life qs t \<Longrightarrow> sec_sign max_ctr f t = ((SEC_OK, q), u) \<Longrightarrow> sec_life (qs @ [q]) u"
| unreleased: "sec_life qs t \<Longrightarrow> sec_sign max_ctr f t = (r, u) \<Longrightarrow> sec_life qs u"
| interrupted: "sec_life qs t \<Longrightarrow> sec_state t = SEC_ST_IDLE \<Longrightarrow> sec_ctr t < max_ctr \<Longrightarrow>
    state_commit SEC_ST_RESERVED (sec_ctr t) t = (ok, u) \<Longrightarrow> sec_life qs u"
| keygen: "sec_life qs t \<Longrightarrow> sec_keygen_key t = (rI, u) \<Longrightarrow> sec_life qs u"
| no_new_key: "sec_life qs t \<Longrightarrow> sec_keygen_new I t = ((rc, J), u) \<Longrightarrow> rc \<noteq> SEC_OK \<Longrightarrow> sec_life qs u"
| uart: "sec_life qs t \<Longrightarrow> sec_handle_uart_cmd sub params t = (ru, u) \<Longrightarrow> sub \<noteq> 8 \<Longrightarrow>
    (sub = 1 \<longrightarrow> get_be32 (drop 4 params) \<noteq> 0xffffffff) \<Longrightarrow> sec_life qs u"
| device: "sec_life qs t \<Longrightarrow> sec_life qs (t\<lparr>sec_client := client\<rparr>)"
| torn: "sec_life qs t \<Longrightarrow> i < 2 \<Longrightarrow> get_be32 (sec_slots t ! (1 - i)) = SEC_MAGIC_STATE \<Longrightarrow>
    length rec = 64 \<Longrightarrow> get_be32 rec \<noteq> SEC_MAGIC_STATE \<Longrightarrow> sec_life qs (t\<lparr>sec_slots := (sec_slots t)[i := rec]\<rparr>)"
| power: "sec_life qs t \<Longrightarrow> sec_life qs (power_cycle client z t)"

lemma nvm_load_slots: "slot < 2 \<Longrightarrow> length rec \<le> 64 \<Longrightarrow> sec_slots (nvm_load slot rec s) = (sec_slots s)[slot := rec]"
  "sec_state (nvm_load slot rec s) = sec_state s"
proof -
  have "unat (word_of_nat slot :: u8) = slot" if "slot < 2" using that by (simp add: unat_word_ariths unat_of_nat take_bit_nat_def)
  then show "slot < 2 \<Longrightarrow> length rec \<le> 64 \<Longrightarrow> sec_slots (nvm_load slot rec s) = (sec_slots s)[slot := rec]"
    by (simp add: nvm_load_def sec_handle_uart_cmd_def Let_def segment_def SEC_STATE_REC_LEN_def)
  show "sec_state (nvm_load slot rec s) = sec_state s" by (simp add: nvm_load_def sec_handle_uart_cmd_def Let_def)
qed

lemma power_cycle_safe:
  assumes "slots_safe b (sec_slots s)"
  shows "sec_safe b (power_cycle client z s) \<and> sec_slots (power_cycle client z s) = sec_slots s"
proof -
  obtain x y where xy: "sec_slots s = [x, y]" "length x \<le> 64" "length y \<le> 64"
    using assms by (auto simp: slots_safe_two rec_safe_def)
  then have "sec_slots (power_cycle client z s) = sec_slots s" by (simp add: power_cycle_def nvm_load_slots sec_init_def)
  then show ?thesis using assms by (simp add: sec_safe_def power_cycle_def nvm_load_slots(2) sec_init_def)
qed

lemma zero_slots_safe: "slots_safe 0 [replicate 64 0, replicate 64 0]"
  by (simp add: slots_safe_two rec_safe_def get_be32_def SEC_MAGIC_STATE_def)

lemma untouched_load_and_wrap: "load_and_wrap s = (r, s') \<Longrightarrow> untouched s s'"
  by (auto simp: load_and_wrap_def Let_def untouched_def split: prod.splits sum.splits dest!: untouched_on_mmio untouched_load_hw_keys)

lemma untouched_keygen_key:
  assumes "sec_keygen_key s = (r, s')"
  shows "untouched s s'"
proof -
  obtain I t where t: "(if test_mode s then (sec_key_I s, s) else case rnd_bytes LMS_I_LEN s of (I, s) \<Rightarrow> (I, s\<lparr>sec_key_I := I\<rparr>)) = (I, t)"
    by (rule prod.exhaust)
  then have "untouched s t" by (auto simp: untouched_def rnd_bytes_def split: if_splits prod.splits)
  moreover obtain w u where "load_and_wrap t = (w, u)" by (rule prod.exhaust)
  moreover from this have "untouched t u" by (rule untouched_load_and_wrap)
  moreover have "s' = u \<or> s' = u\<lparr>sec_key_loaded := True\<rparr>"
    using assms t calculation(2) by (auto simp: sec_keygen_key_def split: option.splits)
  ultimately show ?thesis by (auto simp: untouched_def)
qed

lemma untouched_keygen_new:
  assumes "sec_keygen_new I s = ((rc, J), s')" and "rc \<noteq> SEC_OK"
  shows "untouched s s'"
proof -
  obtain ok K t where t: "(if test_mode s then ((True, I), s\<lparr>sec_key_I := I\<rparr>) else draw_new_key I s) = ((ok, K), t)"
    by (metis prod.exhaust)
  have "untouched s t"
    using t by (auto simp: draw_new_key_def rnd_bytes_def untouched_def split: if_splits prod.splits sum.splits dest!: untouched_on_mmio)
  moreover obtain w u where u: "load_and_wrap t = (w, u)" by (rule prod.exhaust)
  moreover from this have "untouched t u" by (rule untouched_load_and_wrap)
  moreover have "s' = t \<or> s' = u" using assms t u by (auto simp: sec_keygen_new_def split: bool.splits option.splits)
  ultimately show ?thesis by (auto simp: untouched_def)
qed

lemma keygen_new_slots:
  "sec_keygen_new I z = ((SEC_OK, J), u) \<Longrightarrow> sec_slots u = [replicate 64 0, replicate 64 0]"
  by (auto simp: sec_keygen_new_def split: prod.splits bool.splits option.splits)

lemma torn_safe:
  assumes "sec_safe b t" and "i < 2" and "get_be32 (sec_slots t ! (1 - i)) = SEC_MAGIC_STATE"
    and "length rec = 64" and "get_be32 rec \<noteq> SEC_MAGIC_STATE"
  shows "sec_safe b (t\<lparr>sec_slots := (sec_slots t)[i := rec]\<rparr>)"
proof -
  have "rec_safe b rec" using assms(4,5) by (simp add: rec_safe_def)
  moreover have "i = 0 \<or> i = 1" using assms(2) by auto
  ultimately have "slots_safe b ((sec_slots t)[i := rec])" using sec_safe_slots [OF assms(1)] assms(3) by (auto simp: slots_safe_two)
  then show ?thesis using assms(1) by (simp add: sec_safe_def next_q_def)
qed

lemma life_bounds:
  "sec_life qs t \<Longrightarrow> \<exists>b. sec_safe b t \<and> sorted_wrt (<) (map unat qs) \<and> (\<forall>q \<in> set qs. unat q < b)"
proof (induction rule: sec_life.induct)
  case (init client z)
  then show ?case using zero_slots_safe by (auto simp: sec_safe_def sec_init_def)
next
  case (new_key I z J u)
  then show ?case using zero_slots_safe keygen_new_slots [OF new_key] by (auto simp: sec_safe_def)
next
  case (release qs t max_ctr f q u)
  then obtain b where b: "sec_safe b t" "sorted_wrt (<) (map unat qs)" "\<forall>q \<in> set qs. unat q < b" by blast
  have "b \<le> unat q" "sec_safe (Suc (unat q)) u" using sec_sign_safe [OF release(2) b(1)] by simp_all
  then show ?case using b(2,3) by (intro exI [of _ "Suc (unat q)"]) (fastforce simp: sorted_wrt_append)
next
  case (unreleased qs t max_ctr f r u)
  then show ?case using sec_sign_safe [of max_ctr f t "fst r" "snd r" u] by auto
next
  case (interrupted qs t max_ctr ok u)
  then obtain b where b: "sec_safe b t" "sorted_wrt (<) (map unat qs)" "\<forall>q \<in> set qs. unat q < b" by blast
  have "b \<le> unat (sec_ctr t)" using b(1) interrupted(2) by (simp add: sec_safe_def next_q_def)
  then have "sec_safe b u"
    using state_commit_cases [OF interrupted(4) sec_safe_length [OF b(1)]] reserve_safe [OF _ b(1) _ interrupted(3)]
      uncommitted_safe [OF _ b(1)] by (cases ok) simp_all
  then show ?case using b(2,3) by blast
next
  case (keygen qs t rI u)
  then show ?case using untouched_safe untouched_keygen_key by blast
next
  case (no_new_key qs t I rc J u)
  then show ?case using untouched_safe untouched_keygen_new by blast
next
  case (uart qs t sub params ru u)
  then show ?case using uart_safe by blast
next
  case (device qs t client)
  then show ?case by (simp add: sec_safe_def next_q_def)
next
  case (torn qs t i rec)
  then show ?case using torn_safe by blast
next
  case (power qs t client z)
  then show ?case using power_cycle_safe [OF sec_safe_slots] by blast
qed

lemma sorted_unat: "sorted_wrt (<) (map unat qs) \<Longrightarrow> sorted_wrt (<) qs \<and> distinct (qs :: u32 list)"
  by (induction qs) (auto simp: word_less_nat_alt)

definition sim_at :: "sim_dev \<Rightarrow> sim_dev lms_mmio_client_t" where
  "sim_at h = sim_client\<lparr>hw := h\<rparr>"

lemma sim_at_sel [simp]: "probed (sim_at h)" "capabilities (sim_at h) = 0x8fff" "timeout_polls (sim_at h) = 4" "hw (sim_at h) = h"
  "bus_read32 (sim_at h) = sim_read" "bus_write32 (sim_at h) = sim_write" "(sim_at h)\<lparr>hw := h'\<rparr> = sim_at h'" "(sim_at h)\<lparr>last_hw_error := 0\<rparr> = sim_at h"
  by (simp_all add: sim_at_def sim_client_def)

lemma sim_at_aligned: "buf_aligned (sim_at h) = (\<lambda>_. True)"
  by (simp add: sim_at_def sim_client_def)

lemma sim_wr: "wr32 off v (sim_at h) = (Inr (), sim_at (sim_write off v h))"
  by (simp add: wr32_def op_defs)

lemma sim_wrs: "\<forall>(off, v) \<in> set ws. off \<noteq> REG_COMMAND \<and> off \<noteq> REG_CONTROL \<Longrightarrow> wr32s ws (sim_at h) = (Inr (), sim_at h)"
  by (induction ws rule: wr32s.induct) (auto simp: op_defs sim_wr [unfolded op_defs] sim_write_def split: prod.splits)

lemma sim_prepare: "0x8fff AND cap = cap \<Longrightarrow> prepare_command cap (sim_at (cmd, st, mc)) = (Inr (), sim_at (cmd, False, mc))"
  by (simp add: prepare_command_def ensure_probe_def op_defs wr32_def rd32_def sim_write_def sim_read_def)


lemma sim_rd: "rd32 off (sim_at h) = (Inr (fst (sim_read off h)), sim_at h)"
  by (simp add: rd32_def op_defs sim_read_def split: prod.splits)

lemma for_each_same_state:
  assumes "\<And>i. f i s = (Inr (g i), s)"
  shows "for_each f is s = (Inr (map g is), s)"
  by (induction "is") (simp_all add: op_defs assms)

text \<open>Reads return the words of the device; the tag it computes is zero.\<close>

lemma sim_reads:
  "read_bytes base n (sim_at h) =
     (Inr (concat (map (\<lambda>k. word_bytes True n k (fst (sim_read (base + word_of_nat k) h))) (word_offsets n))), sim_at h)"
proof -
  let ?f = "\<lambda>offset. bind (rd32 (base + word_of_nat offset)) (\<lambda>word. ret (word_bytes True n offset word))"
  have "?f i (sim_at h) = (Inr (word_bytes True n i (fst (sim_read (base + word_of_nat i) h))), sim_at h)" for i
    by (simp add: bind_def sim_rd ret_def)
  from for_each_same_state [of ?f, OF this] show ?thesis by (simp add: read_bytes_def bind_look sim_at_aligned) (simp add: bind_def ret_def)
qed

lemma sim_wait:
  "wait_for_result True (sim_at (cmd, True, mc)) =
     (Inr (concat (map (\<lambda>k. word_bytes True LMS_N k (fst (sim_read (REG_OUTPUT + word_of_nat k) (cmd, True, mc)))) (word_offsets LMS_N)), 0),
      sim_at (cmd, True, mc))"
proof -
  note bs = sim_reads [of REG_OUTPUT LMS_N "(cmd, True, mc)"]
  have "poll_result (Suc n) (Some LMS_N) (sim_at (cmd, True, mc)) =
      (Inr (concat (map (\<lambda>k. word_bytes True LMS_N k (fst (sim_read (REG_OUTPUT + word_of_nat k) (cmd, True, mc)))) (word_offsets LMS_N)), 0),
       sim_at (cmd, True, mc))" for n
    using bs by (simp add: bind_def andthen_def ret_def modify_def sim_rd sim_read_def [of 16] sim_read_def [of 32])
  moreover have "unat (timeout_polls (sim_at (cmd, True, mc))) = Suc 3" by simp
  ultimately show ?thesis by (simp only: wait_for_result_def wait_for_result_n_def bind_look if_True)
qed

lemma sim_zero_output:
  assumes "cmd \<noteq> CMD_MC_STEP" and "cmd \<noteq> CMD_STATE_COMMIT"
  shows "wait_for_result True (sim_at (cmd, True, mc)) = (Inr (replicate 32 0, 0), sim_at (cmd, True, mc))"
proof -
  have offs: "word_offsets 32 = [0, 4, 8, 12, 16, 20, 24, 28]" by (simp add: word_offsets_def upt_rec)
  have "fst (sim_read off (cmd, True, mc)) = 0" if "off \<noteq> REG_STATUS" for off using assms that by (simp add: sim_read_def)
  then have "concat (map (\<lambda>k. word_bytes True LMS_N k (fst (sim_read (REG_OUTPUT + word_of_nat k) (cmd, True, mc)))) (word_offsets LMS_N))
      = store_le32 0 @ store_le32 0 @ store_le32 0 @ store_le32 0 @ store_le32 0 @ store_le32 0 @ store_le32 0 @ store_le32 0"
    by (simp add: LMS_N_def offs word_bytes_def)
  also have "\<dots> = replicate 32 0" by code_simp
  finally show ?thesis unfolding sim_wait by simp
qed

lemma sim_key_load:
  assumes "length k = 32" and "slot = KEY_KWRAP \<or> slot = KEY_KSTATE"
  shows "lms_mmio_key_slot_load_test slot k (sim_at (cmd, st, mc)) = (Inr (), sim_at (CMD_SEED_LOAD, True, mc))"
proof -
  have "set (word_offsets 32) = {0, 4, 8, 12, 16, 20, 24, 28}" by (auto simp: word_offsets_def upt_rec)
  then have w: "write_bytes REG_KWRAP k (sim_at h) = (Inr (), sim_at h)" for h
    unfolding write_bytes_def bind_look by (intro sim_wrs) (auto simp: assms(1))
  show ?thesis using assms(2) w
    by (auto simp: sim_zero_output lms_mmio_key_slot_load_test_def andthen_def bind_def reject_if_def ret_def sim_prepare sim_wr start_command_def sim_write_def)
qed

lemma sim_wrap_seed: "\<exists>w. lms_mmio_wrap_seed (sim_at (cmd, st, mc)) = (Inr w, sim_at (CMD_WRAP_SEED, True, mc))"
  by (simp add: lms_mmio_wrap_seed_def andthen_def bind_def sim_prepare sim_wr start_command_def sim_write_def sim_zero_output sim_reads)

lemma sim_hmac:
  assumes "length m = 49"
  shows "lms_mmio_hmac_kstate m (sim_at (cmd, st, mc)) = (Inr (replicate 32 0), sim_at (CMD_HMAC_KSTATE, True, mc))"
proof -
  have "set (word_offsets 49) = (\<lambda>k. 4 * k) ` {0..12}" by (auto simp: word_offsets_def)
  then have "set (word_offsets 49) = {0, 4, 8, 12, 16, 20, 24, 28, 32, 36, 40, 44, 48}" by (simp add: atLeastAtMost_upt upt_rec)
  then have w: "write_bytes REG_INPUT m (sim_at h) = (Inr (), sim_at h)" for h
    unfolding write_bytes_def bind_look by (intro sim_wrs) (auto simp: assms(1))
  show ?thesis using assms w
    by (simp add: lms_mmio_hmac_kstate_def andthen_def bind_def reject_if_def ret_def sim_prepare sim_wr start_command_def
        sim_write_def sim_zero_output)
qed

lemma sim_rec_valid:
  assumes "sec_client s = sim_at (cmd, b, mc)"
  shows "rec_valid (encode_body st c tx @ replicate 16 0) i s =
    (True, (set_diag i 0 s)\<lparr>sec_client := sim_at (CMD_HMAC_KSTATE, True, mc)\<rparr>)"
  using assms
  by (simp add: rec_valid_def encode_body_fields compute_tag_def on_mmio_def sim_hmac build_aad_def SEC_BODY_LEN_def
      SEC_STATE_TAG_LEN_def set_diag_def segment_def)

lemma sec_kdf_spec:
  "sec_kdf k_dev I label = sha256_spec (ascii ''LMS-KDF'' @ 0 # label @ 0 # I @ 0 # k_dev)"
  using sha_absorbed_uninit [THEN sha_absorbed_update [where data = "ascii ''LMS-KDF''"], THEN sha_absorbed_update [where data = "[0]"],
      THEN sha_absorbed_update [where data = label], THEN sha_absorbed_update [where data = "[0]"],
      THEN sha_absorbed_update [where data = I], THEN sha_absorbed_update [where data = "[0]"],
      THEN sha_absorbed_update [where data = k_dev], THEN sha256_final_spec]
  by (simp add: sec_kdf_def)

lemma sim_load_hw_keys:
  assumes "sec_client s = sim_at (cmd, st, mc)"
  shows "sec_load_hw_keys_i k I s = (Inr (), s\<lparr>sec_client := sim_at (CMD_SEED_LOAD, True, mc)\<rparr>)"
  using assms by (simp add: sec_load_hw_keys_i_def Let_def on_mmio_def sim_key_load sec_kdf_spec)

definition sim_ram :: "sim_dev sec_state_t" where
  "sim_ram = (sim_sec 0)\<lparr>sec_client := sim_at (0, False, 0), test_mode := True\<rparr>"

abbreviation sim_do_sign :: "(u32 \<Rightarrow> sim_dev lms_mmio_client_t \<Rightarrow> bool \<times> sim_dev lms_mmio_client_t) option" where
  "sim_do_sign \<equiv> Some (\<lambda>q c. (True, c))"

lemma sim_new_key:
  "\<exists>w. sec_keygen_new (replicate 16 0) sim_ram = ((SEC_OK, replicate 16 0), sim_ram\<lparr>sec_client := sim_at (CMD_WRAP_SEED, True, 0),
     sec_wrapped_blob := w, sec_wrapped_valid := True, sec_key_index := 1\<rparr>)"
proof -
  obtain w where "lms_mmio_wrap_seed (sim_at (CMD_SEED_LOAD, True, 0)) = (Inr w, sim_at (CMD_WRAP_SEED, True, 0))"
    using sim_wrap_seed by blast
  then show ?thesis
    by (simp add: sec_keygen_new_def load_and_wrap_def Let_def sim_ram_def sim_sec_def sim_load_hw_keys [of _ 0 False 0] on_mmio_def)
qed


text \<open>The state after the new key, the slots its first signature leaves, and the state that is
  restored from them.\<close>

definition sim_keyed :: "bytes \<Rightarrow> sim_dev sec_state_t" where
  "sim_keyed w = sim_ram\<lparr>sec_client := sim_at (CMD_WRAP_SEED, True, 0), sec_wrapped_blob := w, sec_wrapped_valid := True, sec_key_index := 1\<rparr>"

definition sim_slots :: "bytes list" where
  "sim_slots = [encode_body SEC_ST_IDLE 1 2 @ replicate 16 0, encode_body SEC_ST_RESERVED 0 1 @ replicate 16 0]"

definition sim_restored :: "sim_dev sec_state_t" where
  "sim_restored = (sec_init (sim_at (0, False, 2)) sim_ram)\<lparr>sec_slots := sim_slots, sec_slot_valid := [True, True]\<rparr>"

lemma sim_first_sign:
  "fst (sec_sign 32 sim_do_sign (sim_keyed w)) = (SEC_OK, 0)"
  "sec_slots (snd (sec_sign 32 sim_do_sign (sim_keyed w))) = sim_slots"
  by code_simp+

lemma sim_power_cycle:
  assumes "sec_slots t = sim_slots"
  shows "power_cycle (sim_at (0, False, 2)) sim_ram t = sim_restored"
  using assms
  by (simp add: power_cycle_def nvm_load_def sec_handle_uart_cmd_def Let_def sim_restored_def sec_init_def segment_def
      sim_slots_def SEC_STATE_REC_LEN_def)

lemmas sim_slot_fields = encode_body_fields [simplified]

definition sim_booted :: "bytes \<Rightarrow> sim_dev sec_state_t" where
  "sim_booted I = sim_restored\<lparr>sec_state := SEC_ST_IDLE, sec_ctr := 1, sec_last_tx := 2, sec_key_I := I, sec_key_loaded := True,
     sec_boot_valid := [True, True], sec_factory_locked := True, sec_client := sim_at (CMD_HMAC_KSTATE, True, 2)\<rparr>"

lemma sim_boot: "sec_boot I sim_restored = sim_booted I"
proof -
  define p where "p = sim_restored\<lparr>sec_state := SEC_ST_BOOTING, sec_key_I := I, sec_client := sim_at (CMD_SEED_LOAD, True, 2), sec_key_loaded := True\<rparr>"
  have "sec_boot I sim_restored = (case boot_unwrap p of (False, s) \<Rightarrow> boot_lock s | (True, s) \<Rightarrow> boot_records s)"
    by (simp add: sec_boot_def sim_load_hw_keys [of _ 0 False 2] p_def sim_restored_def sec_init_def)
  moreover have sel: "choose_slot True True [encode_body 1 1 2 @ replicate 16 0, encode_body 2 0 1 @ replicate 16 0] = Some (Some 0)"
    by code_simp
  moreover have "boot_unwrap p = (True, p)"
    by (simp add: boot_unwrap_def p_def sim_restored_def sec_init_def sim_ram_def)
  moreover have "boot_records p = boot_slot 0 [True, True] (p\<lparr>sec_client := sim_at (CMD_HMAC_KSTATE, True, 2), sec_boot_valid := [True, True]\<rparr>)"
    by (simp add: boot_records_def p_def sim_restored_def sim_slots_def sim_rec_valid set_diag_def sel sim_ram_def sim_sec_def sec_init_def)
  moreover have "\<dots> = sim_booted I"
    by (simp add: boot_slot_def p_def sim_booted_def boot_done_def sim_restored_def sim_slots_def sim_slot_fields sim_ram_def sim_sec_def sec_init_def)
  ultimately show ?thesis by simp
qed

lemma sim_boot_sign: "fst (sec_sign 32 sim_do_sign (sec_boot I sim_restored)) = (SEC_OK, 1)"
  unfolding sim_boot by code_simp


section \<open>The last counter value\<close>



end
