(* ===== verification/Haraka_Full.thy ===== *)
theory Haraka_Full
  imports Haraka
begin

text \<open>
  The rest of \<open>hashs/haraka.c\<close>: the 32-bit AES rounds and the fixed-length functions made from them, the
  full derivation of the tweaked constants, and the incremental sponge. The bit-sliced S-box is
  the S-box of AES, and the incremental sponge computes \<open>haraka_S\<close>.
\<close>

section \<open>Fixed-length functions\<close>

definition br_aes_ct_bitslice_Sbox :: "u32 list \<Rightarrow> u32 list" where
  "br_aes_ct_bitslice_Sbox q = bitslice_Sbox q"

text \<open>\<open>SWAPN_32(cl, ch, s, q[i], q[j])\<close>.\<close>

definition swapn_32 :: "u32 \<Rightarrow> u32 \<Rightarrow> nat \<Rightarrow> nat \<Rightarrow> nat \<Rightarrow> u32 list \<Rightarrow> u32 list" where
  "swapn_32 cl ch s i j q =
     (let a = q ! i; b = q ! j
      in q[i := (a AND cl) OR push_bit s (b AND cl), j := drop_bit s (a AND ch) OR (b AND ch)])"

definition swap2_32 :: "nat \<Rightarrow> nat \<Rightarrow> u32 list \<Rightarrow> u32 list" where
  "swap2_32 = swapn_32 0x55555555 0xAAAAAAAA 1"

definition swap4_32 :: "nat \<Rightarrow> nat \<Rightarrow> u32 list \<Rightarrow> u32 list" where
  "swap4_32 = swapn_32 0x33333333 0xCCCCCCCC 2"

definition swap8_32 :: "nat \<Rightarrow> nat \<Rightarrow> u32 list \<Rightarrow> u32 list" where
  "swap8_32 = swapn_32 0x0F0F0F0F 0xF0F0F0F0 4"

definition br_aes_ct_ortho :: "u32 list \<Rightarrow> u32 list" where
  "br_aes_ct_ortho q =
     (let q = swap2_32 6 7 (swap2_32 4 5 (swap2_32 2 3 (swap2_32 0 1 q)));
          q = swap4_32 5 7 (swap4_32 4 6 (swap4_32 1 3 (swap4_32 0 2 q)))
      in swap8_32 3 7 (swap8_32 2 6 (swap8_32 1 5 (swap8_32 0 4 q))))"

definition add_round_key32 :: "u32 list \<Rightarrow> u32 list \<Rightarrow> u32 list" where
  "add_round_key32 q sk = map (\<lambda>i. q ! i XOR sk ! i) [0..<8]"

definition shift_rows32 :: "u32 list \<Rightarrow> u32 list" where
  "shift_rows32 q =
     map (\<lambda>x. (x AND 0x000000FF)
            OR drop_bit 2 (x AND 0x0000FC00) OR push_bit 6 (x AND 0x00000300)
            OR drop_bit 4 (x AND 0x00F00000) OR push_bit 4 (x AND 0x000F0000)
            OR drop_bit 6 (x AND 0xC0000000) OR push_bit 2 (x AND 0x3F000000)) q"

definition rotr16 :: "u32 \<Rightarrow> u32" where
  "rotr16 x = push_bit 16 x OR drop_bit 16 x"

definition mix_columns32 :: "u32 list \<Rightarrow> u32 list" where
  "mix_columns32 q =
     (let q0 = q ! 0; q1 = q ! 1; q2 = q ! 2; q3 = q ! 3;
          q4 = q ! 4; q5 = q ! 5; q6 = q ! 6; q7 = q ! 7;
          r0 = drop_bit 8 q0 OR push_bit 24 q0; r1 = drop_bit 8 q1 OR push_bit 24 q1;
          r2 = drop_bit 8 q2 OR push_bit 24 q2; r3 = drop_bit 8 q3 OR push_bit 24 q3;
          r4 = drop_bit 8 q4 OR push_bit 24 q4; r5 = drop_bit 8 q5 OR push_bit 24 q5;
          r6 = drop_bit 8 q6 OR push_bit 24 q6; r7 = drop_bit 8 q7 OR push_bit 24 q7
      in [q7 XOR r7 XOR r0 XOR rotr16 (q0 XOR r0),
          q0 XOR r0 XOR q7 XOR r7 XOR r1 XOR rotr16 (q1 XOR r1),
          q1 XOR r1 XOR r2 XOR rotr16 (q2 XOR r2),
          q2 XOR r2 XOR q7 XOR r7 XOR r3 XOR rotr16 (q3 XOR r3),
          q3 XOR r3 XOR q7 XOR r7 XOR r4 XOR rotr16 (q4 XOR r4),
          q4 XOR r4 XOR r5 XOR rotr16 (q5 XOR r5),
          q5 XOR r5 XOR r6 XOR rotr16 (q6 XOR r6),
          q6 XOR r6 XOR r7 XOR rotr16 (q7 XOR r7)])"

definition interleave_constant32 :: "bytes \<Rightarrow> u32 list" where
  "interleave_constant32 inp =
     br_aes_ct_ortho (concat (map (\<lambda>i. [br_dec32le (drop (4 * i) inp), br_dec32le (drop (4 * i + 16) inp)]) [0..<4]))"

text \<open>The three tables \<open>tweak_constants\<close> writes; the one for the secret seed only when there is one.\<close>

record haraka_tables =
  tweaked512_rc64 :: "u64 list list"
  tweaked256_rc32 :: "u32 list list"
  tweaked256_rc32_sseed :: "u32 list list"

definition tweak_tables :: "bytes \<Rightarrow> bytes option \<Rightarrow> haraka_tables \<Rightarrow> haraka_tables" where
  "tweak_tables pk_seed sk_seed t =
     (let t = t\<lparr>tweaked512_rc64 := haraka512_rc64\<rparr>;
          t = (case sk_seed of None \<Rightarrow> t
               | Some sk \<Rightarrow> let buf = haraka_S (tweaked512_rc64 t) (40 * 16) sk
                   in t\<lparr>tweaked256_rc32_sseed := map (\<lambda>i. interleave_constant32 (drop (32 * i) buf)) [0..<10]\<rparr>);
          buf = haraka_S (tweaked512_rc64 t) (40 * 16) pk_seed
      in t\<lparr>tweaked256_rc32 := map (\<lambda>i. interleave_constant32 (drop (32 * i) buf)) [0..<10],
           tweaked512_rc64 := map (\<lambda>i. interleave_constant (drop (64 * i) buf)) [0..<10]\<rparr>)"

definition haraka512 :: "u64 list list \<Rightarrow> bytes \<Rightarrow> bytes" where
  "haraka512 rcs inp =
     (let buf = map2 (\<lambda>a b. a XOR b) (haraka512_perm rcs inp) (take 64 inp)
      in segment 8 8 buf @ segment 24 8 buf @ segment 32 8 buf @ segment 48 8 buf)"

definition haraka256_mix_word :: "u32 \<Rightarrow> u32" where
  "haraka256_mix_word t =
     (t AND 0x81818181) OR push_bit 1 (t AND 0x02020202) OR push_bit 2 (t AND 0x04040404) OR
     push_bit 3 (t AND 0x08080808) OR drop_bit 3 (t AND 0x10101010) OR drop_bit 2 (t AND 0x20202020) OR
     drop_bit 1 (t AND 0x40404040)"

definition haraka256_round :: "u32 list \<Rightarrow> u32 list \<Rightarrow> u32 list" where
  "haraka256_round rk q = add_round_key32 (mix_columns32 (shift_rows32 (br_aes_ct_bitslice_Sbox q))) rk"

definition haraka256_with :: "u32 list list \<Rightarrow> bytes \<Rightarrow> bytes" where
  "haraka256_with rcs inp =
     (let q = br_aes_ct_ortho (concat (map (\<lambda>i. [br_dec32le (drop (4 * i) inp), br_dec32le (drop (4 * i + 16) inp)]) [0..<4]));
          q = fold (\<lambda>i q. map haraka256_mix_word (haraka256_round (rcs ! (2 * i + 1)) (haraka256_round (rcs ! (2 * i)) q))) [0..<5] q;
          q = br_aes_ct_ortho q;
          out = concat (map (\<lambda>i. br_enc32le (q ! (2 * i))) [0..<4]) @ concat (map (\<lambda>i. br_enc32le (q ! (2 * i + 1))) [0..<4])
      in map2 (\<lambda>a b. a XOR b) out (take 32 inp))"

definition haraka256 :: "haraka_tables \<Rightarrow> bytes \<Rightarrow> bytes" where
  "haraka256 t inp = haraka256_with (tweaked256_rc32 t) inp"

definition haraka256_sk :: "haraka_tables \<Rightarrow> bytes \<Rightarrow> bytes" where
  "haraka256_sk t inp = haraka256_with (tweaked256_rc32_sseed t) inp"

section \<open>The incremental sponge\<close>

text \<open>The state is an array of 65 bytes; the last one counts bytes absorbed since the last permutation, or bytes of the
  last block not yet squeezed. It is at most 32; a larger one, from which the code would index out of the
  array, stops the loops here.\<close>

definition xor_at :: "nat \<Rightarrow> bytes \<Rightarrow> bytes \<Rightarrow> bytes" where
  "xor_at off m s = map (\<lambda>i. if off \<le> i \<and> i < off + length m then s ! i XOR m ! (i - off) else s ! i) [0..<length s]"

definition inc_perm :: "u64 list list \<Rightarrow> bytes \<Rightarrow> bytes" where
  "inc_perm rcs s = haraka512_perm rcs (take 64 s) @ drop 64 s"

definition haraka_S_inc_init :: bytes where
  "haraka_S_inc_init = replicate 65 0"

lemma length_xor_at [simp]: "length (xor_at off m s) = length s"
  by (simp add: xor_at_def)

lemma length_inc_perm [simp]: "length s = 65 \<Longrightarrow> length (inc_perm rcs s) = 65" "length s = 65 \<Longrightarrow> inc_perm rcs s ! 64 = s ! 64"
  by (simp_all add: inc_perm_def nth_append)

function haraka_S_inc_absorb :: "u64 list list \<Rightarrow> bytes \<Rightarrow> bytes \<Rightarrow> bytes" where
  "haraka_S_inc_absorb rcs s m =
     (let c = unat (s ! 64)
      in if length s = 65 \<and> c \<le> HARAKAS_RATE \<and> length m + c \<ge> HARAKAS_RATE
         then haraka_S_inc_absorb rcs (inc_perm rcs ((xor_at c (take (HARAKAS_RATE - c) m) s)[64 := 0])) (drop (HARAKAS_RATE - c) m)
         else (xor_at c m s)[64 := s ! 64 + word_of_nat (length m)])"
  by pat_completeness auto
termination
  by (relation "measure (\<lambda>(rcs, s, m). length m + unat (s ! 64))") (auto simp: HARAKAS_RATE_def)

declare haraka_S_inc_absorb.simps [simp del]

definition haraka_S_inc_finalize :: "bytes \<Rightarrow> bytes" where
  "haraka_S_inc_finalize s =
     (let s = s[unat (s ! 64) := s ! unat (s ! 64) XOR 0x1F];
          s = s[HARAKAS_RATE - 1 := s ! (HARAKAS_RATE - 1) XOR 128]
      in s[64 := 0])"

text \<open>The loop that squeezes whole and partial blocks, and the whole function: the bytes left over come first.\<close>

function inc_squeeze_blocks :: "u64 list list \<Rightarrow> nat \<Rightarrow> bytes \<Rightarrow> bytes \<times> bytes" where
  "inc_squeeze_blocks rcs outlen s =
     (if outlen = 0 then ([], s)
      else let s = inc_perm rcs s; i = min outlen HARAKAS_RATE;
               (out, s') = inc_squeeze_blocks rcs (outlen - i) (s[64 := word_of_nat (HARAKAS_RATE - i)])
           in (take i s @ out, s'))"
  by pat_completeness auto
termination
  by (relation "measure (\<lambda>(rcs, outlen, s). outlen)") (auto simp: HARAKAS_RATE_def)

declare inc_squeeze_blocks.simps [simp del]

definition haraka_S_inc_squeeze :: "u64 list list \<Rightarrow> nat \<Rightarrow> bytes \<Rightarrow> bytes \<times> bytes" where
  "haraka_S_inc_squeeze rcs outlen s =
     (let c = unat (s ! 64); i = min outlen c;
          out = map (\<lambda>j. s ! (HARAKAS_RATE - c + j)) [0..<i];
          (out', s') = inc_squeeze_blocks rcs (outlen - i) (s[64 := s ! 64 - word_of_nat i])
      in (out @ out', s'))"

section \<open>Incremental and one-shot\<close>

text \<open>The incremental state after the absorbed bytes: the state after the whole blocks, with the rest added.\<close>

definition inc_of :: "bytes \<times> bytes \<Rightarrow> bytes" where
  "inc_of sr = xor_at 0 (snd sr) (fst sr) @ [word_of_nat (length (snd sr))]"

lemma absorb_blocks_short: "length m < 32 \<Longrightarrow> haraka_absorb_blocks rcs s m = (s, m)"
  by (subst haraka_absorb_blocks.simps) (simp add: HARAKAS_RATE_def)

lemma absorb_blocks_long:
  "32 \<le> length m \<Longrightarrow> haraka_absorb_blocks rcs s m = haraka_absorb_blocks rcs (haraka512_perm rcs (haraka_xor_block (take 32 m) s)) (drop 32 m)"
  by (subst haraka_absorb_blocks.simps) (simp add: HARAKAS_RATE_def)

lemma absorb_blocks_append:
  "haraka_absorb_blocks rcs s (m @ m') = (case haraka_absorb_blocks rcs s m of (s', rest) \<Rightarrow> haraka_absorb_blocks rcs s' (rest @ m'))"
proof (induction rcs s m rule: haraka_absorb_blocks.induct)
  case (1 rcs s m)
  show ?case
  proof (cases "length m < 32")
    case True
    then show ?thesis by (simp add: absorb_blocks_short)
  next
    case False
    then show ?thesis using 1 by (simp add: absorb_blocks_long [of m] absorb_blocks_long [of "m @ m'"] HARAKAS_RATE_def)
  qed
qed

lemma absorb_blocks_state:
  assumes "length s = 64"
  shows "length (fst (haraka_absorb_blocks rcs s m)) = 64" "length (snd (haraka_absorb_blocks rcs s m)) < 32"
  using assms
proof (induction rcs s m rule: haraka_absorb_blocks.induct)
  case (1 rcs s m)
  { case 1
    then show ?case using "1.IH"(1) by (cases "length m < 32") (simp_all add: absorb_blocks_short absorb_blocks_long HARAKAS_RATE_def) }
  { case 2
    then show ?case using "1.IH"(2) by (cases "length m < 32") (simp_all add: absorb_blocks_short absorb_blocks_long HARAKAS_RATE_def) }
qed

lemma xor_at_append: "xor_at (length a) b (xor_at 0 a s) = xor_at 0 (a @ b) s"
  by (rule nth_equalityI) (auto simp: xor_at_def nth_append)

lemma xor_at_front: "off + length m \<le> length s \<Longrightarrow> xor_at off m (s @ t) = xor_at off m s @ t"
  by (rule nth_equalityI) (auto simp: xor_at_def nth_append)

lemma xor_at_block: "length m = 32 \<Longrightarrow> length s = 64 \<Longrightarrow> xor_at 0 m s = haraka_xor_block m s"
  by (rule nth_equalityI) (auto simp: xor_at_def haraka_xor_block_def HARAKAS_RATE_def nth_append)

lemma inc_absorb_of:
  assumes "length s = 64" and "length rest < 32"
  shows "haraka_S_inc_absorb rcs (inc_of (s, rest)) m = inc_of (haraka_absorb_blocks rcs s (rest @ m))"
  using assms
proof (induction "length m" arbitrary: s rest m rule: less_induct)
  case less
  have c: "unat (word_of_nat (length rest) :: u8) = length rest" using less.prems(2) by (simp add: unat_of_nat)
  show ?case
  proof (cases "length (rest @ m) < 32")
    case True
    then show ?thesis using less.prems
      by (subst haraka_S_inc_absorb.simps)
        (simp add: inc_of_def nth_append c HARAKAS_RATE_def absorb_blocks_short xor_at_front xor_at_append list_update_append)
  next
    case False
    let ?k = "32 - length rest"
    let ?s = "haraka512_perm rcs (haraka_xor_block (rest @ take ?k m) s)"
    have "xor_at (length rest) (take ?k m) (xor_at 0 rest s @ [word_of_nat (length rest)]) =
        haraka_xor_block (rest @ take ?k m) s @ [word_of_nat (length rest)]"
      using less.prems False by (simp add: xor_at_front xor_at_append xor_at_block)
    moreover have "length (haraka_xor_block (rest @ take ?k m) s) = 64" using less.prems False by (simp add: haraka_xor_block_def HARAKAS_RATE_def)
    ultimately have "haraka_S_inc_absorb rcs (inc_of (s, rest)) m = haraka_S_inc_absorb rcs (inc_of (?s, [])) (drop ?k m)"
      using less.prems False
      by (subst haraka_S_inc_absorb.simps) (simp add: inc_of_def nth_append c HARAKAS_RATE_def list_update_append inc_perm_def xor_at_def [of 0 "[]"] map_nth [of ?s, simplified] Let_def)
    also have "\<dots> = inc_of (haraka_absorb_blocks rcs ?s (drop ?k m))"
      using less.hyps [of "drop ?k m" ?s "[]"] less.prems False by simp
    also have "\<dots> = inc_of (haraka_absorb_blocks rcs s (rest @ m))"
      using less.prems False by (simp add: absorb_blocks_long [of "rest @ m"])
    finally show ?thesis .
  qed
qed

lemma fold_inc_absorb:
  "length s = 64 \<Longrightarrow> length rest < 32 \<Longrightarrow>
    fold (\<lambda>m st. haraka_S_inc_absorb rcs st m) ms (inc_of (s, rest)) = inc_of (haraka_absorb_blocks rcs s (rest @ concat ms))"
proof (induction ms arbitrary: s rest)
  case Nil
  then show ?case by (simp add: absorb_blocks_short)
next
  case (Cons m ms)
  obtain s' rest' where a: "haraka_absorb_blocks rcs s (rest @ m) = (s', rest')" by force
  have "length s' = 64" "length rest' < 32" using absorb_blocks_state [OF Cons.prems(1), of rcs "rest @ m"] a by simp_all
  then show ?case using Cons.IH [of s' rest'] Cons.prems absorb_blocks_append [of rcs s "rest @ m" "concat ms"] a by (simp add: inc_absorb_of)
qed

lemma pad_xor: "(0x1F :: u8) XOR 128 = 0x1F OR 128"
  by simp

lemma finalize_absorb:
  assumes "length s = 64" and "length rest < 32"
  shows "haraka_S_inc_finalize (inc_of (s, rest)) =
    haraka_xor_block ((overwrite 0 (rest @ [0x1F]) (replicate 32 0))[31 := overwrite 0 (rest @ [0x1F]) (replicate 32 0) ! 31 OR 128]) s @ [0]"
proof (rule nth_equalityI)
  have c: "unat (word_of_nat (length rest) :: u8) = length rest" using assms(2) by (simp add: unat_of_nat)
  let ?t = "overwrite 0 (rest @ [0x1F]) (replicate 32 0) :: bytes"
  have t: "length ?t = 32" "\<And>k. k < 32 \<Longrightarrow> ?t ! k = (if k < length rest then rest ! k else if k = length rest then 0x1F else 0)"
    using assms(2) by (auto simp: overwrite_def nth_append nth_Cons')
  have l: "length (inc_of (s, rest)) = 65" using assms by (simp add: inc_of_def)
  show "length (haraka_S_inc_finalize (inc_of (s, rest))) = length (haraka_xor_block (?t[31 := ?t ! 31 OR 128]) s @ [0])"
    using l t(1) assms(1) by (simp add: haraka_S_inc_finalize_def Let_def haraka_xor_block_def HARAKAS_RATE_def)
  fix i assume "i < length (haraka_S_inc_finalize (inc_of (s, rest)))"
  then have i: "i < 65" using l by (simp add: haraka_S_inc_finalize_def Let_def)
  have 64: "inc_of (s, rest) ! 64 = word_of_nat (length rest)" using assms(1) by (simp add: inc_of_def nth_append)
  have low: "inc_of (s, rest) ! k = (if k < length rest then s ! k XOR rest ! k else s ! k)" if "k < 64" for k
    using that assms(1) by (auto simp: inc_of_def nth_append xor_at_def)
  show "haraka_S_inc_finalize (inc_of (s, rest)) ! i = (haraka_xor_block (?t[31 := ?t ! 31 OR 128]) s @ [0]) ! i"
    using i assms l t low
    by (auto simp: haraka_S_inc_finalize_def Let_def 64 c haraka_xor_block_def HARAKAS_RATE_def nth_append nth_list_update xor.assoc pad_xor)
qed

text \<open>Byte \<open>i\<close> of the output of the sponge in state \<open>s\<close>.\<close>

definition squeezed :: "u64 list list \<Rightarrow> bytes \<Rightarrow> nat \<Rightarrow> u8" where
  "squeezed rcs s i = (haraka512_perm rcs ^^ Suc (i div 32)) s ! (i mod 32)"

lemma length_perm_pow [simp]: "length s = 64 \<Longrightarrow> length ((haraka512_perm rcs ^^ n) s) = 64"
  by (cases n) simp_all

lemma squeezed_Suc: "squeezed rcs s (32 + i) = squeezed rcs (haraka512_perm rcs s) i"
proof -
  have "(32 + i) div 32 = Suc (i div 32)" by simp
  then show ?thesis by (simp add: squeezed_def funpow_swap1)
qed

lemma block_squeezed: "n \<le> 32 \<Longrightarrow> take n (haraka512_perm rcs ((haraka512_perm rcs ^^ k) s)) = map (squeezed rcs s) [32 * k..<32 * k + n]"
  by (rule nth_equalityI) (simp_all add: squeezed_def)

lemma squeezeblocks_squeezed:
  "haraka_S_squeezeblocks rcs n s = (map (squeezed rcs s) [0..<32 * n], (haraka512_perm rcs ^^ n) s)"
proof (induction n arbitrary: s)
  case (Suc n)
  have "[0..<32 * Suc n] = [0..<32] @ map (\<lambda>i. 32 + i) [0..<32 * n]"
    using upt_add_eq_append [of 0 32 "32 * n"] map_add_upt [of 32 "32 * n"] by (simp add: add.commute)
  then have "map (squeezed rcs s) [0..<32 * Suc n] = map (squeezed rcs s) [0..<32] @ map (squeezed rcs (haraka512_perm rcs s)) [0..<32 * n]"
    by (simp only: map_append map_map o_def squeezed_Suc)
  moreover have "take 32 (haraka512_perm rcs s) = map (squeezed rcs s) [0..<32]" using block_squeezed [of 32 rcs 0 s] by simp
  ultimately show ?case using Suc by (simp add: Let_def HARAKAS_RATE_def funpow_swap1)
qed simp

lemma haraka_S_squeezed:
  "haraka_S rcs n m = map (squeezed rcs (haraka_S_absorb rcs (replicate 64 0) m 0x1F)) [0..<n]"
proof -
  let ?s = "haraka_S_absorb rcs (replicate 64 0) m 0x1F" and ?k = "n div 32"
  have n: "n = 32 * ?k + n mod 32" by simp
  have "map (squeezed rcs ?s) [0..<n] = map (squeezed rcs ?s) [0..<32 * ?k] @ map (squeezed rcs ?s) [32 * ?k..<32 * ?k + n mod 32]"
    using upt_add_eq_append [of 0 "32 * ?k" "n mod 32"] n by (metis le0 map_append)
  moreover have "take (n mod 32) (take 32 (haraka512_perm rcs ((haraka512_perm rcs ^^ ?k) ?s))) = map (squeezed rcs ?s) [32 * ?k..<32 * ?k + n mod 32]"
    using block_squeezed [of "n mod 32" rcs ?k ?s] by (simp add: min.absorb1 less_imp_le)
  moreover have "map (squeezed rcs t) [0..<32] = take 32 (haraka512_perm rcs t)" for t using block_squeezed [of 32 rcs 0 t] by simp
  moreover have "n mod 32 = 0 \<longrightarrow> n \<le> 32 * ?k" using n by linarith
  ultimately show ?thesis by (simp add: haraka_S_def Let_def squeezeblocks_squeezed)
qed

text \<open>The incremental state after \<open>N\<close> bytes of output.\<close>

definition squeezed_state :: "u64 list list \<Rightarrow> bytes \<Rightarrow> nat \<Rightarrow> bytes" where
  "squeezed_state rcs s N = (let k = (N + 31) div 32 in (haraka512_perm rcs ^^ k) s @ [word_of_nat (32 * k - N)])"

lemma inc_blocks_squeezed:
  assumes "length s = 64"
  shows "inc_squeeze_blocks rcs n (squeezed_state rcs s (32 * k)) = (map (squeezed rcs s) [32 * k..<32 * k + n], squeezed_state rcs s (32 * k + n))"
proof (induction n arbitrary: k rule: less_induct)
  case (less n)
  show ?case
  proof (cases "n = 0")
    case True
    then show ?thesis by (simp add: inc_squeeze_blocks.simps)
  next
    case False
    let ?i = "min n 32" and ?p = "(haraka512_perm rcs ^^ k) s"
    have st: "squeezed_state rcs s (32 * k) = ?p @ [0]" by (simp add: squeezed_state_def)
    have next': "squeezed_state rcs s (32 * k + ?i) = haraka512_perm rcs ?p @ [word_of_nat (32 - ?i)]"
    proof -
      have "(32 * k + ?i + 31) div 32 = Suc k" using False by (auto simp: min_def)
      then show ?thesis by (simp add: squeezed_state_def)
    qed
    have perm: "inc_perm rcs (?p @ [0]) = haraka512_perm rcs ?p @ [0]" using assms by (simp add: inc_perm_def)
    have step: "inc_squeeze_blocks rcs n (squeezed_state rcs s (32 * k)) =
        (case inc_squeeze_blocks rcs (n - ?i) (squeezed_state rcs s (32 * k + ?i)) of
           (out, s') \<Rightarrow> (map (squeezed rcs s) [32 * k..<32 * k + ?i] @ out, s'))"
      unfolding st next' using False block_squeezed [of ?i rcs k s]
      by (subst inc_squeeze_blocks.simps) (simp add: perm Let_def HARAKAS_RATE_def list_update_append)
    show ?thesis
    proof (cases "n \<le> 32")
      case True
      then show ?thesis unfolding step by (simp add: min_def inc_squeeze_blocks.simps)
    next
      case False
      then have i: "?i = 32" by simp
      have e: "32 * Suc k = 32 * k + 32" by simp
      have "[32 * k..<32 * k + n] = [32 * k..<32 * k + 32] @ [32 * k + 32..<32 * k + n]"
        using False upt_add_eq_append [of "32 * k" "32 * k + 32" "n - 32"] by simp
      then show ?thesis unfolding step i using less.IH [of "n - 32" "Suc k", unfolded e] False by simp
    qed
  qed
qed

lemma inc_squeeze_squeezed:
  assumes s: "length s = 64"
  shows "haraka_S_inc_squeeze rcs n (squeezed_state rcs s N) = (map (squeezed rcs s) [N..<N + n], squeezed_state rcs s (N + n))"
proof -
  define k where "k = (N + 31) div 32"
  let ?c = "32 * k - N" and ?p = "(haraka512_perm rcs ^^ k) s"
  have c: "N \<le> 32 * k" "32 * k - N < 32" unfolding k_def by presburger+
  have st: "squeezed_state rcs s N = ?p @ [word_of_nat ?c]" by (simp add: squeezed_state_def k_def Let_def)
  have u: "unat (word_of_nat ?c :: u8) = ?c" using c(2) by (simp add: unat_of_nat)
  let ?i = "min n ?c"
  have old: "map (\<lambda>j. (?p @ [word_of_nat ?c]) ! (32 - ?c + j)) [0..<?i] = map (squeezed rcs s) [N..<N + ?i]"
  proof (rule nth_equalityI)
    fix j assume "j < length (map (\<lambda>j. (?p @ [word_of_nat ?c]) ! (32 - ?c + j)) [0..<?i])"
    then have j: "j < ?i" by simp
    then obtain k' where k': "k = Suc k'" using c by (cases k) auto
    have "N + j = (32 - ?c + j) + 32 * k'" "32 - ?c + j < 32" using j c k' by linarith+
    then have "(N + j) div 32 = k'" "(N + j) mod 32 = 32 - ?c + j" by (simp_all only: div_mult_self2 mod_mult_self2) simp_all
    then show "map (\<lambda>j. (?p @ [word_of_nat ?c]) ! (32 - ?c + j)) [0..<?i] ! j = map (squeezed rcs s) [N..<N + ?i] ! j"
      using j s k' c \<open>32 - ?c + j < 32\<close> by (simp add: squeezed_def nth_append)
  qed simp
  show ?thesis
  proof (cases "n < ?c")
    case True
    have "N + n + 31 = (63 - (?c - n)) + 32 * (k - 1)" "32 \<le> 63 - (?c - n)" "63 - (?c - n) < 64" "0 < k" using True c by linarith+
    then have "(N + n + 31) div 32 = k" by (simp only: div_mult_self2) simp
    then have "squeezed_state rcs s (N + n) = ?p @ [word_of_nat (?c - n)]" by (simp add: squeezed_state_def diff_diff_left)
    moreover have "(word_of_nat ?c - word_of_nat n :: u8) = word_of_nat (?c - n)" using True by (simp add: of_nat_diff)
    ultimately show ?thesis using True old s u unfolding haraka_S_inc_squeeze_def Let_def st
      by (simp add: nth_append HARAKAS_RATE_def inc_squeeze_blocks.simps list_update_append)
  next
    case False
    have b: "?p @ [0] = squeezed_state rcs s (32 * k)" by (simp add: squeezed_state_def)
    have "[N..<N + n] = [N..<N + ?c] @ [32 * k..<32 * k + (n - ?c)]"
      using False c upt_add_eq_append [of N "N + ?c" "n - ?c"] by (simp add: add.commute [of N n])
    moreover have "N + n = 32 * k + (n - ?c)" using False c by simp
    ultimately show ?thesis using False old s u c inc_blocks_squeezed [OF s, of rcs "n - ?c" k] unfolding haraka_S_inc_squeeze_def Let_def st
      by (simp add: nth_append HARAKAS_RATE_def list_update_append b add.commute [of N n])
  qed
qed

lemma fold_inc_squeeze:
  assumes "length s = 64"
  shows "fold (\<lambda>n (out, st). case haraka_S_inc_squeeze rcs n st of (o', st) \<Rightarrow> (out @ o', st)) ns (map (squeezed rcs s) [0..<N], squeezed_state rcs s N)
    = (map (squeezed rcs s) [0..<N + sum_list ns], squeezed_state rcs s (N + sum_list ns))"
proof (induction ns arbitrary: N)
  case (Cons n ns)
  have "map (squeezed rcs s) [0..<N] @ map (squeezed rcs s) [N..<N + n] = map (squeezed rcs s) [0..<N + n]"
    using upt_add_eq_append [OF le0, of N n] by (metis map_append add_0)
  then show ?case using Cons.IH [of "N + n"] by (simp add: inc_squeeze_squeezed [OF assms] add.assoc)
qed simp

text \<open>Messages absorbed piece by piece, and output squeezed piece by piece.\<close>

definition haraka_S_inc :: "u64 list list \<Rightarrow> bytes list \<Rightarrow> nat list \<Rightarrow> bytes" where
  "haraka_S_inc rcs ms ns =
     (let st = fold (\<lambda>m st. haraka_S_inc_absorb rcs st m) ms haraka_S_inc_init
      in fst (fold (\<lambda>n (out, st). case haraka_S_inc_squeeze rcs n st of (o', st) \<Rightarrow> (out @ o', st)) ns ([], haraka_S_inc_finalize st)))"

text \<open>C34. The incremental Haraka sponge is the one-shot one. However a message is cut into pieces for \<open>haraka_S_inc_absorb\<close>, also empty
  ones and ones that end inside a block, and however the output is cut for \<open>haraka_S_inc_squeeze\<close>, what comes out is
  \<open>haraka_S\<close> of the whole message.\<close>

theorem haraka_incremental_correct: "haraka_S_inc rcs ms ns = haraka_S rcs (sum_list ns) (concat ms)"
proof -
  let ?z = "replicate 64 0 :: bytes"
  obtain s rest where a: "haraka_absorb_blocks rcs ?z (concat ms) = (s, rest)" by force
  have s: "length s = 64" "length rest < 32" using absorb_blocks_state [of ?z rcs "concat ms"] a by simp_all
  have "haraka_S_inc_init = inc_of (?z, [])" by (intro nth_equalityI) (auto simp: haraka_S_inc_init_def inc_of_def xor_at_def nth_append)
  then have absorbed: "fold (\<lambda>m st. haraka_S_inc_absorb rcs st m) ms haraka_S_inc_init = inc_of (s, rest)"
    using fold_inc_absorb [of ?z "[]" rcs ms] a by simp
  let ?f = "haraka_S_absorb rcs ?z (concat ms) 0x1F"
  have f: "haraka_S_inc_finalize (inc_of (s, rest)) = squeezed_state rcs ?f 0"
    using finalize_absorb [OF s] a by (simp add: haraka_S_absorb_def Let_def squeezed_state_def HARAKAS_RATE_def)
  have "length ?f = 64" using a s by (simp add: haraka_S_absorb_def Let_def haraka_xor_block_def HARAKAS_RATE_def overwrite_def)
  from fold_inc_squeeze [OF this, of rcs ns 0] show ?thesis
    by (simp add: haraka_S_inc_def absorbed f haraka_S_squeezed)
qed

section \<open>The S-box of AES\<close>

text \<open>FIPS 197, the substitution table.\<close>

definition aes_sbox :: "u8 list" where
  "aes_sbox = [
     0x63, 0x7c, 0x77, 0x7b, 0xf2, 0x6b, 0x6f, 0xc5, 0x30, 0x01, 0x67, 0x2b, 0xfe, 0xd7, 0xab, 0x76,
     0xca, 0x82, 0xc9, 0x7d, 0xfa, 0x59, 0x47, 0xf0, 0xad, 0xd4, 0xa2, 0xaf, 0x9c, 0xa4, 0x72, 0xc0,
     0xb7, 0xfd, 0x93, 0x26, 0x36, 0x3f, 0xf7, 0xcc, 0x34, 0xa5, 0xe5, 0xf1, 0x71, 0xd8, 0x31, 0x15,
     0x04, 0xc7, 0x23, 0xc3, 0x18, 0x96, 0x05, 0x9a, 0x07, 0x12, 0x80, 0xe2, 0xeb, 0x27, 0xb2, 0x75,
     0x09, 0x83, 0x2c, 0x1a, 0x1b, 0x6e, 0x5a, 0xa0, 0x52, 0x3b, 0xd6, 0xb3, 0x29, 0xe3, 0x2f, 0x84,
     0x53, 0xd1, 0x00, 0xed, 0x20, 0xfc, 0xb1, 0x5b, 0x6a, 0xcb, 0xbe, 0x39, 0x4a, 0x4c, 0x58, 0xcf,
     0xd0, 0xef, 0xaa, 0xfb, 0x43, 0x4d, 0x33, 0x85, 0x45, 0xf9, 0x02, 0x7f, 0x50, 0x3c, 0x9f, 0xa8,
     0x51, 0xa3, 0x40, 0x8f, 0x92, 0x9d, 0x38, 0xf5, 0xbc, 0xb6, 0xda, 0x21, 0x10, 0xff, 0xf3, 0xd2,
     0xcd, 0x0c, 0x13, 0xec, 0x5f, 0x97, 0x44, 0x17, 0xc4, 0xa7, 0x7e, 0x3d, 0x64, 0x5d, 0x19, 0x73,
     0x60, 0x81, 0x4f, 0xdc, 0x22, 0x2a, 0x90, 0x88, 0x46, 0xee, 0xb8, 0x14, 0xde, 0x5e, 0x0b, 0xdb,
     0xe0, 0x32, 0x3a, 0x0a, 0x49, 0x06, 0x24, 0x5c, 0xc2, 0xd3, 0xac, 0x62, 0x91, 0x95, 0xe4, 0x79,
     0xe7, 0xc8, 0x37, 0x6d, 0x8d, 0xd5, 0x4e, 0xa9, 0x6c, 0x56, 0xf4, 0xea, 0x65, 0x7a, 0xae, 0x08,
     0xba, 0x78, 0x25, 0x2e, 0x1c, 0xa6, 0xb4, 0xc6, 0xe8, 0xdd, 0x74, 0x1f, 0x4b, 0xbd, 0x8b, 0x8a,
     0x70, 0x3e, 0xb5, 0x66, 0x48, 0x03, 0xf6, 0x0e, 0x61, 0x35, 0x57, 0xb9, 0x86, 0xc1, 0x1d, 0x9e,
     0xe1, 0xf8, 0x98, 0x11, 0x69, 0xd9, 0x8e, 0x94, 0x9b, 0x1e, 0x87, 0xe9, 0xce, 0x55, 0x28, 0xdf,
     0x8c, 0xa1, 0x89, 0x0d, 0xbf, 0xe6, 0x42, 0x68, 0x41, 0x99, 0x2d, 0x0f, 0xb0, 0x54, 0xbb, 0x16]"

text \<open>The circuit on one bit of each plane.\<close>

definition sbox_bits :: "bool list \<Rightarrow> bool list" where
  "sbox_bits q =
     (let
        x0 = q ! 7; x1 = q ! 6; x2 = q ! 5; x3 = q ! 4;
        x4 = q ! 3; x5 = q ! 2; x6 = q ! 1; x7 = q ! 0;
        y14 = (x3 \<noteq> x5); y13 = (x0 \<noteq> x6); y9 = (x0 \<noteq> x3); y8 = (x0 \<noteq> x5);
        t0 = (x1 \<noteq> x2); y1 = (t0 \<noteq> x7); y4 = (y1 \<noteq> x3); y12 = (y13 \<noteq> y14);
        y2 = (y1 \<noteq> x0); y5 = (y1 \<noteq> x6); y3 = (y5 \<noteq> y8); t1 = (x4 \<noteq> y12);
        y15 = (t1 \<noteq> x5); y20 = (t1 \<noteq> x1); y6 = (y15 \<noteq> x7); y10 = (y15 \<noteq> t0);
        y11 = (y20 \<noteq> y9); y7 = (x7 \<noteq> y11); y17 = (y10 \<noteq> y11); y19 = (y10 \<noteq> y8);
        y16 = (t0 \<noteq> y11); y21 = (y13 \<noteq> y16); y18 = (x0 \<noteq> y16); t2 = (y12 \<and> y15);
        t3 = (y3 \<and> y6); t4 = (t3 \<noteq> t2); t5 = (y4 \<and> x7); t6 = (t5 \<noteq> t2);
        t7 = (y13 \<and> y16); t8 = (y5 \<and> y1); t9 = (t8 \<noteq> t7); t10 = (y2 \<and> y7);
        t11 = (t10 \<noteq> t7); t12 = (y9 \<and> y11); t13 = (y14 \<and> y17); t14 = (t13 \<noteq> t12);
        t15 = (y8 \<and> y10); t16 = (t15 \<noteq> t12); t17 = (t4 \<noteq> t14); t18 = (t6 \<noteq> t16);
        t19 = (t9 \<noteq> t14); t20 = (t11 \<noteq> t16); t21 = (t17 \<noteq> y20); t22 = (t18 \<noteq> y19);
        t23 = (t19 \<noteq> y21); t24 = (t20 \<noteq> y18); t25 = (t21 \<noteq> t22); t26 = (t21 \<and> t23);
        t27 = (t24 \<noteq> t26); t28 = (t25 \<and> t27); t29 = (t28 \<noteq> t22); t30 = (t23 \<noteq> t24);
        t31 = (t22 \<noteq> t26); t32 = (t31 \<and> t30); t33 = (t32 \<noteq> t24); t34 = (t23 \<noteq> t33);
        t35 = (t27 \<noteq> t33); t36 = (t24 \<and> t35); t37 = (t36 \<noteq> t34); t38 = (t27 \<noteq> t36);
        t39 = (t29 \<and> t38); t40 = (t25 \<noteq> t39); t41 = (t40 \<noteq> t37); t42 = (t29 \<noteq> t33);
        t43 = (t29 \<noteq> t40); t44 = (t33 \<noteq> t37); t45 = (t42 \<noteq> t41); z0 = (t44 \<and> y15);
        z1 = (t37 \<and> y6); z2 = (t33 \<and> x7); z3 = (t43 \<and> y16); z4 = (t40 \<and> y1);
        z5 = (t29 \<and> y7); z6 = (t42 \<and> y11); z7 = (t45 \<and> y17); z8 = (t41 \<and> y10);
        z9 = (t44 \<and> y12); z10 = (t37 \<and> y3); z11 = (t33 \<and> y4); z12 = (t43 \<and> y13);
        z13 = (t40 \<and> y5); z14 = (t29 \<and> y2); z15 = (t42 \<and> y9); z16 = (t45 \<and> y14);
        z17 = (t41 \<and> y8); t46 = (z15 \<noteq> z16); t47 = (z10 \<noteq> z11); t48 = (z5 \<noteq> z13);
        t49 = (z9 \<noteq> z10); t50 = (z2 \<noteq> z12); t51 = (z2 \<noteq> z5); t52 = (z7 \<noteq> z8);
        t53 = (z0 \<noteq> z3); t54 = (z6 \<noteq> z7); t55 = (z16 \<noteq> z17); t56 = (z12 \<noteq> t48);
        t57 = (t50 \<noteq> t53); t58 = (z4 \<noteq> t46); t59 = (z3 \<noteq> t54); t60 = (t46 \<noteq> t57);
        t61 = (z14 \<noteq> t57); t62 = (t52 \<noteq> t58); t63 = (t49 \<noteq> t58); t64 = (z4 \<noteq> t59);
        t65 = (t61 \<noteq> t62); t66 = (z1 \<noteq> t63); s0 = (t59 \<noteq> t63); s6 = (t56 \<noteq> (\<not> t62));
        s7 = (t48 \<noteq> (\<not> t60)); t67 = (t64 \<noteq> t65); s3 = (t53 \<noteq> t66); s4 = (t51 \<noteq> t66);
        s5 = (t47 \<noteq> t65); s1 = (t64 \<noteq> (\<not> s3)); s2 = (t55 \<noteq> (\<not> t67))
      in [s7, s6, s5, s4, s3, s2, s1, s0])"

definition same_bit :: "nat \<Rightarrow> 'a::len word \<Rightarrow> bool \<Rightarrow> bool" where
  "same_bit k a b \<longleftrightarrow> bit a k = b"

lemma same_bit_ops:
  "same_bit k a a' \<Longrightarrow> same_bit k b b' \<Longrightarrow> same_bit k (a XOR b) (a' \<noteq> b')"
  "same_bit k a a' \<Longrightarrow> same_bit k b b' \<Longrightarrow> same_bit k (a AND b) (a' \<and> b')"
  by (simp_all add: same_bit_def bit_simps)

lemma same_bit_not: "k < LENGTH('a) \<Longrightarrow> same_bit k a a' \<Longrightarrow> same_bit k (NOT (a :: 'a::len word)) (\<not> a')"
  by (simp add: same_bit_def bit_simps)

lemma same_bit_Let:
  "same_bit k a b \<Longrightarrow> (\<And>x y. same_bit k x y \<Longrightarrow> list_all2 (same_bit k) (f x) (g y)) \<Longrightarrow> list_all2 (same_bit k) (Let a f) (Let b g)"
  by (simp add: Let_def)

lemma bitslice_Sbox_bitwise:
  fixes q :: "'a::len word list"
  assumes "k < LENGTH('a)" and "\<And>i. i < 8 \<Longrightarrow> same_bit k (q ! i) (b ! i)"
  shows "list_all2 (same_bit k) (bitslice_Sbox q) (sbox_bits b)"
  unfolding bitslice_Sbox_def sbox_bits_def
  by (intro same_bit_Let same_bit_ops same_bit_not [OF assms(1)] list.rel_intros; (assumption | rule assms(2), simp))

lemma sbox_table: "map sbox_bits (List.n_lists 8 [False, True]) = map (\<lambda>w. map (bit w) [0..<8]) aes_sbox"
  by code_simp

text \<open>Byte \<open>k\<close> of a bit-sliced state: bit \<open>j\<close> of the byte is bit \<open>k\<close> of plane \<open>j\<close>.\<close>

definition plane_byte :: "'a::len word list \<Rightarrow> nat \<Rightarrow> u8" where
  "plane_byte q k = horner_sum of_bool 2 (map (\<lambda>j. bit (q ! j) k) [0..<8])"

lemma bit_plane_byte: "bit (plane_byte q k) j \<longleftrightarrow> j < 8 \<and> bit (q ! j) k"
  by (auto simp: plane_byte_def bit_horner_sum_bit_word_iff)

lemma unat_lt: "unat (w :: u8) < 256"
  using unsigned_less [of w] by simp

lemma nth_concat_pairs:
  "i < 2 * length xs \<Longrightarrow> concat (map (\<lambda>y. [f y, g y]) xs) ! i = (if even i then f (xs ! (i div 2)) else g (xs ! (i div 2)))"
proof (induction xs arbitrary: i)
  case (Cons x xs)
  show ?case
  proof (cases "i < 2")
    case True
    then have "i = 0 \<or> i = 1" by linarith
    then show ?thesis by auto
  next
    case False
    define j where "j = i - 2"
    have j: "i = Suc (Suc j)" using False by (simp add: j_def)
    have "j < 2 * length xs" using Cons.prems j by simp
    from Cons.IH [OF this] show ?thesis by (simp add: j)
  qed
qed simp

lemma length_bools: "length (List.n_lists n [False, True]) = 2 ^ n"
  by (simp add: length_n_lists numeral_2_eq_2)

lemma nth_n_lists_bits:
  "List.n_lists (length bs) [False, True] ! horner_sum of_bool 2 bs = bs"
proof (induction bs)
  case (Cons b bs)
  have lt: "horner_sum of_bool 2 bs < (2::nat) ^ length bs"
    by (rule horner_sum_of_bool_2_less)
  have "2 * horner_sum of_bool 2 bs + of_bool b < 2 * (2::nat) ^ length bs"
    using lt by (cases b) auto
  then show ?case
    using Cons nth_concat_pairs [of "of_bool b + 2 * horner_sum of_bool 2 bs" "List.n_lists (length bs) [False, True]" "(#) False" "(#) True"]
    by (cases b) (simp_all add: length_bools)
qed simp

lemma byte_horner: "horner_sum of_bool 2 (map (bit w) [0..<8]) = unat w" for w :: u8
proof -
  have "map (bit w) [0..<8] = map (bit (unat w)) [0..<8]"
    by (rule map_cong [OF refl]) (simp add: bit_unsigned_iff)
  moreover have "take_bit 8 (unat w) = unat w"
    using unat_lt [of w] by (simp add: take_bit_nat_eq_self)
  ultimately show ?thesis
    by (simp only: horner_sum_bit_eq_take_bit)
qed

lemma nth_bytes: "List.n_lists 8 [False, True] ! unat w = map (bit w) [0..<8]" for w :: u8
proof -
  have "length (map (bit w) [0..<8]) = 8" by (simp only: length_map length_upt)
  then show ?thesis using nth_n_lists_bits [of "map (bit w) [0..<8]"] by (simp only: byte_horner)
qed

lemma sbox_bits_table:
  fixes w :: u8
  shows "sbox_bits (map (bit w) [0..<8]) = map (bit (aes_sbox ! unat w)) [0..<8]"
proof -
  have lt: "unat w < 256" using unat_lt [of w] by simp
  have "length (List.n_lists 8 [False, True]) = 256" by (simp only: length_bools) simp
  moreover have "length aes_sbox = 256" by (simp add: aes_sbox_def)
  ultimately show ?thesis
    using arg_cong [OF sbox_table, of "\<lambda>l. l ! unat w"] lt by (simp only: nth_map nth_bytes)
qed

lemma bitslice_Sbox_plane:
  fixes q :: "'a::len word list"
  assumes "k < LENGTH('a)"
  shows "plane_byte (bitslice_Sbox q) k = aes_sbox ! unat (plane_byte q k)"
proof (rule bit_eqI)
  fix j assume "possible_bit TYPE(u8) j"
  then have j: "j < 8" by (simp add: possible_bit_word)
  let ?b = "map (bit (plane_byte q k)) [0..<8]"
  have "list_all2 (same_bit k) (bitslice_Sbox q) (sbox_bits ?b)"
    by (rule bitslice_Sbox_bitwise [OF assms]) (simp add: same_bit_def bit_plane_byte del: upt_rec_numeral)
  then have "same_bit k (bitslice_Sbox q ! j) (sbox_bits ?b ! j)"
    using j list_all2_nthD2 [of "same_bit k" "bitslice_Sbox q" "sbox_bits ?b" j] by (simp add: sbox_bits_table del: upt_rec_numeral)
  then show "bit (plane_byte (bitslice_Sbox q) k) j = bit (aes_sbox ! unat (plane_byte q k)) j"
    using j by (simp add: same_bit_def bit_plane_byte sbox_bits_table del: upt_rec_numeral)
qed

text \<open>
  C35. The two bit-sliced substitution circuits are the AES S-box: on any eight planes, the byte read across the planes
  at each of the 64 (or 32) bit positions is replaced by its entry of the FIPS 197 table, all positions at once.
\<close>

theorem aes_sbox_standard:
  "map (plane_byte (br_aes_ct64_bitslice_Sbox q)) [0..<64] = map (\<lambda>k. aes_sbox ! unat (plane_byte q k)) [0..<64] \<and>
   map (plane_byte (br_aes_ct_bitslice_Sbox r)) [0..<32] = map (\<lambda>k. aes_sbox ! unat (plane_byte r k)) [0..<32]"
  unfolding br_aes_ct64_bitslice_Sbox_def br_aes_ct_bitslice_Sbox_def
  by (intro conjI map_cong [OF refl] bitslice_Sbox_plane) (simp_all del: upt_rec_numeral)

end
