(* ===== verification/Lms_Coprocess.thy ===== *)
theory Lms_Coprocess
  imports Lms_Api Subtree_Context
begin

text \<open>
  \<open>src/lms_coprocess.c\<close>: the whole Merkle tree of a key of height at most 10 in one array, filled leaf by leaf from a
  source of LM-OTS public keys and then bottom-up, with the root, single nodes and authentication paths read off the array
  and signatures' one-time keys checked against it.

  An operation runs on the static state of the library and on the tree. The numbers of the tree keep their 32 bits.
\<close>

section \<open>The code\<close>

definition LMS_COPROCESS_MAX_HEIGHT :: nat where "LMS_COPROCESS_MAX_HEIGHT = 10"
definition LMS_COPROCESS_MAX_NODES :: nat where "LMS_COPROCESS_MAX_NODES = 2 ^ (LMS_COPROCESS_MAX_HEIGHT + 1) - 1"

record lms_coprocess_tree_t =
  co_lms_type :: u32
  co_height :: u32
  co_n :: u32
  co_leaf_count :: u32
  co_I :: bytes
  co_nodes :: "bytes list"

type_synonym ('w, 'a) cop = "(lms_status_t, 'w lms_lib \<times> lms_coprocess_tree_t, 'a) op"

definition co_lib :: "('w, 'a) lop \<Rightarrow> ('w, 'a) cop" where
  "co_lib m = (\<lambda>(l, t). case m l of (r, l') \<Rightarrow> (r, (l', t)))"

definition put_tree :: "(lms_coprocess_tree_t \<Rightarrow> lms_coprocess_tree_t) \<Rightarrow> ('w, unit) cop" where
  "put_tree f = modify (\<lambda>(l, t). (l, f t))"

definition put_co_node :: "nat \<Rightarrow> bytes \<Rightarrow> ('w, unit) cop" where
  "put_co_node i v = put_tree (\<lambda>t. t\<lparr>co_nodes := (co_nodes t)[i := v]\<rparr>)"

definition lms_coprocess_tree_init :: "u32 \<Rightarrow> bytes \<Rightarrow> ('w, unit) cop" where
  "lms_coprocess_tree_init lms_type I =
     bind (or_fail LMS_ERR_INVALID (co_lib (lms_get_lms_param lms_type))) (\<lambda>param.
     andthen (reject_if (lp_height param = 0 \<or> lp_height param > LMS_COPROCESS_MAX_HEIGHT) LMS_ERR_INVALID)
     (put_tree (\<lambda>_. \<lparr>co_lms_type = lms_type, co_height = word_of_nat (lp_height param), co_n = word_of_nat (lp_n param),
        co_leaf_count = push_bit (lp_height param) 1, co_I = take LMS_I_LEN I,
        co_nodes = replicate (LMS_COPROCESS_MAX_NODES + 1) (replicate LMS_N 0)\<rparr>)))"

definition co_source :: "'w ots_pub_fn option \<Rightarrow> 'w ots_pub_fn" where
  "co_source kq = (case kq of None \<Rightarrow> default_ots_pub | Some f \<Rightarrow> f)"

text \<open>The two loops of \<open>lms_coprocess_build\<close>: leaf \<open>q\<close>, and internal node \<open>r\<close>.\<close>

definition co_build_leaf :: "lms_private_key_t \<Rightarrow> 'w ots_pub_fn \<Rightarrow> lms_hash_alg_t \<Rightarrow> u32 \<Rightarrow> nat \<Rightarrow> ('w, unit) cop" where
  "co_build_leaf priv kq hash_alg leaf_base q =
     bind (look snd) (\<lambda>tree.
     bind (or_fail LMS_ERR_INVALID (co_lib (kq priv (word_of_nat q)))) (\<lambda>ots_pub_buf.
     bind (or_fail LMS_ERR_INVALID (co_lib (lms_hash_parts
       (co_I tree @ lms_store_u32 (leaf_base + word_of_nat q) @ lms_store_u16 D_LEAF) ots_pub_buf [] [] hash_alg))) (\<lambda>node.
     put_co_node (unat leaf_base + q) node)))"

definition co_build_inner :: "lms_hash_alg_t \<Rightarrow> nat \<Rightarrow> ('w, unit) cop" where
  "co_build_inner hash_alg r =
     bind (look snd) (\<lambda>tree.
     bind (or_fail LMS_ERR_INVALID (co_lib (lms_internal_node (co_I tree) hash_alg (word_of_nat r)
       (co_nodes tree ! (r * 2)) (co_nodes tree ! (r * 2 + 1))))) (\<lambda>node.
     put_co_node r node))"

definition lms_coprocess_build :: "lms_private_key_t \<Rightarrow> 'w ots_pub_fn option \<Rightarrow> ('w, unit) cop" where
  "lms_coprocess_build priv kq =
     bind (look snd) (\<lambda>tree.
     andthen (reject_if (co_leaf_count tree = 0) LMS_ERR_INVALID)
     (andthen (reject_if (priv_lms_type priv \<noteq> co_lms_type tree) LMS_ERR_INVALID)
     (bind (or_fail LMS_ERR_INVALID (co_lib (lms_get_private_hash_alg priv))) (\<lambda>hash_alg.
      let leaf_base = co_leaf_count tree
      in andthen (for_each (co_build_leaf priv (co_source kq) hash_alg leaf_base) [0..<unat (co_leaf_count tree)])
        (andthen (for_each (co_build_inner hash_alg) (rev [1..<unat leaf_base])) (ret ()))))))"

definition lms_coprocess_root :: "lms_coprocess_tree_t \<Rightarrow> lms_status_t + bytes" where
  "lms_coprocess_root tree =
     (if co_leaf_count tree = 0 then Inl LMS_ERR_INVALID else Inr (co_nodes tree ! 1))"

definition lms_coprocess_node :: "lms_coprocess_tree_t \<Rightarrow> u32 \<Rightarrow> lms_status_t + bytes" where
  "lms_coprocess_node tree node_num =
     (if co_leaf_count tree = 0 then Inl LMS_ERR_INVALID
      else if node_num = 0 \<or> node_num > co_leaf_count tree * 2 - 1 then Inl LMS_ERR_INVALID
      else Inr (co_nodes tree ! unat node_num))"

fun co_siblings :: "nat \<Rightarrow> lms_coprocess_tree_t \<Rightarrow> u32 \<Rightarrow> bytes" where
  "co_siblings 0 tree node_num = []"
| "co_siblings (Suc levels) tree node_num =
     take (unat (co_n tree)) (co_nodes tree ! unat (node_num XOR 1)) @ co_siblings levels tree (node_num div 2)"

definition lms_coprocess_auth_path :: "lms_coprocess_tree_t \<Rightarrow> u32 \<Rightarrow> lms_status_t + bytes" where
  "lms_coprocess_auth_path tree q =
     (if co_leaf_count tree = 0 then Inl LMS_ERR_INVALID
      else if q \<ge> co_leaf_count tree then Inl LMS_ERR_INVALID
      else Inr (co_siblings (unat (co_height tree)) tree (co_leaf_count tree + q)))"

text \<open>The climb is the loop of \<open>lms_root_from_signature\<close>, statement by statement.\<close>

definition lms_coprocess_root_from_kv :: "lms_coprocess_tree_t \<Rightarrow> u32 \<Rightarrow> bytes \<Rightarrow> bytes \<Rightarrow> ('w, bytes) lop" where
  "lms_coprocess_root_from_kv tree q kv path =
     andthen (reject_if (co_leaf_count tree = 0) LMS_ERR_INVALID)
     (andthen (reject_if (q \<ge> co_leaf_count tree) LMS_ERR_INVALID)
     (bind (or_fail LMS_ERR_INVALID (lms_get_lms_param (co_lms_type tree))) (\<lambda>param.
      let hash_alg = lp_hash_alg param; node_num = co_leaf_count tree + q
      in bind (or_fail LMS_ERR_INVALID (lms_hash_parts
           (co_I tree @ lms_store_u32 node_num @ lms_store_u16 D_LEAF) kv [] [] hash_alg)) (\<lambda>node.
         lms_climb (unat (co_height tree)) (co_I tree) hash_alg node_num node path (unat (co_n tree))))))"

definition lms_coprocess_verify :: "lms_coprocess_tree_t \<Rightarrow> u32 \<Rightarrow> bytes \<Rightarrow> bytes \<Rightarrow> ('w, unit) lop" where
  "lms_coprocess_verify tree q kv path =
     bind (or_fail LMS_ERR_INVALID (lms_coprocess_root_from_kv tree q kv path)) (\<lambda>root.
     case lms_coprocess_root tree of
       Inl _ \<Rightarrow> fail LMS_ERR_INVALID
     | Inr expected \<Rightarrow>
         (let diff = fold (\<lambda>i d. d OR (root ! i XOR expected ! i)) [0..<LMS_N] (0 :: u8)
          in if diff = 0 then ret () else fail LMS_ERR_VERIFY))"

section \<open>Running under conforming callbacks\<close>

lemma runs_co_lib:
  assumes "gives fl I m (Inr x)"
  shows "runs fl (\<lambda>s. I (fst s) \<and> R (snd s)) (co_lib m) (\<lambda>y s. y = x \<and> I (fst s) \<and> R (snd s))"
  using assms by (fastforce simp: runs_def gives_def yields_def co_lib_def split: prod.splits sum.splits)

lemma runs_co_step:
  assumes m: "gives fl I m (Inr x)" and f: "runs fl (\<lambda>s. I (fst s) \<and> R (snd s)) (f x) Q"
  shows "runs fl (\<lambda>s. I (fst s) \<and> R (snd s)) (bind (or_fail e (co_lib m)) f) Q"
  by (rule runs_bind [OF runs_or_fail [OF runs_co_lib [OF m]]], rule runs_fact) (simp add: f)

lemma runs_for_each_down:
  assumes "\<And>i. m \<le> i \<Longrightarrow> i < n \<Longrightarrow> runs fl (P (Suc i)) (f i) (\<lambda>_. P i)" and "m \<le> n"
  shows "runs fl (P n) (for_each f (rev [m..<n])) (\<lambda>_. P m)"
  using assms
proof (induction n)
  case 0
  then show ?case by (simp add: runs_ret)
next
  case (Suc n)
  show ?case
  proof (cases "m = Suc n")
    case True
    then show ?thesis by (simp add: runs_ret)
  next
    case False
    then have le: "m \<le> n" using Suc.prems(2) by simp
    have rest: "runs fl (P n) (for_each f (rev [m..<n])) (\<lambda>_. P m)" using Suc le by simp
    have e: "rev [m..<Suc n] = n # rev [m..<n]" using le by simp
    show ?thesis unfolding e for_each.simps
      by (rule runs_bind [OF Suc.prems(1)], use le in simp_all, rule runs_bind [OF rest]) (rule runs_ret)
  qed
qed

text \<open>A tree for a key, with the nodes of \<open>N\<close> in place.\<close>

definition co_holds :: "lms_private_key_t \<Rightarrow> lms_param_t \<Rightarrow> lmots_param_t \<Rightarrow> nat set \<Rightarrow> lms_coprocess_tree_t \<Rightarrow> bool" where
  "co_holds priv a b N t \<longleftrightarrow> co_lms_type t = priv_lms_type priv \<and> unat (co_height t) = lp_height a \<and> unat (co_n t) = 32
     \<and> co_leaf_count t = push_bit (lp_height a) 1 \<and> co_I t = priv_I priv \<and> length (co_nodes t) = 2048
     \<and> (\<forall>n \<in> N. co_nodes t ! n = lms_node a b (priv_I priv) (priv_seed priv) n)"

lemma co_holds_put:
  assumes "co_holds priv a b N t" and "v = lms_node a b (priv_I priv) (priv_seed priv) i" and "i < 2048"
  shows "co_holds priv a b (insert i N) (t\<lparr>co_nodes := (co_nodes t)[i := v]\<rparr>)"
  using assms by (auto simp: co_holds_def nth_list_update)

lemma runs_put_co_node:
  assumes "v = lms_node a b (priv_I priv) (priv_seed priv) i" and "i < 2048"
  shows "runs fl (\<lambda>s. I (fst s) \<and> co_holds priv a b N (snd s)) (put_co_node i v)
    (\<lambda>_ s. I (fst s) \<and> co_holds priv a b (insert i N) (snd s))"
  unfolding put_co_node_def put_tree_def by (rule runs_modify) (auto intro: co_holds_put [OF _ assms])

lemma runs_bind_tree:
  assumes "\<And>t. R t \<Longrightarrow> runs fl (\<lambda>s. I (fst s) \<and> snd s = t) (f t) Q"
  shows "runs fl (\<lambda>s. I (fst s) \<and> R (snd s)) (bind (look snd) f) Q"
  using assms by (auto simp: runs_def op_defs)

context verify_library
begin

lemma runs_co_init:
  assumes key: "param_pair (priv_lms_type priv) (priv_lmots_type priv) = Some (a, b)" and J: "length (priv_I priv) = 16"
    and low: "lp_height a \<le> 10"
  shows "runs fl (\<lambda>s. I (fst s)) (lms_coprocess_tree_init (priv_lms_type priv) (priv_I priv))
    (\<lambda>_ s. I (fst s) \<and> co_holds priv a b {} (snd s))"
proof -
  note h = lp_height_bounds [OF param_pairD(1) [OF key]]
  have p: "runs fl (\<lambda>s. I (fst s)) (co_lib (lms_get_lms_param (priv_lms_type priv))) (\<lambda>y s. y = a \<and> I (fst s))"
    using runs_co_lib [OF gives_lms_param_ok [OF param_pairD(1) [OF key]], where R = "\<lambda>_. True"] by simp
  have u: "unat (word_of_nat (lp_height a) :: u32) = lp_height a" using h(1) by (simp add: unat_of_nat_u32)
  have g: "\<not> (lp_height a = 0 \<or> lp_height a > LMS_COPROCESS_MAX_HEIGHT)" using h(2) low by (simp add: LMS_COPROCESS_MAX_HEIGHT_def)
  show ?thesis unfolding lms_coprocess_tree_init_def
    by (rule runs_bind [OF runs_or_fail [OF p]], rule runs_fact, simp only:, rule runs_guard, rule g, unfold put_tree_def, rule runs_modify)
      (use u h J in \<open>auto simp: co_holds_def LMS_COPROCESS_MAX_NODES_def LMS_COPROCESS_MAX_HEIGHT_def LMS_I_LEN_def\<close>)
qed

lemma runs_co_build_leaf:
  assumes key: "param_pair (priv_lms_type priv) (priv_lmots_type priv) = Some (a, b)" and J: "length (priv_I priv) = 16"
    and low: "lp_height a \<le> 10" and q: "q < 2 ^ lp_height a"
    and kq: "gives fl I (kq priv (word_of_nat q)) (Inr (ots_pub (op_hash_alg b) b (priv_I priv) (priv_seed priv) (word_of_nat q)))"
  shows "runs fl (\<lambda>s. I (fst s) \<and> co_holds priv a b N (snd s)) (co_build_leaf priv kq (op_hash_alg b) (push_bit (lp_height a) 1) q)
    (\<lambda>_ s. I (fst s) \<and> co_holds priv a b (insert (2 ^ lp_height a + q) N) (snd s))"
proof -
  note h = lp_height_bounds(1) [OF param_pairD(1) [OF key]]
  let ?n = "push_bit (lp_height a) 1 + word_of_nat q :: u32"
  let ?k = "ots_pub (op_hash_alg b) b (priv_I priv) (priv_seed priv) (word_of_nat q)"
  have n: "?n = word_of_nat (2 ^ lp_height a + q)" by (simp add: push_bit_of_1)
  have node: "lms_leaf_hash (op_hash_alg b) (priv_I priv) ?n ?k = lms_node a b (priv_I priv) (priv_seed priv) (2 ^ lp_height a + q)"
    unfolding n by (simp add: lms_node_def merkle_leaf lms_leaf_at_def)
  have lt: "2 ^ lp_height a + q < 2048"
    using q power_increasing [OF low, of "2 :: nat"] by simp
  show ?thesis unfolding co_build_leaf_def unat_leaf_base [OF h]
  proof (rule runs_bind_tree)
    fix t assume t: "co_holds priv a b N t"
    then have tI: "co_I t = priv_I priv" by (simp add: co_holds_def)
    have leaf: "gives fl I (lms_hash_parts (priv_I priv @ lms_store_u32 ?n @ lms_store_u16 D_LEAF) ?k [] [] (op_hash_alg b))
        (Inr (lms_node a b (priv_I priv) (priv_seed priv) (2 ^ lp_height a + q)))"
      unfolding node [symmetric] by (rule gives_leaf_hash [OF J]) simp
    show "runs fl (\<lambda>s. I (fst s) \<and> snd s = t) (bind (or_fail LMS_ERR_INVALID (co_lib (kq priv (word_of_nat q)))) (\<lambda>ots_pub_buf.
       bind (or_fail LMS_ERR_INVALID (co_lib (lms_hash_parts (co_I t @ lms_store_u32 ?n @ lms_store_u16 D_LEAF) ots_pub_buf [] []
         (op_hash_alg b)))) (\<lambda>node. put_co_node (2 ^ lp_height a + q) node)))
       (\<lambda>_ s. I (fst s) \<and> co_holds priv a b (insert (2 ^ lp_height a + q) N) (snd s))"
      unfolding tI
      by (rule runs_co_step [OF kq], rule runs_co_step [OF leaf], rule runs_pre [OF runs_put_co_node [OF refl lt]]) (use t in auto)
  qed
qed

lemma runs_co_build_inner:
  assumes key: "param_pair (priv_lms_type priv) (priv_lmots_type priv) = Some (a, b)" and J: "length (priv_I priv) = 16"
    and low: "lp_height a \<le> 10" and r: "0 < r" "r < 2 ^ lp_height a" and N: "2 * r \<in> N" "2 * r + 1 \<in> N"
  shows "runs fl (\<lambda>s. I (fst s) \<and> co_holds priv a b N (snd s)) (co_build_inner (op_hash_alg b) r)
    (\<lambda>_ s. I (fst s) \<and> co_holds priv a b (insert r N) (snd s))"
  unfolding co_build_inner_def
proof (rule runs_bind_tree)
  fix t assume t: "co_holds priv a b N t"
  let ?V = "lms_node a b (priv_I priv) (priv_seed priv)"
  have c: "co_I t = priv_I priv" "co_nodes t ! (r * 2) = ?V (2 * r)" "co_nodes t ! (r * 2 + 1) = ?V (2 * r + 1)"
    using t N by (auto simp: co_holds_def mult.commute)
  have node: "lms_intr_hash (op_hash_alg b) (priv_I priv) (word_of_nat r) (?V (2 * r)) (?V (2 * r + 1)) = ?V r"
    using merkle_node [OF r, of "lms_leaf_at a b (priv_I priv) (priv_seed priv)" "lms_intr_at (op_hash_alg b) (priv_I priv)"]
    by (simp add: lms_node_def lms_intr_at_def)
  have lt: "r < 2048" using r power_increasing [OF low, of "2 :: nat"] by simp
  have g: "gives fl I (lms_internal_node (priv_I priv) (op_hash_alg b) (word_of_nat r) (?V (2 * r)) (?V (2 * r + 1))) (Inr (?V r))"
    unfolding node [symmetric] by (rule gives_internal_node [OF J]) simp_all
  show "runs fl (\<lambda>s. I (fst s) \<and> snd s = t) (bind (or_fail LMS_ERR_INVALID (co_lib (lms_internal_node (co_I t) (op_hash_alg b)
       (word_of_nat r) (co_nodes t ! (r * 2)) (co_nodes t ! (r * 2 + 1))))) (\<lambda>node. put_co_node r node))
     (\<lambda>_ s. I (fst s) \<and> co_holds priv a b (insert r N) (snd s))"
    unfolding c
    by (rule runs_co_step [OF g], rule runs_pre [OF runs_put_co_node [OF refl lt]]) (use t in auto)
qed

end

context verify_library
begin

lemma runs_co_build:
  assumes key: "param_pair (priv_lms_type priv) (priv_lmots_type priv) = Some (a, b)" and J: "length (priv_I priv) = 16"
    and low: "lp_height a \<le> 10"
    and kq: "\<And>q. unat q < 2 ^ lp_height a \<Longrightarrow>
      gives fl I (co_source kq priv q) (Inr (ots_pub (op_hash_alg b) b (priv_I priv) (priv_seed priv) q))"
  shows "runs fl (\<lambda>s. I (fst s) \<and> co_holds priv a b {} (snd s)) (lms_coprocess_build priv kq)
    (\<lambda>_ s. I (fst s) \<and> co_holds priv a b {1..<2 ^ Suc (lp_height a)} (snd s))"
  unfolding lms_coprocess_build_def Let_def
proof (rule runs_bind_tree)
  let ?M = "2 ^ lp_height a :: nat"
  let ?P = "\<lambda>N (s :: 'a lms_lib \<times> lms_coprocess_tree_t). I (fst s) \<and> co_holds priv a b N (snd s)"
  fix t assume t: "co_holds priv a b {} t"
  note h = lp_height_bounds(1) [OF param_pairD(1) [OF key]]
  have f: "co_leaf_count t = push_bit (lp_height a) 1" "priv_lms_type priv = co_lms_type t" using t by (simp_all add: co_holds_def)
  have nz: "(push_bit (lp_height a) 1 :: u32) \<noteq> 0" using unat_leaf_base [OF h] by (metis unsigned_0 power_not_zero zero_neq_numeral)
  have small: "unat (word_of_nat q :: u32) = q" if "q < ?M" for q
    using that power_increasing [OF low, of "2 :: nat"] by (simp add: unat_of_nat_u32)
  have leaves: "runs fl (?P {?M..<?M + 0}) (for_each (co_build_leaf priv (co_source kq) (op_hash_alg b) (push_bit (lp_height a) 1)) [0..<?M])
      (\<lambda>_. ?P {?M..<?M + ?M})"
  proof (rule runs_for_each_unit)
    fix q assume q: "q < ?M"
    have "insert (?M + q) {?M..<?M + q} = {?M..<?M + Suc q}" by auto
    then show "runs fl (?P {?M..<?M + q}) (co_build_leaf priv (co_source kq) (op_hash_alg b) (push_bit (lp_height a) 1) q)
        (\<lambda>_. ?P {?M..<?M + Suc q})"
      using runs_co_build_leaf [where kq = "co_source kq", OF key J low q kq, of "{?M..<?M + q}"] q by (simp add: small)
  qed simp
  have inner: "runs fl (?P {?M..<?M + ?M}) (for_each (co_build_inner (op_hash_alg b)) (rev [1..<?M])) (\<lambda>_. ?P {1..<?M + ?M})"
  proof (rule runs_for_each_down [where P = "\<lambda>r. ?P {r..<?M + ?M}"])
    fix r assume r: "1 \<le> r" "r < ?M"
    then have "insert r {Suc r..<?M + ?M} = {r..<?M + ?M}" by auto
    then show "runs fl (?P {Suc r..<?M + ?M}) (co_build_inner (op_hash_alg b) r) (\<lambda>_. ?P {r..<?M + ?M})"
      using runs_co_build_inner [OF key J low, of r "{Suc r..<?M + ?M}"] r by simp
  qed simp
  have two: "2 ^ Suc (lp_height a) = ?M + ?M" by simp
  show "runs fl (\<lambda>s. I (fst s) \<and> snd s = t) (andthen (reject_if (co_leaf_count t = 0) LMS_ERR_INVALID)
     (andthen (reject_if (priv_lms_type priv \<noteq> co_lms_type t) LMS_ERR_INVALID)
     (bind (or_fail LMS_ERR_INVALID (co_lib (lms_get_private_hash_alg priv))) (\<lambda>hash_alg.
      andthen (for_each (co_build_leaf priv (co_source kq) hash_alg (co_leaf_count t)) [0..<unat (co_leaf_count t)])
        (andthen (for_each (co_build_inner hash_alg) (rev [1..<unat (co_leaf_count t)])) (ret ()))))))
     (\<lambda>_. ?P {1..<2 ^ Suc (lp_height a)})"
    unfolding f(1) unat_leaf_base [OF h] two
  proof (rule runs_guard [OF nz], rule runs_guard, goal_cases)
    case 1
    then show ?case using f(2) by simp
  next
    case 2
    show ?case
    proof (rule runs_co_step [OF gives_private_hash_alg [OF key]], unfold param_pairD(3) [OF key],
        rule runs_andthen [OF runs_pre [OF leaves]], goal_cases)
      case (1 s)
      then show ?case using t by simp
    next
      case 2
      show ?case by (rule runs_andthen [OF inner], rule runs_ret)
    qed
  qed
qed

end

section \<open>Reading a built tree\<close>

definition co_built :: "lms_private_key_t \<Rightarrow> lms_param_t \<Rightarrow> lmots_param_t \<Rightarrow> lms_coprocess_tree_t \<Rightarrow> bool" where
  "co_built priv a b t \<longleftrightarrow> co_holds priv a b {1..<2 ^ Suc (lp_height a)} t"

lemma co_built_fields:
  assumes "co_built priv a b t" and "lp_height a \<le> 10"
  shows "unat (co_leaf_count t) = 2 ^ lp_height a" "co_leaf_count t \<noteq> 0" "unat (co_n t) = 32" "unat (co_height t) = lp_height a"
    "co_I t = priv_I priv" "co_lms_type t = priv_lms_type priv"
    "0 < n \<Longrightarrow> n < 2 ^ Suc (lp_height a) \<Longrightarrow> co_nodes t ! n = lms_node a b (priv_I priv) (priv_seed priv) n"
proof -
  show u: "unat (co_leaf_count t) = 2 ^ lp_height a"
    using assms unat_leaf_base [of "lp_height a"] by (simp add: co_built_def co_holds_def)
  show "co_leaf_count t \<noteq> 0" using u by (metis unsigned_0 power_not_zero zero_neq_numeral)
qed (use assms in \<open>auto simp: co_built_def co_holds_def\<close>)

lemma co_root:
  assumes "co_built priv a b t" and "lp_height a \<le> 10"
  shows "lms_coprocess_root t = Inr (lms_node a b (priv_I priv) (priv_seed priv) 1)"
  using co_built_fields(2) [OF assms] co_built_fields(7) [OF assms, of 1] one_less_power [of "2 :: nat" "Suc (lp_height a)"]
  by (simp add: lms_coprocess_root_def del: power_Suc)

lemma co_node:
  assumes "co_built priv a b t" and low: "lp_height a \<le> 10"
  shows "lms_coprocess_node t node_num =
    (if 0 < unat node_num \<and> unat node_num < 2 ^ Suc (lp_height a)
     then Inr (lms_node a b (priv_I priv) (priv_seed priv) (unat node_num)) else Inl LMS_ERR_INVALID)"
proof -
  note f = co_built_fields [OF assms]
  have "(2 :: nat) ^ lp_height a < 2 ^ 26" using low power_strict_increasing [of "lp_height a" 26 "2 :: nat"] by simp
  then have two: "unat (co_leaf_count t * 2) = 2 ^ Suc (lp_height a)" using unat_double(1) [of "co_leaf_count t"] f(1) by simp
  then have "co_leaf_count t * 2 \<noteq> 0" by (metis unsigned_0 power_not_zero zero_neq_numeral)
  then have "unat (co_leaf_count t * 2 - 1) = 2 ^ Suc (lp_height a) - 1" using two by (simp add: unat_minus_one)
  then have "node_num > co_leaf_count t * 2 - 1 \<longleftrightarrow> \<not> unat node_num < 2 ^ Suc (lp_height a)"
    using zero_less_power [of "2 :: nat" "Suc (lp_height a)"] unfolding word_less_nat_alt by linarith
  moreover have "node_num = 0 \<longleftrightarrow> \<not> 0 < unat node_num" by (simp add: unat_eq_0)
  ultimately show ?thesis using f(2) f(7) [of "unat node_num"] by (simp add: lms_coprocess_node_def del: power_Suc)
qed

lemma co_siblings_path:
  assumes t: "co_built priv a b t" and low: "lp_height a \<le> 10"
    and "2 ^ k \<le> unat node_num" and "unat node_num < 2 ^ Suc (lp_height a)"
  shows "co_siblings k t node_num =
    concat (auth_path (lp_height a) (lms_leaf_at a b (priv_I priv) (priv_seed priv)) (lms_intr_at (op_hash_alg b) (priv_I priv)) (unat node_num) k)"
  using assms(3,4)
proof (induction k arbitrary: node_num)
  case 0
  then show ?case by (simp add: auth_path_def)
next
  case (Suc k)
  have n: "1 < unat node_num" using Suc.prems(1) one_less_power [of "2 :: nat" "Suc k"] by linarith
  have half: "unat (node_num div 2) = unat node_num div 2" by (simp add: unat_div)
  have "2 ^ k \<le> unat (node_num div 2)" "unat (node_num div 2) < 2 ^ Suc (lp_height a)" using Suc.prems by (auto simp: half)
  note IH = Suc.IH [OF this]
  have "0 < sibling (unat node_num)" "sibling (unat node_num) < 2 ^ Suc (lp_height a)"
    using n Suc.prems(2) by (auto simp: sibling_def elim!: evenE) 
  from co_built_fields(7) [OF t low this] show ?case
    using IH co_built_fields(3) [OF t low] by (simp add: unat_xor_one auth_path_Suc half lms_node_def [symmetric])
qed

lemma unat_co_leaf:
  assumes "co_built priv a b t" and low: "lp_height a \<le> 10" and "unat q < 2 ^ lp_height a"
  shows "unat (co_leaf_count t + q) = 2 ^ lp_height a + unat q"
  using assms(3) power_increasing [OF low, of "2 :: nat"] by (simp add: unat_plus_if' co_built_fields(1) [OF assms(1,2)])

lemma co_auth_path:
  assumes t: "co_built priv a b t" and low: "lp_height a \<le> 10"
  shows "lms_coprocess_auth_path t q = path_answer a b priv q"
proof -
  note f = co_built_fields [OF assms]
  have g: "q \<ge> co_leaf_count t \<longleftrightarrow> \<not> unat q < 2 ^ lp_height a" by (simp add: word_le_nat_alt f(1) not_less)
  show ?thesis
  proof (cases "unat q < 2 ^ lp_height a")
    case True
    then have "co_siblings (lp_height a) t (co_leaf_count t + q) = concat (lms_path a b (priv_I priv) (priv_seed priv) (unat q))"
      using co_siblings_path [OF assms, of "lp_height a" "co_leaf_count t + q"] by (simp add: unat_co_leaf [OF assms] lms_path_def)
    then show ?thesis using True g f(2,4) by (simp add: lms_coprocess_auth_path_def path_answer_def)
  next
    case False
    then show ?thesis using g f(2) by (simp add: lms_coprocess_auth_path_def path_answer_def)
  qed
qed

text \<open>The answer of \<open>lms_coprocess_verify\<close>.\<close>

definition co_verdict :: "lms_private_key_t \<Rightarrow> lms_param_t \<Rightarrow> lmots_param_t \<Rightarrow> u32 \<Rightarrow> bytes \<Rightarrow> bytes \<Rightarrow> lms_status_t + unit" where
  "co_verdict priv a b q kv path =
     (if \<not> unat q < 2 ^ lp_height a then Inl LMS_ERR_INVALID
      else if climb (lms_intr_at (op_hash_alg b) (priv_I priv)) (2 ^ lp_height a + unat q)
                (lms_leaf_hash (op_hash_alg b) (priv_I priv) (push_bit (lp_height a) 1 + q) kv) (chunks (lp_height a) path)
              = lms_node a b (priv_I priv) (priv_seed priv) 1 then Inr ()
      else Inl LMS_ERR_VERIFY)"

lemma length_climb: "length v = 32 \<Longrightarrow> length (climb (lms_intr_at alg J) n v p) = 32"
  by (induction p arbitrary: n v) auto

context verify_library
begin

lemma gives_co_verify:
  assumes t: "co_built priv a b t" and low: "lp_height a \<le> 10" and J: "length (priv_I priv) = 16"
    and key: "param_pair (priv_lms_type priv) (priv_lmots_type priv) = Some (a, b)"
    and kv: "length kv = 32" and path: "length path = lp_height a * 32"
  shows "gives fl I (lms_coprocess_verify t q kv path) (co_verdict priv a b q kv path)"
proof -
  note f = co_built_fields [OF t low]
  have g: "q \<ge> co_leaf_count t \<longleftrightarrow> \<not> unat q < 2 ^ lp_height a" by (simp add: word_le_nat_alt f(1) not_less)
  have c: "co_leaf_count t = push_bit (lp_height a) 1" using t by (simp add: co_built_def co_holds_def)
  let ?n = "co_leaf_count t + q" and ?alg = "op_hash_alg b"
  let ?leaf = "lms_leaf_hash ?alg (priv_I priv) ?n kv"
  let ?root = "climb (lms_intr_at ?alg (priv_I priv)) (unat ?n) ?leaf (chunks (lp_height a) path)"
  show ?thesis
  proof (cases "unat q < 2 ^ lp_height a")
    case False
    then have "gives fl I (lms_coprocess_root_from_kv t q kv path) (Inl LMS_ERR_INVALID)"
      unfolding lms_coprocess_root_from_kv_def using f(2) g
      by (intro gives_andthen [OF gives_reject_pass] gives_andthen_err gives_reject) simp_all
    then show ?thesis using False unfolding lms_coprocess_verify_def co_verdict_def
      by (simp add: gives_bind_err [OF gives_or_fail_err])
  next
    case True
    have leaf: "gives fl I (lms_hash_parts (priv_I priv @ lms_store_u32 ?n @ lms_store_u16 D_LEAF) kv [] [] ?alg) (Inr ?leaf)"
      by (rule gives_leaf_hash [OF J kv])
    have up: "gives fl I (lms_climb (lp_height a) (priv_I priv) ?alg ?n ?leaf path 32) (Inr ?root)"
      by (rule gives_climb [OF J _ path]) simp
    have r: "gives fl I (lms_coprocess_root_from_kv t q kv path) (Inr ?root)"
      unfolding lms_coprocess_root_from_kv_def f(3-6) Let_def
      by (rule gives_andthen [OF gives_reject_pass [OF f(2)]], rule gives_andthen [OF gives_reject_pass], use g True in simp,
          rule gives_bind [OF gives_or_fail [OF gives_lms_param_ok [OF param_pairD(1) [OF key]]]], unfold param_pairD(3) [OF key],
          rule gives_bind [OF gives_or_fail [OF leaf]], rule up)
    have d: "fold (\<lambda>i d. d OR (?root ! i XOR lms_node a b (priv_I priv) (priv_seed priv) 1 ! i)) [0..<LMS_N] (0 :: u8) = 0
        \<longleftrightarrow> ?root = lms_node a b (priv_I priv) (priv_seed priv) 1"
      by (rule diff_loop) (simp_all add: length_climb)
    show ?thesis unfolding lms_coprocess_verify_def co_root [OF t low] sum.case Let_def co_verdict_def c [symmetric]
      by (rule gives_bind [OF gives_or_fail [OF r]], unfold d)
        (use True in \<open>simp add: unat_co_leaf [OF t low] gives_ret gives_fail\<close>)
  qed
qed

end

lemma co_verdict_own:
  assumes "unat q < 2 ^ lp_height a" and "lms_params t = Some a"
  shows "co_verdict priv a b q (ots_pub (op_hash_alg b) b (priv_I priv) (priv_seed priv) q)
    (concat (lms_path a b (priv_I priv) (priv_seed priv) (unat q))) = Inr ()"
proof -
  let ?n = "2 ^ lp_height a + unat q" and ?V = "lms_node a b (priv_I priv) (priv_seed priv)"
  have "lms_leaf_hash (op_hash_alg b) (priv_I priv) (push_bit (lp_height a) 1 + q)
      (ots_pub (op_hash_alg b) b (priv_I priv) (priv_seed priv) q) = ?V ?n"
    by (simp add: lms_node_def merkle_leaf lms_leaf_at_def push_bit_of_1)
  moreover have "length (lms_path a b (priv_I priv) (priv_seed priv) (unat q)) = lp_height a" by (simp add: lms_path_def)
  then have "chunks (lp_height a) (concat (lms_path a b (priv_I priv) (priv_seed priv) (unat q)))
      = lms_path a b (priv_I priv) (priv_seed priv) (unat q)"
    using chunks_concat [of "lms_path a b (priv_I priv) (priv_seed priv) (unat q)", OF length_in_lms_path] by simp
  moreover have "?n div 2 ^ lp_height a = 1" by (rule div_nat_eqI) (use assms(1) in simp_all)
  ultimately show ?thesis
    using climb_auth_path [of "lp_height a" ?n "lp_height a" "lms_intr_at (op_hash_alg b) (priv_I priv)"
        "lms_leaf_at a b (priv_I priv) (priv_seed priv)"] assms(1)
    by (simp add: co_verdict_def lms_path_def lms_node_def)
qed

section \<open>Properties\<close>

text \<open>
  C17. The co-processed tree. For a key of height at most 10 and a source of LM-OTS public keys that delivers the right ones
  (by default the library's own), initialising and building the tree succeeds, and afterwards: the root is the root of the
  public key; every node number of the tree returns the node of the Merkle tree and every other number is refused; every leaf
  has its authentication path and other leaf numbers are refused; \<open>lms_coprocess_verify\<close> accepts a one-time public key
  and a path exactly when they climb to the root, which the key's own do.
\<close>

theorem lms_coprocess_tree_serves:
  assumes key: "param_pair (priv_lms_type priv) (priv_lmots_type priv) = Some (a, b)" and low: "lp_height a \<le> 10"
    and I: "length (priv_I priv) = 16" and seed: "env_seed E = priv_seed priv"
    and s: "verify_conforming E s" "\<not> env_fails E"
    and kq: "\<And>f q. kq_src = Some f \<Longrightarrow> unat q < 2 ^ lp_height a \<Longrightarrow>
      gives False (verify_conforming E) (f priv q) (Inr (ots_pub (op_hash_alg b) b (priv_I priv) (priv_seed priv) q))"
  shows "\<exists>s' t. andthen (lms_coprocess_tree_init (priv_lms_type priv) (priv_I priv)) (lms_coprocess_build priv kq_src) (s, t0) = (Inr (), s', t)
    \<and> lms_coprocess_root t = Inr (lms_node a b (priv_I priv) (priv_seed priv) 1)
    \<and> (\<forall>node_num. lms_coprocess_node t node_num =
         (if 0 < unat node_num \<and> unat node_num < 2 ^ Suc (lp_height a)
          then Inr (lms_node a b (priv_I priv) (priv_seed priv) (unat node_num)) else Inl LMS_ERR_INVALID))
    \<and> (\<forall>q. lms_coprocess_auth_path t q = path_answer a b priv q)
    \<and> (\<forall>q kv path. length kv = 32 \<longrightarrow> length path = lp_height a * 32 \<longrightarrow>
         fst (lms_coprocess_verify t q kv path s') = co_verdict priv a b q kv path)
    \<and> (\<forall>q. unat q < 2 ^ lp_height a \<longrightarrow>
         fst (lms_coprocess_verify t q (ots_pub (op_hash_alg b) b (priv_I priv) (priv_seed priv) q)
           (concat (lms_path a b (priv_I priv) (priv_seed priv) (unat q))) s') = Inr ())"
proof -
  have src: "gives (env_fails E) (verify_conforming E) (co_source kq_src priv q)
      (Inr (ots_pub (op_hash_alg b) b (priv_I priv) (priv_seed priv) q))" if "unat q < 2 ^ lp_height a" for q
    using kq that s(2) verify.gives_public_from_private [OF key I seed [symmetric], of q]
    by (cases kq_src) (simp_all add: co_source_def default_ots_pub_def)
  have all: "runs (env_fails E) (\<lambda>s. verify_conforming E (fst s))
      (andthen (lms_coprocess_tree_init (priv_lms_type priv) (priv_I priv)) (lms_coprocess_build priv kq_src))
      (\<lambda>_ s. verify_conforming E (fst s) \<and> co_holds priv a b {1..<2 ^ Suc (lp_height a)} (snd s))"
    by (rule runs_andthen [OF verify.runs_co_init [OF key I low] verify.runs_co_build [OF key I low src]])
  obtain x s1 where "andthen (lms_coprocess_tree_init (priv_lms_type priv) (priv_I priv)) (lms_coprocess_build priv kq_src) (s, t0) = (Inr x, s1)"
    "verify_conforming E (fst s1) \<and> co_holds priv a b {1..<2 ^ Suc (lp_height a)} (snd s1)"
    by (rule runs_success [OF all s(2)]) (use s(1) in auto)
  then obtain s' t where r: "andthen (lms_coprocess_tree_init (priv_lms_type priv) (priv_I priv)) (lms_coprocess_build priv kq_src) (s, t0) = (Inr (), s', t)"
    and s': "verify_conforming E s'" and t: "co_built priv a b t"
    by (cases s1) (auto simp: co_built_def)
  have v: "fst (lms_coprocess_verify t q kv path s') = co_verdict priv a b q kv path"
    if "length kv = 32" "length path = lp_height a * 32" for q kv path
    using yields_run(1) [OF verify.gives_co_verify [OF t low I key that, unfolded gives_def] s'] s(2) by simp
  show ?thesis
    by (rule exI [of _ s'], rule exI [of _ t])
      (use r v co_root [OF t low] co_node [OF t low] co_auth_path [OF t low] co_verdict_own [OF _ param_pairD(1) [OF key]] in simp)
qed

definition blank_tree :: lms_coprocess_tree_t where
  "blank_tree = \<lparr>co_lms_type = 0, co_height = 0, co_n = 0, co_leaf_count = 0, co_I = [], co_nodes = []\<rparr>"

text \<open>Witness of C17: the test key of height 5, with the default source.\<close>

theorem lms_coprocess_tree_serves_witness:
  "\<exists>s' t. andthen (lms_coprocess_tree_init (priv_lms_type test_priv) (priv_I test_priv)) (lms_coprocess_build test_priv None)
        (hash_test_lib, blank_tree) = (Inr (), s', t)
    \<and> lms_coprocess_root t = Inr (lms_node test_lms_param test_ots_param (priv_I test_priv) (priv_seed test_priv) 1)
    \<and> lms_coprocess_node t 64 = Inl LMS_ERR_INVALID
    \<and> lms_coprocess_auth_path t 31 = Inr (concat (lms_path test_lms_param test_ots_param (priv_I test_priv) (priv_seed test_priv) 31))
    \<and> lms_coprocess_auth_path t 32 = Inl LMS_ERR_INVALID
    \<and> fst (lms_coprocess_verify t 31 (ots_pub LMS_HASH_SHA256 test_ots_param (priv_I test_priv) (priv_seed test_priv) 31)
        (concat (lms_path test_lms_param test_ots_param (priv_I test_priv) (priv_seed test_priv) 31)) s') = Inr ()"
proof -
  have h: "lp_height test_lms_param = 5" "op_hash_alg test_ots_param = LMS_HASH_SHA256" by (simp_all add: test_lms_param_def test_ots_param_def)
  then have low: "lp_height test_lms_param \<le> 10" by simp
  obtain s' t where r: "andthen (lms_coprocess_tree_init (priv_lms_type test_priv) (priv_I test_priv)) (lms_coprocess_build test_priv None)
        (hash_test_lib, blank_tree) = (Inr (), s', t)"
      "lms_coprocess_root t = Inr (lms_node test_lms_param test_ots_param (priv_I test_priv) (priv_seed test_priv) 1)"
    and n: "\<And>node_num. lms_coprocess_node t node_num = (if 0 < unat node_num \<and> unat node_num < 2 ^ Suc (lp_height test_lms_param)
          then Inr (lms_node test_lms_param test_ots_param (priv_I test_priv) (priv_seed test_priv) (unat node_num)) else Inl LMS_ERR_INVALID)"
    and p: "\<And>q. lms_coprocess_auth_path t q = path_answer test_lms_param test_ots_param test_priv q"
    and v: "\<And>q. unat q < 2 ^ lp_height test_lms_param \<Longrightarrow>
         fst (lms_coprocess_verify t q (ots_pub (op_hash_alg test_ots_param) test_ots_param (priv_I test_priv) (priv_seed test_priv) q)
           (concat (lms_path test_lms_param test_ots_param (priv_I test_priv) (priv_seed test_priv) (unat q))) s') = Inr ()"
    using lms_coprocess_tree_serves [where kq_src = None and ?t0.0 = blank_tree, OF test_priv_facts(3) low test_I16 test_priv_facts(4)
        test_lib_verify_conforming test_priv_facts(5) option.distinct(1) [THEN notE]] by blast
  show ?thesis using r n [of 64] p [of 31] p [of 32] v [of 31]
    by (intro exI [of _ s'] exI [of _ t]) (simp add: h path_answer_def)
qed

end
