(* ===== verification/Lms_Rnd.thy ===== *)
theory Lms_Rnd
  imports Sec_State
begin

text \<open>
  The random sources behind \<open>fw/lms_rnd.h\<close>, one of which is linked into the firmware: \<open>lms_rnd_det.c\<close> derives bytes from a
  secret context with SHA-256 in counter mode, \<open>lms_rnd_stub.c\<close> is a fixed xorshift generator, and \<open>lms_rnd_trng.c\<close> draws
  from the entropy peripheral and conditions its words with the hash accelerator.

  The three files define the same C names; here they carry the suffixes \<open>_det\<close>, \<open>_stub\<close> and \<open>_trng\<close>. A source runs on its
  own static variables. The registers the third one reads and writes belong to devices that are not part of the code: as in
  \<open>Lms_Mmio\<close> they are two functions on an arbitrary device state. Its two polling loops have no bound, so its
  operations return \<open>None\<close> when they never finish.
\<close>

section \<open>Deterministic derivation\<close>

record det_state =
  det_counter :: u32
  det_ctx :: bytes
  det_seeded :: bool

text \<open>\<open>det_ctx_len\<close> is the length of \<open>det_ctx\<close>.\<close>

definition DET_CTX_SIZE :: nat where "DET_CTX_SIZE = 64"

definition lms_rnd_det_seed :: "bytes \<Rightarrow> det_state \<Rightarrow> det_state" where
  "lms_rnd_det_seed ctx s = s\<lparr>det_ctx := take DET_CTX_SIZE ctx, det_counter := 0, det_seeded := True\<rparr>"

definition det_be32 :: "u32 \<Rightarrow> bytes" where
  "det_be32 x = [ucast (drop_bit 24 x), ucast (drop_bit 16 x), ucast (drop_bit 8 x), ucast x]"

definition det_block :: "det_state \<Rightarrow> bytes \<times> det_state" where
  "det_block s =
     (let ctr_be = det_be32 (det_counter s);
          len_be = det_be32 (word_of_nat (length (det_ctx s)));
          h = SHA256_Init sha256_ctx_uninit;
          h = SHA256_Update h (ascii ''LMS-RND-DET'');
          h = SHA256_Update h ctr_be;
          h = SHA256_Update h (det_ctx s);
          h = SHA256_Update h len_be
      in (SHA256_Final h, s\<lparr>det_counter := det_counter s + 1\<rparr>))"

definition lms_rnd32_det :: "det_state \<Rightarrow> u32 \<times> det_state" where
  "lms_rnd32_det s =
     (if \<not> det_seeded s then (0, s)
      else case det_block s of (block, s) \<Rightarrow>
        (push_bit 24 (ucast (block ! 0)) OR push_bit 16 (ucast (block ! 1)) OR push_bit 8 (ucast (block ! 2)) OR ucast (block ! 3), s))"

text \<open>The loop of \<open>lms_rnd\<close> over the remaining length.\<close>

function det_fill :: "nat \<Rightarrow> det_state \<Rightarrow> bytes \<times> det_state" where
  "det_fill len s =
     (if len = 0 then ([], s)
      else let n = (if len < 32 then len else 32)
           in case det_block s of (block, s) \<Rightarrow> case det_fill (len - n) s of (rest, s) \<Rightarrow> (take n block @ rest, s))"
  by pat_completeness auto
termination
  by (relation "measure fst") auto

declare det_fill.simps [simp del]

definition lms_rnd_det :: "nat \<Rightarrow> det_state \<Rightarrow> bytes \<times> det_state" where
  "lms_rnd_det len s = (if \<not> det_seeded s then (replicate len 0, s) else det_fill len s)"

section \<open>Fixed test sequence\<close>

definition stub_seed :: u32 where "stub_seed = 0x9e3779b9"

definition lms_rnd32_stub :: "u32 \<Rightarrow> u32 \<times> u32" where
  "lms_rnd32_stub stub_state =
     (let x = stub_state;
          x = x XOR push_bit 13 x;
          x = x XOR drop_bit 17 x;
          x = x XOR push_bit 5 x
      in (x, x))"

fun stub_fill :: "nat \<Rightarrow> nat \<Rightarrow> u32 \<Rightarrow> bytes \<times> u32" where
  "stub_fill 0 i st = ([], st)"
| "stub_fill (Suc k) i st =
     (let st = (if i AND 3 = 0 then snd (lms_rnd32_stub st) else st)
      in case stub_fill k (i + 1) st of (rest, st') \<Rightarrow> (ucast (drop_bit ((i AND 3) * 8) st) # rest, st'))"

definition lms_rnd_stub :: "nat \<Rightarrow> u32 \<Rightarrow> bytes \<times> u32" where
  "lms_rnd_stub len st = stub_fill len 0 st"

definition lms_rnd_det_seed_stub :: "bytes \<Rightarrow> u32 \<Rightarrow> u32" where
  "lms_rnd_det_seed_stub ctx st = st"

section \<open>Entropy peripheral\<close>

abbreviation (input) TRNG_STAT :: u32 where "TRNG_STAT \<equiv> 0x1700000c"
abbreviation (input) TRNG_RND :: u32 where "TRNG_RND \<equiv> 0x17000010"
abbreviation (input) TRNG_STAT_HEALTH_FAIL :: u32 where "TRNG_STAT_HEALTH_FAIL \<equiv> 1"
abbreviation (input) TRNG_STAT_WORD_VALID :: u32 where "TRNG_STAT_WORD_VALID \<equiv> 256"
abbreviation (input) LMS_COMMAND :: u32 where "LMS_COMMAND \<equiv> 0x16000008"
abbreviation (input) LMS_CONTROL :: u32 where "LMS_CONTROL \<equiv> 0x1600000c"
abbreviation (input) LMS_STATUS :: u32 where "LMS_STATUS \<equiv> 0x16000010"
abbreviation (input) LMS_ERROR :: u32 where "LMS_ERROR \<equiv> 0x16000014"
abbreviation (input) LMS_INPUT_LENGTH :: u32 where "LMS_INPUT_LENGTH \<equiv> 0x16000018"
abbreviation (input) LMS_OUTPUT_LENGTH :: u32 where "LMS_OUTPUT_LENGTH \<equiv> 0x1600001c"
abbreviation (input) LMS_INPUT :: u32 where "LMS_INPUT \<equiv> 0x16000100"
abbreviation (input) LMS_OUTPUT :: u32 where "LMS_OUTPUT \<equiv> 0x16000200"

record 'd trng_state =
  mmio_read :: "u32 \<Rightarrow> 'd \<Rightarrow> u32 \<times> 'd"
  mmio_write :: "u32 \<Rightarrow> u32 \<Rightarrow> 'd \<Rightarrow> 'd"
  dev :: 'd
  fault_flag :: bool
  cond_buf :: bytes
  cond_avail :: nat

type_synonym ('d, 'a) trop = "'d trng_state \<Rightarrow> ('a \<times> 'd trng_state) option"

definition mmio_get :: "u32 \<Rightarrow> 'd trng_state \<Rightarrow> u32 \<times> 'd trng_state" where
  "mmio_get addr s = (case mmio_read s addr (dev s) of (v, d) \<Rightarrow> (v, s\<lparr>dev := d\<rparr>))"

definition mmio_put :: "u32 \<Rightarrow> u32 \<Rightarrow> 'd trng_state \<Rightarrow> 'd trng_state" where
  "mmio_put addr v s = s\<lparr>dev := mmio_write s addr v (dev s)\<rparr>"

text \<open>The loop that waits for a valid word; the result is \<open>False\<close> when the health check fails.\<close>

partial_function (option) trng_wait :: "u32 \<Rightarrow> 'd trng_state \<Rightarrow> (bool \<times> 'd trng_state) option" where
  "trng_wait stat s =
     (if stat AND TRNG_STAT_WORD_VALID \<noteq> 0 then Some (True, s)
      else case mmio_get TRNG_STAT s of (stat, s) \<Rightarrow>
        if stat AND TRNG_STAT_HEALTH_FAIL \<noteq> 0 then Some (False, s) else trng_wait stat s)"

definition trng_raw_word :: "('d, u32) trop" where
  "trng_raw_word s =
     (case mmio_get TRNG_STAT s of (stat, s) \<Rightarrow>
      if stat AND TRNG_STAT_HEALTH_FAIL \<noteq> 0 then Some (0, s\<lparr>fault_flag := True\<rparr>)
      else case trng_wait stat s of
        None \<Rightarrow> None
      | Some (False, s) \<Rightarrow> Some (0, s\<lparr>fault_flag := True\<rparr>)
      | Some (True, s) \<Rightarrow> Some (mmio_get TRNG_RND s))"

text \<open>The loop over the 16 input words, and the loop that waits for the accelerator.\<close>

fun trng_feed :: "nat \<Rightarrow> nat \<Rightarrow> ('d, unit) trop" where
  "trng_feed 0 index s = Some ((), s)"
| "trng_feed (Suc k) index s =
     (case trng_raw_word s of
        None \<Rightarrow> None
      | Some (w, s) \<Rightarrow> trng_feed k (index + 1) (mmio_put (LMS_INPUT + word_of_nat (index * 4)) w s))"

partial_function (option) trng_busy :: "'d trng_state \<Rightarrow> (unit \<times> 'd trng_state) option" where
  "trng_busy s = (case mmio_get LMS_STATUS s of (v, s) \<Rightarrow> if v AND 1 \<noteq> 0 then trng_busy s else Some ((), s))"

fun trng_collect :: "nat \<Rightarrow> nat \<Rightarrow> 'd trng_state \<Rightarrow> bytes \<times> 'd trng_state" where
  "trng_collect 0 index s = ([], s)"
| "trng_collect (Suc k) index s =
     (case mmio_get (LMS_OUTPUT + word_of_nat (index * 4)) s of (w, s) \<Rightarrow>
      case trng_collect k (index + 1) s of (rest, s) \<Rightarrow>
        ([ucast w, ucast (drop_bit 8 w), ucast (drop_bit 16 w), ucast (drop_bit 24 w)] @ rest, s))"

definition trng_clear :: "'d trng_state \<Rightarrow> 'd trng_state" where
  "trng_clear s = s\<lparr>cond_buf := replicate 32 0, cond_avail := 0\<rparr>"

text \<open>\<open>MMIO32(LMS_ERROR)\<close> is only read when the status is \<open>LMS_STATUS_DONE\<close>.\<close>

definition trng_harvest :: "'d trng_state \<Rightarrow> 'd trng_state" where
  "trng_harvest s =
     (case mmio_get LMS_STATUS s of (st, s) \<Rightarrow>
      if st \<noteq> 2 then trng_clear (s\<lparr>fault_flag := True\<rparr>)
      else case mmio_get LMS_ERROR s of (e, s) \<Rightarrow>
        if e \<noteq> 0 then trng_clear (s\<lparr>fault_flag := True\<rparr>)
        else case trng_collect 8 0 s of (bytes, s) \<Rightarrow> s\<lparr>cond_buf := bytes, cond_avail := 8\<rparr>)"

definition trng_cond_refill :: "('d, unit) trop" where
  "trng_cond_refill s =
     (let s = mmio_put LMS_CONTROL 2 s;
          s = mmio_put LMS_COMMAND 1 s;
          s = mmio_put LMS_INPUT_LENGTH 64 s;
          s = mmio_put LMS_OUTPUT_LENGTH 32 s
      in case trng_feed 16 0 s of
           None \<Rightarrow> None
         | Some (_, s) \<Rightarrow>
             if fault_flag s then Some ((), trng_clear s)
             else case trng_busy (mmio_put LMS_CONTROL 1 s) of
               None \<Rightarrow> None
             | Some (_, s) \<Rightarrow> Some ((), trng_harvest s))"

definition cond_word :: "nat \<Rightarrow> bytes \<Rightarrow> u32" where
  "cond_word used buf =
     ucast (buf ! (used * 4)) OR push_bit 8 (ucast (buf ! (used * 4 + 1))) OR
     push_bit 16 (ucast (buf ! (used * 4 + 2))) OR push_bit 24 (ucast (buf ! (used * 4 + 3)))"

definition take_cond_word :: "'d trng_state \<Rightarrow> u32 \<times> 'd trng_state" where
  "take_cond_word s = (cond_word (8 - cond_avail s) (cond_buf s), s\<lparr>cond_avail := cond_avail s - 1\<rparr>)"

text \<open>The default build, \<open>LMS_RND_TRNG_COND\<close> 2.\<close>

definition lms_rnd32_trng :: "('d, u32) trop" where
  "lms_rnd32_trng s =
     (if fault_flag s then Some (0, s)
      else if cond_avail s = 0 then
        (case trng_cond_refill s of
           None \<Rightarrow> None
         | Some (_, s) \<Rightarrow> if cond_avail s = 0 then Some (0, s) else Some (take_cond_word s))
      else Some (take_cond_word s))"

fun trng_fill :: "nat \<Rightarrow> nat \<Rightarrow> u32 \<Rightarrow> ('d, bytes) trop" where
  "trng_fill 0 i word s = Some ([], s)"
| "trng_fill (Suc k) i word s =
     (case (if i AND 3 = 0 then lms_rnd32_trng s else Some (drop_bit 8 word, s)) of
        None \<Rightarrow> None
      | Some (word, s) \<Rightarrow> (case trng_fill k (i + 1) word s of
          None \<Rightarrow> None
        | Some (rest, s) \<Rightarrow> Some (ucast word # rest, s)))"

definition lms_rnd_trng :: "nat \<Rightarrow> ('d, bytes) trop" where
  "lms_rnd_trng len s = trng_fill len 0 0 s"

text \<open>Seeding is a no-operation here, and \<open>LMS_RND_TRNG_COND\<close> 1 is a build that hands out the raw words.\<close>

definition lms_rnd_det_seed_trng :: "bytes \<Rightarrow> 'd trng_state \<Rightarrow> 'd trng_state" where
  "lms_rnd_det_seed_trng ctx s = s"

definition trng_direct_word :: "('d, u32) trop" where
  "trng_direct_word s = trng_raw_word s"

definition lms_rnd32_direct :: "('d, u32) trop" where
  "lms_rnd32_direct s = (if fault_flag s then Some (0, s) else trng_direct_word s)"

section \<open>The interface\<close>

text \<open>
  What the firmware relies on: a source that returns fills exactly the bytes asked for and stays usable. Sources that always
  return are total functions of the length and the state.
\<close>

locale random_source =
  fixes rnd :: "nat \<Rightarrow> 's \<Rightarrow> (bytes \<times> 's) option" and usable :: "'s \<Rightarrow> bool"
  assumes rnd_length: "usable s \<Longrightarrow> rnd n s = Some (out, s') \<Longrightarrow> length out = n"
    and rnd_usable: "usable s \<Longrightarrow> rnd n s = Some (out, s') \<Longrightarrow> usable s'"
begin

fun draws :: "nat list \<Rightarrow> 's \<Rightarrow> (bytes list \<times> 's) option" where
  "draws [] s = Some ([], s)"
| "draws (n # ns) s = (case rnd n s of None \<Rightarrow> None | Some (b, s') \<Rightarrow>
     (case draws ns s' of None \<Rightarrow> None | Some (bs, s'') \<Rightarrow> Some (b # bs, s'')))"

lemma draws_fill:
  assumes "usable s" and "draws ns s = Some (bs, s')"
  shows "map length bs = ns \<and> usable s'"
  using assms
proof (induction ns arbitrary: s bs)
  case (Cons n ns)
  then obtain b t bs' where "rnd n s = Some (b, t)" "draws ns t = Some (bs', s')" "bs = b # bs'"
    by (auto split: option.splits prod.splits)
  then show ?case using Cons.IH [of t bs'] Cons.prems(1) rnd_length [of s n b t] rnd_usable [of s n b t] by simp
qed simp

end

section \<open>What the deterministic source delivers\<close>

definition det_input :: "bytes \<Rightarrow> u32 \<Rightarrow> bytes" where
  "det_input ctx i = ascii ''LMS-RND-DET'' @ lms_store_u32 i @ ctx @ lms_store_u32 (word_of_nat (length ctx))"

definition det_stream :: "bytes \<Rightarrow> nat \<Rightarrow> bytes" where
  "det_stream ctx i = sha256_spec (det_input ctx (word_of_nat i))"

lemma length_det_stream [simp, len_simps]: "length (det_stream ctx i) = 32"
  by (simp add: det_stream_def)

lemma det_input_inj:
  "det_input c (word_of_nat i) = det_input c' (word_of_nat j) \<longleftrightarrow> c = c' \<and> i mod 2 ^ 32 = j mod 2 ^ 32"
proof
  assume e: "det_input c (word_of_nat i) = det_input c' (word_of_nat j)"
  then have l: "length c = length c'" by (auto simp: det_input_def dest: arg_cong [where f = length])
  from e have "lms_store_u32 (word_of_nat i) @ c = lms_store_u32 (word_of_nat j) @ c'"
    by (simp add: det_input_def l)
  then have "lms_store_u32 (word_of_nat i) = lms_store_u32 (word_of_nat j)" and c: "c = c'"
    by (simp_all add: append_eq_append_conv)
  then have "(word_of_nat i :: u32) = word_of_nat j" by (simp add: store_u32_inj)
  then show "c = c' \<and> i mod 2 ^ 32 = j mod 2 ^ 32" using c by (simp add: word_of_nat_eq_iff take_bit_eq_mod)
next
  assume "c = c' \<and> i mod 2 ^ 32 = j mod 2 ^ 32"
  then have "(word_of_nat i :: u32) = word_of_nat j" and "c = c'" by (simp_all add: word_of_nat_eq_iff take_bit_eq_mod)
  then show "det_input c (word_of_nat i) = det_input c' (word_of_nat j)" by (simp only:)
qed

lemma det_block_value:
  assumes "det_counter s = word_of_nat i"
  shows "det_block s = (det_stream (det_ctx s) i, s\<lparr>det_counter := word_of_nat (i + 1)\<rparr>)"
  using sha_absorbed_uninit [THEN sha_absorbed_update [where data = "ascii ''LMS-RND-DET''"],
      THEN sha_absorbed_update [where data = "lms_store_u32 (det_counter s)"], THEN sha_absorbed_update [where data = "det_ctx s"],
      THEN sha_absorbed_update [where data = "lms_store_u32 (word_of_nat (length (det_ctx s)))"], THEN sha256_final_spec] assms
  by (simp add: det_block_def det_be32_def lms_store_u32_def Let_def det_stream_def det_input_def add.commute)

lemma det_fill_value:
  assumes "det_counter s = word_of_nat i"
  shows "det_fill len s = (take len (concat (map (det_stream (det_ctx s)) [i..<i + (len + 31) div 32])),
    s\<lparr>det_counter := word_of_nat (i + (len + 31) div 32)\<rparr>)"
  using assms
proof (induction len s arbitrary: i rule: det_fill.induct)
  case (1 len s)
  show ?case
  proof (cases "len = 0")
    case True
    then show ?thesis using "1.prems" by (simp add: det_fill.simps)
  next
    case False
    let ?n = "if len < 32 then len else 32" and ?s = "s\<lparr>det_counter := word_of_nat (i + 1)\<rparr>"
    have b: "det_block s = (det_stream (det_ctx s) i, ?s)" by (rule det_block_value [OF "1.prems"])
    have IH: "det_fill (len - ?n) ?s = (take (len - ?n) (concat (map (det_stream (det_ctx s)) [i + 1..<i + 1 + (len - ?n + 31) div 32])),
        ?s\<lparr>det_counter := word_of_nat (i + 1 + (len - ?n + 31) div 32)\<rparr>)"
      using "1.IH" [OF False refl b [symmetric], of "i + 1"] by simp
    have k: "(len + 31) div 32 = Suc ((len - ?n + 31) div 32)"
    proof (cases "len < 32")
      case True
      then show ?thesis using False by simp
    next
      case False
      then have "len + 31 = (len - 32 + 31) + 32" by simp
      then show ?thesis using False by simp
    qed
    have e: "[i..<i + (len + 31) div 32] = i # [i + 1..<i + 1 + (len - ?n + 31) div 32]"
      unfolding k by (simp add: upt_conv_Cons)
    have t: "take len (det_stream (det_ctx s) i @ xs) = take ?n (det_stream (det_ctx s) i) @ take (len - ?n) xs" for xs
      by (simp add: take_append)
    have r: "det_fill len s = (take ?n (det_stream (det_ctx s) i) @ fst (det_fill (len - ?n) ?s), snd (det_fill (len - ?n) ?s))"
      using False by (subst det_fill.simps) (simp add: b split: prod.splits)
    show ?thesis unfolding r IH e by (simp add: t k)
  qed
qed

text \<open>Sequences of draws, as words and as bytes, with the number of bytes and of blocks each takes.\<close>

datatype draw = Draw_word | Draw_bytes nat

fun det_draw :: "draw \<Rightarrow> det_state \<Rightarrow> bytes \<times> det_state" where
  "det_draw Draw_word s = (case lms_rnd32_det s of (w, s) \<Rightarrow> (lms_store_u32 w, s))"
| "det_draw (Draw_bytes n) s = lms_rnd_det n s"

fun det_draws :: "draw list \<Rightarrow> det_state \<Rightarrow> bytes list" where
  "det_draws [] s = []"
| "det_draws (d # ds) s = (case det_draw d s of (b, s) \<Rightarrow> b # det_draws ds s)"

fun draw_len :: "draw \<Rightarrow> nat" where
  "draw_len Draw_word = 4"
| "draw_len (Draw_bytes n) = n"

fun draw_blocks :: "draw \<Rightarrow> nat" where
  "draw_blocks Draw_word = 1"
| "draw_blocks (Draw_bytes n) = (n + 31) div 32"

fun stream_draws :: "(nat \<Rightarrow> bytes) \<Rightarrow> nat \<Rightarrow> draw list \<Rightarrow> bytes list" where
  "stream_draws f i [] = []"
| "stream_draws f i (d # ds) = take (draw_len d) (concat (map f [i..<i + draw_blocks d])) # stream_draws f (i + draw_blocks d) ds"

lemma store_loaded:
  "lms_store_u32 (push_bit 24 (ucast (a :: u8)) OR push_bit 16 (ucast (b :: u8)) OR push_bit 8 (ucast (c :: u8)) OR ucast (d :: u8)) = [a, b, c, d]"
  unfolding lms_store_u32_def list.inject
  by (intro conjI bit_word_eqI) (auto simp: bit_simps dest: bit_imp_le_length)

lemma take4_load:
  "length b = 32 \<Longrightarrow> take 4 b = lms_store_u32 (push_bit 24 (ucast (b ! 0)) OR push_bit 16 (ucast (b ! 1)) OR push_bit 8 (ucast (b ! 2)) OR ucast (b ! 3))"
  unfolding store_loaded by (simp add: take_Suc_conv_app_nth eval_nat_numeral)

lemma det_draw_value:
  assumes "det_seeded s" and "det_counter s = word_of_nat i"
  shows "det_draw d s = (take (draw_len d) (concat (map (det_stream (det_ctx s)) [i..<i + draw_blocks d])),
    s\<lparr>det_counter := word_of_nat (i + draw_blocks d)\<rparr>)"
  using assms
  by (cases d) (simp_all add: lms_rnd32_det_def lms_rnd_det_def det_block_value det_fill_value take4_load)

lemma det_draws_value:
  assumes "det_seeded s" and "det_counter s = word_of_nat i"
  shows "det_draws ds s = stream_draws (det_stream (det_ctx s)) i ds"
  using assms
proof (induction ds arbitrary: s i)
  case (Cons d ds)
  then show ?case using Cons.IH [of "s\<lparr>det_counter := word_of_nat (i + draw_blocks d)\<rparr>" "i + draw_blocks d"] by (simp add: det_draw_value)
qed simp

lemma det_draws_unseeded: "\<not> det_seeded s \<Longrightarrow> det_draws ds s = map (\<lambda>d. replicate (draw_len d) 0) ds"
proof (induction ds)
  case (Cons d ds)
  then show ?case by (cases d) (simp_all add: lms_rnd32_det_def lms_rnd_det_def lms_store_u32_def eval_nat_numeral)
qed simp

definition det_source :: "nat \<Rightarrow> det_state \<Rightarrow> (bytes \<times> det_state) option" where
  "det_source n s = Some (lms_rnd_det n s)"

lemma length_stream: "length (concat (map (det_stream ctx) [i..<i + k])) = 32 * k"
  by (induction k) simp_all

lemma length_lms_rnd_det: "length (fst (lms_rnd_det n s)) = n"
proof (cases "det_seeded s")
  case True
  have "n \<le> 32 * ((n + 31) div 32)" by presburger
  then show ?thesis using True det_fill_value [of s "unat (det_counter s)" n]
    by (simp add: lms_rnd_det_def length_stream)
qed (simp add: lms_rnd_det_def)

interpretation det: random_source det_source "\<lambda>_. True"
  by unfold_locales (use length_lms_rnd_det in \<open>auto simp: det_source_def\<close>, metis fst_conv)

section \<open>The stub never stops\<close>

lemma xor_shift_left_inj:
  fixes x y :: u32
  assumes "x XOR push_bit k x = y XOR push_bit k y" and "0 < k"
  shows "x = y"
proof (rule bit_eqI)
  fix n
  show "bit x n = bit y n" if "possible_bit TYPE(u32) n"
    using that
  proof (induction n rule: less_induct)
    case (less n)
    have "bit (x XOR push_bit k x) n = bit (y XOR push_bit k y) n" by (simp only: assms(1))
    then show ?case using less assms(2) by (cases "k \<le> n") (auto simp: bit_simps)
  qed
qed

lemma xor_shift_right_inj:
  fixes x y :: u32
  assumes "x XOR drop_bit k x = y XOR drop_bit k y" and "0 < k"
  shows "x = y"
proof (rule bit_eqI)
  fix n
  show "bit x n = bit y n" if "possible_bit TYPE(u32) n"
  proof (cases "n < 32")
    case True
    then show ?thesis
    proof (induction "32 - n" arbitrary: n rule: less_induct)
      case less
      have "bit (x XOR drop_bit k x) n = bit (y XOR drop_bit k y) n" by (simp only: assms(1))
      moreover have "bit x (k + n) = bit y (k + n)"
      proof (cases "k + n < 32")
        case True
        then show ?thesis using less(1) [of "k + n"] assms(2) by simp
      next
        case False
        then show ?thesis using bit_imp_le_length [of x "k + n"] bit_imp_le_length [of y "k + n"] by auto
      qed
      ultimately show ?case by (auto simp: bit_simps)
    qed
  qed (use that in simp)
qed

lemma stub_inj: "snd (lms_rnd32_stub x) = snd (lms_rnd32_stub y) \<Longrightarrow> x = y"
  unfolding lms_rnd32_stub_def Let_def snd_conv
  by (drule xor_shift_left_inj, simp, drule xor_shift_right_inj, simp, drule xor_shift_left_inj, simp_all)

lemma stub_nonzero: "st \<noteq> 0 \<Longrightarrow> snd (lms_rnd32_stub st) \<noteq> 0"
  using stub_inj [of st 0] by (auto simp: lms_rnd32_stub_def Let_def)

lemma stub_fill_facts: "stub_fill k i st = (out, st') \<Longrightarrow> length out = k \<and> (st \<noteq> 0 \<longrightarrow> st' \<noteq> 0)"
proof (induction k arbitrary: i st out)
  case (Suc k)
  let ?st = "if i AND 3 = 0 then snd (lms_rnd32_stub st) else st"
  obtain rest where "stub_fill k (i + 1) ?st = (rest, st')" "length out = Suc (length rest)"
    using Suc.prems by (auto simp: Let_def split: prod.splits)
  moreover have "st \<noteq> 0 \<longrightarrow> ?st \<noteq> 0" using stub_nonzero by auto
  ultimately show ?case using Suc.IH [of "i + 1" ?st rest] by auto
qed simp

definition stub_source :: "nat \<Rightarrow> u32 \<Rightarrow> (bytes \<times> u32) option" where
  "stub_source n st = Some (lms_rnd_stub n st)"

interpretation stub: random_source stub_source "\<lambda>st. st \<noteq> 0"
  by unfold_locales (auto simp: stub_source_def lms_rnd_stub_def dest: stub_fill_facts)

section \<open>The entropy source serves every conditioned word once and fails closed\<close>

text \<open>What the device accesses leave alone, with the fault flag free to rise.\<close>

definition soft_same :: "'d trng_state \<Rightarrow> 'd trng_state \<Rightarrow> bool" where
  "soft_same s s' \<longleftrightarrow> mmio_read s' = mmio_read s \<and> mmio_write s' = mmio_write s \<and> cond_buf s' = cond_buf s
     \<and> cond_avail s' = cond_avail s \<and> (fault_flag s \<longrightarrow> fault_flag s')"

lemma soft_same_refl [simp]: "soft_same s s"
  by (simp add: soft_same_def)

lemma soft_same_trans: "soft_same s t \<Longrightarrow> soft_same t u \<Longrightarrow> soft_same s u"
  by (simp add: soft_same_def)

lemma soft_same_get: "mmio_get a s = (v, s') \<Longrightarrow> soft_same s s' \<and> fault_flag s' = fault_flag s"
  by (auto simp: mmio_get_def soft_same_def split: prod.splits)

lemma soft_same_put [simp]: "soft_same s (mmio_put a v s)" "fault_flag (mmio_put a v s) = fault_flag s"
  by (simp_all add: mmio_put_def soft_same_def)

lemma soft_same_fault: "soft_same s t \<Longrightarrow> soft_same s (t\<lparr>fault_flag := True\<rparr>)"
  by (simp add: soft_same_def)

lemma trng_wait_soft:
  assumes "trng_wait stat s = Some r"
  shows "soft_same s (snd r)"
  using assms
proof (rule trng_wait.raw_induct [rotated, where P = "\<lambda>_ s r. soft_same s (snd r)"])
  fix f stat s r
  assume IH: "\<And>stat s r. f stat s = Some r \<Longrightarrow> soft_same s (snd r)"
    and body: "(if stat AND TRNG_STAT_WORD_VALID \<noteq> 0 then Some (True, s)
      else case mmio_get TRNG_STAT s of (stat, s) \<Rightarrow> if stat AND TRNG_STAT_HEALTH_FAIL \<noteq> 0 then Some (False, s) else f stat s) = Some r"
  obtain v t where t: "mmio_get TRNG_STAT s = (v, t)" by force
  show "soft_same s (snd r)" using body t IH [of v t r] soft_same_get [OF t] by (auto split: if_splits intro: soft_same_trans)
qed

lemma trng_raw_word_soft:
  assumes "trng_raw_word s = Some (w, s')"
  shows "soft_same s s'"
proof -
  obtain v t where t: "mmio_get TRNG_STAT s = (v, t)" by force
  note st = conjunct1 [OF soft_same_get [OF t]]
  show ?thesis
  proof (cases "v AND TRNG_STAT_HEALTH_FAIL \<noteq> 0")
    case True
    then show ?thesis using assms t st by (auto simp: trng_raw_word_def intro: soft_same_fault)
  next
    case False
    then obtain b x where x: "trng_wait v t = Some (b, x)" using assms t by (auto simp: trng_raw_word_def split: option.splits)
    have sx: "soft_same s x" using soft_same_trans [OF st] trng_wait_soft [OF x] by simp
    show ?thesis using assms t x False sx soft_same_get [of TRNG_RND x w s']
      by (cases b) (auto simp: trng_raw_word_def intro: soft_same_fault soft_same_trans)
  qed
qed

lemma trng_feed_soft: "trng_feed k i s = Some (u, s') \<Longrightarrow> soft_same s s'"
proof (induction k arbitrary: i s)
  case (Suc k)
  then obtain w t where t: "trng_raw_word s = Some (w, t)"
    and rest: "trng_feed k (i + 1) (mmio_put (LMS_INPUT + word_of_nat (i * 4)) w t) = Some (u, s')"
    by (auto split: option.splits prod.splits)
  show ?case using Suc.IH [OF rest] trng_raw_word_soft [OF t] soft_same_put(1) by (blast intro: soft_same_trans)
qed simp

lemma trng_busy_soft:
  assumes "trng_busy s = Some r"
  shows "soft_same s (snd r) \<and> fault_flag (snd r) = fault_flag s"
  using assms
proof (rule trng_busy.raw_induct [rotated, where P = "\<lambda>s r. soft_same s (snd r) \<and> fault_flag (snd r) = fault_flag s"])
  fix f s r
  assume IH: "\<And>s r. f s = Some r \<Longrightarrow> soft_same s (snd r) \<and> fault_flag (snd r) = fault_flag s"
    and body: "(case mmio_get LMS_STATUS s of (v, s) \<Rightarrow> if v AND 1 \<noteq> 0 then f s else Some ((), s)) = Some r"
  obtain v t where t: "mmio_get LMS_STATUS s = (v, t)" by force
  show "soft_same s (snd r) \<and> fault_flag (snd r) = fault_flag s"
    using body t IH [of t r] soft_same_get [OF t] by (auto split: if_splits intro: soft_same_trans)
qed

lemma trng_collect_soft: "trng_collect k i s = (bs, s') \<Longrightarrow> soft_same s s' \<and> fault_flag s' = fault_flag s \<and> length bs = 4 * k"
proof (induction k arbitrary: i s bs)
  case (Suc k)
  then obtain w t rest where t: "mmio_get (LMS_OUTPUT + word_of_nat (i * 4)) s = (w, t)" and r: "trng_collect k (i + 1) t = (rest, s')"
    and bs: "length bs = 4 + length rest"
    by (auto split: prod.splits)
  show ?case using Suc.IH [OF r] soft_same_get [OF t] bs by (auto intro: soft_same_trans)
qed simp

text \<open>The static variables between calls, and the words not yet handed out.\<close>

definition trng_ok :: "'d trng_state \<Rightarrow> bool" where
  "trng_ok s \<longleftrightarrow> cond_avail s \<le> 8 \<and> length (cond_buf s) = 32"

definition digest_words :: "bytes \<Rightarrow> u32 list" where
  "digest_words buf = map (\<lambda>i. cond_word i buf) [0..<8]"

definition unread :: "'d trng_state \<Rightarrow> u32 list" where
  "unread s = drop (8 - cond_avail s) (digest_words (cond_buf s))"

lemma harvest_outcome:
  assumes "\<not> fault_flag v"
  shows "length (cond_buf (trng_harvest v)) = 32 \<and> mmio_read (trng_harvest v) = mmio_read v \<and> mmio_write (trng_harvest v) = mmio_write v
    \<and> (if fault_flag (trng_harvest v) then cond_avail (trng_harvest v) = 0 else cond_avail (trng_harvest v) = 8)"
proof -
  obtain st v1 where g1: "mmio_get LMS_STATUS v = (st, v1)" by force
  obtain e v2 where g2: "mmio_get LMS_ERROR v1 = (e, v2)" by force
  obtain bs v3 where g3: "trng_collect 8 0 v2 = (bs, v3)" by force
  show ?thesis using assms soft_same_get [OF g1] soft_same_get [OF g2] trng_collect_soft [OF g3]
    by (simp add: trng_harvest_def g1 g2 g3 trng_clear_def soft_same_def)
qed

lemma refill_outcome:
  assumes "trng_cond_refill s = Some (u, s')"
  shows "length (cond_buf s') = 32 \<and> mmio_read s' = mmio_read s \<and> mmio_write s' = mmio_write s \<and> (if fault_flag s' then cond_avail s' = 0 else cond_avail s' = 8)"
proof -
  obtain t where t: "trng_feed 16 0 (mmio_put LMS_OUTPUT_LENGTH 32 (mmio_put LMS_INPUT_LENGTH 64 (mmio_put LMS_COMMAND 1 (mmio_put LMS_CONTROL 2 s)))) = Some ((), t)"
    using assms by (auto simp: trng_cond_refill_def Let_def split: option.splits)
  have ts: "mmio_read t = mmio_read s" "mmio_write t = mmio_write s" using trng_feed_soft [OF t] by (simp_all add: soft_same_def mmio_put_def)
  show ?thesis
  proof (cases "fault_flag t")
    case True
    then show ?thesis using assms t ts by (auto simp: trng_cond_refill_def Let_def trng_clear_def)
  next
    case False
    then obtain v where v: "trng_busy (mmio_put LMS_CONTROL 1 t) = Some ((), v)" and s': "s' = trng_harvest v"
      using assms t by (auto simp: trng_cond_refill_def Let_def split: option.splits)
    have vt: "mmio_read v = mmio_read s" "mmio_write v = mmio_write s" "\<not> fault_flag v"
      using trng_busy_soft [OF v] False ts by (simp_all add: soft_same_def mmio_put_def)
    then show ?thesis unfolding s' using harvest_outcome [of v] by simp
  qed
qed

lemma unread_take:
  assumes "trng_ok s" and "cond_avail s \<noteq> 0"
  shows "unread s = fst (take_cond_word s) # unread (snd (take_cond_word s))"
proof -
  have k: "8 - cond_avail s < length (digest_words (cond_buf s))" using assms by (simp add: digest_words_def)
  have "Suc (8 - cond_avail s) = 8 - (cond_avail s - 1)" using assms unfolding trng_ok_def by linarith
  then show ?thesis using Cons_nth_drop_Suc [OF k, symmetric] assms k
    by (simp add: unread_def take_cond_word_def) (simp add: digest_words_def)
qed

fun trng_words :: "nat \<Rightarrow> ('d, u32 list) trop" where
  "trng_words 0 s = Some ([], s)"
| "trng_words (Suc k) s = (case lms_rnd32_trng s of None \<Rightarrow> None | Some (w, s) \<Rightarrow>
     (case trng_words k s of None \<Rightarrow> None | Some (ws, s) \<Rightarrow> Some (w # ws, s)))"

lemma and_3: "(i :: nat) AND 3 = i mod 4"
  using take_bit_eq_mask [of 2 i] by (simp add: take_bit_eq_mod mask_eq_exp_minus_1)

lemma trng_fill_shift:
  "i mod 4 \<noteq> 0 \<Longrightarrow> trng_fill (Suc k) i word s =
    map_option (\<lambda>(rest, s). (ucast (drop_bit 8 word) # rest, s)) (trng_fill k (i + 1) (drop_bit 8 word) s)"
  by (auto simp: and_3 split: option.splits prod.splits)

lemma trng_fill_lanes:
  assumes "i mod 4 = 1"
  shows "trng_fill k i w s = map_option (\<lambda>(rest, s). (take k [ucast (drop_bit 8 w), ucast (drop_bit 16 w), ucast (drop_bit 24 w)] @ rest, s))
    (trng_fill (k - 3) (i + 3) (drop_bit 24 w) s)"
proof -
  have m: "i mod 4 \<noteq> 0" "(i + 1) mod 4 \<noteq> 0" "(i + 1 + 1) mod 4 \<noteq> 0" using assms by presburger+
  have d: "drop_bit 8 (drop_bit 8 w) = drop_bit 16 w" "drop_bit 8 (drop_bit 16 w) = drop_bit 24 w" by (simp_all add: drop_bit_drop_bit)
  note sh = trng_fill_shift [OF m(1)] trng_fill_shift [OF m(2)] trng_fill_shift [OF m(3)]
  consider "k = 0" | "k = Suc 0" | "k = Suc (Suc 0)" | j where "k = Suc (Suc (Suc j))"
    by (metis not0_implies_Suc)
  then show ?thesis
  proof cases
    case (4 j)
    have i3: "i + 1 + 1 + 1 = i + 3" by simp
    show ?thesis unfolding 4 sh d i3 by (simp add: option.map_comp comp_def split_def)
  qed (simp_all only: sh d, simp_all)
qed

lemma trng_fill_word:
  assumes "i mod 4 = 0"
  shows "trng_fill (Suc k) i word s = (case lms_rnd32_trng s of None \<Rightarrow> None | Some (w, s) \<Rightarrow>
    (case trng_fill (Suc k - 4) (i + 4) (drop_bit 24 w) s of None \<Rightarrow> None
     | Some (rest, s) \<Rightarrow> Some (take (Suc k) (store_le32 w) @ rest, s)))"
proof -
  have m: "(i + 1) mod 4 = 1" and k: "Suc k - 4 = k - 3" "i + 1 + 3 = i + 4" using assms by presburger+
  show ?thesis using assms
    by (auto simp: and_3 trng_fill_lanes [OF m, unfolded k(2), simplified] k(1) store_le32_def simp del: trng_fill.simps
        simp: trng_fill.simps(2) [of k i] split: option.splits prod.splits)
qed

lemma trng_fill_words:
  fixes s :: "'d trng_state"
  assumes "i mod 4 = 0"
  shows "trng_fill n i word s = (case trng_words ((n + 3) div 4) s of None \<Rightarrow> None
    | Some (ws, s) \<Rightarrow> Some (take n (concat (map store_le32 ws)), s))"
  using assms
proof (induction n arbitrary: i word s rule: less_induct)
  case (less n)
  show ?case
  proof (cases n)
    case (Suc k)
    have e: "(Suc k + 3) div 4 = Suc ((Suc k - 4 + 3) div 4)" by presburger
    have i: "(i + 4) mod 4 = 0" using less.prems by simp
    have IH: "trng_fill (Suc k - 4) (i + 4) v t = (case trng_words ((Suc k - 4 + 3) div 4) t of None \<Rightarrow> None
        | Some (ws, s) \<Rightarrow> Some (take (Suc k - 4) (concat (map store_le32 ws)), s))" for v and t :: "'d trng_state"
      by (rule less.IH [OF _ i]) (simp add: Suc)
    have l: "length (store_le32 w) = 4" for w by (simp add: store_le32_def)
    show ?thesis unfolding Suc e trng_fill_word [OF less.prems] IH trng_words.simps
      by (auto simp: l split: option.splits prod.splits)
  qed simp
qed

lemma lms_rnd_trng_words:
  "lms_rnd_trng n s = (case trng_words ((n + 3) div 4) s of None \<Rightarrow> None
    | Some (ws, s) \<Rightarrow> Some (take n (concat (map store_le32 ws)), s))"
  unfolding lms_rnd_trng_def by (rule trng_fill_words) simp

text \<open>A digest that a refill on this device delivers without raising the fault. The answers of the word level: the unread words
  and then whole digests, in order, up to a fault, and zeros from there.\<close>

definition refilled :: "'d trng_state \<Rightarrow> u32 list \<Rightarrow> bool" where
  "refilled s d \<longleftrightarrow> (\<exists>t t'. mmio_read t = mmio_read s \<and> mmio_write t = mmio_write s \<and> trng_cond_refill t = Some ((), t')
     \<and> \<not> fault_flag t' \<and> d = digest_words (cond_buf t'))"

definition served :: "'d trng_state \<Rightarrow> u32 list \<Rightarrow> 'd trng_state \<Rightarrow> bool" where
  "served s ws s' \<longleftrightarrow> mmio_read s' = mmio_read s \<and> mmio_write s' = mmio_write s \<and>
     (\<exists>digests. (\<forall>d \<in> set digests. refilled s d) \<and>
       (if fault_flag s' then \<exists>z. ws = unread s @ concat digests @ replicate z 0
        else ws @ unread s' = unread s @ concat digests))"

lemma unread_empty [simp]: "cond_avail s = 0 \<Longrightarrow> unread s = []"
  by (simp add: unread_def digest_words_def)

lemma length_digest_words [simp]: "length (digest_words b) = 8"
  by (simp add: digest_words_def)

lemma rnd32_step:
  assumes ok: "trng_ok s" and nf: "\<not> fault_flag s" and r: "lms_rnd32_trng s = Some (w, s')"
  shows "trng_ok s' \<and> served s [w] s'"
proof (cases "cond_avail s = 0")
  case True
  then obtain t where t: "trng_cond_refill s = Some ((), t)" using nf r by (auto simp: lms_rnd32_trng_def split: option.splits)
  note o = refill_outcome [OF t]
  show ?thesis
  proof (cases "fault_flag t")
    case True
    then have "w = 0" "s' = t" "cond_avail t = 0" using o r nf t \<open>cond_avail s = 0\<close> by (auto simp: lms_rnd32_trng_def)
    then show ?thesis using True o \<open>cond_avail s = 0\<close> unfolding served_def trng_ok_def
      by (intro conjI exI [of _ "[]"]) (auto intro: exI [of _ "Suc 0"])
  next
    case False
    then have t8: "cond_avail t = 8" "trng_ok t" using o by (auto simp: trng_ok_def)
    then have e: "(w, s') = take_cond_word t" using r nf t \<open>cond_avail s = 0\<close> by (simp add: lms_rnd32_trng_def)
    have f: "\<not> fault_flag s'" "trng_ok s'" using e False t8 by (simp_all add: take_cond_word_def trng_ok_def)
    have d: "unread t = w # unread s'" using unread_take [of t] t8 by (simp add: e [symmetric])
    have "unread t = digest_words (cond_buf t)" using t8(1) by (simp add: unread_def)
    then have "refilled s (unread t)" using t False unfolding refilled_def by blast
    moreover have "mmio_read s' = mmio_read s" "mmio_write s' = mmio_write s" using e o by (simp_all add: take_cond_word_def)
    ultimately show ?thesis using f \<open>cond_avail s = 0\<close> d unfolding served_def by (auto intro: exI [of _ "[unread t]"])
  qed
next
  case False
  then have e: "(w, s') = take_cond_word s" using r nf by (simp add: lms_rnd32_trng_def)
  have f: "\<not> fault_flag s'" "trng_ok s'" using e nf ok by (auto simp: take_cond_word_def trng_ok_def)
  have "unread s = w # unread s'" using unread_take [OF ok False] by (simp add: e [symmetric])
  moreover have "mmio_read s' = mmio_read s" "mmio_write s' = mmio_write s" using e by (simp_all add: take_cond_word_def)
  ultimately show ?thesis using f unfolding served_def by (auto intro: exI [of _ "[]"])
qed

lemma trng_words_faulty: "fault_flag s \<Longrightarrow> trng_words k s = Some (replicate k 0, s)"
  by (induction k) (simp_all add: lms_rnd32_trng_def)

lemma trng_words_served:
  assumes "trng_ok s" and "\<not> fault_flag s" and "trng_words k s = Some (ws, s')"
  shows "trng_ok s' \<and> length ws = k \<and> served s ws s'"
  using assms
proof (induction k arbitrary: s ws)
  case 0
  then show ?case by (auto simp: served_def intro: exI [of _ "[]"])
next
  case (Suc k)
  then obtain w t vs where t: "lms_rnd32_trng s = Some (w, t)" and vs: "trng_words k t = Some (vs, s')" and ws: "ws = w # vs"
    by (auto split: option.splits prod.splits)
  have st: "trng_ok t" "served s [w] t" using rnd32_step [OF Suc.prems(1,2) t] by auto
  show ?case
  proof (cases "fault_flag t")
    case True
    then have "vs = replicate k 0" "s' = t" using trng_words_faulty [of t k] vs by auto
    moreover obtain ds z where "\<forall>d \<in> set ds. refilled s d" "[w] = unread s @ concat ds @ replicate z 0"
      using st(2) True by (auto simp: served_def)
    moreover have "mmio_read t = mmio_read s \<and> mmio_write t = mmio_write s" using st(2) by (simp add: served_def)
    ultimately show ?thesis using True st(1) ws unfolding served_def
      by (auto intro!: exI [of _ ds] exI [of _ "z + k"] simp: replicate_add)
  next
    case False
    obtain ds where ds: "\<forall>d \<in> set ds. refilled s d" "[w] @ unread t = unread s @ concat ds"
      using st(2) False by (auto simp: served_def)
    note IH = Suc.IH [OF st(1) False vs]
    obtain es where es: "\<forall>d \<in> set es. refilled t d"
      "if fault_flag s' then \<exists>z. vs = unread t @ concat es @ replicate z 0 else vs @ unread s' = unread t @ concat es"
      using IH by (auto simp: served_def)
    have e: "w # unread t @ xs = unread s @ concat ds @ xs" for xs using ds(2) by simp
    have dev: "mmio_read t = mmio_read s" "mmio_write t = mmio_write s" "mmio_read s' = mmio_read s" "mmio_write s' = mmio_write s"
      using st(2) IH by (simp_all add: served_def)
    then have r: "refilled t d \<Longrightarrow> refilled s d" for d by (simp add: refilled_def)
    have "served s ws s'" unfolding served_def
      by (intro conjI dev exI [of _ "ds @ es"]) (use ds(1) es ws r in \<open>auto simp: e split: if_splits\<close>)
    then show ?thesis using IH ws by simp
  qed
qed

lemma lms_rnd_trng_faulty: "fault_flag s \<Longrightarrow> lms_rnd_trng n s = Some (replicate n 0, s)"
proof -
  assume f: "fault_flag s"
  have e: "concat (replicate k (store_le32 0)) = replicate (4 * k) 0" for k
    by (induction k) (simp_all add: store_le32_def eval_nat_numeral)
  have "n \<le> 4 * ((n + 3) div 4)" by presburger
  then show ?thesis by (simp add: lms_rnd_trng_words trng_words_faulty [OF f] e min_def)
qed

lemma length_lms_rnd_trng:
  assumes "trng_ok s" and "lms_rnd_trng n s = Some (out, s')"
  shows "length out = n \<and> trng_ok s'"
proof (cases "fault_flag s")
  case True
  then show ?thesis using lms_rnd_trng_faulty [OF True, of n] assms by simp
next
  case False
  obtain ws where ws: "trng_words ((n + 3) div 4) s = Some (ws, s')" "out = take n (concat (map store_le32 ws))"
    using assms(2) by (auto simp: lms_rnd_trng_words split: option.splits)
  have "length (concat (map store_le32 ws)) = 4 * length ws" by (induction ws) (simp_all add: store_le32_def)
  moreover have "n \<le> 4 * ((n + 3) div 4)" by presburger
  ultimately show ?thesis using trng_words_served [OF assms(1) False ws(1)] ws(2) by simp
qed

interpretation trng: random_source lms_rnd_trng trng_ok
  by unfold_locales (auto dest: length_lms_rnd_trng)

section \<open>When the entropy source returns\<close>

definition polled :: "'d trng_state \<Rightarrow> u32 \<Rightarrow> nat \<Rightarrow> 'd \<Rightarrow> u32" where
  "polled s addr k d = fst (mmio_read s addr (((\<lambda>d. snd (mmio_read s addr d)) ^^ k) d))"

definition responsive :: "'d trng_state \<Rightarrow> bool" where
  "responsive s \<longleftrightarrow> (\<forall>d. (\<exists>k. polled s TRNG_STAT k d AND 257 \<noteq> 0) \<and> (\<exists>k. polled s LMS_STATUS k d AND 1 = 0))"

lemma soft_same_responsive: "soft_same s t \<Longrightarrow> responsive t = responsive s"
  by (simp add: soft_same_def responsive_def polled_def)

lemma polled_Suc:
  assumes "mmio_get addr s = (v, t)"
  shows "polled s addr 0 (dev s) = v" and "polled s addr (Suc k) (dev s) = polled t addr k (dev t)"
  using assms by (auto simp: polled_def mmio_get_def funpow_Suc_right simp del: funpow.simps split: prod.splits)

lemma and_257: "(v :: u32) AND 257 = 0 \<longleftrightarrow> v AND 256 = 0 \<and> v AND 1 = 0"
proof -
  have "(257 :: u32) = 256 OR 1" by simp
  then have "v AND 257 = (v AND 256) OR (v AND 1)" by (simp only: bit.conj_disj_distrib)
  then show ?thesis by (simp only: or_eq_0_iff)
qed

lemma trng_wait_returns: "polled s TRNG_STAT k (dev s) AND 257 \<noteq> 0 \<Longrightarrow> trng_wait stat s \<noteq> None"
proof (induction k arbitrary: s stat)
  case 0
  obtain v t where t: "mmio_get TRNG_STAT s = (v, t)" by force
  have "v AND 257 \<noteq> 0" using 0 polled_Suc(1) [OF t] by simp
  then show ?case using t by (subst trng_wait.simps) (auto simp: and_257 trng_wait.simps [of v t])
next
  case (Suc k)
  obtain v t where t: "mmio_get TRNG_STAT s = (v, t)" by force
  have "trng_wait v t \<noteq> None" using Suc polled_Suc(2) [OF t] by simp
  then show ?case using t by (subst trng_wait.simps) auto
qed

lemma trng_busy_returns: "polled s LMS_STATUS k (dev s) AND 1 = 0 \<Longrightarrow> trng_busy s \<noteq> None"
proof (induction k arbitrary: s)
  case 0
  obtain v t where t: "mmio_get LMS_STATUS s = (v, t)" by force
  then show ?case using 0 polled_Suc(1) [OF t] by (subst trng_busy.simps) simp
next
  case (Suc k)
  obtain v t where t: "mmio_get LMS_STATUS s = (v, t)" by force
  have "trng_busy t \<noteq> None" using Suc polled_Suc(2) [OF t] by simp
  then show ?case using t by (subst trng_busy.simps) auto
qed

lemma trng_raw_word_returns: "responsive s \<Longrightarrow> trng_raw_word s \<noteq> None"
proof -
  assume r: "responsive s"
  obtain v t where t: "mmio_get TRNG_STAT s = (v, t)" by force
  have "responsive t" using r soft_same_responsive soft_same_get [OF t] by blast
  then obtain k where "polled t TRNG_STAT k (dev t) AND 257 \<noteq> 0" by (auto simp: responsive_def)
  from trng_wait_returns [OF this, of v] show ?thesis
    using t by (auto simp: trng_raw_word_def split: option.splits bool.splits)
qed

lemma trng_feed_returns: "responsive s \<Longrightarrow> trng_feed k i s \<noteq> None"
proof (induction k arbitrary: i s)
  case (Suc k)
  obtain w t where t: "trng_raw_word s = Some (w, t)" using trng_raw_word_returns [OF Suc.prems] by auto
  have "responsive (mmio_put (LMS_INPUT + word_of_nat (i * 4)) w t)"
    using Suc.prems soft_same_responsive trng_raw_word_soft [OF t] soft_same_put(1) by blast
  from Suc.IH [OF this] show ?case using t by simp
qed simp

lemma trng_refill_returns:
  assumes "responsive s"
  shows "trng_cond_refill s \<noteq> None"
proof -
  let ?s = "mmio_put LMS_OUTPUT_LENGTH 32 (mmio_put LMS_INPUT_LENGTH 64 (mmio_put LMS_COMMAND 1 (mmio_put LMS_CONTROL 2 s)))"
  have r: "responsive ?s" using assms soft_same_responsive soft_same_put(1) by blast
  then obtain t where t: "trng_feed 16 0 ?s = Some ((), t)" using trng_feed_returns by fastforce
  have "responsive (mmio_put LMS_CONTROL 1 t)" using r soft_same_responsive trng_feed_soft [OF t] soft_same_put(1) by blast
  then have "trng_busy (mmio_put LMS_CONTROL 1 t) \<noteq> None" using trng_busy_returns by (fastforce simp: responsive_def)
  then show ?thesis using t by (auto simp: trng_cond_refill_def Let_def)
qed

lemma rnd32_responsive:
  assumes "lms_rnd32_trng s = Some (w, s')"
  shows "responsive s' = responsive s"
proof -
  have "mmio_read s' = mmio_read s"
  proof (cases "\<not> fault_flag s \<and> cond_avail s = 0")
    case True
    then obtain t where t: "trng_cond_refill s = Some ((), t)" using assms by (auto simp: lms_rnd32_trng_def split: option.splits)
    show ?thesis using assms True t refill_outcome [OF t] by (auto simp: lms_rnd32_trng_def take_cond_word_def split: if_splits)
  next
    case False
    then show ?thesis using assms by (auto simp: lms_rnd32_trng_def take_cond_word_def split: if_splits)
  qed
  then show ?thesis by (simp add: responsive_def polled_def)
qed

lemma trng_words_return: "responsive s \<Longrightarrow> trng_words k s \<noteq> None"
proof (induction k arbitrary: s)
  case (Suc k)
  obtain w t where t: "lms_rnd32_trng s = Some (w, t)"
    using trng_refill_returns [OF Suc.prems] by (fastforce simp: lms_rnd32_trng_def)
  then have "trng_words k t \<noteq> None" using Suc rnd32_responsive [OF t] by simp
  then show ?case using t by auto
qed simp

lemma trng_wait_hangs:
  assumes "\<And>d. fst (mmio_read s TRNG_STAT d) AND 257 = 0" and "stat AND 256 = 0"
  shows "trng_wait stat s = None"
proof (rule ccontr)
  assume "trng_wait stat s \<noteq> None"
  then obtain r where "trng_wait stat s = Some r" by blast
  then have "\<not> ((\<forall>d. fst (mmio_read s TRNG_STAT d) AND 257 = 0) \<and> stat AND 256 = 0)"
  proof (rule trng_wait.raw_induct [rotated, where P = "\<lambda>stat s _. \<not> ((\<forall>d. fst (mmio_read s TRNG_STAT d) AND 257 = 0) \<and> stat AND 256 = 0)"])
    fix f stat s r
    assume IH: "\<And>stat s r. f stat s = Some r \<Longrightarrow> \<not> ((\<forall>d. fst (mmio_read s TRNG_STAT d) AND 257 = 0) \<and> stat AND 256 = 0)"
      and body: "(if stat AND TRNG_STAT_WORD_VALID \<noteq> 0 then Some (True, s)
        else case mmio_get TRNG_STAT s of (stat, s) \<Rightarrow> if stat AND TRNG_STAT_HEALTH_FAIL \<noteq> 0 then Some (False, s) else f stat s) = Some r"
    obtain v t where t: "mmio_get TRNG_STAT s = (v, t)" by force
    then have v: "v = fst (mmio_read s TRNG_STAT (dev s))" "mmio_read t = mmio_read s"
      by (auto simp: mmio_get_def split: prod.splits)
    show "\<not> ((\<forall>d. fst (mmio_read s TRNG_STAT d) AND 257 = 0) \<and> stat AND 256 = 0)"
    proof
      assume "(\<forall>d. fst (mmio_read s TRNG_STAT d) AND 257 = 0) \<and> stat AND 256 = 0"
      then show False using body t v IH [of v t r] by (auto simp: and_257)
    qed
  qed
  then show False using assms by blast
qed

lemma rnd32_hangs:
  assumes dead: "\<And>d. fst (mmio_read s TRNG_STAT d) AND 257 = 0" and "\<not> fault_flag s" and "cond_avail s = 0"
  shows "lms_rnd32_trng s = None"
proof -
  let ?s = "mmio_put LMS_OUTPUT_LENGTH 32 (mmio_put LMS_INPUT_LENGTH 64 (mmio_put LMS_COMMAND 1 (mmio_put LMS_CONTROL 2 s)))"
  obtain v t where t: "mmio_get TRNG_STAT ?s = (v, t)" by force
  then have "v = fst (mmio_read s TRNG_STAT (dev ?s))" "mmio_read t = mmio_read s" by (auto simp: mmio_get_def mmio_put_def split: prod.splits)
  then have v: "v AND 257 = 0" "mmio_read t = mmio_read s" using dead by simp_all
  then have "trng_wait v t = None" using dead by (intro trng_wait_hangs) (simp_all add: and_257)
  then have "trng_raw_word ?s = None" using t v(1) by (simp add: trng_raw_word_def and_257)
  then have "trng_feed 16 0 ?s = None" by (simp add: numeral_eq_Suc)
  then show ?thesis using assms(2,3) by (simp add: lms_rnd32_trng_def trng_cond_refill_def Let_def)
qed

section \<open>Properties\<close>

text \<open>
  The deterministic source. After seeding with a context, any sequence of draws, of words and of byte strings of any
  lengths, returns successive whole blocks of one stream, each draw starting on a fresh block: block \<open>i\<close> is the SHA-256 digest
  of the domain string, the block number, the first 64 bytes of the context and their length. Two blocks hash the same
  input exactly when the contexts agree there and the block numbers agree modulo \<open>2^32\<close>. A source that was not
  seeded returns zeros.
\<close>

theorem det_draws_stream:
  "det_draws ds (lms_rnd_det_seed ctx s) = stream_draws (\<lambda>i. sha256_spec (det_input (take 64 ctx) (word_of_nat i))) 0 ds
   \<and> (det_input c (word_of_nat i) = det_input c' (word_of_nat j) \<longleftrightarrow> c = c' \<and> i mod 2 ^ 32 = j mod 2 ^ 32)
   \<and> det_draws ds (s\<lparr>det_seeded := False\<rparr>) = map (\<lambda>d. replicate (draw_len d) 0) ds"
proof (intro conjI det_input_inj)
  have "det_stream (take 64 ctx) = (\<lambda>i. sha256_spec (det_input (take 64 ctx) (word_of_nat i)))" by (rule ext) (simp add: det_stream_def)
  then show "det_draws ds (lms_rnd_det_seed ctx s) = stream_draws (\<lambda>i. sha256_spec (det_input (take 64 ctx) (word_of_nat i))) 0 ds"
    using det_draws_value [of "lms_rnd_det_seed ctx s" 0 ds] by (simp add: lms_rnd_det_seed_def DET_CTX_SIZE_def)
  show "det_draws ds (s\<lparr>det_seeded := False\<rparr>) = map (\<lambda>d. replicate (draw_len d) 0) ds" by (rule det_draws_unseeded) simp
qed


definition test_trng :: "bool \<Rightarrow> unit trng_state" where
  "test_trng fault = \<lparr>mmio_read = (\<lambda>addr d. (if addr = TRNG_STAT then 256 else if addr = LMS_STATUS then 2
     else if addr = LMS_ERROR then 0 else addr, ())), mmio_write = (\<lambda>addr v d. ()), dev = (), fault_flag = fault,
     cond_buf = replicate 32 0, cond_avail = 0\<rparr>"

lemma test_trng_responsive: "responsive (test_trng f)"
  unfolding responsive_def polled_def
  by (intro allI conjI exI [of _ 0]) (simp_all add: test_trng_def)


text \<open>
  C18. When the entropy source returns. On a device that, from every state, answers the polling of its status register with a
  valid word or a health failure and the polling of the accelerator with an idle status after some number of reads, every call
  returns. The wait has no bound of its own: on a device that reports neither a valid word nor a failure, the first
  draw that needs a refill never returns.
\<close>

theorem lms_rnd_trng_returns:
  "(responsive s \<longrightarrow> (\<exists>out s'. lms_rnd_trng n s = Some (out, s')))
   \<and> ((\<forall>d. fst (mmio_read s TRNG_STAT d) AND 257 = 0) \<and> \<not> fault_flag s \<and> cond_avail s = 0 \<and> 0 < n \<longrightarrow> lms_rnd_trng n s = None)"
proof (intro conjI impI)
  assume "responsive s"
  then show "\<exists>out s'. lms_rnd_trng n s = Some (out, s')"
    using trng_words_return [of s "(n + 3) div 4"] by (auto simp: lms_rnd_trng_words)
next
  assume d: "(\<forall>d. fst (mmio_read s TRNG_STAT d) AND 257 = 0) \<and> \<not> fault_flag s \<and> cond_avail s = 0 \<and> 0 < n"
  then obtain m where "(n + 3) div 4 = Suc m" by (cases "(n + 3) div 4") auto
  then show "lms_rnd_trng n s = None" using rnd32_hangs [of s] d by (simp add: lms_rnd_trng_words)
qed

text \<open>Witness of C18: the healthy device returns, a device whose status register stays 0 does not.\<close>

theorem lms_rnd_trng_returns_witness:
  "(\<exists>out s'. lms_rnd_trng 16 (test_trng False) = Some (out, s'))
   \<and> lms_rnd_trng 16 ((test_trng False)\<lparr>mmio_read := \<lambda>addr d. (0, ())\<rparr>) = None"
  using lms_rnd_trng_returns [of "test_trng False" 16] test_trng_responsive [of False]
    lms_rnd_trng_returns [of "(test_trng False)\<lparr>mmio_read := \<lambda>addr d. (0, ())\<rparr>" 16]
  by (simp add: test_trng_def)

text \<open>The security domain linked with the entropy source, as far as the calls return.\<close>

definition trng_rnd :: "nat \<Rightarrow> 'd trng_state \<Rightarrow> bytes \<times> 'd trng_state" where
  "trng_rnd n h = (case lms_rnd_trng n h of Some r \<Rightarrow> r | None \<Rightarrow> (replicate n 0, h))"

text \<open>
  C37. Key generation in a deploy build whose entropy source has failed. \<open>sec_keygen_new\<close> draws an identifier and a seed and
  then looks at the fault flag: whenever a fault was up before or came up during the draws, it refuses, clears the
  identifier and sends no seed to the device. \<open>sec_keygen_key\<close> does not look: after a fault it derives the keys of
  the all-zero identifier, and reports success when the device wraps the seed under them.
\<close>

theorem keygen_trng_fault:
  fixes s :: "'d trng_state sec_state_t"
  assumes deploy: "\<not> test_mode s" and src: "lms_rnd s = trng_rnd" "trng_fault s = fault_flag"
  defines "h \<equiv> hw (sec_client s)"
  shows "(fault_flag (snd (trng_rnd 32 (snd (trng_rnd 16 h)))) \<longrightarrow>
      sec_keygen_new I_new s = ((SEC_ERR_AUTH, I_new),
        s\<lparr>sec_client := (sec_client s)\<lparr>hw := snd (trng_rnd 32 (snd (trng_rnd 16 h)))\<rparr>, sec_key_I := replicate 16 0\<rparr>))
    \<and> (fault_flag h \<longrightarrow> fault_flag (snd (trng_rnd 32 (snd (trng_rnd 16 h)))))
    \<and> (fault_flag h \<longrightarrow> sec_keygen_key s = (case load_and_wrap (s\<lparr>sec_key_I := replicate 16 0\<rparr>) of
          (None, s') \<Rightarrow> ((SEC_ERR_AUTH, replicate 16 0), s')
        | (Some _, s') \<Rightarrow> ((SEC_OK, replicate 16 0), s'\<lparr>sec_key_loaded := True\<rparr>)))"
proof (intro conjI impI)
  assume "fault_flag (snd (trng_rnd 32 (snd (trng_rnd 16 h))))"
  then show "sec_keygen_new I_new s = ((SEC_ERR_AUTH, I_new),
      s\<lparr>sec_client := (sec_client s)\<lparr>hw := snd (trng_rnd 32 (snd (trng_rnd 16 h)))\<rparr>, sec_key_I := replicate 16 0\<rparr>)"
    using deploy
    by (cases "trng_rnd 16 h"; cases "trng_rnd 32 (snd (trng_rnd 16 h))")
      (auto simp: sec_keygen_new_def draw_new_key_def rnd_bytes_def src h_def LMS_I_LEN_def LMS_SEED_LEN_def)
next
  assume f: "fault_flag h"
  then have z: "trng_rnd n h = (replicate n 0, h)" for n by (simp add: trng_rnd_def lms_rnd_trng_faulty)
  then show "fault_flag (snd (trng_rnd 32 (snd (trng_rnd 16 h))))" using f by simp
  have r: "rnd_bytes LMS_I_LEN s = (replicate 16 0, s)" using z by (simp add: rnd_bytes_def src h_def LMS_I_LEN_def)
  show "sec_keygen_key s = (case load_and_wrap (s\<lparr>sec_key_I := replicate 16 0\<rparr>) of
          (None, s') \<Rightarrow> ((SEC_ERR_AUTH, replicate 16 0), s')
        | (Some _, s') \<Rightarrow> ((SEC_OK, replicate 16 0), s'\<lparr>sec_key_loaded := True\<rparr>))"
    unfolding sec_keygen_key_def r using deploy by simp
qed

definition faulty_client :: "unit trng_state lms_mmio_client_t" where
  "faulty_client =
     \<lparr>bus_read32 = (\<lambda>off h. (0, h)), bus_write32 = (\<lambda>off v h. h), buf_aligned = (\<lambda>_. True), timeout_polls = 4,
      capabilities = 0x8fff, last_hw_error = 0, fallback_count = 0, hardware_chain_count = 0, hardware_chain_cycles = 0,
      hardware_derive_count = 0, hardware_derive_cycles = 0, hardware_keygen_count = 0, hardware_keygen_cycles = 0,
      hardware_sign_count = 0, hardware_sign_cycles = 0, hardware_verify_count = 0, hardware_verify_cycles = 0,
      hardware_hash_once_count = 0, hardware_hash_once_cycles = 0, key_handle = 0, allow_fallback = False,
      probed = True, coef_ready = False, hash_desc = Some LMS_MMIO_HASH_DESC_SHA256, randomizer_c_slot = None,
      trng_fill_c = None, hw = test_trng True\<rparr>"

definition faulty_sec :: "unit trng_state sec_state_t" where
  "faulty_sec =
     \<lparr>sec_client = faulty_client, sec_slots = [replicate 64 0, replicate 64 0], sec_slot_valid = [False, False],
      sec_active_slot = 0, sec_state = SEC_ST_IDLE, sec_ctr = 0, sec_last_tx = 0, sec_factory_locked = True,
      sec_key_loaded = True, sec_keygen_pending = False, sec_helper = replicate 32 0, sec_boot_valid = [False, False],
      sec_wrapped_blob = [], sec_wrapped_valid = False, sec_key_I = replicate 16 7, sec_key_index = 0,
      sec_rec_diag = [0, 0], test_mode = False, lms_rnd = trng_rnd, trng_fault = fault_flag\<rparr>"

text \<open>Witness of C37: a device whose entropy source failed earlier.\<close>

theorem keygen_trng_fault_witness:
  "sec_keygen_new (replicate 16 9) faulty_sec = ((SEC_ERR_AUTH, replicate 16 9), faulty_sec\<lparr>sec_key_I := replicate 16 0\<rparr>)
   \<and> sec_keygen_key faulty_sec = (case load_and_wrap (faulty_sec\<lparr>sec_key_I := replicate 16 0\<rparr>) of
          (None, s') \<Rightarrow> ((SEC_ERR_AUTH, replicate 16 0), s')
        | (Some _, s') \<Rightarrow> ((SEC_OK, replicate 16 0), s'\<lparr>sec_key_loaded := True\<rparr>))"
proof -
  have f: "\<not> test_mode faulty_sec" "lms_rnd faulty_sec = trng_rnd" "trng_fault faulty_sec = fault_flag"
    "hw (sec_client faulty_sec) = test_trng True" by (simp_all add: faulty_sec_def faulty_client_def)
  have fl: "fault_flag (test_trng True)" by (simp add: test_trng_def)
  then have z: "trng_rnd n (test_trng True) = (replicate n 0, test_trng True)" for n by (simp add: trng_rnd_def lms_rnd_trng_faulty)
  have "faulty_sec\<lparr>sec_client := (sec_client faulty_sec)\<lparr>hw := test_trng True\<rparr>, sec_key_I := replicate 16 0\<rparr>
      = faulty_sec\<lparr>sec_key_I := replicate 16 0\<rparr>" by (simp add: faulty_sec_def faulty_client_def)
  then show ?thesis using keygen_trng_fault [OF f(1-3), of "replicate 16 9"] fl by (simp add: f(4) z)
qed

end
