(* ===== verification/Firmware_Uart.thy ===== *)
theory Firmware_Uart
  imports Sec_State
begin

text \<open>
  The serial command interface of the firmware, \<open>fw/lms_soc_smoke.c\<close>, in the build with the accelerator: reading and
  sending bytes, the checksums, the handlers of the primitive, diagnostic, storage and security-state requests, and one round of
  the command loop \<open>serve_uart\<close> with its response frame.

  The serial port is a queue of received bytes and the list of bytes sent; reading from the empty queue, like polling a
  register that never changes, stops the model with \<open>Waiting\<close>. Registers that the firmware accesses directly are two
  functions on the device state \<open>'h\<close>, which the security domain and its accelerator client share. The handlers of
  the signing, verification and key-generation requests are not part of this theory: after their guards the model
  stops with \<open>Unmodelled\<close>. Calls of \<open>lms_hash_parts\<close> on 54 bytes are its value \<open>lms_digest\<close>.
\<close>

section \<open>State and registers\<close>

datatype fw_stop = Waiting | Unmodelled

record 'h fw_state =
  fw_rx :: bytes
  fw_tx :: bytes
  io_read :: "u32 \<Rightarrow> 'h \<Rightarrow> u32 \<times> 'h"
  io_write :: "u32 \<Rightarrow> u32 \<Rightarrow> 'h \<Rightarrow> 'h"
  fw_sec :: "'h sec_state_t"
  hardware_hits :: u32
  s_seed_slot :: bytes
  s_seed_slot_valid :: bool
  s_c_slot :: bytes
  s_c_slot_valid :: bool
  s_uart_msg :: bytes
  nvm_state :: bytes
  nvm_crc :: "u16 list"
  nvm_valid :: "bool list"

type_synonym ('h, 'a) fop = "(fw_stop, 'h fw_state, 'a) op"

abbreviation (input) FW_HASH_ALG :: lms_hash_alg_t where "FW_HASH_ALG \<equiv> LMS_HASH_SHA256"
abbreviation (input) SOC_CYCLE_COUNT :: u32 where "SOC_CYCLE_COUNT \<equiv> 0x10000010"
abbreviation (input) LMS_COMMAND :: u32 where "LMS_COMMAND \<equiv> 0x16000008"
abbreviation (input) LMS_CONTROL :: u32 where "LMS_CONTROL \<equiv> 0x1600000c"
abbreviation (input) LMS_STATUS :: u32 where "LMS_STATUS \<equiv> 0x16000010"
abbreviation (input) LMS_ERROR :: u32 where "LMS_ERROR \<equiv> 0x16000014"
abbreviation (input) LMS_INPUT_LENGTH :: u32 where "LMS_INPUT_LENGTH \<equiv> 0x16000018"
abbreviation (input) LMS_OUTPUT_LENGTH :: u32 where "LMS_OUTPUT_LENGTH \<equiv> 0x1600001c"
abbreviation (input) LMS_CYCLE_COUNT :: u32 where "LMS_CYCLE_COUNT \<equiv> 0x16000020"
abbreviation (input) LMS_ARG_Q :: u32 where "LMS_ARG_Q \<equiv> 0x16000024"
abbreviation (input) LMS_ARG_I :: u32 where "LMS_ARG_I \<equiv> 0x16000028"
abbreviation (input) LMS_ARG_START :: u32 where "LMS_ARG_START \<equiv> 0x1600002c"
abbreviation (input) LMS_ARG_STEPS :: u32 where "LMS_ARG_STEPS \<equiv> 0x16000030"
abbreviation (input) LMS_IDENTIFIER :: u32 where "LMS_IDENTIFIER \<equiv> 0x16000040"
abbreviation (input) LMS_INPUT :: u32 where "LMS_INPUT \<equiv> 0x16000100"
abbreviation (input) LMS_OUTPUT :: u32 where "LMS_OUTPUT \<equiv> 0x16000200"
abbreviation (input) TRNG_VERSION :: u32 where "TRNG_VERSION \<equiv> 0x17000000"
abbreviation (input) TRNG_CAP :: u32 where "TRNG_CAP \<equiv> 0x17000004"
abbreviation (input) TRNG_CTRL :: u32 where "TRNG_CTRL \<equiv> 0x17000008"
abbreviation (input) TRNG_STAT :: u32 where "TRNG_STAT \<equiv> 0x1700000c"
abbreviation (input) TRNG_RND :: u32 where "TRNG_RND \<equiv> 0x17000010"
abbreviation (input) TRNG_APT :: u32 where "TRNG_APT \<equiv> 0x17000014"
abbreviation (input) FLASH_CTRL :: u32 where "FLASH_CTRL \<equiv> 0x19000004"
abbreviation (input) FLASH_STATUS :: u32 where "FLASH_STATUS \<equiv> 0x19000008"
abbreviation (input) FLASH_RESP0 :: u32 where "FLASH_RESP0 \<equiv> 0x1900000c"
abbreviation (input) FLASH_OP :: u32 where "FLASH_OP \<equiv> 0x19000020"
abbreviation (input) FLASH_ADDR :: u32 where "FLASH_ADDR \<equiv> 0x19000024"
abbreviation (input) FLASH_BYTE :: u32 where "FLASH_BYTE \<equiv> 0x19000028"
abbreviation (input) BRIDGE_CTRL :: u32 where "BRIDGE_CTRL \<equiv> 0x18000000"
abbreviation (input) BRIDGE_ADDR :: u32 where "BRIDGE_ADDR \<equiv> 0x18000004"
abbreviation (input) BRIDGE_LEN :: u32 where "BRIDGE_LEN \<equiv> 0x18000008"
abbreviation (input) LMS_STATUS_DONE :: u32 where "LMS_STATUS_DONE \<equiv> 2"

definition fw_dev :: "'h fw_state \<Rightarrow> 'h" where
  "fw_dev s = hw (sec_client (fw_sec s))"

definition set_fw_dev :: "'h \<Rightarrow> 'h fw_state \<Rightarrow> 'h fw_state" where
  "set_fw_dev h s = s\<lparr>fw_sec := (fw_sec s)\<lparr>sec_client := (sec_client (fw_sec s))\<lparr>hw := h\<rparr>\<rparr>\<rparr>"

definition io_get :: "u32 \<Rightarrow> ('h, u32) fop" where
  "io_get addr = (\<lambda>s. case io_read s addr (fw_dev s) of (v, h) \<Rightarrow> (Inr v, set_fw_dev h s))"

definition io_put :: "u32 \<Rightarrow> u32 \<Rightarrow> ('h, unit) fop" where
  "io_put addr v = modify (\<lambda>s. set_fw_dev (io_write s addr v (fw_dev s)) s)"

text \<open>\<open>while ((MMIO32(addr) & BUSY) != 0u) {}\<close> on the device.\<close>

partial_function (option) spin :: "(u32 \<Rightarrow> 'h \<Rightarrow> u32 \<times> 'h) \<Rightarrow> u32 \<Rightarrow> 'h \<Rightarrow> 'h option" where
  "spin rd addr h = (case rd addr h of (v, h) \<Rightarrow> if v AND 1 \<noteq> 0 then spin rd addr h else Some h)"

definition wait_idle :: "u32 \<Rightarrow> ('h, unit) fop" where
  "wait_idle addr = (\<lambda>s. case spin (io_read s) addr (fw_dev s) of
     None \<Rightarrow> (Inl Waiting, s) | Some h \<Rightarrow> (Inr (), set_fw_dev h s))"

definition on_sec :: "('h, 'a) sop \<Rightarrow> ('h, 'a) fop" where
  "on_sec f = (\<lambda>s. case f (fw_sec s) of (r, t) \<Rightarrow> (Inr r, s\<lparr>fw_sec := t\<rparr>))"

definition on_client :: "('h, 'a) mop \<Rightarrow> ('h, lms_mmio_status_t + 'a) fop" where
  "on_client f = on_sec (on_mmio f)"

section \<open>Serial port\<close>

definition uart_getc :: "('h, u8) fop" where
  "uart_getc = (\<lambda>s. case fw_rx s of [] \<Rightarrow> (Inl Waiting, s) | b # bs \<Rightarrow> (Inr b, s\<lparr>fw_rx := bs\<rparr>))"

definition uart_putc :: "u8 \<Rightarrow> ('h, unit) fop" where
  "uart_putc v = modify (\<lambda>s. s\<lparr>fw_tx := fw_tx s @ [v]\<rparr>)"

definition uart_puts :: "bytes \<Rightarrow> ('h, unit) fop" where
  "uart_puts bs = andthen (for_each uart_putc bs) (ret ())"

definition uart_put_u32 :: "u32 \<Rightarrow> ('h, unit) fop" where
  "uart_put_u32 v = andthen (uart_putc (ucast v)) (andthen (uart_putc (ucast (drop_bit 8 v)))
     (andthen (uart_putc (ucast (drop_bit 16 v))) (uart_putc (ucast (drop_bit 24 v)))))"

definition uart_get_u32 :: "('h, u32) fop" where
  "uart_get_u32 = bind uart_getc (\<lambda>a. bind uart_getc (\<lambda>b. bind uart_getc (\<lambda>c. bind uart_getc (\<lambda>d.
     ret (ucast a OR push_bit 8 (ucast b) OR push_bit 16 (ucast c) OR push_bit 24 (ucast d))))))"

definition uart_get_u16 :: "('h, u32) fop" where
  "uart_get_u16 = bind uart_getc (\<lambda>a. bind uart_getc (\<lambda>b. ret (push_bit 8 (ucast a) OR ucast b)))"

definition uart_read_bytes :: "nat \<Rightarrow> ('h, bytes) fop" where
  "uart_read_bytes len = for_each (\<lambda>_. uart_getc) [0..<len]"

definition uart_discard :: "nat \<Rightarrow> ('h, unit) fop" where
  "uart_discard len = andthen (for_each (\<lambda>_. uart_getc) [0..<len]) (ret ())"

text \<open>Four received bytes at a time go into the window at \<open>base\<close>; \<open>left\<close> bytes remain.\<close>

fun uart_window :: "u32 \<Rightarrow> nat \<Rightarrow> nat \<Rightarrow> u32 \<Rightarrow> nat \<Rightarrow> ('h, unit) fop" where
  "uart_window base len offset word 0 = ret ()"
| "uart_window base len offset word (Suc left) =
     bind uart_getc (\<lambda>b.
     let word = word OR push_bit (8 * (offset AND 3)) (ucast b)
     in if offset AND 3 = 3 \<or> offset + 1 = len
        then andthen (io_put (base + word_of_nat (4 * (offset div 4))) word) (uart_window base len (offset + 1) 0 left)
        else uart_window base len (offset + 1) word left)"

definition uart_read_window :: "u32 \<Rightarrow> nat \<Rightarrow> ('h, unit) fop" where
  "uart_read_window base len = uart_window base len 0 0 len"

section \<open>Checksums\<close>

definition crc8_bit :: "u8 \<Rightarrow> u8" where
  "crc8_bit crc = (if crc AND 0x80 \<noteq> 0 then push_bit 1 crc XOR 0x07 else push_bit 1 crc)"

definition crc8_update :: "u8 \<Rightarrow> u8 \<Rightarrow> u8" where
  "crc8_update crc byte = (crc8_bit ^^ 8) (crc XOR byte)"

definition crc8_block :: "bytes \<Rightarrow> u8" where
  "crc8_block bs = foldl crc8_update 0 bs"

definition crc16_bit :: "u16 \<Rightarrow> u16" where
  "crc16_bit crc = (if crc AND 0x8000 \<noteq> 0 then push_bit 1 crc XOR 0x1021 else push_bit 1 crc)"

definition crc16_ccitt :: "bytes \<Rightarrow> u16" where
  "crc16_ccitt bs = foldl (\<lambda>crc b. (crc16_bit ^^ 8) (crc XOR push_bit 8 (ucast b))) 0xffff bs"

section \<open>Primitive requests\<close>

text \<open>What the four accelerator requests share: start, wait, and report; and the fixed digest run that marks the start of a
  measurement.\<close>

definition start_and_report :: "('h, u32 \<times> u32) fop" where
  "start_and_report =
     andthen (io_put LMS_CONTROL 1)
     (andthen (wait_idle LMS_STATUS)
     (bind (io_get LMS_CYCLE_COUNT) (\<lambda>cycles.
      andthen (modify (\<lambda>s. s\<lparr>hardware_hits := hardware_hits s + 1\<rparr>))
      (bind (io_get LMS_STATUS) (\<lambda>status. ret (status, cycles))))))"

definition hash_once_from_uart :: "nat \<Rightarrow> ('h, u32 \<times> u32) fop" where
  "hash_once_from_uart input_length =
     (if input_length > 128 then andthen (uart_discard input_length) (ret (0, 0))
      else andthen (io_put LMS_CONTROL 2)
        (andthen (io_put LMS_COMMAND 1)
        (andthen (io_put LMS_INPUT_LENGTH (word_of_nat input_length))
        (andthen (io_put LMS_OUTPUT_LENGTH 32)
        (andthen (uart_read_window LMS_INPUT input_length) start_and_report)))))"

definition derive_randomizer_from_uart :: "('h, u32 \<times> u32) fop" where
  "derive_randomizer_from_uart =
     andthen (io_put LMS_CONTROL 2)
     (andthen (io_put LMS_COMMAND 5)
     (andthen (io_put LMS_OUTPUT_LENGTH 32)
     (andthen (uart_read_window LMS_IDENTIFIER 16)
     (bind uart_get_u32 (\<lambda>q. andthen (io_put LMS_ARG_Q q) start_and_report)))))"

definition derive_xq_from_uart :: "('h, u32 \<times> u32) fop" where
  "derive_xq_from_uart =
     andthen (io_put LMS_CONTROL 2)
     (andthen (io_put LMS_COMMAND 4)
     (andthen (io_put LMS_OUTPUT_LENGTH 32)
     (andthen (uart_read_window LMS_IDENTIFIER 16)
     (bind uart_get_u32 (\<lambda>q. bind uart_get_u16 (\<lambda>i.
      andthen (io_put LMS_ARG_Q q)
      (andthen (io_put LMS_ARG_I (ucast (ucast i :: u16)))
      (andthen (io_put LMS_ARG_START 0)
      (andthen (io_put LMS_ARG_STEPS 0) start_and_report)))))))))"

definition chain_from_uart :: "('h, u32 \<times> u32) fop" where
  "chain_from_uart =
     andthen (io_put LMS_CONTROL 2)
     (andthen (io_put LMS_COMMAND 2)
     (andthen (io_put LMS_OUTPUT_LENGTH 32)
     (andthen (uart_read_window LMS_IDENTIFIER 16)
     (bind uart_get_u32 (\<lambda>q. bind uart_getc (\<lambda>i0. bind uart_getc (\<lambda>i1. bind uart_getc (\<lambda>start. bind uart_getc (\<lambda>steps.
      andthen (uart_read_window LMS_INPUT 32)
      (andthen (io_put LMS_ARG_Q q)
      (andthen (io_put LMS_ARG_I (ucast i0 OR push_bit 8 (ucast i1)))
      (andthen (io_put LMS_ARG_START (ucast start))
      (andthen (io_put LMS_ARG_STEPS (ucast steps)) start_and_report)))))))))))))"

definition trigger_pulse :: "('h, unit) fop" where
  "trigger_pulse =
     andthen (io_put LMS_CONTROL 2)
     (andthen (io_put LMS_COMMAND 1)
     (andthen (io_put LMS_INPUT_LENGTH 32)
     (andthen (io_put LMS_OUTPUT_LENGTH 32)
     (andthen (for_each (\<lambda>zi. io_put (LMS_INPUT + word_of_nat (4 * zi)) 0) [0..<8])
     (andthen (io_put LMS_CONTROL 1) (wait_idle LMS_STATUS))))))"

definition prf_chain_from_uart :: "('h, u32 \<times> u32) fop" where
  "prf_chain_from_uart =
     bind (uart_read_bytes 16) (\<lambda>I.
     bind uart_get_u32 (\<lambda>q.
     bind uart_get_u32 (\<lambda>m.
     let m = (if m = 0 \<or> m > 16 then 4 else m)
     in bind (look s_seed_slot_valid) (\<lambda>loaded.
        if \<not> loaded then ret (0, 0)
        else andthen trigger_pulse
          (andthen (modify (\<lambda>s. s\<lparr>s_uart_msg := overwrite 0
             (lms_digest FW_HASH_ALG (I @ lms_store_u32 (q + (m - 1)) @ [0x85, 0x85] @ s_seed_slot s)) (s_uart_msg s)\<rparr>))
           (ret (LMS_STATUS_DONE, 0)))))))"

section \<open>Loading the seed and the randomizer\<close>

definition fw_seed_load :: "bytes \<Rightarrow> ('h, bool) fop" where
  "fw_seed_load seed =
     bind (look (\<lambda>s. s_seed_slot_valid s \<and> s_seed_slot s = seed)) (\<lambda>same.
     if same then ret True
     else bind (on_client (lms_mmio_seed_load_test 0 seed)) (\<lambda>r. case r of
       Inl _ \<Rightarrow> ret False
     | Inr _ \<Rightarrow> andthen (modify (\<lambda>s. s\<lparr>s_seed_slot := seed, s_seed_slot_valid := True\<rparr>)) (ret True)))"

text \<open>Status, cycles and total cycles.\<close>

definition seed_load_from_uart :: "('h, u32 \<times> u32 \<times> u32) fop" where
  "seed_load_from_uart =
     bind (uart_read_bytes 32) (\<lambda>seed.
     bind (io_get SOC_CYCLE_COUNT) (\<lambda>total_start.
     andthen (on_client (modify (\<lambda>c. c\<lparr>last_hw_error := 0\<rparr>)))
     (bind (on_client (lms_mmio_seed_load_test 0 seed)) (\<lambda>status.
      andthen (case status of Inl _ \<Rightarrow> ret () | Inr _ \<Rightarrow> modify (\<lambda>s. s\<lparr>s_seed_slot := seed, s_seed_slot_valid := True\<rparr>))
      (bind (io_get LMS_CYCLE_COUNT) (\<lambda>cycles.
       bind (io_get SOC_CYCLE_COUNT) (\<lambda>t.
       ret (case status of Inl _ \<Rightarrow> 0 | Inr _ \<Rightarrow> LMS_STATUS_DONE, cycles, t - total_start))))))))"

text \<open>Status and error.\<close>

definition c_load_from_uart :: "('h, u32 \<times> u32) fop" where
  "c_load_from_uart =
     bind (uart_read_bytes LMS_N) (\<lambda>c.
     bind (look (\<lambda>s. test_mode (fw_sec s))) (\<lambda>testing.
     if testing
     then andthen (modify (\<lambda>s. s\<lparr>s_c_slot := c, s_c_slot_valid := True\<rparr>))
            (andthen (on_client (modify (\<lambda>cl. cl\<lparr>randomizer_c_slot := Some c\<rparr>))) (ret (LMS_STATUS_DONE, 0)))
     else ret (0, 0x0a)))"

section \<open>Storage requests\<close>

definition valid_mask :: "'h fw_state \<Rightarrow> u8" where
  "valid_mask s = of_bool (nvm_valid s ! 0) OR push_bit 1 (of_bool (nvm_valid s ! 1))"

text \<open>\<open>PUSH_LO\<close> and \<open>PUSH_HI\<close>: a chunk with its checksum.\<close>

definition nvm_push :: "nat \<Rightarrow> bytes \<Rightarrow> ('h, bytes) fop" where
  "nvm_push half response =
     bind (uart_read_bytes 32) (\<lambda>chunk.
     bind uart_getc (\<lambda>c0.
     bind uart_getc (\<lambda>c1.
     let got_crc = ucast c0 OR push_bit 8 (ucast c1);
         calc_crc = crc16_ccitt chunk
     in if calc_crc \<noteq> got_crc then ret (response[2 := 2])
        else andthen (modify (\<lambda>s. s\<lparr>nvm_state := overwrite (half * 32) chunk (nvm_state s),
               nvm_crc := (nvm_crc s)[half := got_crc], nvm_valid := (nvm_valid s)[half := True]\<rparr>))
             (ret response))))"

text \<open>The three read requests return 28 bytes from an offset.\<close>

definition nvm_read :: "nat \<Rightarrow> bytes \<Rightarrow> ('h, bytes) fop" where
  "nvm_read off response =
     bind (look (\<lambda>s. nvm_valid s ! 0 \<and> nvm_valid s ! 1)) (\<lambda>complete.
     if \<not> complete then ret (response[2 := 1])
     else bind (look nvm_state) (\<lambda>st. ret (overwrite 4 (segment off 28 st) response)))"

definition nvm_sync_from_uart :: "bytes \<Rightarrow> ('h, bytes) fop" where
  "nvm_sync_from_uart response =
     bind uart_getc (\<lambda>op.
     bind (look valid_mask) (\<lambda>vm.
     let response = response[0 := op, 1 := 0, 2 := 0, 3 := vm]
     in bind (if op = 0x01 \<or> op = 0x02 then nvm_push (if op = 0x02 then 1 else 0) response
              else if op = 0x03 then nvm_read 0 response
              else if op = 0x04 then nvm_read 36 response
              else if op = 0x05 then nvm_read 28 response
              else andthen (uart_discard (32 + 2)) (ret (response[2 := 3]))) (\<lambda>response.
        bind (look valid_mask) (\<lambda>vm. ret (response[3 := vm])))))"

section \<open>Security-state requests\<close>

definition sec_param_len :: "u8 \<Rightarrow> nat" where
  "sec_param_len sub =
     (if sub = 0x01 then 12 else if sub = 0x03 then 1 else if sub = 0x09 then 1 else if sub = 0x08 then 65
      else if sub = 0x0a then 4 else if sub = 0x0b then 48 else if sub = 0x05 then 16 else if sub = 0x06 then 16 else 0)"

text \<open>\<open>params\<close> is an uninitialised array of 65 bytes that the request fills in part; its old contents are the argument
  \<open>stack\<close>.\<close>

definition sec_state_from_uart :: "bytes \<Rightarrow> bytes \<Rightarrow> ('h, bytes) fop" where
  "sec_state_from_uart stack response =
     bind uart_getc (\<lambda>sub.
     bind (uart_read_bytes (sec_param_len sub)) (\<lambda>params.
     bind (on_sec (sec_handle_uart_cmd sub (overwrite 0 params stack))) (\<lambda>(rc, resp32).
     andthen (if sub = 0x01 \<and> resp32 ! 2 = 0 \<or> sub = 0x05
              then modify (\<lambda>s. s\<lparr>nvm_state := sec_export_active (fw_sec s), nvm_valid := [True, True]\<rparr>)
              else ret ())
       (ret (overwrite 0 (take 32 resp32) response)))))"

section \<open>Entropy and flash diagnostics\<close>

partial_function (option) fill_wait :: "(u32 \<Rightarrow> 'h \<Rightarrow> u32 \<times> 'h) \<Rightarrow> 'h \<Rightarrow> (bool \<times> 'h) option" where
  "fill_wait rd h = (case rd TRNG_STAT h of (stat, h) \<Rightarrow>
     if stat AND 1 \<noteq> 0 then Some (False, h) else if stat AND 0x100 = 0 then fill_wait rd h else Some (True, h))"

fun fill_words :: "nat \<Rightarrow> (u32 \<Rightarrow> 'h \<Rightarrow> u32 \<times> 'h) \<Rightarrow> 'h \<Rightarrow> (bytes option \<times> 'h) option" where
  "fill_words 0 rd h = Some (Some [], h)"
| "fill_words (Suc k) rd h = (case fill_wait rd h of
     None \<Rightarrow> None
   | Some (False, h) \<Rightarrow> Some (None, h)
   | Some (True, h) \<Rightarrow> (case rd TRNG_RND h of (w, h) \<Rightarrow>
       map_option (\<lambda>(rest, h). (map_option (\<lambda>r. store_le32 w @ r) rest, h)) (fill_words k rd h)))"

text \<open>The randomizer of a signature from the entropy peripheral; \<open>None\<close> as a result refuses, as the whole value means waiting
  forever.\<close>

definition fw_trng_fill_c :: "(u32 \<Rightarrow> 'h \<Rightarrow> u32 \<times> 'h) \<Rightarrow> 'h \<Rightarrow> (bytes option \<times> 'h) option" where
  "fw_trng_fill_c rd h = (case rd TRNG_STAT h of (stat, h) \<Rightarrow>
     if stat AND 1 \<noteq> 0 then Some (None, h) else fill_words 8 rd h)"

text \<open>The response and the bytes that follow it.\<close>

definition trng_read_from_uart :: "bool \<Rightarrow> bytes \<Rightarrow> ('h, bytes \<times> bytes) fop" where
  "trng_read_from_uart with_ack response =
     bind uart_getc (\<lambda>count.
     bind (if with_ack then uart_getc else ret 0) (\<lambda>seq.
     bind (io_get TRNG_STAT) (\<lambda>stat.
     if stat AND 1 \<noteq> 0 then ret (response[2 := 1], [])
     else let count = (if count > 16 then 16 else count)
       in bind (for_each (\<lambda>_. io_get TRNG_RND) [0..<unat count]) (\<lambda>words.
          ret ((overwrite 20 (store_le32 (ucast count)) (response[2 := 0]))[24 := seq], concat (map store_le32 words))))))"

definition trng_status_from_uart :: "bytes \<Rightarrow> ('h, bytes) fop" where
  "trng_status_from_uart response =
     bind (io_get TRNG_STAT) (\<lambda>stat.
     bind (io_get TRNG_CTRL) (\<lambda>ctrl.
     bind (io_get TRNG_APT) (\<lambda>apt.
     bind (io_get TRNG_VERSION) (\<lambda>version.
     bind (io_get TRNG_CAP) (\<lambda>cap.
     ret (overwrite 16 (take 2 (store_le32 version) @ take 2 (store_le32 cap) @ store_le32 stat @ store_le32 ctrl @ store_le32 apt)
       (response[2 := 0])))))))"

text \<open>Polling with a bound: the body runs at least once.\<close>

fun flash_poll :: "nat \<Rightarrow> ('h, u32) fop" where
  "flash_poll n = bind (io_get FLASH_STATUS) (\<lambda>stat.
     case n of Suc m \<Rightarrow> if stat AND 2 = 0 \<and> m \<noteq> 0 then flash_poll m else ret stat | 0 \<Rightarrow> ret stat)"

definition FLASH_SPIN :: nat where "FLASH_SPIN = 2000000"

definition flash_run :: "('h, u32) fop" where
  "flash_run = andthen (io_put FLASH_CTRL 1) (flash_poll FLASH_SPIN)"

definition flash_status_byte :: "u32 \<Rightarrow> u8" where
  "flash_status_byte stat = (if stat AND 2 \<noteq> 0 then 0 else 1)"

definition flash_probe_from_uart :: "bytes \<Rightarrow> ('h, bytes) fop" where
  "flash_probe_from_uart response =
     bind flash_run (\<lambda>stat.
     bind (for_each (\<lambda>i. io_get (FLASH_RESP0 + word_of_nat (4 * i))) [0..<5]) (\<lambda>resp.
     ret ((overwrite 16 (concat (map (\<lambda>w. take 3 (store_le32 w)) resp)) (response[2 := flash_status_byte stat]))[31 := ucast stat])))"

definition flash_prog_from_uart :: "bytes \<Rightarrow> ('h, bytes) fop" where
  "flash_prog_from_uart response =
     bind uart_getc (\<lambda>a2. bind uart_getc (\<lambda>a1. bind uart_getc (\<lambda>a0. bind uart_getc (\<lambda>data.
     let addr = push_bit 16 (ucast a2) OR push_bit 8 (ucast a1) OR ucast a0
     in andthen (io_put FLASH_OP 1)
       (andthen (io_put FLASH_ADDR addr)
       (andthen (io_put FLASH_BYTE (ucast data))
       (bind flash_run (\<lambda>stat.
        andthen (for_each (\<lambda>_. io_get FLASH_STATUS) [0..<400000])
        (ret ((overwrite 16 [ucast (drop_bit 16 addr), ucast (drop_bit 8 addr), ucast addr, data]
          (response[2 := flash_status_byte stat]))[31 := ucast stat]))))))))))"

definition flash_cmd_from_uart :: "bytes \<Rightarrow> ('h, bytes) fop" where
  "flash_cmd_from_uart response =
     bind uart_getc (\<lambda>byte.
     andthen (io_put FLASH_OP 2)
     (andthen (io_put FLASH_BYTE (ucast byte))
     (bind flash_run (\<lambda>stat. ret (response[2 := flash_status_byte stat, 16 := byte, 31 := ucast stat])))))"

text \<open>The bridge between serial port and task memory; \<open>False\<close> is the result -1.\<close>

definition bridge_run :: "u32 \<Rightarrow> u32 \<Rightarrow> u32 \<Rightarrow> ('h, bool) fop" where
  "bridge_run dir addr len =
     andthen (io_put BRIDGE_ADDR addr)
     (andthen (io_put BRIDGE_LEN len)
     (bind (io_get BRIDGE_CTRL) (\<lambda>_.
      andthen (io_put BRIDGE_CTRL (1 OR dir))
      (andthen (wait_idle BRIDGE_CTRL)
      (bind (io_get BRIDGE_CTRL) (\<lambda>ctrl.
       andthen (io_put BRIDGE_CTRL 2) (ret (ctrl AND 4 = 0))))))))"

section \<open>The command loop\<close>

text \<open>What a handler leaves for the response frame; the flag \<open>return_digest\<close> asks for the accelerator's output, \<open>body\<close> is
  \<open>nvm_response\<close> where the request uses it, and \<open>tail\<close> follows the frame.\<close>

record answer =
  ans_status :: u32
  ans_error :: u32
  ans_cycles :: u32
  ans_total :: u32
  ans_digest :: bool
  ans_body :: "bytes option"
  ans_tail :: bytes

definition plain_answer :: answer where
  "plain_answer = \<lparr>ans_status = 0, ans_error = 0, ans_cycles = 0, ans_total = 0, ans_digest = False, ans_body = None, ans_tail = []\<rparr>"

definition core_answer :: "bool \<Rightarrow> u32 option \<Rightarrow> ('h, u32 \<times> u32) fop \<Rightarrow> ('h, answer option) fop" where
  "core_answer digest err h =
     bind h (\<lambda>(status, cycles).
     bind (case err of Some e \<Rightarrow> ret e | None \<Rightarrow> io_get LMS_ERROR) (\<lambda>e.
     ret (Some (plain_answer\<lparr>ans_status := status, ans_error := e, ans_cycles := cycles, ans_digest := digest\<rparr>))))"

text \<open>Handlers that fill \<open>nvm_response\<close>, and report its byte 2 when \<open>checked\<close>.\<close>

definition body_answer :: "bool \<Rightarrow> (bytes \<Rightarrow> ('h, bytes) fop) \<Rightarrow> ('h, answer option) fop" where
  "body_answer checked h =
     bind (h (replicate 48 0)) (\<lambda>body.
     let e = (if checked then body ! 2 else 0)
     in ret (Some (plain_answer\<lparr>ans_status := (if e = 0 then LMS_STATUS_DONE else 0), ans_error := ucast e, ans_body := Some body\<rparr>)))"

definition trng_answer :: "bool \<Rightarrow> ('h, answer option) fop" where
  "trng_answer with_ack =
     bind (trng_read_from_uart with_ack (replicate 48 0)) (\<lambda>(body, words).
     let e = body ! 2
     in ret (Some (plain_answer\<lparr>ans_status := (if e = 0 then LMS_STATUS_DONE else 0), ans_error := ucast e, ans_body := Some body,
          ans_tail := (if e \<noteq> 0 then [] else if with_ack then words @ [crc8_block words] else words)\<rparr>)))"

definition has_wrap :: "'h fw_state \<Rightarrow> bool" where
  "has_wrap s \<longleftrightarrow> capabilities (sec_client (fw_sec s)) AND CAP_WRAP \<noteq> 0"

definition key_ready :: "'h fw_state \<Rightarrow> bool" where
  "key_ready s \<longleftrightarrow> has_wrap s \<and> sec_key_loaded (fw_sec s)"

definition when_ok :: "('h fw_state \<Rightarrow> bool) \<Rightarrow> ('h, answer option) fop \<Rightarrow> ('h, answer option) fop" where
  "when_ok g h = bind (look g) (\<lambda>ok. if ok then h else ret None)"

text \<open>\<open>None\<close> is the \<open>continue\<close> of the loop.\<close>

definition handle_request :: "bytes \<Rightarrow> u8 \<Rightarrow> ('h, answer option) fop" where
  "handle_request stack request =
     (if request = 0x48 then bind uart_getc (\<lambda>n. core_answer True (if n > 128 then Some 3 else None) (hash_once_from_uart (unat n)))
      else if request = 0x6d then core_answer True None derive_randomizer_from_uart
      else if request = 0x6e then core_answer True None prf_chain_from_uart
      else if request = 0x6f then core_answer False None derive_xq_from_uart
      else if request = 0x43 then core_answer True None chain_from_uart
      else if request = 0x63 then
        bind seed_load_from_uart (\<lambda>(status, cycles, total).
        bind (look (\<lambda>s. last_hw_error (sec_client (fw_sec s)))) (\<lambda>e.
        ret (Some (plain_answer\<lparr>ans_status := status, ans_error := e, ans_cycles := cycles, ans_total := total\<rparr>))))
      else if request = 0x6c then
        bind c_load_from_uart (\<lambda>(status, e). ret (Some (plain_answer\<lparr>ans_status := status, ans_error := e\<rparr>)))
      else if request = 0x52 then when_ok has_wrap (body_answer False nvm_sync_from_uart)
      else if request = 0x55 then when_ok has_wrap (body_answer False (sec_state_from_uart stack))
      else if request = 0x58 then trng_answer False
      else if request = 0x5a then trng_answer True
      else if request = 0x59 then body_answer False trng_status_from_uart
      else if request = 0x5b then body_answer True flash_probe_from_uart
      else if request = 0x5c then body_answer True flash_prog_from_uart
      else if request = 0x5d then body_answer True flash_cmd_from_uart
      else if request = 0x54 then when_ok has_wrap (fail Unmodelled)
      else if request = 0x66 \<or> request = 0x67 \<or> request = 0x68 then when_ok key_ready (fail Unmodelled)
      else if request = 0x56 \<or> request = 0x53 \<or> request = 0x4b \<or> request = 0x60 \<or> request = 0x61 \<or> request = 0x62
        then fail Unmodelled
      else ret None)"

text \<open>The frame: 16 bytes of status, eight words, and the data that follow.\<close>

definition frame_word :: "answer \<Rightarrow> nat \<Rightarrow> ('h, u32) fop" where
  "frame_word a i =
     (if ans_digest a \<and> ans_error a = 0 then io_get (LMS_OUTPUT + word_of_nat (4 * i))
      else case ans_body a of
        Some body \<Rightarrow> ret (load_le32 (drop (4 * i) body))
      | None \<Rightarrow> ret (if i = 1 then ans_total a else 0))"

definition send_response :: "answer \<Rightarrow> ('h, unit) fop" where
  "send_response a =
     andthen (uart_putc 0x52)
     (andthen (uart_putc (if ans_status a = LMS_STATUS_DONE \<and> ans_error a = 0 then 0 else 1))
     (andthen (uart_putc (ucast (ans_error a)))
     (andthen (uart_putc 0)
     (andthen (uart_put_u32 (ans_cycles a))
     (bind (look hardware_hits) (\<lambda>hits.
      andthen (uart_put_u32 hits)
      (andthen (uart_put_u32 0)
      (andthen (for_each (\<lambda>i. bind (frame_word a i) uart_put_u32) [0..<8])
       (if ans_status a = LMS_STATUS_DONE \<and> ans_error a = 0 then uart_puts (ans_tail a) else ret ())))))))))"

text \<open>The two requests that dump a register window.\<close>

definition dump_window :: "u32 \<Rightarrow> nat \<Rightarrow> ('h, unit) fop" where
  "dump_window base len =
     andthen (for_each (\<lambda>i. bind (io_get (base + word_of_nat (4 * (i div 4)))) (\<lambda>w.
       uart_putc (ucast (drop_bit ((i AND 3) * 8) w)))) [0..<len]) (ret ())"

definition serve_uart :: "bytes \<Rightarrow> ('h, unit) fop" where
  "serve_uart stack =
     bind uart_getc (\<lambda>request.
     if request = 0x7f then dump_window LMS_INPUT 128
     else if request = 0x7e then dump_window LMS_OUTPUT 48
     else bind (handle_request stack request) (\<lambda>a. case a of None \<Rightarrow> ret () | Some a \<Rightarrow> send_response a))"

section \<open>Reading requests\<close>

lemma bind_step: "bind m f s = (case m s of (Inl e, s') \<Rightarrow> (Inl e, s') | (Inr x, s') \<Rightarrow> f x s')"
  by (simp add: op_defs)

lemma andthen_step: "andthen m k s = (case m s of (Inl e, s') \<Rightarrow> (Inl e, s') | (Inr x, s') \<Rightarrow> k s')"
  by (simp add: op_defs)

lemma ret_step: "ret x s = (Inr x, s)"
  by (simp add: op_defs)

lemma look_step: "look g s = (Inr (g s), s)"
  by (simp add: op_defs)

lemma modify_step: "modify g s = (Inr (), g s)"
  by (simp add: op_defs)

lemmas op_steps = bind_step andthen_step ret_step look_step modify_step

lemma getc_Cons: "fw_rx s = b # bs \<Longrightarrow> uart_getc s = (Inr b, s\<lparr>fw_rx := bs\<rparr>)"
  by (simp add: uart_getc_def)

lemma read_all:
  "fw_rx s = bs @ rest \<Longrightarrow> length xs = length bs \<Longrightarrow> for_each (\<lambda>_. uart_getc) xs s = (Inr bs, s\<lparr>fw_rx := rest\<rparr>)"
proof (induction xs arbitrary: bs s)
  case (Cons x xs)
  then obtain b cs where bs: "bs = b # cs" by (cases bs) auto
  have "for_each (\<lambda>_. uart_getc) xs (s\<lparr>fw_rx := cs @ rest\<rparr>) = (Inr cs, s\<lparr>fw_rx := rest\<rparr>)"
    using Cons.IH [of "s\<lparr>fw_rx := cs @ rest\<rparr>" cs] Cons.prems(2) bs by simp
  then show ?case using Cons.prems(1) bs by (simp add: op_steps getc_Cons)
qed (simp add: op_steps)

lemma read_bytes_run: "fw_rx s = bs @ rest \<Longrightarrow> length bs = n \<Longrightarrow> uart_read_bytes n s = (Inr bs, s\<lparr>fw_rx := rest\<rparr>)"
  unfolding uart_read_bytes_def by (rule read_all) simp_all

section \<open>The checksums detect a changed byte\<close>

lemma bit_double: "bit (push_bit 1 (z :: 'a::len word)) k \<longleftrightarrow> 0 < k \<and> k < LENGTH('a) \<and> bit z (k - 1)"
proof -
  have "bit (push_bit 1 z) k \<longleftrightarrow> 1 \<le> k \<and> possible_bit TYPE('a word) k \<and> bit z (k - 1)" by (rule bit_push_bit_iff)
  then show ?thesis by auto
qed

lemma shift_xor_inj:
  fixes p :: "'a::len word"
  assumes p: "bit p 0" and g: "\<And>z. g z = (if bit z (LENGTH('a) - 1) then push_bit 1 z XOR p else push_bit 1 z)"
  shows "inj g"
proof (rule injI, rule bit_word_eqI)
  fix x y :: "'a word" and n
  assume e: "g x = g y" and n: "n < LENGTH('a)"
  have b: "bit (g z) k = ((0 < k \<and> k < LENGTH('a) \<and> bit z (k - 1)) \<noteq> (bit z (LENGTH('a) - 1) \<and> bit p k))" for z k
    unfolding g by (simp only: bit_double bit_xor_iff split: if_split) blast
  have t: "bit x (LENGTH('a) - 1) = bit y (LENGTH('a) - 1)" using b [of x 0] b [of y 0] p e by simp
  show "bit x n = bit y n"
  proof (cases "Suc n = LENGTH('a)")
    case True
    then have "n = LENGTH('a) - 1" by simp
    then show ?thesis using t by simp
  next
    case False
    then show ?thesis using b [of x "Suc n"] b [of y "Suc n"] e t n by auto
  qed
qed

lemma and_top: "(z AND 0x8000 \<noteq> 0) = bit z 15" "(w AND 0x80 \<noteq> 0) = bit w 7" for z :: u16 and w :: u8
  using and_exp_eq_0_iff_not_bit [of z 15] and_exp_eq_0_iff_not_bit [of w 7] by simp_all

lemma crc16_inj: "inj (crc16_bit ^^ n)"
  by (rule inj_fn, rule shift_xor_inj [of "0x1021"]) (simp_all add: crc16_bit_def and_top)

lemma crc8_inj: "inj (crc8_bit ^^ n)"
  by (rule inj_fn, rule shift_xor_inj [of "0x07"]) (simp_all add: crc8_bit_def and_top)

text \<open>A fold whose step is injective in the accumulator and in the element tells lists apart that differ in one place.\<close>

lemma foldl_acc_inj:
  assumes "\<And>a a' b. f a b = f a' b \<Longrightarrow> a = a'"
  shows "foldl f a bs = foldl f a' bs \<Longrightarrow> a = a'"
proof (induction bs arbitrary: a a')
  case (Cons b bs)
  then have "f a b = f a' b" by auto
  then show ?case by (rule assms)
qed simp

lemma foldl_update_distinct:
  assumes acc: "\<And>a a' b. f a b = f a' b \<Longrightarrow> a = a'" and elem: "\<And>a b b'. f a b = f a b' \<Longrightarrow> b = b'"
    and "i < length bs" and "c \<noteq> bs ! i"
  shows "foldl f a (bs[i := c]) \<noteq> foldl f a bs"
proof
  assume e: "foldl f a (bs[i := c]) = foldl f a bs"
  let ?p = "foldl f a (take i bs)"
  have l: "foldl f a (bs[i := c]) = foldl f (f ?p c) (drop (Suc i) bs)" using assms(3) by (simp add: upd_conv_take_nth_drop)
  have r: "foldl f a bs = foldl f (f ?p (bs ! i)) (drop (Suc i) bs)"
    using id_take_nth_drop [OF assms(3)] by (metis foldl_Cons foldl_append)
  have "f ?p c = f ?p (bs ! i)" using e unfolding l r by (rule foldl_acc_inj [rotated]) (rule acc)
  then show False using elem assms(4) by blast
qed

lemma xor_cancel: "(a :: 'a::len word) XOR c = b XOR c \<longleftrightarrow> a = b"
proof
  assume "a XOR c = b XOR c"
  then have "(a XOR c) XOR c = (b XOR c) XOR c" by simp
  then show "a = b" by (simp only: xor.assoc xor_self_eq xor.right_neutral)
qed simp

lemma high_byte_inj: "push_bit 8 (ucast (b :: u8) :: u16) = push_bit 8 (ucast b') \<Longrightarrow> b = b'"
proof (rule bit_eqI)
  fix n assume e: "push_bit 8 (ucast b :: u16) = push_bit 8 (ucast b')" and "possible_bit TYPE(u8) n"
  then have n: "n < 8" by simp
  have "bit (push_bit 8 (ucast b :: u16)) (8 + n) = bit (push_bit 8 (ucast b' :: u16)) (8 + n)" using e by simp
  then show "bit b n = bit b' n" using n by (simp add: bit_simps)
qed

lemma crc16_one_byte:
  assumes "i < length bs" and "c \<noteq> bs ! i"
  shows "crc16_ccitt (bs[i := c]) \<noteq> crc16_ccitt bs"
  unfolding crc16_ccitt_def
proof (rule foldl_update_distinct [OF _ _ assms])
  fix a a' :: u16 and b b' :: u8
  show "(crc16_bit ^^ 8) (a XOR push_bit 8 (ucast b)) = (crc16_bit ^^ 8) (a' XOR push_bit 8 (ucast b)) \<Longrightarrow> a = a'"
    by (drule injD [OF crc16_inj]) (simp only: xor_cancel)
  show "(crc16_bit ^^ 8) (a XOR push_bit 8 (ucast b)) = (crc16_bit ^^ 8) (a XOR push_bit 8 (ucast b')) \<Longrightarrow> b = b'"
    by (drule injD [OF crc16_inj]) (simp only: xor.commute [of a] xor_cancel high_byte_inj)
qed

lemma crc8_one_byte:
  assumes "i < length bs" and "c \<noteq> bs ! i"
  shows "crc8_block (bs[i := c]) \<noteq> crc8_block bs"
  unfolding crc8_block_def crc8_update_def
proof (rule foldl_update_distinct [OF _ _ assms])
  fix a a' b b' :: u8
  show "(crc8_bit ^^ 8) (a XOR b) = (crc8_bit ^^ 8) (a' XOR b) \<Longrightarrow> a = a'"
    by (drule injD [OF crc8_inj]) (simp only: xor_cancel)
  show "(crc8_bit ^^ 8) (a XOR b) = (crc8_bit ^^ 8) (a XOR b') \<Longrightarrow> b = b'"
    by (drule injD [OF crc8_inj]) (simp only: xor.commute [of a] xor_cancel)
qed

section \<open>Storage\<close>

definition crc_bytes :: "u16 \<Rightarrow> bytes" where
  "crc_bytes c = [ucast c, ucast (drop_bit 8 c)]"

lemma crc_bytes_inv: "(ucast (ucast c :: u8) OR push_bit 8 (ucast (ucast (drop_bit 8 c) :: u8)) :: u16) = c"
  by (rule bit_word_eqI) (auto simp: bit_simps dest: bit_imp_le_length)

text \<open>The storage part of the state and what a request leaves alone.\<close>

definition nvm_ok :: "'h fw_state \<Rightarrow> bool" where
  "nvm_ok s \<longleftrightarrow> length (nvm_state s) = 64 \<and> length (nvm_crc s) = 2 \<and> length (nvm_valid s) = 2"

lemma nvm_push_run:
  assumes rx: "fw_rx s = op # chunk @ crc_bytes c @ rest" and op: "op = 0x01 \<or> op = 0x02" and len: "length chunk = 32"
  shows "nvm_sync_from_uart response s =
    (if crc16_ccitt chunk = c
     then let s' = s\<lparr>fw_rx := rest, nvm_state := overwrite (if op = 0x02 then 32 else 0) chunk (nvm_state s),
            nvm_crc := (nvm_crc s)[if op = 0x02 then 1 else 0 := c], nvm_valid := (nvm_valid s)[if op = 0x02 then 1 else 0 := True]\<rparr>
          in (Inr (response[0 := op, 1 := 0, 2 := 0, 3 := valid_mask s, 3 := valid_mask s']), s')
     else (Inr (response[0 := op, 1 := 0, 2 := 0, 3 := valid_mask s, 2 := 2, 3 := valid_mask s]), s\<lparr>fw_rx := rest\<rparr>))"
proof -
  have v: "valid_mask (s\<lparr>fw_rx := r\<rparr>) = valid_mask s" for r by (simp add: valid_mask_def)
  have r: "uart_read_bytes 32 (s\<lparr>fw_rx := chunk @ crc_bytes c @ rest\<rparr>) = (Inr chunk, s\<lparr>fw_rx := crc_bytes c @ rest\<rparr>)"
    by (subst read_bytes_run [where rest = "crc_bytes c @ rest"]) (simp_all add: len)
  show ?thesis using op
    by (auto simp: nvm_sync_from_uart_def nvm_push_def op_steps getc_Cons rx r [unfolded crc_bytes_def, simplified] crc_bytes_def crc_bytes_inv v Let_def)
qed

lemma nvm_read_run:
  assumes rx: "fw_rx s = op # rest" and op: "op = 0x03 \<and> off = 0 \<or> op = 0x05 \<and> off = 28 \<or> op = 0x04 \<and> off = 36"
    and full: "nvm_valid s ! 0" "nvm_valid s ! 1"
  shows "nvm_sync_from_uart response s =
    (Inr ((overwrite 4 (segment off 28 (nvm_state s)) (response[0 := op, 1 := 0, 2 := 0, 3 := 3]))[3 := 3]), s\<lparr>fw_rx := rest\<rparr>)"
proof -
  have v: "valid_mask (s\<lparr>fw_rx := rest\<rparr>) = 3" using full by (simp add: valid_mask_def)
  show ?thesis using op full
    by (auto simp: nvm_sync_from_uart_def nvm_read_def op_steps getc_Cons rx v Let_def)
qed

section \<open>Response frames\<close>

lemma putc_run: "uart_putc v s = (Inr (), s\<lparr>fw_tx := fw_tx s @ [v]\<rparr>)"
  by (simp add: uart_putc_def op_steps)

lemma puts_run: "uart_puts bs s = (Inr (), s\<lparr>fw_tx := fw_tx s @ bs\<rparr>)"
proof -
  have "\<exists>us. for_each uart_putc bs s = (Inr us, s\<lparr>fw_tx := fw_tx s @ bs\<rparr>)"
  proof (induction bs arbitrary: s)
    case (Cons b bs)
    from Cons [of "s\<lparr>fw_tx := fw_tx s @ [b]\<rparr>"] show ?case by (auto simp: op_steps putc_run)
  qed (simp add: op_steps)
  then show ?thesis by (auto simp: uart_puts_def op_steps)
qed

lemma put_u32_run: "uart_put_u32 v s = (Inr (), s\<lparr>fw_tx := fw_tx s @ store_le32 v\<rparr>)"
  by (simp add: uart_put_u32_def op_steps putc_run store_le32_def)

lemma put_words_run:
  "\<exists>us. for_each (\<lambda>i. bind (ret (f i)) uart_put_u32) is s = (Inr us, s\<lparr>fw_tx := fw_tx s @ concat (map (\<lambda>i. store_le32 (f i)) is)\<rparr>)"
proof (induction "is" arbitrary: s)
  case (Cons i "is")
  from Cons [of "s\<lparr>fw_tx := fw_tx s @ store_le32 (f i)\<rparr>"] show ?case by (auto simp: op_steps put_u32_run)
qed (simp add: op_steps)

lemma store_load_le32: "4 \<le> length b \<Longrightarrow> store_le32 (load_le32 b) = take 4 b"
proof -
  assume "4 \<le> length b"
  then have "take 4 b = [b ! 0, b ! 1, b ! 2, b ! 3]" by (simp add: list_eq_iff_nth_eq less_Suc_eq eval_nat_numeral)
  moreover have "store_le32 (load_le32 b) = [b ! 0, b ! 1, b ! 2, b ! 3]" unfolding store_le32_def load_le32_def list.inject
    by (intro conjI bit_word_eqI) (auto simp: bit_simps dest: bit_imp_le_length)
  ultimately show ?thesis by simp
qed

lemma words_of_body:
  "4 * n \<le> length b \<Longrightarrow> concat (map (\<lambda>i. store_le32 (load_le32 (drop (4 * i) b))) [0..<n]) = take (4 * n) b"
proof (induction n)
  case (Suc n)
  then have "store_le32 (load_le32 (drop (4 * n) b)) = take 4 (drop (4 * n) b)" by (intro store_load_le32) simp
  then show ?case using Suc by (simp add: take_add [of "4 * n" 4, symmetric] add.commute take_add)
qed simp

definition frame_head :: "answer \<Rightarrow> u32 \<Rightarrow> bytes" where
  "frame_head a hits = [0x52, if ans_status a = LMS_STATUS_DONE \<and> ans_error a = 0 then 0 else 1, ucast (ans_error a), 0]
     @ store_le32 (ans_cycles a) @ store_le32 hits @ store_le32 0"

lemma length_frame_head [simp]: "length (frame_head a h) = 16"
  by (simp add: frame_head_def store_le32_def)

lemma send_body_run:
  assumes "ans_body a = Some body" and "\<not> ans_digest a" and "length body = 48"
  shows "send_response a s = (Inr (), s\<lparr>fw_tx := fw_tx s @ frame_head a (hardware_hits s) @ take 32 body
    @ (if ans_status a = LMS_STATUS_DONE \<and> ans_error a = 0 then ans_tail a else [])\<rparr>)"
proof -
  let ?s = "s\<lparr>fw_tx := fw_tx s @ frame_head a (hardware_hits s)\<rparr>"
  have f: "(\<lambda>i. bind (frame_word a i) uart_put_u32) = (\<lambda>i. bind (ret (load_le32 (drop (4 * i) body))) uart_put_u32)"
    by (rule ext) (simp add: frame_word_def assms(1,2))
  have w: "concat (map (\<lambda>i. store_le32 (load_le32 (drop (4 * i) body))) [0..<8]) = take 32 body"
    using words_of_body [of 8 body] assms(3) by (simp del: upt_rec_numeral)
  obtain us where "for_each (\<lambda>i. bind (frame_word a i) uart_put_u32) [0..<8] ?s = (Inr us, ?s\<lparr>fw_tx := fw_tx ?s @ take 32 body\<rparr>)"
    using put_words_run [of "\<lambda>i. load_le32 (drop (4 * i) body)" "[0..<8]" ?s] unfolding f w by blast
  then show ?thesis
    by (simp add: send_response_def op_steps putc_run put_u32_run puts_run frame_head_def del: upt_rec_numeral)
qed

lemma body_answer_run:
  assumes "h (replicate 48 0) s = (Inr body, s')" and "length body = 48"
  shows "\<exists>hd. length hd = 16 \<and> bind (body_answer False h) (\<lambda>a. case a of None \<Rightarrow> ret () | Some a \<Rightarrow> send_response a) s
    = (Inr (), s'\<lparr>fw_tx := fw_tx s' @ hd @ take 32 body\<rparr>)"
  using assms
  by (intro exI [of _ "frame_head (plain_answer\<lparr>ans_status := LMS_STATUS_DONE, ans_body := Some body\<rparr>) (hardware_hits s')"])
    (simp add: body_answer_def op_steps send_body_run plain_answer_def Let_def)

lemma body_segment: "length r = 48 \<Longrightarrow> length xs = 28 \<Longrightarrow> segment 4 28 (take 32 ((overwrite 4 xs r)[3 := v])) = xs"
  by (simp add: segment_def overwrite_def drop_take take_drop)

text \<open>One round of the loop on a read request.\<close>

lemma serve_nvm_read:
  assumes rx: "fw_rx s = 0x52 # op # rest" and op: "op = 0x03 \<and> off = 0 \<or> op = 0x05 \<and> off = 28 \<or> op = 0x04 \<and> off = 36"
    and full: "nvm_valid s ! 0" "nvm_valid s ! 1" and wrap: "has_wrap s" and len: "length (nvm_state s) = 64"
  shows "\<exists>f. length f = 48 \<and> segment 20 28 f = segment off 28 (nvm_state s)
    \<and> serve_uart stack s = (Inr (), s\<lparr>fw_rx := rest, fw_tx := fw_tx s @ f\<rparr>)"
proof -
  let ?s = "s\<lparr>fw_rx := op # rest\<rparr>" and ?b = "(overwrite 4 (segment off 28 (nvm_state s)) ((replicate 48 0)[0 := op, 1 := 0, 2 := 0, 3 := 3]))[3 := 3]"
  have w: "has_wrap ?s" using wrap by (simp add: has_wrap_def)
  have seg: "length (segment off 28 (nvm_state s)) = 28" using op len by auto
  then have lb: "length ?b = 48" by simp
  have run: "nvm_sync_from_uart (replicate 48 0) ?s = (Inr ?b, s\<lparr>fw_rx := rest\<rparr>)"
    using nvm_read_run [of ?s op rest off "replicate 48 0"] op full by simp
  obtain hd where hd: "length hd = 16" "bind (body_answer False nvm_sync_from_uart) (\<lambda>a. case a of None \<Rightarrow> ret () | Some a \<Rightarrow> send_response a) ?s
      = (Inr (), s\<lparr>fw_rx := rest, fw_tx := fw_tx s @ hd @ take 32 ?b\<rparr>)"
    using body_answer_run [of nvm_sync_from_uart ?s ?b, OF run lb] by auto
  have "segment 20 28 (hd @ take 32 ?b) = segment 4 28 (take 32 ?b)" using hd(1) by (simp add: segment_def)
  then have "segment 20 28 (hd @ take 32 ?b) = segment off 28 (nvm_state s)" using body_segment [OF _ seg] by simp
  moreover have "length (hd @ take 32 ?b) = 48" using hd(1) lb by simp
  moreover have "serve_uart stack s = (Inr (), s\<lparr>fw_rx := rest, fw_tx := fw_tx s @ (hd @ take 32 ?b)\<rparr>)"
    using hd(2) w by (simp add: serve_uart_def handle_request_def when_ok_def op_steps getc_Cons [OF rx])
  ultimately show ?thesis by blast
qed

lemma valid_pair: "length v = 2 \<Longrightarrow> v[0 := True, Suc 0 := True] = [True, True]"
  by (cases v; cases "tl v") auto

lemma overwrite_halves:
  assumes "length lo = 32" and "length hi = 32" and "length st = 64"
  shows "overwrite 32 hi (overwrite 0 lo st) = lo @ hi"
  using assms by (simp add: overwrite_def)

lemma two_rounds: "m s = (Inr a, t) \<Longrightarrow> m t = (Inr b, u) \<Longrightarrow> for_each (\<lambda>_. m) [0..<2] s = (Inr [a, b], u)"
  by (simp add: numeral_2_eq_2 upt_rec op_steps)

lemma four_rounds:
  assumes "m s = (Inr a, t)" "m t = (Inr b, u)" "m u = (Inr c, v)" "m v = (Inr d, w)"
  shows "for_each (\<lambda>_. m) [0..<4] s = (Inr [a, b, c, d], w)"
proof -
  have e: "[0..<4] = [0, 1, 2, 3 :: nat]" by (simp add: upt_rec)
  show ?thesis unfolding e by (simp add: assms op_steps)
qed

lemma nvm_push_ok:
  assumes "fw_rx s = op # chunk @ crc_bytes (crc16_ccitt chunk) @ rest" and "op = 0x01 \<and> i = 0 \<or> op = 0x02 \<and> i = 1" and "length chunk = 32"
  obtains r s' where "nvm_sync_from_uart (replicate 48 0) s = (Inr r, s')" "r ! 2 = 0" "fw_rx s' = rest"
    "nvm_state s' = overwrite (32 * i) chunk (nvm_state s)" "nvm_valid s' = (nvm_valid s)[i := True]"
proof -
  have op: "op = 0x01 \<or> op = 0x02" using assms(2) by blast
  show thesis
    by (rule that, subst nvm_push_run [OF assms(1) op assms(3), of "replicate 48 0"], simp add: Let_def) (use assms(2) in auto)
qed

lemma record_pieces:
  assumes "length r = 64"
  shows "segment 0 28 r @ segment 28 28 r @ drop 20 (segment 36 28 r) = r"
proof -
  have "r = take 28 r @ take 28 (drop 28 r) @ drop 56 r"
    using append_take_drop_id [of 28 r] append_take_drop_id [of 28 "drop 28 r"] by simp
  moreover have "drop 20 (take 28 (drop 36 r)) = drop 56 r" using assms by simp
  ultimately show ?thesis by (simp add: segment_def)
qed

lemma load_record:
  assumes "k < 2" "length (sec_slots u) = 2" "length (sec_slot_valid u) = 2" and rec: "length r = 64"
  shows "let u' = snd (sec_handle_uart_cmd 0x08 (word_of_nat k # r) u) in sec_slots u' ! k = r \<and> sec_slot_valid u' ! k"
proof -
  have "unat (word_of_nat k :: u8) = k" using assms(1) by (simp add: unat_of_nat)
  then show ?thesis using assms by (simp add: sec_handle_uart_cmd_def Let_def segment_def SEC_STATE_REC_LEN_def)
qed

lemma serve_commit:
  assumes rx: "fw_rx s = 0x55 # 0x01 # params @ rest" and params: "length params = 12" and wrap: "has_wrap s"
    and commit: "sec_handle_uart_cmd 0x01 (overwrite 0 params stack) (fw_sec s) = ((rc, r32), t)" "length r32 = 32" "r32 ! 2 = 0"
  obtains f where "length f = 48" "serve_uart stack s
    = (Inr (), s\<lparr>fw_rx := rest, fw_sec := t, nvm_state := sec_slots t ! sec_active_slot t, nvm_valid := [True, True], fw_tx := fw_tx s @ f\<rparr>)"
proof -
  let ?rec = "sec_slots t ! sec_active_slot t"
  let ?s0 = "s\<lparr>fw_rx := 0x01 # params @ rest\<rparr>"
  let ?s1 = "s\<lparr>fw_rx := rest, fw_sec := t, nvm_state := ?rec, nvm_valid := [True, True]\<rparr>"
  let ?b = "overwrite 0 (take 32 r32) (replicate 48 0) :: bytes"
  have rd: "uart_read_bytes 12 (s\<lparr>fw_rx := params @ rest\<rparr>) = (Inr params, s\<lparr>fw_rx := rest\<rparr>)"
    by (subst read_bytes_run [where rest = rest]) (simp_all add: params)
  have run: "sec_state_from_uart stack (replicate 48 0) ?s0 = (Inr ?b, ?s1)"
    by (simp add: sec_state_from_uart_def op_steps getc_Cons sec_param_len_def rd on_sec_def commit sec_export_active_def)
  have lb: "length ?b = 48" using commit(2) by (simp add: overwrite_def)
  obtain hdr where hdr: "length hdr = 16" "bind (body_answer False (sec_state_from_uart stack)) (\<lambda>a. case a of None \<Rightarrow> ret () | Some a \<Rightarrow> send_response a) ?s0
      = (Inr (), ?s1\<lparr>fw_tx := fw_tx s @ hdr @ take 32 ?b\<rparr>)"
    using body_answer_run [of "sec_state_from_uart stack" ?s0 ?b, OF run lb] by auto
  have w0: "has_wrap ?s0" using wrap(1) by (simp add: has_wrap_def)
  have r0: "serve_uart stack s = (Inr (), ?s1\<lparr>fw_tx := fw_tx s @ hdr @ take 32 ?b\<rparr>)"
    using hdr(2) w0 by (simp add: serve_uart_def handle_request_def when_ok_def op_steps getc_Cons [OF rx])
  show thesis by (rule that [of "hdr @ take 32 ?b"]) (use hdr(1) lb r0 in simp_all)
qed

section \<open>Properties\<close>


text \<open>
  C15. A committed state record reaches the host and comes back. After a \<open>COMMIT\<close> over the serial port that the security domain
  accepts, the three read requests of \<open>NVM_SYNC\<close> are answered by frames whose payloads put together are the 64 bytes of
  the record in the active slot; sent back with \<open>NVM_LOAD\<close> to any device, they restore that record in the chosen slot.
\<close>

theorem state_record_persists:
  assumes rx: "fw_rx s = 0x55 # 0x01 # params @ [0x52, 0x03, 0x52, 0x05, 0x52, 0x04]" and params: "length params = 12"
    and wrap: "has_wrap s" "capabilities (sec_client t) AND CAP_WRAP \<noteq> 0"
    and commit: "sec_handle_uart_cmd 0x01 (overwrite 0 params stack) (fw_sec s) = ((rc, r32), t)" "length r32 = 32" "r32 ! 2 = 0"
    and rec: "length (sec_slots t ! sec_active_slot t) = 64"
  shows "\<exists>f0 f1 f2 f3 s'. for_each (\<lambda>_. serve_uart stack) [0..<4] s = (Inr [(), (), (), ()], s')
    \<and> fw_tx s' = fw_tx s @ f0 @ f1 @ f2 @ f3 \<and> length f0 = 48 \<and> length f1 = 48 \<and> length f2 = 48 \<and> length f3 = 48
    \<and> segment 20 28 f1 @ segment 20 28 f2 @ drop 20 (segment 20 28 f3) = sec_slots t ! sec_active_slot t
    \<and> (\<forall>k u. k < 2 \<longrightarrow> length (sec_slots u) = 2 \<longrightarrow> length (sec_slot_valid u) = 2 \<longrightarrow>
        (let u' = snd (sec_handle_uart_cmd 0x08 (word_of_nat k # segment 20 28 f1 @ segment 20 28 f2 @ drop 20 (segment 20 28 f3)) u)
         in sec_slots u' ! k = sec_slots t ! sec_active_slot t \<and> sec_slot_valid u' ! k))"
proof -
  let ?rec = "sec_slots t ! sec_active_slot t"
  let ?reads = "[0x52, 0x03, 0x52, 0x05, 0x52, 0x04] :: bytes"
  obtain f0 where f0: "length f0 = 48" "serve_uart stack s
      = (Inr (), s\<lparr>fw_rx := ?reads, fw_sec := t, nvm_state := ?rec, nvm_valid := [True, True], fw_tx := fw_tx s @ f0\<rparr>)"
    by (rule serve_commit [OF rx params wrap(1) commit])
  let ?t0 = "s\<lparr>fw_rx := ?reads, fw_sec := t, nvm_state := ?rec, nvm_valid := [True, True], fw_tx := fw_tx s @ f0\<rparr>"
  have w: "has_wrap ?t0" using wrap(2) by (simp add: has_wrap_def)
  obtain f1 where f1: "length f1 = 48" "segment 20 28 f1 = segment 0 28 ?rec"
    "serve_uart stack ?t0 = (Inr (), ?t0\<lparr>fw_rx := [0x52, 0x05, 0x52, 0x04], fw_tx := fw_tx ?t0 @ f1\<rparr>)"
    using serve_nvm_read [of ?t0 3 "[0x52, 0x05, 0x52, 0x04]" 0 stack] w rec by auto
  let ?t1 = "?t0\<lparr>fw_rx := [0x52, 0x05, 0x52, 0x04], fw_tx := fw_tx ?t0 @ f1\<rparr>"
  have w1: "has_wrap ?t1" using w by (simp add: has_wrap_def)
  obtain f2 where f2: "length f2 = 48" "segment 20 28 f2 = segment 28 28 ?rec"
    "serve_uart stack ?t1 = (Inr (), ?t1\<lparr>fw_rx := [0x52, 0x04], fw_tx := fw_tx ?t1 @ f2\<rparr>)"
    using serve_nvm_read [of ?t1 5 "[0x52, 0x04]" 28 stack] w1 rec by auto
  let ?t2 = "?t1\<lparr>fw_rx := [0x52, 0x04], fw_tx := fw_tx ?t1 @ f2\<rparr>"
  have w2: "has_wrap ?t2" using w by (simp add: has_wrap_def)
  obtain f3 where f3: "length f3 = 48" "segment 20 28 f3 = segment 36 28 ?rec"
    "serve_uart stack ?t2 = (Inr (), ?t2\<lparr>fw_rx := [], fw_tx := fw_tx ?t2 @ f3\<rparr>)"
    using serve_nvm_read [of ?t2 4 "[]" 36 stack] w2 rec by auto
  have whole: "segment 20 28 f1 @ segment 20 28 f2 @ drop 20 (segment 20 28 f3) = ?rec"
    unfolding f1(2) f2(2) f3(2) by (rule record_pieces [OF rec])
  have four: "for_each (\<lambda>_. serve_uart stack) [0..<4] s = (Inr [(), (), (), ()], ?t2\<lparr>fw_rx := [], fw_tx := fw_tx ?t2 @ f3\<rparr>)"
    by (rule four_rounds [OF f0(2) f1(3) f2(3) f3(3)])
  show ?thesis unfolding whole [symmetric]
    by (rule exI [of _ f0], rule exI [of _ f1], rule exI [of _ f2], rule exI [of _ f3], rule exI, intro conjI, rule four)
      (use f0(1) f1(1) f2(1) f3(1) whole rec in \<open>auto intro: load_record\<close>)
qed

lemma send_plain_run:
  assumes "ans_body a = None" and "\<not> ans_digest a" and "ans_tail a = []"
  shows "\<exists>f. length f = 48 \<and> take 3 f = [0x52, if ans_status a = LMS_STATUS_DONE \<and> ans_error a = 0 then 0 else 1, ucast (ans_error a)]
    \<and> send_response a s = (Inr (), s\<lparr>fw_tx := fw_tx s @ f\<rparr>)"
proof -
  let ?h = "frame_head a (hardware_hits s)" and ?g = "\<lambda>i :: nat. if i = 1 then ans_total a else 0"
  let ?s = "s\<lparr>fw_tx := fw_tx s @ ?h\<rparr>" and ?w = "concat (map (\<lambda>i. store_le32 (?g i)) [0..<8])"
  have f: "(\<lambda>i. bind (frame_word a i) uart_put_u32) = (\<lambda>i. bind (ret (?g i)) uart_put_u32)"
    by (rule ext) (simp add: frame_word_def assms(1,2))
  have l: "length ?w = 32" by (simp add: store_le32_def upt_rec)
  obtain us where "for_each (\<lambda>i. bind (frame_word a i) uart_put_u32) [0..<8] ?s = (Inr us, ?s\<lparr>fw_tx := fw_tx ?s @ ?w\<rparr>)"
    using put_words_run [of ?g "[0..<8]" ?s] unfolding f by blast
  then have "send_response a s = (Inr (), s\<lparr>fw_tx := fw_tx s @ (?h @ ?w)\<rparr>)"
    by (simp add: send_response_def op_steps putc_run put_u32_run puts_run frame_head_def assms(3) del: upt_rec_numeral)
  moreover have "take 3 (?h @ ?w) = take 3 ?h" by simp
  moreover have "take 3 ?h = [0x52, if ans_status a = LMS_STATUS_DONE \<and> ans_error a = 0 then 0 else 1, ucast (ans_error a)]"
    by (simp add: frame_head_def)
  ultimately show ?thesis using l by (intro exI [of _ "?h @ ?w"]) (simp del: upt_rec_numeral)
qed

lemma serve_refused:
  assumes "fw_rx s = r # rest" and "r = 0x66 \<or> r = 0x67 \<or> r = 0x68" and "\<not> key_ready s"
  shows "serve_uart stack s = (Inr (), s\<lparr>fw_rx := rest\<rparr>)"
proof -
  have "\<not> key_ready (s\<lparr>fw_rx := rest\<rparr>)" using assms(3) by (simp add: key_ready_def has_wrap_def)
  then show ?thesis using assms(2)
    by (auto simp: serve_uart_def handle_request_def when_ok_def op_steps getc_Cons [OF assms(1)])
qed

lemma serve_c_load:
  assumes rx: "fw_rx s = 0x6c # c @ rest" and len: "length c = 32" and test: "test_mode (fw_sec s)"
  shows "\<exists>f s'. serve_uart stack s = (Inr (), s') \<and> fw_rx s' = rest \<and> fw_tx s' = fw_tx s @ f \<and> length f = 48 \<and> take 3 f = [0x52, 0, 0]
    \<and> randomizer_c_slot (sec_client (fw_sec s')) = Some c"
proof -
  have rd: "uart_read_bytes LMS_N (s\<lparr>fw_rx := c @ rest\<rparr>) = (Inr c, s\<lparr>fw_rx := rest\<rparr>)"
    by (subst read_bytes_run [where rest = rest]) (simp_all add: len LMS_N_def)
  let ?a = "plain_answer\<lparr>ans_status := LMS_STATUS_DONE, ans_error := 0\<rparr>"
  let ?t = "s\<lparr>fw_rx := rest, s_c_slot := c, s_c_slot_valid := True, fw_sec := (fw_sec s)\<lparr>sec_client := (sec_client (fw_sec s))\<lparr>randomizer_c_slot := Some c\<rparr>\<rparr>\<rparr>"
  have h: "handle_request stack 0x6c (s\<lparr>fw_rx := c @ rest\<rparr>) = (Inr (Some ?a), ?t)"
    by (simp add: handle_request_def c_load_from_uart_def op_steps rd test on_client_def on_sec_def on_mmio_def)
  obtain f where f: "length f = 48" "take 3 f = [0x52, 0, 0]" "send_response ?a ?t = (Inr (), ?t\<lparr>fw_tx := fw_tx ?t @ f\<rparr>)"
    using send_plain_run [of ?a ?t] by (auto simp: plain_answer_def)
  have "serve_uart stack s = (Inr (), ?t\<lparr>fw_tx := fw_tx ?t @ f\<rparr>)"
    by (simp add: serve_uart_def op_steps getc_Cons [OF rx] h f(3))
  then show ?thesis using f(1,2) by (intro exI [of _ f] exI [of _ "?t\<lparr>fw_tx := fw_tx ?t @ f\<rparr>"]) simp
qed


section \<open>A firmware on the simulated device\<close>

definition sim_fw :: "bytes \<Rightarrow> sim_dev fw_state" where
  "sim_fw rx =
     \<lparr>fw_rx = rx, fw_tx = [], io_read = sim_read, io_write = sim_write, fw_sec = sim_sec 7, hardware_hits = 0,
      s_seed_slot = replicate 32 0, s_seed_slot_valid = False, s_c_slot = replicate 32 0, s_c_slot_valid = False,
      s_uart_msg = replicate 512 0, nvm_state = replicate 64 0, nvm_crc = [0, 0], nvm_valid = [False, False]\<rparr>"



text \<open>Witness of C15: the device of counter 7 commits counter \<open>0xffffffff\<close>.\<close>

theorem state_record_persists_witness:
  "let s = sim_fw (0x55 # 0x01 # (put_be32 2 @ put_be32 0xffffffff @ put_be32 0) @ [0x52, 0x03, 0x52, 0x05, 0x52, 0x04])
   in case sec_handle_uart_cmd 0x01 (overwrite 0 (put_be32 2 @ put_be32 0xffffffff @ put_be32 0) (replicate 65 0)) (sim_sec 7) of (r, t) \<Rightarrow>
     \<exists>f0 f1 f2 f3 s'. for_each (\<lambda>_. serve_uart (replicate 65 0)) [0..<4] s = (Inr [(), (), (), ()], s')
     \<and> fw_tx s' = f0 @ f1 @ f2 @ f3
     \<and> segment 20 28 f1 @ segment 20 28 f2 @ drop 20 (segment 20 28 f3) = sec_slots t ! sec_active_slot t"
proof -
  let ?p = "put_be32 2 @ put_be32 0xffffffff @ put_be32 0"
  let ?s = "sim_fw (0x55 # 0x01 # ?p @ [0x52, 0x03, 0x52, 0x05, 0x52, 0x04])"
  let ?run = "sec_handle_uart_cmd 0x01 (overwrite 0 ?p (replicate 65 0)) (sim_sec 7)"
  obtain rc r32 t where run: "?run = ((rc, r32), t)" by (metis prod.exhaust)
  have sec: "fw_sec ?s = sim_sec 7" by (simp only: sim_fw_def fw_state.simps)
  have c: "case ?run of ((rc, r), t) \<Rightarrow> length r = 32 \<and> r ! 2 = 0 \<and> capabilities (sec_client t) AND CAP_WRAP \<noteq> 0
      \<and> length (sec_slots t ! sec_active_slot t) = 64" by code_simp
  have w: "has_wrap ?s" unfolding has_wrap_def sec by code_simp
  have rx: "fw_rx ?s = 0x55 # 0x01 # ?p @ [0x52, 0x03, 0x52, 0x05, 0x52, 0x04]" by (simp only: sim_fw_def fw_state.simps)
  have tx: "fw_tx ?s = []" by (simp only: sim_fw_def fw_state.simps)
  have l: "length ?p = 12" by (simp add: put_be32_def)
  have c': "length r32 = 32" "r32 ! 2 = 0" "capabilities (sec_client t) AND CAP_WRAP \<noteq> 0" "length (sec_slots t ! sec_active_slot t) = 64"
    using c unfolding run prod.case by blast+
  obtain f0 f1 f2 f3 s' where "for_each (\<lambda>_. serve_uart (replicate 65 0)) [0..<4] ?s = (Inr [(), (), (), ()], s')"
    "fw_tx s' = fw_tx ?s @ f0 @ f1 @ f2 @ f3"
    "segment 20 28 f1 @ segment 20 28 f2 @ drop 20 (segment 20 28 f3) = sec_slots t ! sec_active_slot t"
    using state_record_persists [OF rx l w c'(3) run [folded sec] c'(1,2,4)] by (elim exE conjE)
  then show ?thesis unfolding Let_def run prod.case tx append_Nil by blast
qed

end
