(* ===== verification/Spec2Isabelle.thy ===== *)
theory Spec2Isabelle
  imports Hss Shared_Arena Subtree_Faults Sec_Power Haraka_Full Lms_Coprocess Lms_Rnd Firmware_Uart
begin

text \<open>
  A verification development of SecLMS, an implementation of the hash-based LMS signatures of
  RFC 8554 in C with a hardware accelerator and a firmware that protects the signing counter.

  \<^bold>\<open>Parts of the program and the theories that model them\<close>

  \<^item> \<open>hashs/sha256.c\<close>, \<open>hashs/fips202.c\<close>, \<open>hashs/haraka.c\<close>, \<open>src/hash_api.c\<close>: the hash functions and
    their entry point \<open>lms_hash\<close>. Theories \<open>Sha256\<close>, \<open>Fips202\<close>, \<open>Haraka\<close>, \<open>Haraka_Full\<close>, \<open>Hash_Api\<close>: SHA-256 in
    streaming form equals the one-shot padded definition, SHAKE and SHA-3 over the unrolled Keccak permutation equal
    the FIPS 202 sponge over its step mappings, the bit-sliced circuits are the AES S-box, the incremental Haraka
    sponge equals the one-shot one, \<open>lms_hash\<close> meets its contract on every algorithm.
  \<^item> \<open>include/lms.h\<close>, \<open>src/lms_internal.h\<close>: constants, keys, parameter records, the callback types
    and the static variables of the library (record \<open>lms_lib\<close>). Theory \<open>Lms_Types\<close>.
  \<^item> \<open>src/lms_params.c\<close>: parameter tables with one-entry caches, Winternitz digits, checksum, byte
    encodings and the multi-part hash. Theory \<open>Lms_Params\<close>, with the locale \<open>library_state\<close> of
    the library states on which these helpers answer correctly.
  \<^item> \<open>src/lm_ots.c\<close>: one-time signatures and the accelerator callbacks. Theory \<open>Lm_Ots\<close>; the locale
    \<open>ots_library\<close> states what registered accelerators must promise.
  \<^item> \<open>src/lms_tree.c\<close>, \<open>src/lms_sign.c\<close>, \<open>src/lms_verify.c\<close>, \<open>src/lms.c\<close>: tree nodes, signing, root
    recomputation, the public interface. Theories \<open>Merkle\<close> (the abstract tree), \<open>Lms_Tree\<close>,
    \<open>Lms_Sign\<close>, \<open>Lms_Verify\<close>, \<open>Lms_Api\<close>, with the locales \<open>tree_library\<close>, \<open>sign_library\<close> and
    \<open>verify_library\<close> that extend \<open>ots_library\<close> by one accelerator each.
  \<^item> \<open>src/hss.c\<close>: hierarchical signatures. Theory \<open>Hss\<close>, on the library without accelerators
    (\<open>Software_Library\<close>; the header keeps HSS off the firmware).
  \<^item> \<open>src/lms_subtree.c\<close>: the tree cut into cached subtrees, with an injected allocator and leaf source.
    Theory \<open>Lms_Subtree\<close> has the code; \<open>Subtree_Config\<close> the configurator, \<open>Subtree_Build\<close> the merge
    stack and the subtree invariant, \<open>Subtree_Cache\<close> the locale \<open>cached_tree\<close> in which building, advancing
    and looking up are proved once, \<open>Subtree_Context\<close> its interpretation on contexts made by
    \<open>lms_tree_ctx_init\<close>, \<open>Subtree_Faults\<close> what a failing leaf source does.
  \<^item> \<open>src/lms_coprocess.c\<close>: a whole tree in memory, its one-time keys from a callback. Theory \<open>Lms_Coprocess\<close>.
  \<^item> \<open>fw/lms_soc_smoke.c\<close>, its tree caches: the arena, the binding of the cache to a key and its use. Theory
    \<open>Firmware_Cache\<close> has the code of both builds; \<open>Tree_Cache\<close> is about the software build, \<open>Shared_Arena\<close> about
    the two caches of the cooperative one.
  \<^item> \<open>src/lms_mmio.c\<close>: the client of the accelerator's register interface. Theory \<open>Lms_Mmio\<close>; the
    device is any pair of read and write functions on any state type.
  \<^item> \<open>fw/lms_sec_state.c\<close>: the security state domain of the firmware (authenticated counter records
    in two slots, commit, boot recovery, reserve/sign/commit, UART commands). Theories
    \<open>Sec_State\<close> (the code and one call of \<open>sec_sign\<close>), \<open>Sec_Session\<close> (between two boots),
    \<open>Sec_Power\<close> (across power cycles).
  \<^item> \<open>fw/lms_rnd_det.c\<close>, \<open>fw/lms_rnd_stub.c\<close>, \<open>fw/lms_rnd_trng.c\<close>: the three random sources behind one interface,
    the locale \<open>random_source\<close>, interpreted on each. Theory \<open>Lms_Rnd\<close>, which also links the security domain with the third.
  \<^item> \<open>fw/lms_soc_smoke.c\<close>, its serial command interface in the accelerator build: port, checksums, handlers of the primitive,
    storage, security-state, entropy and flash requests, response frame. Theory \<open>Firmware_Uart\<close>.

  \<open>Prelude\<close> holds the machine types, the operations (state, result and error) in which all stateful
  C functions are written, and the calculus \<open>yields\<close>/\<open>gives\<close> that reads results off them. \<open>Op_Triples\<close>
  adds triples \<open>runs\<close> and \<open>ends\<close> for operations whose state changes shape on the way.

  \<^bold>\<open>How state and operations correspond\<close>

  A C function with side effects is an operation on a record: \<open>lms_lib\<close> for the static variables of
  the library, \<open>lms_mmio_client_t\<close> for the MMIO client, \<open>sec_state_t\<close> for the static variables of the
  security domain, \<open>fw_state\<close> for those of the command loop with its serial port, \<open>tree_state\<close> for the library with a tree context and its allocator, \<open>sw_fw\<close> and \<open>hw_fw\<close>
  for the static variables of the firmware's caches. Error codes are \<open>Inl\<close> values, each early return a branch. Output buffers are
  results; where a caller can see a buffer that was only partly written the definition says so.
  Null pointer arguments, which the C functions reject, have no counterpart unless a call in the
  sources passes one (then the argument is an option). Accelerator callbacks and the bus are
  arguments or record fields, with named contracts where a theorem relies on them.

  \<^bold>\<open>What the theorems show\<close>

  \<^item> Signing: every signature \<open>lms_sign\<close> releases is accepted by \<open>lms_verify\<close> under the generated key,
    leaf indices are never reused, refusals come in the order of the code.
  \<^item> Verification: \<open>lms_verify\<close> decides acceptance; an accepted signature recovers the genuine
    one-time key or exhibits a hash collision; the Winternitz checksum prevents domination.
  \<^item> HSS: initialisation builds a chain of certified keys, signing succeeds while any level has a
    free leaf and its signatures verify, no leaf of any level is used twice over regenerations.
  \<^item> Serialisation: the parsers accept exactly the encodings of valid keys.
  \<^item> Accelerator: coefficient packing round trip, bounded polling, capability gates, registration
    only of usable backends, fast and slow transfers indistinguishable on the bus.
  \<^item> Tree cache: the configurator's choice is optimal and its estimate exact, contexts are laid out as
    estimated, the streamed root is the root of the public key, and any sequence of queries gets the
    authentication paths of RFC 8554; a leaf source that fails in a rebuild leaves a stale subtree behind.
  \<^item> Firmware caches: the software build answers every interleaving of requests for any keys; the two
    caches of the cooperative build occupy the same memory without excluding each other.
  \<^item> Firmware: a leaf is released only after its reservation and its successor are committed; the
    released leaves are strictly increasing between boots and across power cycles, torn writes
    and arbitrary device behaviour.
  \<^item> Random sources: a failure of the entropy source latches and yields zeros, otherwise words are neither repeated nor
    skipped; calls return on devices that answer their polls, and only there; \<open>sec_keygen_key\<close> misses a failure.
  \<^item> Command loop: a committed state record reaches the host through the three read requests and comes back with
    \<open>NVM_LOAD\<close>, changed chunks are refused; a refused request leaves its payload to be executed as requests.

  \<^bold>\<open>Bounds and fuel\<close>

  \<open>lms_tree_node\<close> recurses at most 26 levels (node numbers are 32-bit, trees have height at most 25);
  a call that would go deeper is the error value \<open>LMS_NO_RETURN\<close>, and the tree theorems show that
  calls from node 1 on never reach it. Polling loops without a bound in the code (entropy source, command loop) are partial
  functions into \<open>option\<close>, with \<open>None\<close> for not returning. The searches and merges of the tree cache terminate by a measure. Polling is bounded by \<open>timeout_polls\<close> as in the code. All
  other loops are structural.

  \<^bold>\<open>Not modelled\<close>

  The handlers with which the SoC firmware signs, verifies and generates keys over the serial port (in
  \<open>fw/lms_soc_smoke.c\<close>), its self-test at start-up and \<open>fw/lms_soc_runtime.c\<close> are left out; the library, the client, the caches and
  the security domain that they call are modelled. So are left out benchmarks, tests, the vendored XKCP
  permutation and the hardware description, the cycle stamps of profiling builds
  and the raw pointer access of the direct bus.
\<close>

end
